(* ===== verification/Prelude.thy ===== *)
theory Prelude
  imports Main "HOL-Library.Word" "HOL-Library.Product_Lexorder"
begin

text \<open>
  What every component shares: the fixed-width integer types of the C++ code, the errors a
  call can end in, the sequencing of calls that can fail, and generic facts on lists and maps.

  Signed 64-bit and 32-bit integers (\<open>int64_t\<close>, \<open>int32_t\<close>) are \<^typ>\<open>int\<close> with
  the wrap-around written out by \<open>wrap64\<close>; unsigned ones are words. The opaque 32-byte arrays
  (\<open>uint256\<close>, \<open>Hash\<close>, \<open>AccountID\<close>) are 256-bit words read big-endian, so that
  the lexicographic order of the bytes is the order of the words.
\<close>

unbundle bit_operations_syntax

named_theorems res_simps \<open>evaluation of calls that can fail\<close>
named_theorems key_simps \<open>keys of ledger and bucket entries\<close>

subsection \<open>Types\<close>

type_synonym uint32 = "32 word"
type_synonym uint64 = "64 word"
type_synonym uint256 = "256 word"
type_synonym byte = "8 word"
type_synonym int64 = int
type_synonym int32 = int
type_synonym AccountID = uint256
type_synonym Hash = uint256
type_synonym SequenceNumber = uint64

definition INT64_MAX :: int64 where
  "INT64_MAX = 9223372036854775807"

definition INT64_MIN :: int64 where
  "INT64_MIN = -9223372036854775808"

text \<open>Two's complement reading of the low 64 bits.\<close>

definition wrap64 :: "int \<Rightarrow> int64" where
  "wrap64 i = (i + 9223372036854775808) mod 18446744073709551616 - 9223372036854775808"

abbreviation in64 :: "int \<Rightarrow> bool" where
  "in64 i \<equiv> INT64_MIN \<le> i \<and> i \<le> INT64_MAX"

lemma wrap64_id [simp]: "INT64_MIN \<le> i \<Longrightarrow> i \<le> INT64_MAX \<Longrightarrow> wrap64 i = i"
  by (simp add: wrap64_def INT64_MIN_def INT64_MAX_def)

lemma wrap64_range: "in64 (wrap64 i)"
proof -
  have "0 \<le> (i + 9223372036854775808) mod 18446744073709551616"
    and "(i + 9223372036854775808) mod 18446744073709551616 < 18446744073709551616"
    by simp_all
  then show ?thesis by (simp add: wrap64_def INT64_MIN_def INT64_MAX_def)
qed

lemma wrap64_over: "INT64_MAX < i \<Longrightarrow> i \<le> 2 * INT64_MAX \<Longrightarrow> wrap64 i < 0"
proof -
  assume i: "INT64_MAX < i" "i \<le> 2 * INT64_MAX"
  have "(i + 9223372036854775808) mod 18446744073709551616 =
    (i - 9223372036854775808 + 18446744073709551616) mod 18446744073709551616" by (simp add: add.commute)
  also have "\<dots> = (i - 9223372036854775808) mod 18446744073709551616" by (rule mod_add_self2)
  also have "\<dots> = i - 9223372036854775808"
    using i by (intro mod_pos_pos_trivial) (simp_all add: INT64_MAX_def)
  finally show ?thesis using i by (simp add: wrap64_def INT64_MAX_def)
qed

subsection \<open>Errors and sequencing\<close>

text \<open>
  How a call can end without returning: a failed \<open>assert\<close>, one of the exceptions the code
  throws, or an error raised by the SQL engine (a violated constraint).
\<close>

datatype cpp_error =
    AssertFailed
  | RuntimeError string
  | OverflowError string
  | InvalidArgument string
  | SqlError string

type_synonym 'a res = "cpp_error + 'a"

definition rbind :: "'a res \<Rightarrow> ('a \<Rightarrow> 'b res) \<Rightarrow> 'b res" where
  "rbind m f = (case m of Inl e \<Rightarrow> Inl e | Inr x \<Rightarrow> f x)"

definition rassert :: "bool \<Rightarrow> unit res" where
  "rassert b = (if b then Inr () else Inl AssertFailed)"

lemma rbind_simps [simp, res_simps]:
  "rbind (Inl e) f = Inl e"
  "rbind (Inr x) f = f x"
  by (simp_all add: rbind_def)

lemma rbind_eq_Inr [res_simps]: "rbind m f = Inr y \<longleftrightarrow> (\<exists>x. m = Inr x \<and> f x = Inr y)"
  by (cases m) simp_all

lemma rbind_assoc [res_simps]: "rbind (rbind m f) g = rbind m (\<lambda>x. rbind (f x) g)"
  by (cases m) simp_all

lemma rassert_simps [simp, res_simps]:
  "rassert True = Inr ()"
  "rassert False = Inl AssertFailed"
  "rassert b = Inr u \<longleftrightarrow> b"
  by (simp_all add: rassert_def)

lemma rbind_cong [fundef_cong]:
  "m = m' \<Longrightarrow> (\<And>x. m' = Inr x \<Longrightarrow> f x = g x) \<Longrightarrow> rbind m f = rbind m' g"
  by (cases m') simp_all

end
