(* ===== verification/Util_Types.thy ===== *)
theory Util_Types
  imports Prelude
begin

text \<open>
  \<open>src/util/types.cpp\<close> and the base types of \<open>src/xdr/Payshares-types.x\<close>: currencies,
  prices, the conversion between currency codes and strings, the overflow-safe \<open>A*B/C\<close> that
  all price arithmetic goes through, and the order of prices.
\<close>

subsection \<open>Definitions\<close>

text \<open>A currency code is an opaque array of four bytes.\<close>

type_synonym CurrencyCode = "byte \<times> byte \<times> byte \<times> byte"

datatype Currency =
    NATIVE
  | ISO4217 (currencyCode: CurrencyCode) (issuer: AccountID)

datatype CurrencyType = NATIVE_T | ISO4217_T

fun currency_type :: "Currency \<Rightarrow> CurrencyType" where
  "currency_type NATIVE = NATIVE_T"
| "currency_type (ISO4217 _ _) = ISO4217_T"

record Price =
  price_n :: int32
  price_d :: int32

fun code_bytes :: "CurrencyCode \<Rightarrow> byte list" where
  "code_bytes (a, b, c, d) = [a, b, c, d]"

definition isZero :: "uint256 \<Rightarrow> bool" where
  "isZero b \<longleftrightarrow> b = 0"

definition compareCurrency :: "Currency \<Rightarrow> Currency \<Rightarrow> bool" where
  "compareCurrency first second =
     (if currency_type first \<noteq> currency_type second then False
      else case first of
        NATIVE \<Rightarrow> (case second of NATIVE \<Rightarrow> True | ISO4217 _ _ \<Rightarrow> False)
      | ISO4217 c i \<Rightarrow>
          (case second of NATIVE \<Rightarrow> False | ISO4217 c' i' \<Rightarrow> i = i' \<and> c = c'))"

text \<open>The loop of \<open>currencyCodeToStr\<close>: \<open>n\<close> counts up, \<open>ret\<close> is \<open>retStr\<close>.\<close>

fun currencyCodeToStr_loop :: "nat \<Rightarrow> byte list \<Rightarrow> byte list \<Rightarrow> byte list" where
  "currencyCodeToStr_loop n [] ret = ret"
| "currencyCodeToStr_loop n (c # cs) ret =
     (if c \<noteq> 0 then currencyCodeToStr_loop (Suc n) cs (ret[n := c]) else take n ret)"

definition currencyCodeToStr :: "CurrencyCode \<Rightarrow> byte list" where
  "currencyCodeToStr code = currencyCodeToStr_loop 0 (code_bytes code) [32, 32, 32, 32]"

text \<open>
  \<open>strToCurrencyCode\<close> writes the bytes the string has and leaves the others of \<open>ret\<close> as they are.
\<close>

fun strToCurrencyCode :: "CurrencyCode \<Rightarrow> byte list \<Rightarrow> CurrencyCode" where
  "strToCurrencyCode r [] = r"
| "strToCurrencyCode (a, b, c, d) [w] = (w, b, c, d)"
| "strToCurrencyCode (a, b, c, d) [w, x] = (w, x, c, d)"
| "strToCurrencyCode (a, b, c, d) [w, x, y] = (w, x, y, d)"
| "strToCurrencyCode r (w # x # y # z # _) = (w, x, y, z)"

text \<open>
  The \<open>uint128_t\<close> constructor from an integer sets the upper half to zero and converts the lower
  half to \<open>uint64_t\<close>.
\<close>

definition u128 :: "int \<Rightarrow> 128 word" where
  "u128 i = ucast (of_int i :: 64 word)"

text \<open>The overload with a result parameter: (whether the result is valid, the result).\<close>

definition bigDivide_noThrow :: "int64 \<Rightarrow> int64 \<Rightarrow> int64 \<Rightarrow> (bool \<times> int64) res" where
  "bigDivide_noThrow A B C =
     rbind (rassert (A \<ge> 0 \<and> B \<ge> 0 \<and> C > 0)) (\<lambda>_.
       let x = (u128 A * u128 B) div u128 C
       in Inr (x \<le> u128 INT64_MAX, sint (ucast x :: 64 word)))"

definition bigDivide :: "int64 \<Rightarrow> int64 \<Rightarrow> int64 \<Rightarrow> int64 res" where
  "bigDivide A B C =
     rbind (bigDivide_noThrow A B C) (\<lambda>(valid, res).
       if \<not> valid then Inl (OverflowError ''overflow while performing bigDivide'') else Inr res)"

text \<open>\<open>tolower\<close> of the C locale on bytes.\<close>

definition tolower :: "byte \<Rightarrow> byte" where
  "tolower c = (if 65 \<le> c \<and> c \<le> 90 then c + 32 else c)"

fun iequals_loop :: "byte list \<Rightarrow> byte list \<Rightarrow> bool" where
  "iequals_loop (x # xs) (y # ys) = (if tolower x \<noteq> tolower y then False else iequals_loop xs ys)"
| "iequals_loop _ _ = True"

definition iequals :: "byte list \<Rightarrow> byte list \<Rightarrow> bool" where
  "iequals a b = (if length b \<noteq> length a then False else iequals_loop a b)"

definition price_gt :: "Price \<Rightarrow> Price \<Rightarrow> bool" where
  "price_gt a b = (u128 (price_n a) * u128 (price_d b) > u128 (price_d a) * u128 (price_n b))"

definition price_eq :: "Price \<Rightarrow> Price \<Rightarrow> bool" where
  "price_eq a b \<longleftrightarrow> price_n a = price_n b \<and> price_d a = price_d b"

text \<open>A code with no byte set after a zero byte: what a string of at most four characters encodes to.\<close>

fun canonical_code :: "CurrencyCode \<Rightarrow> bool" where
  "canonical_code (a, b, c, d) \<longleftrightarrow>
     (a = 0 \<longrightarrow> b = 0 \<and> c = 0 \<and> d = 0) \<and> (b = 0 \<longrightarrow> c = 0 \<and> d = 0) \<and> (c = 0 \<longrightarrow> d = 0)"

text \<open>The order \<open>xdr::operator<\<close> gives unions and structs: the discriminant, then field by field.\<close>

fun currency_rank :: "Currency \<Rightarrow> nat \<times> CurrencyCode \<times> AccountID" where
  "currency_rank NATIVE = (0, (0, 0, 0, 0), 0)"
| "currency_rank (ISO4217 c i) = (1, c, i)"

instantiation Currency :: linorder
begin

definition less_Currency :: "Currency \<Rightarrow> Currency \<Rightarrow> bool" where
  "less_Currency a b \<longleftrightarrow> currency_rank a < currency_rank b"

definition less_eq_Currency :: "Currency \<Rightarrow> Currency \<Rightarrow> bool" where
  "less_eq_Currency a b \<longleftrightarrow> currency_rank a \<le> currency_rank b"

instance
proof
  have inj: "currency_rank a = currency_rank b \<longleftrightarrow> a = b" for a b
    by (cases a; cases b) auto
  fix x y z :: Currency
  show "(x < y) = (x \<le> y \<and> \<not> y \<le> x)" by (auto simp: less_Currency_def less_eq_Currency_def)
  show "x \<le> x" by (simp add: less_eq_Currency_def)
  show "x \<le> y \<Longrightarrow> y \<le> z \<Longrightarrow> x \<le> z" by (auto simp: less_eq_Currency_def)
  show "x \<le> y \<Longrightarrow> y \<le> x \<Longrightarrow> x = y" by (auto simp: less_eq_Currency_def inj [symmetric])
  show "x \<le> y \<or> y \<le> x" by (auto simp: less_eq_Currency_def)
qed

end

subsection \<open>Currencies and their codes\<close>

lemma compareCurrency_iff: "compareCurrency a b \<longleftrightarrow> a = b"
  by (cases a; cases b) (auto simp: compareCurrency_def)

lemma currencyCodeToStr_takeWhile:
  "currencyCodeToStr code = takeWhile (\<lambda>b. b \<noteq> 0) (code_bytes code)"
  by (cases code) (simp add: currencyCodeToStr_def)

lemma strToCurrencyCode_toStr:
  "canonical_code code \<Longrightarrow> strToCurrencyCode (0, 0, 0, 0) (currencyCodeToStr code) = code"
  by (cases code) (auto simp: currencyCodeToStr_takeWhile)

lemma canonical_strToCurrencyCode:
  "0 \<notin> set s \<Longrightarrow> canonical_code (strToCurrencyCode (0, 0, 0, 0) s)"
  by (cases "((0, 0, 0, 0) :: CurrencyCode, s)" rule: strToCurrencyCode.cases) auto

subsection \<open>128-bit intermediate results\<close>

lemma uint_u128: "0 \<le> i \<Longrightarrow> i < 18446744073709551616 \<Longrightarrow> uint (u128 i) = i"
  by (simp add: u128_def unsigned_ucast_eq take_bit_eq_mod uint_word_of_int)

lemma uint_u128_mult:
  assumes "0 \<le> a" "a \<le> INT64_MAX" "0 \<le> b" "b \<le> INT64_MAX"
  shows "uint (u128 a * u128 b) = a * b"
proof -
  have "a * b \<le> INT64_MAX * INT64_MAX"
    by (intro mult_mono) (use assms in \<open>simp_all add: INT64_MAX_def\<close>)
  then have "a * b < 2 ^ 128" by (simp add: INT64_MAX_def)
  moreover have "uint (u128 a) = a" "uint (u128 b) = b"
    using assms by (simp_all add: uint_u128 INT64_MAX_def)
  ultimately show ?thesis
    using assms by (simp add: uint_word_ariths)
qed

lemma uint_bigDivide:
  assumes "0 \<le> A" "A \<le> INT64_MAX" "0 \<le> B" "B \<le> INT64_MAX" "0 < C" "C \<le> INT64_MAX"
  shows "uint ((u128 A * u128 B) div u128 C) = A * B div C"
  using assms uint_u128_mult [of A B] uint_u128 [of C]
  by (simp add: uint_div INT64_MAX_def)

lemma sint_ucast_128:
  "uint (x :: 128 word) \<le> INT64_MAX \<Longrightarrow> sint (ucast x :: 64 word) = uint x"
  by (simp add: INT64_MAX_def signed_ucast_eq signed_take_bit_int_eq_self_iff)
    (rule order_trans [OF _ uint_ge_0], simp)

lemma bigDivide_noThrow_valid:
  assumes "0 \<le> A" "A \<le> INT64_MAX" "0 \<le> B" "B \<le> INT64_MAX" "0 < C" "C \<le> INT64_MAX"
    and "A * B div C \<le> INT64_MAX"
  shows "bigDivide_noThrow A B C = Inr (True, A * B div C)"
  using assms uint_bigDivide [OF assms(1-6)]
  by (simp add: bigDivide_noThrow_def word_le_def uint_u128 sint_ucast_128 Let_def)
    (simp add: INT64_MAX_def uint_u128)

lemma bigDivide_noThrow_overflow:
  assumes "0 \<le> A" "A \<le> INT64_MAX" "0 \<le> B" "B \<le> INT64_MAX" "0 < C" "C \<le> INT64_MAX"
    and "INT64_MAX < A * B div C"
  shows "\<exists>r. bigDivide_noThrow A B C = Inr (False, r)"
  using assms uint_bigDivide [OF assms(1-6)] uint_u128 [of INT64_MAX]
  by (simp add: bigDivide_noThrow_def word_le_def Let_def INT64_MAX_def)

lemmas bigDivide_noThrow_cases = bigDivide_noThrow_valid bigDivide_noThrow_overflow

text \<open>
  \<open>bigDivide(A, B, C)\<close> on non-negative 64-bit arguments with a positive divisor is the
  exact integer quotient of the unbounded product whenever that quotient fits in a signed 64-bit
  integer, and the overflow exception otherwise: the product never wraps in the intermediate result.
\<close>

theorem bigDivide_exact:
  assumes "0 \<le> A" "A \<le> INT64_MAX" "0 \<le> B" "B \<le> INT64_MAX" "0 < C" "C \<le> INT64_MAX"
  shows "bigDivide A B C =
    (if A * B div C \<le> INT64_MAX then Inr (A * B div C)
     else Inl (OverflowError ''overflow while performing bigDivide''))"
proof (cases "A * B div C \<le> INT64_MAX")
  case True
  then show ?thesis by (simp add: bigDivide_def bigDivide_noThrow_valid [OF assms])
next
  case False
  then obtain r where "bigDivide_noThrow A B C = Inr (False, r)"
    using bigDivide_noThrow_overflow [OF assms] by auto
  with False show ?thesis by (simp add: bigDivide_def)
qed

theorem bigDivide_exact_witness:
  "bigDivide 9223372036854775807 2000000000 4000000000 = Inr 4611686018427387903 \<and>
   bigDivide 9223372036854775807 3 2 = Inl (OverflowError ''overflow while performing bigDivide'')"
  using bigDivide_exact [of 9223372036854775807 2000000000 4000000000]
    bigDivide_exact [of 9223372036854775807 3 2]
  by (simp add: INT64_MAX_def)

text \<open>
  A currency code survives the trip through its database string, provided no byte follows a
  zero byte: \<open>strToCurrencyCode\<close> into a zeroed code gives back what \<open>currencyCodeToStr\<close> printed,
  and printing what was parsed gives back the string.
\<close>

theorem currency_code_roundtrip:
  assumes "canonical_code code" and "length s \<le> 4" and "0 \<notin> set s"
  shows "strToCurrencyCode (0, 0, 0, 0) (currencyCodeToStr code) = code \<and>
    currencyCodeToStr (strToCurrencyCode (0, 0, 0, 0) s) = s"
proof
  show "strToCurrencyCode (0, 0, 0, 0) (currencyCodeToStr code) = code"
    using assms(1) by (rule strToCurrencyCode_toStr)
  show "currencyCodeToStr (strToCurrencyCode (0, 0, 0, 0) s) = s"
    using assms(2,3)
    by (cases "((0, 0, 0, 0) :: CurrencyCode, s)" rule: strToCurrencyCode.cases)
      (auto simp: currencyCodeToStr_takeWhile)
qed

theorem currency_code_roundtrip_witness:
  "strToCurrencyCode (0, 0, 0, 0) (currencyCodeToStr (85, 83, 68, 0)) = (85, 83, 68, 0) \<and>
   currencyCodeToStr (strToCurrencyCode (0, 0, 0, 0) [85, 83, 68]) = [85, 83, 68]"
  by (rule currency_code_roundtrip) simp_all

text \<open>
  The comparison of prices is the comparison of the fractions: for positive 32-bit numerators
  and denominators, \<open>a > b\<close> holds exactly when \<open>a.n/a.d > b.n/b.d\<close>, and the products do
  not wrap.
\<close>

theorem price_gt_fraction:
  assumes "0 < price_n a" "price_n a < 2 ^ 31" "0 < price_d a" "price_d a < 2 ^ 31"
    and "0 < price_n b" "price_n b < 2 ^ 31" "0 < price_d b" "price_d b < 2 ^ 31"
  shows "price_gt a b \<longleftrightarrow> price_n a * price_d b > price_n b * price_d a"
proof -
  have "uint (u128 (price_n a) * u128 (price_d b)) = price_n a * price_d b"
    and "uint (u128 (price_d a) * u128 (price_n b)) = price_d a * price_n b"
    using assms by (simp_all add: uint_u128_mult INT64_MAX_def)
  then show ?thesis by (simp add: price_gt_def word_less_def mult.commute)
qed

theorem price_gt_fraction_witness:
  "price_gt \<lparr>price_n = 3, price_d = 2\<rparr> \<lparr>price_n = 4, price_d = 3\<rparr>"
  using price_gt_fraction [of "\<lparr>price_n = 3, price_d = 2\<rparr>" "\<lparr>price_n = 4, price_d = 3\<rparr>"]
  by simp

end
