(* ===== verification/Ledger_Entries.thy ===== *)
theory Ledger_Entries
  imports Util_Types
begin

text \<open>
  The ledger entries of \<open>src/xdr/Payshares-ledger-entries.x\<close>, their keys
  (\<open>LedgerEntryKey\<close> of \<open>src/bucket/Bucket.cpp\<close>) and the identity comparisons of
  \<open>src/bucket/LedgerCmp.h\<close>, on which the sorted buckets and the maps of \<open>LedgerDelta\<close> rest.
\<close>

subsection \<open>Entries\<close>

record Signer =
  sig_pubKey :: uint256
  sig_weight :: uint32

type_synonym Thresholds = "byte \<times> byte \<times> byte \<times> byte"

record AccountEntry =
  ae_accountID :: AccountID
  ae_balance :: int64
  ae_seqNum :: SequenceNumber
  ae_numSubEntries :: uint32
  ae_inflationDest :: "AccountID option"
  ae_flags :: uint32
  ae_thresholds :: Thresholds
  ae_signers :: "Signer list"

record TrustLineEntry =
  tl_accountID :: AccountID
  tl_currency :: Currency
  tl_balance :: int64
  tl_limit :: int64
  tl_authorized :: bool

record OfferEntry =
  oe_accountID :: AccountID
  oe_offerID :: uint64
  oe_takerGets :: Currency
  oe_takerPays :: Currency
  oe_amount :: int64
  oe_price :: Price

datatype LedgerEntryType = ACCOUNT_T | TRUSTLINE_T | OFFER_T

datatype LedgerEntry =
    ACCOUNT AccountEntry
  | TRUSTLINE TrustLineEntry
  | OFFER OfferEntry

datatype LedgerKey =
    AccountKey AccountID
  | TrustLineKey AccountID Currency
  | OfferKey AccountID uint64

fun LedgerEntryKey :: "LedgerEntry \<Rightarrow> LedgerKey" where
  "LedgerEntryKey (ACCOUNT a) = AccountKey (ae_accountID a)"
| "LedgerEntryKey (TRUSTLINE t) = TrustLineKey (tl_accountID t) (tl_currency t)"
| "LedgerEntryKey (OFFER f) = OfferKey (oe_accountID f) (oe_offerID f)"

subsection \<open>Identity comparison\<close>

text \<open>
  \<open>LedgerEntryIdCmp\<close> is a template over the two argument types, each a \<open>LedgerEntry\<close> or a
  \<open>LedgerKey\<close>: both offer \<open>type()\<close> and the identifying fields.
\<close>

datatype Identified = IdEntry LedgerEntry | IdKey LedgerKey

fun id_type :: "Identified \<Rightarrow> LedgerEntryType" where
  "id_type (IdEntry (ACCOUNT _)) = ACCOUNT_T"
| "id_type (IdEntry (TRUSTLINE _)) = TRUSTLINE_T"
| "id_type (IdEntry (OFFER _)) = OFFER_T"
| "id_type (IdKey (AccountKey _)) = ACCOUNT_T"
| "id_type (IdKey (TrustLineKey _ _)) = TRUSTLINE_T"
| "id_type (IdKey (OfferKey _ _)) = OFFER_T"

fun id_accountID :: "Identified \<Rightarrow> AccountID" where
  "id_accountID (IdEntry (ACCOUNT a)) = ae_accountID a"
| "id_accountID (IdEntry (TRUSTLINE t)) = tl_accountID t"
| "id_accountID (IdEntry (OFFER f)) = oe_accountID f"
| "id_accountID (IdKey (AccountKey a)) = a"
| "id_accountID (IdKey (TrustLineKey a _)) = a"
| "id_accountID (IdKey (OfferKey a _)) = a"

text \<open>Read only on trust lines and on offers respectively, as the code does.\<close>

fun id_currency :: "Identified \<Rightarrow> Currency" where
  "id_currency (IdEntry (TRUSTLINE t)) = tl_currency t"
| "id_currency (IdKey (TrustLineKey _ c)) = c"
| "id_currency _ = NATIVE"

fun id_offerID :: "Identified \<Rightarrow> uint64" where
  "id_offerID (IdEntry (OFFER f)) = oe_offerID f"
| "id_offerID (IdKey (OfferKey _ n)) = n"
| "id_offerID _ = 0"

fun type_number :: "LedgerEntryType \<Rightarrow> nat" where
  "type_number ACCOUNT_T = 0"
| "type_number TRUSTLINE_T = 1"
| "type_number OFFER_T = 2"

definition LedgerEntryIdCmp :: "Identified \<Rightarrow> Identified \<Rightarrow> bool" where
  "LedgerEntryIdCmp a b =
     (if type_number (id_type a) < type_number (id_type b) then True
      else if type_number (id_type a) > type_number (id_type b) then False
      else case id_type a of
        ACCOUNT_T \<Rightarrow> id_accountID a < id_accountID b
      | TRUSTLINE_T \<Rightarrow>
          (if id_accountID a < id_accountID b then True
           else if id_accountID a > id_accountID b then False
           else id_currency a < id_currency b)
      | OFFER_T \<Rightarrow>
          (if id_accountID a < id_accountID b then True
           else if id_accountID a > id_accountID b then False
           else id_offerID a < id_offerID b))"

datatype BucketEntry = LIVEENTRY LedgerEntry | DEADENTRY LedgerKey

definition BucketEntryIdCmp :: "BucketEntry \<Rightarrow> BucketEntry \<Rightarrow> bool" where
  "BucketEntryIdCmp a b =
     (case a of
        LIVEENTRY la \<Rightarrow>
          (case b of LIVEENTRY lb \<Rightarrow> LedgerEntryIdCmp (IdEntry la) (IdEntry lb)
                   | DEADENTRY db \<Rightarrow> LedgerEntryIdCmp (IdEntry la) (IdKey db))
      | DEADENTRY da \<Rightarrow>
          (case b of LIVEENTRY lb \<Rightarrow> LedgerEntryIdCmp (IdKey da) (IdEntry lb)
                   | DEADENTRY db \<Rightarrow> LedgerEntryIdCmp (IdKey da) (IdKey db)))"

subsection \<open>The order of keys\<close>

text \<open>Keys are ordered by type, account, currency and offer number.\<close>

fun key_rank :: "LedgerKey \<Rightarrow> nat \<times> AccountID \<times> Currency \<times> uint64" where
  "key_rank (AccountKey a) = (0, a, NATIVE, 0)"
| "key_rank (TrustLineKey a c) = (1, a, c, 0)"
| "key_rank (OfferKey a n) = (2, a, NATIVE, n)"

lemma key_rank_inj: "key_rank a = key_rank b \<longleftrightarrow> a = b"
  by (cases a; cases b) auto

instantiation LedgerKey :: linorder
begin

definition less_LedgerKey :: "LedgerKey \<Rightarrow> LedgerKey \<Rightarrow> bool" where
  "less_LedgerKey a b \<longleftrightarrow> key_rank a < key_rank b"

definition less_eq_LedgerKey :: "LedgerKey \<Rightarrow> LedgerKey \<Rightarrow> bool" where
  "less_eq_LedgerKey a b \<longleftrightarrow> key_rank a \<le> key_rank b"

instance
  by standard (auto simp: less_LedgerKey_def less_eq_LedgerKey_def key_rank_inj [symmetric])

end

fun id_key :: "Identified \<Rightarrow> LedgerKey" where
  "id_key (IdEntry e) = LedgerEntryKey e"
| "id_key (IdKey k) = k"

fun bkey :: "BucketEntry \<Rightarrow> LedgerKey" where
  "bkey (LIVEENTRY e) = LedgerEntryKey e"
| "bkey (DEADENTRY k) = k"

lemma id_cases_rank:
  "key_rank (id_key a) =
     (type_number (id_type a), id_accountID a,
      if id_type a = TRUSTLINE_T then id_currency a else NATIVE,
      if id_type a = OFFER_T then id_offerID a else 0)"
proof (cases a)
  case (IdEntry e)
  then show ?thesis by (cases e) simp_all
next
  case (IdKey k)
  then show ?thesis by (cases k) simp_all
qed

lemma type_number_inj [simp]: "type_number s = type_number t \<longleftrightarrow> s = t"
  by (cases s; cases t) simp_all

lemma LedgerEntryIdCmp_key: "LedgerEntryIdCmp a b \<longleftrightarrow> id_key a < id_key b"
proof (cases "id_type a = id_type b")
  case True
  then show ?thesis
    by (cases "id_type b")
      (auto simp: LedgerEntryIdCmp_def less_LedgerKey_def id_cases_rank)
next
  case False
  then have "type_number (id_type a) \<noteq> type_number (id_type b)" by simp
  then show ?thesis
    by (auto simp: LedgerEntryIdCmp_def less_LedgerKey_def id_cases_rank)
qed

lemma BucketEntryIdCmp_key [key_simps]: "BucketEntryIdCmp a b \<longleftrightarrow> bkey a < bkey b"
  by (cases a; cases b) (simp_all add: BucketEntryIdCmp_def LedgerEntryIdCmp_key)

text \<open>
  The comparison documented as ``could be implemented in terms of extracting two keys'' is
  exactly that: comparing two entries or keys by identity is comparing their keys in one linear
  order, so that neither is less than the other exactly when the keys are equal.
\<close>

theorem LedgerEntryIdCmp_identity:
  "LedgerEntryIdCmp a b = (id_key a < id_key b) \<and>
   (\<not> LedgerEntryIdCmp a b \<and> \<not> LedgerEntryIdCmp b a) = (id_key a = id_key b) \<and>
   BucketEntryIdCmp x y = (bkey x < bkey y)"
  by (auto simp: LedgerEntryIdCmp_key BucketEntryIdCmp_key)

end
