(* ===== verification/Buckets.thy ===== *)
theory Buckets
  imports Ledger_Entries
begin

text \<open>
  \<open>src/bucket/Bucket.cpp\<close>: buckets, their construction from a batch of changes and their merge.

  A bucket is the sequence of entries its file holds; the default constructed bucket, which has no
  file, is the empty sequence, and \<open>OutputIterator::getBucket\<close> returns it when nothing was put.
  An \<open>InputIterator\<close> is the part of the file still to be read: it is false when that is empty.
  The hash of a bucket is the running SHA-256 of what was written, a function of the entries given
  as the parameter \<open>H\<close>; the bucket without a file has the zero hash.
\<close>

subsection \<open>Definitions\<close>

type_synonym Bucket = "BucketEntry list"

definition bucket_hash :: "(Bucket \<Rightarrow> Hash) \<Rightarrow> Bucket \<Rightarrow> Hash" where
  "bucket_hash H b = (if b = [] then 0 else H b)"

fun containsBucketIdentity :: "Bucket \<Rightarrow> BucketEntry \<Rightarrow> bool" where
  "containsBucketIdentity [] i = False"
| "containsBucketIdentity (e # iter) i =
     (if \<not> (BucketEntryIdCmp e i \<or> BucketEntryIdCmp i e) then True
      else containsBucketIdentity iter i)"

fun countLiveAndDeadEntries_loop :: "Bucket \<Rightarrow> nat \<Rightarrow> nat \<Rightarrow> nat \<times> nat" where
  "countLiveAndDeadEntries_loop [] live dead = (live, dead)"
| "countLiveAndDeadEntries_loop (LIVEENTRY _ # iter) live dead =
     countLiveAndDeadEntries_loop iter (Suc live) dead"
| "countLiveAndDeadEntries_loop (DEADENTRY _ # iter) live dead =
     countLiveAndDeadEntries_loop iter live (Suc dead)"

definition countLiveAndDeadEntries :: "Bucket \<Rightarrow> nat \<times> nat" where
  "countLiveAndDeadEntries b = countLiveAndDeadEntries_loop b 0 0"

text \<open>
  The scan of \<open>maybe_put\<close> over the shadow iterators: each is advanced while it is behind the
  candidate; at the first that stands on the candidate's key the scan returns, leaving the later
  iterators where they are. The result is the advanced iterators and whether the candidate is
  shadowed.
\<close>

fun shadow_scan :: "BucketEntry \<Rightarrow> Bucket list \<Rightarrow> Bucket list \<times> bool" where
  "shadow_scan inp [] = ([], False)"
| "shadow_scan inp (si # sis) =
     (let si' = dropWhile (\<lambda>s. BucketEntryIdCmp s inp) si
      in if si' \<noteq> [] \<and> \<not> BucketEntryIdCmp inp (hd si') then (si' # sis, True)
         else let (sis', shadowed) = shadow_scan inp sis in (si' # sis', shadowed))"

definition maybe_put :: "Bucket \<Rightarrow> BucketEntry \<Rightarrow> Bucket list \<Rightarrow> Bucket list \<times> Bucket" where
  "maybe_put out inp sis =
     (let (sis', shadowed) = shadow_scan inp sis
      in (sis', if shadowed then out else out @ [inp]))"

text \<open>The loop of \<open>Bucket::merge\<close>: the old and new iterators, the shadow iterators, the output.\<close>

fun merge_loop :: "Bucket \<Rightarrow> Bucket \<Rightarrow> Bucket list \<Rightarrow> Bucket \<Rightarrow> Bucket" where
  "merge_loop [] [] sis out = out"
| "merge_loop (e # oi) [] sis out =
     (let (sis', out') = maybe_put out e sis in merge_loop oi [] sis' out')"
| "merge_loop [] (n # ni) sis out =
     (let (sis', out') = maybe_put out n sis in merge_loop [] ni sis' out')"
| "merge_loop (e # oi) (n # ni) sis out =
     (if BucketEntryIdCmp e n then
        let (sis', out') = maybe_put out e sis in merge_loop oi (n # ni) sis' out'
      else if BucketEntryIdCmp n e then
        let (sis', out') = maybe_put out n sis in merge_loop (e # oi) ni sis' out'
      else
        let (sis', out') = maybe_put out n sis in merge_loop oi ni sis' out')"

definition merge :: "Bucket \<Rightarrow> Bucket \<Rightarrow> Bucket list \<Rightarrow> Bucket" where
  "merge oldBucket newBucket shadows = merge_loop oldBucket newBucket shadows []"

text \<open>\<open>std::sort\<close> by identity; its result is determined where no two entries have the same key.\<close>

definition fresh :: "LedgerEntry list \<Rightarrow> LedgerKey list \<Rightarrow> Bucket" where
  "fresh liveEntries deadEntries =
     (let live = sort_key bkey (map LIVEENTRY liveEntries);
          dead = sort_key bkey (map DEADENTRY deadEntries)
      in merge live dead [])"

subsection \<open>Buckets as finite maps\<close>

definition bucket_wf :: "Bucket \<Rightarrow> bool" where
  "bucket_wf b \<longleftrightarrow> sorted_wrt (<) (map bkey b)"

abbreviation bkeys :: "Bucket \<Rightarrow> LedgerKey set" where
  "bkeys b \<equiv> bkey ` set b"

definition blookup :: "Bucket \<Rightarrow> LedgerKey \<Rightarrow> BucketEntry option" where
  "blookup b = map_of (map (\<lambda>e. (bkey e, e)) b)"

definition shadow_keys :: "Bucket list \<Rightarrow> LedgerKey set" where
  "shadow_keys sis = (\<Union>b \<in> set sis. bkeys b)"

text \<open>The merge without shadows, the reference for the loop.\<close>

fun plain_merge :: "Bucket \<Rightarrow> Bucket \<Rightarrow> Bucket" where
  "plain_merge [] ni = ni"
| "plain_merge oi [] = oi"
| "plain_merge (e # oi) (n # ni) =
     (if bkey e < bkey n then e # plain_merge oi (n # ni)
      else if bkey n < bkey e then n # plain_merge (e # oi) ni
      else n # plain_merge oi ni)"

lemma bucket_wf_Nil [simp]: "bucket_wf []"
  by (simp add: bucket_wf_def)

lemma bucket_wf_Cons [simp]:
  "bucket_wf (e # b) \<longleftrightarrow> (\<forall>x \<in> set b. bkey e < bkey x) \<and> bucket_wf b"
  by (simp add: bucket_wf_def)

lemma blookup_Nil [simp]: "blookup [] k = None"
  by (simp add: blookup_def)

lemma blookup_Cons [simp]: "blookup (e # b) k = (if bkey e = k then Some e else blookup b k)"
  by (auto simp: blookup_def)

lemma blookup_None_iff: "blookup b k = None \<longleftrightarrow> k \<notin> bkeys b"
  by (induction b) auto

lemma blookup_Some_key: "blookup b k = Some e \<Longrightarrow> e \<in> set b \<and> bkey e = k"
  by (induction b) (auto split: if_splits)

lemma blookup_filter_notin:
  "blookup (filter (\<lambda>e. bkey e \<notin> K) b) k = (if k \<in> K then None else blookup b k)"
  by (induction b) auto

lemma bucket_wf_filter: "bucket_wf b \<Longrightarrow> bucket_wf (filter P b)"
  by (induction b) auto

subsection \<open>The plain merge\<close>

lemma plain_merge_Nil2 [simp]: "plain_merge b [] = b"
  by (cases b) auto

lemma bkeys_plain_merge: "bkeys (plain_merge oi ni) = bkeys oi \<union> bkeys ni"
proof (induction oi ni rule: plain_merge.induct)
  case (3 e oi n ni)
  then show ?case by (cases "bkey e" "bkey n" rule: linorder_cases) auto
qed auto

lemma set_plain_merge: "set (plain_merge oi ni) \<subseteq> set oi \<union> set ni"
  by (induction oi ni rule: plain_merge.induct) auto

lemma ball_plain_merge:
  "\<forall>x \<in> set oi. P x \<Longrightarrow> \<forall>x \<in> set ni. P x \<Longrightarrow> \<forall>x \<in> set (plain_merge oi ni). P x"
  using set_plain_merge by fast

lemma bucket_wf_plain_merge:
  "bucket_wf oi \<Longrightarrow> bucket_wf ni \<Longrightarrow> bucket_wf (plain_merge oi ni)"
proof (induction oi ni rule: plain_merge.induct)
  case (3 e oi n ni)
  show ?case
  proof (cases "bkey e" "bkey n" rule: linorder_cases)
    case less
    with 3 have "\<forall>x \<in> set (plain_merge oi (n # ni)). bkey e < bkey x"
      by (intro ball_plain_merge) (auto dest: order.strict_trans)
    with less 3 show ?thesis by simp
  next
    case equal
    with 3 have "\<forall>x \<in> set (plain_merge oi ni). bkey n < bkey x"
      by (intro ball_plain_merge) auto
    with equal 3 show ?thesis by simp
  next
    case greater
    with 3 have "\<forall>x \<in> set (plain_merge (e # oi) ni). bkey n < bkey x"
      by (intro ball_plain_merge) (auto dest: order.strict_trans)
    moreover have "\<not> bkey e < bkey n" using greater by simp
    ultimately show ?thesis using greater 3 by simp
  qed
qed auto

lemma blookup_notin: "(\<And>x. x \<in> set b \<Longrightarrow> k < bkey x) \<Longrightarrow> blookup b k = None"
  by (auto simp: blookup_None_iff)

lemma blookup_plain_merge:
  "bucket_wf oi \<Longrightarrow> bucket_wf ni \<Longrightarrow>
   blookup (plain_merge oi ni) k = (case blookup ni k of None \<Rightarrow> blookup oi k | Some e \<Rightarrow> Some e)"
proof (induction oi ni rule: plain_merge.induct)
  case (3 e oi n ni)
  show ?case
  proof (cases "bkey e" "bkey n" rule: linorder_cases)
    case less
    with 3 have "blookup (n # ni) (bkey e) = None"
      by (intro blookup_notin) (auto dest: order.strict_trans)
    with less 3 show ?thesis by (auto split: option.splits if_splits)
  next
    case equal
    with 3 show ?thesis by (auto split: option.splits)
  next
    case greater
    then have "\<not> bkey e < bkey n" by simp
    with greater 3 show ?thesis by (auto split: option.splits)
  qed
qed (auto split: option.splits)

subsection \<open>Shadowing\<close>

lemma shadow_keys_simps [simp]:
  "shadow_keys [] = {}"
  "shadow_keys (b # sis) = bkeys b \<union> shadow_keys sis"
  by (auto simp: shadow_keys_def)

lemma dropWhile_behind:
  assumes "bucket_wf b"
  shows "bkeys (dropWhile (\<lambda>s. bkey s < k) b) = {x \<in> bkeys b. k \<le> x}"
  using assms by (induction b) (auto simp: not_less)

lemma bucket_wf_dropWhile: "bucket_wf b \<Longrightarrow> bucket_wf (dropWhile P b)"
  by (induction b) auto

lemma dropWhile_at_key:
  assumes "bucket_wf b"
  shows "(dropWhile (\<lambda>s. bkey s < k) b \<noteq> [] \<and> \<not> k < bkey (hd (dropWhile (\<lambda>s. bkey s < k) b)))
     \<longleftrightarrow> k \<in> bkeys b"
  using assms by (induction b) (auto simp: not_less)

text \<open>
  The scan answers whether the candidate's key is among the shadows, and what it skips is behind
  the candidate: for every later key the shadows are the same as before.
\<close>

lemma shadow_scan_spec:
  assumes "\<forall>b \<in> set sis. bucket_wf b" and "shadow_scan inp sis = (sis', shadowed)"
  shows "(shadowed \<longleftrightarrow> bkey inp \<in> shadow_keys sis) \<and>
    (\<forall>k. bkey inp \<le> k \<longrightarrow> (k \<in> shadow_keys sis' \<longleftrightarrow> k \<in> shadow_keys sis)) \<and>
    (\<forall>b \<in> set sis'. bucket_wf b)"
  using assms
proof (induction sis arbitrary: sis')
  case Nil
  then show ?case by simp
next
  case (Cons si sis)
  define si' where "si' = dropWhile (\<lambda>s. bkey s < bkey inp) si"
  from Cons.prems have wf: "bucket_wf si" by simp
  have keys: "bkeys si' = {x \<in> bkeys si. bkey inp \<le> x}"
    unfolding si'_def using wf by (rule dropWhile_behind)
  have at: "(si' \<noteq> [] \<and> \<not> bkey inp < bkey (hd si')) \<longleftrightarrow> bkey inp \<in> bkeys si"
    unfolding si'_def using wf by (rule dropWhile_at_key)
  have wf': "bucket_wf si'" unfolding si'_def using wf by (rule bucket_wf_dropWhile)
  show ?case
  proof (cases "bkey inp \<in> bkeys si")
    case True
    with Cons.prems at have "sis' = si' # sis" "shadowed"
      by (auto simp: si'_def BucketEntryIdCmp_key Let_def)
    with True keys wf' Cons.prems(1) show ?thesis by auto
  next
    case False
    obtain rest where rest: "shadow_scan inp sis = (rest, shadowed)" "sis' = si' # rest"
      using Cons.prems(2) False at
      by (auto simp: si'_def BucketEntryIdCmp_key Let_def split: prod.splits)
    from Cons.IH [OF _ rest(1)] Cons.prems(1) False keys wf' rest(2) show ?thesis by auto
  qed
qed

abbreviation unshadowed :: "Bucket list \<Rightarrow> Bucket \<Rightarrow> Bucket" where
  "unshadowed sis \<equiv> filter (\<lambda>e. bkey e \<notin> shadow_keys sis)"

lemma unshadowed_cong:
  assumes "\<forall>k. k0 \<le> k \<longrightarrow> (k \<in> shadow_keys sis' \<longleftrightarrow> k \<in> shadow_keys sis)"
    and "\<forall>x \<in> set b. k0 < bkey x"
  shows "unshadowed sis' b = unshadowed sis b"
  using assms by (intro filter_cong) (auto dest!: less_imp_le)

text \<open>One round of the loop: put the candidate unless shadowed, go on with the rest.\<close>

lemma maybe_put_step:
  assumes "\<forall>b \<in> set sis. bucket_wf b" and "\<forall>x \<in> set rest. bkey e < bkey x"
    and "maybe_put out e sis = (sis', out')"
  shows "out' @ unshadowed sis' rest = out @ unshadowed sis (e # rest) \<and>
    (\<forall>b \<in> set sis'. bucket_wf b)"
proof -
  obtain shadowed where scan: "shadow_scan e sis = (sis', shadowed)"
    and out': "out' = (if shadowed then out else out @ [e])"
    using assms(3) by (auto simp: maybe_put_def split: prod.splits)
  note spec = shadow_scan_spec [OF assms(1) scan]
  have "unshadowed sis' rest = unshadowed sis rest"
    using spec assms(2) by (intro unshadowed_cong [of "bkey e"]) auto
  with spec out' show ?thesis by auto
qed

lemma merge_loop_plain:
  assumes "bucket_wf oi" "bucket_wf ni" "\<forall>b \<in> set sis. bucket_wf b"
  shows "merge_loop oi ni sis out = out @ unshadowed sis (plain_merge oi ni)"
  using assms
proof (induction oi ni sis out rule: merge_loop.induct)
  case (1 sis out)
  then show ?case by simp
next
  case (2 e oi sis out)
  obtain sis' out' where put: "maybe_put out e sis = (sis', out')" by fastforce
  from "2.prems" maybe_put_step [OF _ _ put, of oi] "2.IH" [OF put [symmetric] refl] put
  show ?case by simp
next
  case (3 n ni sis out)
  obtain sis' out' where put: "maybe_put out n sis = (sis', out')" by fastforce
  from "3.prems" maybe_put_step [OF _ _ put, of ni] "3.IH" [OF put [symmetric] refl] put
  show ?case by simp
next
  case (4 e oi n ni sis out)
  have wf: "bucket_wf (plain_merge (e # oi) (n # ni))"
    using "4.prems" by (intro bucket_wf_plain_merge)
  obtain sis1 out1 where put1: "maybe_put out e sis = (sis1, out1)" by fastforce
  obtain sis2 out2 where put2: "maybe_put out n sis = (sis2, out2)" by fastforce
  show ?case
  proof (cases "bkey e" "bkey n" rule: linorder_cases)
    case less
    with wf maybe_put_step [OF "4.prems"(3) _ put1, of "plain_merge oi (n # ni)"]
      "4.IH"(1) [OF _ put1 [symmetric] refl] "4.prems" put1
    show ?thesis by (simp add: BucketEntryIdCmp_key)
  next
    case equal
    with wf maybe_put_step [OF "4.prems"(3) _ put2, of "plain_merge oi ni"]
      "4.IH"(3) [OF _ _ put2 [symmetric] refl] "4.prems" put2
    show ?thesis by (simp add: BucketEntryIdCmp_key)
  next
    case greater
    then have "\<not> bkey e < bkey n" by simp
    with greater wf maybe_put_step [OF "4.prems"(3) _ put2, of "plain_merge (e # oi) ni"]
      "4.IH"(2) [OF _ _ put2 [symmetric] refl] "4.prems" put2
    show ?thesis by (simp add: BucketEntryIdCmp_key)
  qed
qed

lemma merge_plain:
  "bucket_wf oi \<Longrightarrow> bucket_wf ni \<Longrightarrow> \<forall>b \<in> set sis. bucket_wf b \<Longrightarrow>
   merge oi ni sis = unshadowed sis (plain_merge oi ni)"
  by (simp add: merge_def merge_loop_plain)

lemma bucket_wf_merge:
  "bucket_wf oi \<Longrightarrow> bucket_wf ni \<Longrightarrow> \<forall>b \<in> set sis. bucket_wf b \<Longrightarrow> bucket_wf (merge oi ni sis)"
  by (simp add: merge_plain bucket_wf_filter bucket_wf_plain_merge)

lemma blookup_merge:
  "bucket_wf oi \<Longrightarrow> bucket_wf ni \<Longrightarrow> \<forall>b \<in> set sis. bucket_wf b \<Longrightarrow>
   blookup (merge oi ni sis) k =
     (if k \<in> shadow_keys sis then None
      else case blookup ni k of None \<Rightarrow> blookup oi k | Some e \<Rightarrow> Some e)"
  by (simp add: merge_plain blookup_filter_notin blookup_plain_merge)

subsection \<open>Fresh buckets and the counting loops\<close>

lemma blookup_eq_Some:
  "distinct (map bkey b) \<Longrightarrow> blookup b k = Some e \<longleftrightarrow> e \<in> set b \<and> bkey e = k"
  by (auto simp: blookup_def map_of_eq_Some_iff comp_def)

lemma bucket_wf_sort:
  assumes "distinct (map bkey b)"
  shows "bucket_wf (sort_key bkey b)"
proof -
  have "distinct (map bkey (sort_key bkey b))"
    using assms by (simp add: distinct_map)
  then show ?thesis
    unfolding bucket_wf_def by (simp add: strict_sorted_iff)
qed

lemma bucket_wf_distinct: "bucket_wf b \<Longrightarrow> distinct (map bkey b)"
  by (simp add: bucket_wf_def strict_sorted_iff)

text \<open>Where the keys are distinct, the sorted sequence is unique, whichever algorithm sorts.\<close>

lemma sort_unique:
  assumes "bucket_wf b" "distinct (map bkey c)" "set b = set c"
  shows "b = sort_key bkey c"
proof (rule map_inj_on)
  have wf: "bucket_wf (sort_key bkey c)" using assms(2) by (rule bucket_wf_sort)
  show "map bkey b = map bkey (sort_key bkey c)"
    using assms(1,3) wf by (intro strict_sorted_equal) (simp_all add: bucket_wf_def)
  show "inj_on bkey (set b \<union> set (sort_key bkey c))"
    using assms(2,3) by (simp add: distinct_map)
qed

lemma blookup_sort:
  assumes "distinct (map bkey b)"
  shows "blookup (sort_key bkey b) k = Some e \<longleftrightarrow> e \<in> set b \<and> bkey e = k"
  using blookup_eq_Some [OF bucket_wf_distinct [OF bucket_wf_sort [OF assms]]] by simp

lemma fresh_ok:
  assumes "distinct (map LedgerEntryKey liveEntries)" "distinct deadEntries"
  shows "bucket_wf (fresh liveEntries deadEntries) \<and>
    (\<forall>k. blookup (fresh liveEntries deadEntries) k =
      (if k \<in> set deadEntries then Some (DEADENTRY k)
       else map_of (map (\<lambda>e. (LedgerEntryKey e, LIVEENTRY e)) liveEntries) k))"
proof -
  let ?live = "sort_key bkey (map LIVEENTRY liveEntries)"
  let ?dead = "sort_key bkey (map DEADENTRY deadEntries)"
  have dl: "distinct (map bkey (map LIVEENTRY liveEntries))"
    and dd: "distinct (map bkey (map DEADENTRY deadEntries))"
    using assms by (simp_all add: comp_def)
  have wf: "bucket_wf ?live" "bucket_wf ?dead" using dl dd by (simp_all only: bucket_wf_sort)
  have dead: "blookup ?dead k = (if k \<in> set deadEntries then Some (DEADENTRY k) else None)" for k
    using blookup_sort [OF dd, of k "DEADENTRY k"] by (auto simp: blookup_None_iff)
  have live: "blookup ?live k = map_of (map (\<lambda>e. (LedgerEntryKey e, LIVEENTRY e)) liveEntries) k" for k
  proof -
    have "distinct (map fst (map (\<lambda>e. (LedgerEntryKey e, LIVEENTRY e)) liveEntries))"
      using assms(1) by (simp add: comp_def)
    from map_of_eq_Some_iff [OF this, of k] blookup_sort [OF dl, of k]
    have "blookup ?live k = Some e \<longleftrightarrow>
        map_of (map (\<lambda>e. (LedgerEntryKey e, LIVEENTRY e)) liveEntries) k = Some e" for e
      by auto
    then show ?thesis by (metis option.exhaust)
  qed
  have "fresh liveEntries deadEntries = merge ?live ?dead []" by (simp add: fresh_def Let_def)
  then show ?thesis
    using wf by (simp add: bucket_wf_merge blookup_merge live dead)
qed

lemma containsBucketIdentity_iff: "containsBucketIdentity b i \<longleftrightarrow> bkey i \<in> bkeys b"
  by (induction b) (auto simp: BucketEntryIdCmp_key)

lemma countLiveAndDeadEntries_loop_eq:
  "countLiveAndDeadEntries_loop b l d =
     (l + length [e. LIVEENTRY e \<leftarrow> b], d + length [k. DEADENTRY k \<leftarrow> b])"
  by (induction b l d rule: countLiveAndDeadEntries_loop.induct) simp_all

subsection \<open>The interface the bucket list relies on\<close>

text \<open>
  What the bucket list needs of buckets: they are finite maps, and the merge of two of them under a
  list of shadows is the newer over the older, without the shadowed keys. \<open>first_layer\<close> reads a
  sequence of buckets, the youngest first.
\<close>

primrec first_layer :: "('b \<Rightarrow> 'k \<Rightarrow> 'v option) \<Rightarrow> 'b list \<Rightarrow> 'k \<Rightarrow> 'v option" where
  "first_layer look [] k = None"
| "first_layer look (b # bs) k =
     (case look b k of None \<Rightarrow> first_layer look bs k | Some v \<Rightarrow> Some v)"

lemma first_layer_append:
  "first_layer look (xs @ ys) k =
     (case first_layer look xs k of None \<Rightarrow> first_layer look ys k | Some v \<Rightarrow> Some v)"
  by (induction xs) (auto split: option.splits)

lemma first_layer_None: "first_layer look bs k = None \<longleftrightarrow> (\<forall>b \<in> set bs. look b k = None)"
  by (induction bs) (auto split: option.splits)

locale shadow_merge =
  fixes mrg :: "'b \<Rightarrow> 'b \<Rightarrow> 'b list \<Rightarrow> 'b"
    and look :: "'b \<Rightarrow> 'k \<Rightarrow> 'v option"
    and wf :: "'b \<Rightarrow> bool"
    and emp :: 'b
  assumes wf_emp: "wf emp"
    and look_emp: "look emp k = None"
    and wf_mrg: "wf old \<Longrightarrow> wf new \<Longrightarrow> \<forall>b \<in> set sh. wf b \<Longrightarrow> wf (mrg old new sh)"
    and look_mrg: "wf old \<Longrightarrow> wf new \<Longrightarrow> \<forall>b \<in> set sh. wf b \<Longrightarrow>
      look (mrg old new sh) k =
        (if first_layer look sh k \<noteq> None then None
         else case look new k of None \<Rightarrow> look old k | Some v \<Rightarrow> Some v)"
begin

text \<open>
  A spill between two neighbouring levels: the younger level's \<open>snap\<close> \<open>B\<close> has been merged into
  the older level's \<open>curr\<close> \<open>c\<close>, the younger \<open>curr\<close> \<open>A\<close> takes its place. No key changes its
  value, if every key the merge dropped is still held by a younger bucket.
\<close>

lemma spill_lookup:
  assumes "wf c" "wf B" "\<forall>b \<in> set sh. wf b"
    and "first_layer look sh k \<noteq> None \<Longrightarrow> first_layer look (pre @ [A]) k \<noteq> None"
  shows "first_layer look (pre @ [emp, A, mrg c B sh] @ post) k =
    first_layer look (pre @ [A, B, c] @ post) k"
proof (cases "first_layer look (pre @ [A]) k")
  case None
  with assms(4) have "first_layer look sh k = None" by blast
  with None show ?thesis
    by (simp add: first_layer_append look_emp look_mrg [OF assms(1-3)] split: option.splits)
next
  case (Some v)
  then show ?thesis
    by (auto simp: first_layer_append look_emp split: option.splits)
qed

lemma merge_keys:
  assumes "wf c" "wf B" "\<forall>b \<in> set sh. wf b"
    and "look c k \<noteq> None \<or> look B k \<noteq> None"
    and "look (mrg c B sh) k = None"
  shows "first_layer look sh k \<noteq> None"
  using assms(4,5) by (auto simp: look_mrg [OF assms(1-3)] split: option.splits if_splits)

end

lemma first_layer_blookup: "first_layer blookup sis k = None \<longleftrightarrow> k \<notin> shadow_keys sis"
  by (auto simp: first_layer_None blookup_None_iff shadow_keys_def)

interpretation bm: shadow_merge merge blookup bucket_wf "[]"
  by unfold_locales (simp_all add: bucket_wf_merge blookup_merge first_layer_blookup
      del: not_None_eq)

subsection \<open>Properties\<close>

text \<open>
  C2: merging two buckets is one pass that computes ``new over old, without what the shadows
  hold'': on sorted inputs the output is sorted by key with no duplicate, holds for each key the
  newer bucket's entry if it has one and the older bucket's otherwise, and holds no key of a shadow.
  The shadow iterators, which only move forward, never miss a shadow.
\<close>

theorem merge_correct:
  assumes "bucket_wf oldBucket" "bucket_wf newBucket" "\<forall>b \<in> set shadows. bucket_wf b"
  shows "bucket_wf (merge oldBucket newBucket shadows) \<and>
    (\<forall>k. blookup (merge oldBucket newBucket shadows) k =
      (if \<exists>b \<in> set shadows. k \<in> bkeys b then None
       else case blookup newBucket k of
         None \<Rightarrow> blookup oldBucket k | Some e \<Rightarrow> Some e))"
  using assms by (simp add: bucket_wf_merge blookup_merge shadow_keys_def)

definition sample_account :: "AccountID \<Rightarrow> int64 \<Rightarrow> LedgerEntry" where
  "sample_account a b = ACCOUNT \<lparr>ae_accountID = a, ae_balance = b, ae_seqNum = 0,
     ae_numSubEntries = 0, ae_inflationDest = None, ae_flags = 0,
     ae_thresholds = (1, 0, 0, 0), ae_signers = []\<rparr>"

lemma sample_account_key [simp]: "LedgerEntryKey (sample_account a b) = AccountKey a"
  by (simp add: sample_account_def)

theorem merge_correct_witness:
  "blookup (merge [LIVEENTRY (sample_account 1 10), LIVEENTRY (sample_account 2 20)]
     [LIVEENTRY (sample_account 1 11), DEADENTRY (AccountKey 3)]
     [[LIVEENTRY (sample_account 2 22)]]) (AccountKey 1) = Some (LIVEENTRY (sample_account 1 11))"
  using merge_correct [of "[LIVEENTRY (sample_account 1 10), LIVEENTRY (sample_account 2 20)]"
      "[LIVEENTRY (sample_account 1 11), DEADENTRY (AccountKey 3)]"
      "[[LIVEENTRY (sample_account 2 22)]]"]
  by (simp add: less_LedgerKey_def)

text \<open>
  A fresh bucket built from the changes of a ledger is sorted and holds exactly those changes:
  a tombstone for every dead key, the live entry for every other changed key, nothing else.
\<close>

theorem fresh_correct:
  assumes "distinct (map LedgerEntryKey liveEntries)" "distinct deadEntries"
  shows "bucket_wf (fresh liveEntries deadEntries) \<and>
    (\<forall>k. blookup (fresh liveEntries deadEntries) k =
      (if k \<in> set deadEntries then Some (DEADENTRY k)
       else map_of (map (\<lambda>e. (LedgerEntryKey e, LIVEENTRY e)) liveEntries) k))"
  using fresh_ok [OF assms] .

theorem fresh_correct_witness:
  "blookup (fresh [sample_account 7 5, sample_account 3 9] [AccountKey 4]) (AccountKey 3) =
     Some (LIVEENTRY (sample_account 3 9)) \<and>
   blookup (fresh [sample_account 7 5, sample_account 3 9] [AccountKey 4]) (AccountKey 4) =
     Some (DEADENTRY (AccountKey 4))"
  using fresh_correct [of "[sample_account 7 5, sample_account 3 9]" "[AccountKey 4]"] by simp

text \<open>
  The two inspection loops over a bucket's file compute what they document: whether an entry
  of the same identity is present, and how many live and dead entries there are.
\<close>

theorem bucket_inspection:
  "containsBucketIdentity b i = (bkey i \<in> bkeys b) \<and>
   countLiveAndDeadEntries b =
     (length [e. LIVEENTRY e \<leftarrow> b], length [k. DEADENTRY k \<leftarrow> b])"
  by (simp add: containsBucketIdentity_iff countLiveAndDeadEntries_def countLiveAndDeadEntries_loop_eq)

end
