(* ===== verification/Future_Bucket.thy ===== *)
theory Future_Bucket
  imports Buckets
begin

text \<open>
  \<open>src/bucket/FutureBucket.cpp\<close> and \<open>FutureBucket.h\<close>: a merge in progress, its states, its
  persistence as hashes and its restart.

  A hash string is an optional hash, \<open>None\<close> for the empty string. The shared future of the output
  is invalid, or running with the value the posted task will compute, or ready. The hash function
  \<open>H\<close> and the lookup \<open>getBucketByHash\<close> of the bucket manager are parameters.
\<close>

subsection \<open>Definitions\<close>

datatype FB_State = FB_CLEAR | FB_HASH_OUTPUT | FB_HASH_INPUTS | FB_LIVE_OUTPUT | FB_LIVE_INPUTS

datatype 'a shared_future = Invalid | Running 'a | Ready 'a

record FutureBucket =
  mState :: FB_State
  mInputCurrBucket :: "Bucket option"
  mInputSnapBucket :: "Bucket option"
  mInputShadowBuckets :: "Bucket list"
  mOutputBucket :: "Bucket shared_future"
  mInputCurrBucketHash :: "Hash option"
  mInputSnapBucketHash :: "Hash option"
  mInputShadowBucketHashes :: "Hash list"
  mOutputBucketHash :: "Hash option"

definition clear_bucket :: FutureBucket where
  "clear_bucket = \<lparr>mState = FB_CLEAR, mInputCurrBucket = None, mInputSnapBucket = None,
     mInputShadowBuckets = [], mOutputBucket = Invalid, mInputCurrBucketHash = None,
     mInputSnapBucketHash = None, mInputShadowBucketHashes = [], mOutputBucketHash = None\<rparr>"

definition future_valid :: "'a shared_future \<Rightarrow> bool" where
  "future_valid f \<longleftrightarrow> (case f of Invalid \<Rightarrow> False | _ \<Rightarrow> True)"

text \<open>\<open>get()\<close> waits until the task has run; on an invalid future the library throws.\<close>

definition future_get :: "'a shared_future \<Rightarrow> 'a res" where
  "future_get f =
     (case f of Invalid \<Rightarrow> Inl (RuntimeError ''no state'') | Running v \<Rightarrow> Inr v | Ready v \<Rightarrow> Inr v)"

definition isLive :: "FutureBucket \<Rightarrow> bool" where
  "isLive fb \<longleftrightarrow> mState fb = FB_LIVE_INPUTS \<or> mState fb = FB_LIVE_OUTPUT"

definition isMerging :: "FutureBucket \<Rightarrow> bool" where
  "isMerging fb \<longleftrightarrow> mState fb = FB_LIVE_INPUTS"

definition hasHashes :: "FutureBucket \<Rightarrow> bool" where
  "hasHashes fb \<longleftrightarrow> mState fb = FB_HASH_INPUTS \<or> mState fb = FB_HASH_OUTPUT"

definition mergeComplete :: "FutureBucket \<Rightarrow> bool res" where
  "mergeComplete fb =
     rbind (rassert (isLive fb)) (\<lambda>_.
       case mOutputBucket fb of
         Invalid \<Rightarrow> Inl (RuntimeError ''no state'')
       | Running _ \<Rightarrow> Inr False
       | Ready _ \<Rightarrow> Inr True)"

definition checkHashEq :: "(Bucket \<Rightarrow> Hash) \<Rightarrow> Bucket \<Rightarrow> Hash \<Rightarrow> unit res" where
  "checkHashEq H b h = rassert (bucket_hash H b = h)"

fun checkHashEq_all :: "(Bucket \<Rightarrow> Hash) \<Rightarrow> Bucket list \<Rightarrow> Hash list \<Rightarrow> unit res" where
  "checkHashEq_all H (b # bs) (h # hs) = rbind (checkHashEq H b h) (\<lambda>_. checkHashEq_all H bs hs)"
| "checkHashEq_all H _ _ = Inr ()"

text \<open>An input hash string that is empty is no hash: \<open>hexToBin256\<close> rejects it.\<close>

definition checkHashEq_str :: "(Bucket \<Rightarrow> Hash) \<Rightarrow> Bucket \<Rightarrow> Hash option \<Rightarrow> unit res" where
  "checkHashEq_str H b s =
     (case s of None \<Rightarrow> Inl (RuntimeError ''wrong number of hex bytes'') | Some h \<Rightarrow> checkHashEq H b h)"

definition checkHashesMatch :: "(Bucket \<Rightarrow> Hash) \<Rightarrow> FutureBucket \<Rightarrow> unit res" where
  "checkHashesMatch H fb =
     rbind (if mInputShadowBuckets fb \<noteq> [] then
              rbind (rassert (length (mInputShadowBuckets fb) = length (mInputShadowBucketHashes fb)))
                (\<lambda>_. checkHashEq_all H (mInputShadowBuckets fb) (mInputShadowBucketHashes fb))
            else Inr ()) (\<lambda>_.
     rbind (case mInputSnapBucket fb of None \<Rightarrow> Inr ()
            | Some b \<Rightarrow> checkHashEq_str H b (mInputSnapBucketHash fb)) (\<lambda>_.
     rbind (case mInputCurrBucket fb of None \<Rightarrow> Inr ()
            | Some b \<Rightarrow> checkHashEq_str H b (mInputCurrBucketHash fb)) (\<lambda>_.
     if future_valid (mOutputBucket fb) then
       rbind (mergeComplete fb) (\<lambda>c.
         if c \<and> mOutputBucketHash fb \<noteq> None then
           rbind (future_get (mOutputBucket fb)) (\<lambda>b. checkHashEq_str H b (mOutputBucketHash fb))
         else Inr ())
     else Inr ())))"

definition checkState :: "(Bucket \<Rightarrow> Hash) \<Rightarrow> FutureBucket \<Rightarrow> unit res" where
  "checkState H fb =
     (case mState fb of
        FB_CLEAR \<Rightarrow>
          rassert (mInputShadowBuckets fb = [] \<and> mInputSnapBucket fb = None \<and>
            mInputCurrBucket fb = None \<and> \<not> future_valid (mOutputBucket fb) \<and>
            mInputShadowBucketHashes fb = [] \<and> mInputSnapBucketHash fb = None \<and>
            mInputCurrBucketHash fb = None \<and> mOutputBucketHash fb = None)
      | FB_LIVE_INPUTS \<Rightarrow>
          rbind (rassert (mInputSnapBucket fb \<noteq> None \<and> mInputCurrBucket fb \<noteq> None \<and>
            future_valid (mOutputBucket fb) \<and> mOutputBucketHash fb = None)) (\<lambda>_.
          checkHashesMatch H fb)
      | FB_LIVE_OUTPUT \<Rightarrow>
          rbind (mergeComplete fb) (\<lambda>c.
          rbind (rassert (c \<and> future_valid (mOutputBucket fb) \<and> mOutputBucketHash fb \<noteq> None)) (\<lambda>_.
          checkHashesMatch H fb))
      | FB_HASH_INPUTS \<Rightarrow>
          rassert (mInputSnapBucket fb = None \<and> mInputCurrBucket fb = None \<and>
            \<not> future_valid (mOutputBucket fb) \<and> mInputSnapBucketHash fb \<noteq> None \<and>
            mInputCurrBucketHash fb \<noteq> None \<and> mOutputBucketHash fb = None)
      | FB_HASH_OUTPUT \<Rightarrow>
          rassert (mInputSnapBucket fb = None \<and> mInputCurrBucket fb = None \<and>
            \<not> future_valid (mOutputBucket fb) \<and> mInputSnapBucketHash fb = None \<and>
            mInputCurrBucketHash fb = None \<and> mOutputBucketHash fb \<noteq> None))"

definition clearInputs :: "FutureBucket \<Rightarrow> FutureBucket" where
  "clearInputs fb = fb\<lparr>mInputShadowBuckets := [], mInputSnapBucket := None,
     mInputCurrBucket := None, mInputShadowBucketHashes := [], mInputSnapBucketHash := None,
     mInputCurrBucketHash := None\<rparr>"

definition clearOutput :: "FutureBucket \<Rightarrow> FutureBucket" where
  "clearOutput fb = fb\<lparr>mOutputBucket := Invalid, mOutputBucketHash := None\<rparr>"

definition clear :: "FutureBucket \<Rightarrow> FutureBucket" where
  "clear fb = clearOutput (clearInputs (fb\<lparr>mState := FB_CLEAR\<rparr>))"

text \<open>
  The hash of the output is computed and dropped: \<open>mOutputBucketHash\<close> keeps the value it had.
\<close>

definition setLiveOutput :: "(Bucket \<Rightarrow> Hash) \<Rightarrow> Bucket \<Rightarrow> FutureBucket \<Rightarrow> FutureBucket res" where
  "setLiveOutput H output fb =
     (let fb' = fb\<lparr>mState := FB_LIVE_OUTPUT, mOutputBucket := Ready output\<rparr>
      in rbind (checkState H fb') (\<lambda>_. Inr fb'))"

definition FutureBucket_of_output :: "(Bucket \<Rightarrow> Hash) \<Rightarrow> Bucket \<Rightarrow> FutureBucket res" where
  "FutureBucket_of_output H output = setLiveOutput H output clear_bucket"

definition startMerge :: "(Bucket \<Rightarrow> Hash) \<Rightarrow> FutureBucket \<Rightarrow> FutureBucket res" where
  "startMerge H fb =
     rbind (rassert (mState fb = FB_LIVE_INPUTS)) (\<lambda>_.
     case (mInputCurrBucket fb, mInputSnapBucket fb) of
       (Some c, Some s) \<Rightarrow>
         rbind (rassert (\<not> future_valid (mOutputBucket fb))) (\<lambda>_.
         let fb' = fb\<lparr>mOutputBucket := Running (merge c s (mInputShadowBuckets fb))\<rparr>
         in rbind (checkState H fb') (\<lambda>_. Inr fb'))
     | _ \<Rightarrow> Inl AssertFailed)"

text \<open>The posted task runs on a worker thread at any later time.\<close>

definition worker_run :: "FutureBucket \<Rightarrow> FutureBucket" where
  "worker_run fb =
     (case mOutputBucket fb of Running v \<Rightarrow> fb\<lparr>mOutputBucket := Ready v\<rparr> | _ \<Rightarrow> fb)"

definition FutureBucket_of_inputs ::
    "(Bucket \<Rightarrow> Hash) \<Rightarrow> Bucket \<Rightarrow> Bucket \<Rightarrow> Bucket list \<Rightarrow> FutureBucket res" where
  "FutureBucket_of_inputs H c s shadows =
     startMerge H (clear_bucket\<lparr>mState := FB_LIVE_INPUTS, mInputCurrBucket := Some c,
       mInputSnapBucket := Some s, mInputShadowBuckets := shadows,
       mInputCurrBucketHash := Some (bucket_hash H c),
       mInputSnapBucketHash := Some (bucket_hash H s),
       mInputShadowBucketHashes := map (bucket_hash H) shadows\<rparr>)"

definition resolve :: "(Bucket \<Rightarrow> Hash) \<Rightarrow> FutureBucket \<Rightarrow> (Bucket \<times> FutureBucket) res" where
  "resolve H fb =
     rbind (checkState H fb) (\<lambda>_.
     rbind (rassert (isLive fb)) (\<lambda>_.
     rbind (future_get (mOutputBucket fb)) (\<lambda>bucket.
     let fb1 = (clearInputs fb)\<lparr>mOutputBucket := Ready bucket\<rparr>
     in rbind (case mOutputBucketHash fb1 of
                 None \<Rightarrow> Inr (fb1\<lparr>mOutputBucketHash := Some (bucket_hash H bucket)\<rparr>)
               | Some h \<Rightarrow> rbind (checkHashEq H bucket h) (\<lambda>_. Inr fb1)) (\<lambda>fb2.
        let fb3 = fb2\<lparr>mState := FB_LIVE_OUTPUT\<rparr>
        in rbind (checkState H fb3) (\<lambda>_. Inr (bucket, fb3))))))"

definition hasOutputHash :: "FutureBucket \<Rightarrow> bool res" where
  "hasOutputHash fb =
     (if mState fb = FB_LIVE_OUTPUT \<or> mState fb = FB_HASH_OUTPUT then
        rbind (rassert (mOutputBucketHash fb \<noteq> None)) (\<lambda>_. Inr True)
      else Inr False)"

definition getOutputHash :: "FutureBucket \<Rightarrow> Hash res" where
  "getOutputHash fb =
     rbind (rassert (mState fb = FB_LIVE_OUTPUT \<or> mState fb = FB_HASH_OUTPUT)) (\<lambda>_.
     case mOutputBucketHash fb of None \<Rightarrow> Inl AssertFailed | Some h \<Rightarrow> Inr h)"

text \<open>A bucket the manager does not have is a null pointer, which the next use dereferences.\<close>

definition need_bucket :: "(Hash \<Rightarrow> Bucket option) \<Rightarrow> Hash option \<Rightarrow> Bucket res" where
  "need_bucket bm h =
     (case h of None \<Rightarrow> Inl (RuntimeError ''wrong number of hex bytes'')
      | Some h \<Rightarrow> (case bm h of None \<Rightarrow> Inl (RuntimeError ''null bucket'') | Some b \<Rightarrow> Inr b))"

fun need_buckets :: "(Hash \<Rightarrow> Bucket option) \<Rightarrow> Hash list \<Rightarrow> Bucket list res" where
  "need_buckets bm [] = Inr []"
| "need_buckets bm (h # hs) =
     rbind (need_bucket bm (Some h)) (\<lambda>b. rbind (need_buckets bm hs) (\<lambda>bs. Inr (b # bs)))"

definition makeLive ::
    "(Bucket \<Rightarrow> Hash) \<Rightarrow> (Hash \<Rightarrow> Bucket option) \<Rightarrow> FutureBucket \<Rightarrow> FutureBucket res" where
  "makeLive H bm fb =
     rbind (checkState H fb) (\<lambda>_.
     rbind (rassert (\<not> isLive fb \<and> hasHashes fb)) (\<lambda>_.
     rbind (hasOutputHash fb) (\<lambda>out.
     if out then
       rbind (getOutputHash fb) (\<lambda>h.
       rbind (need_bucket bm (Some h)) (\<lambda>b. setLiveOutput H b fb))
     else
       rbind (rassert (mState fb = FB_HASH_INPUTS)) (\<lambda>_.
       rbind (need_bucket bm (mInputCurrBucketHash fb)) (\<lambda>c.
       rbind (need_bucket bm (mInputSnapBucketHash fb)) (\<lambda>s.
       rbind (rassert (mInputShadowBuckets fb = [])) (\<lambda>_.
       rbind (need_buckets bm (mInputShadowBucketHashes fb)) (\<lambda>shadows.
       rbind (startMerge H (fb\<lparr>mInputCurrBucket := Some c, mInputSnapBucket := Some s,
                mInputShadowBuckets := shadows, mState := FB_LIVE_INPUTS\<rparr>)) (\<lambda>fb'.
       rbind (rassert (isLive fb')) (\<lambda>_. Inr fb'))))))))))"

definition getHashes :: "FutureBucket \<Rightarrow> Hash list" where
  "getHashes fb =
     (case mInputCurrBucketHash fb of None \<Rightarrow> [] | Some h \<Rightarrow> [h]) @
     (case mInputSnapBucketHash fb of None \<Rightarrow> [] | Some h \<Rightarrow> [h]) @
     mInputShadowBucketHashes fb @
     (case mOutputBucketHash fb of None \<Rightarrow> [] | Some h \<Rightarrow> [h])"

text \<open>What \<open>save\<close> writes: the state and the named values, absent where nothing is written.\<close>

record FB_Archive =
  ar_state :: FB_State
  ar_curr :: "Hash option"
  ar_snap :: "Hash option"
  ar_shadow :: "Hash list"
  ar_output :: "Hash option"

definition save :: "(Bucket \<Rightarrow> Hash) \<Rightarrow> FutureBucket \<Rightarrow> FB_Archive res" where
  "save H fb =
     rbind (checkState H fb) (\<lambda>_.
     Inr (case mState fb of
        FB_LIVE_INPUTS \<Rightarrow> \<lparr>ar_state = FB_HASH_INPUTS, ar_curr = mInputCurrBucketHash fb,
          ar_snap = mInputSnapBucketHash fb, ar_shadow = mInputShadowBucketHashes fb, ar_output = None\<rparr>
      | FB_HASH_INPUTS \<Rightarrow> \<lparr>ar_state = FB_HASH_INPUTS, ar_curr = mInputCurrBucketHash fb,
          ar_snap = mInputSnapBucketHash fb, ar_shadow = mInputShadowBucketHashes fb, ar_output = None\<rparr>
      | FB_LIVE_OUTPUT \<Rightarrow> \<lparr>ar_state = FB_HASH_OUTPUT, ar_curr = None, ar_snap = None,
          ar_shadow = [], ar_output = mOutputBucketHash fb\<rparr>
      | FB_HASH_OUTPUT \<Rightarrow> \<lparr>ar_state = FB_HASH_OUTPUT, ar_curr = None, ar_snap = None,
          ar_shadow = [], ar_output = mOutputBucketHash fb\<rparr>
      | FB_CLEAR \<Rightarrow> \<lparr>ar_state = FB_CLEAR, ar_curr = None, ar_snap = None, ar_shadow = [],
          ar_output = None\<rparr>))"

definition load :: "(Bucket \<Rightarrow> Hash) \<Rightarrow> FB_Archive \<Rightarrow> FutureBucket \<Rightarrow> FutureBucket res" where
  "load H ar fb =
     (let fb0 = (clear fb)\<lparr>mState := ar_state ar\<rparr>
      in rbind (case ar_state ar of
           FB_HASH_INPUTS \<Rightarrow> Inr (fb0\<lparr>mInputCurrBucketHash := ar_curr ar,
             mInputSnapBucketHash := ar_snap ar, mInputShadowBucketHashes := ar_shadow ar\<rparr>)
         | FB_HASH_OUTPUT \<Rightarrow> Inr (fb0\<lparr>mOutputBucketHash := ar_output ar\<rparr>)
         | FB_CLEAR \<Rightarrow> Inr fb0
         | _ \<Rightarrow> Inl (RuntimeError ''deserialized unexpected FutureBucket state'')) (\<lambda>fb1.
         rbind (checkState H fb1) (\<lambda>_. Inr fb1)))"

subsection \<open>The life of a merge\<close>

lemmas state_defs = checkState_def checkHashesMatch_def checkHashEq_str_def checkHashEq_def
  mergeComplete_def isLive_def future_valid_def clear_bucket_def

text \<open>A merge in progress, after construction or restart, whether or not the worker has run.\<close>

definition merging ::
    "(Bucket \<Rightarrow> Hash) \<Rightarrow> Bucket \<Rightarrow> Bucket \<Rightarrow> Bucket list \<Rightarrow> Bucket shared_future \<Rightarrow> FutureBucket" where
  "merging H c s sh out =
     \<lparr>mState = FB_LIVE_INPUTS, mInputCurrBucket = Some c, mInputSnapBucket = Some s,
      mInputShadowBuckets = sh, mOutputBucket = out,
      mInputCurrBucketHash = Some (bucket_hash H c), mInputSnapBucketHash = Some (bucket_hash H s),
      mInputShadowBucketHashes = map (bucket_hash H) sh, mOutputBucketHash = None\<rparr>"

definition resolved :: "(Bucket \<Rightarrow> Hash) \<Rightarrow> Bucket \<Rightarrow> FutureBucket" where
  "resolved H b = clear_bucket\<lparr>mState := FB_LIVE_OUTPUT, mOutputBucket := Ready b,
     mOutputBucketHash := Some (bucket_hash H b)\<rparr>"

lemma checkHashEq_all_map: "checkHashEq_all H sh (map (bucket_hash H) sh) = Inr ()"
  by (induction sh) (simp_all add: checkHashEq_def)

lemma checkState_merging:
  "out = Running b \<or> out = Ready b \<Longrightarrow> checkState H (merging H c s sh out) = Inr ()"
  by (auto simp: merging_def state_defs checkHashEq_all_map)

lemma checkState_resolved [simp]: "checkState H (resolved H b) = Inr ()"
  by (simp add: resolved_def state_defs future_get_def)

lemma FutureBucket_of_inputs_eq:
  "FutureBucket_of_inputs H c s sh = Inr (merging H c s sh (Running (merge c s sh)))"
proof -
  have "startMerge H (merging H c s sh Invalid) = Inr (merging H c s sh (Running (merge c s sh)))"
    using checkState_merging [of "Running (merge c s sh)" "merge c s sh" H c s sh]
    by (simp add: startMerge_def merging_def future_valid_def)
  then show ?thesis
    by (simp add: FutureBucket_of_inputs_def merging_def clear_bucket_def)
qed

lemma worker_run_merging:
  "worker_run (merging H c s sh (Running b)) = merging H c s sh (Ready b)"
  by (simp add: worker_run_def merging_def)

lemma resolve_merging:
  assumes "out = Running b \<or> out = Ready b"
  shows "resolve H (merging H c s sh out) = Inr (b, resolved H b)"
proof -
  have "(clearInputs (merging H c s sh out))\<lparr>mOutputBucket := Ready b,
      mOutputBucketHash := Some (bucket_hash H b), mState := FB_LIVE_OUTPUT\<rparr> = resolved H b"
    by (simp add: clearInputs_def merging_def resolved_def clear_bucket_def)
  then show ?thesis
    using assms checkState_merging [OF assms] checkState_resolved [of H b]
    by (auto simp: resolve_def isLive_def merging_def future_get_def clearInputs_def Let_def)
qed

lemma save_merging:
  assumes "out = Running b \<or> out = Ready b"
  shows "save H (merging H c s sh out) = Inr \<lparr>ar_state = FB_HASH_INPUTS,
    ar_curr = Some (bucket_hash H c), ar_snap = Some (bucket_hash H s),
    ar_shadow = map (bucket_hash H) sh, ar_output = None\<rparr>"
  using checkState_merging [OF assms] by (simp add: save_def merging_def)

lemma need_buckets_map:
  "\<forall>b \<in> set sh. bm (bucket_hash H b) = Some b \<Longrightarrow> need_buckets bm (map (bucket_hash H) sh) = Inr sh"
  by (induction sh) (simp_all add: need_bucket_def)

lemma makeLive_inputs:
  assumes "bm (bucket_hash H c) = Some c" "bm (bucket_hash H s) = Some s"
    and "\<forall>b \<in> set sh. bm (bucket_hash H b) = Some b"
  shows "makeLive H bm (clear_bucket\<lparr>mState := FB_HASH_INPUTS,
      mInputCurrBucketHash := Some (bucket_hash H c), mInputSnapBucketHash := Some (bucket_hash H s),
      mInputShadowBucketHashes := map (bucket_hash H) sh\<rparr>) =
    Inr (merging H c s sh (Running (merge c s sh)))"
proof -
  have "startMerge H (merging H c s sh Invalid) = Inr (merging H c s sh (Running (merge c s sh)))"
    using checkState_merging [of "Running (merge c s sh)" "merge c s sh" H c s sh]
    by (simp add: startMerge_def merging_def future_valid_def)
  then show ?thesis
    using assms by (simp add: makeLive_def state_defs hasHashes_def hasOutputHash_def
        need_bucket_def need_buckets_map merging_def)
qed

lemma makeLive_output:
  assumes "bm (bucket_hash H b) = Some b"
  shows "makeLive H bm (clear_bucket\<lparr>mState := FB_HASH_OUTPUT,
      mOutputBucketHash := Some (bucket_hash H b)\<rparr>) = Inr (resolved H b)"
  using assms checkState_resolved [of H b]
  by (simp add: makeLive_def checkState_def isLive_def hasHashes_def hasOutputHash_def
      getOutputHash_def need_bucket_def setLiveOutput_def resolved_def clear_bucket_def
      future_valid_def mergeComplete_def checkHashesMatch_def checkHashEq_str_def
      checkHashEq_def future_get_def)

lemma resolve_resolved: "resolve H (resolved H b) = Inr (b, resolved H b)"
  by (simp add: resolve_def resolved_def state_defs clearInputs_def future_get_def Let_def)

subsection \<open>Properties\<close>

text \<open>
  C21: a merge survives a restart. A live merge of \<open>curr\<close> and \<open>snap\<close> under shadows, saved at any
  time (before or after its worker finished), loaded into a new object and made live against a
  bucket manager that still has its inputs, resolves to the same bucket as the original, and no
  assertion of the state machine fails on the way.
\<close>

theorem merge_restart:
  assumes "FutureBucket_of_inputs H c s sh = Inr fb" and "live = fb \<or> live = worker_run fb"
    and "bm (bucket_hash H c) = Some c" "bm (bucket_hash H s) = Some s"
    and "\<forall>b \<in> set sh. bm (bucket_hash H b) = Some b"
  shows "\<exists>ar fb1 fb2 fb3. save H live = Inr ar \<and> load H ar fb0 = Inr fb1 \<and>
    makeLive H bm fb1 = Inr fb2 \<and> resolve H fb2 = Inr (merge c s sh, fb3) \<and>
    resolve H live = Inr (merge c s sh, fb3)"
proof -
  let ?m = "merge c s sh"
  obtain out where live: "live = merging H c s sh out" and out: "out = Running ?m \<or> out = Ready ?m"
    using assms(1,2) by (auto simp: FutureBucket_of_inputs_eq worker_run_merging)
  let ?ar = "\<lparr>ar_state = FB_HASH_INPUTS, ar_curr = Some (bucket_hash H c),
    ar_snap = Some (bucket_hash H s), ar_shadow = map (bucket_hash H) sh, ar_output = None\<rparr>"
  let ?fb1 = "clear_bucket\<lparr>mState := FB_HASH_INPUTS,
      mInputCurrBucketHash := Some (bucket_hash H c), mInputSnapBucketHash := Some (bucket_hash H s),
      mInputShadowBucketHashes := map (bucket_hash H) sh\<rparr>"
  have "load H ?ar fb0 = Inr ?fb1"
    by (simp add: load_def clear_def clearInputs_def clearOutput_def checkState_def
        future_valid_def clear_bucket_def Let_def)
  then show ?thesis
    using save_merging [OF out] resolve_merging [OF out] makeLive_inputs [OF assms(3-5)]
      resolve_merging [of "Running ?m" ?m H c s sh] live
    by auto
qed

definition sample_hash :: "Bucket \<Rightarrow> Hash" where
  "sample_hash b = of_nat (length b)"

definition sample_curr :: Bucket where
  "sample_curr = [LIVEENTRY (sample_account 1 10)]"

definition sample_snap :: Bucket where
  "sample_snap = [LIVEENTRY (sample_account 1 11), DEADENTRY (AccountKey 2)]"

definition sample_manager :: "Hash \<Rightarrow> Bucket option" where
  "sample_manager h =
     (if h = 1 then Some sample_curr else if h = 2 then Some sample_snap else None)"

theorem merge_restart_witness:
  "\<exists>ar fb1 fb2 fb3.
     save sample_hash (merging sample_hash sample_curr sample_snap []
       (Running (merge sample_curr sample_snap []))) = Inr ar \<and>
     load sample_hash ar clear_bucket = Inr fb1 \<and>
     makeLive sample_hash sample_manager fb1 = Inr fb2 \<and>
     resolve sample_hash fb2 = Inr (merge sample_curr sample_snap [], fb3) \<and>
     resolve sample_hash (merging sample_hash sample_curr sample_snap []
       (Running (merge sample_curr sample_snap []))) = Inr (merge sample_curr sample_snap [], fb3)"
  by (rule merge_restart [where fb = "merging sample_hash sample_curr sample_snap []
       (Running (merge sample_curr sample_snap []))"])
    (simp_all add: FutureBucket_of_inputs_eq bucket_hash_def sample_hash_def sample_manager_def,
     simp_all add: sample_curr_def sample_snap_def)

text \<open>
  The constructor from an output bucket never succeeds: it leaves the output hash empty, which
  the state check at its end rejects for every bucket.
\<close>

theorem FutureBucket_of_output_fails: "FutureBucket_of_output H b = Inl AssertFailed"
  by (simp add: FutureBucket_of_output_def setLiveOutput_def state_defs)

end
