(* ===== verification/Bucket_List.thy ===== *)
theory Bucket_List
  imports Future_Bucket
begin

text \<open>
  \<open>src/bucket/BucketList.cpp\<close>: the levels of the bucket list and the addition of a batch, with the
  merges between levels running in the background. The retain flags, which only decide whether a
  bucket's file is deleted with the object, are not part of the state.
\<close>

subsection \<open>Definitions\<close>

record BucketLevel =
  mLevel :: nat
  mNextCurr :: FutureBucket
  mCurr :: Bucket
  mSnap :: Bucket

definition kNumLevels :: nat where
  "kNumLevels = 11"

definition new_level :: "nat \<Rightarrow> BucketLevel" where
  "new_level i = \<lparr>mLevel = i, mNextCurr = clear_bucket, mCurr = [], mSnap = []\<rparr>"

definition new_BucketList :: "BucketLevel list" where
  "new_BucketList = map new_level [0..<kNumLevels]"

text \<open>\<open>S\<close> is the SHA-256 digest of the hashes added one after the other.\<close>

definition level_getHash :: "(Hash list \<Rightarrow> Hash) \<Rightarrow> (Bucket \<Rightarrow> Hash) \<Rightarrow> BucketLevel \<Rightarrow> Hash" where
  "level_getHash S H l = S [bucket_hash H (mCurr l), bucket_hash H (mSnap l)]"

definition setNext :: "FutureBucket \<Rightarrow> BucketLevel \<Rightarrow> BucketLevel" where
  "setNext fb l = l\<lparr>mNextCurr := fb\<rparr>"

definition setCurr :: "Bucket \<Rightarrow> BucketLevel \<Rightarrow> BucketLevel" where
  "setCurr b l = l\<lparr>mNextCurr := clear (mNextCurr l), mCurr := b\<rparr>"

definition setSnap :: "Bucket \<Rightarrow> BucketLevel \<Rightarrow> BucketLevel" where
  "setSnap b l = l\<lparr>mSnap := b\<rparr>"

definition commit :: "(Bucket \<Rightarrow> Hash) \<Rightarrow> BucketLevel \<Rightarrow> BucketLevel res" where
  "commit H l =
     rbind (if isLive (mNextCurr l) then
              rbind (resolve H (mNextCurr l)) (\<lambda>(b, fb). Inr (setCurr b (l\<lparr>mNextCurr := fb\<rparr>)))
            else Inr l) (\<lambda>l'.
     rbind (rassert (\<not> isMerging (mNextCurr l'))) (\<lambda>_. Inr l'))"

definition levelSize :: "nat \<Rightarrow> uint32 res" where
  "levelSize level = rbind (rassert (level < kNumLevels)) (\<lambda>_. Inr (push_bit (2 * (level + 1)) 1))"

definition levelHalf :: "nat \<Rightarrow> uint32 res" where
  "levelHalf level = rbind (levelSize level) (\<lambda>s. Inr (drop_bit 1 s))"

definition mask_ledger :: "uint32 \<Rightarrow> uint32 \<Rightarrow> uint32" where
  "mask_ledger v m = v AND NOT (m - 1)"

definition levelShouldSpill :: "uint32 \<Rightarrow> nat \<Rightarrow> bool res" where
  "levelShouldSpill ledger level =
     (if level = kNumLevels - 1 then Inr False
      else rbind (levelHalf level) (\<lambda>h.
        if ledger = mask_ledger ledger h then Inr True
        else rbind (levelSize level) (\<lambda>s. Inr (ledger = mask_ledger ledger s))))"

definition prepare ::
    "(Bucket \<Rightarrow> Hash) \<Rightarrow> uint32 \<Rightarrow> Bucket \<Rightarrow> Bucket list \<Rightarrow> BucketLevel \<Rightarrow> BucketLevel res" where
  "prepare H currLedger snp shadows l =
     rbind (rassert (\<not> isMerging (mNextCurr l))) (\<lambda>_.
     rbind (if mLevel l > 0 then
              rbind (levelHalf (mLevel l - 1)) (\<lambda>h.
              rbind (levelShouldSpill (currLedger + h) (mLevel l)) (\<lambda>spill.
                Inr (if spill then [] else mCurr l)))
            else Inr (mCurr l)) (\<lambda>cur.
     rbind (FutureBucket_of_inputs H cur snp shadows) (\<lambda>fb.
     rbind (rassert (isMerging fb)) (\<lambda>_. Inr (l\<lparr>mNextCurr := fb\<rparr>)))))"

definition snap :: "BucketLevel \<Rightarrow> Bucket \<times> BucketLevel" where
  "snap l = (let l' = l\<lparr>mSnap := mCurr l, mCurr := []\<rparr> in (mSnap l', l'))"

definition getHash :: "(Hash list \<Rightarrow> Hash) \<Rightarrow> (Bucket \<Rightarrow> Hash) \<Rightarrow> BucketLevel list \<Rightarrow> Hash" where
  "getHash S H levels = S (map (level_getHash S H) levels)"

text \<open>The body of the loop of \<open>addBatch\<close> where level \<open>i - 1\<close> spills into level \<open>i = i' + 1\<close>.\<close>

definition spill ::
    "(Bucket \<Rightarrow> Hash) \<Rightarrow> uint32 \<Rightarrow> nat \<Rightarrow> Bucket list \<Rightarrow> BucketLevel list \<Rightarrow> BucketLevel list res" where
  "spill H currLedger i' shadows levels =
     (let (snp, younger) = snap (levels ! i');
          levels1 = levels[i' := younger]
      in rbind (commit H (levels1 ! Suc i')) (\<lambda>older.
         rbind (prepare H currLedger snp shadows older) (\<lambda>older'.
         Inr (levels1[Suc i' := older']))))"

fun addBatch_loop ::
    "(Bucket \<Rightarrow> Hash) \<Rightarrow> uint32 \<Rightarrow> nat \<Rightarrow> Bucket list \<Rightarrow> BucketLevel list
      \<Rightarrow> (Bucket list \<times> BucketLevel list) res" where
  "addBatch_loop H currLedger 0 shadows levels = Inr (shadows, levels)"
| "addBatch_loop H currLedger (Suc i') shadows levels =
     rbind (rassert (length shadows \<ge> 2)) (\<lambda>_.
     let shadows' = butlast (butlast shadows)
     in rbind (levelShouldSpill currLedger i') (\<lambda>sp.
        rbind (if sp then spill H currLedger i' shadows' levels else Inr levels) (\<lambda>levels'.
        addBatch_loop H currLedger i' shadows' levels')))"

definition layers :: "BucketLevel list \<Rightarrow> Bucket list" where
  "layers levels = concat (map (\<lambda>l. [mCurr l, mSnap l]) levels)"

definition addBatch ::
    "(Bucket \<Rightarrow> Hash) \<Rightarrow> uint32 \<Rightarrow> LedgerEntry list \<Rightarrow> LedgerKey list \<Rightarrow> BucketLevel list
      \<Rightarrow> BucketLevel list res" where
  "addBatch H currLedger liveEntries deadEntries levels =
     rbind (rassert (currLedger > 0)) (\<lambda>_.
     let shadows = layers levels
     in rbind (rassert (length shadows \<ge> 2)) (\<lambda>_.
        rbind (addBatch_loop H currLedger (length levels - 1) (butlast (butlast shadows)) levels)
          (\<lambda>(shadows', levels').
        rbind (rassert (shadows' = [])) (\<lambda>_.
        rbind (prepare H currLedger (fresh liveEntries deadEntries) shadows' (levels' ! 0)) (\<lambda>l.
        rbind (commit H l) (\<lambda>l'. Inr (levels'[0 := l'])))))))"

fun restartMerges ::
    "(Bucket \<Rightarrow> Hash) \<Rightarrow> (Hash \<Rightarrow> Bucket option) \<Rightarrow> BucketLevel list \<Rightarrow> BucketLevel list res" where
  "restartMerges H bm [] = Inr []"
| "restartMerges H bm (l # ls) =
     rbind (if hasHashes (mNextCurr l) \<and> \<not> isLive (mNextCurr l) then
              rbind (makeLive H bm (mNextCurr l)) (\<lambda>fb. Inr (l\<lparr>mNextCurr := fb\<rparr>))
            else Inr l) (\<lambda>l'.
     rbind (restartMerges H bm ls) (\<lambda>ls'. Inr (l' # ls')))"

text \<open>The worker thread of level \<open>j\<close> finishes its merge.\<close>

definition worker_level :: "nat \<Rightarrow> BucketLevel list \<Rightarrow> BucketLevel list" where
  "worker_level j levels =
     levels[j := (levels ! j)\<lparr>mNextCurr := worker_run (mNextCurr (levels ! j))\<rparr>]"

text \<open>The value the bucket list holds for a key: the youngest bucket that has the key decides.\<close>

definition list_lookup :: "BucketLevel list \<Rightarrow> LedgerKey \<Rightarrow> BucketEntry option" where
  "list_lookup levels = first_layer blookup (layers levels)"

subsection \<open>When a level spills\<close>

lemma mask_ledger_iff: "w = mask_ledger w (2 ^ k) \<longleftrightarrow> take_bit k w = 0"
proof -
  have "w = mask_ledger w (2 ^ k) \<longleftrightarrow> w AND mask k = 0"
    unfolding mask_ledger_def mask_eq_exp_minus_1 [symmetric]
    by (auto simp: bit_eq_iff bit_simps)
  then show ?thesis by (simp add: take_bit_eq_mask)
qed

lemma take_bit_ledger:
  assumes "k \<le> 32"
  shows "take_bit k (of_nat n :: uint32) = 0 \<longleftrightarrow> 2 ^ k dvd n"
proof -
  have "take_bit k (of_nat n :: uint32) = 0 \<longleftrightarrow> unat (take_bit k (of_nat n :: uint32)) = 0"
    by (simp only: unat_eq_0)
  also have "unat (take_bit k (of_nat n :: uint32)) = (n mod 2 ^ 32) mod 2 ^ k"
    by (simp add: unsigned_take_bit_eq unat_of_nat take_bit_eq_mod [where 'a = nat])
  also have "\<dots> = n mod 2 ^ k"
    using assms by (intro mod_mod_cancel le_imp_power_dvd)
  finally show ?thesis by (simp add: mod_eq_0_iff_dvd)
qed

lemma levelSize_eq: "level < kNumLevels \<Longrightarrow> levelSize level = Inr (2 ^ (2 * level + 2))"
  by (simp add: levelSize_def push_bit_eq_mult)

lemma levelHalf_eq:
  assumes "level < kNumLevels"
  shows "levelHalf level = Inr (2 ^ (2 * level + 1))"
proof -
  have "level \<in> {0..<11}" using assms by (simp add: kNumLevels_def)
  then have "drop_bit 1 (2 ^ (2 * level + 2) :: uint32) = 2 ^ (2 * level + 1)"
    by (auto simp: atLeastLessThan_nat_numeral)
  then show ?thesis by (simp add: levelHalf_def levelSize_eq [OF assms])
qed

definition spills :: "nat \<Rightarrow> nat \<Rightarrow> bool" where
  "spills n level \<longleftrightarrow> level < kNumLevels - 1 \<and> 2 ^ (2 * level + 1) dvd n"

lemma levelShouldSpill_eq:
  assumes "level < kNumLevels"
  shows "levelShouldSpill (of_nat n) level = Inr (spills n level)"
proof (cases "level = kNumLevels - 1")
  case True
  then show ?thesis by (simp add: levelShouldSpill_def spills_def)
next
  case False
  with assms have small: "2 * level + 2 \<le> 32" by (simp add: kNumLevels_def)
  have "2 ^ (2 * level + 2) dvd n \<Longrightarrow> (2 :: nat) ^ (2 * level + 1) dvd n"
    by (rule dvd_trans [OF le_imp_power_dvd [of "2 * level + 1" "2 * level + 2"]]) simp_all
  with False assms small show ?thesis
    by (auto simp: levelShouldSpill_def levelHalf_eq levelSize_eq mask_ledger_iff
        take_bit_ledger spills_def simp del: power_Suc add_2_eq_Suc')
qed


subsection \<open>The invariant\<close>

text \<open>
  \<open>next_spill n j\<close> is the next ledger after \<open>n\<close> at which level \<open>j\<close> spills into level \<open>j + 1\<close>, the
  last level that spills included. \<open>reach levels j\<close> is the sequence of the buckets down to the
  \<open>curr\<close> of level \<open>j\<close>.
\<close>

definition next_spill :: "nat \<Rightarrow> nat \<Rightarrow> nat" where
  "next_spill n j = (n div 2 ^ (2 * j + 1) + 1) * 2 ^ (2 * j + 1)"

definition reach :: "BucketLevel list \<Rightarrow> nat \<Rightarrow> Bucket list" where
  "reach levels j = butlast (layers (take (Suc j) levels))"

text \<open>
  The merge a level holds: none, if the younger level has no \<open>snap\<close> yet, or that of its \<open>snap\<close> \<open>s\<close>
  into \<open>c\<close>, finished or not, with shadows whose keys are all among the buckets \<open>bs\<close>.
\<close>

definition pending :: "(Bucket \<Rightarrow> Hash) \<Rightarrow> Bucket \<Rightarrow> Bucket \<Rightarrow> Bucket list \<Rightarrow> FutureBucket \<Rightarrow> bool" where
  "pending H c s bs fb \<longleftrightarrow> fb = clear_bucket \<and> s = [] \<or>
     (\<exists>sh out. fb = merging H c s sh out \<and> (\<forall>b \<in> set sh. bucket_wf b) \<and>
        (out = Running (merge c s sh) \<or> out = Ready (merge c s sh)) \<and>
        (\<forall>k. first_layer blookup sh k \<noteq> None \<longrightarrow> first_layer blookup bs k \<noteq> None))"

text \<open>The \<open>curr\<close> a new merge starts from: nothing, where the level is about to be snapped itself.\<close>

definition merge_base :: "nat \<Rightarrow> nat \<Rightarrow> Bucket \<Rightarrow> Bucket" where
  "merge_base n j c = (if spills (next_spill n j) (Suc j) then [] else c)"

definition level_inv :: "(Bucket \<Rightarrow> Hash) \<Rightarrow> nat \<Rightarrow> BucketLevel list \<Rightarrow> nat \<Rightarrow> bool" where
  "level_inv H n levels j \<longleftrightarrow>
     pending H (merge_base n j (mCurr (levels ! Suc j)))
       (mSnap (levels ! j)) (reach levels j) (mNextCurr (levels ! Suc j))"

definition levels_wf :: "BucketLevel list \<Rightarrow> bool" where
  "levels_wf levels \<longleftrightarrow> length levels = kNumLevels \<and>
     (\<forall>j < kNumLevels. mLevel (levels ! j) = j \<and> bucket_wf (mCurr (levels ! j)) \<and>
        bucket_wf (mSnap (levels ! j))) \<and>
     mNextCurr (levels ! 0) = clear_bucket"

text \<open>In the middle of a batch: levels up to \<open>i\<close> are those of ledger \<open>n\<close>, the older ones of \<open>n + 1\<close>.\<close>

definition mid_inv :: "(Bucket \<Rightarrow> Hash) \<Rightarrow> nat \<Rightarrow> nat \<Rightarrow> BucketLevel list \<Rightarrow> bool" where
  "mid_inv H n i levels \<longleftrightarrow> levels_wf levels \<and>
     (\<forall>j < i. level_inv H n levels j) \<and>
     (\<forall>j. i \<le> j \<and> j < kNumLevels - 1 \<longrightarrow> level_inv H (Suc n) levels j) \<and>
     (spills (Suc n) i \<longrightarrow> mCurr (levels ! i) = [])"

definition list_inv :: "(Bucket \<Rightarrow> Hash) \<Rightarrow> nat \<Rightarrow> BucketLevel list \<Rightarrow> bool" where
  "list_inv H n levels \<longleftrightarrow> levels_wf levels \<and> (\<forall>j < kNumLevels - 1. level_inv H n levels j)"

lemma next_spill_dvd:
  assumes "2 ^ (2 * j + 1) dvd Suc n"
  shows "next_spill n j = Suc n"
proof -
  have "Suc n div 2 ^ (2 * j + 1) = n div 2 ^ (2 * j + 1) + 1"
    using assms by (simp add: div_Suc dvd_eq_mod_eq_0 del: power_Suc)
  then have "next_spill n j = (Suc n div 2 ^ (2 * j + 1)) * 2 ^ (2 * j + 1)"
    by (simp only: next_spill_def)
  then show ?thesis using assms by (simp only: dvd_div_mult_self)
qed

lemma next_spill_not_dvd: "\<not> 2 ^ (2 * j + 1) dvd Suc n \<Longrightarrow> next_spill (Suc n) j = next_spill n j"
  by (simp add: next_spill_def div_Suc dvd_eq_mod_eq_0 del: power_Suc)

lemma next_spill_at: "2 ^ (2 * j + 1) dvd n \<Longrightarrow> next_spill n j = n + 2 ^ (2 * j + 1)"
  by (simp add: next_spill_def del: power_Suc)

lemma spills_younger: "spills n (Suc j) \<Longrightarrow> 2 ^ (2 * j + 1) dvd n"
  unfolding spills_def
  by (elim conjE) (rule dvd_trans [OF le_imp_power_dvd [of "2 * j + 1" "2 * Suc j + 1"]], simp_all)


subsection \<open>One spill\<close>

lemma clear_resolved [simp]: "clear (resolved H b) = clear_bucket"
  by (simp add: clear_def clearInputs_def clearOutput_def resolved_def clear_bucket_def)

lemma not_live_clear [simp]: "\<not> isLive clear_bucket" "\<not> isMerging clear_bucket"
  by (simp_all add: clear_bucket_def isLive_def isMerging_def)

lemma live_merging [simp]: "isLive (merging H c s sh out)" "isMerging (merging H c s sh out)"
  by (simp_all add: merging_def isLive_def isMerging_def)

lemma commit_clear: "mNextCurr l = clear_bucket \<Longrightarrow> commit H l = Inr l"
  by (simp add: commit_def)

lemma commit_merging:
  assumes "mNextCurr l = merging H c s sh out" "out = Running b \<or> out = Ready b"
  shows "commit H l = Inr (l\<lparr>mNextCurr := clear_bucket, mCurr := b\<rparr>)"
  using assms by (simp add: commit_def resolve_merging setCurr_def)

text \<open>
  Committing the pending merge keeps the value of every key, where the younger level is being
  snapped at the same time.
\<close>

lemma commit_pending:
  assumes pend: "pending H (mCurr l) s (pre @ [A]) (mNextCurr l)"
    and wf: "bucket_wf (mCurr l)" "bucket_wf s"
  shows "\<exists>c. commit H l = Inr (l\<lparr>mNextCurr := clear_bucket, mCurr := c\<rparr>) \<and> bucket_wf c \<and>
    (\<forall>post k. first_layer blookup (pre @ [[], A, c] @ post) k =
       first_layer blookup (pre @ [A, s, mCurr l] @ post) k)"
proof (cases "mNextCurr l = clear_bucket \<and> s = []")
  case True
  then show ?thesis
    using commit_clear [of l H] wf
    by (intro exI [of _ "mCurr l"]) (auto simp: first_layer_append split: option.splits)
next
  case False
  with pend obtain sh out where nxt: "mNextCurr l = merging H (mCurr l) s sh out"
    and sh: "\<forall>b \<in> set sh. bucket_wf b"
    and out: "out = Running (merge (mCurr l) s sh) \<or> out = Ready (merge (mCurr l) s sh)"
    and cover: "\<forall>k. first_layer blookup sh k \<noteq> None \<longrightarrow> first_layer blookup (pre @ [A]) k \<noteq> None"
    unfolding pending_def by blast
  have "first_layer blookup (pre @ [[], A, merge (mCurr l) s sh] @ post) k =
      first_layer blookup (pre @ [A, s, mCurr l] @ post) k" for post k
    using wf sh cover by (intro bm.spill_lookup) blast+
  then show ?thesis
    using commit_merging [OF nxt out] wf sh
    by (intro exI [of _ "merge (mCurr l) s sh"]) (simp add: bucket_wf_merge)
qed

lemma prepare_older:
  assumes "mNextCurr l = clear_bucket" "mLevel l = Suc j" "Suc j < kNumLevels"
    and "2 ^ (2 * j + 1) dvd n"
  shows "prepare H (of_nat n) s sh l =
    (let c = merge_base n j (mCurr l)
     in Inr (l\<lparr>mNextCurr := merging H c s sh (Running (merge c s sh))\<rparr>))"
proof -
  have "levelShouldSpill (of_nat n + 2 ^ (2 * j + 1)) (Suc j) =
      Inr (spills (n + 2 ^ (2 * j + 1)) (Suc j))"
    using levelShouldSpill_eq [of "Suc j" "n + 2 ^ (2 * j + 1)"] assms(3) by simp
  with assms show ?thesis
    by (simp add: prepare_def levelHalf_eq next_spill_at merge_base_def FutureBucket_of_inputs_eq
        Let_def del: power_Suc)
qed

lemma pending_started:
  assumes "\<forall>b \<in> set sh. bucket_wf b"
    and "\<And>k. first_layer blookup sh k \<noteq> None \<Longrightarrow> first_layer blookup bs k \<noteq> None"
  shows "pending H c s bs (merging H c s sh (Running (merge c s sh)))"
  unfolding pending_def using assms by blast

lemma prepare_zero:
  assumes "mNextCurr l = clear_bucket" "mLevel l = 0"
  shows "prepare H n s sh l = Inr (l\<lparr>mNextCurr := merging H (mCurr l) s sh
    (Running (merge (mCurr l) s sh))\<rparr>)"
  using assms by (simp add: prepare_def FutureBucket_of_inputs_eq)


subsection \<open>The loop of a batch\<close>

lemma layers_simps [simp]:
  "layers [] = []"
  "layers (l # ls) = mCurr l # mSnap l # layers ls"
  "layers (ls @ ls') = layers ls @ layers ls'"
  by (simp_all add: layers_def)

lemma butlast_layers: "butlast (butlast (layers (ls @ [l]))) = layers ls"
  by (simp add: butlast_append)

lemma length_layers [simp]: "length (layers ls) = 2 * length ls"
  by (induction ls) simp_all

lemma layers_spill:
  assumes "Suc i < length ls"
  shows "layers ls = layers (take i ls) @
    [mCurr (ls ! i), mSnap (ls ! i), mCurr (ls ! Suc i)] @
    (mSnap (ls ! Suc i) # layers (drop (Suc (Suc i)) ls))"
proof -
  have "ls = take i ls @ ls ! i # ls ! Suc i # drop (Suc (Suc i)) ls"
    using assms by (metis Cons_nth_drop_Suc Suc_lessD id_take_nth_drop)
  then have "layers ls = layers (take i ls @ ls ! i # ls ! Suc i # drop (Suc (Suc i)) ls)"
    by simp
  then show ?thesis by simp
qed

lemma reach_eq: "j < length ls \<Longrightarrow> reach ls j = layers (take j ls) @ [mCurr (ls ! j)]"
  by (simp add: reach_def take_Suc_conv_app_nth butlast_append)

text \<open>The buckets a spill at level \<open>i\<close> leaves alone, seen from an older level \<open>j\<close>.\<close>

lemma reach_spill:
  assumes "i < j" "j < length ls"
  shows "\<exists>post. reach ls j = layers (take i ls) @
      [mCurr (ls ! i), mSnap (ls ! i), mCurr (ls ! Suc i)] @ post \<and>
    (\<forall>y z. mSnap z = mSnap (ls ! Suc i) \<longrightarrow> reach (ls[i := y, Suc i := z]) j =
      layers (take i ls) @ [mCurr y, mSnap y, mCurr z] @ post)"
proof -
  let ?post = "butlast (mSnap (ls ! Suc i) # layers (drop (Suc (Suc i)) (take (Suc j) ls)))"
  have tk: "take i (take (Suc j) ls) = take i ls" using assms by (simp add: min_def)
  have "reach ls j = layers (take i ls) @
      [mCurr (ls ! i), mSnap (ls ! i), mCurr (ls ! Suc i)] @ ?post"
    using layers_spill [of i "take (Suc j) ls"] assms tk
    by (simp add: reach_def butlast_append)
  moreover have "reach (ls[i := y, Suc i := z]) j =
      layers (take i ls) @ [mCurr y, mSnap y, mCurr z] @ ?post"
    if "mSnap z = mSnap (ls ! Suc i)" for y z
    using layers_spill [of i "take (Suc j) (ls[i := y, Suc i := z])"] assms tk that
    by (simp add: reach_def butlast_append take_update_swap drop_update_swap list_update_beyond)
  ultimately show ?thesis by blast
qed


lemma level_inv_cong:
  assumes "mCurr (ls' ! Suc j) = mCurr (ls ! Suc j) \<or> spills (next_spill n j) (Suc j)"
    and "mSnap (ls' ! j) = mSnap (ls ! j)" "mNextCurr (ls' ! Suc j) = mNextCurr (ls ! Suc j)"
    and "\<And>k. first_layer blookup (reach ls j) k \<noteq> None \<Longrightarrow> first_layer blookup (reach ls' j) k \<noteq> None"
    and "level_inv H n ls j"
  shows "level_inv H n ls' j"
proof -
  have "merge_base n j (mCurr (ls' ! Suc j)) = merge_base n j (mCurr (ls ! Suc j))"
    using assms(1) by (auto simp: merge_base_def)
  with assms(2-5) show ?thesis unfolding level_inv_def pending_def by metis
qed

lemma reach_update:
  "j < i \<Longrightarrow> i < length ls \<Longrightarrow> reach (ls[i := y]) j = reach ls j"
  by (simp add: reach_def take_update_swap list_update_beyond)

lemma levels_wf_update:
  assumes "levels_wf ls" "0 < i \<or> mNextCurr l = clear_bucket" "mLevel l = i"
    and "bucket_wf (mCurr l)" "bucket_wf (mSnap l)"
  shows "levels_wf (ls[i := l])"
proof (cases "i < length ls")
  case True
  with assms show ?thesis by (auto simp: levels_wf_def nth_list_update)
next
  case False
  with assms(1) show ?thesis by (simp add: list_update_beyond)
qed

lemma layers_wf:
  assumes "levels_wf ls"
  shows "\<forall>b \<in> set (layers (take i ls)). bucket_wf b"
proof -
  have "\<forall>l \<in> set ls. bucket_wf (mCurr l) \<and> bucket_wf (mSnap l)"
    using assms by (auto simp: levels_wf_def in_set_conv_nth)
  then show ?thesis by (auto simp: layers_def dest: in_set_takeD)
qed

lemma mid_inv_spill:
  assumes mid: "mid_inv H n (Suc i) ls" and i: "i < kNumLevels - 1" and sp: "spills (Suc n) i"
    and y: "mLevel y = i" "mSnap y = mCurr (ls ! i)" "mCurr y = []" "mNextCurr y = mNextCurr (ls ! i)"
    and z: "mLevel z = Suc i" "mSnap z = mSnap (ls ! Suc i)" "bucket_wf (mCurr z)"
      "mNextCurr z = merging H (merge_base (Suc n) i (mCurr z)) (mCurr (ls ! i)) (layers (take i ls))
         (Running (merge (merge_base (Suc n) i (mCurr z)) (mCurr (ls ! i)) (layers (take i ls))))"
    and keep: "\<And>post k. first_layer blookup (layers (take i ls) @ [[], mCurr (ls ! i), mCurr z] @ post) k =
        first_layer blookup
          (layers (take i ls) @ [mCurr (ls ! i), mSnap (ls ! i), mCurr (ls ! Suc i)] @ post) k"
  shows "mid_inv H n i (ls[i := y, Suc i := z])" (is "mid_inv H n i ?ls")
proof -
  have wf: "levels_wf ls" and len: "length ls = kNumLevels"
    using mid by (auto simp: mid_inv_def levels_wf_def)
  have "levels_wf ?ls"
    using wf y z i by (cases i) (auto simp: levels_wf_def nth_list_update)
  moreover have "level_inv H n ?ls j" if "j < i" for j
  proof (rule level_inv_cong)
    show "level_inv H n ls j" using mid that by (simp add: mid_inv_def)
    have "spills (next_spill n j) (Suc j)" if "Suc j = i"
      using sp that spills_younger [of "Suc n" j] next_spill_dvd [of j n] by simp
    then show "mCurr (?ls ! Suc j) = mCurr (ls ! Suc j) \<or> spills (next_spill n j) (Suc j)"
      using \<open>j < i\<close> by (cases "Suc j = i") simp_all
    show "first_layer blookup (reach ?ls j) k \<noteq> None" if "first_layer blookup (reach ls j) k \<noteq> None" for k
      using that \<open>j < i\<close> i len by (simp add: reach_update)
    show "mNextCurr (?ls ! Suc j) = mNextCurr (ls ! Suc j)"
      using that y i len by (cases "Suc j = i") simp_all
  qed (use that in simp)
  moreover have "level_inv H (Suc n) ?ls i"
  proof -
    have "first_layer blookup (reach ?ls i) k \<noteq> None"
      if "first_layer blookup (layers (take i ls)) k \<noteq> None" for k
      using that i len by (auto simp: reach_eq first_layer_append)
    moreover have "\<forall>b \<in> set (layers (take i ls)). bucket_wf b"
      using layers_wf [OF wf] by simp
    ultimately have "pending H (merge_base (Suc n) i (mCurr z)) (mCurr (ls ! i)) (reach ?ls i)
        (mNextCurr z)"
      unfolding z(4) by (intro pending_started)
    then show ?thesis using y z(1,2) i len by (simp add: level_inv_def)
  qed
  moreover have "level_inv H (Suc n) ?ls j" if ij: "i < j" "j < kNumLevels - 1" for j
  proof (rule level_inv_cong)
    show "level_inv H (Suc n) ls j" using mid ij by (simp add: mid_inv_def)
    obtain post where "reach ls j = layers (take i ls) @
        [mCurr (ls ! i), mSnap (ls ! i), mCurr (ls ! Suc i)] @ post"
      "reach ?ls j = layers (take i ls) @ [mCurr y, mSnap y, mCurr z] @ post"
      using reach_spill [OF ij(1), of ls] ij z(2) len by (auto simp: kNumLevels_def)
    with keep [of post] y show "first_layer blookup (reach ?ls j) k \<noteq> None"
      if "first_layer blookup (reach ls j) k \<noteq> None" for k
      using that by simp
    show "mSnap (?ls ! j) = mSnap (ls ! j)"
      using ij z(2) i len by (cases "j = Suc i") simp_all
  qed (use ij in simp_all)
  moreover have "mCurr (?ls ! i) = []" using y i len by simp
  ultimately show ?thesis by (auto simp: mid_inv_def le_less)
qed

text \<open>
  One spill, in the middle of a batch: it never fails an assertion, keeps the invariant and the
  value of every key.
\<close>

lemma spill_step:
  assumes mid: "mid_inv H n (Suc i) ls" and i: "i < kNumLevels - 1" and sp: "spills (Suc n) i"
  shows "\<exists>ls'. spill H (of_nat (Suc n)) i (layers (take i ls)) ls = Inr ls' \<and>
    mid_inv H n i ls' \<and> list_lookup ls' = list_lookup ls \<and> take i ls' = take i ls"
proof -
  let ?y = "ls ! i" and ?o = "ls ! Suc i"
  have wf: "levels_wf ls" and len: "length ls = kNumLevels"
    using mid by (auto simp: mid_inv_def levels_wf_def)
  have dvd: "2 ^ (2 * i + 1) dvd Suc n" using sp by (simp add: spills_def)
  have base: "merge_base n i (mCurr ?o) = mCurr ?o"
    using mid by (auto simp: merge_base_def next_spill_dvd [OF dvd] mid_inv_def)
  have lev: "mLevel ?y = i" "mLevel ?o = Suc i" and wfs: "bucket_wf (mCurr ?y)" "bucket_wf (mSnap ?y)"
    "bucket_wf (mCurr ?o)" "bucket_wf (mSnap ?o)"
    using wf i by (auto simp: levels_wf_def)
  have "pending H (mCurr ?o) (mSnap ?y) (layers (take i ls) @ [mCurr ?y]) (mNextCurr ?o)"
    using mid i len base by (auto simp: mid_inv_def level_inv_def reach_eq)
  from commit_pending [OF this] wfs obtain c
    where com: "commit H ?o = Inr (?o\<lparr>mNextCurr := clear_bucket, mCurr := c\<rparr>)" and wfc: "bucket_wf c"
      and keep: "\<And>post k. first_layer blookup (layers (take i ls) @ [[], mCurr ?y, c] @ post) k =
        first_layer blookup (layers (take i ls) @ [mCurr ?y, mSnap ?y, mCurr ?o] @ post) k"
    by auto
  define c' where "c' = merge_base (Suc n) i c"
  define y' where "y' = ?y\<lparr>mSnap := mCurr ?y, mCurr := []\<rparr>"
  define o' where "o' = ?o\<lparr>mNextCurr := merging H c' (mCurr ?y) (layers (take i ls))
      (Running (merge c' (mCurr ?y) (layers (take i ls)))), mCurr := c\<rparr>"
  let ?ls = "ls[i := y', Suc i := o']"
  have "prepare H (of_nat (Suc n)) (mCurr ?y) (layers (take i ls))
      (?o\<lparr>mNextCurr := clear_bucket, mCurr := c\<rparr>) = Inr o'"
    using prepare_older [of "?o\<lparr>mNextCurr := clear_bucket, mCurr := c\<rparr>" i "Suc n"] i dvd lev
    by (simp add: o'_def c'_def Let_def del: of_nat_Suc power_Suc)
  then have "spill H (of_nat (Suc n)) i (layers (take i ls)) ls = Inr ?ls"
    using com i len by (simp add: spill_def snap_def Let_def y'_def del: of_nat_Suc)
  moreover have "list_lookup ?ls = list_lookup ls"
  proof
    fix k
    show "list_lookup ?ls k = list_lookup ls k"
      using layers_spill [of i ?ls] layers_spill [of i ls] keep [of "mSnap ?o # layers (drop (Suc (Suc i)) ls)" k] i len
      by (simp add: list_lookup_def y'_def o'_def list_update_beyond)
  qed
  moreover have "take i ?ls = take i ls" by simp
  moreover have "mid_inv H n i ?ls"
    using wfc keep lev by (intro mid_inv_spill [OF mid i sp])
      (simp_all add: y'_def o'_def c'_def)
  ultimately show ?thesis by blast
qed


lemma no_spill_step:
  assumes mid: "mid_inv H n (Suc i) ls" and i: "i < kNumLevels - 1" and sp: "\<not> spills (Suc n) i"
  shows "mid_inv H n i ls"
proof -
  have "\<not> 2 ^ (2 * i + 1) dvd Suc n" using i sp by (simp add: spills_def)
  then have "level_inv H (Suc n) ls i"
    using mid i by (simp add: mid_inv_def level_inv_def merge_base_def next_spill_not_dvd
        del: power_Suc)
  then show ?thesis using mid sp by (auto simp: mid_inv_def le_eq_less_or_eq [of i] Suc_le_eq)
qed

lemma addBatch_loop_ok:
  assumes "mid_inv H n i ls" "i < kNumLevels" "length ls = kNumLevels"
  shows "\<exists>ls'. addBatch_loop H (of_nat (Suc n)) i (layers (take i ls)) ls = Inr ([], ls') \<and>
    mid_inv H n 0 ls' \<and> list_lookup ls' = list_lookup ls"
  using assms
proof (induction i arbitrary: ls)
  case 0
  then show ?case by simp
next
  case (Suc i)
  have sh: "butlast (butlast (layers (take (Suc i) ls))) = layers (take i ls)"
    using Suc.prems by (simp add: take_Suc_conv_app_nth butlast_append)
  have len: "2 \<le> length (layers (take (Suc i) ls))" using Suc.prems by simp
  have "\<exists>ls1. (if spills (Suc n) i then spill H (of_nat (Suc n)) i (layers (take i ls)) ls
      else Inr ls) = Inr ls1 \<and> mid_inv H n i ls1 \<and> list_lookup ls1 = list_lookup ls \<and>
      take i ls1 = take i ls"
    using Suc.prems spill_step [of H n i ls] no_spill_step [of H n i ls] by auto
  then obtain ls1 where step: "(if spills (Suc n) i
      then spill H (of_nat (Suc n)) i (layers (take i ls)) ls else Inr ls) = Inr ls1"
    and mid: "mid_inv H n i ls1" and same: "list_lookup ls1 = list_lookup ls" "take i ls1 = take i ls"
    by blast
  have "length ls1 = kNumLevels" using mid by (simp add: mid_inv_def levels_wf_def)
  from Suc.IH [OF mid _ this] Suc.prems same obtain ls' where
    "addBatch_loop H (of_nat (Suc n)) i (layers (take i ls)) ls1 = Inr ([], ls')"
    "mid_inv H n 0 ls'" "list_lookup ls' = list_lookup ls" by auto
  then show ?case
    using step len sh Suc.prems(2) levelShouldSpill_eq [of i "Suc n"]
    by (simp add: Let_def del: of_nat_Suc)
qed

lemma list_inv_mid: "list_inv H n ls \<Longrightarrow> mid_inv H n (kNumLevels - 1) ls"
  by (auto simp: list_inv_def mid_inv_def spills_def)

text \<open>What a batch does to the value of a key.\<close>

definition apply_batch ::
    "LedgerEntry list \<Rightarrow> LedgerKey list \<Rightarrow> (LedgerKey \<Rightarrow> BucketEntry option) \<Rightarrow> LedgerKey \<Rightarrow> BucketEntry option"
where
  "apply_batch live dead m k =
     (if k \<in> set dead then Some (DEADENTRY k)
      else case map_of (map (\<lambda>e. (LedgerEntryKey e, LIVEENTRY e)) live) k of
        None \<Rightarrow> m k | Some e \<Rightarrow> Some e)"

lemma level_zero_batch:
  assumes mid: "mid_inv H n 0 ls" and b: "bucket_wf b"
  shows "\<exists>l l'. prepare H (of_nat (Suc n)) b [] (ls ! 0) = Inr l \<and> commit H l = Inr l' \<and>
    list_inv H (Suc n) (ls[0 := l']) \<and>
    (\<forall>k. list_lookup (ls[0 := l']) k =
       (case blookup b k of None \<Rightarrow> list_lookup ls k | Some e \<Rightarrow> Some e))"
proof -
  let ?c = "mCurr (ls ! 0)" and ?m = "merge (mCurr (ls ! 0)) b []"
  let ?l' = "(ls ! 0)\<lparr>mNextCurr := clear_bucket, mCurr := ?m\<rparr>"
  have wf: "levels_wf ls" and lev: "mLevel (ls ! 0) = 0" "mNextCurr (ls ! 0) = clear_bucket"
    "bucket_wf ?c" "bucket_wf (mSnap (ls ! 0))" "length ls = kNumLevels"
    using mid by (auto simp: mid_inv_def levels_wf_def kNumLevels_def)
  obtain l0 rest where ls: "ls = l0 # rest" using lev(5) by (cases ls) (simp_all add: kNumLevels_def)
  have look: "blookup ?m k = (case blookup b k of None \<Rightarrow> blookup ?c k | Some e \<Rightarrow> Some e)" for k
    using lev b by (simp add: blookup_merge)
  have "level_inv H (Suc n) (ls[0 := ?l']) j" if "j < kNumLevels - 1" for j
  proof (rule level_inv_cong)
    show "level_inv H (Suc n) ls j" using mid that by (simp add: mid_inv_def)
    show "first_layer blookup (reach (ls[0 := ?l']) j) k \<noteq> None"
      if "first_layer blookup (reach ls j) k \<noteq> None" for k
      using that look [of k] ls
      by (cases rest) (auto simp: reach_def first_layer_append split: option.splits if_splits)
  qed (use ls in \<open>simp_all add: nth_Cons split: nat.splits\<close>)
  then have "list_inv H (Suc n) (ls[0 := ?l'])"
    using wf lev b by (simp add: list_inv_def levels_wf_update bucket_wf_merge)
  moreover have "list_lookup (ls[0 := ?l']) k =
      (case blookup b k of None \<Rightarrow> list_lookup ls k | Some e \<Rightarrow> Some e)" for k
    using look [of k] ls by (auto simp: list_lookup_def split: option.splits)
  ultimately show ?thesis
    using prepare_zero [OF lev(2,1)] commit_merging [OF _ disjI1 [OF refl]] by fastforce
qed


lemma addBatch_split:
  assumes inv: "list_inv H n ls" and n: "Suc n < 2 ^ 32"
  shows "\<exists>m. addBatch_loop H (of_nat (Suc n)) (kNumLevels - 1) (layers (take (kNumLevels - 1) ls)) ls =
      Inr ([], m) \<and> mid_inv H n 0 m \<and> list_lookup m = list_lookup ls \<and>
    addBatch H (of_nat (Suc n)) live dead ls =
      rbind (prepare H (of_nat (Suc n)) (fresh live dead) [] (m ! 0)) (\<lambda>l.
      rbind (commit H l) (\<lambda>l'. Inr (m[0 := l'])))"
proof -
  have len: "length ls = kNumLevels" using inv by (simp add: list_inv_def levels_wf_def)
  have pos: "0 < (of_nat (Suc n) :: uint32)"
    using n unat_of_nat [where 'a = 32, of "Suc n"]
    by (auto simp: word_gt_0 unat_eq_0 [symmetric] simp del: of_nat_Suc unat_eq_0)
  have sh: "butlast (butlast (layers ls)) = layers (take (kNumLevels - 1) ls)"
    using len by (metis append_butlast_last_id butlast_conv_take butlast_layers kNumLevels_def
        length_0_conv zero_neq_numeral)
  obtain m where m: "addBatch_loop H (of_nat (Suc n)) (kNumLevels - 1)
      (layers (take (kNumLevels - 1) ls)) ls = Inr ([], m)"
    and mid: "mid_inv H n 0 m" "list_lookup m = list_lookup ls"
    using addBatch_loop_ok [OF list_inv_mid [OF inv]] len by (auto simp: kNumLevels_def)
  moreover have "addBatch H (of_nat (Suc n)) live dead ls =
      rbind (prepare H (of_nat (Suc n)) (fresh live dead) [] (m ! 0)) (\<lambda>l.
      rbind (commit H l) (\<lambda>l'. Inr (m[0 := l'])))"
    using m pos len sh by (simp add: addBatch_def Let_def kNumLevels_def del: of_nat_Suc)
  ultimately show ?thesis by blast
qed

lemma addBatch_ok:
  assumes inv: "list_inv H n ls" and n: "Suc n < 2 ^ 32"
    and "distinct (map LedgerEntryKey live)" "distinct dead"
  shows "\<exists>ls'. addBatch H (of_nat (Suc n)) live dead ls = Inr ls' \<and> list_inv H (Suc n) ls' \<and>
    list_lookup ls' = apply_batch live dead (list_lookup ls)"
proof -
  obtain m where mid: "mid_inv H n 0 m" "list_lookup m = list_lookup ls"
    and split: "addBatch H (of_nat (Suc n)) live dead ls =
      rbind (prepare H (of_nat (Suc n)) (fresh live dead) [] (m ! 0)) (\<lambda>l.
      rbind (commit H l) (\<lambda>l'. Inr (m[0 := l'])))"
    using addBatch_split [OF inv n] by blast
  obtain l l' where "prepare H (of_nat (Suc n)) (fresh live dead) [] (m ! 0) = Inr l"
    "commit H l = Inr l'" "list_inv H (Suc n) (m[0 := l'])"
    and look: "\<And>k. list_lookup (m[0 := l']) k =
      (case blookup (fresh live dead) k of None \<Rightarrow> list_lookup m k | Some e \<Rightarrow> Some e)"
    using level_zero_batch [OF mid(1), of "fresh live dead"] fresh_ok [OF assms(3,4)] by blast
  moreover have "list_lookup (m[0 := l']) = apply_batch live dead (list_lookup ls)"
    using look mid(2) fresh_ok [OF assms(3,4)] by (auto simp: apply_batch_def split: option.splits)
  ultimately show ?thesis using split by simp
qed

subsection \<open>Reachable bucket lists\<close>

text \<open>
  The bucket lists that can arise: a new one, one batch per ledger, and, between any two batches
  and in any order, worker threads that finish. The list of batches is the history.
\<close>

type_synonym batch = "LedgerEntry list \<times> LedgerKey list"

definition batch_ok :: "batch \<Rightarrow> bool" where
  "batch_ok b \<longleftrightarrow> distinct (map LedgerEntryKey (fst b)) \<and> distinct (snd b)"

inductive bl_reachable :: "(Bucket \<Rightarrow> Hash) \<Rightarrow> batch list \<Rightarrow> BucketLevel list \<Rightarrow> bool"
  for H :: "Bucket \<Rightarrow> Hash" where
  init: "bl_reachable H [] new_BucketList"
| batch: "bl_reachable H bs ls \<Longrightarrow> batch_ok b \<Longrightarrow> Suc (length bs) < 2 ^ 32 \<Longrightarrow>
    addBatch H (of_nat (Suc (length bs))) (fst b) (snd b) ls = Inr ls' \<Longrightarrow>
    bl_reachable H (bs @ [b]) ls'"
| worker: "bl_reachable H bs ls \<Longrightarrow> j < kNumLevels \<Longrightarrow> bl_reachable H bs (worker_level j ls)"

lemma list_inv_new: "list_inv H 0 new_BucketList"
proof -
  have "new_BucketList ! j = new_level j" if "j < kNumLevels" for j
    using that by (simp add: new_BucketList_def)
  then show ?thesis
    by (simp add: list_inv_def levels_wf_def level_inv_def pending_def new_level_def
        new_BucketList_def kNumLevels_def)
qed

lemma worker_run_clear [simp]: "worker_run clear_bucket = clear_bucket"
  by (simp add: worker_run_def clear_bucket_def)

lemma worker_run_ready [simp]:
  "worker_run (merging H c s sh (Ready b)) = merging H c s sh (Ready b)"
  by (simp add: worker_run_def merging_def)

lemma pending_worker: "pending H c s bs fb \<Longrightarrow> pending H c s bs (worker_run fb)"
  unfolding pending_def
  by (metis worker_run_clear worker_run_merging worker_run_ready)

lemma worker_level_nth:
  "j < length ls \<Longrightarrow> i < length ls \<Longrightarrow> worker_level j ls ! i =
     (if i = j then (ls ! i)\<lparr>mNextCurr := worker_run (mNextCurr (ls ! i))\<rparr> else ls ! i)"
  by (simp add: worker_level_def nth_list_update)

lemma worker_level_layers:
  assumes "j < length ls"
  shows "layers (take i (worker_level j ls)) = layers (take i ls)"
proof -
  have "map (\<lambda>l. [mCurr l, mSnap l]) (worker_level j ls) = map (\<lambda>l. [mCurr l, mSnap l]) ls"
    using assms by (intro nth_equalityI) (simp_all add: worker_level_def nth_list_update)
  then show ?thesis by (simp add: layers_def take_map [symmetric])
qed

lemma list_inv_worker:
  assumes "list_inv H n ls" "j < kNumLevels"
  shows "list_inv H n (worker_level j ls)"
proof -
  have len: "length ls = kNumLevels" using assms by (simp add: list_inv_def levels_wf_def)
  have "level_inv H n (worker_level j ls) i" if "i < kNumLevels - 1" for i
  proof -
    have "level_inv H n ls i" using assms that by (simp add: list_inv_def)
    then show ?thesis
      using assms(2) that len pending_worker
      by (auto simp: level_inv_def worker_level_nth reach_def worker_level_layers)
  qed
  moreover have "levels_wf (worker_level j ls)"
    using assms len by (auto simp: list_inv_def levels_wf_def worker_level_nth)
      (simp add: worker_level_def)
  ultimately show ?thesis by (simp add: list_inv_def)
qed

lemma list_lookup_worker:
  "j < length ls \<Longrightarrow> list_lookup (worker_level j ls) = list_lookup ls"
  using worker_level_layers [of j ls "length ls"] by (simp add: list_lookup_def worker_level_def)

lemma reachable_inv:
  assumes "bl_reachable H bs ls"
  shows "list_inv H (length bs) ls \<and>
    list_lookup ls = fold (\<lambda>b. apply_batch (fst b) (snd b)) bs (\<lambda>_. None)"
  using assms
proof (induction rule: bl_reachable.induct)
  case init
  have "layers new_BucketList = replicate 22 []"
    by (simp add: new_BucketList_def kNumLevels_def new_level_def upt_conv_Cons numeral_eq_Suc)
  then show ?case
    using list_inv_new by (auto simp: list_lookup_def first_layer_None)
next
  case (batch bs ls b ls')
  then obtain ls'' where "addBatch H (of_nat (Suc (length bs))) (fst b) (snd b) ls = Inr ls''"
    "list_inv H (Suc (length bs)) ls''"
    "list_lookup ls'' = apply_batch (fst b) (snd b) (list_lookup ls)"
    using addBatch_ok [of H "length bs" ls "fst b" "snd b"] by (auto simp: batch_ok_def)
  with batch show ?case by auto
next
  case (worker bs ls j)
  then show ?case
    using list_inv_worker [of H "length bs" ls j] list_lookup_worker [of j ls]
    by (simp add: list_inv_def levels_wf_def)
qed


subsection \<open>The schedule of the workers does not matter\<close>

definition settle :: "BucketLevel \<Rightarrow> BucketLevel" where
  "settle l = l\<lparr>mNextCurr := worker_run (mNextCurr l)\<rparr>"

lemma settle_fields [simp]:
  "mCurr (settle l) = mCurr l" "mSnap (settle l) = mSnap l" "mLevel (settle l) = mLevel l"
  "mNextCurr (settle l) = worker_run (mNextCurr l)"
  by (simp_all add: settle_def)

lemma worker_run_idem [simp]: "worker_run (worker_run fb) = worker_run fb"
  by (simp add: worker_run_def split: shared_future.splits)

lemma settle_worker: "j < length ls \<Longrightarrow> map settle (worker_level j ls) = map settle ls"
  by (intro nth_equalityI)
    (simp_all add: worker_level_def nth_list_update settle_def)

lemma commit_settle:
  assumes "pending H c s bs (mNextCurr l)"
  shows "commit H (settle l) = commit H l"
  using assms unfolding pending_def
proof (elim disjE exE conjE)
  fix sh out
  assume "mNextCurr l = merging H c s sh out" "out = Running (merge c s sh)"
  then show ?thesis
    using commit_merging [of l H c s sh out] commit_merging [of "settle l" H c s sh]
    by (auto simp: worker_run_merging settle_def)
next
  fix sh out
  assume "mNextCurr l = merging H c s sh out" "out = Ready (merge c s sh)"
  then show ?thesis
    using commit_merging [of l H c s sh out] commit_merging [of "settle l" H c s sh]
    by auto
next
  assume "mNextCurr l = clear_bucket"
  then have "settle l = l" by (cases l) (simp add: settle_def)
  then show ?thesis by simp
qed

lemma commit_same:
  assumes "settle l = settle l2"
    and "pending H c s bs (mNextCurr l)" "pending H c2 s2 bs2 (mNextCurr l2)"
  shows "commit H l = commit H l2"
  using commit_settle [OF assms(2)] commit_settle [OF assms(3)] assms(1) by simp

lemma snap_same:
  "settle l = settle l2 \<Longrightarrow> fst (snap l) = fst (snap l2) \<and> settle (snd (snap l)) = settle (snd (snap l2))"
  by (cases l; cases l2) (simp add: snap_def settle_def)

lemma mid_inv_pending:
  "mid_inv H n (Suc i) ls \<Longrightarrow> \<exists>c s bs. pending H c s bs (mNextCurr (ls ! Suc i))"
  by (auto simp: mid_inv_def level_inv_def)

lemma spill_same:
  assumes "map settle ls = map settle ls2" "mid_inv H n (Suc i) ls" "mid_inv H n (Suc i) ls2"
    and i: "Suc i < length ls"
    and ls': "spill H m i sh ls = Inr ls'" and ls2': "spill H m i sh ls2 = Inr ls2'"
  shows "map settle ls' = map settle ls2'"
proof -
  have len: "length ls2 = length ls" using assms(1) by (metis length_map)
  have nth: "settle (ls ! j) = settle (ls2 ! j)" if "j < length ls" for j
    using assms(1) that len by (metis nth_map)
  note sn = snap_same [OF nth [of i]]
  have com: "commit H (ls ! Suc i) = commit H (ls2 ! Suc i)"
    using mid_inv_pending [OF assms(2)] mid_inv_pending [OF assms(3)] commit_same [OF nth [OF i]]
    by blast
  obtain o1 o2 where "commit H (ls ! Suc i) = Inr o1"
    and "prepare H m (fst (snap (ls ! i))) sh o1 = Inr o2"
    and e1: "ls' = ls[i := snd (snap (ls ! i)), Suc i := o2]"
    using ls' i by (auto simp: spill_def res_simps split: prod.splits)
  then have "ls2' = ls2[i := snd (snap (ls2 ! i)), Suc i := o2]"
    using ls2' com sn i len by (auto simp: spill_def res_simps split: prod.splits)
  then show ?thesis using e1 sn assms(1) i by (simp add: map_update)
qed

lemma layers_same:
  assumes "map settle ls = map settle ls2"
  shows "layers (take i ls) = layers (take i ls2)"
proof -
  have "layers (take i l) = layers (take i (map settle l))" for l
    by (simp add: layers_def take_map comp_def)
  with assms show ?thesis by metis
qed

lemma addBatch_loop_same:
  assumes "map settle ls = map settle ls2" "mid_inv H n i ls" "mid_inv H n i ls2"
    and "i < kNumLevels"
    and "addBatch_loop H (of_nat (Suc n)) i (layers (take i ls)) ls = Inr (sh, ls')"
    and "addBatch_loop H (of_nat (Suc n)) i (layers (take i ls2)) ls2 = Inr (sh2, ls2')"
  shows "map settle ls' = map settle ls2'"
  using assms
proof (induction i arbitrary: ls ls2)
  case 0
  then show ?case by simp
next
  case (Suc i)
  have len: "length ls = kNumLevels" "length ls2 = kNumLevels"
    using Suc.prems by (auto simp: mid_inv_def levels_wf_def)
  have sh: "butlast (butlast (layers (take (Suc i) l))) = layers (take i l)"
    if "length l = kNumLevels" for l
    using Suc.prems(4) that by (simp add: take_Suc_conv_app_nth butlast_append)
  have same: "layers (take i ls) = layers (take i ls2)"
    using Suc.prems(1) by (rule layers_same)
  have lss: "levelShouldSpill (of_nat (Suc n)) i = Inr (spills (Suc n) i)"
    using Suc.prems(4) levelShouldSpill_eq [of i "Suc n"] by simp
  show ?case
  proof (cases "spills (Suc n) i")
    case True
    have i: "i < kNumLevels - 1" using Suc.prems(4) by simp
    obtain l1 where l1: "spill H (of_nat (Suc n)) i (layers (take i ls)) ls = Inr l1"
      "mid_inv H n i l1" "take i l1 = take i ls" using spill_step [OF Suc.prems(2) i True] by blast
    obtain l2 where l2: "spill H (of_nat (Suc n)) i (layers (take i ls2)) ls2 = Inr l2"
      "mid_inv H n i l2" "take i l2 = take i ls2" using spill_step [OF Suc.prems(3) i True] by blast
    have "map settle l1 = map settle l2"
      using spill_same [OF Suc.prems(1-3) _ l1(1)] l2(1) same len Suc.prems(4) by simp
    then show ?thesis
      using Suc.IH [of l1 l2] Suc.prems l1 l2 True lss sh len
      by (simp add: Let_def rbind_eq_Inr del: of_nat_Suc)
  next
    case False
    then show ?thesis
      using Suc.IH [of ls ls2] Suc.prems no_spill_step lss sh len
      by (simp add: Let_def rbind_eq_Inr del: of_nat_Suc)
  qed
qed


lemma addBatch_same:
  assumes same: "map settle ls = map settle ls2" and inv: "list_inv H n ls" "list_inv H n ls2"
    and n: "Suc n < 2 ^ 32"
    and ls': "addBatch H (of_nat (Suc n)) live dead ls = Inr ls'"
    and ls2': "addBatch H (of_nat (Suc n)) live dead ls2 = Inr ls2'"
  shows "map settle ls' = map settle ls2'"
proof -
  obtain m where m: "addBatch_loop H (of_nat (Suc n)) (kNumLevels - 1)
      (layers (take (kNumLevels - 1) ls)) ls = Inr ([], m)" "mid_inv H n 0 m"
    and e: "addBatch H (of_nat (Suc n)) live dead ls =
      rbind (prepare H (of_nat (Suc n)) (fresh live dead) [] (m ! 0)) (\<lambda>l.
      rbind (commit H l) (\<lambda>l'. Inr (m[0 := l'])))"
    using addBatch_split [OF inv(1) n] by blast
  obtain m2 where m2: "addBatch_loop H (of_nat (Suc n)) (kNumLevels - 1)
      (layers (take (kNumLevels - 1) ls2)) ls2 = Inr ([], m2)" "mid_inv H n 0 m2"
    and e2: "addBatch H (of_nat (Suc n)) live dead ls2 =
      rbind (prepare H (of_nat (Suc n)) (fresh live dead) [] (m2 ! 0)) (\<lambda>l.
      rbind (commit H l) (\<lambda>l'. Inr (m2[0 := l'])))"
    using addBatch_split [OF inv(2) n] by blast
  have mm: "map settle m = map settle m2"
    using addBatch_loop_same [OF same list_inv_mid [OF inv(1)] list_inv_mid [OF inv(2)] _ m(1) m2(1)]
    by (simp add: kNumLevels_def)
  then have "settle (m ! 0) = settle (m2 ! 0)"
    using m(2) m2(2) by (metis gr_zeroI kNumLevels_def length_map levels_wf_def mid_inv_def nth_map
        zero_neq_numeral)
  then have "m ! 0 = m2 ! 0"
    using m(2) m2(2) by (cases "m ! 0"; cases "m2 ! 0")
      (auto simp: settle_def mid_inv_def levels_wf_def)
  with e e2 ls' ls2' mm show ?thesis by (auto simp: res_simps map_update)
qed

lemma reachable_length: "bl_reachable H bs ls \<Longrightarrow> length ls = kNumLevels"
  using reachable_inv by (auto simp: list_inv_def levels_wf_def)

lemma reachable_init_settled:
  "bl_reachable H bs ls \<Longrightarrow> bs = [] \<Longrightarrow> map settle ls = map settle new_BucketList"
  by (induction rule: bl_reachable.induct) (auto simp: settle_worker reachable_length)

lemma reachable_batch_settled:
  "bl_reachable H cs ls \<Longrightarrow> cs = bs @ [b] \<Longrightarrow>
   \<exists>l l'. bl_reachable H bs l \<and> Suc (length bs) < 2 ^ 32 \<and>
     addBatch H (of_nat (Suc (length bs))) (fst b) (snd b) l = Inr l' \<and>
     map settle ls = map settle l'"
proof (induction rule: bl_reachable.induct)
  case (worker bs' ls j)
  then show ?case by (simp add: settle_worker reachable_length)
qed (simp, blast)

lemma reachable_same:
  "bl_reachable H bs ls \<Longrightarrow> bl_reachable H bs ls2 \<Longrightarrow> map settle ls = map settle ls2"
proof (induction bs arbitrary: ls ls2 rule: rev_induct)
  case Nil
  then show ?case by (simp add: reachable_init_settled)
next
  case (snoc b bs)
  obtain l l' where l: "bl_reachable H bs l" "Suc (length bs) < 2 ^ 32"
    "addBatch H (of_nat (Suc (length bs))) (fst b) (snd b) l = Inr l'" "map settle ls = map settle l'"
    using reachable_batch_settled [OF snoc.prems(1) refl] by blast
  obtain m m' where m: "bl_reachable H bs m"
    "addBatch H (of_nat (Suc (length bs))) (fst b) (snd b) m = Inr m'" "map settle ls2 = map settle m'"
    using reachable_batch_settled [OF snoc.prems(2) refl] by blast
  show ?case
    using addBatch_same [OF snoc.IH [OF l(1) m(1)] _ _ l(2,3) m(2)] reachable_inv l m by simp
qed

subsection \<open>Properties\<close>

text \<open>
  C1: the bucket list refines the ledger. Whatever the batches and the schedule of the background
  merges, the value the list holds for a key (the youngest bucket that has it decides) is what the
  batches, applied in order, leave: spilling, merging and shadowing lose nothing and revive nothing.
\<close>

theorem bucket_list_refines_ledger:
  assumes "bl_reachable H batches levels"
  shows "list_lookup levels = fold (\<lambda>b. apply_batch (fst b) (snd b)) batches (\<lambda>_. None)"
  using reachable_inv [OF assms] by simp

definition sample_batch :: batch where
  "sample_batch = ([sample_account 1 10, sample_account 2 20], [AccountKey 3])"

lemma sample_batch_reachable: "\<exists>ls. bl_reachable sample_hash [sample_batch] ls"
proof -
  have "batch_ok sample_batch" by (simp add: batch_ok_def sample_batch_def)
  then obtain ls where "addBatch sample_hash (of_nat (Suc (length ([] :: batch list))))
      (fst sample_batch) (snd sample_batch) new_BucketList = Inr ls"
    using addBatch_ok [OF list_inv_new, of "fst sample_batch" "snd sample_batch" sample_hash]
    by (auto simp: batch_ok_def)
  with bl_reachable.batch [OF bl_reachable.init \<open>batch_ok sample_batch\<close>] show ?thesis by auto
qed

theorem bucket_list_refines_ledger_witness:
  "\<exists>ls. bl_reachable sample_hash [sample_batch] ls \<and>
     list_lookup ls (AccountKey 2) = Some (LIVEENTRY (sample_account 2 20)) \<and>
     list_lookup ls (AccountKey 3) = Some (DEADENTRY (AccountKey 3))"
proof -
  obtain ls where ls: "bl_reachable sample_hash [sample_batch] ls"
    using sample_batch_reachable by blast
  from bucket_list_refines_ledger [OF this] ls show ?thesis
    by (auto simp: sample_batch_def apply_batch_def)
qed

text \<open>
  C20: adding the batch of the next ledger always succeeds on a reachable bucket list: no assertion
  of \<open>addBatch\<close>, \<open>prepare\<close>, \<open>commit\<close> or of the merges' state machine fails and no merge is started
  while one is pending, for any state of the workers. The batch has one entry per key; the ledger
  sequence is within 32 bits.
\<close>

theorem addBatch_never_fails:
  assumes "bl_reachable H batches levels" "batch_ok b" "Suc (length batches) < 2 ^ 32"
  shows "\<exists>levels'. addBatch H (of_nat (Suc (length batches))) (fst b) (snd b) levels = Inr levels' \<and>
    bl_reachable H (batches @ [b]) levels'"
proof -
  obtain levels' where "addBatch H (of_nat (Suc (length batches))) (fst b) (snd b) levels = Inr levels'"
    using addBatch_ok [of H "length batches" levels "fst b" "snd b"] reachable_inv [OF assms(1)] assms
    by (auto simp: batch_ok_def simp del: of_nat_Suc)
  with bl_reachable.batch [OF assms] show ?thesis by blast
qed

theorem addBatch_never_fails_witness:
  "\<exists>levels'. bl_reachable sample_hash [sample_batch] levels'"
  using addBatch_never_fails [OF bl_reachable.init, of sample_batch sample_hash]
  by (auto simp: batch_ok_def sample_batch_def)

text \<open>
  C22: the bucket list hash, which goes into the ledger header, is a function of the batches alone:
  two nodes that added the same batches agree on it and on every \<open>curr\<close> and \<open>snap\<close>, however their
  worker threads were scheduled.
\<close>

theorem bucket_list_hash_agrees:
  assumes "bl_reachable H batches levels" "bl_reachable H batches levels2"
  shows "getHash S H levels = getHash S H levels2 \<and>
    map mCurr levels = map mCurr levels2 \<and> map mSnap levels = map mSnap levels2"
proof -
  have same: "map settle levels = map settle levels2" using assms by (rule reachable_same)
  have "map mCurr l = map mCurr (map settle l)" "map mSnap l = map mSnap (map settle l)"
    "map (level_getHash S H) l = map (level_getHash S H) (map settle l)" for l
    by (simp_all add: level_getHash_def)
  with same show ?thesis by (metis getHash_def)
qed

theorem bucket_list_hash_agrees_witness:
  "\<exists>ls. bl_reachable sample_hash [sample_batch] ls \<and>
     getHash (\<lambda>hs. sum_list hs) sample_hash ls =
     getHash (\<lambda>hs. sum_list hs) sample_hash (worker_level 1 ls)"
proof -
  obtain ls where ls: "bl_reachable sample_hash [sample_batch] ls"
    using sample_batch_reachable by blast
  then have "bl_reachable sample_hash [sample_batch] (worker_level 1 ls)"
    by (rule bl_reachable.worker) (simp add: kNumLevels_def)
  from bucket_list_hash_agrees [OF ls this] ls show ?thesis by blast
qed

end
