(* ===== verification/Ordered_Map.thy ===== *)
theory Ordered_Map
  imports Prelude
begin

text \<open>
  The ordered containers of the C++ library the code uses: \<open>std::map\<close> is an association list kept
  in the order of its keys, which is the order its iterators visit; \<open>std::set\<close> is a sorted list.
  Reading is \<^const>\<open>map_of\<close> and membership.
\<close>

type_synonym ('k, 'v) omap = "('k \<times> 'v) list"

fun om_update :: "'k::linorder \<Rightarrow> 'v \<Rightarrow> ('k, 'v) omap \<Rightarrow> ('k, 'v) omap" where
  "om_update k v [] = [(k, v)]"
| "om_update k v ((k', v') # m) =
     (if k < k' then (k, v) # (k', v') # m
      else if k = k' then (k, v) # m
      else (k', v') # om_update k v m)"

definition om_erase :: "'k \<Rightarrow> ('k, 'v) omap \<Rightarrow> ('k, 'v) omap" where
  "om_erase k m = filter (\<lambda>p. fst p \<noteq> k) m"

abbreviation om_mem :: "'k \<Rightarrow> ('k, 'v) omap \<Rightarrow> bool" where
  "om_mem k m \<equiv> map_of m k \<noteq> None"

definition om_wf :: "('k::linorder, 'v) omap \<Rightarrow> bool" where
  "om_wf m \<longleftrightarrow> sorted_wrt (<) (map fst m)"

definition os_insert :: "'k::linorder \<Rightarrow> 'k list \<Rightarrow> 'k list" where
  "os_insert k s = insort_insert k s"

definition os_erase :: "'k \<Rightarrow> 'k list \<Rightarrow> 'k list" where
  "os_erase k s = filter (\<lambda>x. x \<noteq> k) s"

definition os_wf :: "'k::linorder list \<Rightarrow> bool" where
  "os_wf s \<longleftrightarrow> sorted_wrt (<) s"

lemma map_of_om_update [simp]: "map_of (om_update k v m) = (map_of m)(k \<mapsto> v)"
  by (induction k v m rule: om_update.induct) (auto simp: fun_eq_iff)

lemma map_of_om_erase [simp]: "map_of (om_erase k m) = (map_of m)(k := None)"
  by (induction m) (auto simp: om_erase_def fun_eq_iff)

lemma set_om_update: "set (om_update k v m) \<subseteq> insert (k, v) (set m)"
  by (induction m) (auto split: if_splits)

lemma fst_om_update: "fst ` set (om_update k v m) = insert k (fst ` set m)"
  by (induction k v m rule: om_update.induct) auto

lemma om_wf_Nil [simp]: "om_wf []"
  by (simp add: om_wf_def)

lemma om_wf_Cons: "om_wf (p # m) \<longleftrightarrow> (\<forall>q \<in> set m. fst p < fst q) \<and> om_wf m"
  by (simp add: om_wf_def)

lemma om_wf_update [simp]: "om_wf m \<Longrightarrow> om_wf (om_update k v m)"
proof (induction k v m rule: om_update.induct)
  case (2 k v k' v' m)
  have "\<forall>q \<in> set (om_update k v m). fst q = k \<or> fst q \<in> fst ` set m"
    using fst_om_update [of k v m] by (metis image_eqI insertE)
  with 2 show ?case by (fastforce simp: om_wf_Cons)
qed (simp add: om_wf_Cons)

lemma om_wf_erase [simp]: "om_wf m \<Longrightarrow> om_wf (om_erase k m)"
  by (induction m) (auto simp: om_erase_def om_wf_Cons)

lemma om_wf_distinct: "om_wf m \<Longrightarrow> distinct (map fst m)"
  by (simp add: om_wf_def strict_sorted_iff)

lemma om_wf_map_of: "om_wf m \<Longrightarrow> map_of m k = Some v \<longleftrightarrow> (k, v) \<in> set m"
  by (simp add: om_wf_distinct)

lemma om_erase_absent [simp]: "map_of m k = None \<Longrightarrow> om_erase k m = m"
  by (auto simp: om_erase_def map_of_eq_None_iff filter_id_conv)

lemma set_om_erase: "set (om_erase k m) = {p \<in> set m. fst p \<noteq> k}"
  by (auto simp: om_erase_def)

lemma os_wf_Nil [simp]: "os_wf []"
  by (simp add: os_wf_def)

lemma os_wf_insert [simp]: "os_wf s \<Longrightarrow> os_wf (os_insert k s)"
  by (simp add: os_wf_def os_insert_def strict_sorted_iff sorted_insort_insert distinct_insort_insert)

lemma os_wf_erase [simp]: "os_wf s \<Longrightarrow> os_wf (os_erase k s)"
  by (induction s) (auto simp: os_wf_def os_erase_def)

lemma os_wf_distinct: "os_wf s \<Longrightarrow> distinct s"
  by (simp add: os_wf_def strict_sorted_iff)

lemma set_os_insert [simp]: "set (os_insert k s) = insert k (set s)"
  by (simp add: os_insert_def set_insort_insert)

lemma set_os_erase [simp]: "set (os_erase k s) = set s - {k}"
  by (auto simp: os_erase_def)

end
