(* ===== verification/Ledger_Header.thy ===== *)
theory Ledger_Header
  imports Util_Types
begin

text \<open>
  \<open>src/ledger/LedgerHeaderFrame.cpp\<close> and the header of \<open>src/xdr/Payshares-ledger.x\<close>.

  The hash of a header is the SHA-256 of its XDR encoding, given as the parameter \<open>HH\<close>. The frame
  caches it; a cache is recomputed when it is zero, so that reading the hash is \<open>HH\<close> of the header
  as long as the header has not been changed since the first reading. The \<open>data\<close> column of the
  \<open>LedgerHeaders\<close> table is the base64 of the XDR encoding, and the row is modelled as holding the
  header itself.
\<close>

subsection \<open>Definitions\<close>

record LedgerHeader =
  lh_previousLedgerHash :: Hash
  lh_txSetHash :: Hash
  lh_txSetResultHash :: Hash
  lh_bucketListHash :: Hash
  lh_ledgerSeq :: uint32
  lh_closeTime :: uint64
  lh_totalCoins :: int64
  lh_feePool :: int64
  lh_inflationSeq :: uint32
  lh_idPool :: uint64
  lh_baseFee :: int32
  lh_baseReserve :: int32

record LedgerHeaderHistoryEntry =
  lhe_hash :: Hash
  lhe_header :: LedgerHeader

definition header_getHash :: "(LedgerHeader \<Rightarrow> Hash) \<Rightarrow> LedgerHeader \<Rightarrow> Hash res" where
  "header_getHash HH h = rbind (rassert (HH h \<noteq> 0)) (\<lambda>_. Inr (HH h))"

text \<open>The header a new ledger starts from, checked against the hash of the last closed one.\<close>

definition LedgerHeaderFrame_next ::
    "(LedgerHeader \<Rightarrow> Hash) \<Rightarrow> LedgerHeaderHistoryEntry \<Rightarrow> LedgerHeader res" where
  "LedgerHeaderFrame_next HH lastClosed =
     rbind (header_getHash HH (lhe_header lastClosed)) (\<lambda>h.
     if h \<noteq> lhe_hash lastClosed then Inl (InvalidArgument ''provided ledger header is invalid'')
     else Inr ((lhe_header lastClosed)
       \<lparr>lh_ledgerSeq := lh_ledgerSeq (lhe_header lastClosed) + 1,
        lh_previousLedgerHash := lhe_hash lastClosed\<rparr>))"

definition getStartingSequenceNumber :: "LedgerHeader \<Rightarrow> SequenceNumber" where
  "getStartingSequenceNumber h = push_bit 32 (ucast (lh_ledgerSeq h))"

definition getLastGeneratedID :: "LedgerHeader \<Rightarrow> uint64" where
  "getLastGeneratedID h = lh_idPool h"

definition generateID :: "LedgerHeader \<Rightarrow> uint64 \<times> LedgerHeader" where
  "generateID h = (lh_idPool h + 1, h\<lparr>lh_idPool := lh_idPool h + 1\<rparr>)"

text \<open>
  A row of \<open>LedgerHeaders\<close>: the primary key, the unique sequence number and the data; the other
  columns repeat fields of the header and are only written. The checks of the table see signed numbers.
\<close>

record HeaderRow =
  row_ledgerHash :: Hash
  row_ledgerSeq :: uint32
  row_data :: LedgerHeader

definition header_storeInsert ::
    "(LedgerHeader \<Rightarrow> Hash) \<Rightarrow> LedgerHeader \<Rightarrow> HeaderRow list \<Rightarrow> HeaderRow list res" where
  "header_storeInsert HH h rows =
     rbind (header_getHash HH h) (\<lambda>hash.
     if sint (lh_ledgerSeq h) < 0 \<or> sint (lh_closeTime h) < 0 then Inl (SqlError ''CHECK constraint failed: LedgerHeaders'')
     else if \<exists>r \<in> set rows. row_ledgerHash r = hash \<or> row_ledgerSeq r = lh_ledgerSeq h
     then Inl (SqlError ''UNIQUE constraint failed: LedgerHeaders'')
     else Inr (rows @ [\<lparr>row_ledgerHash = hash, row_ledgerSeq = lh_ledgerSeq h, row_data = h\<rparr>]))"

definition loadByHash ::
    "(LedgerHeader \<Rightarrow> Hash) \<Rightarrow> Hash \<Rightarrow> HeaderRow list \<Rightarrow> LedgerHeader option res" where
  "loadByHash HH hash rows =
     (case find (\<lambda>r. row_ledgerHash r = hash) rows of
        None \<Rightarrow> Inr None
      | Some r \<Rightarrow> rbind (header_getHash HH (row_data r)) (\<lambda>h.
          Inr (if h \<noteq> hash then None else Some (row_data r))))"

definition loadBySequence :: "uint32 \<Rightarrow> HeaderRow list \<Rightarrow> LedgerHeader option" where
  "loadBySequence s rows =
     (case find (\<lambda>r. row_ledgerSeq r = s) rows of
        None \<Rightarrow> None
      | Some r \<Rightarrow> if lh_ledgerSeq (row_data r) \<noteq> s then None else Some (row_data r))"

fun copy_headers_loop ::
    "(LedgerHeader \<Rightarrow> Hash) \<Rightarrow> HeaderRow list \<Rightarrow> LedgerHeaderHistoryEntry list
      \<Rightarrow> LedgerHeaderHistoryEntry list res" where
  "copy_headers_loop HH [] out = Inr out"
| "copy_headers_loop HH (r # rs) out =
     rbind (header_getHash HH (row_data r)) (\<lambda>h.
     copy_headers_loop HH rs (out @ [\<lparr>lhe_hash = h, lhe_header = row_data r\<rparr>]))"

definition copyLedgerHeadersToStream ::
    "(LedgerHeader \<Rightarrow> Hash) \<Rightarrow> uint32 \<Rightarrow> uint32 \<Rightarrow> HeaderRow list \<Rightarrow> LedgerHeaderHistoryEntry list res" where
  "copyLedgerHeadersToStream HH ledgerSeq ledgerCount rows =
     (let end = ledgerSeq + ledgerCount
      in rbind (rassert (ledgerSeq \<le> end)) (\<lambda>_.
         copy_headers_loop HH
           (sort_key row_ledgerSeq
              (filter (\<lambda>r. ledgerSeq \<le> row_ledgerSeq r \<and> row_ledgerSeq r < end) rows)) []))"

end
