(* ===== verification/Database.thy ===== *)
theory Database
  imports Ordered_Map Ledger_Header "HOL-Library.AList"
begin

text \<open>
  The SQL tables the ledger is kept in, as the \<open>CREATE TABLE\<close> statements of
  \<open>src/ledger/AccountFrame.cpp\<close>, \<open>TrustFrame.cpp\<close> and \<open>OfferFrame.cpp\<close> declare them. A table is
  an association list from the primary key to the other columns, in insertion order. A statement
  that violates a constraint raises an error of the SQL engine.

  An account id is stored as its base58check text and read back with the inverse function; the
  columns hold the id itself here. A currency code is stored as the string \<open>currencyCodeToStr\<close>
  makes of it, which is kept. Thresholds are stored in hexadecimal and read back byte by byte.
\<close>

type_synonym ('k, 'v) sql_table = "('k \<times> 'v) list"

definition sql_insert :: "('v \<Rightarrow> bool) \<Rightarrow> 'k \<Rightarrow> 'v \<Rightarrow> ('k, 'v) sql_table \<Rightarrow> ('k, 'v) sql_table res" where
  "sql_insert chk k v t =
     (if \<not> chk v then Inl (SqlError ''CHECK constraint failed'')
      else if map_of t k \<noteq> None then Inl (SqlError ''UNIQUE constraint failed'')
      else Inr (AList.update k v t))"

text \<open>An update of the row with the given primary key; \<open>none\<close> is what is done if no row matches.\<close>

definition sql_update ::
    "('v \<Rightarrow> bool) \<Rightarrow> 'k \<Rightarrow> ('v \<Rightarrow> 'v) \<Rightarrow> ('k, 'v) sql_table res \<Rightarrow> ('k, 'v) sql_table
      \<Rightarrow> ('k, 'v) sql_table res" where
  "sql_update chk k f none t =
     (case map_of t k of
        None \<Rightarrow> none
      | Some v \<Rightarrow> if \<not> chk (f v) then Inl (SqlError ''CHECK constraint failed'')
                  else Inr (AList.update k (f v) t))"

definition sql_delete :: "'k \<Rightarrow> ('k, 'v) sql_table \<Rightarrow> ('k, 'v) sql_table" where
  "sql_delete k t = AList.delete k t"

abbreviation no_row :: "'a res" where
  "no_row \<equiv> Inl (RuntimeError ''Could not update data in SQL'')"

record AccountRow =
  ac_balance :: int64
  ac_seqNum :: SequenceNumber
  ac_numSubEntries :: uint32
  ac_inflationDest :: "AccountID option"
  ac_thresholds :: "byte \<times> byte \<times> byte \<times> byte"
  ac_flags :: uint32

record TrustRow =
  tr_tlimit :: int64
  tr_balance :: int64
  tr_authorized :: bool

record OfferRow =
  or_accountID :: AccountID
  or_paysIsoCurrency :: "byte list"
  or_paysIssuer :: AccountID
  or_getsIsoCurrency :: "byte list"
  or_getsIssuer :: AccountID
  or_amount :: int64
  or_priceN :: int32
  or_priceD :: int32
  or_price :: int64

record Database =
  db_Accounts :: "(AccountID, AccountRow) sql_table"
  db_Signers :: "(AccountID \<times> uint256, uint32) sql_table"
  db_TrustLines :: "(AccountID \<times> AccountID \<times> byte list, TrustRow) sql_table"
  db_Offers :: "(uint64, OfferRow) sql_table"

definition empty_db :: Database where
  "empty_db = \<lparr>db_Accounts = [], db_Signers = [], db_TrustLines = [], db_Offers = []\<rparr>"

subsection \<open>Reading after writing\<close>

lemma sql_insert_ok:
  "chk v \<Longrightarrow> map_of t k = None \<Longrightarrow>
   \<exists>t'. sql_insert chk k v t = Inr t' \<and> map_of t' = (map_of t)(k \<mapsto> v)"
  by (simp add: sql_insert_def update_conv')

lemma sql_update_ok:
  "map_of t k = Some v \<Longrightarrow> chk (f v) \<Longrightarrow>
   \<exists>t'. sql_update chk k f none t = Inr t' \<and> map_of t' = (map_of t)(k \<mapsto> f v)"
  by (simp add: sql_update_def update_conv')

lemma map_of_sql_delete [simp]: "map_of (sql_delete k t) = (map_of t)(k := None)"
  by (simp add: sql_delete_def delete_conv')

lemma distinct_sql_delete: "distinct (map fst t) \<Longrightarrow> distinct (map fst (sql_delete k t))"
  by (simp add: sql_delete_def distinct_delete)

lemma sql_insert_Inr:
  "sql_insert chk k v t = Inr t' \<longleftrightarrow> chk v \<and> map_of t k = None \<and> t' = AList.update k v t"
  by (auto simp: sql_insert_def)

lemma sql_update_Inr:
  "sql_update chk k f (Inl e) t = Inr t' \<longleftrightarrow>
     (\<exists>v. map_of t k = Some v \<and> chk (f v) \<and> t' = AList.update k (f v) t)"
  by (auto simp: sql_update_def split: option.splits)

end
