(* ===== verification/Ledger_Delta.thy ===== *)
theory Ledger_Delta
  imports Ordered_Map Bucket_List Ledger_Header
begin

text \<open>
  \<open>src/ledger/LedgerDelta.cpp\<close>: the changes a ledger close, a transaction or an operation has made
  so far. A delta is over the root header or nested in another delta; its \<open>mHeader\<close> pointer leads to
  the header of that delta, or to the root header, and is null once the delta is finished
  (\<open>mOpen\<close> is false). The functions that follow the pointer take the header it leads to as an
  argument. The entries kept are copies, never changed afterwards.
\<close>

subsection \<open>Definitions\<close>

record LedgerDelta =
  mOpen :: bool
  mCurrentHeader :: LedgerHeader
  mPreviousHeaderValue :: LedgerHeader
  mNew :: "(LedgerKey, LedgerEntry) omap"
  mMod :: "(LedgerKey, LedgerEntry) omap"
  mDelete :: "LedgerKey list"

definition LedgerDelta_over :: "LedgerHeader \<Rightarrow> LedgerDelta" where
  "LedgerDelta_over header = \<lparr>mOpen = True, mCurrentHeader = header, mPreviousHeaderValue = header,
     mNew = [], mMod = [], mDelete = []\<rparr>"

definition LedgerDelta_nested :: "LedgerDelta \<Rightarrow> LedgerDelta" where
  "LedgerDelta_nested outerDelta = LedgerDelta_over (mCurrentHeader outerDelta)"

definition delta_checkState :: "LedgerDelta \<Rightarrow> unit res" where
  "delta_checkState d =
     (if \<not> mOpen d then Inl (RuntimeError ''Invalid operation: delta is already committed'')
      else Inr ())"

definition addEntry :: "LedgerEntry \<Rightarrow> LedgerDelta \<Rightarrow> LedgerDelta res" where
  "addEntry entry d =
     rbind (delta_checkState d) (\<lambda>_.
     let k = LedgerEntryKey entry
     in if k \<in> set (mDelete d) then
          Inr (d\<lparr>mDelete := os_erase k (mDelete d), mMod := om_update k entry (mMod d)\<rparr>)
        else
          rbind (rassert (\<not> om_mem k (mNew d))) (\<lambda>_.
          rbind (rassert (\<not> om_mem k (mMod d))) (\<lambda>_.
          Inr (d\<lparr>mNew := om_update k entry (mNew d)\<rparr>))))"

definition deleteEntry :: "LedgerKey \<Rightarrow> LedgerDelta \<Rightarrow> LedgerDelta res" where
  "deleteEntry k d =
     rbind (delta_checkState d) (\<lambda>_.
     if om_mem k (mNew d) then Inr (d\<lparr>mNew := om_erase k (mNew d)\<rparr>)
     else
       rbind (rassert (k \<notin> set (mDelete d))) (\<lambda>_.
       Inr (d\<lparr>mMod := om_erase k (mMod d), mDelete := os_insert k (mDelete d)\<rparr>)))"

definition modEntry :: "LedgerEntry \<Rightarrow> LedgerDelta \<Rightarrow> LedgerDelta res" where
  "modEntry entry d =
     rbind (delta_checkState d) (\<lambda>_.
     let k = LedgerEntryKey entry
     in if om_mem k (mMod d) then Inr (d\<lparr>mMod := om_update k entry (mMod d)\<rparr>)
        else if om_mem k (mNew d) then Inr (d\<lparr>mNew := om_update k entry (mNew d)\<rparr>)
        else
          rbind (rassert (k \<notin> set (mDelete d))) (\<lambda>_.
          Inr (d\<lparr>mMod := om_update k entry (mMod d)\<rparr>)))"

fun each :: "('a \<Rightarrow> 's \<Rightarrow> 's res) \<Rightarrow> 'a list \<Rightarrow> 's \<Rightarrow> 's res" where
  "each f [] s = Inr s"
| "each f (x # xs) s = rbind (f x s) (each f xs)"

definition mergeEntries :: "LedgerDelta \<Rightarrow> LedgerDelta \<Rightarrow> LedgerDelta res" where
  "mergeEntries other d =
     rbind (delta_checkState d) (\<lambda>_.
     rbind (each deleteEntry (mDelete other) d) (\<lambda>d1.
     rbind (each addEntry (map snd (mNew other)) d1) (\<lambda>d2.
     each modEntry (map snd (mMod other)) d2)))"

text \<open>\<open>commit\<close> of a delta over the root header: the new header and the finished delta.\<close>

definition commit_root :: "LedgerDelta \<Rightarrow> LedgerHeader \<Rightarrow> (LedgerHeader \<times> LedgerDelta) res" where
  "commit_root d header =
     rbind (delta_checkState d) (\<lambda>_.
     if mPreviousHeaderValue d \<noteq> header then Inl (RuntimeError ''unexpected header state'')
     else Inr (mCurrentHeader d, d\<lparr>mOpen := False\<rparr>))"

text \<open>\<open>commit\<close> of a nested delta: the outer delta afterwards and the finished inner one.\<close>

definition commit_nested :: "LedgerDelta \<Rightarrow> LedgerDelta \<Rightarrow> (LedgerDelta \<times> LedgerDelta) res" where
  "commit_nested d outer =
     rbind (delta_checkState d) (\<lambda>_.
     if mPreviousHeaderValue d \<noteq> mCurrentHeader outer then
       Inl (RuntimeError ''unexpected header state'')
     else
       rbind (mergeEntries d outer) (\<lambda>outer'.
       Inr (outer'\<lparr>mCurrentHeader := mCurrentHeader d\<rparr>, d\<lparr>mOpen := False\<rparr>)))"

definition rollback :: "LedgerDelta \<Rightarrow> LedgerDelta res" where
  "rollback d = rbind (delta_checkState d) (\<lambda>_. Inr (d\<lparr>mOpen := False\<rparr>))"

definition getTransactionMeta :: "LedgerDelta \<Rightarrow> BucketEntry list" where
  "getTransactionMeta d =
     map (LIVEENTRY \<circ> snd) (mNew d) @ map (LIVEENTRY \<circ> snd) (mMod d) @ map DEADENTRY (mDelete d)"

definition getLiveEntries :: "LedgerDelta \<Rightarrow> LedgerEntry list" where
  "getLiveEntries d = map snd (mNew d) @ map snd (mMod d)"

definition getDeadEntries :: "LedgerDelta \<Rightarrow> LedgerKey list" where
  "getDeadEntries d = mDelete d"


subsection \<open>The contract of a log of changes\<close>

text \<open>
  A log of changes over a state that shows entries by key: adding, changing and deleting an entry
  never fail where they make sense, and have the effect they name on what is shown. What is added
  or changed is a frame around an entry; a log may not accept every frame.
\<close>

locale change_log =
  fixes add :: "'f \<Rightarrow> 's \<Rightarrow> 's res"
    and chg :: "'f \<Rightarrow> 's \<Rightarrow> 's res"
    and del :: "'k \<Rightarrow> 's \<Rightarrow> 's res"
    and ent :: "'f \<Rightarrow> 'e"
    and key :: "'e \<Rightarrow> 'k"
    and ok :: "'s \<Rightarrow> bool"
    and addable :: "'f \<Rightarrow> 's \<Rightarrow> bool"
    and changeable :: "'f \<Rightarrow> 's \<Rightarrow> bool"
    and view :: "'s \<Rightarrow> 'k \<Rightarrow> 'e option"
  assumes add_ok: "ok s \<Longrightarrow> addable f s \<Longrightarrow> view s (key (ent f)) = None \<Longrightarrow>
      \<exists>s'. add f s = Inr s' \<and> ok s' \<and> view s' = (view s)(key (ent f) \<mapsto> ent f)"
    and chg_ok: "ok s \<Longrightarrow> changeable f s \<Longrightarrow> view s (key (ent f)) \<noteq> None \<Longrightarrow>
      \<exists>s'. chg f s = Inr s' \<and> ok s' \<and> view s' = (view s)(key (ent f) \<mapsto> ent f)"
    and del_ok: "ok s \<Longrightarrow> view s k \<noteq> None \<Longrightarrow>
      \<exists>s'. del k s = Inr s' \<and> ok s' \<and> view s' = (view s)(k := None)"
begin

lemma each_del:
  assumes "ok s" "distinct ks" "\<forall>k \<in> set ks. view s k \<noteq> None"
  shows "\<exists>s'. each del ks s = Inr s' \<and> ok s' \<and>
    view s' = (\<lambda>k. if k \<in> set ks then None else view s k)"
  using assms
proof (induction ks arbitrary: s)
  case (Cons k ks)
  from del_ok [of s k] Cons.prems obtain s1
    where s1: "del k s = Inr s1" "ok s1" "view s1 = (view s)(k := None)" by auto
  have "\<forall>x \<in> set ks. view s1 x \<noteq> None" using Cons.prems s1(3) by auto
  from Cons.IH [OF s1(2) _ this] Cons.prems obtain s2 where
    "each del ks s1 = Inr s2" "ok s2" "view s2 = (\<lambda>k. if k \<in> set ks then None else view s1 k)"
    by auto
  with s1 show ?case by (auto simp: fun_eq_iff)
qed simp

end

text \<open>A log that takes every entry as it is: a whole batch of changes can be replayed on it.\<close>

locale replay_log = change_log add chg del "\<lambda>e. e" key ok "\<lambda>_ _. True" "\<lambda>_ _. True" view
  for add :: "'e \<Rightarrow> 's \<Rightarrow> 's res" and chg :: "'e \<Rightarrow> 's \<Rightarrow> 's res" and del :: "'k \<Rightarrow> 's \<Rightarrow> 's res"
    and key :: "'e \<Rightarrow> 'k" and ok :: "'s \<Rightarrow> bool" and view :: "'s \<Rightarrow> 'k \<Rightarrow> 'e option"
begin

lemma each_add:
  assumes "ok s" "distinct (map key es)" "\<forall>e \<in> set es. view s (key e) = None"
  shows "\<exists>s'. each add es s = Inr s' \<and> ok s' \<and>
    view s' = view s ++ map_of (map (\<lambda>e. (key e, e)) es)"
  using assms
proof (induction es arbitrary: s)
  case (Cons e es)
  from add_ok [of s e] Cons.prems obtain s1
    where s1: "add e s = Inr s1" "ok s1" "view s1 = (view s)(key e \<mapsto> e)" by auto
  have fresh: "map_of (map (\<lambda>e. (key e, e)) es) (key e) = None"
    using Cons.prems(2) by (auto simp: map_of_eq_None_iff comp_def)
  have "\<forall>x \<in> set es. view s1 (key x) = None"
    using Cons.prems s1(3) by (auto simp: image_iff)
  from Cons.IH [OF s1(2) _ this] Cons.prems obtain s2 where
    "each add es s1 = Inr s2" "ok s2" "view s2 = view s1 ++ map_of (map (\<lambda>e. (key e, e)) es)"
    by auto
  with s1 fresh show ?case by (auto simp: fun_eq_iff map_add_def split: option.splits)
qed simp

lemma each_chg:
  assumes "ok s" "distinct (map key es)" "\<forall>e \<in> set es. view s (key e) \<noteq> None"
  shows "\<exists>s'. each chg es s = Inr s' \<and> ok s' \<and>
    view s' = view s ++ map_of (map (\<lambda>e. (key e, e)) es)"
  using assms
proof (induction es arbitrary: s)
  case (Cons e es)
  from chg_ok [of s e] Cons.prems obtain s1
    where s1: "chg e s = Inr s1" "ok s1" "view s1 = (view s)(key e \<mapsto> e)" by auto
  have fresh: "map_of (map (\<lambda>e. (key e, e)) es) (key e) = None"
    using Cons.prems(2) by (auto simp: map_of_eq_None_iff comp_def)
  have "\<forall>x \<in> set es. view s1 (key x) \<noteq> None"
    using Cons.prems s1(3) by (auto simp: image_iff)
  from Cons.IH [OF s1(2) _ this] Cons.prems obtain s2 where
    "each chg es s1 = Inr s2" "ok s2" "view s2 = view s1 ++ map_of (map (\<lambda>e. (key e, e)) es)"
    by auto
  with s1 fresh show ?case by (auto simp: fun_eq_iff map_add_def split: option.splits)
qed simp

text \<open>Replaying the deletions, additions and changes of a batch.\<close>

lemma replay:
  assumes "ok s" "distinct ds" "distinct (map key (as @ cs))"
    and "\<forall>k \<in> set ds. view s k \<noteq> None" "\<forall>e \<in> set as. view s (key e) = None"
    and "\<forall>e \<in> set cs. view s (key e) \<noteq> None \<and> key e \<notin> set ds"
  shows "\<exists>s1 s2 s3. each del ds s = Inr s1 \<and> each add as s1 = Inr s2 \<and> each chg cs s2 = Inr s3 \<and>
    ok s3 \<and> view s3 = (\<lambda>k. case map_of (map (\<lambda>e. (key e, e)) (as @ cs)) k of
      Some e \<Rightarrow> Some e | None \<Rightarrow> if k \<in> set ds then None else view s k)"
proof -
  from each_del [OF assms(1,2,4)] obtain s1 where s1: "each del ds s = Inr s1" "ok s1"
    "view s1 = (\<lambda>k. if k \<in> set ds then None else view s k)" by blast
  have "\<forall>e \<in> set as. view s1 (key e) = None" using s1(3) assms(5) by auto
  from each_add [OF s1(2) _ this] assms(3) obtain s2 where s2: "each add as s1 = Inr s2" "ok s2"
    "view s2 = view s1 ++ map_of (map (\<lambda>e. (key e, e)) as)" by auto
  have "\<forall>e \<in> set cs. view s2 (key e) \<noteq> None"
    using s1(3) s2(3) assms(6) by (auto simp: map_add_def split: option.splits)
  from each_chg [OF s2(2) _ this] assms(3) obtain s3 where s3: "each chg cs s2 = Inr s3" "ok s3"
    "view s3 = view s2 ++ map_of (map (\<lambda>e. (key e, e)) cs)" by auto
  have "map_of (map (\<lambda>e. (key e, e)) as) k = None \<or> map_of (map (\<lambda>e. (key e, e)) cs) k = None" for k
    using assms(3) by (auto simp: map_of_eq_None_iff)
  then have "view s3 k = (case map_of (map (\<lambda>e. (key e, e)) (as @ cs)) k of
      Some e \<Rightarrow> Some e | None \<Rightarrow> if k \<in> set ds then None else view s k)" for k
    unfolding s3(3) s2(3) s1(3) map_append map_of_append
    by (auto simp: map_add_def split: option.splits) (metis option.distinct(1))
  with s1 s2 s3 show ?thesis by blast
qed

end

subsection \<open>A delta is such a log\<close>

text \<open>What a delta shows over the entries \<open>base\<close> of the ledger it started from.\<close>

definition delta_view ::
    "(LedgerKey \<Rightarrow> LedgerEntry option) \<Rightarrow> LedgerDelta \<Rightarrow> LedgerKey \<Rightarrow> LedgerEntry option" where
  "delta_view base d k =
     (case map_of (mNew d) k of Some e \<Rightarrow> Some e
      | None \<Rightarrow> case map_of (mMod d) k of Some e \<Rightarrow> Some e
        | None \<Rightarrow> if k \<in> set (mDelete d) then None else base k)"

definition keyed :: "(LedgerKey, LedgerEntry) omap \<Rightarrow> bool" where
  "keyed m \<longleftrightarrow> om_wf m \<and> (\<forall>k e. map_of m k = Some e \<longrightarrow> LedgerEntryKey e = k)"

definition delta_ok :: "(LedgerKey \<Rightarrow> LedgerEntry option) \<Rightarrow> LedgerDelta \<Rightarrow> bool" where
  "delta_ok base d \<longleftrightarrow> mOpen d \<and> keyed (mNew d) \<and> keyed (mMod d) \<and> os_wf (mDelete d) \<and>
     (\<forall>k. om_mem k (mNew d) \<longrightarrow> base k = None) \<and>
     (\<forall>k. om_mem k (mMod d) \<longrightarrow> base k \<noteq> None \<and> k \<notin> set (mDelete d)) \<and>
     (\<forall>k \<in> set (mDelete d). base k \<noteq> None)"

lemma keyed_simps [simp]:
  "keyed []"
  "keyed m \<Longrightarrow> keyed (om_update (LedgerEntryKey e) e m)"
  "keyed m \<Longrightarrow> keyed (om_erase k m)"
  by (auto simp: keyed_def)

lemma delta_ok_header: "delta_ok base (d\<lparr>mCurrentHeader := h\<rparr>) = delta_ok base d"
  by (simp add: delta_ok_def)

lemma delta_ok_open: "delta_ok base d \<Longrightarrow> delta_checkState d = Inr ()"
  by (simp add: delta_ok_def delta_checkState_def)

lemma delta_view_update:
  "delta_view base (d\<lparr>mMod := om_update k e (mMod d)\<rparr>) =
     (if om_mem k (mNew d) then delta_view base d else (delta_view base d)(k \<mapsto> e))"
  "delta_view base (d\<lparr>mNew := om_update k e (mNew d)\<rparr>) = (delta_view base d)(k \<mapsto> e)"
  by (auto simp: delta_view_def fun_eq_iff split: option.splits)

lemma addEntry_ok:
  assumes "delta_ok base d" "delta_view base d (LedgerEntryKey e) = None"
  shows "\<exists>d'. addEntry e d = Inr d' \<and> delta_ok base d' \<and>
    delta_view base d' = (delta_view base d)(LedgerEntryKey e \<mapsto> e)"
proof -
  let ?k = "LedgerEntryKey e"
  have new: "map_of (mNew d) ?k = None" "map_of (mMod d) ?k = None"
    using assms(2) by (auto simp: delta_view_def split: option.splits)
  show ?thesis
  proof (cases "?k \<in> set (mDelete d)")
    case True
    let ?d = "d\<lparr>mDelete := os_erase ?k (mDelete d), mMod := om_update ?k e (mMod d)\<rparr>"
    have "addEntry e d = Inr ?d"
      using True assms(1) by (simp add: addEntry_def delta_ok_open Let_def)
    moreover have "delta_ok base ?d" using assms(1) True by (auto simp: delta_ok_def)
    moreover have "delta_view base ?d = (delta_view base d)(?k \<mapsto> e)"
      using new by (auto simp: delta_view_def fun_eq_iff split: option.splits)
    ultimately show ?thesis by blast
  next
    case False
    let ?d = "d\<lparr>mNew := om_update ?k e (mNew d)\<rparr>"
    have "addEntry e d = Inr ?d"
      using False new assms(1) by (simp add: addEntry_def delta_ok_open Let_def)
    moreover have "base ?k = None" using False new assms(2) by (simp add: delta_view_def)
    then have "delta_ok base ?d" using assms(1) by (simp add: delta_ok_def)
    ultimately show ?thesis by (metis delta_view_update(2))
  qed
qed

lemma modEntry_ok:
  assumes "delta_ok base d" "delta_view base d (LedgerEntryKey e) \<noteq> None"
  shows "\<exists>d'. modEntry e d = Inr d' \<and> delta_ok base d' \<and>
    delta_view base d' = (delta_view base d)(LedgerEntryKey e \<mapsto> e)"
proof (cases "om_mem (LedgerEntryKey e) (mNew d)")
  let ?k = "LedgerEntryKey e"
  case True
  have "map_of (mMod d) ?k = None" using True assms(1) by (auto simp: delta_ok_def)
  then have "modEntry e d = Inr (d\<lparr>mNew := om_update ?k e (mNew d)\<rparr>)"
    using True assms(1) by (simp add: modEntry_def delta_ok_open Let_def)
  moreover have "delta_ok base (d\<lparr>mNew := om_update ?k e (mNew d)\<rparr>)"
    using True assms(1) by (simp add: delta_ok_def)
  ultimately show ?thesis by (metis delta_view_update(2))
next
  let ?k = "LedgerEntryKey e"
  case False
  let ?d = "d\<lparr>mMod := om_update ?k e (mMod d)\<rparr>"
  have old: "?k \<notin> set (mDelete d)" "base ?k \<noteq> None"
    using False assms by (auto simp: delta_ok_def delta_view_def split: option.splits if_splits)
  then have "modEntry e d = Inr ?d"
    using False assms(1) by (simp add: modEntry_def delta_ok_open Let_def)
  moreover have "delta_ok base ?d" using old assms(1) by (simp add: delta_ok_def)
  ultimately show ?thesis using False by (metis delta_view_update(1))
qed

lemma deleteEntry_ok:
  assumes "delta_ok base d" "delta_view base d k \<noteq> None"
  shows "\<exists>d'. deleteEntry k d = Inr d' \<and> delta_ok base d' \<and>
    delta_view base d' = (delta_view base d)(k := None)"
proof (cases "om_mem k (mNew d)")
  case True
  let ?d = "d\<lparr>mNew := om_erase k (mNew d)\<rparr>"
  have "deleteEntry k d = Inr ?d" using True assms by (simp add: deleteEntry_def delta_ok_open)
  moreover have "delta_ok base ?d" using assms by (auto simp: delta_ok_def)
  moreover have "delta_view base ?d = (delta_view base d)(k := None)"
    using assms True by (auto simp: delta_ok_def delta_view_def fun_eq_iff split: option.splits)
  ultimately show ?thesis by blast
next
  case False
  let ?d = "d\<lparr>mMod := om_erase k (mMod d), mDelete := os_insert k (mDelete d)\<rparr>"
  have old: "k \<notin> set (mDelete d)" "base k \<noteq> None"
    using assms False by (auto simp: delta_ok_def delta_view_def split: option.splits if_splits)
  then have "deleteEntry k d = Inr ?d" using False assms by (simp add: deleteEntry_def delta_ok_open)
  moreover have "delta_ok base ?d" using assms old by (auto simp: delta_ok_def)
  moreover have "delta_view base ?d = (delta_view base d)(k := None)"
    using assms False by (auto simp: delta_ok_def delta_view_def fun_eq_iff split: option.splits)
  ultimately show ?thesis by blast
qed

interpretation dl: replay_log addEntry modEntry deleteEntry LedgerEntryKey
    "delta_ok base" "delta_view base" for base
  by unfold_locales (rule addEntry_ok modEntry_ok deleteEntry_ok; assumption)+


lemma delta_ok_keys:
  assumes "delta_ok base d"
  shows "map LedgerEntryKey (map snd (mNew d)) = map fst (mNew d)"
    "map LedgerEntryKey (map snd (mMod d)) = map fst (mMod d)"
    "distinct (map fst (mNew d) @ map fst (mMod d))" "distinct (mDelete d)"
proof -
  have "LedgerEntryKey e = k" if "(k, e) \<in> set m" "keyed m" for m k e
    using that by (simp add: keyed_def om_wf_map_of)
  then show "map LedgerEntryKey (map snd (mNew d)) = map fst (mNew d)"
    "map LedgerEntryKey (map snd (mMod d)) = map fst (mMod d)"
    using assms by (auto simp: delta_ok_def)
  have "om_wf (mNew d)" "om_wf (mMod d)" using assms by (simp_all add: delta_ok_def keyed_def)
  moreover have "fst ` set (mNew d) \<inter> fst ` set (mMod d) = {}"
    using assms by (auto simp: delta_ok_def map_of_eq_None_iff [symmetric])
      (metis domI domIff dom_map_of_conv_image_fst image_eqI fst_conv not_None_eq)
  ultimately show "distinct (map fst (mNew d) @ map fst (mMod d))"
    by (simp add: om_wf_distinct)
  show "distinct (mDelete d)" using assms by (simp add: delta_ok_def os_wf_distinct)
qed

lemma map_of_entries:
  "map LedgerEntryKey (map snd m) = map fst m \<Longrightarrow>
   map_of (map (\<lambda>e. (LedgerEntryKey e, e)) (map snd m)) = map_of m"
  by (induction m) (auto simp: fun_eq_iff)

lemma om_mem_set: "e \<in> snd ` set m \<Longrightarrow> map LedgerEntryKey (map snd m) = map fst m \<Longrightarrow>
   om_mem (LedgerEntryKey e) m"
  by (auto simp: map_of_eq_None_iff)

text \<open>Merging a nested delta into the outer one.\<close>

lemma mergeEntries_ok:
  assumes out: "delta_ok base outer" and inn: "delta_ok (delta_view base outer) inner"
  shows "\<exists>outer'. mergeEntries inner outer = Inr outer' \<and> delta_ok base outer' \<and>
    delta_view base outer' = delta_view (delta_view base outer) inner"
proof -
  note k = delta_ok_keys [OF inn]
  have "\<forall>e \<in> set (map snd (mNew inner)). delta_view base outer (LedgerEntryKey e) = None"
    using inn k(1) om_mem_set [of _ "mNew inner"] by (auto simp: delta_ok_def)
  moreover have "\<forall>e \<in> set (map snd (mMod inner)). delta_view base outer (LedgerEntryKey e) \<noteq> None \<and>
      LedgerEntryKey e \<notin> set (mDelete inner)"
    using inn k(2) om_mem_set [of _ "mMod inner"] by (auto simp: delta_ok_def)
  moreover have "\<forall>k \<in> set (mDelete inner). delta_view base outer k \<noteq> None"
    using inn by (auto simp: delta_ok_def)
  moreover have "distinct (map LedgerEntryKey (map snd (mNew inner) @ map snd (mMod inner)))"
    using k(3) unfolding map_append k(1,2) .
  ultimately obtain s1 s2 s3 where "each deleteEntry (mDelete inner) outer = Inr s1"
    "each addEntry (map snd (mNew inner)) s1 = Inr s2"
    "each modEntry (map snd (mMod inner)) s2 = Inr s3" "delta_ok base s3"
    "delta_view base s3 = (\<lambda>k. case map_of (map (\<lambda>e. (LedgerEntryKey e, e))
        (map snd (mNew inner) @ map snd (mMod inner))) k of
      Some e \<Rightarrow> Some e | None \<Rightarrow> if k \<in> set (mDelete inner) then None else delta_view base outer k)"
    using dl.replay [OF out k(4), of "map snd (mNew inner)" "map snd (mMod inner)"]
    by blast
  moreover have "map_of (map (\<lambda>e. (LedgerEntryKey e, e)) (map snd (mNew inner) @ map snd (mMod inner))) k =
      (case map_of (mNew inner) k of Some e \<Rightarrow> Some e | None \<Rightarrow> map_of (mMod inner) k)" for k
  proof -
    have "map_of (mNew inner) k = None \<or> map_of (mMod inner) k = None"
      using inn unfolding delta_ok_def by (metis not_None_eq)
    then show ?thesis
      using map_of_entries [OF k(1)] map_of_entries [OF k(2)]
      by (auto simp: map_add_def comp_def split: option.splits)
  qed
  ultimately have "mergeEntries inner outer = Inr s3" "delta_ok base s3"
    "delta_view base s3 k = delta_view (delta_view base outer) inner k" for k
    using out by (simp_all add: mergeEntries_def delta_ok_open delta_view_def split: option.splits)
  then show ?thesis by blast
qed


subsection \<open>From a delta to the bucket list\<close>

text \<open>The live entries among the values of a bucket list.\<close>

definition live_of :: "(LedgerKey \<Rightarrow> BucketEntry option) \<Rightarrow> LedgerKey \<Rightarrow> LedgerEntry option" where
  "live_of m k = (case m k of Some (LIVEENTRY e) \<Rightarrow> Some e | _ \<Rightarrow> None)"

lemma map_of_live: "map_of (map (\<lambda>e. (LedgerEntryKey e, LIVEENTRY e)) es) k =
    map_option LIVEENTRY (map_of (map (\<lambda>e. (LedgerEntryKey e, e)) es) k)"
  by (induction es) auto

lemma delta_entries:
  assumes "delta_ok base d"
  shows "map_of (map (\<lambda>e. (LedgerEntryKey e, e)) (getLiveEntries d)) k =
    (case map_of (mNew d) k of Some e \<Rightarrow> Some e | None \<Rightarrow> map_of (mMod d) k)"
proof -
  have "map_of (mNew d) k = None \<or> map_of (mMod d) k = None"
    using assms unfolding delta_ok_def by (metis not_None_eq)
  then show ?thesis
    using map_of_entries [OF delta_ok_keys(1) [OF assms]] map_of_entries [OF delta_ok_keys(2) [OF assms]]
    by (auto simp: getLiveEntries_def map_add_def comp_def split: option.splits)
qed

lemma delta_batch_ok:
  assumes "delta_ok base d"
  shows "batch_ok (getLiveEntries d, getDeadEntries d)"
  using delta_ok_keys(3,4) [OF assms]
  unfolding batch_ok_def getLiveEntries_def getDeadEntries_def fst_conv snd_conv map_append
    delta_ok_keys(1,2) [OF assms]
  by simp

lemma delta_batch_view:
  assumes "delta_ok (live_of m) d"
  shows "live_of (apply_batch (getLiveEntries d) (getDeadEntries d) m) = delta_view (live_of m) d"
proof
  fix k
  have "om_mem k (mNew d) \<or> om_mem k (mMod d) \<Longrightarrow> k \<notin> set (mDelete d)"
    using assms unfolding delta_ok_def by (metis not_None_eq)
  then show "live_of (apply_batch (getLiveEntries d) (getDeadEntries d) m) k = delta_view (live_of m) d k"
    unfolding live_of_def [of "apply_batch _ _ _"] apply_batch_def map_of_live delta_entries [OF assms]
    by (auto simp: delta_view_def getDeadEntries_def live_of_def split: option.splits)
qed

subsection \<open>Properties\<close>

text \<open>
  C16: the three change operations keep a delta consistent and record the change they name: adding
  an entry the ledger does not have, changing one it has, or deleting one it has never fails an
  assertion, whatever was recorded for that key before (an add after a delete, a delete after an
  add, repeated changes), and what the delta shows afterwards differs at that key only.
\<close>

theorem delta_records_changes:
  assumes "delta_ok base d"
  shows "(delta_view base d (LedgerEntryKey e) = None \<longrightarrow>
      (\<exists>d'. addEntry e d = Inr d' \<and> delta_ok base d' \<and>
         delta_view base d' = (delta_view base d)(LedgerEntryKey e \<mapsto> e))) \<and>
    (delta_view base d (LedgerEntryKey e) \<noteq> None \<longrightarrow>
      (\<exists>d'. modEntry e d = Inr d' \<and> delta_ok base d' \<and>
         delta_view base d' = (delta_view base d)(LedgerEntryKey e \<mapsto> e))) \<and>
    (delta_view base d k \<noteq> None \<longrightarrow>
      (\<exists>d'. deleteEntry k d = Inr d' \<and> delta_ok base d' \<and>
         delta_view base d' = (delta_view base d)(k := None)))"
  using dl.add_ok [OF assms] dl.chg_ok [OF assms] dl.del_ok [OF assms] by blast

definition sample_header :: LedgerHeader where
  "sample_header = \<lparr>lh_previousLedgerHash = 0, lh_txSetHash = 0, lh_txSetResultHash = 0,
     lh_bucketListHash = 0, lh_ledgerSeq = 1, lh_closeTime = 0, lh_totalCoins = 1000000,
     lh_feePool = 0, lh_inflationSeq = 0, lh_idPool = 0, lh_baseFee = 10, lh_baseReserve = 100\<rparr>"

definition sample_base :: "LedgerKey \<Rightarrow> LedgerEntry option" where
  "sample_base = [AccountKey 1 \<mapsto> sample_account 1 10]"

lemma delta_ok_new: "delta_ok base (LedgerDelta_over h)"
  by (simp add: delta_ok_def LedgerDelta_over_def)

theorem delta_records_changes_witness:
  "\<exists>d'. deleteEntry (AccountKey 1) (LedgerDelta_over sample_header) = Inr d' \<and>
     delta_view sample_base d' (AccountKey 1) = None"
proof -
  have "delta_view sample_base (LedgerDelta_over sample_header) (AccountKey 1) \<noteq> None"
    by (simp add: delta_view_def LedgerDelta_over_def sample_base_def)
  with delta_records_changes [OF delta_ok_new, of sample_base sample_header "sample_account 1 10" "AccountKey 1"]
  show ?thesis by fastforce
qed

text \<open>
  C3: committing a nested delta is the composition of changes: the outer delta then shows over the
  ledger what the inner one showed over the outer, takes its header, and the inner one is finished.
  The merge never fails an assertion.
\<close>

theorem delta_commit_composes:
  assumes "delta_ok base outer" "delta_ok (delta_view base outer) inner"
    and "mPreviousHeaderValue inner = mCurrentHeader outer"
  shows "\<exists>outer' inner'. commit_nested inner outer = Inr (outer', inner') \<and> delta_ok base outer' \<and>
    delta_view base outer' = delta_view (delta_view base outer) inner \<and>
    mCurrentHeader outer' = mCurrentHeader inner \<and> \<not> mOpen inner'"
proof -
  obtain o' where o': "mergeEntries inner outer = Inr o'" "delta_ok base o'"
    "delta_view base o' = delta_view (delta_view base outer) inner"
    using mergeEntries_ok [OF assms(1,2)] by blast
  have "delta_ok base (o'\<lparr>mCurrentHeader := h\<rparr>)"
    "delta_view base (o'\<lparr>mCurrentHeader := h\<rparr>) = delta_view base o'" for h
    by (simp_all add: o'(2) delta_ok_header delta_view_def fun_eq_iff split: option.splits)
  with o' assms show ?thesis by (simp add: commit_nested_def delta_ok_open)
qed

theorem delta_commit_composes_witness:
  "\<exists>outer' inner'. commit_nested (LedgerDelta_nested (LedgerDelta_over sample_header))
      (LedgerDelta_over sample_header) = Inr (outer', inner') \<and> \<not> mOpen inner'"
  using delta_commit_composes [of sample_base "LedgerDelta_over sample_header"
      "LedgerDelta_nested (LedgerDelta_over sample_header)"]
  by (auto simp: delta_ok_def LedgerDelta_nested_def LedgerDelta_over_def)

text \<open>
  A delta that was committed or rolled back is finished: every further operation on it throws
  the same error and changes nothing.
\<close>

theorem finished_delta_refuses:
  assumes "rollback d = Inr d' \<or> commit_nested d outer = Inr (outer', d') \<or>
    commit_root d header = Inr (header', d')"
  shows "addEntry e d' = Inl (RuntimeError ''Invalid operation: delta is already committed'') \<and>
    modEntry e d' = Inl (RuntimeError ''Invalid operation: delta is already committed'') \<and>
    deleteEntry k d' = Inl (RuntimeError ''Invalid operation: delta is already committed'') \<and>
    rollback d' = Inl (RuntimeError ''Invalid operation: delta is already committed'') \<and>
    commit_root d' h2 = Inl (RuntimeError ''Invalid operation: delta is already committed'') \<and>
    commit_nested d' d2 = Inl (RuntimeError ''Invalid operation: delta is already committed'')"
proof -
  have "\<not> mOpen d'"
    using assms by (auto simp: rollback_def commit_nested_def commit_root_def res_simps split: if_splits)
  then have "delta_checkState d' = Inl (RuntimeError ''Invalid operation: delta is already committed'')"
    by (simp add: delta_checkState_def)
  then show ?thesis
    by (simp add: addEntry_def modEntry_def deleteEntry_def rollback_def commit_root_def
        commit_nested_def)
qed

theorem finished_delta_refuses_witness:
  "addEntry (sample_account 1 10) ((LedgerDelta_over sample_header)\<lparr>mOpen := False\<rparr>) =
     Inl (RuntimeError ''Invalid operation: delta is already committed'')"
  using finished_delta_refuses [of "LedgerDelta_over sample_header"
      "(LedgerDelta_over sample_header)\<lparr>mOpen := False\<rparr>" undefined undefined undefined undefined
      "sample_account 1 10"]
  by (simp add: rollback_def delta_checkState_def LedgerDelta_over_def)

text \<open>
  C15: what goes into the bucket list at the end of a ledger is what the ledger's delta shows: added
  to a reachable bucket list, the live and dead entries of the delta are a proper batch, and the
  live entries the list holds afterwards are those the delta shows over the ones it held before.
\<close>

theorem bucket_list_follows_delta:
  assumes "bl_reachable H batches levels" "Suc (length batches) < 2 ^ 32"
    and "delta_ok (live_of (list_lookup levels)) d"
  shows "\<exists>levels'. addBatch H (of_nat (Suc (length batches))) (getLiveEntries d) (getDeadEntries d)
      levels = Inr levels' \<and>
    bl_reachable H (batches @ [(getLiveEntries d, getDeadEntries d)]) levels' \<and>
    live_of (list_lookup levels') = delta_view (live_of (list_lookup levels)) d"
proof -
  let ?b = "(getLiveEntries d, getDeadEntries d)"
  have ok: "batch_ok ?b" using assms(3) by (rule delta_batch_ok)
  obtain levels' where add: "addBatch H (of_nat (Suc (length batches))) (fst ?b) (snd ?b) levels = Inr levels'"
    and look: "list_lookup levels' = apply_batch (fst ?b) (snd ?b) (list_lookup levels)"
    using addBatch_ok [of H "length batches" levels "fst ?b" "snd ?b"] reachable_inv [OF assms(1)] ok assms(2)
    by (auto simp: batch_ok_def simp del: of_nat_Suc)
  with bl_reachable.batch [OF assms(1) ok assms(2) add] delta_batch_view [OF assms(3)]
  show ?thesis by auto
qed

theorem bucket_list_follows_delta_witness:
  "\<exists>levels'. addBatch sample_hash 1 [] [] new_BucketList = Inr levels' \<and>
     live_of (list_lookup levels') = delta_view (live_of (list_lookup new_BucketList))
       (LedgerDelta_over sample_header)"
  using bucket_list_follows_delta [OF bl_reachable.init [of sample_hash] _ delta_ok_new [of _ sample_header]]
  by (simp add: getLiveEntries_def getDeadEntries_def LedgerDelta_over_def) blast

end
