(* ===== verification/Account_Frame.thy ===== *)
theory Account_Frame
  imports Database Ledger_Delta
begin

text \<open>
  \<open>src/ledger/AccountFrame.cpp\<close>: an account with its signers, over the tables \<open>Accounts\<close> and
  \<open>Signers\<close>. \<open>getMinBalance\<close> is from \<open>LedgerManagerImpl.cpp\<close>; the header it reads is that of the
  ledger being closed.
\<close>

subsection \<open>Definitions\<close>

definition AUTH_REQUIRED_FLAG :: uint32 where
  "AUTH_REQUIRED_FLAG = 1"

text \<open>
  The product is one of unsigned 32-bit integers: the reserve is converted, the result wraps and
  is then widened to 64 bits.
\<close>

definition getMinBalance :: "LedgerHeader \<Rightarrow> uint32 \<Rightarrow> int64" where
  "getMinBalance lm ownerCount = uint ((2 + ownerCount) * (of_int (lh_baseReserve lm) :: uint32))"

definition getTxFee :: "LedgerHeader \<Rightarrow> int64" where
  "getTxFee lm = lh_baseFee lm"

record AccountFrame =
  mAccountEntry :: AccountEntry
  mUpdateSigners :: bool

definition empty_account :: AccountEntry where
  "empty_account = \<lparr>ae_accountID = 0, ae_balance = 0, ae_seqNum = 0, ae_numSubEntries = 0,
     ae_inflationDest = None, ae_flags = 0, ae_thresholds = (0, 0, 0, 0), ae_signers = []\<rparr>"

definition new_AccountFrame :: AccountFrame where
  "new_AccountFrame = \<lparr>mAccountEntry = empty_account\<lparr>ae_thresholds := (1, 0, 0, 0)\<rparr>,
     mUpdateSigners = False\<rparr>"

definition AccountFrame_of_entry :: "AccountEntry \<Rightarrow> AccountFrame" where
  "AccountFrame_of_entry a = \<lparr>mAccountEntry = a, mUpdateSigners = (ae_signers a \<noteq> [])\<rparr>"

definition AccountFrame_of_id :: "AccountID \<Rightarrow> AccountFrame" where
  "AccountFrame_of_id i =
     new_AccountFrame\<lparr>mAccountEntry := (mAccountEntry new_AccountFrame)\<lparr>ae_accountID := i\<rparr>\<rparr>"

abbreviation upd_account :: "(AccountEntry \<Rightarrow> AccountEntry) \<Rightarrow> AccountFrame \<Rightarrow> AccountFrame" where
  "upd_account f a \<equiv> a\<lparr>mAccountEntry := f (mAccountEntry a)\<rparr>"

definition normalize :: "AccountFrame \<Rightarrow> AccountFrame" where
  "normalize a = upd_account (\<lambda>e. e\<lparr>ae_signers := sort_key sig_pubKey (ae_signers e)\<rparr>) a"

definition setUpdateSigners :: "AccountFrame \<Rightarrow> AccountFrame" where
  "setUpdateSigners a = (normalize a)\<lparr>mUpdateSigners := True\<rparr>"

definition isAuthRequired :: "AccountFrame \<Rightarrow> bool" where
  "isAuthRequired a \<longleftrightarrow> ae_flags (mAccountEntry a) AND AUTH_REQUIRED_FLAG \<noteq> 0"

definition acc_getBalance :: "AccountFrame \<Rightarrow> int64" where
  "acc_getBalance a = ae_balance (mAccountEntry a)"

definition getMinimumBalance :: "LedgerHeader \<Rightarrow> AccountFrame \<Rightarrow> int64" where
  "getMinimumBalance lm a = getMinBalance lm (ae_numSubEntries (mAccountEntry a))"

definition getBalanceAboveReserve :: "LedgerHeader \<Rightarrow> AccountFrame \<Rightarrow> int64 res" where
  "getBalanceAboveReserve lm a =
     (let avail = wrap64 (acc_getBalance a - getMinBalance lm (ae_numSubEntries (mAccountEntry a)))
      in if avail < 0 then Inl (RuntimeError ''Balance cannot be below reserve'') else Inr avail)"

text \<open>
  The count is added as unsigned 32-bit integers and read as a signed one. The result says whether
  the balance is sufficient; only then is the frame changed.
\<close>

definition addNumEntries :: "int \<Rightarrow> LedgerHeader \<Rightarrow> AccountFrame \<Rightarrow> (bool \<times> AccountFrame) res" where
  "addNumEntries count lm a =
     (let newEntriesCount = ae_numSubEntries (mAccountEntry a) + of_int count
      in if sint newEntriesCount < 0 then Inl (RuntimeError ''invalid account state'')
         else if acc_getBalance a < getMinBalance lm newEntriesCount then Inr (False, a)
         else Inr (True, upd_account (\<lambda>e. e\<lparr>ae_numSubEntries := newEntriesCount\<rparr>) a))"

fun getMasterWeight :: "Thresholds \<Rightarrow> uint32" where
  "getMasterWeight (m, l, med, h) = ucast m"

fun getHighThreshold :: "Thresholds \<Rightarrow> uint32" where
  "getHighThreshold (m, l, med, h) = ucast h"

fun getMediumThreshold :: "Thresholds \<Rightarrow> uint32" where
  "getMediumThreshold (m, l, med, h) = ucast med"

fun getLowThreshold :: "Thresholds \<Rightarrow> uint32" where
  "getLowThreshold (m, l, med, h) = ucast l"

text \<open>The rows of \<open>Signers\<close> of an account.\<close>

definition select_signers :: "AccountID \<Rightarrow> Database \<Rightarrow> Signer list" where
  "select_signers a db =
     map (\<lambda>r. \<lparr>sig_pubKey = snd (fst r), sig_weight = snd r\<rparr>)
       (filter (\<lambda>r. fst (fst r) = a) (db_Signers db))"

text \<open>
  Loading into an existing frame: what the row does not determine is kept, so an inflation
  destination the frame already has survives a row without one. Signers are only looked for where
  the account counts some sub-entry.
\<close>

definition loadAccount :: "AccountID \<Rightarrow> AccountFrame \<Rightarrow> Database \<Rightarrow> bool \<times> AccountFrame" where
  "loadAccount accountID retAcc db =
     (let acc = (mAccountEntry retAcc)\<lparr>ae_accountID := accountID\<rparr>
      in case map_of (db_Accounts db) accountID of
           None \<Rightarrow> (False, retAcc\<lparr>mAccountEntry := acc\<rparr>)
         | Some r \<Rightarrow>
             let acc' = acc\<lparr>ae_balance := ac_balance r, ae_seqNum := ac_seqNum r,
               ae_numSubEntries := ac_numSubEntries r, ae_flags := ac_flags r,
               ae_thresholds := ac_thresholds r,
               ae_inflationDest := (case ac_inflationDest r of
                  None \<Rightarrow> ae_inflationDest acc | Some d \<Rightarrow> Some d),
               ae_signers := (if ac_numSubEntries r \<noteq> 0 then select_signers accountID db else [])\<rparr>
             in (True, (normalize (retAcc\<lparr>mAccountEntry := acc'\<rparr>))\<lparr>mUpdateSigners := False\<rparr>))"

definition account_exists :: "Database \<Rightarrow> AccountID \<Rightarrow> bool" where
  "account_exists db a \<longleftrightarrow> map_of (db_Accounts db) a \<noteq> None"

definition account_storeDelete ::
    "AccountID \<Rightarrow> Database \<Rightarrow> LedgerDelta \<Rightarrow> (Database \<times> LedgerDelta) res" where
  "account_storeDelete a db delta =
     (let db' = db\<lparr>db_Accounts := sql_delete a (db_Accounts db),
                   db_Signers := filter (\<lambda>r. fst (fst r) \<noteq> a) (db_Signers db)\<rparr>
      in rbind (deleteEntry (AccountKey a) delta) (\<lambda>delta'. Inr (db', delta')))"

definition account_row :: "AccountEntry \<Rightarrow> AccountRow" where
  "account_row e = \<lparr>ac_balance = ae_balance e, ac_seqNum = ae_seqNum e,
     ac_numSubEntries = ae_numSubEntries e, ac_inflationDest = ae_inflationDest e,
     ac_thresholds = ae_thresholds e, ac_flags = ae_flags e\<rparr>"

text \<open>The checks of the table; the number of sub-entries is bound as a signed 32-bit integer.\<close>

definition account_check :: "AccountRow \<Rightarrow> bool" where
  "account_check r \<longleftrightarrow> ac_balance r \<ge> 0 \<and> sint (ac_numSubEntries r) \<ge> 0"

type_synonym SignerTable = "(AccountID \<times> uint256, uint32) sql_table"

text \<open>Some signers were removed: the loop over the signers the database had.\<close>

fun signers_removed :: "AccountID \<Rightarrow> Signer list \<Rightarrow> Signer list \<Rightarrow> SignerTable \<Rightarrow> SignerTable res" where
  "signers_removed a final [] t = Inr t"
| "signers_removed a final (s # start) t =
     (case find (\<lambda>f. sig_pubKey f = sig_pubKey s) final of
        Some f \<Rightarrow>
          rbind (if sig_weight f \<noteq> sig_weight s then
                   sql_update (\<lambda>_. True) (a, sig_pubKey f) (\<lambda>_. sig_weight f) (Inr t) t
                 else Inr t)
            (signers_removed a final start)
      | None \<Rightarrow>
          if map_of t (a, sig_pubKey s) = None then no_row
          else signers_removed a final start (sql_delete (a, sig_pubKey s) t))"

text \<open>Signers added or the same: the loop over the signers the frame has.\<close>

fun signers_added :: "AccountID \<Rightarrow> Signer list \<Rightarrow> Signer list \<Rightarrow> SignerTable \<Rightarrow> SignerTable res" where
  "signers_added a start [] t = Inr t"
| "signers_added a start (f # final) t =
     rbind (case find (\<lambda>s. sig_pubKey f = sig_pubKey s) start of
              Some s \<Rightarrow>
                if sig_weight f \<noteq> sig_weight s then
                  sql_update (\<lambda>_. True) (a, sig_pubKey f) (\<lambda>_. sig_weight f) no_row t
                else Inr t
            | None \<Rightarrow> sql_insert (\<lambda>_. True) (a, sig_pubKey f) (sig_weight f) t)
       (signers_added a start final)"

definition store_signers :: "AccountFrame \<Rightarrow> Database \<Rightarrow> Database res" where
  "store_signers f db =
     (let e = mAccountEntry f; (ok, startFrame) = loadAccount (ae_accountID e) new_AccountFrame db
      in if \<not> ok then Inl (RuntimeError ''could not load account!'')
         else
           let start = ae_signers (mAccountEntry startFrame)
           in rbind (if length (ae_signers e) < length start
                     then signers_removed (ae_accountID e) (ae_signers e) start (db_Signers db)
                     else signers_added (ae_accountID e) start (ae_signers e) (db_Signers db))
                (\<lambda>t. Inr (db\<lparr>db_Signers := t\<rparr>)))"

definition account_storeUpdate ::
    "bool \<Rightarrow> AccountFrame \<Rightarrow> Database \<Rightarrow> LedgerDelta \<Rightarrow> (Database \<times> LedgerDelta) res" where
  "account_storeUpdate ins f db delta =
     (let e = mAccountEntry f
      in rbind (if ins then
                  sql_insert account_check (ae_accountID e) (account_row e) (db_Accounts db)
                else
                  sql_update account_check (ae_accountID e) (\<lambda>_. account_row e) no_row
                    (db_Accounts db)) (\<lambda>t.
         rbind (if ins then addEntry (ACCOUNT e) delta else modEntry (ACCOUNT e) delta) (\<lambda>delta'.
         rbind (if mUpdateSigners f then store_signers f (db\<lparr>db_Accounts := t\<rparr>)
                else Inr (db\<lparr>db_Accounts := t\<rparr>)) (\<lambda>db'.
         Inr (db', delta')))))"

definition account_storeChange ::
    "AccountFrame \<Rightarrow> Database \<Rightarrow> LedgerDelta \<Rightarrow> (Database \<times> LedgerDelta) res" where
  "account_storeChange f db delta = account_storeUpdate False f db delta"

definition account_storeAdd ::
    "AccountFrame \<Rightarrow> Database \<Rightarrow> LedgerDelta \<Rightarrow> (Database \<times> LedgerDelta) res" where
  "account_storeAdd f db delta = account_storeUpdate True f db delta"


subsection \<open>The signers table\<close>

text \<open>A list of signers as a map, and the signers of an account in a table, sorted by key.\<close>

definition sgn_map :: "Signer list \<Rightarrow> uint256 \<Rightarrow> uint32 option" where
  "sgn_map ss = map_of (map (\<lambda>s. (sig_pubKey s, sig_weight s)) ss)"

definition signers_sorted :: "Signer list \<Rightarrow> bool" where
  "signers_sorted ss \<longleftrightarrow> sorted_wrt (<) (map sig_pubKey ss)"

lemma sgn_map_find: "sgn_map ss p = map_option sig_weight (find (\<lambda>s. p = sig_pubKey s) ss)"
  by (induction ss) (auto simp: sgn_map_def)

lemma sgn_map_find': "sgn_map ss p = map_option sig_weight (find (\<lambda>s. sig_pubKey s = p) ss)"
  by (induction ss) (auto simp: sgn_map_def)

lemma sgn_map_simps [simp]:
  "sgn_map [] p = None"
  "sgn_map (s # ss) p = (if p = sig_pubKey s then Some (sig_weight s) else sgn_map ss p)"
  by (simp_all add: sgn_map_def)

lemma sgn_map_None: "sgn_map ss p = None \<longleftrightarrow> p \<notin> sig_pubKey ` set ss"
  by (auto simp: sgn_map_def map_of_eq_None_iff image_image)

lemma sgn_map_Some:
  "distinct (map sig_pubKey ss) \<Longrightarrow> s \<in> set ss \<Longrightarrow> sgn_map ss (sig_pubKey s) = Some (sig_weight s)"
  by (simp add: sgn_map_def comp_def)

lemma sgn_map_mem:
  assumes "distinct (map sig_pubKey ss)"
  shows "s \<in> set ss \<longleftrightarrow> sgn_map ss (sig_pubKey s) = Some (sig_weight s)"
proof
  assume "sgn_map ss (sig_pubKey s) = Some (sig_weight s)"
  then obtain s' where "s' \<in> set ss" "sig_pubKey s' = sig_pubKey s" "sig_weight s' = sig_weight s"
    by (auto simp: sgn_map_def dest!: map_of_SomeD)
  then show "s \<in> set ss" by (metis (full_types) Signer.equality old.unit.exhaust)
qed (rule sgn_map_Some [OF assms])

lemma signers_sorted_Nil [simp]: "signers_sorted []"
  by (simp add: signers_sorted_def)

lemma signers_sorted_distinct: "signers_sorted ss \<Longrightarrow> distinct (map sig_pubKey ss)"
  by (simp add: signers_sorted_def strict_sorted_iff)

text \<open>A sorted list of signers is determined by its map.\<close>

lemma signers_eqI:
  assumes "signers_sorted ss" "signers_sorted ss'" "sgn_map ss = sgn_map ss'"
  shows "ss = ss'"
proof (rule map_inj_on)
  note d = signers_sorted_distinct [OF assms(1)] signers_sorted_distinct [OF assms(2)]
  have eq: "set ss = set ss'"
    using sgn_map_mem [OF d(1)] sgn_map_mem [OF d(2)] assms(3) by auto
  show "map sig_pubKey ss = map sig_pubKey ss'"
    using assms(1,2) eq by (intro strict_sorted_equal) (simp_all add: signers_sorted_def)
  show "inj_on sig_pubKey (set ss \<union> set ss')"
    using d(1) eq by (simp add: distinct_map)
qed

definition rows_signers :: "AccountID \<Rightarrow> SignerTable \<Rightarrow> Signer list" where
  "rows_signers a t = sort_key sig_pubKey
     (map (\<lambda>r. \<lparr>sig_pubKey = snd (fst r), sig_weight = snd r\<rparr>) (filter (\<lambda>r. fst (fst r) = a) t))"

lemma sgn_map_rows: "sgn_map (map (\<lambda>r. \<lparr>sig_pubKey = snd (fst r), sig_weight = snd r\<rparr>) (filter (\<lambda>r. fst (fst r) = a) t)) p =
    map_of t (a, p)"
  by (induction t) (auto simp: sgn_map_def)

lemma distinct_map_sort: "distinct (map f (sort_key g xs)) = distinct (map f xs)"
  by (simp add: distinct_map)

lemma rows_signers_sorted:
  assumes "distinct (map fst t)"
  shows "signers_sorted (rows_signers a t)" "sgn_map (rows_signers a t) p = map_of t (a, p)"
proof -
  let ?l = "map (\<lambda>r. \<lparr>sig_pubKey = snd (fst r), sig_weight = snd r\<rparr>) (filter (\<lambda>r. fst (fst r) = a) t)"
  have "distinct (map sig_pubKey ?l)"
    using assms by (induction t) (auto simp: image_iff prod_eq_iff)
  then have d: "distinct (map sig_pubKey (rows_signers a t))"
    unfolding rows_signers_def by (subst distinct_map_sort)
  then show "signers_sorted (rows_signers a t)"
    by (simp add: signers_sorted_def rows_signers_def strict_sorted_iff)
  show "sgn_map (rows_signers a t) p = map_of t (a, p)"
  proof -
    have "distinct (map fst (map (\<lambda>s. (sig_pubKey s, sig_weight s)) ?l))"
      using \<open>distinct (map sig_pubKey ?l)\<close> by (simp add: comp_def)
    then have "sgn_map (rows_signers a t) = sgn_map ?l"
      using d unfolding sgn_map_def
      by (intro map_of_inject_set [THEN iffD2]) (simp_all add: rows_signers_def comp_def image_image)
    then show ?thesis by (simp add: sgn_map_rows)
  qed
qed

lemma signers_added_ok:
  assumes "distinct (map sig_pubKey final)"
    and "\<forall>f \<in> set final. map_of t (a, sig_pubKey f) = sgn_map start (sig_pubKey f)"
  shows "\<exists>t'. signers_added a start final t = Inr t' \<and>
    (distinct (map fst t) \<longrightarrow> distinct (map fst t')) \<and>
    (\<forall>b p. map_of t' (b, p) = (if b = a \<and> sgn_map final p \<noteq> None then sgn_map final p else map_of t (b, p)))"
  using assms
proof (induction final arbitrary: t)
  case (Cons f final)
  let ?t = "AList.update (a, sig_pubKey f) (sig_weight f) t"
  have "\<exists>t1. (case find (\<lambda>s. sig_pubKey f = sig_pubKey s) start of
              Some s \<Rightarrow>
                if sig_weight f \<noteq> sig_weight s then
                  sql_update (\<lambda>_. True) (a, sig_pubKey f) (\<lambda>_. sig_weight f) no_row t
                else Inr t
            | None \<Rightarrow> sql_insert (\<lambda>_. True) (a, sig_pubKey f) (sig_weight f) t) = Inr t1 \<and>
      map_of t1 = (map_of t)((a, sig_pubKey f) \<mapsto> sig_weight f) \<and>
      (distinct (map fst t) \<longrightarrow> distinct (map fst t1))"
    using Cons.prems(2) sgn_map_find [of start "sig_pubKey f"]
    by (auto simp: sql_update_def sql_insert_def update_conv' fun_upd_idem distinct_update
        split: option.splits)
  then obtain t1 where t1: "(case find (\<lambda>s. sig_pubKey f = sig_pubKey s) start of
              Some s \<Rightarrow>
                if sig_weight f \<noteq> sig_weight s then
                  sql_update (\<lambda>_. True) (a, sig_pubKey f) (\<lambda>_. sig_weight f) no_row t
                else Inr t
            | None \<Rightarrow> sql_insert (\<lambda>_. True) (a, sig_pubKey f) (sig_weight f) t) = Inr t1"
    "map_of t1 = (map_of t)((a, sig_pubKey f) \<mapsto> sig_weight f)"
    "distinct (map fst t) \<longrightarrow> distinct (map fst t1)" by blast
  have "\<forall>g \<in> set final. map_of t1 (a, sig_pubKey g) = sgn_map start (sig_pubKey g)"
    using Cons.prems t1(2) by (auto simp: image_iff)
  from Cons.IH [OF _ this] Cons.prems obtain t' where "signers_added a start final t1 = Inr t'"
    "distinct (map fst t1) \<longrightarrow> distinct (map fst t')"
    "\<forall>b p. map_of t' (b, p) = (if b = a \<and> sgn_map final p \<noteq> None then sgn_map final p else map_of t1 (b, p))"
    by auto
  moreover have "sgn_map final (sig_pubKey f) = None"
    using Cons.prems(1) by (simp add: sgn_map_None)
  ultimately show ?case using t1 by auto
qed simp

lemma signers_removed_ok:
  assumes "distinct (map sig_pubKey start)"
    and "\<forall>s \<in> set start. map_of t (a, sig_pubKey s) = Some (sig_weight s)"
  shows "\<exists>t'. signers_removed a final start t = Inr t' \<and>
    (distinct (map fst t) \<longrightarrow> distinct (map fst t')) \<and>
    (\<forall>b p. map_of t' (b, p) = (if b = a \<and> sgn_map start p \<noteq> None then sgn_map final p else map_of t (b, p)))"
  using assms
proof (induction start arbitrary: t)
  case (Cons s start)
  have fresh: "sgn_map start (sig_pubKey s) = None"
    using Cons.prems(1) by (simp add: sgn_map_None)
  have rest: "\<forall>r \<in> set start. map_of t1 (a, sig_pubKey r) = Some (sig_weight r)"
    if "map_of t1 = (map_of t)((a, sig_pubKey s) := x)" for t1 x
    using Cons.prems that by (auto simp: image_iff)
  show ?case
  proof (cases "find (\<lambda>f. sig_pubKey f = sig_pubKey s) final")
    case None
    then have "sgn_map final (sig_pubKey s) = None" by (simp add: sgn_map_find')
    moreover obtain t' where "signers_removed a final start (sql_delete (a, sig_pubKey s) t) = Inr t'"
      "distinct (map fst (sql_delete (a, sig_pubKey s) t)) \<longrightarrow> distinct (map fst t')"
      "\<forall>b p. map_of t' (b, p) = (if b = a \<and> sgn_map start p \<noteq> None then sgn_map final p
        else map_of (sql_delete (a, sig_pubKey s) t) (b, p))"
      using Cons.IH [OF _ rest [OF map_of_sql_delete]] Cons.prems(1) by auto
    ultimately show ?thesis
      using None Cons.prems fresh distinct_sql_delete [of t] by auto
  next
    case (Some f)
    define t1 where "t1 = (if sig_weight f \<noteq> sig_weight s then AList.update (a, sig_pubKey s) (sig_weight f) t else t)"
    have f: "sig_pubKey f = sig_pubKey s" using Some by (auto simp: find_Some_iff)
    have m: "map_of t1 = (map_of t)((a, sig_pubKey s) := Some (sig_weight f))"
      using Cons.prems(2) by (auto simp: t1_def update_conv' fun_upd_idem)
    have "sgn_map final (sig_pubKey s) = Some (sig_weight f)" using Some by (simp add: sgn_map_find')
    moreover obtain t' where "signers_removed a final start t1 = Inr t'"
      "distinct (map fst t1) \<longrightarrow> distinct (map fst t')"
      "\<forall>b p. map_of t' (b, p) = (if b = a \<and> sgn_map start p \<noteq> None then sgn_map final p
        else map_of t1 (b, p))"
      using Cons.IH [OF _ rest [OF m]] Cons.prems(1) by auto
    moreover have "(if sig_weight f \<noteq> sig_weight s then
         sql_update (\<lambda>_. True) (a, sig_pubKey f) (\<lambda>_. sig_weight f) (Inr t) t else Inr t) = Inr t1"
      using Cons.prems(2) f by (simp add: sql_update_def t1_def)
    moreover have "distinct (map fst t) \<longrightarrow> distinct (map fst t1)" by (simp add: distinct_update t1_def)
    ultimately show ?thesis using Some fresh m by auto
  qed
qed simp


subsection \<open>The accounts the tables hold\<close>

definition row_account :: "AccountID \<Rightarrow> AccountRow \<Rightarrow> Signer list \<Rightarrow> AccountEntry" where
  "row_account a r ss = \<lparr>ae_accountID = a, ae_balance = ac_balance r, ae_seqNum = ac_seqNum r,
     ae_numSubEntries = ac_numSubEntries r, ae_inflationDest = ac_inflationDest r,
     ae_flags = ac_flags r, ae_thresholds = ac_thresholds r, ae_signers = ss\<rparr>"

definition db_account :: "Database \<Rightarrow> AccountID \<Rightarrow> AccountEntry option" where
  "db_account db a = map_option (\<lambda>r. row_account a r
     (if ac_numSubEntries r \<noteq> 0 then rows_signers a (db_Signers db) else [])) (map_of (db_Accounts db) a)"

definition accounts_wf :: "Database \<Rightarrow> bool" where
  "accounts_wf db \<longleftrightarrow> distinct (map fst (db_Signers db)) \<and>
     (\<forall>a p. map_of (db_Signers db) (a, p) \<noteq> None \<longrightarrow>
        (\<exists>r. map_of (db_Accounts db) a = Some r \<and> ac_numSubEntries r \<noteq> 0))"

definition account_fits :: "AccountEntry \<Rightarrow> bool" where
  "account_fits e \<longleftrightarrow> ae_balance e \<ge> 0 \<and> sint (ae_numSubEntries e) \<ge> 0 \<and> signers_sorted (ae_signers e) \<and>
     (ae_numSubEntries e = 0 \<longrightarrow> ae_signers e = [])"

lemma loadAccount_fresh:
  "ae_inflationDest (mAccountEntry ret) = None \<Longrightarrow>
   loadAccount a ret db =
     (case db_account db a of
        None \<Rightarrow> (False, upd_account (\<lambda>e. e\<lparr>ae_accountID := a\<rparr>) ret)
      | Some e \<Rightarrow> (True, \<lparr>mAccountEntry = e, mUpdateSigners = False\<rparr>))"
  by (simp add: loadAccount_def db_account_def normalize_def Let_def row_account_def
      rows_signers_def select_signers_def split: option.splits)

lemma loadAccount_new:
  "loadAccount a new_AccountFrame db =
     (case db_account db a of
        None \<Rightarrow> (False, AccountFrame_of_id a)
      | Some e \<Rightarrow> (True, \<lparr>mAccountEntry = e, mUpdateSigners = False\<rparr>))"
  by (subst loadAccount_fresh)
    (simp_all add: new_AccountFrame_def empty_account_def AccountFrame_of_id_def split: option.splits)

lemma db_account_id: "db_account db a = Some e \<Longrightarrow> ae_accountID e = a"
  by (auto simp: db_account_def row_account_def)

lemma rows_signers_eqI:
  assumes "distinct (map fst t)" "signers_sorted ss" "\<And>p. map_of t (a, p) = sgn_map ss p"
  shows "rows_signers a t = ss"
  using rows_signers_sorted [OF assms(1)] assms(2,3) by (intro signers_eqI) auto

lemma rows_signers_cong:
  assumes "distinct (map fst t)" "distinct (map fst t')" "\<And>p. map_of t' (b, p) = map_of t (b, p)"
  shows "rows_signers b t' = rows_signers b t"
  using rows_signers_sorted [OF assms(1), of b] assms(2,3) by (intro rows_signers_eqI) auto

text \<open>Reading back the account whose row and signers were just written.\<close>

lemma db_account_written:
  assumes "map_of accs = (map_of (db_Accounts db))(ae_accountID e \<mapsto> account_row e)"
    and "distinct (map fst (db_Signers db))" "distinct (map fst sgns)"
    and "\<And>b p. map_of sgns (b, p) =
      (if b = ae_accountID e then sgn_map (ae_signers e) p else map_of (db_Signers db) (b, p))"
    and "account_fits e"
  shows "db_account (db\<lparr>db_Accounts := accs, db_Signers := sgns\<rparr>) = (db_account db)(ae_accountID e \<mapsto> e)"
proof
  fix b
  have "rows_signers (ae_accountID e) sgns = ae_signers e"
    using assms(3-5) by (intro rows_signers_eqI) (simp_all add: account_fits_def)
  moreover have "rows_signers b sgns = rows_signers b (db_Signers db)" if "b \<noteq> ae_accountID e"
    using that assms(2-4) by (intro rows_signers_cong) auto
  ultimately show "db_account (db\<lparr>db_Accounts := accs, db_Signers := sgns\<rparr>) b =
      ((db_account db)(ae_accountID e \<mapsto> e)) b"
    using assms(1,5)
    by (cases "map_of (db_Accounts db) b")
      (auto simp: db_account_def row_account_def account_row_def account_fits_def)
qed

lemma accounts_wf_written:
  assumes "accounts_wf db"
    and "map_of accs = (map_of (db_Accounts db))(ae_accountID e \<mapsto> account_row e)"
    and "distinct (map fst sgns)"
    and "\<And>b p. map_of sgns (b, p) =
      (if b = ae_accountID e then sgn_map (ae_signers e) p else map_of (db_Signers db) (b, p))"
    and "account_fits e"
  shows "accounts_wf (db\<lparr>db_Accounts := accs, db_Signers := sgns\<rparr>)"
  using assms by (auto simp: accounts_wf_def account_fits_def account_row_def)

text \<open>The signers the update starts from.\<close>

lemma old_signers:
  assumes "accounts_wf db"
  shows "map_of (db_Signers db) (a, p) =
    (case db_account db a of None \<Rightarrow> None | Some e \<Rightarrow> sgn_map (ae_signers e) p)"
proof (cases "map_of (db_Accounts db) a")
  case None
  then have "map_of (db_Signers db) (a, p) = None"
    using assms unfolding accounts_wf_def by (metis option.distinct(1))
  with None show ?thesis by (simp add: db_account_def)
next
  case (Some r)
  have "map_of (db_Signers db) (a, p) = None" if "ac_numSubEntries r = 0"
    using assms Some that unfolding accounts_wf_def by (metis option.inject)
  moreover have "sgn_map (rows_signers a (db_Signers db)) p = map_of (db_Signers db) (a, p)"
    using assms by (intro rows_signers_sorted) (simp add: accounts_wf_def)
  ultimately show ?thesis using Some by (simp add: db_account_def row_account_def)
qed

lemma db_account_sorted:
  "accounts_wf db \<Longrightarrow> db_account db a = Some e \<Longrightarrow> signers_sorted (ae_signers e)"
  by (auto simp: accounts_wf_def db_account_def row_account_def rows_signers_sorted(1))

lemma length_signers_le:
  assumes "signers_sorted ss" "signers_sorted ss'" "sig_pubKey ` set ss \<subseteq> sig_pubKey ` set ss'"
  shows "length ss \<le> length ss'" "length ss' \<le> length ss \<Longrightarrow> sig_pubKey ` set ss = sig_pubKey ` set ss'"
proof -
  have card: "card (sig_pubKey ` set l) = length l" if "signers_sorted l" for l
    using distinct_card [OF signers_sorted_distinct [OF that]] by simp
  show "length ss \<le> length ss'" using card_mono [OF _ assms(3)] card assms(1,2) by simp
  show "sig_pubKey ` set ss = sig_pubKey ` set ss'" if "length ss' \<le> length ss"
    using card_seteq [OF _ assms(3)] card assms(1,2) that by simp
qed


text \<open>
  The frames \<open>storeUpdate\<close> brings into the database faithfully: with the signers flag the new
  signers contain the old ones or are among them, without it they are the old ones, and the count
  of sub-entries covers the signers before and after.
\<close>

definition account_updatable :: "AccountFrame \<Rightarrow> Signer list \<Rightarrow> bool" where
  "account_updatable f old \<longleftrightarrow>
     (let e = mAccountEntry f; new = ae_signers e
      in account_fits e \<and> (ae_numSubEntries e = 0 \<longrightarrow> old = []) \<and>
         (if mUpdateSigners f then sig_pubKey ` set new \<subseteq> sig_pubKey ` set old \<or>
              sig_pubKey ` set old \<subseteq> sig_pubKey ` set new
          else new = old))"

lemma store_signers_ok:
  assumes row: "map_of (db_Accounts db) (ae_accountID e) = Some (account_row e)"
    and dist: "distinct (map fst (db_Signers db))"
    and sgn: "\<And>p. map_of (db_Signers db) (ae_accountID e, p) = sgn_map old p"
    and old: "signers_sorted old" and e: "e = mAccountEntry f"
    and upd: "account_updatable f old" "mUpdateSigners f"
  shows "\<exists>t. store_signers f db = Inr (db\<lparr>db_Signers := t\<rparr>) \<and> distinct (map fst t) \<and>
    (\<forall>b p. map_of t (b, p) = (if b = ae_accountID e then sgn_map (ae_signers e) p
       else map_of (db_Signers db) (b, p)))"
proof -
  let ?a = "ae_accountID e" and ?new = "ae_signers e"
  have new: "signers_sorted ?new" using upd e by (simp add: account_updatable_def account_fits_def Let_def)
  have start: "(if ae_numSubEntries e \<noteq> 0 then rows_signers ?a (db_Signers db) else []) = old"
    using rows_signers_eqI [OF dist old sgn] upd(1) e by (auto simp: account_updatable_def Let_def)
  have load: "loadAccount ?a new_AccountFrame db =
      (True, \<lparr>mAccountEntry = row_account ?a (account_row e) old, mUpdateSigners = False\<rparr>)"
    using row start by (simp add: loadAccount_new db_account_def account_row_def)
  note dn = signers_sorted_distinct [OF new] and dold = signers_sorted_distinct [OF old]
  show ?thesis
  proof (cases "length ?new < length old")
    case True
    then have sub: "sig_pubKey ` set ?new \<subseteq> sig_pubKey ` set old"
      using upd e length_signers_le(1) [OF old new] by (auto simp: account_updatable_def Let_def)
    have none: "sgn_map old p \<noteq> None \<or> sgn_map ?new p = None" for p
      using sub by (auto simp: sgn_map_None simp del: not_None_eq)
    have "\<forall>s \<in> set old. map_of (db_Signers db) (?a, sig_pubKey s) = Some (sig_weight s)"
      using sgn sgn_map_Some [OF dold] by simp
    from signers_removed_ok [OF dold this, of ?new] obtain t where
      "signers_removed ?a ?new old (db_Signers db) = Inr t"
      "distinct (map fst (db_Signers db)) \<longrightarrow> distinct (map fst t)"
      "\<forall>b p. map_of t (b, p) = (if b = ?a \<and> sgn_map old p \<noteq> None then sgn_map ?new p
         else map_of (db_Signers db) (b, p))" by blast
    moreover from this(3) have "map_of t (b, p) = (if b = ?a then sgn_map ?new p
        else map_of (db_Signers db) (b, p))" for b p
      using none [of p] sgn [of p] by auto
    ultimately show ?thesis
      using True load e dist
      by (intro exI [of _ t]) (simp add: store_signers_def Let_def row_account_def)
  next
    case False
    then have sub: "sig_pubKey ` set old \<subseteq> sig_pubKey ` set ?new"
      using upd e length_signers_le(2) [OF new old] by (auto simp: account_updatable_def Let_def)
    have none: "sgn_map ?new p \<noteq> None \<or> sgn_map old p = None" for p
      using sub by (auto simp: sgn_map_None simp del: not_None_eq)
    have "\<forall>f \<in> set ?new. map_of (db_Signers db) (?a, sig_pubKey f) = sgn_map old (sig_pubKey f)"
      using sgn by simp
    from signers_added_ok [OF dn this] obtain t where
      "signers_added ?a old ?new (db_Signers db) = Inr t"
      "distinct (map fst (db_Signers db)) \<longrightarrow> distinct (map fst t)"
      "\<forall>b p. map_of t (b, p) = (if b = ?a \<and> sgn_map ?new p \<noteq> None then sgn_map ?new p
         else map_of (db_Signers db) (b, p))" by blast
    moreover from this(3) have "map_of t (b, p) = (if b = ?a then sgn_map ?new p
        else map_of (db_Signers db) (b, p))" for b p
      using none [of p] sgn [of p] by auto
    ultimately show ?thesis
      using False load e dist
      by (intro exI [of _ t]) (simp add: store_signers_def Let_def row_account_def)
  qed
qed


lemma storeUpdate_ok:
  assumes wf: "accounts_wf db" and e: "e = mAccountEntry f"
    and old: "ins \<longleftrightarrow> db_account db (ae_accountID e) = None"
    and upd: "account_updatable f
      (case db_account db (ae_accountID e) of None \<Rightarrow> [] | Some o' \<Rightarrow> ae_signers o')"
    and delta: "(if ins then addEntry (ACCOUNT e) delta else modEntry (ACCOUNT e) delta) = Inr delta'"
  shows "\<exists>accs sgns. account_storeUpdate ins f db delta =
      Inr (db\<lparr>db_Accounts := accs, db_Signers := sgns\<rparr>, delta') \<and>
    accounts_wf (db\<lparr>db_Accounts := accs, db_Signers := sgns\<rparr>) \<and>
    db_account (db\<lparr>db_Accounts := accs, db_Signers := sgns\<rparr>) =
      (db_account db)(ae_accountID e \<mapsto> e)"
proof -
  let ?a = "ae_accountID e"
  let ?old = "case db_account db ?a of None \<Rightarrow> [] | Some o' \<Rightarrow> ae_signers o'"
  have fits: "account_fits e" and dist: "distinct (map fst (db_Signers db))"
    using upd wf e by (simp_all add: account_updatable_def accounts_wf_def Let_def)
  obtain accs where accs: "(if ins then sql_insert account_check ?a (account_row e) (db_Accounts db)
      else sql_update account_check ?a (\<lambda>_. account_row e) no_row (db_Accounts db)) = Inr accs"
    and m: "map_of accs = (map_of (db_Accounts db))(?a \<mapsto> account_row e)"
    using old fits sql_insert_ok [of account_check "account_row e" "db_Accounts db" ?a]
      sql_update_ok [of "db_Accounts db" ?a _ account_check "\<lambda>_. account_row e" no_row]
    by (auto simp: db_account_def account_fits_def account_check_def account_row_def)
  have sgn: "map_of (db_Signers db) (?a, p) = sgn_map ?old p" for p
    using old_signers [OF wf, of ?a p] by (simp split: option.splits)
  have sorted: "signers_sorted ?old" using db_account_sorted [OF wf] by (auto split: option.splits)
  have "\<exists>sgns. (if mUpdateSigners f then store_signers f (db\<lparr>db_Accounts := accs\<rparr>)
        else Inr (db\<lparr>db_Accounts := accs\<rparr>)) = Inr (db\<lparr>db_Accounts := accs, db_Signers := sgns\<rparr>) \<and>
      distinct (map fst sgns) \<and>
      (\<forall>b p. map_of sgns (b, p) = (if b = ?a then sgn_map (ae_signers e) p
         else map_of (db_Signers db) (b, p)))"
  proof (cases "mUpdateSigners f")
    case True
    then show ?thesis
      using store_signers_ok [of "db\<lparr>db_Accounts := accs\<rparr>" e ?old f] m dist sgn sorted e upd
      by (simp cong: if_cong)
  next
    case False
    then have "ae_signers e = ?old" using upd e by (simp add: account_updatable_def Let_def)
    then show ?thesis
      using False sgn dist by (intro exI [of _ "db_Signers db"]) simp
  qed
  then obtain sgns where st: "(if mUpdateSigners f then store_signers f (db\<lparr>db_Accounts := accs\<rparr>)
        else Inr (db\<lparr>db_Accounts := accs\<rparr>)) = Inr (db\<lparr>db_Accounts := accs, db_Signers := sgns\<rparr>)"
      "distinct (map fst sgns)"
      "\<And>b p. map_of sgns (b, p) = (if b = ?a then sgn_map (ae_signers e) p
         else map_of (db_Signers db) (b, p))" by blast
  have "account_storeUpdate ins f db delta =
      Inr (db\<lparr>db_Accounts := accs, db_Signers := sgns\<rparr>, delta')"
    unfolding account_storeUpdate_def Let_def e [symmetric] accs delta st(1) rbind_simps
    by (simp only: st(1) rbind_simps)
  with db_account_written [OF m dist st(2,3) fits] accounts_wf_written [OF wf m st(2,3) fits]
  show ?thesis by blast
qed

lemma map_of_filter_account:
  "map_of (filter (\<lambda>r. fst (fst r) \<noteq> a) t) (b, p) = (if b = a then None else map_of t (b, p))"
  by (induction t) auto

lemma account_delete_view:
  assumes "accounts_wf db"
  shows "accounts_wf (db\<lparr>db_Accounts := sql_delete a (db_Accounts db),
      db_Signers := filter (\<lambda>r. fst (fst r) \<noteq> a) (db_Signers db)\<rparr>)" (is "accounts_wf ?db")
    and "db_account (db\<lparr>db_Accounts := sql_delete a (db_Accounts db),
      db_Signers := filter (\<lambda>r. fst (fst r) \<noteq> a) (db_Signers db)\<rparr>) = (db_account db)(a := None)"
proof -
  have d: "distinct (map fst (db_Signers db))" using assms by (simp add: accounts_wf_def)
  then have d': "distinct (map fst (filter (\<lambda>r. fst (fst r) \<noteq> a) (db_Signers db)))"
    by (simp add: distinct_map_filter)
  show "accounts_wf ?db"
    using assms d' unfolding accounts_wf_def by (auto simp: map_of_filter_account)
  show "db_account ?db = (db_account db)(a := None)"
  proof
    fix b
    have "b \<noteq> a \<Longrightarrow> rows_signers b (filter (\<lambda>r. fst (fst r) \<noteq> a) (db_Signers db)) =
        rows_signers b (db_Signers db)"
      using d d' by (intro rows_signers_cong) (simp_all add: map_of_filter_account)
    then show "db_account ?db b = ((db_account db)(a := None)) b"
      by (cases "map_of (db_Accounts db) b") (auto simp: db_account_def)
  qed
qed

end
