(* ===== verification/Trust_Frame.thy ===== *)
theory Trust_Frame
  imports Account_Frame
begin

text \<open>
  \<open>src/ledger/TrustFrame.cpp\<close>: trust lines over the table \<open>TrustLines\<close>. The issuer of a currency
  has no row: \<open>loadTrustLine\<close> makes up a line for it that can send and receive everything.
\<close>

subsection \<open>Definitions\<close>

record TrustFrame =
  mTrustLine :: TrustLineEntry
  mIsIssuer :: bool

definition empty_trust :: TrustLineEntry where
  "empty_trust = \<lparr>tl_accountID = 0, tl_currency = NATIVE, tl_balance = 0, tl_limit = 0,
     tl_authorized = False\<rparr>"

definition new_TrustFrame :: TrustFrame where
  "new_TrustFrame = \<lparr>mTrustLine = empty_trust, mIsIssuer = False\<rparr>"

definition TrustFrame_of_entry :: "TrustLineEntry \<Rightarrow> TrustFrame" where
  "TrustFrame_of_entry t = \<lparr>mTrustLine = t, mIsIssuer = False\<rparr>"

abbreviation upd_line :: "(TrustLineEntry \<Rightarrow> TrustLineEntry) \<Rightarrow> TrustFrame \<Rightarrow> TrustFrame" where
  "upd_line f t \<equiv> t\<lparr>mTrustLine := f (mTrustLine t)\<rparr>"

text \<open>\<open>isoCI()\<close> of a currency: the generated union throws where the currency is native.\<close>

definition isoCI :: "Currency \<Rightarrow> (CurrencyCode \<times> AccountID) res" where
  "isoCI c = (case c of NATIVE \<Rightarrow> Inl (RuntimeError ''xdr_wrong_union'')
    | ISO4217 code iss \<Rightarrow> Inr (code, iss))"

definition getKeyFields ::
    "AccountID \<Rightarrow> Currency \<Rightarrow> (AccountID \<times> AccountID \<times> byte list) res" where
  "getKeyFields a c =
     rbind (isoCI c) (\<lambda>(code, iss).
     if a = iss then
       Inl (RuntimeError ''Issuer's own trustline should not be used outside of OperationFrame'')
     else Inr (a, iss, currencyCodeToStr code))"

definition trust_isValid :: "TrustFrame \<Rightarrow> bool" where
  "trust_isValid t \<longleftrightarrow> tl_currency (mTrustLine t) \<noteq> NATIVE \<and> tl_balance (mTrustLine t) \<ge> 0 \<and>
     tl_balance (mTrustLine t) \<le> tl_limit (mTrustLine t)"

definition trust_getBalance :: "TrustFrame \<Rightarrow> int64 res" where
  "trust_getBalance t = rbind (rassert (trust_isValid t)) (\<lambda>_. Inr (tl_balance (mTrustLine t)))"

definition addBalance :: "int64 \<Rightarrow> TrustFrame \<Rightarrow> bool \<times> TrustFrame" where
  "addBalance delta t =
     (let l = mTrustLine t
      in if mIsIssuer t then (True, t)
         else if delta = 0 then (True, t)
         else if \<not> tl_authorized l then (False, t)
         else if tl_limit l < wrap64 (delta + tl_balance l) then (False, t)
         else if wrap64 (delta + tl_balance l) < 0 then (False, t)
         else (True, upd_line (\<lambda>l. l\<lparr>tl_balance := wrap64 (tl_balance l + delta)\<rparr>) t))"

definition getMaxAmountReceive :: "TrustFrame \<Rightarrow> int64" where
  "getMaxAmountReceive t =
     (if mIsIssuer t then INT64_MAX
      else if tl_authorized (mTrustLine t)
      then wrap64 (tl_limit (mTrustLine t) - tl_balance (mTrustLine t)) else 0)"

definition trust_exists :: "Database \<Rightarrow> AccountID \<Rightarrow> Currency \<Rightarrow> bool res" where
  "trust_exists db a c =
     rbind (getKeyFields a c) (\<lambda>k. Inr (map_of (db_TrustLines db) k \<noteq> None))"

definition trust_storeDelete ::
    "AccountID \<Rightarrow> Currency \<Rightarrow> Database \<Rightarrow> LedgerDelta \<Rightarrow> (Database \<times> LedgerDelta) res" where
  "trust_storeDelete a c db delta =
     rbind (getKeyFields a c) (\<lambda>k.
     rbind (deleteEntry (TrustLineKey a c) delta) (\<lambda>delta'.
     Inr (db\<lparr>db_TrustLines := sql_delete k (db_TrustLines db)\<rparr>, delta')))"

definition trust_check :: "TrustRow \<Rightarrow> bool" where
  "trust_check r \<longleftrightarrow> tr_tlimit r \<ge> 0 \<and> tr_balance r \<ge> 0"

definition trust_storeChange ::
    "TrustFrame \<Rightarrow> Database \<Rightarrow> LedgerDelta \<Rightarrow> (Database \<times> LedgerDelta) res" where
  "trust_storeChange t db delta =
     rbind (rassert (trust_isValid t)) (\<lambda>_.
     if mIsIssuer t then Inr (db, delta)
     else
       let l = mTrustLine t
       in rbind (getKeyFields (tl_accountID l) (tl_currency l)) (\<lambda>k.
          rbind (sql_update trust_check k (\<lambda>_. \<lparr>tr_tlimit = tl_limit l, tr_balance = tl_balance l,
                   tr_authorized = tl_authorized l\<rparr>) no_row (db_TrustLines db)) (\<lambda>t'.
          rbind (modEntry (TRUSTLINE l) delta) (\<lambda>delta'.
          Inr (db\<lparr>db_TrustLines := t'\<rparr>, delta')))))"

text \<open>The insertion names no balance: the row gets the default of the column.\<close>

definition trust_storeAdd ::
    "TrustFrame \<Rightarrow> Database \<Rightarrow> LedgerDelta \<Rightarrow> (Database \<times> LedgerDelta) res" where
  "trust_storeAdd t db delta =
     rbind (rassert (trust_isValid t)) (\<lambda>_.
     if mIsIssuer t then Inr (db, delta)
     else
       let l = mTrustLine t
       in rbind (getKeyFields (tl_accountID l) (tl_currency l)) (\<lambda>k.
          rbind (sql_insert trust_check k \<lparr>tr_tlimit = tl_limit l, tr_balance = 0,
                   tr_authorized = tl_authorized l\<rparr> (db_TrustLines db)) (\<lambda>t'.
          rbind (addEntry (TRUSTLINE l) delta) (\<lambda>delta'.
          Inr (db\<lparr>db_TrustLines := t'\<rparr>, delta')))))"

definition setAsIssuer :: "Currency \<Rightarrow> TrustFrame \<Rightarrow> TrustFrame res" where
  "setAsIssuer c t =
     rbind (isoCI c) (\<lambda>(code, iss).
     Inr \<lparr>mTrustLine = (mTrustLine t)\<lparr>tl_accountID := iss, tl_authorized := True,
            tl_balance := INT64_MAX, tl_currency := c, tl_limit := INT64_MAX\<rparr>,
          mIsIssuer = True\<rparr>)"

text \<open>
  The loop over the rows of a selection. One frame is reused for all rows: the code of a currency
  is written over the bytes of the previous row's. The frames passed on are the loop's results.
\<close>

definition line_code :: "TrustFrame \<Rightarrow> CurrencyCode" where
  "line_code t = (case tl_currency (mTrustLine t) of NATIVE \<Rightarrow> (0, 0, 0, 0) | ISO4217 c _ \<Rightarrow> c)"

fun loadLines_loop ::
    "((AccountID \<times> AccountID \<times> byte list) \<times> TrustRow) list \<Rightarrow> TrustFrame \<Rightarrow> TrustFrame list res" where
  "loadLines_loop [] cur = Inr []"
| "loadLines_loop (((a, iss, code), r) # rows) cur =
     (let cur' = upd_line (\<lambda>l. l\<lparr>tl_accountID := a,
            tl_currency := ISO4217 (strToCurrencyCode (line_code cur) code) iss,
            tl_limit := tr_tlimit r, tl_balance := tr_balance r, tl_authorized := tr_authorized r\<rparr>) cur
      in rbind (rassert (trust_isValid cur')) (\<lambda>_.
         rbind (loadLines_loop rows cur') (\<lambda>ts. Inr (cur' # ts))))"

definition loadLines :: "AccountID \<Rightarrow> Database \<Rightarrow> TrustFrame list res" where
  "loadLines a db = loadLines_loop (filter (\<lambda>r. fst (fst r) = a) (db_TrustLines db)) new_TrustFrame"

definition loadTrustLine ::
    "AccountID \<Rightarrow> Currency \<Rightarrow> TrustFrame \<Rightarrow> Database \<Rightarrow> (bool \<times> TrustFrame) res" where
  "loadTrustLine a c retLine db =
     rbind (isoCI c) (\<lambda>(code, iss).
     if a = iss then rbind (setAsIssuer c retLine) (\<lambda>t. Inr (True, t))
     else
       rbind (loadLines_loop
                (case map_of (db_TrustLines db) (a, iss, currencyCodeToStr code) of
                   None \<Rightarrow> [] | Some r \<Rightarrow> [((a, iss, currencyCodeToStr code), r)])
                new_TrustFrame) (\<lambda>ts.
       Inr (case ts of [] \<Rightarrow> (False, retLine) | t # _ \<Rightarrow> (True, t))))"


subsection \<open>The trust lines the table holds\<close>

definition row_trust :: "AccountID \<Rightarrow> Currency \<Rightarrow> TrustRow \<Rightarrow> TrustLineEntry" where
  "row_trust a c r = \<lparr>tl_accountID = a, tl_currency = c, tl_balance = tr_balance r,
     tl_limit = tr_tlimit r, tl_authorized = tr_authorized r\<rparr>"

fun proper_line :: "AccountID \<Rightarrow> Currency \<Rightarrow> bool" where
  "proper_line a NATIVE = False"
| "proper_line a (ISO4217 code iss) \<longleftrightarrow> a \<noteq> iss \<and> canonical_code code"

fun line_row :: "AccountID \<Rightarrow> Currency \<Rightarrow> AccountID \<times> AccountID \<times> byte list" where
  "line_row a NATIVE = (a, 0, [])"
| "line_row a (ISO4217 code iss) = (a, iss, currencyCodeToStr code)"

definition db_trust :: "Database \<Rightarrow> AccountID \<Rightarrow> Currency \<Rightarrow> TrustLineEntry option" where
  "db_trust db a c =
     (if proper_line a c then map_option (row_trust a c) (map_of (db_TrustLines db) (line_row a c))
      else None)"

definition trusts_wf :: "Database \<Rightarrow> bool" where
  "trusts_wf db \<longleftrightarrow> (\<forall>k r. map_of (db_TrustLines db) k = Some r \<longrightarrow>
     0 \<le> tr_balance r \<and> tr_balance r \<le> tr_tlimit r)"

definition trust_fits :: "TrustFrame \<Rightarrow> bool" where
  "trust_fits t \<longleftrightarrow> trust_isValid t \<and> \<not> mIsIssuer t \<and>
     proper_line (tl_accountID (mTrustLine t)) (tl_currency (mTrustLine t))"

lemma currencyCodeToStr_inj:
  "canonical_code c \<Longrightarrow> canonical_code c' \<Longrightarrow> currencyCodeToStr c = currencyCodeToStr c' \<Longrightarrow> c = c'"
  using strToCurrencyCode_toStr by metis

lemma line_row_inj:
  "proper_line a c \<Longrightarrow> proper_line a' c' \<Longrightarrow> line_row a c = line_row a' c' \<longleftrightarrow> a = a' \<and> c = c'"
  by (cases c; cases c') (auto dest: currencyCodeToStr_inj)

lemma getKeyFields_proper: "proper_line a c \<Longrightarrow> getKeyFields a c = Inr (line_row a c)"
  by (cases c) (simp_all add: getKeyFields_def isoCI_def)

lemma db_trust_key: "db_trust db a c = Some l \<Longrightarrow> tl_accountID l = a \<and> tl_currency l = c \<and> proper_line a c"
  by (auto simp: db_trust_def row_trust_def split: if_splits)

lemma loadTrustLine_proper:
  assumes "proper_line a c" "trusts_wf db"
  shows "loadTrustLine a c ret db =
    Inr (case db_trust db a c of None \<Rightarrow> (False, ret) | Some l \<Rightarrow> (True, \<lparr>mTrustLine = l, mIsIssuer = False\<rparr>))"
proof -
  obtain code iss where c: "c = ISO4217 code iss" and code: "canonical_code code" "a \<noteq> iss"
    using assms(1) by (cases c) auto
  show ?thesis
  proof (cases "map_of (db_TrustLines db) (line_row a c)")
    case None
    with c code show ?thesis by (simp add: loadTrustLine_def isoCI_def db_trust_def)
  next
    case (Some r)
    then have "0 \<le> tr_balance r" "tr_balance r \<le> tr_tlimit r" using assms(2) unfolding trusts_wf_def by blast+
    with Some c code show ?thesis
      by (simp add: loadTrustLine_def isoCI_def db_trust_def Let_def trust_isValid_def
          line_code_def new_TrustFrame_def empty_trust_def row_trust_def strToCurrencyCode_toStr)
  qed
qed

lemma db_trust_update:
  assumes "map_of t = (map_of (db_TrustLines db))(line_row a c := x)" "proper_line a c"
  shows "db_trust (db\<lparr>db_TrustLines := t\<rparr>) b c' =
    (if b = a \<and> c' = c then map_option (row_trust a c) x else db_trust db b c')"
  using assms line_row_inj [OF assms(2), of b c'] by (auto simp: db_trust_def)

lemma trust_storeAdd_ok:
  assumes "trusts_wf db" "trust_fits t" "l = mTrustLine t" "tl_balance l = 0"
    and "db_trust db (tl_accountID l) (tl_currency l) = None" "addEntry (TRUSTLINE l) delta = Inr delta'"
  shows "\<exists>t'. trust_storeAdd t db delta = Inr (db\<lparr>db_TrustLines := t'\<rparr>, delta') \<and>
    trusts_wf (db\<lparr>db_TrustLines := t'\<rparr>) \<and>
    (\<forall>b c. db_trust (db\<lparr>db_TrustLines := t'\<rparr>) b c =
      (if b = tl_accountID l \<and> c = tl_currency l then Some l else db_trust db b c))"
proof -
  let ?r = "\<lparr>tr_tlimit = tl_limit l, tr_balance = 0, tr_authorized = tl_authorized l\<rparr>"
  let ?k = "line_row (tl_accountID l) (tl_currency l)"
  have p: "proper_line (tl_accountID l) (tl_currency l)" and v: "trust_isValid t" "\<not> mIsIssuer t"
    using assms(2,3) by (simp_all add: trust_fits_def)
  have "map_of (db_TrustLines db) ?k = None" using assms(5) p by (simp add: db_trust_def)
  moreover have "trust_check ?r" using v assms(3,4) by (simp add: trust_check_def trust_isValid_def)
  ultimately obtain t' where t': "sql_insert trust_check ?k ?r (db_TrustLines db) = Inr t'"
    "map_of t' = (map_of (db_TrustLines db))(?k \<mapsto> ?r)" using sql_insert_ok by metis
  have "row_trust (tl_accountID l) (tl_currency l) ?r = l" using assms(4) by (simp add: row_trust_def)
  with db_trust_update [OF t'(2) p] have "db_trust (db\<lparr>db_TrustLines := t'\<rparr>) b c =
      (if b = tl_accountID l \<and> c = tl_currency l then Some l else db_trust db b c)" for b c by simp
  moreover have "trusts_wf (db\<lparr>db_TrustLines := t'\<rparr>)"
    using assms(1,3,4) v t'(2) by (auto simp: trusts_wf_def trust_isValid_def)
  moreover have "trust_storeAdd t db delta = Inr (db\<lparr>db_TrustLines := t'\<rparr>, delta')"
    using v t'(1) assms(3,6) getKeyFields_proper [OF p] by (simp add: trust_storeAdd_def Let_def)
  ultimately show ?thesis by blast
qed

lemma trust_storeChange_ok:
  assumes "trusts_wf db" "trust_fits t" "l = mTrustLine t"
    and "db_trust db (tl_accountID l) (tl_currency l) \<noteq> None" "modEntry (TRUSTLINE l) delta = Inr delta'"
  shows "\<exists>t'. trust_storeChange t db delta = Inr (db\<lparr>db_TrustLines := t'\<rparr>, delta') \<and>
    trusts_wf (db\<lparr>db_TrustLines := t'\<rparr>) \<and>
    (\<forall>b c. db_trust (db\<lparr>db_TrustLines := t'\<rparr>) b c =
      (if b = tl_accountID l \<and> c = tl_currency l then Some l else db_trust db b c))"
proof -
  let ?r = "\<lparr>tr_tlimit = tl_limit l, tr_balance = tl_balance l, tr_authorized = tl_authorized l\<rparr>"
  let ?k = "line_row (tl_accountID l) (tl_currency l)"
  have p: "proper_line (tl_accountID l) (tl_currency l)" and v: "trust_isValid t" "\<not> mIsIssuer t"
    using assms(2,3) by (simp_all add: trust_fits_def)
  obtain r where "map_of (db_TrustLines db) ?k = Some r" using assms(4) p by (auto simp: db_trust_def)
  moreover have "trust_check ?r" using v assms(3) by (auto simp: trust_check_def trust_isValid_def)
  ultimately obtain t' where t': "sql_update trust_check ?k (\<lambda>_. ?r) no_row (db_TrustLines db) = Inr t'"
    "map_of t' = (map_of (db_TrustLines db))(?k \<mapsto> ?r)"
    using sql_update_ok [of "db_TrustLines db" ?k r trust_check "\<lambda>_. ?r"] by blast
  have "row_trust (tl_accountID l) (tl_currency l) ?r = l" by (simp add: row_trust_def)
  with db_trust_update [OF t'(2) p] have "db_trust (db\<lparr>db_TrustLines := t'\<rparr>) b c =
      (if b = tl_accountID l \<and> c = tl_currency l then Some l else db_trust db b c)" for b c by simp
  moreover have "trusts_wf (db\<lparr>db_TrustLines := t'\<rparr>)"
    using assms(1,3) v t'(2) by (auto simp: trusts_wf_def trust_isValid_def)
  moreover have "trust_storeChange t db delta = Inr (db\<lparr>db_TrustLines := t'\<rparr>, delta')"
    using v t'(1) assms(3,5) getKeyFields_proper [OF p] by (simp add: trust_storeChange_def Let_def)
  ultimately show ?thesis by blast
qed

lemma trust_storeDelete_ok:
  assumes "trusts_wf db" "db_trust db a c \<noteq> None" "deleteEntry (TrustLineKey a c) delta = Inr delta'"
  shows "\<exists>t'. trust_storeDelete a c db delta = Inr (db\<lparr>db_TrustLines := t'\<rparr>, delta') \<and>
    trusts_wf (db\<lparr>db_TrustLines := t'\<rparr>) \<and>
    (\<forall>b c'. db_trust (db\<lparr>db_TrustLines := t'\<rparr>) b c' = (if b = a \<and> c' = c then None else db_trust db b c'))"
proof -
  have p: "proper_line a c" using assms(2) db_trust_key by fastforce
  let ?t = "sql_delete (line_row a c) (db_TrustLines db)"
  have "trust_storeDelete a c db delta = Inr (db\<lparr>db_TrustLines := ?t\<rparr>, delta')"
    using assms(3) getKeyFields_proper [OF p] by (simp add: trust_storeDelete_def)
  moreover have "trusts_wf (db\<lparr>db_TrustLines := ?t\<rparr>)" using assms(1) by (simp add: trusts_wf_def)
  ultimately show ?thesis using db_trust_update [OF map_of_sql_delete p] by auto
qed

end
