(* ===== verification/Offer_Frame.thy ===== *)
theory Offer_Frame
  imports Trust_Frame
begin

text \<open>
  \<open>src/ledger/OfferFrame.cpp\<close>: offers over the table \<open>Offers\<close>, all of whose columns are declared
  \<open>NOT NULL\<close>.
\<close>

subsection \<open>Definitions\<close>

definition OFFER_PRICE_DIVISOR :: int64 where
  "OFFER_PRICE_DIVISOR = 10000000"

type_synonym OfferFrame = OfferEntry

definition new_OfferFrame :: OfferFrame where
  "new_OfferFrame = \<lparr>oe_accountID = 0, oe_offerID = 0, oe_takerGets = NATIVE, oe_takerPays = NATIVE,
     oe_amount = 0, oe_price = \<lparr>price_n = 0, price_d = 0\<rparr>\<rparr>"

text \<open>The loop over the rows of a selection, with one frame reused for all rows.\<close>

definition currency_code :: "Currency \<Rightarrow> CurrencyCode" where
  "currency_code c = (case c of NATIVE \<Rightarrow> (0, 0, 0, 0) | ISO4217 code _ \<Rightarrow> code)"

fun loadOffers_loop :: "(uint64 \<times> OfferRow) list \<Rightarrow> OfferFrame \<Rightarrow> OfferFrame list" where
  "loadOffers_loop [] oe = []"
| "loadOffers_loop ((i, r) # rows) oe =
     (let oe' = \<lparr>oe_accountID = or_accountID r, oe_offerID = i,
            oe_takerGets = ISO4217 (strToCurrencyCode (currency_code (oe_takerGets oe))
              (or_getsIsoCurrency r)) (or_getsIssuer r),
            oe_takerPays = ISO4217 (strToCurrencyCode (currency_code (oe_takerPays oe))
              (or_paysIsoCurrency r)) (or_paysIssuer r),
            oe_amount = or_amount r,
            oe_price = \<lparr>price_n = or_priceN r, price_d = or_priceD r\<rparr>\<rparr>
      in oe' # loadOffers_loop rows oe')"

definition loadOffer ::
    "AccountID \<Rightarrow> uint64 \<Rightarrow> OfferFrame \<Rightarrow> Database \<Rightarrow> bool \<times> OfferFrame" where
  "loadOffer accountID offerID retOffer db =
     (case loadOffers_loop
            (case map_of (db_Offers db) offerID of
               None \<Rightarrow> [] | Some r \<Rightarrow> if or_accountID r = accountID then [(offerID, r)] else [])
            new_OfferFrame of
        [] \<Rightarrow> (False, retOffer) | oe # _ \<Rightarrow> (True, oe))"

text \<open>
  A column that is \<open>NOT NULL\<close> is never null: the selection for the native currency is empty.
\<close>

definition row_pays :: "Currency \<Rightarrow> OfferRow \<Rightarrow> bool" where
  "row_pays c r = (case c of NATIVE \<Rightarrow> False
     | ISO4217 code iss \<Rightarrow> or_paysIsoCurrency r = currencyCodeToStr code \<and> or_paysIssuer r = iss)"

definition row_gets :: "Currency \<Rightarrow> OfferRow \<Rightarrow> bool" where
  "row_gets c r = (case c of NATIVE \<Rightarrow> False
     | ISO4217 code iss \<Rightarrow> or_getsIsoCurrency r = currencyCodeToStr code \<and> or_getsIssuer r = iss)"

definition best_rows :: "Currency \<Rightarrow> Currency \<Rightarrow> Database \<Rightarrow> (uint64 \<times> OfferRow) list" where
  "best_rows pays gets db =
     sort_key (\<lambda>r. (or_price (snd r), fst r, or_accountID (snd r)))
       (filter (\<lambda>r. row_pays pays (snd r) \<and> row_gets gets (snd r)) (db_Offers db))"

definition loadBestOffers ::
    "nat \<Rightarrow> nat \<Rightarrow> Currency \<Rightarrow> Currency \<Rightarrow> Database \<Rightarrow> OfferFrame list" where
  "loadBestOffers numOffers offset pays gets db =
     loadOffers_loop (take numOffers (drop offset (best_rows pays gets db))) new_OfferFrame"

definition loadOffers :: "AccountID \<Rightarrow> Database \<Rightarrow> OfferFrame list" where
  "loadOffers a db =
     loadOffers_loop (filter (\<lambda>r. or_accountID (snd r) = a) (db_Offers db)) new_OfferFrame"

definition offer_exists :: "Database \<Rightarrow> AccountID \<Rightarrow> uint64 \<Rightarrow> bool" where
  "offer_exists db a i \<longleftrightarrow>
     (case map_of (db_Offers db) i of None \<Rightarrow> False | Some r \<Rightarrow> or_accountID r = a)"

definition offer_storeDelete ::
    "AccountID \<Rightarrow> uint64 \<Rightarrow> Database \<Rightarrow> LedgerDelta \<Rightarrow> (Database \<times> LedgerDelta) res" where
  "offer_storeDelete a i db delta =
     rbind (deleteEntry (OfferKey a i) delta) (\<lambda>delta'.
     Inr (db\<lparr>db_Offers := sql_delete i (db_Offers db)\<rparr>, delta'))"

definition computePrice :: "OfferFrame \<Rightarrow> int64 res" where
  "computePrice oe = bigDivide (price_n (oe_price oe)) OFFER_PRICE_DIVISOR (price_d (oe_price oe))"

definition offer_check :: "OfferRow \<Rightarrow> bool" where
  "offer_check r \<longleftrightarrow> or_amount r \<ge> 0"

definition offer_storeChange ::
    "OfferFrame \<Rightarrow> Database \<Rightarrow> LedgerDelta \<Rightarrow> (Database \<times> LedgerDelta) res" where
  "offer_storeChange oe db delta =
     rbind (computePrice oe) (\<lambda>p.
     rbind (sql_update offer_check (oe_offerID oe) (\<lambda>r. r\<lparr>or_amount := oe_amount oe,
              or_priceN := price_n (oe_price oe), or_priceD := price_d (oe_price oe), or_price := p\<rparr>)
            (Inl (RuntimeError ''could not update SQL'')) (db_Offers db)) (\<lambda>t.
     rbind (modEntry (OFFER oe) delta) (\<lambda>delta'. Inr (db\<lparr>db_Offers := t\<rparr>, delta'))))"

text \<open>
  The two insertions for an offer with a native side leave out columns that may not be null. The
  identifier is bound as a signed integer, which the table requires not to be negative.
\<close>

definition offer_storeAdd ::
    "OfferFrame \<Rightarrow> Database \<Rightarrow> LedgerDelta \<Rightarrow> (Database \<times> LedgerDelta) res" where
  "offer_storeAdd oe db delta =
     (if oe_takerGets oe = NATIVE then
        rbind (isoCI (oe_takerPays oe)) (\<lambda>_.
        rbind (computePrice oe) (\<lambda>_.
        Inl (SqlError ''NOT NULL constraint failed: Offers.getsIsoCurrency'')))
      else if oe_takerPays oe = NATIVE then
        rbind (isoCI (oe_takerGets oe)) (\<lambda>_.
        rbind (computePrice oe) (\<lambda>_.
        Inl (SqlError ''NOT NULL constraint failed: Offers.paysIsoCurrency'')))
      else
        rbind (isoCI (oe_takerPays oe)) (\<lambda>(pcode, piss).
        rbind (isoCI (oe_takerGets oe)) (\<lambda>(gcode, giss).
        rbind (computePrice oe) (\<lambda>p.
        rbind (sql_insert (\<lambda>r. offer_check r \<and> sint (oe_offerID oe) \<ge> 0) (oe_offerID oe)
                 \<lparr>or_accountID = oe_accountID oe, or_paysIsoCurrency = currencyCodeToStr pcode,
                  or_paysIssuer = piss, or_getsIsoCurrency = currencyCodeToStr gcode,
                  or_getsIssuer = giss, or_amount = oe_amount oe,
                  or_priceN = price_n (oe_price oe), or_priceD = price_d (oe_price oe),
                  or_price = p\<rparr> (db_Offers db)) (\<lambda>t.
        rbind (addEntry (OFFER oe) delta) (\<lambda>delta'.
        Inr (db\<lparr>db_Offers := t\<rparr>, delta')))))))"


subsection \<open>The offers the table holds\<close>

definition row_offer :: "uint64 \<Rightarrow> OfferRow \<Rightarrow> OfferEntry" where
  "row_offer i r = \<lparr>oe_accountID = or_accountID r, oe_offerID = i,
     oe_takerGets = ISO4217 (strToCurrencyCode (0, 0, 0, 0) (or_getsIsoCurrency r)) (or_getsIssuer r),
     oe_takerPays = ISO4217 (strToCurrencyCode (0, 0, 0, 0) (or_paysIsoCurrency r)) (or_paysIssuer r),
     oe_amount = or_amount r, oe_price = \<lparr>price_n = or_priceN r, price_d = or_priceD r\<rparr>\<rparr>"

definition db_offer :: "Database \<Rightarrow> AccountID \<Rightarrow> uint64 \<Rightarrow> OfferEntry option" where
  "db_offer db a i =
     (case map_of (db_Offers db) i of None \<Rightarrow> None
      | Some r \<Rightarrow> if or_accountID r = a then Some (row_offer i r) else None)"

fun proper_iso :: "Currency \<Rightarrow> bool" where
  "proper_iso NATIVE = False"
| "proper_iso (ISO4217 code iss) \<longleftrightarrow> canonical_code code"

definition offer_fits :: "OfferFrame \<Rightarrow> bool" where
  "offer_fits oe \<longleftrightarrow> proper_iso (oe_takerGets oe) \<and> proper_iso (oe_takerPays oe) \<and>
     0 \<le> oe_amount oe \<and> 0 \<le> sint (oe_offerID oe) \<and>
     0 < price_n (oe_price oe) \<and> price_n (oe_price oe) < 2 ^ 31 \<and>
     0 < price_d (oe_price oe) \<and> price_d (oe_price oe) < 2 ^ 31"

lemma db_offer_key: "db_offer db a i = Some oe \<Longrightarrow> oe_accountID oe = a \<and> oe_offerID oe = i"
  by (auto simp: db_offer_def row_offer_def split: option.splits if_splits)

lemma loadOffer_view:
  "loadOffer a i ret db = (case db_offer db a i of None \<Rightarrow> (False, ret) | Some oe \<Rightarrow> (True, oe))"
  by (simp add: loadOffer_def db_offer_def row_offer_def Let_def new_OfferFrame_def currency_code_def
      split: option.splits)

lemma computePrice_ok:
  assumes "0 < price_n (oe_price oe)" "price_n (oe_price oe) < 2 ^ 31"
    and "0 < price_d (oe_price oe)" "price_d (oe_price oe) < 2 ^ 31"
  shows "computePrice oe = Inr (price_n (oe_price oe) * OFFER_PRICE_DIVISOR div price_d (oe_price oe))"
proof -
  let ?n = "price_n (oe_price oe)" and ?d = "price_d (oe_price oe)"
  have prod: "0 \<le> ?n * OFFER_PRICE_DIVISOR" "?n * OFFER_PRICE_DIVISOR \<le> INT64_MAX"
    using assms by (simp_all add: OFFER_PRICE_DIVISOR_def INT64_MAX_def)
  have "?n * OFFER_PRICE_DIVISOR div ?d \<le> ?n * OFFER_PRICE_DIVISOR"
    using zdiv_mono2 [OF prod(1), of 1 ?d] assms(3) by simp
  then have "bigDivide_noThrow ?n OFFER_PRICE_DIVISOR ?d = Inr (True, ?n * OFFER_PRICE_DIVISOR div ?d)"
    using assms prod by (intro bigDivide_noThrow_valid) (simp_all add: OFFER_PRICE_DIVISOR_def INT64_MAX_def)
  then show ?thesis by (simp add: computePrice_def bigDivide_def)
qed


lemma db_offer_update:
  assumes "map_of t = (map_of (db_Offers db))(i := x)"
  shows "db_offer (db\<lparr>db_Offers := t\<rparr>) b j =
    (if j = i then case x of None \<Rightarrow> None | Some r \<Rightarrow> if or_accountID r = b then Some (row_offer i r) else None
     else db_offer db b j)"
  using assms by (auto simp: db_offer_def split: option.splits)

lemma offer_storeAdd_ok:
  assumes fits: "offer_fits oe" and free: "map_of (db_Offers db) (oe_offerID oe) = None"
    and delta: "addEntry (OFFER oe) delta = Inr delta'"
  shows "\<exists>t. offer_storeAdd oe db delta = Inr (db\<lparr>db_Offers := t\<rparr>, delta') \<and>
    (\<forall>b j. db_offer (db\<lparr>db_Offers := t\<rparr>) b j =
      (if b = oe_accountID oe \<and> j = oe_offerID oe then Some oe else db_offer db b j))"
proof -
  obtain gc gi pc pi where c: "oe_takerGets oe = ISO4217 gc gi" "oe_takerPays oe = ISO4217 pc pi"
    "canonical_code gc" "canonical_code pc"
    using fits by (cases "oe_takerGets oe"; cases "oe_takerPays oe") (auto simp: offer_fits_def)
  let ?p = "price_n (oe_price oe) * OFFER_PRICE_DIVISOR div price_d (oe_price oe)"
  let ?r = "\<lparr>or_accountID = oe_accountID oe, or_paysIsoCurrency = currencyCodeToStr pc,
    or_paysIssuer = pi, or_getsIsoCurrency = currencyCodeToStr gc, or_getsIssuer = gi,
    or_amount = oe_amount oe, or_priceN = price_n (oe_price oe), or_priceD = price_d (oe_price oe),
    or_price = ?p\<rparr>"
  have p: "computePrice oe = Inr ?p" using fits by (intro computePrice_ok) (simp_all add: offer_fits_def)
  obtain t where t: "sql_insert (\<lambda>r. offer_check r \<and> sint (oe_offerID oe) \<ge> 0) (oe_offerID oe) ?r
      (db_Offers db) = Inr t" "map_of t = (map_of (db_Offers db))(oe_offerID oe \<mapsto> ?r)"
    using sql_insert_ok [of "\<lambda>r. offer_check r \<and> sint (oe_offerID oe) \<ge> 0" ?r, OF _ free] fits
    by (auto simp: offer_fits_def offer_check_def)
  have "row_offer (oe_offerID oe) ?r = oe"
    using c by (simp add: row_offer_def strToCurrencyCode_toStr)
  moreover have "db_offer db b (oe_offerID oe) = None" for b using free by (simp add: db_offer_def)
  ultimately have "db_offer (db\<lparr>db_Offers := t\<rparr>) b j =
      (if b = oe_accountID oe \<and> j = oe_offerID oe then Some oe else db_offer db b j)" for b j
    by (simp add: db_offer_update [OF t(2)])
  moreover have "offer_storeAdd oe db delta = Inr (db\<lparr>db_Offers := t\<rparr>, delta')"
    using c p t(1) delta by (simp add: offer_storeAdd_def isoCI_def)
  ultimately show ?thesis by blast
qed

lemma offer_storeChange_ok:
  assumes fits: "offer_fits oe" and old: "db_offer db (oe_accountID oe) (oe_offerID oe) = Some o'"
    and same: "oe_takerGets oe = oe_takerGets o'" "oe_takerPays oe = oe_takerPays o'"
    and delta: "modEntry (OFFER oe) delta = Inr delta'"
  shows "\<exists>t. offer_storeChange oe db delta = Inr (db\<lparr>db_Offers := t\<rparr>, delta') \<and>
    (\<forall>b j. db_offer (db\<lparr>db_Offers := t\<rparr>) b j =
      (if b = oe_accountID oe \<and> j = oe_offerID oe then Some oe else db_offer db b j))"
proof -
  let ?p = "price_n (oe_price oe) * OFFER_PRICE_DIVISOR div price_d (oe_price oe)"
  let ?f = "\<lambda>r. r\<lparr>or_amount := oe_amount oe,
    or_priceN := price_n (oe_price oe), or_priceD := price_d (oe_price oe), or_price := ?p\<rparr>"
  obtain r where r: "map_of (db_Offers db) (oe_offerID oe) = Some r" "or_accountID r = oe_accountID oe"
    "o' = row_offer (oe_offerID oe) r"
    using old by (auto simp: db_offer_def split: option.splits if_splits)
  have p: "computePrice oe = Inr ?p" using fits by (intro computePrice_ok) (simp_all add: offer_fits_def)
  obtain t where t: "sql_update offer_check (oe_offerID oe) ?f (Inl (RuntimeError ''could not update SQL''))
      (db_Offers db) = Inr t" "map_of t = (map_of (db_Offers db))(oe_offerID oe \<mapsto> ?f r)"
    using sql_update_ok [OF r(1), of offer_check ?f] fits by (auto simp: offer_fits_def offer_check_def)
  have "row_offer (oe_offerID oe) (?f r) = oe"
    using r same by (simp add: row_offer_def)
  moreover have "db_offer db b (oe_offerID oe) = None" if "b \<noteq> oe_accountID oe" for b
    using r that by (simp add: db_offer_def)
  ultimately have "db_offer (db\<lparr>db_Offers := t\<rparr>) b j =
      (if b = oe_accountID oe \<and> j = oe_offerID oe then Some oe else db_offer db b j)" for b j
    using r(2) by (auto simp: db_offer_update [OF t(2)])
  moreover have "offer_storeChange oe db delta = Inr (db\<lparr>db_Offers := t\<rparr>, delta')"
    using p t(1) delta by (simp add: offer_storeChange_def)
  ultimately show ?thesis by blast
qed

lemma offer_storeDelete_ok:
  assumes "db_offer db a i \<noteq> None" "deleteEntry (OfferKey a i) delta = Inr delta'"
  shows "\<exists>t. offer_storeDelete a i db delta = Inr (db\<lparr>db_Offers := t\<rparr>, delta') \<and>
    (\<forall>b j. db_offer (db\<lparr>db_Offers := t\<rparr>) b j = (if b = a \<and> j = i then None else db_offer db b j))"
proof -
  let ?t = "sql_delete i (db_Offers db)"
  have "db_offer db b i = None" if "b \<noteq> a" for b
    using assms(1) that by (auto simp: db_offer_def split: option.splits)
  then have "db_offer (db\<lparr>db_Offers := ?t\<rparr>) b j = (if b = a \<and> j = i then None else db_offer db b j)" for b j
    by (auto simp: db_offer_update [OF map_of_sql_delete])
  then show ?thesis using assms(2) by (intro exI [of _ ?t]) (simp add: offer_storeDelete_def)
qed

end
