(* ===== verification/Entry_Frame.thy ===== *)
theory Entry_Frame
  imports Offer_Frame
begin

text \<open>
  \<open>src/ledger/EntryFrame.cpp\<close>: the dispatch on the kind of an entry, and \<open>Bucket::apply\<close> of
  \<open>src/bucket/Bucket.cpp\<close>, which loads a bucket into the database through it.
\<close>

subsection \<open>Definitions\<close>

datatype EntryFrame =
    AccountF AccountFrame
  | TrustF TrustFrame
  | OfferF OfferFrame

fun frame_entry :: "EntryFrame \<Rightarrow> LedgerEntry" where
  "frame_entry (AccountF a) = ACCOUNT (mAccountEntry a)"
| "frame_entry (TrustF t) = TRUSTLINE (mTrustLine t)"
| "frame_entry (OfferF f) = OFFER f"

fun FromXDR :: "LedgerEntry \<Rightarrow> EntryFrame" where
  "FromXDR (ACCOUNT a) = AccountF (AccountFrame_of_entry a)"
| "FromXDR (TRUSTLINE t) = TrustF (TrustFrame_of_entry t)"
| "FromXDR (OFFER f) = OfferF f"

definition getKey :: "EntryFrame \<Rightarrow> LedgerKey" where
  "getKey f = LedgerEntryKey (frame_entry f)"

type_synonym Store = "Database \<times> LedgerDelta"

fun storeAdd :: "EntryFrame \<Rightarrow> Store \<Rightarrow> Store res" where
  "storeAdd (AccountF a) (db, delta) = account_storeAdd a db delta"
| "storeAdd (TrustF t) (db, delta) = trust_storeAdd t db delta"
| "storeAdd (OfferF f) (db, delta) = offer_storeAdd f db delta"

fun storeChange :: "EntryFrame \<Rightarrow> Store \<Rightarrow> Store res" where
  "storeChange (AccountF a) (db, delta) = account_storeChange a db delta"
| "storeChange (TrustF t) (db, delta) = trust_storeChange t db delta"
| "storeChange (OfferF f) (db, delta) = offer_storeChange f db delta"

fun storeDelete :: "LedgerKey \<Rightarrow> Store \<Rightarrow> Store res" where
  "storeDelete (AccountKey a) (db, delta) = account_storeDelete a db delta"
| "storeDelete (TrustLineKey a c) (db, delta) = trust_storeDelete a c db delta"
| "storeDelete (OfferKey a i) (db, delta) = offer_storeDelete a i db delta"

fun entry_exists :: "Database \<Rightarrow> LedgerKey \<Rightarrow> bool res" where
  "entry_exists db (AccountKey a) = Inr (account_exists db a)"
| "entry_exists db (TrustLineKey a c) = trust_exists db a c"
| "entry_exists db (OfferKey a i) = Inr (offer_exists db a i)"

definition storeAddOrChange :: "EntryFrame \<Rightarrow> Store \<Rightarrow> Store res" where
  "storeAddOrChange f s =
     rbind (entry_exists (fst s) (getKey f)) (\<lambda>ex.
     if ex then storeChange f s else storeAdd f s)"

text \<open>
  \<open>Bucket::apply\<close> tests the stream before reading from it: when the last entry has been read the
  stream is still good, the next read fails and leaves the variable as it was, and the body runs
  once more on the same entry. On a bucket without a file nothing is done.
\<close>

definition apply_entry :: "BucketEntry \<Rightarrow> Store \<Rightarrow> Store res" where
  "apply_entry e s =
     (case e of LIVEENTRY le \<Rightarrow> storeAddOrChange (FromXDR le) s | DEADENTRY k \<Rightarrow> storeDelete k s)"

definition bucket_apply :: "Bucket \<Rightarrow> LedgerHeader \<Rightarrow> Database \<Rightarrow> Store res" where
  "bucket_apply b lh db =
     (if b = [] then Inr (db, LedgerDelta_over lh)
      else each apply_entry (b @ [last b]) (db, LedgerDelta_over lh))"


subsection \<open>The database and the delta stay in step\<close>

text \<open>The ledger entries the database holds, read the way the frames read them.\<close>

fun db_view :: "Database \<Rightarrow> LedgerKey \<Rightarrow> LedgerEntry option" where
  "db_view db (AccountKey a) = map_option ACCOUNT (db_account db a)"
| "db_view db (TrustLineKey a c) = map_option TRUSTLINE (db_trust db a c)"
| "db_view db (OfferKey a i) = map_option OFFER (db_offer db a i)"

text \<open>
  A store is consistent when the delta, over the entries the ledger started from, shows exactly
  what the database holds.
\<close>

definition store_ok :: "(LedgerKey \<Rightarrow> LedgerEntry option) \<Rightarrow> Store \<Rightarrow> bool" where
  "store_ok base s \<longleftrightarrow> accounts_wf (fst s) \<and> trusts_wf (fst s) \<and> delta_ok base (snd s) \<and>
     delta_view base (snd s) = db_view (fst s)"

definition store_view :: "Store \<Rightarrow> LedgerKey \<Rightarrow> LedgerEntry option" where
  "store_view s = db_view (fst s)"

text \<open>
  The frames that can be added: an account with its signers, a trust line with no balance, an
  offer between two credits under an unused identifier. And those that can be stored as changes.
\<close>

fun addable :: "EntryFrame \<Rightarrow> Store \<Rightarrow> bool" where
  "addable (AccountF f) s \<longleftrightarrow> account_updatable f []"
| "addable (TrustF t) s \<longleftrightarrow> trust_fits t \<and> tl_balance (mTrustLine t) = 0"
| "addable (OfferF oe) s \<longleftrightarrow> offer_fits oe \<and> map_of (db_Offers (fst s)) (oe_offerID oe) = None"

fun changeable :: "EntryFrame \<Rightarrow> Store \<Rightarrow> bool" where
  "changeable (AccountF f) s \<longleftrightarrow> account_updatable f
     (case db_account (fst s) (ae_accountID (mAccountEntry f)) of None \<Rightarrow> [] | Some e \<Rightarrow> ae_signers e)"
| "changeable (TrustF t) s \<longleftrightarrow> trust_fits t"
| "changeable (OfferF oe) s \<longleftrightarrow> offer_fits oe \<and>
     (case db_offer (fst s) (oe_accountID oe) (oe_offerID oe) of None \<Rightarrow> False
      | Some o' \<Rightarrow> oe_takerGets oe = oe_takerGets o' \<and> oe_takerPays oe = oe_takerPays o')"

lemma db_view_accounts:
  assumes "db_account (db\<lparr>db_Accounts := t, db_Signers := g\<rparr>) = (db_account db)(a := x)"
  shows "db_view (db\<lparr>db_Accounts := t, db_Signers := g\<rparr>) =
    (db_view db)(AccountKey a := map_option ACCOUNT x)"
proof
  fix k
  show "db_view (db\<lparr>db_Accounts := t, db_Signers := g\<rparr>) k =
      ((db_view db)(AccountKey a := map_option ACCOUNT x)) k"
    using assms by (cases k) (simp_all add: db_trust_def db_offer_def)
qed

lemma db_view_trusts:
  assumes "\<forall>b c'. db_trust (db\<lparr>db_TrustLines := t\<rparr>) b c' = (if b = a \<and> c' = c then x else db_trust db b c')"
  shows "db_view (db\<lparr>db_TrustLines := t\<rparr>) = (db_view db)(TrustLineKey a c := map_option TRUSTLINE x)"
proof
  fix k
  have "db_account (db\<lparr>db_TrustLines := t\<rparr>) b = db_account db b" for b
    by (cases "map_of (db_Accounts db) b") (simp_all add: db_account_def)
  then show "db_view (db\<lparr>db_TrustLines := t\<rparr>) k =
      ((db_view db)(TrustLineKey a c := map_option TRUSTLINE x)) k"
    using assms by (cases k) (simp_all add: db_offer_def)
qed

lemma db_view_offers:
  assumes "\<forall>b j. db_offer (db\<lparr>db_Offers := t\<rparr>) b j = (if b = a \<and> j = i then x else db_offer db b j)"
  shows "db_view (db\<lparr>db_Offers := t\<rparr>) = (db_view db)(OfferKey a i := map_option OFFER x)"
proof
  fix k
  have "db_account (db\<lparr>db_Offers := t\<rparr>) b = db_account db b" for b
    by (cases "map_of (db_Accounts db) b") (simp_all add: db_account_def)
  then show "db_view (db\<lparr>db_Offers := t\<rparr>) k = ((db_view db)(OfferKey a i := map_option OFFER x)) k"
    using assms by (cases k) (simp_all add: db_trust_def)
qed

lemma wf_frames [simp]:
  "accounts_wf (db\<lparr>db_TrustLines := t\<rparr>) = accounts_wf db"
  "accounts_wf (db\<lparr>db_Offers := u\<rparr>) = accounts_wf db"
  "trusts_wf (db\<lparr>db_Offers := u\<rparr>) = trusts_wf db"
  "trusts_wf (db\<lparr>db_Accounts := v, db_Signers := g\<rparr>) = trusts_wf db"
  by (simp_all add: accounts_wf_def trusts_wf_def)

text \<open>A store whose database and delta made the same step is consistent again.\<close>

lemma store_step:
  assumes "accounts_wf db'" "trusts_wf db'" "delta_ok base d'"
    and "delta_view base d' = (delta_view base d)(k := x)" "delta_view base d = db_view db"
    and "db_view db' = (db_view db)(k := x)"
  shows "store_ok base (db', d') \<and> store_view (db', d') = (store_view (db, d))(k := x)"
  using assms by (simp add: store_ok_def store_view_def)

lemma storeAdd_ok:
  assumes ok: "store_ok base s" and add: "addable f s" and free: "store_view s (getKey f) = None"
  shows "\<exists>s'. storeAdd f s = Inr s' \<and> store_ok base s' \<and>
    store_view s' = (store_view s)(getKey f \<mapsto> frame_entry f)"
proof -
  obtain db d where s: "s = (db, d)" by fastforce
  have wf: "accounts_wf db" "trusts_wf db" "delta_ok base d" "delta_view base d = db_view db"
    using ok s by (simp_all add: store_ok_def)
  obtain d' where d': "addEntry (frame_entry f) d = Inr d'" "delta_ok base d'"
    "delta_view base d' = (delta_view base d)(getKey f \<mapsto> frame_entry f)"
    using dl.add_ok [OF wf(3), of "frame_entry f"] free s wf(4) by (auto simp: store_view_def getKey_def)
  have "\<exists>db'. storeAdd f (db, d) = Inr (db', d') \<and> accounts_wf db' \<and> trusts_wf db' \<and>
      db_view db' = (db_view db)(getKey f \<mapsto> frame_entry f)"
  proof (cases f)
    case (AccountF a)
    then show ?thesis
      using storeUpdate_ok [OF wf(1) refl, of True a d d'] add free d'(1) s wf(2)
        db_view_accounts [where x = "Some (mAccountEntry a)"]
      by (fastforce simp: account_storeAdd_def store_view_def getKey_def)
  next
    case (TrustF t)
    then show ?thesis
      using trust_storeAdd_ok [OF wf(2) _ refl, of t d d'] add free d'(1) s wf(1)
        db_view_trusts [where x = "Some (mTrustLine t)"]
      by (fastforce simp: store_view_def getKey_def)
  next
    case (OfferF oe)
    then show ?thesis
      using offer_storeAdd_ok [of oe db d d'] add d'(1) s wf(1,2) db_view_offers [where x = "Some oe"]
      by (fastforce simp: store_view_def getKey_def)
  qed
  then obtain db' where "storeAdd f (db, d) = Inr (db', d')" "accounts_wf db'" "trusts_wf db'"
      "db_view db' = (db_view db)(getKey f \<mapsto> frame_entry f)" by blast
  with store_step [OF _ _ d'(2,3) wf(4)] s show ?thesis by blast
qed


lemma storeChange_ok:
  assumes ok: "store_ok base s" and chg: "changeable f s" and old: "store_view s (getKey f) \<noteq> None"
  shows "\<exists>s'. storeChange f s = Inr s' \<and> store_ok base s' \<and>
    store_view s' = (store_view s)(getKey f \<mapsto> frame_entry f)"
proof -
  obtain db d where s: "s = (db, d)" by fastforce
  have wf: "accounts_wf db" "trusts_wf db" "delta_ok base d" "delta_view base d = db_view db"
    using ok s by (simp_all add: store_ok_def)
  obtain d' where d': "modEntry (frame_entry f) d = Inr d'" "delta_ok base d'"
    "delta_view base d' = (delta_view base d)(getKey f \<mapsto> frame_entry f)"
    using dl.chg_ok [OF wf(3), of "frame_entry f"] old s wf(4) by (auto simp: store_view_def getKey_def)
  have "\<exists>db'. storeChange f (db, d) = Inr (db', d') \<and> accounts_wf db' \<and> trusts_wf db' \<and>
      db_view db' = (db_view db)(getKey f \<mapsto> frame_entry f)"
  proof (cases f)
    case (AccountF a)
    then show ?thesis
      using storeUpdate_ok [OF wf(1) refl, of False a d d'] chg old d'(1) s wf(2)
        db_view_accounts [where x = "Some (mAccountEntry a)"]
      by (fastforce simp: account_storeChange_def store_view_def getKey_def)
  next
    case (TrustF t)
    then show ?thesis
      using trust_storeChange_ok [OF wf(2) _ refl, of t d d'] chg old d'(1) s wf(1)
        db_view_trusts [where x = "Some (mTrustLine t)"]
      by (fastforce simp: store_view_def getKey_def)
  next
    case (OfferF oe)
    then show ?thesis
      using offer_storeChange_ok [of oe db _ d d'] chg d'(1) s wf(1,2) db_view_offers [where x = "Some oe"]
      by (fastforce simp: store_view_def getKey_def split: option.splits)
  qed
  then obtain db' where "storeChange f (db, d) = Inr (db', d')" "accounts_wf db'" "trusts_wf db'"
      "db_view db' = (db_view db)(getKey f \<mapsto> frame_entry f)" by blast
  with store_step [OF _ _ d'(2,3) wf(4)] s show ?thesis by blast
qed

lemma storeDelete_ok:
  assumes ok: "store_ok base s" and old: "store_view s k \<noteq> None"
  shows "\<exists>s'. storeDelete k s = Inr s' \<and> store_ok base s' \<and> store_view s' = (store_view s)(k := None)"
proof -
  obtain db d where s: "s = (db, d)" by fastforce
  have wf: "accounts_wf db" "trusts_wf db" "delta_ok base d" "delta_view base d = db_view db"
    using ok s by (simp_all add: store_ok_def)
  obtain d' where d': "deleteEntry k d = Inr d'" "delta_ok base d'"
    "delta_view base d' = (delta_view base d)(k := None)"
    using dl.del_ok [OF wf(3), of k] old s wf(4) by (auto simp: store_view_def)
  have "\<exists>db'. storeDelete k (db, d) = Inr (db', d') \<and> accounts_wf db' \<and> trusts_wf db' \<and>
      db_view db' = (db_view db)(k := None)"
  proof (cases k)
    case (AccountKey a)
    then show ?thesis
      using account_delete_view [OF wf(1), of a] d'(1) wf(2) db_view_accounts [where x = None]
      by (fastforce simp: account_storeDelete_def Let_def)
  next
    case (TrustLineKey a c)
    then show ?thesis
      using trust_storeDelete_ok [OF wf(2), of a c d d'] old d'(1) s wf(1) db_view_trusts [where x = None]
      by (fastforce simp: store_view_def)
  next
    case (OfferKey a i)
    then show ?thesis
      using offer_storeDelete_ok [of db a i d d'] old d'(1) s wf(1,2) db_view_offers [where x = None]
      by (fastforce simp: store_view_def)
  qed
  then obtain db' where "storeDelete k (db, d) = Inr (db', d')" "accounts_wf db'" "trusts_wf db'"
      "db_view db' = (db_view db)(k := None)" by blast
  with store_step [OF _ _ d'(2,3) wf(4)] s show ?thesis by blast
qed

interpretation st: change_log storeAdd storeChange storeDelete frame_entry LedgerEntryKey
    "store_ok base" addable changeable store_view for base
  by unfold_locales
    (rule storeAdd_ok [unfolded getKey_def] storeChange_ok [unfolded getKey_def] storeDelete_ok; assumption)+

lemma entry_exists_view:
  assumes "case k of TrustLineKey a c \<Rightarrow> proper_line a c | _ \<Rightarrow> True"
  shows "entry_exists db k = Inr (db_view db k \<noteq> None)"
  using assms
  by (cases k) (auto simp: account_exists_def db_account_def trust_exists_def getKeyFields_proper
      db_trust_def offer_exists_def db_offer_def split: option.splits)


subsection \<open>Properties\<close>


lemma store_ok_empty: "store_ok (\<lambda>_. None) (empty_db, LedgerDelta_over lh)"
proof -
  have "db_view empty_db k = None" for k
    by (cases k) (simp_all add: empty_db_def db_account_def db_trust_def db_offer_def)
  then show ?thesis
    by (simp add: store_ok_def accounts_wf_def trusts_wf_def delta_ok_def delta_view_def
        LedgerDelta_over_def fun_eq_iff) (simp add: empty_db_def)
qed

definition sample_frame :: EntryFrame where
  "sample_frame = AccountF (upd_account (\<lambda>e. e\<lparr>ae_balance := 500\<rparr>) (AccountFrame_of_id 7))"


text \<open>
  The minimum balance is computed with 32-bit unsigned arithmetic: it is the reserve times the
  number of sub-entries plus two only as long as that product is below \<open>2 ^ 32\<close>. With the default
  reserve of 10000000 an account with 428 sub-entries is required to hold less than
  one with none.
\<close>

theorem getMinBalance_wraps:
  "getMinBalance lm n = ((2 + uint n) mod 2 ^ 32 * (lh_baseReserve lm mod 2 ^ 32)) mod 2 ^ 32 \<and>
   getMinBalance (sample_header\<lparr>lh_baseReserve := 10000000\<rparr>) 428 <
     getMinBalance (sample_header\<lparr>lh_baseReserve := 10000000\<rparr>) 0"
proof -
  have "getMinBalance lm n = ((2 + uint n) mod 2 ^ 32 * (lh_baseReserve lm mod 2 ^ 32)) mod 2 ^ 32"
    by (simp add: getMinBalance_def uint_word_ariths uint_word_of_int mod_simps)
  moreover have "getMinBalance (sample_header\<lparr>lh_baseReserve := 10000000\<rparr>) 428 <
     getMinBalance (sample_header\<lparr>lh_baseReserve := 10000000\<rparr>) 0"
    by (simp add: getMinBalance_def)
  ultimately show ?thesis by blast
qed

text \<open>
  An offer with the native currency on either side is never stored: the insertion leaves out
  columns the table requires, and the SQL engine refuses it (or the price was not computable).
\<close>

theorem native_offer_never_stored:
  assumes "oe_takerGets oe = NATIVE \<or> oe_takerPays oe = NATIVE"
  shows "\<exists>e. offer_storeAdd oe db delta = Inl e"
proof -
  have "\<exists>e. rbind m (\<lambda>_. rbind m' (\<lambda>_. Inl e')) = Inl e" for m :: "'a res" and m' :: "'b res" and e' :: cpp_error
    by (cases m; cases m') simp_all
  with assms show ?thesis by (auto simp: offer_storeAdd_def)
qed

definition sample_native_offer :: OfferEntry where
  "sample_native_offer = \<lparr>oe_accountID = 1, oe_offerID = 5, oe_takerGets = NATIVE,
     oe_takerPays = ISO4217 (85, 83, 68, 0) 2, oe_amount = 10, oe_price = \<lparr>price_n = 1, price_d = 2\<rparr>\<rparr>"

theorem native_offer_never_stored_witness:
  "\<exists>e. offer_storeAdd sample_native_offer empty_db (LedgerDelta_over sample_header) = Inl e"
  by (rule native_offer_never_stored) (simp add: sample_native_offer_def)

text \<open>
  Storing a new trust line loses its balance. The insertion names no balance column, so the
  database then shows the line with balance zero, while the delta shows the balance it had.
\<close>

theorem storeAdd_drops_trust_balance:
  assumes "trusts_wf db" "trust_fits t" "l = mTrustLine t"
    and "db_trust db (tl_accountID l) (tl_currency l) = None"
    and "delta_ok base d" "delta_view base d (LedgerEntryKey (TRUSTLINE l)) = None"
  shows "\<exists>db' d'. trust_storeAdd t db d = Inr (db', d') \<and>
    db_trust db' (tl_accountID l) (tl_currency l) = Some (l\<lparr>tl_balance := 0\<rparr>) \<and>
    delta_view base d' (LedgerEntryKey (TRUSTLINE l)) = Some (TRUSTLINE l)"
proof -
  let ?r = "\<lparr>tr_tlimit = tl_limit l, tr_balance = 0, tr_authorized = tl_authorized l\<rparr>"
  let ?k = "line_row (tl_accountID l) (tl_currency l)"
  have p: "proper_line (tl_accountID l) (tl_currency l)" and v: "trust_isValid t" "\<not> mIsIssuer t"
    using assms(2,3) by (simp_all add: trust_fits_def)
  have "map_of (db_TrustLines db) ?k = None" using assms(4) p by (simp add: db_trust_def)
  moreover have "trust_check ?r" using v assms(3) by (auto simp: trust_check_def trust_isValid_def)
  ultimately obtain t' where t': "sql_insert trust_check ?k ?r (db_TrustLines db) = Inr t'"
    "map_of t' = (map_of (db_TrustLines db))(?k \<mapsto> ?r)" using sql_insert_ok by metis
  obtain d' where d': "addEntry (TRUSTLINE l) d = Inr d'"
    "delta_view base d' = (delta_view base d)(LedgerEntryKey (TRUSTLINE l) \<mapsto> TRUSTLINE l)"
    using dl.add_ok [OF assms(5), of "TRUSTLINE l"] assms(6) by auto
  have "trust_storeAdd t db d = Inr (db\<lparr>db_TrustLines := t'\<rparr>, d')"
    using v t'(1) assms(3) d'(1) getKeyFields_proper [OF p] by (simp add: trust_storeAdd_def Let_def)
  moreover have "db_trust (db\<lparr>db_TrustLines := t'\<rparr>) (tl_accountID l) (tl_currency l) =
      Some (l\<lparr>tl_balance := 0\<rparr>)"
    by (simp add: db_trust_update [OF t'(2) p] row_trust_def)
  ultimately show ?thesis using d'(2) by auto
qed

definition sample_line :: TrustFrame where
  "sample_line = TrustFrame_of_entry \<lparr>tl_accountID = 3, tl_currency = ISO4217 (85, 83, 68, 0) 2,
     tl_balance = 40, tl_limit = 100, tl_authorized = True\<rparr>"

theorem storeAdd_drops_trust_balance_witness:
  "\<exists>db' d'. trust_storeAdd sample_line empty_db (LedgerDelta_over sample_header) = Inr (db', d') \<and>
     db_trust db' 3 (ISO4217 (85, 83, 68, 0) 2) = Some ((mTrustLine sample_line)\<lparr>tl_balance := 0\<rparr>)"
proof -
  have "delta_view (\<lambda>_. None) (LedgerDelta_over sample_header) k = None" for k
    by (simp add: delta_view_def LedgerDelta_over_def)
  then show ?thesis
    using storeAdd_drops_trust_balance [of empty_db sample_line "mTrustLine sample_line" "\<lambda>_. None"
        "LedgerDelta_over sample_header"] delta_ok_new
    by (auto simp: trusts_wf_def empty_db_def trust_fits_def trust_isValid_def sample_line_def
        TrustFrame_of_entry_def db_trust_def)
qed

text \<open>
  A removed signer comes back. When the only signers of an account are removed and the count of
  sub-entries drops to zero, the update leaves the rows of the signers table: it compares the new
  signers with those it loads after the account row is written, and loads none for a count of zero.
  As soon as the account counts a sub-entry again, it is loaded with the removed signers.
\<close>

theorem removed_signer_returns:
  assumes wf: "accounts_wf db" and e: "db_account db a = Some e" "ae_balance e \<ge> 0"
    and "f = \<lparr>mAccountEntry = e\<lparr>ae_signers := [], ae_numSubEntries := 0\<rparr>, mUpdateSigners = True\<rparr>"
    and "account_storeChange f db d = Inr (db1, d1)"
    and "g = \<lparr>mAccountEntry = (mAccountEntry f)\<lparr>ae_numSubEntries := 1\<rparr>, mUpdateSigners = False\<rparr>"
    and "account_storeChange g db1 d1 = Inr (db2, d2)"
  shows "map_option ae_signers (db_account db1 a) = Some [] \<and>
    map_option ae_signers (db_account db2 a) = Some (ae_signers e)"
proof -
  have a: "ae_accountID e = a" using e(1) by (rule db_account_id)
  have g1: "db_Signers db1 = db_Signers db"
    and r1: "map_of (db_Accounts db1) a = Some (account_row (mAccountEntry f))"
    using assms(4,5) a
    by (auto simp: account_storeChange_def account_storeUpdate_def store_signers_def Let_def res_simps
        sql_update_Inr update_conv' loadAccount_new db_account_def row_account_def account_row_def
        split: option.splits)
  have g2: "db_Signers db2 = db_Signers db"
    and r2: "map_of (db_Accounts db2) a = Some (account_row (mAccountEntry g))"
    using assms(4,6,7) a g1
    by (auto simp: account_storeChange_def account_storeUpdate_def Let_def res_simps
        sql_update_Inr update_conv')
  have "rows_signers a (db_Signers db) = ae_signers e"
  proof (rule rows_signers_eqI)
    show "signers_sorted (ae_signers e)" using db_account_sorted [OF wf e(1)] .
    show "map_of (db_Signers db) (a, p) = sgn_map (ae_signers e) p" for p
      using old_signers [OF wf, of a p] e(1) by simp
  qed (use wf in \<open>simp add: accounts_wf_def\<close>)
  with g1 g2 r1 r2 assms(4,6) show ?thesis by (simp add: db_account_def row_account_def account_row_def)
qed


definition sample_signer_db :: Database where
  "sample_signer_db = empty_db\<lparr>
     db_Accounts := [(5, \<lparr>ac_balance = 1000, ac_seqNum = 3, ac_numSubEntries = 1,
       ac_inflationDest = None, ac_thresholds = (1, 0, 0, 0), ac_flags = 0\<rparr>)],
     db_Signers := [((5, 9), 2)]\<rparr>"

definition sample_signer_entry :: AccountEntry where
  "sample_signer_entry = \<lparr>ae_accountID = 5, ae_balance = 1000, ae_seqNum = 3, ae_numSubEntries = 1,
     ae_inflationDest = None, ae_flags = 0, ae_thresholds = (1, 0, 0, 0),
     ae_signers = [\<lparr>sig_pubKey = 9, sig_weight = 2\<rparr>]\<rparr>"

theorem removed_signer_returns_witness:
  "\<exists>db1 d1 db2 d2.
     account_storeChange \<lparr>mAccountEntry = sample_signer_entry\<lparr>ae_signers := [], ae_numSubEntries := 0\<rparr>,
        mUpdateSigners = True\<rparr> sample_signer_db (LedgerDelta_over sample_header) = Inr (db1, d1) \<and>
     account_storeChange \<lparr>mAccountEntry = sample_signer_entry\<lparr>ae_signers := [], ae_numSubEntries := 1\<rparr>,
        mUpdateSigners = False\<rparr> db1 d1 = Inr (db2, d2) \<and>
     map_option ae_signers (db_account db2 5) = Some [\<lparr>sig_pubKey = 9, sig_weight = 2\<rparr>]"
proof -
  let ?f = "\<lparr>mAccountEntry = sample_signer_entry\<lparr>ae_signers := [], ae_numSubEntries := 0\<rparr>,
        mUpdateSigners = True\<rparr>"
  let ?g = "\<lparr>mAccountEntry = (mAccountEntry ?f)\<lparr>ae_numSubEntries := 1\<rparr>, mUpdateSigners = False\<rparr>"
  have s: "accounts_wf sample_signer_db" "db_account sample_signer_db 5 = Some sample_signer_entry"
    by (simp_all add: accounts_wf_def sample_signer_db_def empty_db_def db_account_def row_account_def
        rows_signers_def sample_signer_entry_def)
  have "\<exists>db1 d1 db2 d2. account_storeChange ?f sample_signer_db (LedgerDelta_over sample_header) = Inr (db1, d1) \<and>
      account_storeChange ?g db1 d1 = Inr (db2, d2)"
    by (simp add: account_storeChange_def account_storeUpdate_def sql_update_def account_check_def
        account_row_def sample_signer_db_def empty_db_def sample_signer_entry_def modEntry_def
        delta_checkState_def LedgerDelta_over_def store_signers_def loadAccount_def normalize_def
        Let_def)
  then obtain db1 d1 db2 d2 where c: "account_storeChange ?f sample_signer_db (LedgerDelta_over sample_header) = Inr (db1, d1)"
    "account_storeChange ?g db1 d1 = Inr (db2, d2)" by blast
  from removed_signer_returns [OF s _ refl c(1) refl c(2)] c show ?thesis
    by (auto simp: sample_signer_entry_def)
qed

lemma each_append: "each f (xs @ ys) s = rbind (each f xs s) (each f ys)"
  by (induction xs arbitrary: s) (simp_all add: rbind_def split: sum.splits)

lemma storeDelete_delta:
  assumes "storeDelete k (db, d) = Inr (db', d')"
  shows "deleteEntry k d = Inr d'"
  using assms
  by (cases k) (auto simp: account_storeDelete_def trust_storeDelete_def offer_storeDelete_def
      res_simps Let_def)

lemma deleteEntry_twice:
  assumes "deleteEntry k d = Inr d'" "map_of (mNew d) k = None"
  shows "deleteEntry k d' = Inl AssertFailed"
  using assms by (auto simp: deleteEntry_def res_simps delta_checkState_def split: if_splits)

text \<open>Entries with other keys do not touch what the delta has recorded as new under a key.\<close>

lemma frame_delta_new:
  assumes "storeAddOrChange f (db, d) = Inr (db', d')" "getKey f \<noteq> k" "map_of (mNew d) k = None"
  shows "map_of (mNew d') k = None"
proof -
  have "addEntry (frame_entry f) d = Inr d' \<or> modEntry (frame_entry f) d = Inr d' \<or> d' = d"
    using assms(1)
    by (cases f) (auto simp: storeAddOrChange_def res_simps account_storeAdd_def account_storeChange_def
        account_storeUpdate_def trust_storeAdd_def trust_storeChange_def offer_storeAdd_def
        offer_storeChange_def Let_def split: if_splits)
  with assms(2,3) show ?thesis
    by (auto simp: addEntry_def modEntry_def res_simps Let_def getKey_def split: if_splits)
qed


lemma each_apply_new:
  assumes "each apply_entry b (db, d) = Inr (db', d')" "\<forall>x \<in> set b. bkey x \<noteq> k"
    and "map_of (mNew d) k = None"
  shows "map_of (mNew d') k = None"
  using assms
proof (induction b arbitrary: db d)
  case (Cons x b)
  obtain db1 d1 where x: "apply_entry x (db, d) = Inr (db1, d1)"
    and rest: "each apply_entry b (db1, d1) = Inr (db', d')"
    using Cons.prems(1) by (auto simp: res_simps)
  have "map_of (mNew d1) k = None"
  proof (cases x)
    case (LIVEENTRY le)
    moreover have "getKey (FromXDR le) = LedgerEntryKey le"
      by (cases le) (simp_all add: getKey_def AccountFrame_of_entry_def TrustFrame_of_entry_def)
    ultimately show ?thesis
      using x Cons.prems frame_delta_new [of "FromXDR le" db d db1 d1 k] by (simp add: apply_entry_def)
  next
    case (DEADENTRY k')
    then have "deleteEntry k' d = Inr d1" using x storeDelete_delta by (simp add: apply_entry_def)
    then show ?thesis
      using Cons.prems(3) by (auto simp: deleteEntry_def res_simps split: if_splits)
  qed
  with Cons.IH [OF rest] Cons.prems(2) show ?case by simp
qed simp

text \<open>
  Loading a bucket whose last entry is a tombstone into the database always fails: the loop
  runs once more on the last entry after the end of the file, and deleting it a second time is an
  assertion failure of the delta.
\<close>

theorem bucket_apply_dead_last_fails:
  assumes "bucket_wf (b @ [DEADENTRY k])"
  shows "\<exists>e. bucket_apply (b @ [DEADENTRY k]) lh db = Inl e"
proof (rule ccontr)
  assume "\<nexists>e. bucket_apply (b @ [DEADENTRY k]) lh db = Inl e"
  then obtain db3 d3 where "bucket_apply (b @ [DEADENTRY k]) lh db = Inr (db3, d3)"
    by (metis sum.exhaust surj_pair)
  then obtain db1 d1 db2 d2 where b: "each apply_entry b (db, LedgerDelta_over lh) = Inr (db1, d1)"
    and "storeDelete k (db1, d1) = Inr (db2, d2)" "storeDelete k (db2, d2) = Inr (db3, d3)"
    by (auto simp: bucket_apply_def each_append res_simps apply_entry_def)
  then have del: "deleteEntry k d1 = Inr d2" "deleteEntry k d2 = Inr d3"
    by (simp_all add: storeDelete_delta)
  have "\<forall>x \<in> set b. bkey x \<noteq> k" using bucket_wf_distinct [OF assms] by force
  from each_apply_new [OF b this] have "map_of (mNew d1) k = None"
    by (simp add: LedgerDelta_over_def)
  with deleteEntry_twice [OF del(1)] del(2) show False by simp
qed

theorem bucket_apply_dead_last_fails_witness:
  "\<exists>e. bucket_apply ([] @ [DEADENTRY (AccountKey 4)]) sample_header empty_db = Inl e"
  by (rule bucket_apply_dead_last_fails) simp

end
