(* ===== verification/Transaction_Types.thy ===== *)
theory Transaction_Types
  imports Entry_Frame
begin

text \<open>
  The operations, transactions and results of \<open>src/xdr/Payshares-transaction.x\<close>. A union whose
  arms depend on a code is a datatype with one constructor per code.
\<close>

record PaymentOp =
  pay_destination :: AccountID
  pay_currency :: Currency
  pay_amount :: int64
  pay_path :: "Currency list"
  pay_sendMax :: int64

record CreateOfferOp =
  co_takerGets :: Currency
  co_takerPays :: Currency
  co_amount :: int64
  co_price :: Price
  co_offerID :: uint64

record SetOptionsOp =
  so_inflationDest :: "AccountID option"
  so_clearFlags :: "uint32 option"
  so_setFlags :: "uint32 option"
  so_thresholds :: "Thresholds option"
  so_signer :: "Signer option"

record ChangeTrustOp =
  ct_line :: Currency
  ct_limit :: int64

text \<open>The currency of an \<open>AllowTrustOp\<close> is a union with one arm: \<open>None\<close> is any other discriminant.\<close>

record AllowTrustOp =
  at_trustor :: AccountID
  at_currency :: "CurrencyCode option"
  at_authorize :: bool

datatype OperationBody =
    PAYMENT PaymentOp
  | CREATE_OFFER CreateOfferOp
  | SET_OPTIONS SetOptionsOp
  | CHANGE_TRUST ChangeTrustOp
  | ALLOW_TRUST AllowTrustOp
  | ACCOUNT_MERGE AccountID
  | INFLATION uint32

record Operation =
  op_sourceAccount :: "AccountID option"
  op_body :: OperationBody

record Transaction =
  tx_sourceAccount :: AccountID
  tx_maxFee :: int32
  tx_seqNum :: SequenceNumber
  tx_minLedger :: uint32
  tx_maxLedger :: uint32
  tx_operations :: "Operation list"

type_synonym Signature = "512 word"

record DecoratedSignature =
  ds_hint :: uint32
  ds_signature :: Signature

record TransactionEnvelope =
  env_tx :: Transaction
  env_signatures :: "DecoratedSignature list"

record ClaimOfferAtom =
  ca_offerOwner :: AccountID
  ca_offerID :: uint64
  ca_currencyClaimed :: Currency
  ca_amountClaimed :: int64

record SimplePaymentResult =
  sp_destination :: AccountID
  sp_currency :: Currency
  sp_amount :: int64

datatype PaymentResult =
    PAYMENT_SUCCESS
  | PAYMENT_SUCCESS_MULTI "ClaimOfferAtom list" "SimplePaymentResult option"
  | PAYMENT_MALFORMED
  | PAYMENT_UNDERFUNDED
  | PAYMENT_NO_DESTINATION
  | PAYMENT_NO_TRUST
  | PAYMENT_NOT_AUTHORIZED
  | PAYMENT_LINE_FULL
  | PAYMENT_TOO_FEW_OFFERS
  | PAYMENT_OVER_SENDMAX
  | PAYMENT_LOW_RESERVE

datatype CreateOfferEffect =
    CREATE_OFFER_CREATED OfferEntry
  | CREATE_OFFER_UPDATED OfferEntry
  | CREATE_OFFER_DELETED

datatype CreateOfferResult =
    CREATE_OFFER_SUCCESS "ClaimOfferAtom list" CreateOfferEffect
  | CREATE_OFFER_MALFORMED
  | CREATE_OFFER_NO_TRUST
  | CREATE_OFFER_NOT_AUTHORIZED
  | CREATE_OFFER_LINE_FULL
  | CREATE_OFFER_UNDERFUNDED
  | CREATE_OFFER_CROSS_SELF
  | CREATE_OFFER_NOT_FOUND
  | CREATE_OFFER_MISMATCH
  | CREATE_OFFER_LOW_RESERVE

datatype SetOptionsResult =
    SET_OPTIONS_SUCCESS
  | SET_OPTIONS_LOW_RESERVE
  | SET_OPTIONS_TOO_MANY_SIGNERS
  | SET_OPTIONS_BAD_FLAGS
  | SET_OPTIONS_INVALID_INFLATION

datatype ChangeTrustResult =
    CHANGE_TRUST_SUCCESS
  | CHANGE_TRUST_MALFORMED
  | CHANGE_TRUST_NO_ISSUER
  | CHANGE_TRUST_INVALID_LIMIT
  | CHANGE_TRUST_LOW_RESERVE

datatype AllowTrustResult =
    ALLOW_TRUST_SUCCESS
  | ALLOW_TRUST_MALFORMED
  | ALLOW_TRUST_NO_TRUST_LINE
  | ALLOW_TRUST_TRUST_NOT_REQUIRED

datatype AccountMergeResult =
    ACCOUNT_MERGE_SUCCESS
  | ACCOUNT_MERGE_MALFORMED
  | ACCOUNT_MERGE_NO_ACCOUNT
  | ACCOUNT_MERGE_HAS_CREDIT
  | ACCOUNT_MERGE_CREDIT_HELD

datatype InflationResult = INFLATION_SUCCESS | INFLATION_NOT_TIME

datatype OperationResult =
    PaymentRes PaymentResult
  | CreateOfferRes CreateOfferResult
  | SetOptionsRes SetOptionsResult
  | ChangeTrustRes ChangeTrustResult
  | AllowTrustRes AllowTrustResult
  | AccountMergeRes AccountMergeResult
  | InflationRes InflationResult
  | opBAD_AUTH
  | opNO_ACCOUNT

datatype TransactionResultCode =
    txSUCCESS
  | txDUPLICATE
  | txFAILED
  | txBAD_LEDGER
  | txMISSING_OPERATION
  | txBAD_SEQ
  | txBAD_AUTH
  | txINSUFFICIENT_BALANCE
  | txNO_ACCOUNT
  | txINSUFFICIENT_FEE
  | txBAD_AUTH_EXTRA
  | txINTERNAL_ERROR

record TransactionResult =
  tr_feeCharged :: int64
  tr_code :: TransactionResultCode
  tr_results :: "OperationResult list"

end
