(* ===== verification/Offer_Exchange.thy ===== *)
theory Offer_Exchange
  imports Transaction_Types
begin

text \<open>
  \<open>src/transactions/OfferExchange.cpp\<close>: crossing one offer and converting a currency through the
  best offers. The buyer pays sheep and receives wheat; the offer of account B sells wheat for
  sheep. The state threaded is the store (database and delta) and the trail of claimed offers.
\<close>

subsection \<open>Definitions\<close>

datatype CrossOfferResult = eOfferPartial | eOfferTaken | eOfferCantConvert

datatype OfferFilterResult = eKeep | eStop

datatype ConvertResult = eOK | ePartial | eFilterStop

type_synonym Exchange = "Store \<times> ClaimOfferAtom list"

abbreviation max_on_overflow :: "bool \<times> int64 \<Rightarrow> int64" where
  "max_on_overflow r \<equiv> (if fst r then snd r else INT64_MAX)"

text \<open>The lines of account B: a missing one is an error, a native currency has none.\<close>

definition load_offer_line :: "AccountID \<Rightarrow> Currency \<Rightarrow> Database \<Rightarrow> TrustFrame res" where
  "load_offer_line a c db =
     (if c = NATIVE then Inr new_TrustFrame
      else rbind (loadTrustLine a c new_TrustFrame db) (\<lambda>(ok, l).
        if ok then Inr l
        else Inl (RuntimeError ''invalid database state: offer must have matching trust line'')))"

text \<open>
  The amounts of the exchange: the offer with its amount cut to what the seller can deliver, the
  wheat received, the sheep sent, and whether the offer was reduced for the buyer's sake.
\<close>

definition cross_amounts ::
    "LedgerHeader \<Rightarrow> OfferFrame \<Rightarrow> AccountFrame \<Rightarrow> TrustFrame \<Rightarrow> TrustFrame \<Rightarrow> int64 \<Rightarrow> int64
      \<Rightarrow> (OfferFrame \<times> int64 \<times> int64 \<times> bool) res" where
  "cross_amounts lm oe accountB wheatLine sheepLine maxWheatReceived maxSheepSend =
     (let n = price_n (oe_price oe); d = price_d (oe_price oe) in
      rbind (if oe_takerPays oe = NATIVE then Inr INT64_MAX
             else rbind (bigDivide_noThrow (getMaxAmountReceive sheepLine) d n)
               (\<lambda>r. Inr (max_on_overflow r))) (\<lambda>w0.
      rbind (if oe_takerGets oe = NATIVE then getBalanceAboveReserve lm accountB
             else trust_getBalance wheatLine) (\<lambda>wheatCanSell.
      let w1 = (if w0 > wheatCanSell then wheatCanSell else w0);
          w2 = (if w1 \<ge> oe_amount oe then oe_amount oe else w1);
          oe' = (if w1 \<ge> oe_amount oe then oe else oe\<lparr>oe_amount := w1\<rparr>);
          w3 = (if w2 > maxWheatReceived then maxWheatReceived else w2)
      in rbind (bigDivide_noThrow w3 n d) (\<lambda>r.
         let s0 = max_on_overflow r;
             s1 = (if s0 > maxSheepSend then maxSheepSend else s0)
         in rbind (bigDivide s1 d n) (\<lambda>w.
            Inr (oe', w, s1, w2 > maxWheatReceived \<or> s0 > maxSheepSend))))))"

text \<open>Writing an exchange back: the offer, then the balances of account B.\<close>

definition cross_offer_store ::
    "LedgerHeader \<Rightarrow> bool \<Rightarrow> OfferFrame \<Rightarrow> int64 \<Rightarrow> AccountFrame \<Rightarrow> Store \<Rightarrow> (AccountFrame \<times> OfferFrame \<times> Store) res" where
  "cross_offer_store lm offerTaken oe numWheat accountB s =
     (if offerTaken then
        rbind (offer_storeDelete (oe_accountID oe) (oe_offerID oe) (fst s) (snd s)) (\<lambda>s1.
        rbind (addNumEntries (- 1) lm accountB) (\<lambda>(_, accountB').
        rbind (account_storeChange accountB' (fst s1) (snd s1)) (\<lambda>s2.
        Inr (accountB', oe, s2))))
      else
        let oe' = oe\<lparr>oe_amount := wrap64 (oe_amount oe - numWheat)\<rparr>
        in rbind (offer_storeChange oe' (fst s) (snd s)) (\<lambda>s1. Inr (accountB, oe', s1)))"

text \<open>One balance of account B: the native one, or that of a line, where the change may be refused.\<close>

definition cross_balance ::
    "Currency \<Rightarrow> int64 \<Rightarrow> AccountFrame \<Rightarrow> TrustFrame \<Rightarrow> Store \<Rightarrow> (bool \<times> AccountFrame \<times> Store) res" where
  "cross_balance c amount accountB line s =
     (if c = NATIVE then
        let accountB' = upd_account (\<lambda>e. e\<lparr>ae_balance := wrap64 (ae_balance e + amount)\<rparr>) accountB
        in rbind (account_storeChange accountB' (fst s) (snd s)) (\<lambda>s'. Inr (True, accountB', s'))
      else
        let (ok, line') = addBalance amount line
        in if \<not> ok then Inr (False, accountB, s)
           else rbind (trust_storeChange line' (fst s) (snd s)) (\<lambda>s'. Inr (True, accountB, s')))"

text \<open>The exchange itself, once the amounts are known.\<close>

definition cross_execute ::
    "LedgerHeader \<Rightarrow> OfferFrame \<Rightarrow> AccountFrame \<Rightarrow> TrustFrame \<Rightarrow> TrustFrame \<Rightarrow> int64 \<Rightarrow> int64 \<Rightarrow> bool \<Rightarrow> Exchange
      \<Rightarrow> (CrossOfferResult \<times> int64 \<times> int64 \<times> Exchange) res" where
  "cross_execute lm oe accountB wheatLine sheepLine numWheat numSheep offerTaken ex =
     rbind (cross_offer_store lm offerTaken oe numWheat accountB (fst ex)) (\<lambda>(accountB1, oe2, s1).
     rbind (cross_balance (oe_takerPays oe) numSheep accountB1 sheepLine s1) (\<lambda>(ok1, accountB2, s2).
     if \<not> ok1 then Inr (eOfferCantConvert, numWheat, numSheep, (s2, snd ex))
     else
       rbind (cross_balance (oe_takerGets oe) (- numWheat) accountB2 wheatLine s2) (\<lambda>(ok2, accountB3, s3).
       if \<not> ok2 then Inr (eOfferCantConvert, numWheat, numSheep, (s3, snd ex))
       else
         Inr (if offerTaken then eOfferTaken else eOfferPartial, numWheat, numSheep,
           (s3, snd ex @ [\<lparr>ca_offerOwner = ae_accountID (mAccountEntry accountB3),
              ca_offerID = oe_offerID oe2, ca_currencyClaimed = oe_takerGets oe,
              ca_amountClaimed = numWheat\<rparr>])))))"

definition crossOffer ::
    "LedgerHeader \<Rightarrow> OfferFrame \<Rightarrow> int64 \<Rightarrow> int64 \<Rightarrow> Exchange
      \<Rightarrow> (CrossOfferResult \<times> int64 \<times> int64 \<times> Exchange) res" where
  "crossOffer lm oe maxWheatReceived maxSheepSend ex =
     (let db = fst (fst ex); (ok, accountB) = loadAccount (oe_accountID oe) new_AccountFrame db
      in if \<not> ok then Inl (RuntimeError ''invalid database state: offer must have matching account'')
      else
        rbind (load_offer_line (oe_accountID oe) (oe_takerGets oe) db) (\<lambda>wheatLine.
        rbind (load_offer_line (oe_accountID oe) (oe_takerPays oe) db) (\<lambda>sheepLine.
        rbind (cross_amounts lm oe accountB wheatLine sheepLine maxWheatReceived maxSheepSend)
          (\<lambda>(oe1, numWheat, numSheep, reducedOffer).
        if numWheat = 0 \<or> numSheep = 0 then
          if reducedOffer then Inr (eOfferCantConvert, numWheat, numSheep, ex)
          else cross_execute lm oe1 accountB wheatLine sheepLine 0 0 True ex
        else
          cross_execute lm oe1 accountB wheatLine sheepLine numWheat numSheep
            (oe_amount oe1 \<le> numWheat) ex))))"

text \<open>
  The state of a conversion: what was sent and received so far, what may still be, the offset into
  the list of offers, the exchange, and the offer at which the filter stopped it.
\<close>

record Conversion =
  cv_sheepSend :: int64
  cv_wheatReceived :: int64
  cv_maxSheepSend :: int64
  cv_maxWheatReceive :: int64
  cv_offerOffset :: int
  cv_exchange :: Exchange
  cv_stopped :: "OfferFrame option"

definition needMore :: "Conversion \<Rightarrow> bool" where
  "needMore c \<longleftrightarrow> cv_maxWheatReceive c > 0 \<and> cv_maxSheepSend c > 0"

text \<open>
  The inner loop over the offers loaded. Its result is the value the function returns with, or
  \<open>None\<close> where it runs to its end.
\<close>

fun convert_offers ::
    "LedgerHeader \<Rightarrow> (OfferFrame \<Rightarrow> OfferFilterResult) option \<Rightarrow> OfferFrame list \<Rightarrow> Conversion
      \<Rightarrow> (ConvertResult option \<times> Conversion) res" where
  "convert_offers lm filt [] c = Inr (None, c)"
| "convert_offers lm filt (wheatOffer # retList) c =
     (if (case filt of None \<Rightarrow> False | Some f \<Rightarrow> f wheatOffer = eStop) then
        Inr (Some eFilterStop, c\<lparr>cv_stopped := Some wheatOffer\<rparr>)
      else
        rbind (crossOffer lm wheatOffer (cv_maxWheatReceive c) (cv_maxSheepSend c) (cv_exchange c))
          (\<lambda>(cor, numWheat, numSheep, ex).
        if cor = eOfferCantConvert then Inr (Some ePartial, c\<lparr>cv_exchange := ex\<rparr>)
        else
          rbind (if cor = eOfferTaken then
                   rbind (rassert (cv_offerOffset c > 0)) (\<lambda>_. Inr (cv_offerOffset c - 1))
                 else Inr (cv_offerOffset c)) (\<lambda>off.
          let c' = c\<lparr>cv_sheepSend := wrap64 (cv_sheepSend c + numSheep),
                cv_maxSheepSend := wrap64 (cv_maxSheepSend c - numSheep),
                cv_wheatReceived := wrap64 (cv_wheatReceived c + numWheat),
                cv_maxWheatReceive := wrap64 (cv_maxWheatReceive c - numWheat),
                cv_offerOffset := off, cv_exchange := ex\<rparr>
          in if \<not> needMore c' then Inr (Some eOK, c')
             else if cor = eOfferPartial then Inr (Some ePartial, c')
             else convert_offers lm filt retList c')))"

text \<open>The outer loop, with fuel; \<open>None\<close> is out of fuel.\<close>

fun convert_loop ::
    "nat \<Rightarrow> LedgerHeader \<Rightarrow> Currency \<Rightarrow> Currency \<Rightarrow> (OfferFrame \<Rightarrow> OfferFilterResult) option \<Rightarrow> Conversion
      \<Rightarrow> (ConvertResult \<times> Conversion) res option" where
  "convert_loop 0 lm sheep wheat filt c = (if needMore c then None else Some (Inr (eOK, c)))"
| "convert_loop (Suc fuel) lm sheep wheat filt c =
     (if \<not> needMore c then Some (Inr (eOK, c))
      else
        let retList = loadBestOffers 5 (nat (cv_offerOffset c)) sheep wheat (fst (fst (cv_exchange c)))
        in case convert_offers lm filt retList
                  (c\<lparr>cv_offerOffset := cv_offerOffset c + int (length retList)\<rparr>) of
             Inl e \<Rightarrow> Some (Inl e)
           | Inr (Some r, c') \<Rightarrow> Some (Inr (r, c'))
           | Inr (None, c') \<Rightarrow>
               if needMore c' \<and> length retList < 5 then Some (Inr (eOK, c'))
               else convert_loop fuel lm sheep wheat filt c')"

definition start_conversion :: "int64 \<Rightarrow> int64 \<Rightarrow> Exchange \<Rightarrow> Conversion" where
  "start_conversion maxSheepSend maxWheatReceive ex =
     \<lparr>cv_sheepSend = 0, cv_wheatReceived = 0, cv_maxSheepSend = maxSheepSend,
      cv_maxWheatReceive = maxWheatReceive, cv_offerOffset = 0, cv_exchange = ex, cv_stopped = None\<rparr>"

text \<open>One round per stored offer, and one more, is always enough fuel.\<close>

definition convertWithOffers ::
    "LedgerHeader \<Rightarrow> Currency \<Rightarrow> int64 \<Rightarrow> Currency \<Rightarrow> int64 \<Rightarrow> (OfferFrame \<Rightarrow> OfferFilterResult) option
      \<Rightarrow> Exchange \<Rightarrow> (ConvertResult \<times> Conversion) res option" where
  "convertWithOffers lm sheep maxSheepSend wheat maxWheatReceive filt ex =
     convert_loop (Suc (length (db_Offers (fst (fst ex))))) lm sheep wheat filt
       (start_conversion maxSheepSend maxWheatReceive ex)"


subsection \<open>Termination\<close>

lemma account_storeChange_offers:
  "account_storeChange f db d = Inr (db', d') \<Longrightarrow> db_Offers db' = db_Offers db"
  by (auto simp: account_storeChange_def account_storeUpdate_def store_signers_def res_simps Let_def
      split: if_splits prod.splits)

lemma trust_storeChange_offers:
  "trust_storeChange t db d = Inr (db', d') \<Longrightarrow> db_Offers db' = db_Offers db"
  by (auto simp: trust_storeChange_def res_simps Let_def split: if_splits)

lemma cross_balance_offers:
  "cross_balance c x a l (db, d) = Inr (ok, a', (db', d')) \<Longrightarrow> db_Offers db' = db_Offers db"
  by (auto simp: cross_balance_def res_simps Let_def account_storeChange_offers trust_storeChange_offers
      split: if_splits prod.splits)

lemma cross_offer_store_taken:
  "cross_offer_store lm True oe w a (db, d) = Inr (a', oe', (db', d')) \<Longrightarrow>
   db_Offers db' = sql_delete (oe_offerID oe) (db_Offers db)"
  by (auto simp: cross_offer_store_def offer_storeDelete_def res_simps split: prod.splits
      dest!: account_storeChange_offers)

lemma cross_amounts_offerID:
  "cross_amounts lm oe a wl sl mw ms = Inr (oe', w, s, r) \<Longrightarrow> oe_offerID oe' = oe_offerID oe"
  by (auto simp: cross_amounts_def res_simps Let_def)

lemma cross_execute_success:
  assumes "cross_execute lm oe a wl sl w s taken (st, tr) = Inr (cor, w', s', (st', tr'))"
    and "cor \<noteq> eOfferCantConvert"
  shows "\<exists>a1 oe2 st1 a2 st2 a3. cross_offer_store lm taken oe w a st = Inr (a1, oe2, st1) \<and>
    cross_balance (oe_takerPays oe) s a1 sl st1 = Inr (True, a2, st2) \<and>
    cross_balance (oe_takerGets oe) (- w) a2 wl st2 = Inr (True, a3, st') \<and>
    cor = (if taken then eOfferTaken else eOfferPartial) \<and> w' = w \<and> s' = s"
  using assms unfolding cross_execute_def
  by (auto simp: rbind_eq_Inr split: prod.splits if_splits)

lemma crossOffer_success:
  assumes "crossOffer lm oe mw ms (st, tr) = Inr (cor, w, s, (st', tr'))" "cor \<noteq> eOfferCantConvert"
  shows "\<exists>a wl sl oe1 w0 s0 red taken. loadAccount (oe_accountID oe) new_AccountFrame (fst st) = (True, a) \<and>
    load_offer_line (oe_accountID oe) (oe_takerGets oe) (fst st) = Inr wl \<and>
    load_offer_line (oe_accountID oe) (oe_takerPays oe) (fst st) = Inr sl \<and>
    cross_amounts lm oe a wl sl mw ms = Inr (oe1, w0, s0, red) \<and>
    (if w0 = 0 \<or> s0 = 0 then w = 0 \<and> s = 0 \<and> taken \<and> \<not> red
     else w = w0 \<and> s = s0 \<and> (taken \<longleftrightarrow> oe_amount oe1 \<le> w0)) \<and>
    cross_execute lm oe1 a wl sl w s taken (st, tr) = Inr (cor, w, s, (st', tr'))"
proof -
  obtain ok a where la: "loadAccount (oe_accountID oe) new_AccountFrame (fst st) = (ok, a)" by fastforce
  with assms(1) have ok by (auto simp: crossOffer_def Let_def split: if_splits)
  with la assms(1) obtain wl sl oe1 w0 s0 red where
    lines: "load_offer_line (oe_accountID oe) (oe_takerGets oe) (fst st) = Inr wl"
      "load_offer_line (oe_accountID oe) (oe_takerPays oe) (fst st) = Inr sl"
      "cross_amounts lm oe a wl sl mw ms = Inr (oe1, w0, s0, red)"
    and rest: "(if w0 = 0 \<or> s0 = 0 then
        if red then Inr (eOfferCantConvert, w0, s0, (st, tr))
        else cross_execute lm oe1 a wl sl 0 0 True (st, tr)
      else cross_execute lm oe1 a wl sl w0 s0 (oe_amount oe1 \<le> w0) (st, tr)) =
        Inr (cor, w, s, (st', tr'))"
    by (auto simp: crossOffer_def Let_def rbind_eq_Inr)
  show ?thesis
  proof (cases "w0 = 0 \<or> s0 = 0")
    case True
    with rest assms(2) have "\<not> red" "cross_execute lm oe1 a wl sl 0 0 True (st, tr) = Inr (cor, w, s, (st', tr'))"
      by (auto split: if_splits)
    moreover from this(2) assms(2) have "w = 0" "s = 0" using cross_execute_success by blast+
    ultimately show ?thesis using la \<open>ok\<close> lines True by auto
  next
    case False
    with rest have ex: "cross_execute lm oe1 a wl sl w0 s0 (oe_amount oe1 \<le> w0) (st, tr) = Inr (cor, w, s, (st', tr'))"
      by simp
    with assms(2) have "w = w0" "s = s0" using cross_execute_success by blast+
    with ex la \<open>ok\<close> lines False show ?thesis by auto
  qed
qed

lemma crossOffer_taken:
  assumes "crossOffer lm oe mw ms ((db, d), tr) = Inr (eOfferTaken, w, s, ((db', d'), tr'))"
  shows "db_Offers db' = sql_delete (oe_offerID oe) (db_Offers db)"
proof -
  obtain a wl sl oe1 w0 s0 red taken where am: "cross_amounts lm oe a wl sl mw ms = Inr (oe1, w0, s0, red)"
    and ex: "cross_execute lm oe1 a wl sl w s taken ((db, d), tr) = Inr (eOfferTaken, w, s, ((db', d'), tr'))"
    using crossOffer_success [OF assms] by auto
  from cross_execute_success [OF ex] have taken by (auto split: if_splits)
  with cross_execute_success [OF ex] obtain a1 oe2 st1 a2 st2 a3 where
    "cross_offer_store lm True oe1 w a (db, d) = Inr (a1, oe2, st1)"
    "cross_balance (oe_takerPays oe1) s a1 sl st1 = Inr (True, a2, st2)"
    "cross_balance (oe_takerGets oe1) (- w) a2 wl st2 = Inr (True, a3, (db', d'))" by auto
  then show ?thesis
    using cross_amounts_offerID [OF am] cross_offer_store_taken cross_balance_offers
    by (metis prod.collapse)
qed

text \<open>A round that runs to its end has deleted every offer it was given.\<close>

lemma convert_offers_end:
  assumes "convert_offers lm filt os c = Inr (None, c')"
  shows "db_Offers (fst (fst (cv_exchange c'))) =
    fold sql_delete (map oe_offerID os) (db_Offers (fst (fst (cv_exchange c))))"
  using assms
proof (induction os arbitrary: c)
  case (Cons oe os)
  obtain cor w s ex where cross: "crossOffer lm oe (cv_maxWheatReceive c) (cv_maxSheepSend c) (cv_exchange c) =
      Inr (cor, w, s, ex)"
    using Cons.prems by (auto simp: rbind_eq_Inr split: if_splits)
  with Cons.prems have "cor = eOfferTaken"
    by (cases cor) (auto simp: rbind_eq_Inr Let_def split: if_splits)
  with cross Cons.prems obtain c1 where rest: "convert_offers lm filt os c1 = Inr (None, c')" "cv_exchange c1 = ex"
    by (auto simp: rbind_eq_Inr Let_def split: if_splits)
  have "db_Offers (fst (fst ex)) = sql_delete (oe_offerID oe) (db_Offers (fst (fst (cv_exchange c))))"
    using cross \<open>cor = eOfferTaken\<close> crossOffer_taken by (metis prod.collapse)
  with Cons.IH [OF rest(1)] rest(2) show ?case by simp
qed simp

lemma length_sql_delete: "length (sql_delete k t) \<le> length t"
  by (simp add: sql_delete_def length_delete_le)

lemma length_fold_sql_delete: "length (fold sql_delete ks t) \<le> length t"
  by (induction ks arbitrary: t) (auto intro: order_trans [OF _ length_sql_delete])

lemma sql_delete_less: "k \<in> fst ` set t \<Longrightarrow> length (sql_delete k t) < length t"
  unfolding sql_delete_def AList.delete_eq by (elim imageE) (rule length_filter_less, auto)

lemma loadOffers_loop_ids: "map oe_offerID (loadOffers_loop rows oe) = map fst rows"
  by (induction rows oe rule: loadOffers_loop.induct) (simp_all add: Let_def)

lemma loadBestOffers_ids:
  "oe \<in> set (loadBestOffers n off pays gets db) \<Longrightarrow> oe_offerID oe \<in> fst ` set (db_Offers db)"
proof -
  assume "oe \<in> set (loadBestOffers n off pays gets db)"
  then have "oe_offerID oe \<in> set (map oe_offerID (loadBestOffers n off pays gets db))" by simp
  then show ?thesis
    unfolding loadBestOffers_def loadOffers_loop_ids
    by (auto simp: best_rows_def dest!: in_set_takeD in_set_dropD)
qed

lemma convert_loop_terminates:
  "length (db_Offers (fst (fst (cv_exchange c)))) < fuel \<Longrightarrow>
   \<exists>r. convert_loop fuel lm sheep wheat filt c = Some r"
proof (induction fuel arbitrary: c)
  case (Suc fuel)
  let ?db = "fst (fst (cv_exchange c))"
  let ?l = "loadBestOffers 5 (nat (cv_offerOffset c)) sheep wheat ?db"
  let ?c = "c\<lparr>cv_offerOffset := cv_offerOffset c + int (length ?l)\<rparr>"
  show ?case
  proof (cases "convert_offers lm filt ?l ?c")
    case (Inl e)
    then show ?thesis by (simp add: Let_def)
  next
    case (Inr rc)
    obtain r c' where rc: "rc = (r, c')" by fastforce
    show ?thesis
    proof (cases r)
      case None
      have shrink: "length (db_Offers (fst (fst (cv_exchange c')))) < length (db_Offers ?db)" if five: "\<not> length ?l < 5"
      proof -
        obtain oe os where l: "?l = oe # os" using five by (cases ?l) auto
        have "length (fold sql_delete (map oe_offerID os) (sql_delete (oe_offerID oe) (db_Offers ?db))) <
            length (db_Offers ?db)"
          using sql_delete_less [OF loadBestOffers_ids [of oe 5 "nat (cv_offerOffset c)" sheep wheat ?db]] l
          by (intro le_less_trans [OF length_fold_sql_delete]) simp
        then show ?thesis
          using convert_offers_end [of lm filt ?l ?c c'] Inr rc None l by simp
      qed
      then show ?thesis
        using Inr rc None Suc.IH [of c'] Suc.prems
        by (cases "needMore c"; cases "needMore c' \<and> length ?l < 5"; cases "length ?l < 5"; cases fuel)
          (auto simp: Let_def)
    next
      case (Some x)
      with Inr rc show ?thesis by (simp add: Let_def)
    qed
  qed
qed simp


subsection \<open>The amounts of an exchange\<close>

definition price_ok :: "Price \<Rightarrow> bool" where
  "price_ok p \<longleftrightarrow> 0 < price_n p \<and> price_n p < 2 ^ 31 \<and> 0 < price_d p \<and> price_d p < 2 ^ 31"

abbreviation amount_ok :: "int64 \<Rightarrow> bool" where
  "amount_ok x \<equiv> 0 \<le> x \<and> x \<le> INT64_MAX"

lemma price_bounds:
  "price_ok p \<Longrightarrow> 0 \<le> price_n p \<and> price_n p \<le> INT64_MAX \<and> 0 \<le> price_d p \<and> price_d p \<le> INT64_MAX"
  by (auto simp: price_ok_def INT64_MAX_def)

text \<open>A division that saturates at the largest amount.\<close>

lemma saturating_divide:
  assumes "amount_ok A" "amount_ok B" "0 < C" "C \<le> INT64_MAX"
  shows "\<exists>r. bigDivide_noThrow A B C = Inr r \<and> max_on_overflow r = min (A * B div C) INT64_MAX"
proof (cases "A * B div C \<le> INT64_MAX")
  case True
  then show ?thesis using bigDivide_noThrow_valid [of A B C] assms by auto
next
  case False
  then obtain r where "bigDivide_noThrow A B C = Inr (False, r)"
    using bigDivide_noThrow_overflow [of A B C] assms by auto
  with False show ?thesis by auto
qed

lemma div_mult_le_self:
  fixes x n d :: int
  assumes "0 < n" "0 < d" "s \<le> x * n div d"
  shows "s * d div n \<le> x"
proof -
  have "s * d \<le> (x * n div d) * d" using assms by (simp add: mult_right_mono)
  also have "\<dots> \<le> x * n" using assms(2) by (simp add: minus_mod_eq_div_mult [symmetric])
  finally have "s * d div n \<le> x * n div n" using assms(1) by (rule zdiv_mono1)
  then show ?thesis using assms(1) by simp
qed

lemma cross_amounts_ok:
  fixes oe :: OfferFrame
  defines "n \<equiv> price_n (oe_price oe)" and "d \<equiv> price_d (oe_price oe)"
  assumes p: "price_ok (oe_price oe)" and am: "amount_ok (oe_amount oe)" "amount_ok mw" "amount_ok ms"
    and sell: "(if oe_takerGets oe = NATIVE then getBalanceAboveReserve lm a else trust_getBalance wl) = Inr cs"
      "amount_ok cs"
    and recv: "oe_takerPays oe \<noteq> NATIVE \<Longrightarrow> amount_ok (getMaxAmountReceive sl)"
  shows "\<exists>oe' w s red. cross_amounts lm oe a wl sl mw ms = Inr (oe', w, s, red) \<and>
    oe' = oe\<lparr>oe_amount := oe_amount oe'\<rparr> \<and> amount_ok (oe_amount oe') \<and> oe_amount oe' \<le> oe_amount oe \<and>
    oe_amount oe' \<le> cs \<and> 0 \<le> w \<and> w \<le> mw \<and> w \<le> oe_amount oe' \<and> 0 \<le> s \<and> s \<le> ms \<and>
    w = s * d div n \<and> (oe_takerPays oe \<noteq> NATIVE \<longrightarrow> s \<le> getMaxAmountReceive sl)"
proof -
  have nd: "0 < n" "0 < d" "n \<le> INT64_MAX" "d \<le> INT64_MAX"
    using p by (auto simp: n_def d_def price_ok_def INT64_MAX_def)
  define w0 where "w0 = (if oe_takerPays oe = NATIVE then INT64_MAX
    else min (getMaxAmountReceive sl * d div n) INT64_MAX)"
  have w0: "(if oe_takerPays oe = NATIVE then Inr INT64_MAX
      else rbind (bigDivide_noThrow (getMaxAmountReceive sl) d n) (\<lambda>r. Inr (max_on_overflow r))) = Inr w0"
    and w0_ok: "amount_ok w0"
    using saturating_divide [of "getMaxAmountReceive sl" d n] recv nd
    by (auto simp: w0_def INT64_MAX_def pos_imp_zdiv_nonneg_iff)
  define w1 where "w1 = (if w0 > cs then cs else w0)"
  define oe' where "oe' = (if w1 \<ge> oe_amount oe then oe else oe\<lparr>oe_amount := w1\<rparr>)"
  define w2 where "w2 = (if w1 \<ge> oe_amount oe then oe_amount oe else w1)"
  define w3 where "w3 = (if w2 > mw then mw else w2)"
  have w2: "amount_ok w2" "w2 \<le> cs" "w2 \<le> w0" "w2 \<le> oe_amount oe" "oe_amount oe' = w2"
    using am(1) sell(2) w0_ok by (auto simp: w2_def w1_def oe'_def)
  have w3: "amount_ok w3" "w3 \<le> mw" "w3 \<le> w2" using w2(1) am(2) by (auto simp: w3_def)
  obtain r where r: "bigDivide_noThrow w3 n d = Inr r" "max_on_overflow r = min (w3 * n div d) INT64_MAX"
    using saturating_divide [of w3 n d] w3(1) nd by auto
  define s1 where "s1 = (if max_on_overflow r > ms then ms else max_on_overflow r)"
  have "0 \<le> w3 * n div d" using w3(1) nd by (simp add: pos_imp_zdiv_nonneg_iff)
  then have s1: "0 \<le> s1" "s1 \<le> ms" "s1 \<le> w3 * n div d" "s1 \<le> INT64_MAX"
    using am(3) r(2) by (auto simp: s1_def INT64_MAX_def)
  have w: "s1 * d div n \<le> w3" using div_mult_le_self [OF nd(1,2) s1(3)] .
  have "bigDivide_noThrow s1 d n = Inr (True, s1 * d div n)"
    using s1 nd w w3(1) by (intro bigDivide_noThrow_valid) auto
  then have big: "bigDivide s1 d n = Inr (s1 * d div n)" by (simp add: bigDivide_def)
  have "cross_amounts lm oe a wl sl mw ms = Inr (oe', s1 * d div n, s1, w2 > mw \<or> max_on_overflow r > ms)"
    unfolding cross_amounts_def Let_def n_def [symmetric] d_def [symmetric] w0 sell(1) rbind_simps
      w1_def [symmetric] w2_def [symmetric] w3_def [symmetric] oe'_def [symmetric] r(1)
      s1_def [symmetric] big ..
  moreover have "s1 \<le> getMaxAmountReceive sl" if "oe_takerPays oe \<noteq> NATIVE"
  proof -
    have "w3 \<le> getMaxAmountReceive sl * d div n" using that w2(3) w3(3) by (simp add: w0_def)
    from div_mult_le_self [OF nd(2,1) this] s1(3) show ?thesis by simp
  qed
  moreover have "0 \<le> s1 * d div n" using s1(1) nd by (simp add: pos_imp_zdiv_nonneg_iff)
  moreover have "oe' = oe\<lparr>oe_amount := oe_amount oe'\<rparr>" by (simp add: oe'_def)
  ultimately show ?thesis using w w2 w3 s1 by auto
qed


subsection \<open>Bounds of a conversion\<close>

text \<open>
  The columns hold values of their types: what the 64-bit and 32-bit columns can hold at most.
\<close>

definition line_range :: "TrustFrame \<Rightarrow> bool" where
  "line_range t \<longleftrightarrow> tl_balance (mTrustLine t) \<le> INT64_MAX"

definition offer_range :: "OfferFrame \<Rightarrow> bool" where
  "offer_range oe \<longleftrightarrow> oe_amount oe \<le> INT64_MAX \<and> price_n (oe_price oe) < 2 ^ 31 \<and>
     price_d (oe_price oe) < 2 ^ 31"

definition db_range :: "Database \<Rightarrow> bool" where
  "db_range db \<longleftrightarrow> (\<forall>k r. map_of (db_TrustLines db) k = Some r \<longrightarrow> tr_balance r \<le> INT64_MAX) \<and>
     (\<forall>(i, r) \<in> set (db_Offers db). or_amount r \<le> INT64_MAX \<and> or_priceN r < 2 ^ 31 \<and> or_priceD r < 2 ^ 31)"

lemma cross_amounts_bounds:
  assumes "cross_amounts lm oe a wl sl mw ms = Inr (oe', w, s, red)"
    and "offer_range oe" "line_range wl" "amount_ok mw" "amount_ok ms"
  shows "oe' = oe\<lparr>oe_amount := oe_amount oe'\<rparr> \<and> amount_ok (oe_amount oe') \<and> 0 \<le> w \<and> w \<le> mw \<and> w \<le> oe_amount oe' \<and>
    0 \<le> s \<and> s \<le> ms \<and> price_ok (oe_price oe) \<and> w = s * price_d (oe_price oe) div price_n (oe_price oe)"
proof -
  let ?n = "price_n (oe_price oe)" and ?d = "price_d (oe_price oe)"
  have div: "0 \<le> A \<and> 0 \<le> B \<and> 0 < C" if "bigDivide_noThrow A B C = Inr r" for A B C r
    using that by (auto simp: bigDivide_noThrow_def rbind_eq_Inr)
  obtain w0 cs where w0: "(if oe_takerPays oe = NATIVE then Inr INT64_MAX
        else rbind (bigDivide_noThrow (getMaxAmountReceive sl) ?d ?n) (\<lambda>r. Inr (max_on_overflow r))) = Inr w0"
    and cs: "(if oe_takerGets oe = NATIVE then getBalanceAboveReserve lm a else trust_getBalance wl) = Inr cs"
    using assms(1) unfolding cross_amounts_def Let_def rbind_eq_Inr by blast
  define w3 where "w3 = (let w1 = (if w0 > cs then cs else w0); w2 = (if w1 \<ge> oe_amount oe then oe_amount oe else w1)
       in if w2 > mw then mw else w2)"
  obtain r0 where w3: "bigDivide_noThrow w3 ?n ?d = Inr r0" "bigDivide s ?d ?n = Inr w"
    using assms(1) unfolding cross_amounts_def w0 cs rbind_simps Let_def w3_def [unfolded Let_def, symmetric] rbind_eq_Inr
    by blast
  have pos: "0 < ?n" "0 < ?d" "0 \<le> w3"
    using div [OF w3(1)] w3(2) div [of s ?d ?n] by (auto simp: bigDivide_def rbind_eq_Inr)
  then have p: "price_ok (oe_price oe)" using assms(2) by (simp add: price_ok_def offer_range_def)
  have cs_ok: "amount_ok cs"
    using cs assms(3) wrap64_range
    by (auto simp: getBalanceAboveReserve_def Let_def trust_getBalance_def rbind_eq_Inr trust_isValid_def
        line_range_def split: if_splits)
  have recv: "amount_ok (getMaxAmountReceive sl)" if "oe_takerPays oe \<noteq> NATIVE"
  proof -
    have "getMaxAmountReceive sl \<le> INT64_MAX"
      using wrap64_range by (auto simp: getMaxAmountReceive_def INT64_MAX_def)
    moreover have "0 \<le> getMaxAmountReceive sl" using w0 that div by (auto simp: rbind_eq_Inr)
    ultimately show ?thesis by simp
  qed
  have "0 \<le> w0"
    using w0 saturating_divide [of "getMaxAmountReceive sl" ?d ?n] recv price_bounds [OF p] pos(1,2)
    by (auto simp: INT64_MAX_def rbind_eq_Inr pos_imp_zdiv_nonneg_iff split: if_splits)
  then have "amount_ok (oe_amount oe)"
    using pos(3) cs_ok assms(2,4) by (auto simp: w3_def Let_def offer_range_def split: if_splits)
  from cross_amounts_ok [OF p this assms(4,5) cs cs_ok recv] assms(1) p show ?thesis by auto
qed


lemma set_alist_update: "set (AList.update k v t) \<subseteq> insert (k, v) (set t)"
  by (induction t) auto

lemma account_storeChange_tables:
  "account_storeChange f db d = Inr (db', d') \<Longrightarrow>
   db_Offers db' = db_Offers db \<and> db_TrustLines db' = db_TrustLines db"
  by (auto simp: account_storeChange_def account_storeUpdate_def store_signers_def res_simps Let_def
      split: if_splits prod.splits)

lemma account_storeChange_range:
  "account_storeChange f db d = Inr (db', d') \<Longrightarrow> db_range db \<Longrightarrow> db_range db'"
  using account_storeChange_tables [of f db d db' d'] by (simp add: db_range_def)

lemma trust_storeChange_range:
  "trust_storeChange t db d = Inr (db', d') \<Longrightarrow> db_range db \<Longrightarrow> line_range t \<Longrightarrow> db_range db'"
  by (auto simp: trust_storeChange_def res_simps Let_def db_range_def line_range_def sql_update_Inr
      update_conv' split: if_splits)

lemma addBalance_range: "addBalance x t = (ok, t') \<Longrightarrow> line_range t \<Longrightarrow> line_range t'"
  using wrap64_range by (auto simp: addBalance_def Let_def line_range_def split: if_splits)

lemma cross_balance_range:
  "cross_balance c x a l (db, d) = Inr (ok, a', (db', d')) \<Longrightarrow> db_range db \<Longrightarrow> line_range l \<Longrightarrow> db_range db'"
  by (auto simp: cross_balance_def Let_def res_simps split: if_splits prod.splits
      intro: account_storeChange_range trust_storeChange_range addBalance_range)

lemma offer_storeChange_range:
  assumes "offer_storeChange oe db d = Inr (db', d')" "db_range db" "offer_range oe"
  shows "db_range db'"
proof -
  obtain p r where t: "db' = db\<lparr>db_Offers := AList.update (oe_offerID oe) (r\<lparr>or_amount := oe_amount oe,
      or_priceN := price_n (oe_price oe), or_priceD := price_d (oe_price oe), or_price := p\<rparr>) (db_Offers db)\<rparr>"
    using assms(1) by (auto simp: offer_storeChange_def res_simps sql_update_Inr)
  then show ?thesis
    using assms(2,3) set_alist_update [of "oe_offerID oe" "r\<lparr>or_amount := oe_amount oe,
      or_priceN := price_n (oe_price oe), or_priceD := price_d (oe_price oe), or_price := p\<rparr>" "db_Offers db"]
    by (auto simp: db_range_def offer_range_def)
qed

lemma cross_offer_store_range:
  assumes "cross_offer_store lm taken oe w a (db, d) = Inr (a', oe', (db', d'))" "db_range db" "offer_range oe"
  shows "db_range db'"
proof (cases taken)
  case True
  then obtain d1 a1 where "account_storeChange a1 (db\<lparr>db_Offers := sql_delete (oe_offerID oe) (db_Offers db)\<rparr>) d1 =
      Inr (db', d')"
    using assms(1) by (auto simp: cross_offer_store_def offer_storeDelete_def res_simps split: prod.splits)
  moreover have "db_range (db\<lparr>db_Offers := sql_delete (oe_offerID oe) (db_Offers db)\<rparr>)"
    using assms(2) by (auto simp: db_range_def sql_delete_def AList.delete_eq)
  ultimately show ?thesis by (rule account_storeChange_range)
next
  case False
  then obtain d1 where "offer_storeChange (oe\<lparr>oe_amount := wrap64 (oe_amount oe - w)\<rparr>) db d = Inr (db', d1)"
    using assms(1) by (auto simp: cross_offer_store_def res_simps Let_def)
  then show ?thesis
    using assms(2) by (rule offer_storeChange_range) (use assms(3) wrap64_range in \<open>simp add: offer_range_def\<close>)
qed

lemma load_offer_line_range:
  assumes "db_range db" "load_offer_line a c db = Inr l"
  shows "line_range l"
proof (cases c)
  case NATIVE
  with assms(2) show ?thesis by (auto simp: load_offer_line_def line_range_def new_TrustFrame_def empty_trust_def INT64_MAX_def)
next
  case (ISO4217 code iss)
  then show ?thesis
    using assms
    by (auto simp: load_offer_line_def loadTrustLine_def isoCI_def setAsIssuer_def line_range_def db_range_def
        Let_def res_simps split: if_splits option.splits)
qed

text \<open>One exchange: within both limits, at the price or better for the seller.\<close>

lemma crossOffer_bounds:
  assumes "crossOffer lm oe mw ms ((db, d), tr) = Inr (cor, w, s, ((db', d'), tr'))" "cor \<noteq> eOfferCantConvert"
    and "db_range db" "offer_range oe" "amount_ok mw" "amount_ok ms"
  shows "0 \<le> w \<and> w \<le> mw \<and> 0 \<le> s \<and> s \<le> ms \<and>
    w * price_n (oe_price oe) \<le> s * price_d (oe_price oe) \<and> db_range db'"
proof -
  obtain a wl sl oe1 w0 s0 red taken where
    lines: "load_offer_line (oe_accountID oe) (oe_takerGets oe) db = Inr wl"
      "load_offer_line (oe_accountID oe) (oe_takerPays oe) db = Inr sl"
    and am: "cross_amounts lm oe a wl sl mw ms = Inr (oe1, w0, s0, red)"
    and ws: "if w0 = 0 \<or> s0 = 0 then w = 0 \<and> s = 0 \<and> taken \<and> \<not> red
       else w = w0 \<and> s = s0 \<and> (taken \<longleftrightarrow> oe_amount oe1 \<le> w0)"
    and ex: "cross_execute lm oe1 a wl sl w s taken ((db, d), tr) = Inr (cor, w, s, ((db', d'), tr'))"
    using crossOffer_success [OF assms(1,2)] by auto
  note lr = load_offer_line_range [OF assms(3) lines(1)] load_offer_line_range [OF assms(3) lines(2)]
  note b = cross_amounts_bounds [OF am assms(4) lr(1) assms(5,6)]
  have "w0 * price_n (oe_price oe) \<le> s0 * price_d (oe_price oe)"
    using b by (simp add: price_ok_def minus_mod_eq_div_mult [symmetric])
  moreover have "offer_range oe1"
  proof -
    have "oe_price oe1 = oe_price oe" using b by (metis OfferEntry.surjective OfferEntry.update_convs(5) OfferEntry.ext_inject)
    then show ?thesis using b assms(4) by (simp add: offer_range_def)
  qed
  moreover obtain a1 oe2 db1 d1 a2 db2 d2 a3 where
    "cross_offer_store lm taken oe1 w a (db, d) = Inr (a1, oe2, (db1, d1))"
    "cross_balance (oe_takerPays oe1) s a1 sl (db1, d1) = Inr (True, a2, (db2, d2))"
    "cross_balance (oe_takerGets oe1) (- w) a2 wl (db2, d2) = Inr (True, a3, (db', d'))"
    using cross_execute_success [OF ex assms(2)] by auto
  ultimately have "db_range db'" "w0 * price_n (oe_price oe) \<le> s0 * price_d (oe_price oe)"
    using assms(3) lr by (blast intro: cross_offer_store_range cross_balance_range)+
  then show ?thesis using b ws assms(5,6) by (auto split: if_splits)
qed


lemma loadOffers_loop_range:
  assumes "\<forall>(i, r) \<in> set rows. or_amount r \<le> INT64_MAX \<and> or_priceN r < 2 ^ 31 \<and> or_priceD r < 2 ^ 31"
  shows "\<forall>oe \<in> set (loadOffers_loop rows oe0). offer_range oe"
  using assms by (induction rows oe0 rule: loadOffers_loop.induct) (auto simp: offer_range_def Let_def)

lemma loadBestOffers_range: "db_range db \<Longrightarrow> \<forall>oe \<in> set (loadBestOffers n off pays gets db). offer_range oe"
  unfolding loadBestOffers_def
  by (rule loadOffers_loop_range) (auto simp: db_range_def best_rows_def dest!: in_set_takeD in_set_dropD)

text \<open>The books of a conversion: what was sent and what may still be sent add up to the limit.\<close>

definition books :: "int64 \<Rightarrow> int64 \<Rightarrow> Conversion \<Rightarrow> bool" where
  "books S W c \<longleftrightarrow> 0 \<le> cv_sheepSend c \<and> 0 \<le> cv_maxSheepSend c \<and> cv_sheepSend c + cv_maxSheepSend c = S \<and>
     0 \<le> cv_wheatReceived c \<and> 0 \<le> cv_maxWheatReceive c \<and> cv_wheatReceived c + cv_maxWheatReceive c = W \<and>
     db_range (fst (fst (cv_exchange c)))"

lemma convert_offers_books:
  assumes "convert_offers lm filt os c = Inr (r, c')" "books S W c" "amount_ok S" "amount_ok W"
    and "\<forall>oe \<in> set os. offer_range oe"
  shows "0 \<le> cv_sheepSend c' \<and> cv_sheepSend c' \<le> S \<and> 0 \<le> cv_wheatReceived c' \<and> cv_wheatReceived c' \<le> W \<and>
    (r = None \<longrightarrow> books S W c')"
  using assms
proof (induction os arbitrary: c)
  case Nil
  then show ?case by (auto simp: books_def)
next
  case (Cons oe os)
  have lim: "amount_ok (cv_maxWheatReceive c)" "amount_ok (cv_maxSheepSend c)"
    and rng: "db_range (fst (fst (cv_exchange c)))"
    using Cons.prems(2-4) by (auto simp: books_def)
  show ?case
  proof (cases "case filt of None \<Rightarrow> False | Some f \<Rightarrow> f oe = eStop")
    case True
    with Cons.prems show ?thesis by (auto simp: books_def)
  next
    case False
    with Cons.prems(1) obtain cor w s ex where cross:
      "crossOffer lm oe (cv_maxWheatReceive c) (cv_maxSheepSend c) (cv_exchange c) = Inr (cor, w, s, ex)"
      by (auto simp: rbind_eq_Inr)
    show ?thesis
    proof (cases "cor = eOfferCantConvert")
      case True
      with False cross Cons.prems show ?thesis by (auto simp: books_def)
    next
      case ok: False
      have b: "0 \<le> w \<and> w \<le> cv_maxWheatReceive c \<and> 0 \<le> s \<and> s \<le> cv_maxSheepSend c \<and> db_range (fst (fst ex))"
        using crossOffer_bounds [of lm oe "cv_maxWheatReceive c" "cv_maxSheepSend c" "fst (fst (cv_exchange c))"
            "snd (fst (cv_exchange c))" "snd (cv_exchange c)" cor w s "fst (fst ex)" "snd (fst ex)" "snd ex"]
          cross ok lim rng Cons.prems(5) by auto
      obtain off where off: "(if cor = eOfferTaken then
           rbind (rassert (cv_offerOffset c > 0)) (\<lambda>_. Inr (cv_offerOffset c - 1))
         else Inr (cv_offerOffset c)) = Inr off"
        using False cross ok Cons.prems(1) by (cases cor) (auto simp: rbind_eq_Inr split: if_splits)
      define c1 where "c1 = c\<lparr>cv_sheepSend := wrap64 (cv_sheepSend c + s),
                cv_maxSheepSend := wrap64 (cv_maxSheepSend c - s),
                cv_wheatReceived := wrap64 (cv_wheatReceived c + w),
                cv_maxWheatReceive := wrap64 (cv_maxWheatReceive c - w),
                cv_offerOffset := off, cv_exchange := ex\<rparr>"
      have c1: "books S W c1"
        using b Cons.prems(2-4) by (auto simp: c1_def books_def INT64_MIN_def INT64_MAX_def)
      have step: "(if \<not> needMore c1 then Inr (Some eOK, c1)
             else if cor = eOfferPartial then Inr (Some ePartial, c1)
             else convert_offers lm filt os c1) = Inr (r, c')"
        unfolding c1_def using Cons.prems(1) False cross ok off by (simp add: Let_def split del: if_split)
      show ?thesis
      proof (cases "needMore c1 \<and> cor \<noteq> eOfferPartial")
        case True
        with step Cons.IH [of c1] c1 Cons.prems show ?thesis by simp
      next
        case False
        with step c1 show ?thesis by (auto simp: books_def split: if_splits)
      qed
    qed
  qed
qed

lemma convert_loop_books:
  assumes "convert_loop fuel lm sheep wheat filt c = Some (Inr (r, c'))" "books S W c" "amount_ok S" "amount_ok W"
  shows "0 \<le> cv_sheepSend c' \<and> cv_sheepSend c' \<le> S \<and> 0 \<le> cv_wheatReceived c' \<and> cv_wheatReceived c' \<le> W"
  using assms
proof (induction fuel arbitrary: c)
  case 0
  then show ?case by (auto simp: books_def split: if_splits)
next
  case (Suc fuel)
  let ?l = "loadBestOffers 5 (nat (cv_offerOffset c)) sheep wheat (fst (fst (cv_exchange c)))"
  let ?c = "c\<lparr>cv_offerOffset := cv_offerOffset c + int (length ?l)\<rparr>"
  have b: "books S W ?c" and rng: "\<forall>oe \<in> set ?l. offer_range oe"
    using Suc.prems(2) loadBestOffers_range by (auto simp: books_def)
  show ?case
  proof (cases "needMore c")
    case False
    with Suc.prems show ?thesis by (auto simp: books_def)
  next
    case True
    with Suc.prems(1) obtain q c1 where conv: "convert_offers lm filt ?l ?c = Inr (q, c1)"
      by (auto simp: Let_def split: sum.splits)
    note c1 = convert_offers_books [OF conv b Suc.prems(3,4) rng]
    show ?thesis
    proof (cases q)
      case None
      then show ?thesis
        using True Suc.prems c1 conv Suc.IH [of c1] by (auto simp: Let_def split: if_splits)
    next
      case (Some x)
      then show ?thesis using True Suc.prems(1) c1 conv by (auto simp: Let_def)
    qed
  qed
qed


subsection \<open>Properties\<close>

text \<open>
  C14: the amounts of an exchange. For an offer with a proper price the computation always succeeds
  (the last division cannot overflow, as the code claims); the buyer receives no more wheat than
  allowed, than offered and than the seller has, sends no more sheep than allowed and than the
  seller can receive; and the wheat is exactly the sheep at the offer's price rounded down, so that
  rounding always favours the seller and by less than one unit.
\<close>

theorem exchange_amounts:
  assumes "price_ok (oe_price oe)" "amount_ok (oe_amount oe)" "amount_ok mw" "amount_ok ms"
    and "(if oe_takerGets oe = NATIVE then getBalanceAboveReserve lm a else trust_getBalance wl) = Inr cs"
    and "amount_ok cs" "amount_ok (getMaxAmountReceive sl)"
  shows "\<exists>oe' w s red. cross_amounts lm oe a wl sl mw ms = Inr (oe', w, s, red) \<and>
    0 \<le> w \<and> w \<le> mw \<and> w \<le> oe_amount oe \<and> w \<le> cs \<and> 0 \<le> s \<and> s \<le> ms \<and>
    (oe_takerPays oe \<noteq> NATIVE \<longrightarrow> s \<le> getMaxAmountReceive sl) \<and>
    w * price_n (oe_price oe) \<le> s * price_d (oe_price oe) \<and>
    s * price_d (oe_price oe) < (w + 1) * price_n (oe_price oe)"
proof -
  obtain oe' w s red where c: "cross_amounts lm oe a wl sl mw ms = Inr (oe', w, s, red)"
    and b: "oe_amount oe' \<le> oe_amount oe" "oe_amount oe' \<le> cs" "0 \<le> w" "w \<le> mw" "w \<le> oe_amount oe'"
      "0 \<le> s" "s \<le> ms" "oe_takerPays oe \<noteq> NATIVE \<longrightarrow> s \<le> getMaxAmountReceive sl"
    and w: "w = s * price_d (oe_price oe) div price_n (oe_price oe)"
    using cross_amounts_ok [OF assms(1-6)] assms(7) by blast
  have n: "0 < price_n (oe_price oe)" using assms(1) by (simp add: price_ok_def)
  have "w * price_n (oe_price oe) \<le> s * price_d (oe_price oe)"
    using n by (simp add: w minus_mod_eq_div_mult [symmetric])
  moreover have "s * price_d (oe_price oe) < (w + 1) * price_n (oe_price oe)"
    using n pos_mod_bound [of "price_n (oe_price oe)" "s * price_d (oe_price oe)"]
    by (simp add: w distrib_right minus_mod_eq_div_mult [symmetric])
  ultimately show ?thesis
    using c b by (intro exI [of _ oe'] exI [of _ w] exI [of _ s] exI [of _ red]) auto
qed

definition sample_usd :: Currency where
  "sample_usd = ISO4217 (85, 83, 68, 0) 2"

definition sample_idr :: Currency where
  "sample_idr = ISO4217 (73, 68, 82, 0) 2"

definition sample_offer :: OfferEntry where
  "sample_offer = \<lparr>oe_accountID = 3, oe_offerID = 8, oe_takerGets = sample_usd, oe_takerPays = sample_idr,
     oe_amount = 100, oe_price = \<lparr>price_n = 3, price_d = 2\<rparr>\<rparr>"

definition sample_wheat_line :: TrustFrame where
  "sample_wheat_line = TrustFrame_of_entry \<lparr>tl_accountID = 3, tl_currency = sample_usd, tl_balance = 60,
     tl_limit = 1000, tl_authorized = True\<rparr>"

definition sample_sheep_line :: TrustFrame where
  "sample_sheep_line = TrustFrame_of_entry \<lparr>tl_accountID = 3, tl_currency = sample_idr, tl_balance = 0,
     tl_limit = 1000, tl_authorized = True\<rparr>"

lemmas sample_exchange_defs = sample_offer_def sample_usd_def sample_idr_def sample_wheat_line_def
  sample_sheep_line_def TrustFrame_of_entry_def

theorem exchange_amounts_witness:
  "\<exists>oe' w s red. cross_amounts sample_header sample_offer new_AccountFrame sample_wheat_line
     sample_sheep_line 50 70 = Inr (oe', w, s, red) \<and> w \<le> 50 \<and> s \<le> 70 \<and> w * 3 \<le> s * 2 \<and> s * 2 < (w + 1) * 3"
  using exchange_amounts [of sample_offer 50 70 sample_header new_AccountFrame sample_wheat_line 60 sample_sheep_line]
  by (force simp: sample_exchange_defs price_ok_def INT64_MAX_def INT64_MIN_def trust_getBalance_def
      trust_isValid_def getMaxAmountReceive_def)

text \<open>
  C23: a conversion always ends: whatever the offers, the filter and the limits, the loop over the
  best offers needs at most one round per stored offer plus one.
\<close>

theorem convertWithOffers_terminates:
  "\<exists>r. convertWithOffers lm sheep maxSheepSend wheat maxWheatReceive filt ex = Some r"
  unfolding convertWithOffers_def
  by (rule convert_loop_terminates) (simp add: start_conversion_def)

text \<open>
  C24: a conversion respects its limits: over all the offers it crosses it sends no more sheep and
  receives no more wheat than it was allowed, whatever its outcome.
\<close>

theorem convertWithOffers_within_limits:
  assumes "db_range (fst (fst ex))" "amount_ok maxSheepSend" "amount_ok maxWheatReceive"
    and "convertWithOffers lm sheep maxSheepSend wheat maxWheatReceive filt ex = Some (Inr (r, c))"
  shows "0 \<le> cv_sheepSend c \<and> cv_sheepSend c \<le> maxSheepSend \<and>
    0 \<le> cv_wheatReceived c \<and> cv_wheatReceived c \<le> maxWheatReceive"
proof -
  have "books maxSheepSend maxWheatReceive (start_conversion maxSheepSend maxWheatReceive ex)"
    using assms(1-3) by (simp add: books_def start_conversion_def)
  from convert_loop_books [OF assms(4) [unfolded convertWithOffers_def] this assms(2,3)]
  show ?thesis .
qed


definition sample_exchange :: Exchange where
  "sample_exchange = ((empty_db\<lparr>
     db_Accounts := [(3, \<lparr>ac_balance = 1000, ac_seqNum = 1, ac_numSubEntries = 3, ac_inflationDest = None,
       ac_thresholds = (1, 0, 0, 0), ac_flags = 0\<rparr>)],
     db_TrustLines := [((3, 2, [85, 83, 68]), \<lparr>tr_tlimit = 1000, tr_balance = 60, tr_authorized = True\<rparr>),
       ((3, 2, [73, 68, 82]), \<lparr>tr_tlimit = 1000, tr_balance = 0, tr_authorized = True\<rparr>)],
     db_Offers := [(8, \<lparr>or_accountID = 3, or_paysIsoCurrency = [73, 68, 82], or_paysIssuer = 2,
       or_getsIsoCurrency = [85, 83, 68], or_getsIssuer = 2, or_amount = 100, or_priceN = 3, or_priceD = 2,
       or_price = 15000000\<rparr>)]\<rparr>, LedgerDelta_over sample_header), [])"

theorem convertWithOffers_within_limits_witness:
  "\<exists>r c. convertWithOffers sample_header sample_idr 70 sample_usd 50 None sample_exchange = Some (Inr (r, c)) \<and>
     cv_sheepSend c \<le> 70 \<and> cv_wheatReceived c \<le> 50"
proof -
  have rng: "db_range (fst (fst sample_exchange))"
    by (auto simp: db_range_def sample_exchange_def INT64_MAX_def split: if_splits)
  have "case convertWithOffers sample_header sample_idr 70 sample_usd 50 None sample_exchange of
      Some (Inr (r, c)) \<Rightarrow> cv_wheatReceived c = 46 | _ \<Rightarrow> False"
    by code_simp
  then obtain r c where "convertWithOffers sample_header sample_idr 70 sample_usd 50 None sample_exchange =
      Some (Inr (r, c))"
    by (auto split: option.splits sum.splits)
  then show ?thesis
    using convertWithOffers_within_limits [OF rng, of 70 50 sample_header sample_idr sample_usd None]
    by (fastforce simp: INT64_MAX_def)
qed

end
