(* ===== verification/Operations.thy ===== *)
theory Operations
  imports Offer_Exchange
begin

text \<open>
  The operations of \<open>src/transactions\<close>: \<open>PaymentOpFrame\<close>, \<open>CreateOfferOpFrame\<close>,
  \<open>SetOptionsOpFrame\<close>, \<open>ChangeTrustOpFrame\<close>, \<open>AllowTrustOpFrame\<close>, \<open>MergeOpFrame\<close> and
  \<open>InflationOpFrame\<close>, each with its \<open>doCheckValid\<close> and \<open>doApply\<close>.

  An operation works on the store and on the frame of its source account, which outlives it: the
  transaction shares it between its operations. Its outcome is whether it succeeded, its inner
  result, and both states. A SQL transaction that is not committed restores the database it began
  with, but not the delta it did not nest, nor the frames in memory.
\<close>

subsection \<open>Payment\<close>

type_synonym 'r outcome = "(bool \<times> 'r \<times> Store \<times> AccountFrame) res"

text \<open>The fuel of a conversion always suffices (\<open>convertWithOffers_terminates\<close>).\<close>

definition convert ::
    "LedgerHeader \<Rightarrow> Currency \<Rightarrow> int64 \<Rightarrow> Currency \<Rightarrow> int64 \<Rightarrow> (OfferFrame \<Rightarrow> OfferFilterResult) option
      \<Rightarrow> Exchange \<Rightarrow> (ConvertResult \<times> Conversion) res" where
  "convert lm sheep maxSheepSend wheat maxWheatReceive filt ex =
     (case convertWithOffers lm sheep maxSheepSend wheat maxWheatReceive filt ex of
        Some r \<Rightarrow> r | None \<Rightarrow> Inl (RuntimeError ''no termination''))"

definition payment_doCheckValid :: "PaymentOp \<Rightarrow> PaymentResult option" where
  "payment_doCheckValid p =
     (if pay_amount p < 0 \<or> pay_sendMax p < 0 then Some PAYMENT_MALFORMED else None)"

text \<open>
  The walk along the path, backwards: each step buys what the next one needs. The result is the
  currency and amount the source must send with the offers claimed, or \<open>None\<close> where the offers do
  not suffice.
\<close>

fun path_loop ::
    "LedgerHeader \<Rightarrow> Currency list \<Rightarrow> Currency \<Rightarrow> int64 \<Rightarrow> ClaimOfferAtom list \<Rightarrow> Store
      \<Rightarrow> ((Currency \<times> int64 \<times> ClaimOfferAtom list) option \<times> Store) res" where
  "path_loop lm [] curB curBReceived offers s = Inr (Some (curB, curBReceived, offers), s)"
| "path_loop lm (curA # rest) curB curBReceived offers s =
     rbind (convert lm curA INT64_MAX curB curBReceived None (s, [])) (\<lambda>(r, c).
     case r of
       eFilterStop \<Rightarrow> Inl AssertFailed
     | ePartial \<Rightarrow> Inr (None, fst (cv_exchange c))
     | eOK \<Rightarrow>
         if curBReceived \<noteq> cv_wheatReceived c then Inr (None, fst (cv_exchange c))
         else path_loop lm rest curA (cv_sheepSend c) (snd (cv_exchange c) @ offers) (fst (cv_exchange c)))"

text \<open>The end of the chain: the destination is credited; an error is the result of the operation.\<close>

definition credit_destination ::
    "PaymentOp \<Rightarrow> AccountFrame \<Rightarrow> Store \<Rightarrow> (PaymentResult option \<times> Store) res" where
  "credit_destination p dest s =
     (if pay_currency p = NATIVE then
        rbind (account_storeChange (upd_account (\<lambda>e. e\<lparr>ae_balance := wrap64 (ae_balance e + pay_amount p)\<rparr>) dest)
                 (fst s) (snd s)) (\<lambda>s'. Inr (None, s'))
      else
        rbind (loadTrustLine (ae_accountID (mAccountEntry dest)) (pay_currency p) new_TrustFrame (fst s))
          (\<lambda>(ok, line).
        if \<not> ok then Inr (Some PAYMENT_NO_TRUST, s)
        else if \<not> tl_authorized (mTrustLine line) then Inr (Some PAYMENT_NOT_AUTHORIZED, s)
        else
          let (added, line') = addBalance (pay_amount p) line
          in if \<not> added then Inr (Some PAYMENT_LINE_FULL, s)
             else rbind (trust_storeChange line' (fst s) (snd s)) (\<lambda>s'. Inr (None, s'))))"

text \<open>The start of the chain: the source is debited.\<close>

definition debit_source ::
    "LedgerHeader \<Rightarrow> AccountID \<Rightarrow> Currency \<Rightarrow> int64 \<Rightarrow> Store \<Rightarrow> AccountFrame
      \<Rightarrow> (PaymentResult option \<times> Store \<times> AccountFrame) res" where
  "debit_source lm srcID curB curBSent s src =
     (if curB = NATIVE then
        if ae_balance (mAccountEntry src) < wrap64 (getMinimumBalance lm src + curBSent)
        then Inr (Some PAYMENT_UNDERFUNDED, s, src)
        else
          let src' = upd_account (\<lambda>e. e\<lparr>ae_balance := wrap64 (ae_balance e - curBSent)\<rparr>) src
          in rbind (account_storeChange src' (fst s) (snd s)) (\<lambda>s'. Inr (None, s', src'))
      else
        rbind (isoCI curB) (\<lambda>(_, iss).
        if \<not> fst (loadAccount iss new_AccountFrame (fst s))
        then Inl (RuntimeError ''sendCredit Issuer not found'')
        else
          rbind (loadTrustLine srcID curB new_TrustFrame (fst s)) (\<lambda>(ok, line).
          if \<not> ok then Inr (Some PAYMENT_UNDERFUNDED, s, src)
          else
            let (added, line') = addBalance (- curBSent) line
            in if \<not> added then Inr (Some PAYMENT_UNDERFUNDED, s, src)
               else rbind (trust_storeChange line' (fst s) (snd s)) (\<lambda>s'. Inr (None, s', src)))))"

definition sendNoCreate ::
    "LedgerHeader \<Rightarrow> AccountID \<Rightarrow> PaymentOp \<Rightarrow> AccountFrame \<Rightarrow> Store \<Rightarrow> AccountFrame \<Rightarrow> PaymentResult outcome" where
  "sendNoCreate lm srcID p dest s src =
     rbind (credit_destination p dest s) (\<lambda>(err, s1).
     case err of
       Some e \<Rightarrow> Inr (False, e, s1, src)
     | None \<Rightarrow>
         rbind (path_loop lm (rev (pay_path p)) (pay_currency p) (pay_amount p) [] s1) (\<lambda>(walk, s2).
         case walk of
           None \<Rightarrow> Inr (False, PAYMENT_TOO_FEW_OFFERS, s2, src)
         | Some (curB, curBSent, offers) \<Rightarrow>
             if curBSent > pay_sendMax p then Inr (False, PAYMENT_OVER_SENDMAX, s2, src)
             else
               rbind (debit_source lm srcID curB curBSent s2 src) (\<lambda>(err2, s3, src').
               case err2 of
                 Some e \<Rightarrow> Inr (False, e, s3, src')
               | None \<Rightarrow>
                   Inr (True, if pay_path p = [] then PAYMENT_SUCCESS
                     else PAYMENT_SUCCESS_MULTI offers (Some \<lparr>sp_destination = ae_accountID (mAccountEntry dest),
                       sp_currency = pay_currency p, sp_amount = pay_amount p\<rparr>), s3, src'))))"

definition payment_doApply ::
    "LedgerHeader \<Rightarrow> AccountID \<Rightarrow> PaymentOp \<Rightarrow> Store \<Rightarrow> AccountFrame \<Rightarrow> PaymentResult outcome" where
  "payment_doApply lm srcID p s src =
     (if pay_destination p = srcID \<and> pay_path p = [] then Inr (True, PAYMENT_SUCCESS, s, src)
      else
        let (ok, dest) = loadAccount (pay_destination p) new_AccountFrame (fst s)
        in if ok then sendNoCreate lm srcID p dest s src
           else if pay_currency p \<noteq> NATIVE then Inr (False, PAYMENT_NO_DESTINATION, s, src)
           else if pay_amount p < getMinBalance lm 0 then Inr (False, PAYMENT_LOW_RESERVE, s, src)
           else
             let dest' = upd_account (\<lambda>e. e\<lparr>ae_accountID := pay_destination p,
                   ae_seqNum := getStartingSequenceNumber (mCurrentHeader (snd s)), ae_balance := 0\<rparr>) dest
             in rbind (account_storeAdd dest' (fst s) (snd s)) (\<lambda>s1. sendNoCreate lm srcID p dest' s1 src))"

subsection \<open>Create offer\<close>

definition createOffer_doCheckValid :: "CreateOfferOp \<Rightarrow> CreateOfferResult option" where
  "createOffer_doCheckValid co =
     (if compareCurrency (co_takerGets co) (co_takerPays co) then Some CREATE_OFFER_MALFORMED
      else if co_amount co < 0 \<or> price_d (co_price co) \<le> 0 \<or> price_n (co_price co) \<le> 0
      then Some CREATE_OFFER_MALFORMED else None)"

text \<open>The lines of the source for what it sells (sheep) and buys (wheat).\<close>

definition checkOfferValid ::
    "AccountID \<Rightarrow> CreateOfferOp \<Rightarrow> Database \<Rightarrow> (CreateOfferResult + TrustFrame \<times> TrustFrame) res" where
  "checkOfferValid srcID co db =
     rbind (if co_takerGets co = NATIVE then Inr (Inr new_TrustFrame)
            else rbind (loadTrustLine srcID (co_takerGets co) new_TrustFrame db) (\<lambda>(ok, line).
              if \<not> ok then Inr (Inl CREATE_OFFER_UNDERFUNDED)
              else rbind (trust_getBalance line) (\<lambda>b.
                Inr (if b = 0 then Inl CREATE_OFFER_UNDERFUNDED else Inr line)))) (\<lambda>sheep.
     case sheep of
       Inl e \<Rightarrow> Inr (Inl e)
     | Inr sheepLine \<Rightarrow>
         if co_takerPays co = NATIVE then Inr (Inr (sheepLine, new_TrustFrame))
         else rbind (loadTrustLine srcID (co_takerPays co) new_TrustFrame db) (\<lambda>(ok, line).
           if \<not> ok then Inr (Inl CREATE_OFFER_NO_TRUST)
           else if \<not> tl_authorized (mTrustLine line) then Inr (Inl CREATE_OFFER_NOT_AUTHORIZED)
           else Inr (Inr (sheepLine, line))))"

definition offer_from :: "AccountID \<Rightarrow> CreateOfferOp \<Rightarrow> OfferFrame" where
  "offer_from srcID co = \<lparr>oe_accountID = srcID, oe_offerID = co_offerID co, oe_takerGets = co_takerGets co,
     oe_takerPays = co_takerPays co, oe_amount = co_amount co, oe_price = co_price co\<rparr>"

text \<open>The offer the operation works on: the stored one to change, or a new one.\<close>

definition select_offer :: "AccountID \<Rightarrow> CreateOfferOp \<Rightarrow> Database \<Rightarrow> CreateOfferResult + (bool \<times> OfferFrame)" where
  "select_offer srcID co db =
     (if co_offerID co \<noteq> 0 then
        let (ok, oe) = loadOffer srcID (co_offerID co) new_OfferFrame db
        in if ok then
             if \<not> compareCurrency (co_takerGets co) (oe_takerGets oe) \<or>
                \<not> compareCurrency (co_takerPays co) (oe_takerPays oe)
             then Inl CREATE_OFFER_MISMATCH else Inr (False, oe)
           else Inl CREATE_OFFER_NOT_FOUND
      else Inr (True, offer_from srcID co))"

text \<open>What can be sold at most, given the balance and what can be received; and what can be received.\<close>

definition offer_limits ::
    "LedgerHeader \<Rightarrow> CreateOfferOp \<Rightarrow> TrustFrame \<Rightarrow> TrustFrame \<Rightarrow> AccountFrame
      \<Rightarrow> (CreateOfferResult + int64 \<times> int64) res" where
  "offer_limits lm co sheepLine wheatLine src =
     rbind (if co_takerGets co = NATIVE then getBalanceAboveReserve lm src else trust_getBalance sheepLine)
       (\<lambda>canSell.
     let maxWheat = (if co_takerPays co = NATIVE then INT64_MAX else getMaxAmountReceive wheatLine)
     in if co_takerPays co \<noteq> NATIVE \<and> maxWheat = 0 then Inr (Inl CREATE_OFFER_LINE_FULL)
        else
          rbind (bigDivide_noThrow maxWheat (price_d (co_price co)) (price_n (co_price co))) (\<lambda>r.
          let onWheat = max_on_overflow r;
              canSell' = (if canSell > onWheat then onWheat else canSell)
          in Inr (Inr (if canSell' < co_amount co then canSell' else co_amount co, maxWheat))))"

text \<open>
  The filter of the conversion. Where it stops because of an own offer it also sets the result; the
  conversion stops at once, so that the offer it stopped at decides.
\<close>

definition offer_filter :: "AccountID \<Rightarrow> Price \<Rightarrow> OfferFrame \<Rightarrow> OfferFilterResult" where
  "offer_filter srcID maxWheatPrice oe =
     (if price_gt (oe_price oe) maxWheatPrice then eStop
      else if oe_accountID oe = srcID then eStop else eKeep)"

definition crosses_self :: "AccountID \<Rightarrow> Price \<Rightarrow> Conversion \<Rightarrow> bool" where
  "crosses_self srcID maxWheatPrice c =
     (case cv_stopped c of
        None \<Rightarrow> False
      | Some oe \<Rightarrow> \<not> price_gt (oe_price oe) maxWheatPrice \<and> oe_accountID oe = srcID)"

text \<open>The balances of the source after the conversion, written to the store of the caller.\<close>

definition offer_wheat ::
    "AccountID \<Rightarrow> Currency \<Rightarrow> int64 \<Rightarrow> Store \<Rightarrow> AccountFrame \<Rightarrow> (Store \<times> AccountFrame) res" where
  "offer_wheat srcID wheat wheatReceived s src =
     (if wheat = NATIVE then
        let src' = upd_account (\<lambda>e. e\<lparr>ae_balance := wrap64 (ae_balance e + wheatReceived)\<rparr>) src
        in rbind (account_storeChange src' (fst s) (snd s)) (\<lambda>s'. Inr (s', src'))
      else
        rbind (loadTrustLine srcID wheat new_TrustFrame (fst s)) (\<lambda>(ok, line).
        if \<not> ok then Inl (RuntimeError ''invalid database state: must have matching trust line'')
        else
          let (added, line') = addBalance wheatReceived line
          in if \<not> added then Inl (RuntimeError ''offer claimed over limit'')
             else rbind (trust_storeChange line' (fst s) (snd s)) (\<lambda>s'. Inr (s', src))))"

definition offer_sheep ::
    "Currency \<Rightarrow> int64 \<Rightarrow> TrustFrame \<Rightarrow> Store \<Rightarrow> AccountFrame \<Rightarrow> (Store \<times> AccountFrame) res" where
  "offer_sheep sheep sheepSent sheepLine s src =
     (if sheep = NATIVE then
        let src' = upd_account (\<lambda>e. e\<lparr>ae_balance := wrap64 (ae_balance e - sheepSent)\<rparr>) src
        in rbind (account_storeChange src' (fst s) (snd s)) (\<lambda>s'. Inr (s', src'))
      else
        let (added, line') = addBalance (- sheepSent) sheepLine
        in if \<not> added then Inl (RuntimeError ''offer sold more than balance'')
           else rbind (trust_storeChange line' (fst s) (snd s)) (\<lambda>s'. Inr (s', src)))"

text \<open>
  What remains for sale is left as an offer, in the nested delta. \<open>None\<close> is the outcome where the
  reserve does not allow another entry.
\<close>

definition offer_leave ::
    "LedgerHeader \<Rightarrow> bool \<Rightarrow> OfferFrame \<Rightarrow> Store \<Rightarrow> AccountFrame
      \<Rightarrow> (CreateOfferEffect option \<times> Store \<times> AccountFrame) res" where
  "offer_leave lm creatingNewOffer oe s src =
     (if oe_amount oe > 0 then
        if creatingNewOffer then
          rbind (addNumEntries 1 lm src) (\<lambda>(ok, src').
          if \<not> ok then Inr (None, s, src')
          else
            let (i, h) = generateID (mCurrentHeader (snd s));
                oe' = oe\<lparr>oe_offerID := i\<rparr>
            in rbind (offer_storeAdd oe' (fst s) ((snd s)\<lparr>mCurrentHeader := h\<rparr>)) (\<lambda>s1.
               rbind (account_storeChange src' (fst s1) (snd s1)) (\<lambda>s2.
               Inr (Some (CREATE_OFFER_CREATED oe'), s2, src'))))
        else
          rbind (offer_storeChange oe (fst s) (snd s)) (\<lambda>s1.
          Inr (Some (CREATE_OFFER_UPDATED oe), s1, src))
      else if creatingNewOffer then Inr (Some CREATE_OFFER_DELETED, s, src)
      else
        rbind (offer_storeDelete (oe_accountID oe) (oe_offerID oe) (fst s) (snd s)) (\<lambda>s1.
        Inr (Some CREATE_OFFER_DELETED, s1, src)))"

definition offer_balances ::
    "AccountID \<Rightarrow> CreateOfferOp \<Rightarrow> TrustFrame \<Rightarrow> Conversion \<Rightarrow> Store \<Rightarrow> AccountFrame \<Rightarrow> (Store \<times> AccountFrame) res" where
  "offer_balances srcID co sheepLine c s src =
     (if cv_wheatReceived c > 0 then
        rbind (offer_wheat srcID (co_takerPays co) (cv_wheatReceived c) s src) (\<lambda>(s2, src2).
        offer_sheep (co_takerGets co) (cv_sheepSend c) sheepLine s2 src2)
      else Inr (s, src))"

text \<open>
  The exchange of the operation, once it is known what may be sold and received. The database is
  that of an SQL transaction: every way out but the last restores it. The balances of the source
  are recorded in the delta of the caller, not in the nested one, and stay recorded.
\<close>

definition offer_finish ::
    "LedgerHeader \<Rightarrow> bool \<Rightarrow> OfferFrame \<Rightarrow> ClaimOfferAtom list \<Rightarrow> Database \<Rightarrow> LedgerDelta \<Rightarrow> Store \<Rightarrow> AccountFrame
      \<Rightarrow> CreateOfferResult outcome" where
  "offer_finish lm creatingNewOffer oe trail db temp s src =
     rbind (offer_leave lm creatingNewOffer oe (fst s, temp) src) (\<lambda>(eff, s4, src4).
     case eff of
       None \<Rightarrow> Inr (False, CREATE_OFFER_LOW_RESERVE, (db, snd s), src4)
     | Some e \<Rightarrow>
         rbind (commit_nested (snd s4) (snd s)) (\<lambda>(delta5, _).
         Inr (True, CREATE_OFFER_SUCCESS trail e, (fst s4, delta5), src4)))"

definition offer_exchange ::
    "LedgerHeader \<Rightarrow> AccountID \<Rightarrow> CreateOfferOp \<Rightarrow> bool \<Rightarrow> OfferFrame \<Rightarrow> TrustFrame \<Rightarrow> int64 \<Rightarrow> int64
      \<Rightarrow> Store \<Rightarrow> AccountFrame \<Rightarrow> CreateOfferResult outcome" where
  "offer_exchange lm srcID co creatingNewOffer oe sheepLine maxSheepSend maxWheat s src =
     (let maxWheatPrice = \<lparr>price_n = price_d (co_price co), price_d = price_n (co_price co)\<rparr>
      in rbind (convert lm (co_takerGets co) maxSheepSend (co_takerPays co) maxWheat
                  (Some (offer_filter srcID maxWheatPrice)) ((fst s, LedgerDelta_nested (snd s)), [])) (\<lambda>(r, c).
         if r = eFilterStop \<and> crosses_self srcID maxWheatPrice c
         then Inr (False, CREATE_OFFER_CROSS_SELF, s, src)
         else
           rbind (offer_balances srcID co sheepLine c (fst (fst (cv_exchange c)), snd s) src) (\<lambda>(s3, src3).
           offer_finish lm creatingNewOffer (oe\<lparr>oe_amount := wrap64 (maxSheepSend - cv_sheepSend c)\<rparr>)
             (snd (cv_exchange c)) (fst s) (snd (fst (cv_exchange c))) s3 src3)))"

definition createOffer_doApply ::
    "LedgerHeader \<Rightarrow> AccountID \<Rightarrow> CreateOfferOp \<Rightarrow> Store \<Rightarrow> AccountFrame \<Rightarrow> CreateOfferResult outcome" where
  "createOffer_doApply lm srcID co s src =
     rbind (checkOfferValid srcID co (fst s)) (\<lambda>v.
     case v of
       Inl e \<Rightarrow> Inr (False, e, s, src)
     | Inr (sheepLine, wheatLine) \<Rightarrow>
         (case select_offer srcID co (fst s) of
            Inl e \<Rightarrow> Inr (False, e, s, src)
          | Inr (creatingNewOffer, oe) \<Rightarrow>
              rbind (offer_limits lm co sheepLine wheatLine src) (\<lambda>l.
              case l of
                Inl e \<Rightarrow> Inr (False, e, s, src)
              | Inr (maxSheepSend, maxWheat) \<Rightarrow>
                  offer_exchange lm srcID co creatingNewOffer oe sheepLine maxSheepSend maxWheat s src)))"

subsection \<open>Set options\<close>

definition setOptions_doCheckValid :: "SetOptionsOp \<Rightarrow> SetOptionsResult option" where
  "setOptions_doCheckValid so =
     (case (so_setFlags so, so_clearFlags so) of
        (Some f, Some g) \<Rightarrow> if f AND g \<noteq> 0 then Some SET_OPTIONS_BAD_FLAGS else None
      | _ \<Rightarrow> None)"

definition option_flags :: "SetOptionsOp \<Rightarrow> uint32 \<Rightarrow> uint32" where
  "option_flags so fl =
     (let fl1 = (case so_clearFlags so of None \<Rightarrow> fl | Some g \<Rightarrow> fl AND NOT g)
      in case so_setFlags so of None \<Rightarrow> fl1 | Some f \<Rightarrow> fl1 OR f)"

text \<open>Erasing the signers with the given key; each erasure frees a sub-entry.\<close>

fun erase_signers ::
    "LedgerHeader \<Rightarrow> uint256 \<Rightarrow> Signer list \<Rightarrow> AccountFrame \<Rightarrow> (Signer list \<times> AccountFrame) res" where
  "erase_signers lm k [] src = Inr ([], src)"
| "erase_signers lm k (s # ss) src =
     (if sig_pubKey s = k then
        rbind (addNumEntries (- 1) lm src) (\<lambda>(_, src'). erase_signers lm k ss src')
      else rbind (erase_signers lm k ss src) (\<lambda>(ss', src'). Inr (s # ss', src')))"

definition MAX_SIGNERS :: nat where
  "MAX_SIGNERS = 20"

text \<open>
  The change of the signers. The loop that looks for the key assigns to copies of the signers and
  never records that it found one: a signer with a weight is always pushed at the end.
\<close>

definition option_signer ::
    "LedgerHeader \<Rightarrow> Signer \<Rightarrow> AccountFrame \<Rightarrow> (SetOptionsResult option \<times> AccountFrame) res" where
  "option_signer lm sg src =
     (let signers = ae_signers (mAccountEntry src)
      in if sig_weight sg \<noteq> 0 then
           if length signers = MAX_SIGNERS then Inr (Some SET_OPTIONS_TOO_MANY_SIGNERS, src)
           else
             rbind (addNumEntries 1 lm src) (\<lambda>(ok, src').
             if \<not> ok then Inr (Some SET_OPTIONS_LOW_RESERVE, src')
             else Inr (None, setUpdateSigners
               (upd_account (\<lambda>e. e\<lparr>ae_signers := ae_signers e @ [sg]\<rparr>) src')))
         else
           rbind (erase_signers lm (sig_pubKey sg) signers src) (\<lambda>(signers', src').
           Inr (None, setUpdateSigners (upd_account (\<lambda>e. e\<lparr>ae_signers := signers'\<rparr>) src'))))"

definition setOptions_doApply ::
    "LedgerHeader \<Rightarrow> SetOptionsOp \<Rightarrow> Store \<Rightarrow> AccountFrame \<Rightarrow> SetOptionsResult outcome" where
  "setOptions_doApply lm so s src =
     (if (case so_inflationDest so of
            None \<Rightarrow> False | Some d \<Rightarrow> \<not> fst (loadAccount d new_AccountFrame (fst s)))
      then Inr (False, SET_OPTIONS_INVALID_INFLATION, s, src)
      else
        let src1 = upd_account (\<lambda>e. e\<lparr>
              ae_inflationDest := (case so_inflationDest so of None \<Rightarrow> ae_inflationDest e | Some d \<Rightarrow> Some d),
              ae_flags := option_flags so (ae_flags e),
              ae_thresholds := (case so_thresholds so of None \<Rightarrow> ae_thresholds e | Some t \<Rightarrow> t)\<rparr>) src
        in rbind (case so_signer so of
                    None \<Rightarrow> Inr (None, src1) | Some sg \<Rightarrow> option_signer lm sg src1) (\<lambda>(err, src2).
           case err of
             Some e \<Rightarrow> Inr (False, e, s, src2)
           | None \<Rightarrow>
               rbind (account_storeChange src2 (fst s) (snd s)) (\<lambda>s'.
               Inr (True, SET_OPTIONS_SUCCESS, s', src2))))"

subsection \<open>Change trust, allow trust\<close>

definition changeTrust_doCheckValid :: "ChangeTrustOp \<Rightarrow> ChangeTrustResult option" where
  "changeTrust_doCheckValid ct = (if ct_limit ct < 0 then Some CHANGE_TRUST_MALFORMED else None)"

definition change_line ::
    "LedgerHeader \<Rightarrow> ChangeTrustOp \<Rightarrow> TrustFrame \<Rightarrow> Store \<Rightarrow> AccountFrame \<Rightarrow> ChangeTrustResult outcome" where
  "change_line lm ct line s src =
     rbind (if ct_limit ct < 0 then Inr True
            else rbind (trust_getBalance line) (\<lambda>b. Inr (ct_limit ct < b))) (\<lambda>bad.
     if bad then Inr (False, CHANGE_TRUST_INVALID_LIMIT, s, src)
     else
       let line' = upd_line (\<lambda>l. l\<lparr>tl_limit := ct_limit ct\<rparr>) line
       in rbind (if ct_limit ct = 0
                 then rbind (trust_getBalance line') (\<lambda>b. Inr (b = 0)) else Inr False) (\<lambda>gone.
          if gone then
            rbind (addNumEntries (- 1) lm src) (\<lambda>(_, src').
            rbind (trust_storeDelete (tl_accountID (mTrustLine line')) (tl_currency (mTrustLine line'))
                     (fst s) (snd s)) (\<lambda>s1.
            rbind (account_storeChange src' (fst s1) (snd s1)) (\<lambda>s2.
            Inr (True, CHANGE_TRUST_SUCCESS, s2, src'))))
          else
            rbind (trust_storeChange line' (fst s) (snd s)) (\<lambda>s1.
            Inr (True, CHANGE_TRUST_SUCCESS, s1, src))))"

text \<open>
  A new line. Where the reserve does not allow it the code sets a result and goes on: the line is
  stored all the same, without being counted.
\<close>

definition new_line ::
    "LedgerHeader \<Rightarrow> AccountID \<Rightarrow> ChangeTrustOp \<Rightarrow> TrustFrame \<Rightarrow> Store \<Rightarrow> AccountFrame \<Rightarrow> ChangeTrustResult outcome" where
  "new_line lm srcID ct line s src =
     rbind (isoCI (ct_line ct)) (\<lambda>(_, iss).
     let (ok, issuer) = loadAccount iss new_AccountFrame (fst s)
     in if \<not> ok then Inr (False, CHANGE_TRUST_NO_ISSUER, s, src)
        else
          let line' = upd_line (\<lambda>l. l\<lparr>tl_accountID := srcID, tl_currency := ct_line ct,
                tl_limit := ct_limit ct, tl_balance := 0, tl_authorized := \<not> isAuthRequired issuer\<rparr>) line
          in rbind (addNumEntries 1 lm src) (\<lambda>(_, src').
             rbind (account_storeChange src' (fst s) (snd s)) (\<lambda>s1.
             rbind (trust_storeAdd line' (fst s1) (snd s1)) (\<lambda>s2.
             Inr (True, CHANGE_TRUST_SUCCESS, s2, src')))))"

definition changeTrust_doApply ::
    "LedgerHeader \<Rightarrow> AccountID \<Rightarrow> ChangeTrustOp \<Rightarrow> Store \<Rightarrow> AccountFrame \<Rightarrow> ChangeTrustResult outcome" where
  "changeTrust_doApply lm srcID ct s src =
     rbind (loadTrustLine srcID (ct_line ct) new_TrustFrame (fst s)) (\<lambda>(ok, line).
     if ok then change_line lm ct line s src else new_line lm srcID ct line s src)"

definition allowTrust_doCheckValid :: "AllowTrustOp \<Rightarrow> AllowTrustResult option" where
  "allowTrust_doCheckValid at = (if at_currency at = None then Some ALLOW_TRUST_MALFORMED else None)"

definition allowTrust_doApply ::
    "AccountID \<Rightarrow> AllowTrustOp \<Rightarrow> Store \<Rightarrow> AccountFrame \<Rightarrow> AllowTrustResult outcome" where
  "allowTrust_doApply srcID at s src =
     (if ae_flags (mAccountEntry src) AND AUTH_REQUIRED_FLAG = 0
      then Inr (False, ALLOW_TRUST_TRUST_NOT_REQUIRED, s, src)
      else case at_currency at of
        None \<Rightarrow> Inl (RuntimeError ''xdr_wrong_union'')
      | Some code \<Rightarrow>
          rbind (loadTrustLine (at_trustor at) (ISO4217 code srcID) new_TrustFrame (fst s)) (\<lambda>(ok, line).
          if \<not> ok then Inr (False, ALLOW_TRUST_NO_TRUST_LINE, s, src)
          else
            rbind (trust_storeChange (upd_line (\<lambda>l. l\<lparr>tl_authorized := at_authorize at\<rparr>) line)
                     (fst s) (snd s)) (\<lambda>s'.
            Inr (True, ALLOW_TRUST_SUCCESS, s', src))))"

subsection \<open>Account merge, inflation\<close>

definition merge_doCheckValid :: "AccountID \<Rightarrow> AccountID \<Rightarrow> AccountMergeResult option" where
  "merge_doCheckValid srcID dest = (if srcID = dest then Some ACCOUNT_MERGE_MALFORMED else None)"

text \<open>
  The query for credit. It selects a column \<open>trustIndex\<close>; the statement that creates the table
  declares none, and the SQL engine refuses a query for a column that does not exist. The columns
  are those of \<open>TrustFrame::kSQLCreateStatement\<close>.
\<close>

definition trust_columns :: "string list" where
  "trust_columns = [''accountID'', ''issuer'', ''isoCurrency'', ''tlimit'', ''balance'', ''authorized'']"

definition select_trust ::
    "string \<Rightarrow> ((AccountID \<times> AccountID \<times> byte list) \<Rightarrow> bool) \<Rightarrow> Database \<Rightarrow> bool res" where
  "select_trust column cond db =
     (if column \<notin> set trust_columns then Inl (SqlError ''no such column'')
      else Inr (\<exists>r \<in> set (db_TrustLines db). cond (fst r) \<and> tr_balance (snd r) > 0))"

definition merge_doApply ::
    "AccountID \<Rightarrow> AccountID \<Rightarrow> Store \<Rightarrow> AccountFrame \<Rightarrow> AccountMergeResult outcome" where
  "merge_doApply srcID dest s src =
     (let (ok, other) = loadAccount dest new_AccountFrame (fst s)
      in if \<not> ok then Inr (False, ACCOUNT_MERGE_NO_ACCOUNT, s, src)
         else
           rbind (select_trust ''trustIndex'' (\<lambda>(a, iss, code). iss = srcID) (fst s)) (\<lambda>held.
           if held then Inr (False, ACCOUNT_MERGE_CREDIT_HELD, s, src)
           else
             rbind (select_trust ''trustIndex'' (\<lambda>(a, iss, code). a = srcID) (fst s)) (\<lambda>has.
             if has then Inr (False, ACCOUNT_MERGE_HAS_CREDIT, s, src)
             else
               rbind (each (\<lambda>oe (db, d). offer_storeDelete (oe_accountID oe) (oe_offerID oe) db d)
                        (loadOffers srcID (fst s)) s) (\<lambda>s1.
               rbind (loadLines srcID (fst s1)) (\<lambda>lines.
               rbind (each (\<lambda>l (db, d). trust_storeDelete (tl_accountID (mTrustLine l))
                        (tl_currency (mTrustLine l)) db d) lines s1) (\<lambda>s2.
               rbind (account_storeChange (upd_account (\<lambda>e. e\<lparr>ae_balance :=
                        wrap64 (ae_balance e + ae_balance (mAccountEntry src))\<rparr>) other)
                        (fst s2) (snd s2)) (\<lambda>s3.
               rbind (account_storeDelete (ae_accountID (mAccountEntry src)) (fst s3) (snd s3)) (\<lambda>s4.
               Inr (True, ACCOUNT_MERGE_SUCCESS, s4, src)))))))))"

definition inflation_doApply :: "Store \<Rightarrow> AccountFrame \<Rightarrow> InflationResult outcome" where
  "inflation_doApply s src = Inr (False, INFLATION_NOT_TIME, s, src)"

end
