(* ===== verification/Operation_Props.thy ===== *)
theory Operation_Props
  imports Operations
begin

text \<open>
  Single operations: what modelling showed of the merging of accounts, of new trust lines and of
  the change of a signer's weight.
\<close>

text \<open>
  An account can never be merged. Whenever the destination exists, the operation ends with an
  error of the SQL engine before anything is looked at: both its queries select a column that the
  table of trust lines does not have.
\<close>

theorem account_merge_never_succeeds:
  "merge_doApply srcID dest s src =
     (if fst (loadAccount dest new_AccountFrame (fst s)) then Inl (SqlError ''no such column'')
      else Inr (False, ACCOUNT_MERGE_NO_ACCOUNT, s, src))"
  by (auto simp: merge_doApply_def select_trust_def trust_columns_def Let_def split: prod.splits)

text \<open>
  A trust line can be had without the reserve for it. Where the balance of the source does not
  allow another entry, a new trust line is stored all the same, the operation reports success, and
  the count of sub-entries stays as it was: the source pays no reserve for the line.
\<close>

theorem trust_line_without_reserve:
  assumes "changeTrust_doApply lm srcID ct s src = Inr (ok, r, s', src')"
    and "loadTrustLine srcID (ct_line ct) new_TrustFrame (fst s) = Inr (False, l)"
    and "addNumEntries 1 lm src = Inr (False, src0)"
    and "ct_line ct = ISO4217 code iss" "fst (loadAccount iss new_AccountFrame (fst s))"
  shows "ok \<and> r = CHANGE_TRUST_SUCCESS \<and> src' = src \<and>
    (\<exists>row. map_of (db_TrustLines (fst s')) (srcID, iss, currencyCodeToStr code) = Some row)"
proof -
  have src0: "src0 = src" using assms(3) by (auto simp: addNumEntries_def Let_def split: if_splits)
  obtain issuer where iss: "loadAccount iss new_AccountFrame (fst s) = (True, issuer)"
    using assms(5) by (cases "loadAccount iss new_AccountFrame (fst s)") simp
  have ne: "srcID \<noteq> iss"
    using assms(2,4) by (auto simp: loadTrustLine_def isoCI_def setAsIssuer_def rbind_eq_Inr)
  have "\<not> mIsIssuer l" using assms(2,4) ne
    by (auto simp: loadTrustLine_def isoCI_def rbind_eq_Inr new_TrustFrame_def neq_Nil_conv
        split: list.splits)
  with assms(1-4) iss src0 ne show ?thesis
    by (auto simp: changeTrust_doApply_def new_line_def isoCI_def rbind_eq_Inr Let_def trust_storeAdd_def
        getKeyFields_def sql_insert_Inr update_conv' split: if_splits)
qed

definition poor_frame :: AccountFrame where
  "poor_frame = \<lparr>mAccountEntry = empty_account\<lparr>ae_accountID := 5, ae_balance := 250\<rparr>, mUpdateSigners = False\<rparr>"

definition poor_store :: Store where
  "poor_store = (empty_db\<lparr>db_Accounts := [(5, account_row (mAccountEntry poor_frame)),
     (9, account_row (empty_account\<lparr>ae_accountID := 9\<rparr>))]\<rparr>, LedgerDelta_over sample_header)"

definition poor_change :: ChangeTrustOp where
  "poor_change = \<lparr>ct_line = ISO4217 (85, 83, 68, 0) 9, ct_limit = 1000\<rparr>"

theorem trust_line_without_reserve_witness:
  "\<exists>s'. changeTrust_doApply sample_header 5 poor_change poor_store poor_frame =
     Inr (True, CHANGE_TRUST_SUCCESS, s', poor_frame) \<and>
     (\<exists>row. map_of (db_TrustLines (fst s')) (5, 9, currencyCodeToStr (85, 83, 68, 0)) = Some row)"
proof -
  have "case changeTrust_doApply sample_header 5 poor_change poor_store poor_frame of Inr _ \<Rightarrow> True | _ \<Rightarrow> False"
    by code_simp
  then obtain ok r s' src' where a: "changeTrust_doApply sample_header 5 poor_change poor_store poor_frame = Inr (ok, r, s', src')"
    by (auto split: sum.splits)
  have b: "loadTrustLine 5 (ct_line poor_change) new_TrustFrame (fst poor_store) = Inr (False, new_TrustFrame)" by code_simp
  have c: "addNumEntries 1 sample_header poor_frame = Inr (False, poor_frame)" by code_simp
  have d: "ct_line poor_change = ISO4217 (85, 83, 68, 0) 9" "fst (loadAccount 9 new_AccountFrame (fst poor_store))"
    by (simp add: poor_change_def) code_simp
  from trust_line_without_reserve [OF a b c d] a show ?thesis by auto
qed

text \<open>
  Changing the weight of a signer adds a second one. The loop that should find the signer
  writes to copies and never notes that it found it, so the account ends up with both entries for
  the same key and is charged the reserve of one more sub-entry.
\<close>

theorem signer_update_duplicates:
  assumes "option_signer lm sg src = Inr (None, src')" "sig_weight sg \<noteq> 0"
    and "old \<in> set (ae_signers (mAccountEntry src))" "sig_pubKey old = sig_pubKey sg"
  shows "{old, sg} \<subseteq> set (ae_signers (mAccountEntry src')) \<and>
    length (ae_signers (mAccountEntry src')) = length (ae_signers (mAccountEntry src)) + 1 \<and>
    ae_numSubEntries (mAccountEntry src') = ae_numSubEntries (mAccountEntry src) + 1"
  using assms
  by (auto simp: option_signer_def rbind_eq_Inr Let_def setUpdateSigners_def normalize_def addNumEntries_def
      split: if_splits)

definition two_weights :: AccountFrame where
  "two_weights = \<lparr>mAccountEntry = empty_account\<lparr>ae_accountID := 5, ae_balance := 1000, ae_numSubEntries := 1,
     ae_signers := [\<lparr>sig_pubKey = 7, sig_weight = 1\<rparr>]\<rparr>, mUpdateSigners = False\<rparr>"

theorem signer_update_duplicates_witness:
  "\<exists>src'. option_signer sample_header \<lparr>sig_pubKey = 7, sig_weight = 2\<rparr> two_weights = Inr (None, src') \<and>
     length (ae_signers (mAccountEntry src')) = 2 \<and> ae_numSubEntries (mAccountEntry src') = 2"
proof -
  have "case option_signer sample_header \<lparr>sig_pubKey = 7, sig_weight = 2\<rparr> two_weights of Inr (None, _) \<Rightarrow> True | _ \<Rightarrow> False"
    by code_simp
  then obtain src' where a: "option_signer sample_header \<lparr>sig_pubKey = 7, sig_weight = 2\<rparr> two_weights = Inr (None, src')"
    by (auto split: sum.splits option.splits)
  have "\<lparr>sig_pubKey = 7, sig_weight = 1\<rparr> \<in> set (ae_signers (mAccountEntry two_weights))" by (simp add: two_weights_def)
  from signer_update_duplicates [OF a _ this] a show ?thesis by (simp add: two_weights_def)
qed

end
