(* ===== verification/Coins.thy ===== *)
theory Coins
  imports Operations
begin

text \<open>
  Native coins. The balances of the table \<open>Accounts\<close>, what each statement of the frames does to
  them, and that every operation that succeeds conserves their sum.
\<close>

subsection \<open>The balances of the accounts table\<close>

definition bals :: "Database \<Rightarrow> (AccountID \<times> int64) list" where
  "bals db = map (\<lambda>(a, r). (a, ac_balance r)) (db_Accounts db)"

definition native_total :: "Database \<Rightarrow> int" where
  "native_total db = sum_list (map snd (bals db))"

definition coins_wf :: "Database \<Rightarrow> bool" where
  "coins_wf db \<longleftrightarrow> distinct (map fst (bals db)) \<and> (\<forall>b \<in> snd ` set (bals db). 0 \<le> b \<and> b \<le> INT64_MAX)"

text \<open>A frame in memory whose balance is that of its row.\<close>

definition synced :: "AccountFrame \<Rightarrow> Database \<Rightarrow> bool" where
  "synced f db \<longleftrightarrow> map_of (bals db) (ae_accountID (mAccountEntry f)) = Some (ae_balance (mAccountEntry f))"

lemma map_of_bals: "map_of (bals db) a = map_option ac_balance (map_of (db_Accounts db) a)"
  by (simp add: bals_def map_of_map)

lemma bals_update:
  "db_Accounts db' = AList.update a r (db_Accounts db) \<Longrightarrow>
   bals db' = AList.update a (ac_balance r) (bals db)"
proof -
  have "map (\<lambda>(a, r). (a, ac_balance r)) (AList.update a r t) =
    AList.update a (ac_balance r) (map (\<lambda>(a, r). (a, ac_balance r)) t)" for t
    by (induction t) auto
  then show "db_Accounts db' = AList.update a r (db_Accounts db) \<Longrightarrow>
   bals db' = AList.update a (ac_balance r) (bals db)" by (simp add: bals_def)
qed

lemma alist_update_same: "map_of t k = Some v \<Longrightarrow> AList.update k v t = t"
  by (induction t) (auto split: if_splits)

lemma alist_update_keys: "map_of t k \<noteq> None \<Longrightarrow> map fst (AList.update k v t) = map fst t"
  by (induction t) (auto split: if_splits)

lemma alist_update_new: "map_of t k = None \<Longrightarrow> AList.update k v t = t @ [(k, v)]"
  by (induction t) (auto split: if_splits)

lemma sum_alist_update:
  fixes t :: "('k \<times> int) list"
  assumes "map_of t k = Some v"
  shows "sum_list (map snd (AList.update k w t)) = sum_list (map snd t) - v + w"
  using assms by (induction t) (auto split: if_splits)

lemma coins_wf_cong: "bals db' = bals db \<Longrightarrow> coins_wf db' = coins_wf db"
  by (simp add: coins_wf_def)

lemma native_total_cong: "bals db' = bals db \<Longrightarrow> native_total db' = native_total db"
  by (simp add: native_total_def)

lemma synced_cong: "bals db' = bals db \<Longrightarrow> synced f db' = synced f db"
  by (simp add: synced_def)

lemmas bals_cong = coins_wf_cong native_total_cong synced_cong

lemma coins_wf_lookup: "coins_wf db \<Longrightarrow> map_of (bals db) a = Some b \<Longrightarrow> 0 \<le> b \<and> b \<le> INT64_MAX"
  by (auto simp: coins_wf_def dest!: map_of_SomeD bspec [where x = "(a, b)"])

lemma coins_wf_update:
  assumes "coins_wf db" "bals db' = AList.update a b (bals db)" "0 \<le> b" "b \<le> INT64_MAX"
  shows "coins_wf db'"
proof -
  have "snd ` set (AList.update a b (bals db)) \<subseteq> insert b (snd ` set (bals db))"
    using set_alist_update [of a b "bals db"] by force
  then have "\<forall>x \<in> snd ` set (bals db'). 0 \<le> x \<and> x \<le> INT64_MAX"
    using assms(1,3,4) unfolding coins_wf_def assms(2) by blast
  then show ?thesis
    using assms(1,2) distinct_update [of "bals db" a b] unfolding coins_wf_def by simp
qed

subsection \<open>The statements\<close>

lemma account_storeChange_bals:
  assumes "account_storeChange f db d = Inr (db', d')"
  shows "\<exists>b. map_of (bals db) (ae_accountID (mAccountEntry f)) = Some b \<and> 0 \<le> ae_balance (mAccountEntry f) \<and>
    bals db' = AList.update (ae_accountID (mAccountEntry f)) (ae_balance (mAccountEntry f)) (bals db)"
proof -
  let ?e = "mAccountEntry f"
  obtain r where r: "map_of (db_Accounts db) (ae_accountID ?e) = Some r" and chk: "account_check (account_row ?e)"
    and acc: "db_Accounts db' = AList.update (ae_accountID ?e) (account_row ?e) (db_Accounts db)"
    using assms unfolding account_storeChange_def account_storeUpdate_def store_signers_def
    by (auto simp: res_simps sql_update_Inr Let_def split: if_splits prod.splits)
  show ?thesis
    using r chk bals_update [OF acc] by (simp add: map_of_bals account_check_def account_row_def)
qed

lemma account_storeAdd_bals:
  assumes "account_storeAdd f db d = Inr (db', d')"
  shows "map_of (bals db) (ae_accountID (mAccountEntry f)) = None \<and>
    bals db' = bals db @ [(ae_accountID (mAccountEntry f), ae_balance (mAccountEntry f))]"
proof -
  let ?e = "mAccountEntry f"
  have r: "map_of (db_Accounts db) (ae_accountID ?e) = None"
    and acc: "db_Accounts db' = AList.update (ae_accountID ?e) (account_row ?e) (db_Accounts db)"
    using assms unfolding account_storeAdd_def account_storeUpdate_def store_signers_def
    by (auto simp: res_simps sql_insert_Inr Let_def split: if_splits prod.splits)
  show ?thesis
    using r bals_update [OF acc] by (simp add: map_of_bals account_row_def alist_update_new)
qed

lemma storeChange_synced:
  assumes "account_storeChange f db d = Inr (db', d')" "synced f db"
  shows "bals db' = bals db"
  using account_storeChange_bals [OF assms(1)] assms(2) by (auto simp: synced_def alist_update_same)

lemma trust_store_bals:
  "trust_storeChange t db d = Inr (db', d') \<Longrightarrow> bals db' = bals db"
  "trust_storeAdd t db d = Inr (db', d') \<Longrightarrow> bals db' = bals db"
  "trust_storeDelete a c db d = Inr (db', d') \<Longrightarrow> bals db' = bals db"
  by (auto simp: trust_storeChange_def trust_storeAdd_def trust_storeDelete_def res_simps Let_def bals_def
      split: if_splits)

lemma offer_store_bals:
  "offer_storeChange oe db d = Inr (db', d') \<Longrightarrow> bals db' = bals db"
  "offer_storeAdd oe db d = Inr (db', d') \<Longrightarrow> bals db' = bals db"
  "offer_storeDelete a i db d = Inr (db', d') \<Longrightarrow> bals db' = bals db"
  by (auto simp: offer_storeChange_def offer_storeAdd_def offer_storeDelete_def res_simps Let_def bals_def
      split: if_splits prod.splits)

lemma loadAccount_synced:
  "loadAccount a new_AccountFrame db = (True, f) \<Longrightarrow> synced f db \<and> ae_accountID (mAccountEntry f) = a"
  by (auto simp: loadAccount_new db_account_def row_account_def synced_def map_of_bals split: option.splits)

lemma addNumEntries_keeps:
  "addNumEntries n lm f = Inr (ok, f') \<Longrightarrow>
   ae_accountID (mAccountEntry f') = ae_accountID (mAccountEntry f) \<and>
   ae_balance (mAccountEntry f') = ae_balance (mAccountEntry f)"
  by (auto simp: addNumEntries_def Let_def split: if_splits)

lemma addNumEntries_synced: "addNumEntries n lm f = Inr (ok, f') \<Longrightarrow> synced f' db = synced f db"
  using addNumEntries_keeps unfolding synced_def by metis

lemma native_total_update:
  "map_of (bals db) a = Some b \<Longrightarrow> bals db' = AList.update a x (bals db) \<Longrightarrow>
   native_total db' = native_total db - b + x"
  by (simp add: native_total_def sum_alist_update)

subsection \<open>Conversions\<close>

text \<open>Offers in the table never have a native side, so a conversion never moves native coins.\<close>

abbreviation iso_offer :: "OfferFrame \<Rightarrow> bool" where
  "iso_offer oe \<equiv> oe_takerGets oe \<noteq> NATIVE \<and> oe_takerPays oe \<noteq> NATIVE"

lemma loadOffers_loop_iso: "oe \<in> set (loadOffers_loop rows o0) \<Longrightarrow> iso_offer oe"
  by (induction rows o0 rule: loadOffers_loop.induct) (auto simp: Let_def)

lemma loadBestOffers_iso: "oe \<in> set (loadBestOffers n off p g db) \<Longrightarrow> iso_offer oe"
  by (simp add: loadBestOffers_def loadOffers_loop_iso)

lemma loadBestOffers_native: "p = NATIVE \<or> g = NATIVE \<Longrightarrow> loadBestOffers n off p g db = []"
  by (auto simp: loadBestOffers_def best_rows_def row_pays_def row_gets_def)

lemma cross_balance_bals:
  assumes "cross_balance c x f l (db, d) = Inr (ok, f', (db', d'))" "c \<noteq> NATIVE"
  shows "bals db' = bals db"
  using assms by (auto simp: cross_balance_def res_simps trust_store_bals split: if_splits prod.splits)

lemma cross_offer_store_bals:
  assumes "cross_offer_store lm taken oe w f (db, d) = Inr (f', oe', (db', d'))" "synced f db"
  shows "bals db' = bals db"
proof (cases taken)
  case True
  then obtain db1 d1 ok where 1: "offer_storeDelete (oe_accountID oe) (oe_offerID oe) db d = Inr (db1, d1)"
    "addNumEntries (- 1) lm f = Inr (ok, f')" "account_storeChange f' db1 d1 = Inr (db', d')"
    using assms(1) by (auto simp: cross_offer_store_def res_simps)
  have b: "bals db1 = bals db" using 1(1) by (rule offer_store_bals)
  then have "synced f' db1" using assms(2) addNumEntries_synced [OF 1(2), of db1] synced_cong [OF b] by simp
  then show ?thesis using storeChange_synced [OF 1(3)] b by simp
next
  case False
  then show ?thesis using assms(1) by (auto simp: cross_offer_store_def res_simps Let_def offer_store_bals)
qed

lemma cross_execute_bals:
  assumes "cross_execute lm oe f wl sl w x taken ((db, d), tr) = Inr (cor, w', x', ((db', d'), tr'))"
    and "iso_offer oe" "synced f db"
  shows "bals db' = bals db"
proof -
  obtain f1 oe2 db1 d1 where 1: "cross_offer_store lm taken oe w f (db, d) = Inr (f1, oe2, (db1, d1))"
    using assms(1) unfolding cross_execute_def by (auto simp: rbind_eq_Inr)
  obtain ok1 f2 db2 d2 where 2: "cross_balance (oe_takerPays oe) x f1 sl (db1, d1) = Inr (ok1, f2, (db2, d2))"
    using assms(1) 1 unfolding cross_execute_def by (auto simp: rbind_eq_Inr)
  have b: "bals db2 = bals db"
    using cross_offer_store_bals [OF 1 assms(3)] cross_balance_bals [OF 2] assms(2) by simp
  show ?thesis
  proof (cases ok1)
    case False
    then show ?thesis using assms(1) 1 2 b by (auto simp: cross_execute_def)
  next
    case True
    obtain ok2 f3 db3 d3 where 3: "cross_balance (oe_takerGets oe) (- w) f2 wl (db2, d2) = Inr (ok2, f3, (db3, d3))"
      using assms(1) 1 2 True unfolding cross_execute_def by (auto simp: rbind_eq_Inr)
    then show ?thesis
      using assms(1,2) 1 2 True b cross_balance_bals [OF 3] by (auto simp: cross_execute_def split: if_splits)
  qed
qed

lemma cross_amounts_iso:
  "cross_amounts lm oe f wl sl mw ms = Inr (oe', w, x, red) \<Longrightarrow> iso_offer oe \<Longrightarrow> iso_offer oe'"
  by (auto simp: cross_amounts_def res_simps Let_def split: if_splits)

lemma crossOffer_bals:
  assumes "crossOffer lm oe mw ms ((db, d), tr) = Inr (cor, w, x, ((db', d'), tr'))" "iso_offer oe"
  shows "bals db' = bals db"
proof -
  obtain f where f: "loadAccount (oe_accountID oe) new_AccountFrame db = (True, f)"
    using assms(1) by (cases "loadAccount (oe_accountID oe) new_AccountFrame db")
      (auto simp: crossOffer_def Let_def split: if_splits)
  obtain wl sl oe1 w0 x0 red where am: "cross_amounts lm oe f wl sl mw ms = Inr (oe1, w0, x0, red)"
    "(if w0 = 0 \<or> x0 = 0 then
          if red then Inr (eOfferCantConvert, w0, x0, ((db, d), tr))
          else cross_execute lm oe1 f wl sl 0 0 True ((db, d), tr)
        else cross_execute lm oe1 f wl sl w0 x0 (oe_amount oe1 \<le> w0) ((db, d), tr)) =
      Inr (cor, w, x, ((db', d'), tr'))"
    using assms(1) f unfolding crossOffer_def by (auto simp: rbind_eq_Inr)
  have "iso_offer oe1" "synced f db"
    using cross_amounts_iso [OF am(1) assms(2)] loadAccount_synced [OF f] by simp_all
  then show ?thesis using am(2) cross_execute_bals by (auto split: if_splits)
qed

lemma convert_offers_bals:
  assumes "convert_offers lm filt os c = Inr (r, c')" "\<forall>oe \<in> set os. iso_offer oe"
  shows "bals (fst (fst (cv_exchange c'))) = bals (fst (fst (cv_exchange c)))"
  using assms
proof (induction os arbitrary: c)
  case (Cons oe os)
  show ?case
  proof (cases "case filt of None \<Rightarrow> False | Some f \<Rightarrow> f oe = eStop")
    case True
    with Cons.prems show ?thesis by auto
  next
    case False
    with Cons.prems(1) obtain cor w x ex where cross:
      "crossOffer lm oe (cv_maxWheatReceive c) (cv_maxSheepSend c) (cv_exchange c) = Inr (cor, w, x, ex)"
      by (auto simp: rbind_eq_Inr)
    have b: "bals (fst (fst ex)) = bals (fst (fst (cv_exchange c)))"
      using crossOffer_bals [of lm oe "cv_maxWheatReceive c" "cv_maxSheepSend c" "fst (fst (cv_exchange c))"
          "snd (fst (cv_exchange c))" "snd (cv_exchange c)" cor w x "fst (fst ex)" "snd (fst ex)" "snd ex"]
        cross Cons.prems(2) by simp
    show ?thesis
      using Cons.prems False cross b Cons.IH
      by (auto simp: rbind_eq_Inr Let_def split: if_splits)
  qed
qed simp

lemma convert_loop_bals:
  "convert_loop fuel lm sheep wheat filt c = Some (Inr (r, c')) \<Longrightarrow>
   bals (fst (fst (cv_exchange c'))) = bals (fst (fst (cv_exchange c)))"
proof (induction fuel arbitrary: c)
  case (Suc fuel)
  let ?l = "loadBestOffers 5 (nat (cv_offerOffset c)) sheep wheat (fst (fst (cv_exchange c)))"
  let ?c = "c\<lparr>cv_offerOffset := cv_offerOffset c + int (length ?l)\<rparr>"
  show ?case
  proof (cases "needMore c")
    case True
    with Suc.prems obtain q c1 where conv: "convert_offers lm filt ?l ?c = Inr (q, c1)"
      by (auto simp: Let_def split: sum.splits)
    have "bals (fst (fst (cv_exchange c1))) = bals (fst (fst (cv_exchange c)))"
      using convert_offers_bals [OF conv] loadBestOffers_iso by fastforce
    then show ?thesis
      using True Suc conv by (cases q) (auto simp: Let_def split: if_splits)
  qed (use Suc.prems in simp)
qed (auto split: if_splits)

lemma convert_bals:
  "convert lm sheep ms wheat mw filt ((db, d), tr) = Inr (r, c) \<Longrightarrow> bals (fst (fst (cv_exchange c))) = bals db"
  by (auto simp: convert_def convertWithOffers_def start_conversion_def simp del: convert_loop.simps
      split: option.splits dest!: convert_loop_bals)

text \<open>Nothing is exchanged for a native currency, or where nothing is asked for.\<close>

lemma convert_nothing:
  assumes "convert lm sheep ms wheat mw filt ex = Inr (r, c)" "sheep = NATIVE \<or> wheat = NATIVE \<or> mw \<le> 0"
  shows "cv_sheepSend c = 0 \<and> cv_wheatReceived c = 0"
proof -
  have "c = start_conversion ms mw ex"
    using assms loadBestOffers_native [of sheep wheat]
    by (auto simp: convert_def convertWithOffers_def start_conversion_def needMore_def Let_def split: if_splits)
  then show ?thesis by (simp add: start_conversion_def)
qed


subsection \<open>Payments\<close>

text \<open>What an operation that succeeds promises of the coins.\<close>

definition conserves :: "Database \<Rightarrow> Database \<Rightarrow> AccountFrame \<Rightarrow> AccountFrame \<Rightarrow> bool" where
  "conserves db db' src src' \<longleftrightarrow> coins_wf db' \<and> native_total db' = native_total db \<and> synced src' db' \<and>
     ae_accountID (mAccountEntry src') = ae_accountID (mAccountEntry src)"

text \<open>The same frame as far as coins go.\<close>

abbreviation same_id :: "AccountFrame \<Rightarrow> AccountFrame \<Rightarrow> bool" where
  "same_id src src' \<equiv> ae_accountID (mAccountEntry src') = ae_accountID (mAccountEntry src)"

lemma conserves_bals:
  "bals db' = bals db \<Longrightarrow> coins_wf db \<Longrightarrow> synced src' db \<Longrightarrow> same_id src src' \<Longrightarrow> conserves db db' src src'"
  by (simp add: conserves_def coins_wf_def native_total_def synced_def)

lemma path_loop_coins:
  assumes "path_loop lm cs curB recv offers s = Inr (w, s')"
  shows "bals (fst s') = bals (fst s) \<and>
    (\<forall>curA sent offs. w = Some (curA, sent, offs) \<longrightarrow>
       (recv = 0 \<longrightarrow> sent = 0) \<and> (if cs = [] then curA = curB \<and> sent = recv
        else (curB = NATIVE \<longrightarrow> recv = 0) \<and> (curA = NATIVE \<longrightarrow> sent = 0)))"
  using assms
proof (induction cs arbitrary: curB recv offers s)
  case (Cons curA cs)
  obtain r c where conv: "convert lm curA INT64_MAX curB recv None (s, []) = Inr (r, c)"
    using Cons.prems by (auto simp: rbind_eq_Inr)
  have b: "bals (fst (fst (cv_exchange c))) = bals (fst s)"
    using convert_bals [of lm curA INT64_MAX curB recv None "fst s" "snd s" "[]"] conv by simp
  note none = convert_nothing [OF conv]
  show ?case
  proof (cases "r = eOK \<and> recv = cv_wheatReceived c")
    case True
    with Cons.prems conv have
      rest: "path_loop lm cs curA (cv_sheepSend c) (snd (cv_exchange c) @ offers) (fst (cv_exchange c)) = Inr (w, s')"
      by simp
    show ?thesis using Cons.IH [OF rest] True b none by (cases cs) auto
  next
    case False
    with Cons.prems conv b show ?thesis by (cases r) auto
  qed
qed auto

lemma debit_nothing:
  assumes "debit_source lm srcID curB sent s src = Inr (None, s', src')"
    and "curB = NATIVE \<longrightarrow> sent = 0" "coins_wf (fst s)" "synced src (fst s)"
  shows "conserves (fst s) (fst s') src src'"
proof (cases "curB = NATIVE")
  case True
  let ?src = "upd_account (\<lambda>e. e\<lparr>ae_balance := wrap64 (ae_balance e - sent)\<rparr>) src"
  have st: "account_storeChange ?src (fst s) (snd s) = Inr (fst s', snd s')" "src' = ?src"
    using assms(1) True by (auto simp: debit_source_def Let_def rbind_eq_Inr split: if_splits)
  have "0 \<le> ae_balance (mAccountEntry src) \<and> ae_balance (mAccountEntry src) \<le> INT64_MAX"
    using assms(4) coins_wf_lookup [OF assms(3)] by (simp add: synced_def)
  then have "synced ?src (fst s)" using assms(2,4) True by (simp add: synced_def INT64_MIN_def)
  then show ?thesis
    using storeChange_synced [OF st(1)] assms(3) st(2) by (auto intro: conserves_bals)
next
  case False
  then have "bals (fst s') = bals (fst s) \<and> src' = src"
    using assms(1) by (auto simp: debit_source_def rbind_eq_Inr trust_store_bals split: if_splits prod.splits)
  then show ?thesis using assms(3,4) by (auto intro: conserves_bals)
qed

lemma credit_coins:
  assumes "credit_destination p dest s = Inr (None, s')" "synced dest (fst s)" "coins_wf (fst s)"
    and "pay_currency p = NATIVE \<longrightarrow> pay_amount p = 0"
  shows "bals (fst s') = bals (fst s)"
proof (cases "pay_currency p = NATIVE")
  case True
  let ?dest = "upd_account (\<lambda>e. e\<lparr>ae_balance := wrap64 (ae_balance e + pay_amount p)\<rparr>) dest"
  have st: "account_storeChange ?dest (fst s) (snd s) = Inr (fst s', snd s')"
    using assms(1) True by (auto simp: credit_destination_def rbind_eq_Inr)
  have "0 \<le> ae_balance (mAccountEntry dest) \<and> ae_balance (mAccountEntry dest) \<le> INT64_MAX"
    using assms(2) coins_wf_lookup [OF assms(3)] by (simp add: synced_def)
  then have "synced ?dest (fst s)" using assms(2,4) True by (simp add: synced_def INT64_MIN_def)
  then show ?thesis by (rule storeChange_synced [OF st])
next
  case False
  then show ?thesis
    using assms(1) by (auto simp: credit_destination_def rbind_eq_Inr trust_store_bals Let_def split: if_splits prod.splits)
qed

text \<open>A direct native payment moves the amount; the checks of the table exclude every wrap-around.\<close>

lemma direct_native_coins:
  assumes "credit_destination p dest s = Inr (None, s1)" "debit_source lm srcID NATIVE (pay_amount p) s1 src = Inr (None, s2, src')"
    and "pay_currency p = NATIVE" "amount_ok (pay_amount p)"
    and "coins_wf (fst s)" "synced dest (fst s)" "synced src (fst s)"
    and "ae_accountID (mAccountEntry dest) \<noteq> ae_accountID (mAccountEntry src)"
  shows "conserves (fst s) (fst s2) src src'"
proof -
  let ?d = "ae_accountID (mAccountEntry dest)" and ?s = "ae_accountID (mAccountEntry src)"
  let ?bd = "ae_balance (mAccountEntry dest)" and ?bs = "ae_balance (mAccountEntry src)" and ?x = "pay_amount p"
  have b: "map_of (bals (fst s)) ?d = Some ?bd" "map_of (bals (fst s)) ?s = Some ?bs"
    using assms(6,7) by (simp_all add: synced_def)
  have r: "amount_ok ?bd" "amount_ok ?bs" using coins_wf_lookup [OF assms(5)] b by blast+
  have c1: "0 \<le> wrap64 (?bd + ?x)" "bals (fst s1) = AList.update ?d (wrap64 (?bd + ?x)) (bals (fst s))"
    using assms(1,3) by (auto simp: credit_destination_def rbind_eq_Inr dest!: account_storeChange_bals)
  have w1: "wrap64 (?bd + ?x) = ?bd + ?x" "?bd + ?x \<le> INT64_MAX"
  proof -
    show "?bd + ?x \<le> INT64_MAX"
      using wrap64_over [of "?bd + ?x"] c1(1) r(1) assms(4) by (cases "?bd + ?x \<le> INT64_MAX") simp_all
    then show "wrap64 (?bd + ?x) = ?bd + ?x" using r(1) assms(4) by (simp add: INT64_MIN_def)
  qed
  have wf1: "coins_wf (fst s1)" using coins_wf_update [OF assms(5) c1(2)] w1 r(1) assms(4) by simp
  have w2: "wrap64 (?bs - ?x) = ?bs - ?x" using r(2) assms(4) by (simp add: INT64_MIN_def INT64_MAX_def)
  have c2: "0 \<le> ?bs - ?x" "bals (fst s2) = AList.update ?s (?bs - ?x) (bals (fst s1))"
    "src' = upd_account (\<lambda>e. e\<lparr>ae_balance := ?bs - ?x\<rparr>) src"
    using assms(2) w2 by (auto simp: debit_source_def Let_def rbind_eq_Inr split: if_splits dest!: account_storeChange_bals)
  have bs1: "map_of (bals (fst s1)) ?s = Some ?bs"
    using b(2) assms(8) unfolding c1(2) by (simp add: update_conv')
  have "native_total (fst s2) = native_total (fst s)"
    using native_total_update [OF b(1) c1(2)] native_total_update [OF bs1 c2(2)] w1(1) by simp
  moreover have "coins_wf (fst s2)" using coins_wf_update [OF wf1 c2(2)] c2(1) r(2) assms(4) by simp
  moreover have "synced src' (fst s2)" by (simp add: synced_def c2(2,3) update_conv')
  ultimately show ?thesis using c2(3) by (simp add: conserves_def)
qed


lemma sendNoCreate_coins:
  assumes "sendNoCreate lm srcID p dest s src = Inr (True, r, s', src')"
    and "coins_wf (fst s)" "synced dest (fst s)" "synced src (fst s)" "amount_ok (pay_amount p)"
    and "pay_path p = [] \<Longrightarrow> ae_accountID (mAccountEntry dest) \<noteq> ae_accountID (mAccountEntry src)"
  shows "conserves (fst s) (fst s') src src'"
proof -
  obtain s1 where 1: "credit_destination p dest s = Inr (None, s1)"
    using assms(1) unfolding sendNoCreate_def by (auto simp: rbind_eq_Inr split: option.splits)
  obtain curB sent offs s2 where 2:
    "path_loop lm (rev (pay_path p)) (pay_currency p) (pay_amount p) [] s1 = Inr (Some (curB, sent, offs), s2)"
    using assms(1) 1 unfolding sendNoCreate_def by (auto simp: rbind_eq_Inr split: option.splits)
  have 3: "debit_source lm srcID curB sent s2 src = Inr (None, s', src')"
    using assms(1) 1 2 unfolding sendNoCreate_def by (auto simp: rbind_eq_Inr split: option.splits if_splits)
  note path = path_loop_coins [OF 2]
  show ?thesis
  proof (cases "pay_path p = [] \<and> pay_currency p = NATIVE")
    case True
    with 2 3 have "debit_source lm srcID NATIVE (pay_amount p) s1 src = Inr (None, s', src')" by auto
    with direct_native_coins [OF 1] True assms(2-6) show ?thesis by blast
  next
    case False
    with path have z: "pay_currency p = NATIVE \<longrightarrow> pay_amount p = 0" "curB = NATIVE \<longrightarrow> sent = 0"
      by (auto split: if_splits)
    have b: "bals (fst s2) = bals (fst s)"
      using credit_coins [OF 1 assms(3,2) z(1)] path by simp
    have "conserves (fst s2) (fst s') src src'"
      using debit_nothing [OF 3 z(2)] assms(2,4) coins_wf_cong [OF b] synced_cong [OF b] by blast
    then show ?thesis using native_total_cong [OF b] by (simp add: conserves_def)
  qed
qed

lemma payment_coins:
  assumes "payment_doApply lm srcID p s src = Inr (True, r, s', src')"
    and "coins_wf (fst s)" "synced src (fst s)" "ae_accountID (mAccountEntry src) = srcID"
    and "amount_ok (pay_amount p)"
  shows "conserves (fst s) (fst s') src src'"
proof (cases "pay_destination p = srcID \<and> pay_path p = []")
  case True
  then show ?thesis using assms(1-3) by (auto simp: payment_doApply_def intro: conserves_bals)
next
  case other: False
  obtain ok dest where l: "loadAccount (pay_destination p) new_AccountFrame (fst s) = (ok, dest)" by fastforce
  show ?thesis
  proof (cases ok)
    case True
    with l have d: "synced dest (fst s)" "ae_accountID (mAccountEntry dest) = pay_destination p"
      using loadAccount_synced by auto
    have "sendNoCreate lm srcID p dest s src = Inr (True, r, s', src')"
      using assms(1) other l True unfolding payment_doApply_def by (simp only: if_False Let_def) simp
    from sendNoCreate_coins [OF this assms(2) d(1) assms(3,5)] d(2) other assms(4) show ?thesis by auto
  next
    case False
    define dest' where "dest' = upd_account (\<lambda>e. e\<lparr>ae_accountID := pay_destination p,
      ae_seqNum := getStartingSequenceNumber (mCurrentHeader (snd s)), ae_balance := 0\<rparr>) dest"
    obtain s1 where 1: "account_storeAdd dest' (fst s) (snd s) = Inr s1"
      "sendNoCreate lm srcID p dest' s1 src = Inr (True, r, s', src')"
      using assms(1) other l False unfolding payment_doApply_def dest'_def
      by (auto simp: rbind_eq_Inr Let_def split: if_splits)
    have add: "map_of (bals (fst s)) (pay_destination p) = None" "bals (fst s1) = bals (fst s) @ [(pay_destination p, 0)]"
      using account_storeAdd_bals [of dest' "fst s" "snd s" "fst s1" "snd s1"] 1(1) by (simp_all add: dest'_def)
    have new: "pay_destination p \<notin> fst ` set (bals (fst s))" using add(1) by (simp add: map_of_eq_None_iff)
    have wf: "coins_wf (fst s1)" using assms(2) new unfolding coins_wf_def add(2) by (auto simp: INT64_MAX_def)
    have src: "synced src (fst s1)" using assms(3) new unfolding synced_def add(2) by (auto simp: map_add_def)
    have dest: "synced dest' (fst s1)" using add(1) unfolding synced_def add(2) by (simp add: dest'_def map_add_def)
    have "ae_accountID (mAccountEntry dest') \<noteq> ae_accountID (mAccountEntry src)"
      using assms(3) add(1) by (auto simp: dest'_def synced_def)
    then have "conserves (fst s1) (fst s') src src'"
      by (rule sendNoCreate_coins [OF 1(2) wf dest src assms(5)])
    then show ?thesis by (simp add: conserves_def native_total_def add(2))
  qed
qed

subsection \<open>The other operations\<close>

lemma offer_leave_coins:
  assumes "offer_leave lm new oe s src = Inr (Some e, s', src')" "synced src (fst s)"
  shows "bals (fst s') = bals (fst s) \<and> synced src' (fst s) \<and> same_id src src'"
proof (cases "oe_amount oe > 0 \<and> new")
  case True
  then obtain ok oe' d s1 where 1: "addNumEntries 1 lm src = Inr (ok, src')"
    "offer_storeAdd oe' (fst s) d = Inr s1" "account_storeChange src' (fst s1) (snd s1) = Inr s'"
    using assms(1) by (auto simp: offer_leave_def rbind_eq_Inr Let_def split: if_splits prod.splits)
  have b: "bals (fst s1) = bals (fst s)" using offer_store_bals(2) [of oe' "fst s" d "fst s1" "snd s1"] 1(2) by simp
  have "synced src' (fst s)" using addNumEntries_synced [OF 1(1)] assms(2) by simp
  moreover from this have "bals (fst s') = bals (fst s1)"
    using storeChange_synced [of src' "fst s1" "snd s1" "fst s'" "snd s'"] 1(3) synced_cong [OF b] by simp
  ultimately show ?thesis using b addNumEntries_keeps [OF 1(1)] by simp
next
  case False
  then have "src' = src \<and> bals (fst s') = bals (fst s)"
    using assms(1) by (auto simp: offer_leave_def rbind_eq_Inr offer_store_bals split: if_splits)
  then show ?thesis using assms(2) by simp
qed

lemma offer_settle_coins:
  assumes "sheep \<noteq> NATIVE" "wheat \<noteq> NATIVE"
  shows "offer_wheat srcID wheat x s src = Inr (s', src') \<Longrightarrow> bals (fst s') = bals (fst s) \<and> src' = src"
    and "offer_sheep sheep x l s src = Inr (s', src') \<Longrightarrow> bals (fst s') = bals (fst s) \<and> src' = src"
  using assms
  by (auto simp: offer_wheat_def offer_sheep_def rbind_eq_Inr trust_store_bals split: if_splits prod.splits)

lemma offer_balances_coins:
  assumes "offer_balances srcID co sl c s src = Inr (s', src')"
    and "cv_wheatReceived c > 0 \<Longrightarrow> co_takerGets co \<noteq> NATIVE \<and> co_takerPays co \<noteq> NATIVE"
  shows "bals (fst s') = bals (fst s) \<and> src' = src"
proof (cases "cv_wheatReceived c > 0")
  case True
  with assms(1) obtain s2 src2 where "offer_wheat srcID (co_takerPays co) (cv_wheatReceived c) s src = Inr (s2, src2)"
    "offer_sheep (co_takerGets co) (cv_sheepSend c) sl s2 src2 = Inr (s', src')"
    by (auto simp: offer_balances_def rbind_eq_Inr)
  with offer_settle_coins assms(2) [OF True] show ?thesis by metis
qed (use assms(1) in \<open>simp add: offer_balances_def\<close>)

lemma offer_finish_coins:
  assumes "offer_finish lm new oe trail db temp s src = Inr (True, r, s', src')" "synced src (fst s)"
  shows "bals (fst s') = bals (fst s) \<and> synced src' (fst s) \<and> same_id src src'"
proof -
  obtain eff s4 src4 where 1: "offer_leave lm new oe (fst s, temp) src = Inr (eff, s4, src4)"
    using assms(1) by (auto simp: offer_finish_def rbind_eq_Inr)
  with assms(1) obtain e where "eff = Some e" "fst s' = fst s4" "src' = src4"
    by (cases eff) (auto simp: offer_finish_def rbind_eq_Inr)
  with offer_leave_coins [of lm new oe "(fst s, temp)" src] 1 assms(2) show ?thesis by auto
qed

lemma offer_exchange_coins:
  assumes "offer_exchange lm srcID co new oe sl ms mw s src = Inr (True, r, s', src')" "synced src (fst s)"
  shows "bals (fst s') = bals (fst s) \<and> synced src' (fst s) \<and> same_id src src'"
proof -
  let ?P = "\<lparr>price_n = price_d (co_price co), price_d = price_n (co_price co)\<rparr>"
  obtain q c where conv: "convert lm (co_takerGets co) ms (co_takerPays co) mw (Some (offer_filter srcID ?P))
      ((fst s, LedgerDelta_nested (snd s)), []) = Inr (q, c)"
    using assms(1) by (auto simp: offer_exchange_def Let_def rbind_eq_Inr)
  obtain s3 src3 where 3: "offer_balances srcID co sl c (fst (fst (cv_exchange c)), snd s) src = Inr (s3, src3)"
    and 4: "offer_finish lm new (oe\<lparr>oe_amount := wrap64 (ms - cv_sheepSend c)\<rparr>)
             (snd (cv_exchange c)) (fst s) (snd (fst (cv_exchange c))) s3 src3 = Inr (True, r, s', src')"
    using assms(1) conv by (auto simp: offer_exchange_def Let_def rbind_eq_Inr split: if_splits)
  have iso: "co_takerGets co \<noteq> NATIVE \<and> co_takerPays co \<noteq> NATIVE" if "cv_wheatReceived c > 0"
    using that convert_nothing [OF conv] by auto
  have b: "bals (fst s3) = bals (fst s)" "src3 = src"
    using offer_balances_coins [OF 3 iso] convert_bals [OF conv] by auto
  from offer_finish_coins [OF 4] assms(2) b show ?thesis using synced_cong [OF b(1)] by auto
qed

lemma createOffer_coins:
  assumes "createOffer_doApply lm srcID co s src = Inr (True, r, s', src')" "coins_wf (fst s)" "synced src (fst s)"
  shows "conserves (fst s) (fst s') src src'"
proof -
  obtain v where v: "checkOfferValid srcID co (fst s) = Inr v"
    using assms(1) by (auto simp: createOffer_doApply_def rbind_eq_Inr)
  with assms(1) obtain sl wl where vl: "v = Inr (sl, wl)" by (cases v) (auto simp: createOffer_doApply_def)
  with v assms(1) obtain new oe where sel: "select_offer srcID co (fst s) = Inr (new, oe)"
    by (cases "select_offer srcID co (fst s)") (auto simp: createOffer_doApply_def)
  with v vl assms(1) obtain l where l: "offer_limits lm co sl wl src = Inr l"
    by (auto simp: createOffer_doApply_def rbind_eq_Inr)
  with v vl sel assms(1) obtain ms mw where
    "offer_exchange lm srcID co new oe sl ms mw s src = Inr (True, r, s', src')"
    by (cases l) (auto simp: createOffer_doApply_def)
  from offer_exchange_coins [OF this assms(3)] assms(2) show ?thesis by (auto intro: conserves_bals)
qed

lemma erase_signers_keeps:
  "erase_signers lm k ss src = Inr (ss', src') \<Longrightarrow>
   ae_accountID (mAccountEntry src') = ae_accountID (mAccountEntry src) \<and>
   ae_balance (mAccountEntry src') = ae_balance (mAccountEntry src)"
proof (induction ss arbitrary: src ss')
  case (Cons x ss)
  show ?case
  proof (cases "sig_pubKey x = k")
    case True
    with Cons.prems obtain ok src1 where "addNumEntries (- 1) lm src = Inr (ok, src1)"
      "erase_signers lm k ss src1 = Inr (ss', src')" by (auto simp: rbind_eq_Inr)
    with Cons.IH addNumEntries_keeps show ?thesis by metis
  next
    case False
    with Cons show ?thesis by (auto simp: rbind_eq_Inr)
  qed
qed simp

lemma setOptions_coins:
  assumes "setOptions_doApply lm so s src = Inr (True, r, s', src')" "coins_wf (fst s)" "synced src (fst s)"
  shows "conserves (fst s) (fst s') src src'"
proof -
  have st: "account_storeChange src' (fst s) (snd s) = Inr (fst s', snd s')"
    using assms(1) by (auto simp: setOptions_doApply_def rbind_eq_Inr Let_def split: if_splits option.splits)
  have id: "ae_accountID (mAccountEntry src') = ae_accountID (mAccountEntry src) \<and>
    ae_balance (mAccountEntry src') = ae_balance (mAccountEntry src)"
    using assms(1)
    by (auto simp: setOptions_doApply_def option_signer_def rbind_eq_Inr Let_def setUpdateSigners_def normalize_def
        split: if_splits option.splits dest!: erase_signers_keeps addNumEntries_keeps)
  then have "synced src' (fst s)" using assms(3) by (simp add: synced_def)
  then show ?thesis using storeChange_synced [OF st] assms(2) id by (auto intro: conserves_bals)
qed

lemma change_line_coins:
  assumes "change_line lm ct line s src = Inr (True, r, s', src')" "synced src (fst s)"
  shows "bals (fst s') = bals (fst s) \<and> synced src' (fst s) \<and> same_id src src'"
proof -
  from assms(1) consider "src' = src" "\<exists>l. trust_storeChange l (fst s) (snd s) = Inr s'"
    | ok a c s1 where "addNumEntries (- 1) lm src = Inr (ok, src')"
      "trust_storeDelete a c (fst s) (snd s) = Inr s1" "account_storeChange src' (fst s1) (snd s1) = Inr s'"
    by (auto simp: change_line_def rbind_eq_Inr Let_def split: if_splits)
  then show ?thesis
  proof cases
    case 1
    then show ?thesis using trust_store_bals(1) assms(2) by (metis prod.collapse)
  next
    case 2
    have b: "bals (fst s1) = bals (fst s)" using trust_store_bals(3) 2(2) by (metis prod.collapse)
    have "synced src' (fst s)" using addNumEntries_synced [OF 2(1)] assms(2) by simp
    then show ?thesis
      using storeChange_synced [of src' "fst s1" "snd s1" "fst s'" "snd s'"] 2(3) b synced_cong [OF b]
        addNumEntries_keeps [OF 2(1)] by simp
  qed
qed

lemma new_line_coins:
  assumes "new_line lm srcID ct line s src = Inr (True, r, s', src')" "synced src (fst s)"
  shows "bals (fst s') = bals (fst s) \<and> synced src' (fst s) \<and> same_id src src'"
proof -
  from assms(1) obtain ok l s1 where 1: "addNumEntries 1 lm src = Inr (ok, src')"
    "account_storeChange src' (fst s) (snd s) = Inr s1" "trust_storeAdd l (fst s1) (snd s1) = Inr s'"
    by (cases "loadAccount (snd (projr (isoCI (ct_line ct)))) new_AccountFrame (fst s)")
      (auto simp: new_line_def rbind_eq_Inr Let_def split: if_splits)
  have y: "synced src' (fst s)" using addNumEntries_synced [OF 1(1)] assms(2) by simp
  have "bals (fst s1) = bals (fst s)"
    using storeChange_synced [of src' "fst s" "snd s" "fst s1" "snd s1"] 1(2) y by simp
  moreover have "bals (fst s') = bals (fst s1)" using trust_store_bals(2) 1(3) by (metis prod.collapse)
  ultimately show ?thesis using y addNumEntries_keeps [OF 1(1)] by simp
qed

lemma changeTrust_coins:
  assumes "changeTrust_doApply lm srcID ct s src = Inr (True, r, s', src')" "coins_wf (fst s)" "synced src (fst s)"
  shows "conserves (fst s) (fst s') src src'"
proof -
  from assms(1) obtain line where "change_line lm ct line s src = Inr (True, r, s', src') \<or>
      new_line lm srcID ct line s src = Inr (True, r, s', src')"
    by (auto simp: changeTrust_doApply_def rbind_eq_Inr split: if_splits)
  then show ?thesis using change_line_coins new_line_coins assms(2,3) by (blast intro: conserves_bals)
qed

lemma allowTrust_coins:
  assumes "allowTrust_doApply srcID at s src = Inr (True, r, s', src')" "coins_wf (fst s)" "synced src (fst s)"
  shows "conserves (fst s) (fst s') src src'"
proof -
  have "src' = src" "\<exists>l. trust_storeChange l (fst s) (snd s) = Inr (fst s', snd s')"
    using assms(1) by (auto simp: allowTrust_doApply_def rbind_eq_Inr split: if_splits option.splits)
  then show ?thesis using trust_store_bals(1) assms(2,3) by (metis conserves_bals)
qed

text \<open>An account merge never succeeds: its query names a column the table does not have.\<close>

lemma merge_fails: "merge_doApply srcID dest s src \<noteq> Inr (True, r, s', src')"
  by (auto simp: merge_doApply_def select_trust_def trust_columns_def Let_def split: prod.splits)

end
