(* ===== verification/Transaction_Frame.thy ===== *)
theory Transaction_Frame
  imports Operations
begin

text \<open>
  \<open>src/transactions/OperationFrame.cpp\<close> and \<open>TransactionFrame.cpp\<close>: checking and applying a
  transaction.

  The hash of a transaction's contents and the verification of a signature are parameters:
  \<open>CH\<close> is the SHA-256 of the XDR of the transaction, \<open>V k sig h\<close> is \<open>PublicKey::verifySig\<close> of
  libsodium. The header passed as \<open>lm\<close> is the ledger manager's current one.

  A transaction keeps the frame of its source account in memory while its operations run. An
  operation with the same source shares that frame; any other loads its own, which ends with it.
\<close>

subsection \<open>Signatures\<close>

type_synonym verifier = "uint256 \<Rightarrow> Signature \<Rightarrow> Hash \<Rightarrow> bool"

text \<open>The hint of a signature is the first four bytes of the key.\<close>

definition key_hint :: "uint256 \<Rightarrow> uint32" where
  "key_hint k = ucast (drop_bit 224 k)"

text \<open>The first key that the signature verifies under, with its weight; it is erased.\<close>

fun take_key :: "verifier \<Rightarrow> Hash \<Rightarrow> DecoratedSignature \<Rightarrow> Signer list \<Rightarrow> (uint32 \<times> Signer list) option" where
  "take_key V h sg [] = None"
| "take_key V h sg (k # ks) =
     (if ds_hint sg = key_hint (sig_pubKey k) \<and> V (sig_pubKey k) (ds_signature sg) h
      then Some (sig_weight k, ks)
      else map_option (\<lambda>(w, ks'). (w, k # ks')) (take_key V h sg ks))"

text \<open>The loop over the signatures, with the index of the next one and the weight so far.\<close>

fun check_sigs ::
    "verifier \<Rightarrow> Hash \<Rightarrow> int32 \<Rightarrow> nat \<Rightarrow> DecoratedSignature list \<Rightarrow> Signer list \<Rightarrow> uint32 \<Rightarrow> bool list
      \<Rightarrow> bool \<times> bool list" where
  "check_sigs V h needed i [] keys totalWeight used = (False, used)"
| "check_sigs V h needed i (sg # sgs) keys totalWeight used =
     (case take_key V h sg keys of
        None \<Rightarrow> check_sigs V h needed (Suc i) sgs keys totalWeight used
      | Some (w, keys') \<Rightarrow>
          if sint (totalWeight + w) \<ge> needed then (True, used[i := True])
          else check_sigs V h needed (Suc i) sgs keys' (totalWeight + w) (used[i := True]))"

definition key_weights :: "AccountEntry \<Rightarrow> Signer list" where
  "key_weights e =
     (if fst (ae_thresholds e) \<noteq> 0
      then [\<lparr>sig_pubKey = ae_accountID e, sig_weight = ucast (fst (ae_thresholds e))\<rparr>] else []) @ ae_signers e"

record TxFrame =
  tf_envelope :: TransactionEnvelope
  tf_result :: TransactionResult
  tf_signing :: "AccountFrame option"
  tf_used :: "bool list"

definition checkSignature ::
    "verifier \<Rightarrow> (Transaction \<Rightarrow> Hash) \<Rightarrow> AccountFrame \<Rightarrow> int32 \<Rightarrow> TxFrame \<Rightarrow> bool \<times> TxFrame" where
  "checkSignature V CH account neededWeight tf =
     (let (ok, used) = check_sigs V (CH (env_tx (tf_envelope tf))) neededWeight 0
            (env_signatures (tf_envelope tf)) (key_weights (mAccountEntry account)) 0 (tf_used tf)
      in (ok, tf\<lparr>tf_used := used\<rparr>))"

subsection \<open>Operations of a transaction\<close>

definition op_getSourceID :: "TxFrame \<Rightarrow> Operation \<Rightarrow> AccountID" where
  "op_getSourceID tf op =
     (case op_sourceAccount op of Some a \<Rightarrow> a | None \<Rightarrow> tx_sourceAccount (env_tx (tf_envelope tf)))"

text \<open>\<open>TransactionFrame::loadAccount\<close>: the shared frame, or a new one from the database.\<close>

definition shares_frame :: "TxFrame \<Rightarrow> AccountID \<Rightarrow> bool" where
  "shares_frame tf a \<longleftrightarrow>
     (case tf_signing tf of None \<Rightarrow> False | Some f \<Rightarrow> ae_accountID (mAccountEntry f) = a)"

definition tx_loadAccount :: "TxFrame \<Rightarrow> AccountID \<Rightarrow> Database \<Rightarrow> AccountFrame option" where
  "tx_loadAccount tf a db =
     (if shares_frame tf a then tf_signing tf
      else case loadAccount a new_AccountFrame db of (ok, f) \<Rightarrow> if ok then Some f else None)"

fun getNeededThreshold :: "OperationBody \<Rightarrow> AccountFrame \<Rightarrow> int32" where
  "getNeededThreshold (SET_OPTIONS so) src =
     (if so_thresholds so \<noteq> None \<or> so_signer so \<noteq> None
      then uint (getHighThreshold (ae_thresholds (mAccountEntry src)))
      else uint (getMediumThreshold (ae_thresholds (mAccountEntry src))))"
| "getNeededThreshold (ALLOW_TRUST at) src = uint (getLowThreshold (ae_thresholds (mAccountEntry src)))"
| "getNeededThreshold (ACCOUNT_MERGE dest) src = uint (getHighThreshold (ae_thresholds (mAccountEntry src)))"
| "getNeededThreshold _ src = uint (getMediumThreshold (ae_thresholds (mAccountEntry src)))"

text \<open>The result after its type is set: code zero, the value of success.\<close>

fun default_result :: "OperationBody \<Rightarrow> OperationResult" where
  "default_result (PAYMENT _) = PaymentRes PAYMENT_SUCCESS"
| "default_result (CREATE_OFFER _) =
     CreateOfferRes (CREATE_OFFER_SUCCESS [] (CREATE_OFFER_CREATED new_OfferFrame))"
| "default_result (SET_OPTIONS _) = SetOptionsRes SET_OPTIONS_SUCCESS"
| "default_result (CHANGE_TRUST _) = ChangeTrustRes CHANGE_TRUST_SUCCESS"
| "default_result (ALLOW_TRUST _) = AllowTrustRes ALLOW_TRUST_SUCCESS"
| "default_result (ACCOUNT_MERGE _) = AccountMergeRes ACCOUNT_MERGE_SUCCESS"
| "default_result (INFLATION _) = InflationRes INFLATION_SUCCESS"

fun doCheckValid :: "AccountID \<Rightarrow> OperationBody \<Rightarrow> OperationResult option" where
  "doCheckValid srcID (PAYMENT p) = map_option PaymentRes (payment_doCheckValid p)"
| "doCheckValid srcID (CREATE_OFFER co) = map_option CreateOfferRes (createOffer_doCheckValid co)"
| "doCheckValid srcID (SET_OPTIONS so) = map_option SetOptionsRes (setOptions_doCheckValid so)"
| "doCheckValid srcID (CHANGE_TRUST ct) = map_option ChangeTrustRes (changeTrust_doCheckValid ct)"
| "doCheckValid srcID (ALLOW_TRUST at) = map_option AllowTrustRes (allowTrust_doCheckValid at)"
| "doCheckValid srcID (ACCOUNT_MERGE dest) = map_option AccountMergeRes (merge_doCheckValid srcID dest)"
| "doCheckValid srcID (INFLATION _) = None"

definition lift_result :: "('r \<Rightarrow> OperationResult) \<Rightarrow> 'r outcome \<Rightarrow> OperationResult outcome" where
  "lift_result f m = rbind m (\<lambda>(ok, r, s, src). Inr (ok, f r, s, src))"

fun doApply ::
    "LedgerHeader \<Rightarrow> AccountID \<Rightarrow> OperationBody \<Rightarrow> Store \<Rightarrow> AccountFrame \<Rightarrow> OperationResult outcome" where
  "doApply lm srcID (PAYMENT p) s src = lift_result PaymentRes (payment_doApply lm srcID p s src)"
| "doApply lm srcID (CREATE_OFFER co) s src = lift_result CreateOfferRes (createOffer_doApply lm srcID co s src)"
| "doApply lm srcID (SET_OPTIONS so) s src = lift_result SetOptionsRes (setOptions_doApply lm so s src)"
| "doApply lm srcID (CHANGE_TRUST ct) s src = lift_result ChangeTrustRes (changeTrust_doApply lm srcID ct s src)"
| "doApply lm srcID (ALLOW_TRUST at) s src = lift_result AllowTrustRes (allowTrust_doApply srcID at s src)"
| "doApply lm srcID (ACCOUNT_MERGE dest) s src = lift_result AccountMergeRes (merge_doApply srcID dest s src)"
| "doApply lm srcID (INFLATION _) s src = lift_result InflationRes (inflation_doApply s src)"

text \<open>
  \<open>OperationFrame::checkValid\<close>: whether the operation is valid, its result, the transaction with
  the signatures it used, and the frame of its source.
\<close>

definition op_checkValid ::
    "verifier \<Rightarrow> (Transaction \<Rightarrow> Hash) \<Rightarrow> Operation \<Rightarrow> Database \<Rightarrow> TxFrame
      \<Rightarrow> bool \<times> OperationResult \<times> TxFrame \<times> AccountFrame option" where
  "op_checkValid V CH op db tf =
     (let srcID = op_getSourceID tf op
      in case tx_loadAccount tf srcID db of
           None \<Rightarrow> (False, opNO_ACCOUNT, tf, None)
         | Some src \<Rightarrow>
             let (ok, tf') = checkSignature V CH src (getNeededThreshold (op_body op) src) tf
             in if \<not> ok then (False, opBAD_AUTH, tf', Some src)
                else case doCheckValid srcID (op_body op) of
                       Some r \<Rightarrow> (False, r, tf', Some src)
                     | None \<Rightarrow> (True, default_result (op_body op), tf', Some src))"

definition op_apply ::
    "verifier \<Rightarrow> (Transaction \<Rightarrow> Hash) \<Rightarrow> LedgerHeader \<Rightarrow> Operation \<Rightarrow> Store \<Rightarrow> TxFrame
      \<Rightarrow> (bool \<times> OperationResult \<times> Store \<times> TxFrame) res" where
  "op_apply V CH lm op s tf =
     (case op_checkValid V CH op (fst s) tf of
        (True, r, tf', Some src) \<Rightarrow>
          rbind (doApply lm (op_getSourceID tf op) (op_body op) s src) (\<lambda>(ok, r', s', src').
          Inr (ok, r', s', if shares_frame tf (op_getSourceID tf op) then tf'\<lparr>tf_signing := Some src'\<rparr> else tf'))
      | (_, r, tf', _) \<Rightarrow> Inr (False, r, s, tf'))"

subsection \<open>Transactions\<close>

definition set_code :: "TransactionResultCode \<Rightarrow> TxFrame \<Rightarrow> TxFrame" where
  "set_code c tf = tf\<lparr>tf_result := (tf_result tf)\<lparr>tr_code := c, tr_results := []\<rparr>\<rparr>"

definition set_results :: "OperationResult list \<Rightarrow> TxFrame \<Rightarrow> TxFrame" where
  "set_results rs tf = tf\<lparr>tf_result := (tf_result tf)\<lparr>tr_results := rs\<rparr>\<rparr>"

definition set_fee :: "int64 \<Rightarrow> TxFrame \<Rightarrow> TxFrame" where
  "set_fee fee tf = tf\<lparr>tf_result := (tf_result tf)\<lparr>tr_feeCharged := fee\<rparr>\<rparr>"

definition getFee :: "LedgerHeader \<Rightarrow> Transaction \<Rightarrow> int64" where
  "getFee lm tx =
     (let count = (if length (tx_operations tx) = 0 then 1 else length (tx_operations tx))
      in wrap64 (getTxFee lm * int count))"

definition resetState :: "TxFrame \<Rightarrow> TxFrame" where
  "resetState tf = tf\<lparr>tf_signing := None, tf_used := replicate (length (env_signatures (tf_envelope tf))) False\<rparr>"

definition checkAllSignaturesUsed :: "TxFrame \<Rightarrow> bool \<times> TxFrame" where
  "checkAllSignaturesUsed tf =
     (if \<forall>b \<in> set (tf_used tf). b then (True, tf) else (False, set_code txBAD_AUTH_EXTRA tf))"

definition markResultFailed :: "TxFrame \<Rightarrow> TxFrame" where
  "markResultFailed tf = tf\<lparr>tf_result := (tf_result tf)\<lparr>tr_code := txFAILED\<rparr>\<rparr>"

text \<open>The loop of \<open>checkValid\<close> over the operations, with the results so far.\<close>

fun check_ops ::
    "verifier \<Rightarrow> (Transaction \<Rightarrow> Hash) \<Rightarrow> Database \<Rightarrow> Operation list \<Rightarrow> OperationResult list \<Rightarrow> TxFrame
      \<Rightarrow> bool \<times> OperationResult list \<times> TxFrame" where
  "check_ops V CH db [] rs tf = (True, rs, tf)"
| "check_ops V CH db (op # ops) rs tf =
     (let (ok, r, tf', _) = op_checkValid V CH op db tf
      in if ok then check_ops V CH db ops (rs @ [r]) tf' else (False, rs @ [r], tf'))"

text \<open>The results are allocated for all operations beforehand, with the value of code zero.\<close>

definition fresh_results :: "Operation list \<Rightarrow> OperationResult list" where
  "fresh_results ops = replicate (length ops) (PaymentRes PAYMENT_SUCCESS)"

definition checkValid_ops ::
    "verifier \<Rightarrow> (Transaction \<Rightarrow> Hash) \<Rightarrow> Database \<Rightarrow> TxFrame \<Rightarrow> bool \<times> TxFrame" where
  "checkValid_ops V CH db tf =
     (let ops = tx_operations (env_tx (tf_envelope tf)); (ok, rs, tf') = check_ops V CH db ops [] tf;
          tf1 = set_results (rs @ drop (length rs) (fresh_results ops)) tf'
      in if ok then checkAllSignaturesUsed tf1 else (False, markResultFailed tf1))"

definition checkValid ::
    "verifier \<Rightarrow> (Transaction \<Rightarrow> Hash) \<Rightarrow> LedgerHeader \<Rightarrow> bool \<Rightarrow> SequenceNumber \<Rightarrow> Database \<Rightarrow> TxFrame
      \<Rightarrow> bool \<times> TxFrame" where
  "checkValid V CH lm applying cur db tf =
     (let tx = env_tx (tf_envelope tf);
          tf0 = set_fee 0 (set_results (fresh_results (tx_operations tx)) (set_code txSUCCESS tf));
          fee = getFee lm tx
      in if tx_operations tx = [] then (False, set_code txMISSING_OPERATION tf0)
         else if tx_maxLedger tx < lh_ledgerSeq lm then (False, set_code txBAD_LEDGER tf0)
         else if tx_minLedger tx > lh_ledgerSeq lm then (False, set_code txBAD_LEDGER tf0)
         else if tx_maxFee tx < fee then (False, set_code txINSUFFICIENT_FEE tf0)
         else case tx_loadAccount tf0 (tx_sourceAccount tx) db of
           None \<Rightarrow> (False, set_code txNO_ACCOUNT (tf0\<lparr>tf_signing := None\<rparr>))
         | Some f \<Rightarrow>
             let tf1 = tf0\<lparr>tf_signing := Some f\<rparr>;
                 cur' = (if cur = 0 then ae_seqNum (mAccountEntry f) else cur)
             in if cur' + 1 \<noteq> tx_seqNum tx then (False, set_code txBAD_SEQ tf1)
                else
                  let (ok, tf2) = checkSignature V CH f
                        (uint (getLowThreshold (ae_thresholds (mAccountEntry f)))) tf1
                  in if \<not> ok then (False, set_code txBAD_AUTH tf2)
                     else
                       let tf3 = set_fee fee tf2
                       in if wrap64 (ae_balance (mAccountEntry f) - fee) < getMinimumBalance lm f
                          then (False, set_code txINSUFFICIENT_BALANCE tf3)
                          else if \<not> applying then checkValid_ops V CH db tf3 else (True, tf3))"

definition tx_checkValid ::
    "verifier \<Rightarrow> (Transaction \<Rightarrow> Hash) \<Rightarrow> LedgerHeader \<Rightarrow> SequenceNumber \<Rightarrow> Database \<Rightarrow> TxFrame \<Rightarrow> bool \<times> TxFrame" where
  "tx_checkValid V CH lm cur db tf = checkValid V CH lm False cur db (resetState tf)"

text \<open>
  Collecting the fee. Without a fee to charge nothing is done. The signing account is there
  whenever a fee was set.
\<close>

definition prepareResult :: "LedgerHeader \<Rightarrow> Store \<Rightarrow> TxFrame \<Rightarrow> (Store \<times> TxFrame) res" where
  "prepareResult lm s tf =
     (let fee = tr_feeCharged (tf_result tf)
      in if fee > 0 then
           case tf_signing tf of
             None \<Rightarrow> Inl AssertFailed
           | Some f \<Rightarrow>
               rbind (getBalanceAboveReserve lm f) (\<lambda>avail.
               let fee' = (if avail < fee then avail else fee);
                   f' = upd_account (\<lambda>e. e\<lparr>ae_seqNum := tx_seqNum (env_tx (tf_envelope tf)),
                     ae_balance := wrap64 (ae_balance e - fee')\<rparr>) f;
                   delta = (snd s)\<lparr>mCurrentHeader := (mCurrentHeader (snd s))
                     \<lparr>lh_feePool := wrap64 (lh_feePool (mCurrentHeader (snd s)) + fee')\<rparr>\<rparr>
               in rbind (account_storeChange f' (fst s) delta) (\<lambda>s'.
                  Inr (s', tf\<lparr>tf_signing := Some f'\<rparr>)))
         else Inr (s, tf))"

text \<open>The loop of \<open>apply\<close>: every operation is applied, whether or not one before it failed.\<close>

fun apply_ops ::
    "verifier \<Rightarrow> (Transaction \<Rightarrow> Hash) \<Rightarrow> LedgerHeader \<Rightarrow> Operation list \<Rightarrow> bool \<Rightarrow> OperationResult list \<Rightarrow> Store \<Rightarrow> TxFrame
      \<Rightarrow> (bool \<times> OperationResult list \<times> Store \<times> TxFrame) res" where
  "apply_ops V CH lm [] err rs s tf = Inr (err, rs, s, tf)"
| "apply_ops V CH lm (op # ops) err rs s tf =
     rbind (op_apply V CH lm op s tf) (\<lambda>(ok, r, s', tf').
     apply_ops V CH lm ops (err \<or> \<not> ok) (rs @ [r]) s' tf')"

text \<open>
  The end of an application: the value returned, the transaction and the store; or an exception,
  with the transaction, the database and the entries of the delta it leaves behind. An exception,
  like a failed operation, restores the database to what it was when the inner SQL transaction began.
\<close>

type_synonym tx_outcome = "(cpp_error \<times> Store \<times> TxFrame) + (bool \<times> Store \<times> TxFrame)"

definition tx_run ::
    "verifier \<Rightarrow> (Transaction \<Rightarrow> Hash) \<Rightarrow> LedgerHeader \<Rightarrow> Store \<Rightarrow> TxFrame \<Rightarrow> tx_outcome" where
  "tx_run V CH lm s tf =
     (case apply_ops V CH lm (tx_operations (env_tx (tf_envelope tf))) False [] (fst s, LedgerDelta_nested (snd s)) tf of
        Inl e \<Rightarrow> Inl (e, s, tf)
      | Inr (err, rs, s2, tf2) \<Rightarrow>
          let tf3 = set_results rs tf2
          in if err then Inr (True, s, markResultFailed tf3)
             else
               let (used, tf4) = checkAllSignaturesUsed tf3
               in if \<not> used then Inr (False, s, tf4)
                  else case commit_nested (snd s2) (snd s) of
                         Inl e \<Rightarrow> Inl (e, (fst s2, snd s), tf4)
                       | Inr (delta, _) \<Rightarrow> Inr (True, (fst s2, delta), tf4))"

definition tx_apply ::
    "verifier \<Rightarrow> (Transaction \<Rightarrow> Hash) \<Rightarrow> LedgerHeader \<Rightarrow> Store \<Rightarrow> TxFrame \<Rightarrow> tx_outcome" where
  "tx_apply V CH lm s tf =
     (let (ok, tf1) = checkValid V CH lm True 0 (fst s) (resetState tf)
      in case prepareResult lm s tf1 of
           Inl e \<Rightarrow> Inl (e, s, tf1)
         | Inr (s1, tf2) \<Rightarrow> if \<not> ok then Inr (False, s1, tf2) else tx_run V CH lm s1 tf2)"

text \<open>The table \<open>TxHistory\<close>, and the hasher as the list of what was added to it.\<close>

record TransactionResultPair =
  trp_transactionHash :: Hash
  trp_result :: TransactionResult

record TxRow =
  txr_txID :: Hash
  txr_ledgerSeq :: uint32
  txr_txindex :: nat
  txr_TxBody :: TransactionEnvelope
  txr_TxResult :: TransactionResultPair
  txr_TxMeta :: "BucketEntry list"

definition getResultPair :: "(Transaction \<Rightarrow> Hash) \<Rightarrow> TxFrame \<Rightarrow> TransactionResultPair" where
  "getResultPair CH tf = \<lparr>trp_transactionHash = CH (env_tx (tf_envelope tf)), trp_result = tf_result tf\<rparr>"

definition storeTransaction ::
    "(Transaction \<Rightarrow> Hash) \<Rightarrow> LedgerHeader \<Rightarrow> LedgerDelta \<Rightarrow> nat \<Rightarrow> TxFrame
      \<Rightarrow> TxRow list \<times> TransactionResultPair list \<Rightarrow> (TxRow list \<times> TransactionResultPair list) res" where
  "storeTransaction CH lm delta txindex tf st =
     (let row = \<lparr>txr_txID = CH (env_tx (tf_envelope tf)), txr_ledgerSeq = lh_ledgerSeq lm, txr_txindex = txindex,
            txr_TxBody = tf_envelope tf, txr_TxResult = getResultPair CH tf, txr_TxMeta = getTransactionMeta delta\<rparr>
      in if sint (txr_ledgerSeq row) < 0 then Inl (SqlError ''CHECK constraint failed: TxHistory'')
         else if \<exists>r \<in> set (fst st). txr_ledgerSeq r = txr_ledgerSeq row \<and>
              (txr_txID r = txr_txID row \<or> txr_txindex r = txr_txindex row)
         then Inl (SqlError ''UNIQUE constraint failed: TxHistory'')
         else Inr (fst st @ [row], snd st @ [getResultPair CH tf]))"

end
