(* ===== verification/Delta_Invariant.thy ===== *)
theory Delta_Invariant
  imports Transaction_Frame
begin

text \<open>
  What every operation keeps of the delta it works on. A property of deltas that the recording of
  changes, the generation of identifiers, nesting and committing keep is kept by every operation,
  whatever its outcome.
\<close>

locale delta_invariant =
  fixes I :: "LedgerDelta \<Rightarrow> bool"
  assumes add: "addEntry e d = Inr d' \<Longrightarrow> I d \<Longrightarrow> I d'"
    and chg: "modEntry e d = Inr d' \<Longrightarrow> I d \<Longrightarrow> I d'"
    and del: "deleteEntry k d = Inr d' \<Longrightarrow> I d \<Longrightarrow> I d'"
    and gen: "I d \<Longrightarrow> I (d\<lparr>mCurrentHeader := snd (generateID (mCurrentHeader d))\<rparr>)"
    and nested: "I d \<Longrightarrow> I (LedgerDelta_nested d)"
    and committed: "commit_nested d outer = Inr (outer', d') \<Longrightarrow> I d \<Longrightarrow> I outer \<Longrightarrow> I outer'"
begin

abbreviation Is :: "Store \<Rightarrow> bool" where
  "Is s \<equiv> I (snd s)"

lemma frames:
  "account_storeChange f db d = Inr s \<Longrightarrow> I d \<Longrightarrow> Is s"
  "account_storeAdd f db d = Inr s \<Longrightarrow> I d \<Longrightarrow> Is s"
  "account_storeDelete a db d = Inr s \<Longrightarrow> I d \<Longrightarrow> Is s"
  "trust_storeChange t db d = Inr s \<Longrightarrow> I d \<Longrightarrow> Is s"
  "trust_storeAdd t db d = Inr s \<Longrightarrow> I d \<Longrightarrow> Is s"
  "trust_storeDelete a c db d = Inr s \<Longrightarrow> I d \<Longrightarrow> Is s"
  "offer_storeChange oe db d = Inr s \<Longrightarrow> I d \<Longrightarrow> Is s"
  "offer_storeAdd oe db d = Inr s \<Longrightarrow> I d \<Longrightarrow> Is s"
  "offer_storeDelete a i db d = Inr s \<Longrightarrow> I d \<Longrightarrow> Is s"
  using add chg del
  by (auto simp: account_storeChange_def account_storeAdd_def account_storeUpdate_def account_storeDelete_def
      trust_storeChange_def trust_storeAdd_def trust_storeDelete_def offer_storeChange_def offer_storeAdd_def
      offer_storeDelete_def rbind_eq_Inr Let_def split: if_splits prod.splits)

lemmas frames_pair = frames [where s = "(a, b)" for a b, unfolded snd_conv]

lemma cross_offer_store_I:
  "cross_offer_store lm taken oe w f s = Inr (f', oe', s') \<Longrightarrow> Is s \<Longrightarrow> Is s'"
  by (auto simp: cross_offer_store_def rbind_eq_Inr Let_def split: if_splits dest: frames frames_pair)

lemma cross_balance_I: "cross_balance c x f l s = Inr (ok, f', s') \<Longrightarrow> Is s \<Longrightarrow> Is s'"
  by (auto simp: cross_balance_def rbind_eq_Inr Let_def split: if_splits prod.splits dest: frames frames_pair)

lemma cross_execute_I:
  assumes "cross_execute lm oe f wl sl w x taken ex = Inr (cor, w', x', ex')" "Is (fst ex)"
  shows "Is (fst ex')"
proof -
  obtain f1 oe2 s1 where 1: "cross_offer_store lm taken oe w f (fst ex) = Inr (f1, oe2, s1)"
    using assms(1) unfolding cross_execute_def by (auto simp: rbind_eq_Inr)
  obtain ok1 f2 s2 where 2: "cross_balance (oe_takerPays oe) x f1 sl s1 = Inr (ok1, f2, s2)"
    using assms(1) 1 unfolding cross_execute_def by (auto simp: rbind_eq_Inr)
  have I2: "Is s2" using cross_balance_I [OF 2 cross_offer_store_I [OF 1 assms(2)]] .
  show ?thesis
  proof (cases ok1)
    case False
    then show ?thesis using assms(1) 1 2 I2 by (auto simp: cross_execute_def)
  next
    case True
    obtain ok2 f3 s3 where 3: "cross_balance (oe_takerGets oe) (- w) f2 wl s2 = Inr (ok2, f3, s3)"
      using assms(1) 1 2 True unfolding cross_execute_def by (auto simp: rbind_eq_Inr)
    then show ?thesis
      using assms(1) 1 2 True cross_balance_I [OF 3 I2] by (auto simp: cross_execute_def split: if_splits)
  qed
qed

lemma crossOffer_I:
  assumes "crossOffer lm oe mw ms ex = Inr (cor, w, x, ex')" "Is (fst ex)"
  shows "Is (fst ex')"
proof (cases "ex' = ex")
  case False
  with assms(1) obtain f oe1 wl sl w0 x0 taken where "cross_execute lm oe1 f wl sl w0 x0 taken ex = Inr (cor, w, x, ex')"
    unfolding crossOffer_def by (auto simp: rbind_eq_Inr Let_def split: if_splits prod.splits)
  with cross_execute_I assms(2) show ?thesis by blast
qed (use assms(2) in simp)

lemma convert_offers_I:
  "convert_offers lm filt os c = Inr (r, c') \<Longrightarrow> Is (fst (cv_exchange c)) \<Longrightarrow> Is (fst (cv_exchange c'))"
proof (induction os arbitrary: c)
  case (Cons oe os)
  show ?case
  proof (cases "case filt of None \<Rightarrow> False | Some f \<Rightarrow> f oe = eStop")
    case True
    with Cons.prems show ?thesis by auto
  next
    case False
    with Cons.prems(1) obtain cor w x ex where cross:
      "crossOffer lm oe (cv_maxWheatReceive c) (cv_maxSheepSend c) (cv_exchange c) = Inr (cor, w, x, ex)"
      by (auto simp: rbind_eq_Inr)
    have "Is (fst ex)" using crossOffer_I [OF cross Cons.prems(2)] .
    then show ?thesis
      using Cons.prems False cross Cons.IH by (auto simp: rbind_eq_Inr Let_def split: if_splits)
  qed
qed simp

lemma convert_loop_I:
  "convert_loop fuel lm sheep wheat filt c = Some (Inr (r, c')) \<Longrightarrow> Is (fst (cv_exchange c)) \<Longrightarrow>
   Is (fst (cv_exchange c'))"
proof (induction fuel arbitrary: c)
  case (Suc fuel)
  let ?l = "loadBestOffers 5 (nat (cv_offerOffset c)) sheep wheat (fst (fst (cv_exchange c)))"
  let ?c = "c\<lparr>cv_offerOffset := cv_offerOffset c + int (length ?l)\<rparr>"
  show ?case
  proof (cases "needMore c")
    case True
    with Suc.prems obtain q c1 where conv: "convert_offers lm filt ?l ?c = Inr (q, c1)"
      by (auto simp: Let_def split: sum.splits)
    have "Is (fst (cv_exchange c1))" using convert_offers_I [OF conv] Suc.prems(2) by simp
    then show ?thesis
      using True Suc conv by (cases q) (auto simp: Let_def split: if_splits)
  qed (use Suc.prems in simp)
qed (auto split: if_splits)

lemma convert_I:
  "convert lm sheep ms wheat mw filt ex = Inr (r, c) \<Longrightarrow> Is (fst ex) \<Longrightarrow> Is (fst (cv_exchange c))"
  by (auto simp: convert_def convertWithOffers_def start_conversion_def simp del: convert_loop.simps
      split: option.splits dest!: convert_loop_I)

lemma path_loop_I: "path_loop lm cs curB recv offers s = Inr (w, s') \<Longrightarrow> Is s \<Longrightarrow> Is s'"
proof (induction cs arbitrary: curB recv offers s)
  case (Cons curA cs)
  obtain r c where conv: "convert lm curA INT64_MAX curB recv None (s, []) = Inr (r, c)"
    using Cons.prems by (auto simp: rbind_eq_Inr)
  have "Is (fst (cv_exchange c))" using convert_I [OF conv] Cons.prems(2) by simp
  with Cons conv show ?case by (cases r) (auto split: if_splits)
qed simp

lemma credit_I: "credit_destination p dest s = Inr (e, s') \<Longrightarrow> Is s \<Longrightarrow> Is s'"
  by (auto simp: credit_destination_def rbind_eq_Inr Let_def split: if_splits prod.splits dest: frames frames_pair)

lemma debit_I: "debit_source lm srcID c x s src = Inr (e, s', src') \<Longrightarrow> Is s \<Longrightarrow> Is s'"
  by (auto simp: debit_source_def rbind_eq_Inr Let_def split: if_splits prod.splits dest: frames frames_pair)

lemma sendNoCreate_I:
  assumes "sendNoCreate lm srcID p dest s src = Inr (ok, r, s', src')" "Is s"
  shows "Is s'"
proof -
  obtain e1 s1 where 1: "credit_destination p dest s = Inr (e1, s1)"
    using assms(1) by (auto simp: sendNoCreate_def rbind_eq_Inr)
  have I1: "Is s1" using credit_I [OF 1 assms(2)] .
  show ?thesis
  proof (cases e1)
    case (Some e)
    then show ?thesis using assms(1) 1 I1 by (simp add: sendNoCreate_def)
  next
    case None
    with assms(1) 1 obtain w s2 where 2:
      "path_loop lm (rev (pay_path p)) (pay_currency p) (pay_amount p) [] s1 = Inr (w, s2)"
      by (auto simp: sendNoCreate_def rbind_eq_Inr)
    have I2: "Is s2" using path_loop_I [OF 2 I1] .
    show ?thesis
    proof (cases w)
      case None
      then show ?thesis using \<open>e1 = None\<close> assms(1) 1 2 I2 by (simp add: sendNoCreate_def)
    next
      case (Some q)
      then obtain curB sent offs where q: "w = Some (curB, sent, offs)" by (cases q) auto
      show ?thesis
      proof (cases "sent > pay_sendMax p")
        case True
        then show ?thesis using \<open>e1 = None\<close> q assms(1) 1 2 I2 by (simp add: sendNoCreate_def)
      next
        case False
        with \<open>e1 = None\<close> q assms(1) 1 2 obtain e3 s3 src3 where 3: "debit_source lm srcID curB sent s2 src = Inr (e3, s3, src3)"
          by (auto simp: sendNoCreate_def rbind_eq_Inr)
        with \<open>e1 = None\<close> q False assms(1) 1 2 have "s' = s3"
          by (cases e3) (auto simp: sendNoCreate_def)
        with debit_I [OF 3 I2] show ?thesis by simp
      qed
    qed
  qed
qed

lemma payment_I:
  "payment_doApply lm srcID p s src = Inr (ok, r, s', src') \<Longrightarrow> Is s \<Longrightarrow> Is s'"
  by (auto simp: payment_doApply_def rbind_eq_Inr Let_def split: if_splits prod.splits
      elim!: sendNoCreate_I dest: frames(2))

lemma offer_leave_I: "offer_leave lm new oe s src = Inr (e, s', src') \<Longrightarrow> Is s \<Longrightarrow> Is s'"
  using gen [of "snd s"]
  by (auto simp: offer_leave_def rbind_eq_Inr Let_def generateID_def split: if_splits prod.splits dest: frames frames_pair)

lemma offer_balances_I:
  assumes "offer_balances srcID co sl c s src = Inr (s', src')" "Is s"
  shows "Is s'"
proof -
  have wheat: "offer_wheat srcID wh x s src = Inr (s1, src1) \<Longrightarrow> Is s \<Longrightarrow> Is s1" for wh x s src s1 src1
    by (auto simp: offer_wheat_def rbind_eq_Inr Let_def split: if_splits prod.splits dest: frames frames_pair)
  have sheep: "offer_sheep sh x l s src = Inr (s1, src1) \<Longrightarrow> Is s \<Longrightarrow> Is s1" for sh x l s src s1 src1
    by (auto simp: offer_sheep_def rbind_eq_Inr Let_def split: if_splits prod.splits dest: frames frames_pair)
  show ?thesis using assms by (auto simp: offer_balances_def rbind_eq_Inr split: if_splits dest!: wheat sheep)
qed

lemma offer_finish_I:
  assumes "offer_finish lm new oe trail db temp s src = Inr (ok, r, s', src')" "I temp" "Is s"
  shows "Is s'"
proof -
  obtain e s4 src4 where 1: "offer_leave lm new oe (fst s, temp) src = Inr (e, s4, src4)"
    using assms(1) by (auto simp: offer_finish_def rbind_eq_Inr)
  have "Is s4" using offer_leave_I [OF 1] assms(2) by simp
  then show ?thesis using assms 1 committed by (cases e) (auto simp: offer_finish_def rbind_eq_Inr)
qed

lemma offer_exchange_I:
  assumes "offer_exchange lm srcID co new oe sl ms mw s src = Inr (ok, r, s', src')" "Is s"
  shows "Is s'"
proof -
  let ?P = "\<lparr>price_n = price_d (co_price co), price_d = price_n (co_price co)\<rparr>"
  obtain q c where conv: "convert lm (co_takerGets co) ms (co_takerPays co) mw (Some (offer_filter srcID ?P))
      ((fst s, LedgerDelta_nested (snd s)), []) = Inr (q, c)"
    using assms(1) by (auto simp: offer_exchange_def Let_def rbind_eq_Inr)
  have I1: "Is (fst (cv_exchange c))" using convert_I [OF conv] nested assms(2) by simp
  show ?thesis
  proof (cases "q = eFilterStop \<and> crosses_self srcID ?P c")
    case True
    then show ?thesis using assms conv by (simp add: offer_exchange_def)
  next
    case False
    with assms(1) conv obtain s3 src3 where
      3: "offer_balances srcID co sl c (fst (fst (cv_exchange c)), snd s) src = Inr (s3, src3)"
      and 4: "offer_finish lm new (oe\<lparr>oe_amount := wrap64 (ms - cv_sheepSend c)\<rparr>)
             (snd (cv_exchange c)) (fst s) (snd (fst (cv_exchange c))) s3 src3 = Inr (ok, r, s', src')"
      by (auto simp: offer_exchange_def Let_def rbind_eq_Inr split: if_splits)
    have "Is s3" using offer_balances_I [OF 3] assms(2) by simp
    then show ?thesis using offer_finish_I [OF 4] I1 by simp
  qed
qed

lemma createOffer_I:
  assumes "createOffer_doApply lm srcID co s src = Inr (ok, r, s', src')" "Is s"
  shows "Is s'"
proof -
  obtain v where v: "checkOfferValid srcID co (fst s) = Inr v"
    using assms(1) by (auto simp: createOffer_doApply_def rbind_eq_Inr)
  consider "s' = s" | sl wl new oe where "v = Inr (sl, wl)" "select_offer srcID co (fst s) = Inr (new, oe)"
    using assms(1) v by (cases v; cases "select_offer srcID co (fst s)") (auto simp: createOffer_doApply_def)
  then show ?thesis
  proof cases
    case 1
    then show ?thesis using assms(2) by simp
  next
    case 2
    with v assms(1) obtain l where "offer_limits lm co sl wl src = Inr l"
      by (auto simp: createOffer_doApply_def rbind_eq_Inr)
    with 2 v assms show ?thesis by (cases l) (auto simp: createOffer_doApply_def elim: offer_exchange_I)
  qed
qed

lemma setOptions_I: "setOptions_doApply lm so s src = Inr (ok, r, s', src') \<Longrightarrow> Is s \<Longrightarrow> Is s'"
  using frames(1) by (auto simp: setOptions_doApply_def rbind_eq_Inr Let_def split: if_splits option.splits)

lemma changeTrust_I: "changeTrust_doApply lm srcID ct s src = Inr (ok, r, s', src') \<Longrightarrow> Is s \<Longrightarrow> Is s'"
proof -
  have "change_line lm ct l s src = Inr (ok, r, s', src') \<Longrightarrow> Is s \<Longrightarrow> Is s'" for l
    by (auto simp: change_line_def rbind_eq_Inr Let_def split: if_splits dest: frames frames_pair)
  moreover have "Is s'" if new: "new_line lm srcID ct l s src = Inr (ok, r, s', src')" and "Is s" for l
  proof -
    from new consider "s' = s" | l' s1 where "account_storeChange src' (fst s) (snd s) = Inr s1"
      "trust_storeAdd l' (fst s1) (snd s1) = Inr s'"
      by (cases "loadAccount (snd (projr (isoCI (ct_line ct)))) new_AccountFrame (fst s)")
        (auto simp: new_line_def rbind_eq_Inr Let_def split: if_splits)
    then show ?thesis using \<open>Is s\<close> frames(1,5) by cases blast+
  qed
  ultimately show "changeTrust_doApply lm srcID ct s src = Inr (ok, r, s', src') \<Longrightarrow> Is s \<Longrightarrow> Is s'"
    by (auto simp: changeTrust_doApply_def rbind_eq_Inr split: if_splits)
qed

lemma allowTrust_I: "allowTrust_doApply srcID at s src = Inr (ok, r, s', src') \<Longrightarrow> Is s \<Longrightarrow> Is s'"
  using frames(4) by (auto simp: allowTrust_doApply_def rbind_eq_Inr split: if_splits option.splits)

lemma merge_I: "merge_doApply srcID dest s src = Inr (ok, r, s', src') \<Longrightarrow> Is s \<Longrightarrow> Is s'"
  by (auto simp: merge_doApply_def select_trust_def trust_columns_def Let_def split: prod.splits if_splits)

lemma doApply_I: "doApply lm srcID body s src = Inr (ok, r, s', src') \<Longrightarrow> Is s \<Longrightarrow> Is s'"
  by (cases body)
    (auto simp: lift_result_def rbind_eq_Inr inflation_doApply_def
      dest: payment_I createOffer_I setOptions_I changeTrust_I allowTrust_I merge_I)

lemma op_apply_I:
  assumes "op_apply V CH lm op s tf = Inr (ok, r, s', tf')" "Is s"
  shows "Is s'"
proof -
  obtain valid r0 tf0 src where c: "op_checkValid V CH op (fst s) tf = (valid, r0, tf0, src)" by (metis surj_pair)
  show ?thesis
  proof (cases "valid \<and> src \<noteq> None")
    case True
    with assms c obtain src0 where "doApply lm (op_getSourceID tf op) (op_body op) s (the src) = Inr (ok, r, s', src0)"
      by (auto simp: op_apply_def rbind_eq_Inr)
    with doApply_I assms(2) show ?thesis by blast
  next
    case False
    with assms c show ?thesis by (cases valid) (auto simp: op_apply_def)
  qed
qed

lemma apply_ops_I:
  "apply_ops V CH lm ops err rs s tf = Inr (err', rs', s', tf') \<Longrightarrow> Is s \<Longrightarrow> Is s'"
proof (induction ops arbitrary: err rs s tf)
  case (Cons op ops)
  then obtain ok r s1 tf1 where "op_apply V CH lm op s tf = Inr (ok, r, s1, tf1)"
    "apply_ops V CH lm ops (err \<or> \<not> ok) (rs @ [r]) s1 tf1 = Inr (err', rs', s', tf')"
    by (auto simp: rbind_eq_Inr)
  with Cons.IH Cons.prems(2) op_apply_I show ?case by blast
qed simp

text \<open>Running the operations of a transaction keeps the invariant of the delta it was given.\<close>

lemma tx_run_I:
  assumes "tx_run V CH lm s tf = Inr (ok, s', tf')" "Is s"
  shows "Is s'"
proof (cases "apply_ops V CH lm (tx_operations (env_tx (tf_envelope tf))) False [] (fst s, LedgerDelta_nested (snd s)) tf")
  case (Inl e)
  then show ?thesis using assms by (simp add: tx_run_def)
next
  case (Inr q)
  then obtain err rs s2 tf2 where q: "apply_ops V CH lm (tx_operations (env_tx (tf_envelope tf))) False []
    (fst s, LedgerDelta_nested (snd s)) tf = Inr (err, rs, s2, tf2)" by (cases q) auto
  have "Is s2" using apply_ops_I [OF q] nested assms(2) by simp
  then show ?thesis
    using assms q committed [of "snd s2" "snd s"]
    by (auto simp: tx_run_def Let_def split: if_splits prod.splits sum.splits)
qed

end

text \<open>No operation touches the fee pool, and none finishes the delta it is given.\<close>

lemma delta_ops_header:
  "addEntry e d = Inr d' \<Longrightarrow> mCurrentHeader d' = mCurrentHeader d"
  "modEntry e d = Inr d' \<Longrightarrow> mCurrentHeader d' = mCurrentHeader d"
  "deleteEntry k d = Inr d' \<Longrightarrow> mCurrentHeader d' = mCurrentHeader d"
  by (auto simp: addEntry_def modEntry_def deleteEntry_def rbind_eq_Inr Let_def split: if_splits)

interpretation fee: delta_invariant "\<lambda>d. lh_feePool (mCurrentHeader d) = c" for c
  by unfold_locales
    (auto simp: delta_ops_header generateID_def LedgerDelta_nested_def LedgerDelta_over_def commit_nested_def rbind_eq_Inr
      split: if_splits)

end
