(* ===== verification/Signatures.thy ===== *)
theory Signatures
  imports Transaction_Frame "HOL-Library.Multiset"
begin

text \<open>
  What the weighing of signatures in \<open>TransactionFrame::checkSignature\<close> establishes.
\<close>

subsection \<open>Specification\<close>

definition signs :: "verifier \<Rightarrow> Hash \<Rightarrow> DecoratedSignature \<Rightarrow> Signer \<Rightarrow> bool" where
  "signs V h sg k \<longleftrightarrow> ds_hint sg = key_hint (sig_pubKey k) \<and> V (sig_pubKey k) (ds_signature sg) h"

definition total_weight :: "Signer list \<Rightarrow> int" where
  "total_weight ks = sum_list (map (\<lambda>k. uint (sig_weight k)) ks)"

text \<open>The keys that some signature verifies under.\<close>

definition signed_keys :: "verifier \<Rightarrow> Hash \<Rightarrow> DecoratedSignature list \<Rightarrow> Signer list \<Rightarrow> Signer list" where
  "signed_keys V h sgs ks = filter (\<lambda>k. \<exists>sg \<in> set sgs. signs V h sg k) ks"

text \<open>No signature verifies under two keys.\<close>

definition unambiguous :: "verifier \<Rightarrow> Hash \<Rightarrow> DecoratedSignature list \<Rightarrow> Signer list \<Rightarrow> bool" where
  "unambiguous V h sgs ks \<longleftrightarrow> (\<forall>sg \<in> set sgs. length (filter (signs V h sg) ks) \<le> 1)"

lemma total_weight_simps [simp]:
  "total_weight [] = 0" "total_weight (k # ks) = uint (sig_weight k) + total_weight ks" "total_weight (xs @ ys) = total_weight xs + total_weight ys"
  by (simp_all add: total_weight_def)

lemma total_weight_nonneg: "0 \<le> total_weight ks"
  by (induction ks) simp_all

lemma take_key_None: "take_key V h sg ks = None \<longleftrightarrow> (\<forall>k \<in> set ks. \<not> signs V h sg k)"
  by (induction ks) (auto simp: signs_def)

lemma take_key_Some:
  "take_key V h sg ks = Some (w, ks') \<Longrightarrow>
   \<exists>xs k ys. ks = xs @ k # ys \<and> ks' = xs @ ys \<and> w = sig_weight k \<and> signs V h sg k"
proof (induction ks arbitrary: ks')
  case (Cons x ks)
  show ?case
  proof (cases "signs V h sg x")
    case True
    with Cons.prems have "w = sig_weight x" "ks' = ks" by (auto simp: signs_def)
    with True show ?thesis by (intro exI [of _ "[]"]) auto
  next
    case False
    with Cons.prems obtain ks1 where "take_key V h sg ks = Some (w, ks1)" "ks' = x # ks1"
      by (auto simp: signs_def split: if_splits)
    with Cons.IH show ?thesis by (metis append_Cons)
  qed
qed simp

lemma small_total:
  "uint t + total_weight ks < 2 ^ 31 \<Longrightarrow> k \<in> set ks \<Longrightarrow>
   sint (t + sig_weight k) = uint t + uint (sig_weight k) \<and> uint (t + sig_weight k) = uint t + uint (sig_weight k)"
  for t :: uint32
proof -
  assume small: "uint t + total_weight ks < 2 ^ 31" and "k \<in> set ks"
  then obtain xs ys where "ks = xs @ k # ys" by (auto dest: split_list)
  with small have b: "uint t + uint (sig_weight k) < 2 ^ 31" using total_weight_nonneg [of xs] total_weight_nonneg [of ys] by simp
  then have u: "uint (t + sig_weight k) = uint t + uint (sig_weight k)" by (simp add: uint_plus_if_size word_size)
  moreover have "sint x = uint x" if "uint x < 2 ^ 31" for x :: uint32
    using that by (simp add: sint_uint signed_take_bit_eq_if_positive bit_uint_iff bit_iff_odd_drop_bit drop_bit_eq_div)
      (simp add: take_bit_int_eq_self)
  ultimately show ?thesis using b by simp
qed


subsection \<open>Soundness\<close>

text \<open>The keys counted: distinct signatures, each with an entry of the account of its own.\<close>

definition counted ::
    "verifier \<Rightarrow> Hash \<Rightarrow> nat \<Rightarrow> DecoratedSignature list \<Rightarrow> Signer list \<Rightarrow> (nat \<times> Signer) list \<Rightarrow> bool" where
  "counted V h i sgs ks ps \<longleftrightarrow> distinct (map fst ps) \<and> mset (map snd ps) \<subseteq># mset ks \<and>
     (\<forall>(j, k) \<in> set ps. i \<le> j \<and> j < i + length sgs \<and> signs V h (sgs ! (j - i)) k)"

lemma counted_later:
  "counted V h (Suc i) sgs ks ps \<Longrightarrow> counted V h i (sg # sgs) ks ps"
  by (fastforce simp: counted_def nth_Cons' Suc_diff_le)

lemma counted_Cons:
  assumes "counted V h (Suc i) sgs (xs @ ys) ps" "signs V h sg k"
  shows "counted V h i (sg # sgs) (xs @ k # ys) ((i, k) # ps)"
proof -
  have "i \<notin> fst ` set ps" using assms(1) by (auto simp: counted_def)
  then show ?thesis
    using assms counted_later [of V h i sgs "xs @ ys" ps sg] by (simp add: counted_def)
qed

lemma check_sigs_sound:
  "check_sigs V h needed i sgs ks t used = (True, used') \<Longrightarrow> uint t + total_weight ks < 2 ^ 31 \<Longrightarrow>
   \<exists>ps. counted V h i sgs ks ps \<and> needed \<le> uint t + total_weight (map snd ps)"
proof (induction sgs arbitrary: i ks t used)
  case (Cons sg sgs)
  show ?case
  proof (cases "take_key V h sg ks")
    case None
    then show ?thesis using Cons.prems Cons.IH [of "Suc i" ks t used] counted_later by fastforce
  next
    case (Some p)
    then obtain w ks' where tk: "take_key V h sg ks = Some (w, ks')" by (cases p) auto
    then obtain xs k ys where k: "ks = xs @ k # ys" "ks' = xs @ ys" "w = sig_weight k" "signs V h sg k"
      using take_key_Some by blast
    have w: "sint (t + w) = uint t + uint w" "uint (t + w) = uint t + uint w"
      using small_total [OF Cons.prems(2), of k] k by simp_all
    show ?thesis
    proof (cases "sint (t + w) \<ge> needed")
      case True
      have "counted V h (Suc i) sgs (xs @ ys) []" by (simp add: counted_def)
      from counted_Cons [OF this k(4)] True w k show ?thesis by (intro exI [of _ "[(i, k)]"]) simp
    next
      case False
      with Cons.prems tk have "check_sigs V h needed (Suc i) sgs ks' (t + w) (used[i := True]) = (True, used')" by simp
      moreover have "uint (t + w) + total_weight ks' < 2 ^ 31" using Cons.prems(2) w k by simp
      ultimately obtain ps where ps: "counted V h (Suc i) sgs ks' ps" "needed \<le> uint (t + w) + total_weight (map snd ps)"
        using Cons.IH by blast
      from ps k w counted_Cons [of V h i sgs xs ys ps sg k] show ?thesis
        by (intro exI [of _ "(i, k) # ps"]) simp
    qed
  qed
qed simp

subsection \<open>Exactness\<close>

lemma signed_keys_skip:
  "\<forall>k \<in> set ks. \<not> signs V h sg k \<Longrightarrow> signed_keys V h (sg # sgs) ks = signed_keys V h sgs ks"
  by (auto simp: signed_keys_def intro: filter_cong)

lemma check_sigs_exact:
  "uint t + total_weight ks < 2 ^ 31 \<Longrightarrow> unambiguous V h sgs ks \<Longrightarrow>
   fst (check_sigs V h needed i sgs ks t used) \<longleftrightarrow>
     signed_keys V h sgs ks \<noteq> [] \<and> needed \<le> uint t + total_weight (signed_keys V h sgs ks)"
proof (induction sgs arbitrary: i ks t used)
  case Nil
  then show ?case by (simp add: signed_keys_def)
next
  case (Cons sg sgs)
  have un: "unambiguous V h sgs ks" using Cons.prems(2) by (simp add: unambiguous_def)
  show ?case
  proof (cases "take_key V h sg ks")
    case None
    then have "signed_keys V h (sg # sgs) ks = signed_keys V h sgs ks"
      using take_key_None signed_keys_skip by blast
    then show ?thesis using None Cons.IH [OF Cons.prems(1) un] by simp
  next
    case (Some p)
    then obtain w ks' where tk: "take_key V h sg ks = Some (w, ks')" by (cases p) auto
    then obtain xs k ys where k: "ks = xs @ k # ys" "ks' = xs @ ys" "w = sig_weight k" "signs V h sg k"
      using take_key_Some by blast
    have w: "sint (t + w) = uint t + uint w" "uint (t + w) = uint t + uint w"
      using small_total [OF Cons.prems(1), of k] k by simp_all
    have one: "\<forall>x \<in> set xs \<union> set ys. \<not> signs V h sg x"
      using Cons.prems(2) k by (auto simp: unambiguous_def filter_empty_conv)
    have sk: "signed_keys V h (sg # sgs) ks = signed_keys V h sgs xs @ k # signed_keys V h sgs ys"
      using one k signed_keys_skip [of xs V h sg sgs] signed_keys_skip [of ys V h sg sgs]
      by (simp add: signed_keys_def)
    have rest: "signed_keys V h sgs ks' = signed_keys V h sgs xs @ signed_keys V h sgs ys"
      by (simp add: signed_keys_def k(2))
    have small: "uint (t + w) + total_weight ks' < 2 ^ 31" using Cons.prems(1) w k by simp
    have un': "unambiguous V h sgs ks'"
      using un k by (auto simp: unambiguous_def split: if_splits)
    note IH = Cons.IH [OF small un', of "Suc i" "used[i := True]"]
    show ?thesis
    proof (cases "sint (t + w) \<ge> needed")
      case True
      then show ?thesis using tk sk w k total_weight_nonneg [of "signed_keys V h sgs xs"]
          total_weight_nonneg [of "signed_keys V h sgs ys"] by simp
    next
      case False
      then have "fst (check_sigs V h needed i (sg # sgs) ks t used) \<longleftrightarrow>
        signed_keys V h sgs ks' \<noteq> [] \<and> needed \<le> uint (t + w) + total_weight (signed_keys V h sgs ks')"
        using IH tk by simp
      also have "\<dots> \<longleftrightarrow> needed \<le> uint (t + w) + total_weight (signed_keys V h sgs ks')"
        using False w by auto
      finally show ?thesis using sk rest w k by (simp add: algebra_simps)
    qed
  qed
qed

subsection \<open>Property\<close>

text \<open>
  C13: the weighing of signatures. Where the weights of an account do not add up to 2 ^ 31, a
  transaction is only found signed if distinct signatures verify under that many entries of the
  account (each entry counted once) and these weigh what is needed; and where no signature
  verifies under two entries, it is found signed exactly if some entry has a signature and the
  entries that have one weigh enough, in whatever order the signatures come.
\<close>

theorem signature_weight:
  assumes "total_weight (key_weights (mAccountEntry account)) < 2 ^ 31"
    and "checkSignature V CH account needed tf = (ok, tf')"
    and "h = CH (env_tx (tf_envelope tf))" "sgs = env_signatures (tf_envelope tf)"
    and "ks = key_weights (mAccountEntry account)"
  shows "(ok \<longrightarrow> (\<exists>ps. distinct (map fst ps) \<and> mset (map snd ps) \<subseteq># mset ks \<and>
      (\<forall>(j, k) \<in> set ps. j < length sgs \<and> signs V h (sgs ! j) k) \<and> needed \<le> total_weight (map snd ps))) \<and>
    (unambiguous V h sgs ks \<longrightarrow>
      (ok \<longleftrightarrow> signed_keys V h sgs ks \<noteq> [] \<and> needed \<le> total_weight (signed_keys V h sgs ks)))"
proof -
  obtain used where c: "check_sigs V h needed 0 sgs ks 0 (tf_used tf) = (ok, used)"
    using assms(2) by (auto simp: checkSignature_def assms(3-5) split: prod.splits)
  have small: "uint (0 :: uint32) + total_weight ks < 2 ^ 31" using assms(1) by (simp add: assms(5))
  have "\<exists>ps. counted V h 0 sgs ks ps \<and> needed \<le> total_weight (map snd ps)" if ok
    using check_sigs_sound [OF _ small, of V h needed 0 sgs "tf_used tf" used] c that by simp
  then show ?thesis
    using check_sigs_exact [OF small, of V h sgs needed 0 "tf_used tf"] c by (auto simp: counted_def)
qed

definition sample_signed_account :: AccountFrame where
  "sample_signed_account = \<lparr>mAccountEntry = empty_account\<lparr>ae_accountID := 5, ae_thresholds := (1, 1, 2, 3),
     ae_signers := [\<lparr>sig_pubKey = 7, sig_weight = 2\<rparr>]\<rparr>, mUpdateSigners = False\<rparr>"

definition sample_tx :: "Operation list \<Rightarrow> Transaction" where
  "sample_tx ops = \<lparr>tx_sourceAccount = 5, tx_maxFee = 1000, tx_seqNum = 11, tx_minLedger = 0, tx_maxLedger = 100,
     tx_operations = ops\<rparr>"

definition sample_tf :: "Operation list \<Rightarrow> DecoratedSignature list \<Rightarrow> TxFrame" where
  "sample_tf ops sgs = resetState \<lparr>tf_envelope = \<lparr>env_tx = sample_tx ops, env_signatures = sgs\<rparr>,
     tf_result = \<lparr>tr_feeCharged = 0, tr_code = txSUCCESS, tr_results = []\<rparr>, tf_signing = None, tf_used = []\<rparr>"

text \<open>A stand-in for the verification of signatures: a signature is the key itself.\<close>

definition sample_verify :: verifier where
  "sample_verify k sg h \<longleftrightarrow> sg = ucast k"

definition sample_sigs :: "DecoratedSignature list" where
  "sample_sigs = [\<lparr>ds_hint = 0, ds_signature = 7\<rparr>, \<lparr>ds_hint = 0, ds_signature = 5\<rparr>]"

theorem signature_weight_witness:
  "fst (checkSignature sample_verify (\<lambda>_. 1) sample_signed_account 3 (sample_tf [] sample_sigs)) \<and>
   (\<exists>ps :: (nat \<times> Signer) list. distinct (map fst ps) \<and> 3 \<le> total_weight (map snd ps) \<and>
     mset (map snd ps) \<subseteq># mset (key_weights (mAccountEntry sample_signed_account)))"
proof -
  have ok: "fst (checkSignature sample_verify (\<lambda>_. 1) sample_signed_account 3 (sample_tf [] sample_sigs))"
    by code_simp
  then obtain tf' where c: "checkSignature sample_verify (\<lambda>_. 1) sample_signed_account 3 (sample_tf [] sample_sigs) = (True, tf')"
    by (cases "checkSignature sample_verify (\<lambda>_. 1) sample_signed_account 3 (sample_tf [] sample_sigs)") simp
  have "total_weight (key_weights (mAccountEntry sample_signed_account)) < 2 ^ 31" by code_simp
  from conjunct1 [OF signature_weight [OF this c refl refl refl]] obtain ps :: "(nat \<times> Signer) list" where
    "distinct (map fst ps)" "mset (map snd ps) \<subseteq># mset (key_weights (mAccountEntry sample_signed_account))"
    "3 \<le> total_weight (map snd ps)" by blast
  with ok show ?thesis by (intro conjI exI [of _ ps])
qed

end
