(* ===== verification/Transaction_Props.thy ===== *)
theory Transaction_Props
  imports Coins Delta_Invariant Signatures
begin

text \<open>
  What applying a transaction does: native coins are conserved, a failed transaction charges its
  fee and nothing else.
\<close>

subsection \<open>The operations of a transaction\<close>

text \<open>The amount of a payment is a signed 64-bit integer.\<close>

definition body_range :: "OperationBody \<Rightarrow> bool" where
  "body_range b \<longleftrightarrow> (case b of PAYMENT p \<Rightarrow> pay_amount p \<le> INT64_MAX | _ \<Rightarrow> True)"

lemma doApply_coins:
  assumes "doApply lm srcID body s src = Inr (True, r, s', src')" "doCheckValid srcID body = None" "body_range body"
    and "coins_wf (fst s)" "synced src (fst s)" "ae_accountID (mAccountEntry src) = srcID"
  shows "conserves (fst s) (fst s') src src'"
proof (cases body)
  case (PAYMENT p)
  then have "amount_ok (pay_amount p)"
    using assms(2,3) by (auto simp: payment_doCheckValid_def body_range_def split: if_splits)
  with PAYMENT assms show ?thesis by (auto simp: lift_result_def rbind_eq_Inr intro: payment_coins)
next
  case (ACCOUNT_MERGE dest)
  with assms(1) show ?thesis by (auto simp: lift_result_def rbind_eq_Inr dest: notE [OF merge_fails])
qed (use assms in \<open>auto simp: lift_result_def rbind_eq_Inr inflation_doApply_def
       intro: createOffer_coins setOptions_coins changeTrust_coins allowTrust_coins\<close>)

lemma checkSignature_frame:
  "checkSignature V CH f n tf = (ok, tf') \<Longrightarrow> \<exists>u. tf' = tf\<lparr>tf_used := u\<rparr>"
  by (auto simp: checkSignature_def split: prod.splits)

lemma op_checkValid_frame:
  assumes "op_checkValid V CH op db tf = (ok, r, tf', src)"
  shows "(\<exists>u. tf' = tf\<lparr>tf_used := u\<rparr>) \<and> src = tx_loadAccount tf (op_getSourceID tf op) db \<and>
    (ok \<longrightarrow> src \<noteq> None \<and> doCheckValid (op_getSourceID tf op) (op_body op) = None)"
proof (cases "tx_loadAccount tf (op_getSourceID tf op) db")
  case None
  then show ?thesis using assms by (auto simp: op_checkValid_def intro: exI [of _ "tf_used tf"])
next
  case (Some f)
  obtain sig tf2 where c: "checkSignature V CH f (getNeededThreshold (op_body op) f) tf = (sig, tf2)" by fastforce
  with assms Some have "tf' = tf2" "src = Some f"
    "ok \<longrightarrow> doCheckValid (op_getSourceID tf op) (op_body op) = None"
    by (auto simp: op_checkValid_def split: if_splits option.splits)
  with Some checkSignature_frame [OF c] show ?thesis by simp
qed

lemma op_getSourceID_cong: "tf_envelope tf1 = tf_envelope tf \<Longrightarrow> op_getSourceID tf1 op = op_getSourceID tf op"
  by (simp add: op_getSourceID_def split: option.split)

text \<open>An operation of the transaction's own source, whose frame is shared.\<close>

lemma op_apply_coins:
  assumes "op_apply V CH lm op s tf = Inr (True, r, s', tf')"
    and "tf_signing tf = Some f" "op_getSourceID tf op = ae_accountID (mAccountEntry f)"
    and "body_range (op_body op)" "coins_wf (fst s)" "synced f (fst s)"
  shows "\<exists>f'. tf_signing tf' = Some f' \<and> tf_envelope tf' = tf_envelope tf \<and> conserves (fst s) (fst s') f f'"
proof -
  obtain ok r0 tf0 src where c: "op_checkValid V CH op (fst s) tf = (ok, r0, tf0, src)" by (metis surj_pair)
  have sh: "shares_frame tf (op_getSourceID tf op)" using assms(2,3) by (simp add: shares_frame_def)
  note fr = op_checkValid_frame [OF c]
  then have src: "src = Some f" using sh assms(2) by (simp add: tx_loadAccount_def)
  have ok: ok using assms(1) c by (cases ok) (auto simp: op_apply_def)
  with assms(1) c src sh obtain f' where
    f': "doApply lm (op_getSourceID tf op) (op_body op) s f = Inr (True, r, s', f')" "tf' = tf0\<lparr>tf_signing := Some f'\<rparr>"
    by (auto simp: op_apply_def rbind_eq_Inr)
  have "conserves (fst s) (fst s') f f'"
    using fr ok assms(3) by (intro doApply_coins [OF f'(1) _ assms(4-6)]) simp_all
  moreover have "tf_envelope tf' = tf_envelope tf" using fr f'(2) by auto
  ultimately show ?thesis using f'(2) by simp
qed

lemma apply_ops_coins:
  assumes "apply_ops V CH lm ops err rs s tf = Inr (False, rs', s', tf')"
    and "tf_signing tf = Some f" "\<forall>op \<in> set ops. op_getSourceID tf op = ae_accountID (mAccountEntry f) \<and> body_range (op_body op)"
    and "coins_wf (fst s)" "synced f (fst s)"
  shows "coins_wf (fst s') \<and> native_total (fst s') = native_total (fst s)"
  using assms
proof (induction ops arbitrary: err rs s tf f)
  case (Cons op ops)
  then obtain ok r s1 tf1 where 1: "op_apply V CH lm op s tf = Inr (ok, r, s1, tf1)"
    "apply_ops V CH lm ops (err \<or> \<not> ok) (rs @ [r]) s1 tf1 = Inr (False, rs', s', tf')"
    by (auto simp: rbind_eq_Inr)
  have errs: "apply_ops V CH lm ops e rs0 s0 tf0 = Inr (e', rs', s', tf') \<Longrightarrow> e \<Longrightarrow> e'" for ops e rs0 s0 tf0 e'
    by (induction ops arbitrary: e rs0 s0 tf0) (auto simp: rbind_eq_Inr)
  have "ok" using errs [OF 1(2)] by auto
  with 1(1) Cons.prems(2-5) obtain f1 where f1: "tf_signing tf1 = Some f1" "tf_envelope tf1 = tf_envelope tf"
    "conserves (fst s) (fst s1) f f1"
    using op_apply_coins [of V CH lm op s tf r s1 tf1 f] by auto
  have "\<forall>op \<in> set ops. op_getSourceID tf1 op = ae_accountID (mAccountEntry f1) \<and> body_range (op_body op)"
    using Cons.prems(3) f1(3) op_getSourceID_cong [OF f1(2)] by (simp add: conserves_def)
  from Cons.IH [OF 1(2) f1(1) this] f1(3) show ?case by (simp add: conserves_def)
qed simp

subsection \<open>The fee\<close>

lemma checkValid_applying:
  assumes "checkValid V CH lm True 0 db tf = (True, tf1)" "tf_signing tf = None"
  shows "\<exists>f. loadAccount (tx_sourceAccount (env_tx (tf_envelope tf))) new_AccountFrame db = (True, f) \<and>
    tf_signing tf1 = Some f \<and> tf_envelope tf1 = tf_envelope tf \<and>
    tr_feeCharged (tf_result tf1) = getFee lm (env_tx (tf_envelope tf)) \<and>
    ae_seqNum (mAccountEntry f) + 1 = tx_seqNum (env_tx (tf_envelope tf)) \<and>
    getMinimumBalance lm f \<le> wrap64 (ae_balance (mAccountEntry f) - getFee lm (env_tx (tf_envelope tf)))"
proof -
  let ?tx = "env_tx (tf_envelope tf)"
  obtain ok f where l: "loadAccount (tx_sourceAccount ?tx) new_AccountFrame db = (ok, f)" by fastforce
  let ?tf1 = "(set_fee 0 (set_results (fresh_results (tx_operations ?tx)) (set_code txSUCCESS tf)))\<lparr>tf_signing := Some f\<rparr>"
  obtain sig tf2 where c: "checkSignature V CH f (uint (getLowThreshold (ae_thresholds (mAccountEntry f)))) ?tf1 = (sig, tf2)"
    by fastforce
  from checkSignature_frame [OF c] have env: "tf_envelope tf2 = tf_envelope tf" "tf_signing tf2 = Some f"
    by (auto simp: set_code_def set_fee_def set_results_def)
  show ?thesis
    using assms l c env
    by (auto simp: checkValid_def Let_def tx_loadAccount_def shares_frame_def set_code_def set_results_def set_fee_def
        split: if_splits option.splits)
qed


lemma nonneg_sum_ge: "\<forall>x \<in> set xs. 0 \<le> x \<Longrightarrow> x \<in> set xs \<Longrightarrow> x \<le> sum_list xs"
  for xs :: "int list"
  by (induction xs) (auto simp: sum_list_nonneg intro: add_increasing add_increasing2)

lemma balance_le_total: "coins_wf db \<Longrightarrow> map_of (bals db) a = Some b \<Longrightarrow> b \<le> native_total db"
  unfolding native_total_def coins_wf_def by (intro nonneg_sum_ge) (auto dest: map_of_SomeD intro: rev_image_eqI)

text \<open>The fee of a valid transaction: all of it is charged, to the account and to the pool.\<close>

definition charged :: "int64 \<Rightarrow> SequenceNumber \<Rightarrow> AccountFrame \<Rightarrow> AccountFrame" where
  "charged fee n f = upd_account (\<lambda>e. e\<lparr>ae_seqNum := n, ae_balance := ae_balance e - fee\<rparr>) f"

definition pooled :: "int64 \<Rightarrow> LedgerDelta \<Rightarrow> LedgerDelta" where
  "pooled fee d = d\<lparr>mCurrentHeader := (mCurrentHeader d)\<lparr>lh_feePool := lh_feePool (mCurrentHeader d) + fee\<rparr>\<rparr>"

definition coins_bounded :: "Store \<Rightarrow> bool" where
  "coins_bounded s \<longleftrightarrow> coins_wf (fst s) \<and> 0 \<le> lh_feePool (mCurrentHeader (snd s)) \<and>
     lh_feePool (mCurrentHeader (snd s)) + native_total (fst s) \<le> INT64_MAX"

lemma getMinBalance_nonneg: "0 \<le> getMinBalance lm n" "getMinBalance lm n < 2 ^ 32"
  using uint_lt2p [of "(2 + n) * (of_int (lh_baseReserve lm) :: uint32)"] by (simp_all add: getMinBalance_def)

lemma prepareResult_valid:
  assumes "prepareResult lm s tf = Inr (s', tf')" "tf_signing tf = Some f" "synced f (fst s)" "coins_bounded s"
    and "fee = tr_feeCharged (tf_result tf)" "in64 fee" "getMinimumBalance lm f \<le> wrap64 (ae_balance (mAccountEntry f) - fee)"
    and "0 < fee" "n = tx_seqNum (env_tx (tf_envelope tf))"
  shows "account_storeChange (charged fee n f) (fst s) (pooled fee (snd s)) = Inr s' \<and>
    tf' = tf\<lparr>tf_signing := Some (charged fee n f)\<rparr>"
proof -
  let ?b = "ae_balance (mAccountEntry f)" and ?p = "lh_feePool (mCurrentHeader (snd s))"
  have b: "amount_ok ?b" "?b \<le> native_total (fst s)"
    using assms(3,4) coins_wf_lookup balance_le_total by (auto simp: synced_def coins_bounded_def)
  have w: "wrap64 (?b - fee) = ?b - fee" using b(1) assms(6,8) by (simp add: INT64_MIN_def INT64_MAX_def)
  have m: "wrap64 (?b - getMinimumBalance lm f) = ?b - getMinimumBalance lm f"
    using b(1) getMinBalance_nonneg [of lm "ae_numSubEntries (mAccountEntry f)"]
    by (simp add: getMinimumBalance_def INT64_MIN_def INT64_MAX_def)
  have le: "fee \<le> ?b - getMinimumBalance lm f" using assms(7) w by simp
  have avail: "getBalanceAboveReserve lm f = Inr (?b - getMinimumBalance lm f)"
    using m le assms(8) by (simp add: getBalanceAboveReserve_def acc_getBalance_def getMinimumBalance_def Let_def)
  have "fee \<le> ?b"
    using le getMinBalance_nonneg(1) [of lm "ae_numSubEntries (mAccountEntry f)"] unfolding getMinimumBalance_def by linarith
  then have p: "wrap64 (?p + fee) = ?p + fee"
    using assms(4,8) b(2) by (simp add: coins_bounded_def INT64_MIN_def)
  show ?thesis
    using assms(1,2,8) le w p
    by (auto simp: prepareResult_def assms(5) [symmetric] avail rbind_eq_Inr Let_def charged_def pooled_def assms(9)
        split: if_splits)
qed


lemma prepareResult_coins:
  assumes "prepareResult lm s tf = Inr (s', tf')" "tf_signing tf = Some f" "synced f (fst s)" "coins_bounded s"
    and "in64 (tr_feeCharged (tf_result tf))"
    and "getMinimumBalance lm f \<le> wrap64 (ae_balance (mAccountEntry f) - tr_feeCharged (tf_result tf))"
  shows "\<exists>f'. tf_signing tf' = Some f' \<and> same_id f f' \<and> synced f' (fst s') \<and> tf_envelope tf' = tf_envelope tf \<and>
    coins_wf (fst s') \<and> native_total (fst s') + lh_feePool (mCurrentHeader (snd s')) =
      native_total (fst s) + lh_feePool (mCurrentHeader (snd s))"
proof (cases "0 < tr_feeCharged (tf_result tf)")
  case False
  with assms(1) have "s' = s" "tf' = tf" by (auto simp: prepareResult_def Let_def split: if_splits)
  with assms(2-4) show ?thesis by (simp add: coins_bounded_def)
next
  case True
  let ?fee = "tr_feeCharged (tf_result tf)" and ?n = "tx_seqNum (env_tx (tf_envelope tf))"
  let ?a = "ae_accountID (mAccountEntry f)" and ?b = "ae_balance (mAccountEntry f)"
  have st: "account_storeChange (charged ?fee ?n f) (fst s) (pooled ?fee (snd s)) = Inr s'"
    "tf' = tf\<lparr>tf_signing := Some (charged ?fee ?n f)\<rparr>"
    using prepareResult_valid [OF assms(1-4) refl assms(5,6) True refl] by simp_all
  have b: "map_of (bals (fst s)) ?a = Some ?b" using assms(3) by (simp add: synced_def)
  have r: "0 \<le> ?b - ?fee" "bals (fst s') = AList.update ?a (?b - ?fee) (bals (fst s))"
    using account_storeChange_bals [of "charged ?fee ?n f" "fst s" "pooled ?fee (snd s)" "fst s'" "snd s'"] st(1)
    by (simp_all add: charged_def)
  have "coins_wf (fst s')"
    using coins_wf_update [OF _ r(2)] r(1) assms(4) True coins_wf_lookup [OF _ b] by (auto simp: coins_bounded_def)
  moreover have "native_total (fst s') = native_total (fst s) - ?fee" using native_total_update [OF b r(2)] by simp
  moreover have "lh_feePool (mCurrentHeader (snd s')) = lh_feePool (mCurrentHeader (snd s)) + ?fee"
    using fee.frames(1) [OF st(1)] by (simp add: pooled_def)
  moreover have "synced (charged ?fee ?n f) (fst s')" by (simp add: synced_def charged_def r(2) update_conv')
  ultimately show ?thesis using st(2) by (simp add: charged_def)
qed

subsection \<open>Conservation\<close>

lemma tx_apply_parts:
  assumes "tx_apply V CH lm s tf = Inr (True, s', tf')"
  shows "\<exists>tf1 s1 tf2. checkValid V CH lm True 0 (fst s) (resetState tf) = (True, tf1) \<and>
    prepareResult lm s tf1 = Inr (s1, tf2) \<and> tx_run V CH lm s1 tf2 = Inr (True, s', tf')"
proof -
  obtain ok tf1 where c: "checkValid V CH lm True 0 (fst s) (resetState tf) = (ok, tf1)" by fastforce
  then show ?thesis
    using assms by (auto simp: tx_apply_def split: sum.splits if_splits)
qed

lemma wrap64_in64: "INT64_MIN \<le> wrap64 i" "wrap64 i \<le> INT64_MAX"
  using wrap64_range by simp_all

lemma tx_run_coins:
  assumes "tx_run V CH lm s tf = Inr (True, s', tf')" "tf_signing tf = Some f" "coins_wf (fst s)" "synced f (fst s)"
    and "\<forall>op \<in> set (tx_operations (env_tx (tf_envelope tf))).
      op_getSourceID tf op = ae_accountID (mAccountEntry f) \<and> body_range (op_body op)"
  shows "coins_wf (fst s') \<and> native_total (fst s') = native_total (fst s)"
proof -
  obtain err rs s2 tf2 where q: "apply_ops V CH lm (tx_operations (env_tx (tf_envelope tf))) False []
    (fst s, LedgerDelta_nested (snd s)) tf = Inr (err, rs, s2, tf2)"
    using assms(1) by (auto simp: tx_run_def split: sum.splits)
  show ?thesis
  proof (cases err)
    case True
    then show ?thesis using assms(1,3) q by (simp add: tx_run_def Let_def)
  next
    case False
    with q have q': "apply_ops V CH lm (tx_operations (env_tx (tf_envelope tf))) False []
      (fst s, LedgerDelta_nested (snd s)) tf = Inr (False, rs, s2, tf2)" by simp
    have "fst s' = fst s2"
      using assms(1) q' by (auto simp: tx_run_def Let_def split: if_splits prod.splits sum.splits)
    with apply_ops_coins [OF q' assms(2,5)] assms(3,4) show ?thesis by simp
  qed
qed

text \<open>
  C11: a transaction conserves native coins. Whenever a transaction whose operations all act for its
  own source account is applied, whether its operations then succeed or fail, the sum of all
  account balances and of the fee pool is unchanged: payments move what they take, the creation of
  an account creates nothing, offers and trust lines touch no native coins, the fee goes to the
  pool. Balances and the pool stay within their 64 bits; no wrap-around can occur.
\<close>

theorem transaction_conserves_coins:
  assumes "tx_apply V CH lm s tf = Inr (True, s', tf')" "coins_bounded s"
    and "\<forall>op \<in> set (tx_operations (env_tx (tf_envelope tf))).
      op_getSourceID tf op = tx_sourceAccount (env_tx (tf_envelope tf)) \<and> body_range (op_body op)"
  shows "native_total (fst s') + lh_feePool (mCurrentHeader (snd s')) =
      native_total (fst s) + lh_feePool (mCurrentHeader (snd s)) \<and> coins_wf (fst s')"
proof -
  obtain tf1 s1 tf2 where p: "checkValid V CH lm True 0 (fst s) (resetState tf) = (True, tf1)"
    "prepareResult lm s tf1 = Inr (s1, tf2)" "tx_run V CH lm s1 tf2 = Inr (True, s', tf')"
    using tx_apply_parts [OF assms(1)] by blast
  have none: "tf_signing (resetState tf) = None" "tf_envelope (resetState tf) = tf_envelope tf"
    by (simp_all add: resetState_def)
  from checkValid_applying [OF p(1) none(1)] none(2) obtain f where
    f: "loadAccount (tx_sourceAccount (env_tx (tf_envelope tf))) new_AccountFrame (fst s) = (True, f)"
    "tf_signing tf1 = Some f" "tf_envelope tf1 = tf_envelope tf"
    "tr_feeCharged (tf_result tf1) = getFee lm (env_tx (tf_envelope tf))"
    "getMinimumBalance lm f \<le> wrap64 (ae_balance (mAccountEntry f) - getFee lm (env_tx (tf_envelope tf)))"
    by auto
  have l: "synced f (fst s)" "ae_accountID (mAccountEntry f) = tx_sourceAccount (env_tx (tf_envelope tf))"
    using loadAccount_synced [OF f(1)] by simp_all
  have "in64 (tr_feeCharged (tf_result tf1))" unfolding f(4) getFee_def Let_def using wrap64_in64 by blast
  from prepareResult_coins [OF p(2) f(2) l(1) assms(2) this] f(4,5) obtain f1 where
    f1: "tf_signing tf2 = Some f1" "same_id f f1" "synced f1 (fst s1)" "tf_envelope tf2 = tf_envelope tf1" "coins_wf (fst s1)"
    and e1: "native_total (fst s1) + lh_feePool (mCurrentHeader (snd s1)) =
      native_total (fst s) + lh_feePool (mCurrentHeader (snd s))" by auto
  have ops: "\<forall>op \<in> set (tx_operations (env_tx (tf_envelope tf2))).
      op_getSourceID tf2 op = ae_accountID (mAccountEntry f1) \<and> body_range (op_body op)"
    using assms(3) f1(2,4) f(3) l(2) op_getSourceID_cong [of tf2 tf] by simp
  have "coins_wf (fst s') \<and> native_total (fst s') = native_total (fst s1)"
    by (rule tx_run_coins [OF p(3) f1(1,5,3) ops])
  moreover have "lh_feePool (mCurrentHeader (snd s')) = lh_feePool (mCurrentHeader (snd s1))"
    using fee.tx_run_I [OF p(3)] by simp
  ultimately show ?thesis using e1 by simp
qed


definition sample_row :: "SequenceNumber \<Rightarrow> int64 \<Rightarrow> AccountRow" where
  "sample_row n b = \<lparr>ac_balance = b, ac_seqNum = n, ac_numSubEntries = 0, ac_inflationDest = None,
     ac_thresholds = (1, 0, 0, 0), ac_flags = 0\<rparr>"

definition sample_lm :: LedgerHeader where
  "sample_lm = sample_header\<lparr>lh_ledgerSeq := 7, lh_baseFee := 10, lh_baseReserve := 100\<rparr>"

definition sample_store :: Store where
  "sample_store = (empty_db\<lparr>db_Accounts := [(5, sample_row 10 1000), (6, sample_row 20 1000)]\<rparr>, LedgerDelta_over sample_lm)"

definition sample_pay :: "AccountID option \<Rightarrow> AccountID \<Rightarrow> int64 \<Rightarrow> Operation" where
  "sample_pay src dest x = \<lparr>op_sourceAccount = src, op_body = PAYMENT \<lparr>pay_destination = dest, pay_currency = NATIVE,
     pay_amount = x, pay_path = [], pay_sendMax = x\<rparr>\<rparr>"

definition sample_sig :: "uint256 \<Rightarrow> DecoratedSignature" where
  "sample_sig k = \<lparr>ds_hint = 0, ds_signature = ucast k\<rparr>"

text \<open>The balances and the fee pool after a transaction that was applied with the given code.\<close>

definition sample_outcome :: "Operation list \<Rightarrow> DecoratedSignature list \<Rightarrow> (TransactionResultCode \<times> int \<times> int) option" where
  "sample_outcome ops sgs =
     (case tx_apply sample_verify (\<lambda>_. 1) sample_lm sample_store (sample_tf ops sgs) of
        Inr (True, s', tf') \<Rightarrow> Some (tr_code (tf_result tf'), native_total (fst s'), lh_feePool (mCurrentHeader (snd s')))
      | _ \<Rightarrow> None)"

theorem transaction_conserves_coins_witness:
  "\<exists>s' tf'. tx_apply sample_verify (\<lambda>_. 1) sample_lm sample_store (sample_tf [sample_pay None 6 100] [sample_sig 5]) =
      Inr (True, s', tf') \<and> native_total (fst s') + lh_feePool (mCurrentHeader (snd s')) = 2000"
proof -
  let ?tf = "sample_tf [sample_pay None 6 100] [sample_sig 5]"
  have "sample_outcome [sample_pay None 6 100] [sample_sig 5] = Some (txSUCCESS, 1990, 10)" by code_simp
  then obtain s' tf' where a: "tx_apply sample_verify (\<lambda>_. 1) sample_lm sample_store ?tf = Inr (True, s', tf')"
    by (auto simp: sample_outcome_def split: sum.splits prod.splits bool.splits)
  have b: "coins_bounded sample_store" by code_simp
  have c: "native_total (fst sample_store) + lh_feePool (mCurrentHeader (snd sample_store)) = 2000" by code_simp
  have "\<forall>op \<in> set (tx_operations (env_tx (tf_envelope ?tf))).
      op_getSourceID ?tf op = tx_sourceAccount (env_tx (tf_envelope ?tf)) \<and> body_range (op_body op)" by code_simp
  from transaction_conserves_coins [OF a b this] a c show ?thesis by auto
qed

text \<open>
  An operation for another account can make the transaction lose coins. The frame of the
  transaction's source account is loaded once; when an operation of another account pays the
  source, the row changes and the frame does not, and the next operation of the source writes the
  frame back over the row. Here account 6 pays 100 to account 5, the source, which then pays 10 to
  account 6: both succeed, and 100 of the 2000 coins are gone.
\<close>

theorem shared_frame_loses_coins:
  "sample_outcome [sample_pay (Some 6) 5 100, sample_pay None 6 10] [sample_sig 5, sample_sig 6] =
     Some (txSUCCESS, 1880, 20) \<and>
   native_total (fst sample_store) + lh_feePool (mCurrentHeader (snd sample_store)) = 2000"
  by code_simp

subsection \<open>Failed transactions\<close>

lemma op_apply_result:
  assumes "op_apply V CH lm op s tf = Inr (ok, r, s', tf')"
  shows "tf_result tf' = tf_result tf"
proof -
  obtain valid r0 tf0 src where c: "op_checkValid V CH op (fst s) tf = (valid, r0, tf0, src)" by (metis surj_pair)
  with op_checkValid_frame [OF c] assms show ?thesis
    by (cases valid; cases src) (auto simp: op_apply_def rbind_eq_Inr)
qed

lemma apply_ops_result:
  "apply_ops V CH lm ops err rs s tf = Inr (err', rs', s', tf') \<Longrightarrow> tf_result tf' = tf_result tf"
proof (induction ops arbitrary: err rs s tf)
  case (Cons op ops)
  then obtain ok r s1 tf1 where "op_apply V CH lm op s tf = Inr (ok, r, s1, tf1)"
    "apply_ops V CH lm ops (err \<or> \<not> ok) (rs @ [r]) s1 tf1 = Inr (err', rs', s', tf')"
    by (auto simp: rbind_eq_Inr)
  with Cons.IH op_apply_result show ?case by metis
qed simp

lemma tx_run_failed:
  assumes "tx_run V CH lm s tf = Inr (True, s', tf')" "tr_code (tf_result tf') = txFAILED" "tr_code (tf_result tf) \<noteq> txFAILED"
  shows "s' = s"
proof -
  obtain err rs s2 tf2 where q: "apply_ops V CH lm (tx_operations (env_tx (tf_envelope tf))) False []
    (fst s, LedgerDelta_nested (snd s)) tf = Inr (err, rs, s2, tf2)"
    using assms(1) by (auto simp: tx_run_def split: sum.splits)
  show ?thesis
  proof (cases err)
    case True
    then show ?thesis using assms(1) q by (simp add: tx_run_def Let_def)
  next
    case False
    then have "tf_result tf' = tf_result (set_results rs tf2)"
      using assms(1) q by (auto simp: tx_run_def Let_def checkAllSignaturesUsed_def split: if_splits sum.splits prod.splits)
    then have "tr_code (tf_result tf') = tr_code (tf_result tf)"
      using apply_ops_result [OF q] by (simp add: set_results_def)
    with assms(2,3) show ?thesis by simp
  qed
qed

lemma checkValid_code:
  assumes "checkValid V CH lm True 0 db tf = (True, tf1)"
  shows "tr_code (tf_result tf1) = txSUCCESS"
proof -
  have c: "checkSignature V CH f n tf0 = (ok, tf2) \<Longrightarrow> tf_result tf2 = tf_result tf0" for f n tf0 ok tf2
    using checkSignature_frame by force
  show ?thesis
    using assms
    by (auto simp: checkValid_def Let_def set_fee_def set_code_def set_results_def split: if_splits option.splits prod.splits
        dest!: c)
qed

text \<open>
  C12: a failed transaction charges its fee and does nothing else. When a transaction is applied and
  any of its operations fails, the database differs from before in one row only: the source account
  has its sequence number set and its balance reduced by exactly the fee; and the delta records
  exactly that account and the fee in the pool. Nothing of what the operations did remains.
\<close>

theorem failed_transaction_charges_fee:
  assumes "tx_apply V CH lm s tf = Inr (True, s', tf')" "tr_code (tf_result tf') = txFAILED"
    and "coins_bounded s" "fee = getFee lm (env_tx (tf_envelope tf))" "0 < fee"
    and "a = tx_sourceAccount (env_tx (tf_envelope tf))" "n = tx_seqNum (env_tx (tf_envelope tf))"
  shows "\<exists>r e. map_of (db_Accounts (fst s)) a = Some r \<and> db_account (fst s) a = Some e \<and>
    fst s' = (fst s)\<lparr>db_Accounts := AList.update a (r\<lparr>ac_seqNum := n, ac_balance := ac_balance r - fee\<rparr>) (db_Accounts (fst s))\<rparr> \<and>
    modEntry (ACCOUNT (e\<lparr>ae_seqNum := n, ae_balance := ae_balance e - fee\<rparr>)) (pooled fee (snd s)) = Inr (snd s')"
proof -
  obtain tf1 s1 tf2 where p: "checkValid V CH lm True 0 (fst s) (resetState tf) = (True, tf1)"
    "prepareResult lm s tf1 = Inr (s1, tf2)" "tx_run V CH lm s1 tf2 = Inr (True, s', tf')"
    using tx_apply_parts [OF assms(1)] by blast
  have none: "tf_signing (resetState tf) = None" "tf_envelope (resetState tf) = tf_envelope tf"
    by (simp_all add: resetState_def)
  from checkValid_applying [OF p(1) none(1)] none(2) obtain f where
    f: "loadAccount a new_AccountFrame (fst s) = (True, f)" "tf_signing tf1 = Some f" "tf_envelope tf1 = tf_envelope tf"
    "fee = tr_feeCharged (tf_result tf1)" "getMinimumBalance lm f \<le> wrap64 (ae_balance (mAccountEntry f) - fee)"
    by (auto simp: assms(4,6))
  have in64: "INT64_MIN \<le> fee" "fee \<le> INT64_MAX" unfolding assms(4) getFee_def Let_def using wrap64_in64 by blast+
  have n1: "n = tx_seqNum (env_tx (tf_envelope tf1))" using f(3) assms(7) by simp
  have l: "synced f (fst s)" using loadAccount_synced [OF f(1)] by simp
  have st: "account_storeChange (charged fee n f) (fst s) (pooled fee (snd s)) = Inr s1"
    "tf2 = tf1\<lparr>tf_signing := Some (charged fee n f)\<rparr>"
    using prepareResult_valid [OF p(2) f(2) l assms(3) f(4) conjI [OF in64] f(5) assms(5) n1] by simp_all
  have "s' = s1"
    using tx_run_failed [OF p(3) assms(2)] checkValid_code [OF p(1)] st(2) by simp
  moreover obtain e where e: "db_account (fst s) a = Some e" "f = \<lparr>mAccountEntry = e, mUpdateSigners = False\<rparr>"
    using f(1) by (auto simp: loadAccount_new split: option.splits)
  moreover obtain r where r: "map_of (db_Accounts (fst s)) a = Some r" using e(1) by (auto simp: db_account_def)
  moreover have "account_row (e\<lparr>ae_seqNum := n, ae_balance := ae_balance e - fee\<rparr>) =
      r\<lparr>ac_seqNum := n, ac_balance := ac_balance r - fee\<rparr>" "ae_accountID e = a"
    using e(1) r by (auto simp: db_account_def row_account_def account_row_def)
  ultimately show ?thesis
    using st(1)
    by (auto simp: account_storeChange_def account_storeUpdate_def sql_update_Inr rbind_eq_Inr Let_def charged_def
        split: if_splits)
qed

theorem failed_transaction_charges_fee_witness:
  "\<exists>s' tf' r. tx_apply sample_verify (\<lambda>_. 1) sample_lm sample_store (sample_tf [sample_pay None 6 10000] [sample_sig 5]) =
      Inr (True, s', tf') \<and> map_of (db_Accounts (fst sample_store)) 5 = Some r \<and>
      map_of (db_Accounts (fst s')) 5 = Some (r\<lparr>ac_seqNum := 11, ac_balance := ac_balance r - 10\<rparr>)"
proof -
  let ?tf = "sample_tf [sample_pay None 6 10000] [sample_sig 5]"
  have "sample_outcome [sample_pay None 6 10000] [sample_sig 5] = Some (txFAILED, 1990, 10)" by code_simp
  then obtain s' tf' where a: "tx_apply sample_verify (\<lambda>_. 1) sample_lm sample_store ?tf = Inr (True, s', tf')"
    and code: "tr_code (tf_result tf') = txFAILED"
    by (auto simp: sample_outcome_def split: sum.splits prod.splits bool.splits)
  have b: "coins_bounded sample_store" by code_simp
  have c: "10 = getFee sample_lm (env_tx (tf_envelope ?tf))" "5 = tx_sourceAccount (env_tx (tf_envelope ?tf))"
    "11 = tx_seqNum (env_tx (tf_envelope ?tf))" by code_simp+
  from failed_transaction_charges_fee [OF a code b c(1) _ c(2,3)] obtain r where
    r: "map_of (db_Accounts (fst sample_store)) 5 = Some r"
    "fst s' = (fst sample_store)\<lparr>db_Accounts := AList.update 5 (r\<lparr>ac_seqNum := 11, ac_balance := ac_balance r - 10\<rparr>)
      (db_Accounts (fst sample_store))\<rparr>" by auto
  with a show ?thesis by (auto simp: update_conv')
qed

end
