(* ===== verification/Tx_Set.thy ===== *)
theory Tx_Set
  imports Transaction_Props "HOL-Library.Multiset"
begin

text \<open>
  \<open>src/herder/TxSetFrame.cpp\<close>: the set of transactions a ledger is closed with.

  An element of the set is a shared pointer, given as its address and the envelope it leads to; the
  rest of a transaction frame is computed anew by every check and application before it is read.
  \<open>FH\<close> is the SHA-256 of the XDR of an envelope, \<open>SH\<close> the SHA-256 of the hash of the previous
  ledger followed by the envelopes. \<open>srt\<close> is \<open>std::sort\<close>, which leaves the order of elements
  that compare as equivalent open.
\<close>

subsection \<open>The contract of \<open>std::sort\<close>\<close>

definition strict_weak :: "('a \<Rightarrow> 'a \<Rightarrow> bool) \<Rightarrow> bool" where
  "strict_weak lt \<longleftrightarrow> (\<forall>a b. lt a b \<longrightarrow> \<not> lt b a) \<and> (\<forall>a b c. \<not> lt a b \<longrightarrow> \<not> lt b c \<longrightarrow> \<not> lt a c)"

locale std_sort =
  fixes srt :: "('a \<Rightarrow> 'a \<Rightarrow> bool) \<Rightarrow> 'a list \<Rightarrow> 'a list"
  assumes sort_mset: "strict_weak lt \<Longrightarrow> mset (srt lt xs) = mset xs"
    and sort_sorted: "strict_weak lt \<Longrightarrow> sorted_wrt (\<lambda>a b. \<not> lt b a) (srt lt xs)"
begin

lemma sort_set: "strict_weak lt \<Longrightarrow> set (srt lt xs) = set xs"
  using sort_mset by (metis set_mset_mset)

lemma sort_key_sorted:
  "strict_weak (\<lambda>a b. (k a :: 'k :: linorder) < k b) \<Longrightarrow> sorted (map k (srt (\<lambda>a b. k a < k b) xs))"
  using sort_sorted [of "\<lambda>a b. k a < k b" xs] by (simp add: sorted_map not_less)

end

lemma strict_weak_key [simp]: "strict_weak (\<lambda>a b. (k a :: 'k :: linorder) < k b)"
  by (auto simp: strict_weak_def)

text \<open>One sort that keeps the contract: insertion, stable.\<close>

fun insert_by :: "('a \<Rightarrow> 'a \<Rightarrow> bool) \<Rightarrow> 'a \<Rightarrow> 'a list \<Rightarrow> 'a list" where
  "insert_by lt x [] = [x]"
| "insert_by lt x (y # ys) = (if lt y x then y # insert_by lt x ys else x # y # ys)"

definition sort_by :: "('a \<Rightarrow> 'a \<Rightarrow> bool) \<Rightarrow> 'a list \<Rightarrow> 'a list" where
  "sort_by lt xs = foldr (insert_by lt) xs []"

lemma mset_insert_by [simp]: "mset (insert_by lt x ys) = add_mset x (mset ys)"
  by (induction ys) auto

lemma set_insert_by [simp]: "set (insert_by lt x ys) = insert x (set ys)"
  by (induction ys) auto

lemma sorted_insert_by:
  assumes "strict_weak lt" "sorted_wrt (\<lambda>a b. \<not> lt b a) ys"
  shows "sorted_wrt (\<lambda>a b. \<not> lt b a) (insert_by lt x ys)"
  using assms(2)
proof (induction ys)
  case (Cons y ys)
  have asym: "lt a b \<Longrightarrow> \<not> lt b a" and trans: "\<not> lt a b \<Longrightarrow> \<not> lt b c \<Longrightarrow> \<not> lt a c" for a b c
    using assms(1) unfolding strict_weak_def by blast+
  show ?case
  proof (cases "lt y x")
    case True
    with Cons asym show ?thesis by simp
  next
    case False
    with Cons.prems have "\<not> lt z x" if "z \<in> set (y # ys)" for z using that trans [of z y x] by auto
    with False Cons.prems show ?thesis by simp
  qed
qed simp

interpretation stable: std_sort sort_by
proof
  fix lt :: "'a \<Rightarrow> 'a \<Rightarrow> bool" and xs
  show "mset (sort_by lt xs) = mset xs" by (induction xs) (simp_all add: sort_by_def)
  assume "strict_weak lt"
  then show "sorted_wrt (\<lambda>a b. \<not> lt b a) (sort_by lt xs)"
    by (induction xs) (simp_all add: sort_by_def sorted_insert_by)
qed

subsection \<open>Definitions\<close>

type_synonym TxPtr = "nat \<times> TransactionEnvelope"
type_synonym sorter = "(TxPtr \<Rightarrow> TxPtr \<Rightarrow> bool) \<Rightarrow> TxPtr list \<Rightarrow> TxPtr list"

record TxSetFrame =
  ts_HashIsValid :: bool
  ts_Hash :: Hash
  ts_PreviousLedgerHash :: Hash
  ts_Transactions :: "TxPtr list"

definition new_TxFrame :: "TransactionEnvelope \<Rightarrow> TxFrame" where
  "new_TxFrame e = \<lparr>tf_envelope = e, tf_result = \<lparr>tr_feeCharged = 0, tr_code = txSUCCESS, tr_results = []\<rparr>,
     tf_signing = None, tf_used = []\<rparr>"

definition getSeqNum :: "TxPtr \<Rightarrow> SequenceNumber" where
  "getSeqNum p = tx_seqNum (env_tx (snd p))"

definition getSourceID :: "TxPtr \<Rightarrow> AccountID" where
  "getSourceID p = tx_sourceAccount (env_tx (snd p))"

definition new_TxSetFrame :: "Hash \<Rightarrow> TxSetFrame" where
  "new_TxSetFrame prev = \<lparr>ts_HashIsValid = False, ts_Hash = 0, ts_PreviousLedgerHash = prev, ts_Transactions = []\<rparr>"

definition HashTxSorter :: "(TransactionEnvelope \<Rightarrow> Hash) \<Rightarrow> TxPtr \<Rightarrow> TxPtr \<Rightarrow> bool" where
  "HashTxSorter FH tx1 tx2 \<longleftrightarrow> FH (snd tx1) < FH (snd tx2)"

definition sortForHash :: "sorter \<Rightarrow> (TransactionEnvelope \<Rightarrow> Hash) \<Rightarrow> TxSetFrame \<Rightarrow> TxSetFrame" where
  "sortForHash srt FH ts =
     ts\<lparr>ts_Transactions := srt (HashTxSorter FH) (ts_Transactions ts), ts_HashIsValid := False\<rparr>"

definition ApplyTxSorter :: "(TransactionEnvelope \<Rightarrow> Hash) \<Rightarrow> Hash \<Rightarrow> TxPtr \<Rightarrow> TxPtr \<Rightarrow> bool" where
  "ApplyTxSorter FH setHash tx1 tx2 \<longleftrightarrow> setHash XOR FH (snd tx1) < setHash XOR FH (snd tx2)"

definition SeqSorter :: "TxPtr \<Rightarrow> TxPtr \<Rightarrow> bool" where
  "SeqSorter tx1 tx2 \<longleftrightarrow> getSeqNum tx1 < getSeqNum tx2"

definition getContentsHash ::
    "sorter \<Rightarrow> (TransactionEnvelope \<Rightarrow> Hash) \<Rightarrow> (Hash \<Rightarrow> TransactionEnvelope list \<Rightarrow> Hash) \<Rightarrow> TxSetFrame \<Rightarrow> Hash \<times> TxSetFrame" where
  "getContentsHash srt FH SH ts =
     (if ts_HashIsValid ts then (ts_Hash ts, ts)
      else
        let ts1 = sortForHash srt FH ts;
            h = SH (ts_PreviousLedgerHash ts1) (map snd (ts_Transactions ts1))
        in (h, ts1\<lparr>ts_Hash := h, ts_HashIsValid := True\<rparr>))"

text \<open>
  The distribution of the transactions over the batches, with the count of the transactions seen
  of each account.
\<close>

fun fill_batches :: "TxPtr list \<Rightarrow> (AccountID \<Rightarrow> nat) \<Rightarrow> TxPtr list list \<Rightarrow> TxPtr list list" where
  "fill_batches [] counts batches = batches"
| "fill_batches (tx # txs) counts batches =
     (let v = counts (getSourceID tx);
          batches' = (if v \<ge> length batches then batches @ replicate (v + 4 - length batches) [] else batches)
      in fill_batches txs (counts(getSourceID tx := v + 1)) (batches'[v := batches' ! v @ [tx]]))"

text \<open>
  The sorter of a batch keeps a reference to the temporary that \<open>getContentsHash\<close> returns, which
  is gone when the sort runs: \<open>setHash i\<close> is whatever the sort of batch \<open>i\<close> reads there.
\<close>

definition sortForApply ::
    "sorter \<Rightarrow> (TransactionEnvelope \<Rightarrow> Hash) \<Rightarrow> (Hash \<Rightarrow> TransactionEnvelope list \<Rightarrow> Hash) \<Rightarrow> (nat \<Rightarrow> Hash) \<Rightarrow> TxSetFrame
      \<Rightarrow> TxPtr list \<times> TxSetFrame" where
  "sortForApply srt FH SH setHash ts =
     (let batches = fill_batches (srt SeqSorter (ts_Transactions ts)) (\<lambda>_. 0) (replicate 4 [])
      in (concat (map (\<lambda>(i, b). srt (ApplyTxSorter FH (setHash i)) b) (enumerate 0 batches)),
          snd (getContentsHash srt FH SH ts)))"

definition removeTx :: "TxPtr \<Rightarrow> TxSetFrame \<Rightarrow> TxSetFrame" where
  "removeTx tx ts =
     ts\<lparr>ts_Transactions := takeWhile (\<lambda>t. fst t \<noteq> fst tx) (ts_Transactions ts) @
          tl (dropWhile (\<lambda>t. fst t \<noteq> fst tx) (ts_Transactions ts))\<rparr>"

definition ts_add :: "TxPtr \<Rightarrow> TxSetFrame \<Rightarrow> TxSetFrame" where
  "ts_add tx ts = ts\<lparr>ts_Transactions := ts_Transactions ts @ [tx], ts_HashIsValid := False\<rparr>"

text \<open>The map from accounts to their transactions, in the order of the accounts.\<close>

definition accountTxMap :: "TxPtr list \<Rightarrow> (AccountID \<times> TxPtr list) list" where
  "accountTxMap txs =
     map (\<lambda>a. (a, filter (\<lambda>tx. getSourceID tx = a) txs)) (sort (remdups (map getSourceID txs)))"

text \<open>
  The loop over the transactions of one account that both checks share: the invalid ones are
  passed over. The value is what was kept, what was passed over, the total of the fees and the
  account as the last valid transaction saw it.
\<close>

fun account_loop ::
    "verifier \<Rightarrow> (Transaction \<Rightarrow> Hash) \<Rightarrow> LedgerHeader \<Rightarrow> Database \<Rightarrow> TxPtr list \<Rightarrow> SequenceNumber \<Rightarrow> int64 \<Rightarrow> AccountFrame option
      \<Rightarrow> TxPtr list \<times> int64 \<times> AccountFrame option" where
  "account_loop V CH lm db [] lastSeq totFee lastTx = ([], totFee, lastTx)"
| "account_loop V CH lm db (tx # txs) lastSeq totFee lastTx =
     (let (ok, tf) = tx_checkValid V CH lm lastSeq db (new_TxFrame (snd tx))
      in if \<not> ok then
           let (bad, r) = account_loop V CH lm db txs lastSeq totFee lastTx in (tx # bad, r)
         else account_loop V CH lm db txs (getSeqNum tx) (wrap64 (totFee + getFee lm (env_tx (snd tx)))) (tf_signing tf))"

text \<open>Whether the account can pay all the fees; nothing is asked where no transaction is valid.\<close>

definition pays_fees :: "LedgerHeader \<Rightarrow> int64 \<Rightarrow> AccountFrame option \<Rightarrow> bool" where
  "pays_fees lm totFee lastTx \<longleftrightarrow>
     (case lastTx of None \<Rightarrow> True
      | Some f \<Rightarrow> \<not> wrap64 (acc_getBalance f - totFee) < getMinimumBalance lm f)"

definition trim_account ::
    "sorter \<Rightarrow> verifier \<Rightarrow> (Transaction \<Rightarrow> Hash) \<Rightarrow> LedgerHeader \<Rightarrow> Database \<Rightarrow> AccountID \<times> TxPtr list \<Rightarrow> TxSetFrame \<Rightarrow> TxSetFrame" where
  "trim_account srt V CH lm db item ts =
     (let txs = srt SeqSorter (snd item);
          (bad, totFee, lastTx) = account_loop V CH lm db txs 0 0 None;
          ts1 = fold removeTx bad ts
      in if pays_fees lm totFee lastTx then ts1 else fold removeTx txs ts1)"

text \<open>The list of what was trimmed is a parameter passed by value: the caller never sees it.\<close>

definition trimInvalid ::
    "sorter \<Rightarrow> (TransactionEnvelope \<Rightarrow> Hash) \<Rightarrow> verifier \<Rightarrow> (Transaction \<Rightarrow> Hash) \<Rightarrow> LedgerHeader \<Rightarrow> Database \<Rightarrow> TxSetFrame \<Rightarrow> TxSetFrame" where
  "trimInvalid srt FH V CH lm db ts =
     (let ts1 = sortForHash srt FH ts
      in fold (trim_account srt V CH lm db) (accountTxMap (ts_Transactions ts1)) ts1)"

fun hash_sorted :: "(TransactionEnvelope \<Rightarrow> Hash) \<Rightarrow> Hash \<Rightarrow> TxPtr list \<Rightarrow> bool" where
  "hash_sorted FH lastHash [] = True"
| "hash_sorted FH lastHash (tx # txs) \<longleftrightarrow> \<not> FH (snd tx) < lastHash \<and> hash_sorted FH (FH (snd tx)) txs"

fun valid_loop ::
    "verifier \<Rightarrow> (Transaction \<Rightarrow> Hash) \<Rightarrow> LedgerHeader \<Rightarrow> Database \<Rightarrow> TxPtr list \<Rightarrow> SequenceNumber \<Rightarrow> int64 \<Rightarrow> AccountFrame option
      \<Rightarrow> (int64 \<times> AccountFrame option) option" where
  "valid_loop V CH lm db [] lastSeq totFee lastTx = Some (totFee, lastTx)"
| "valid_loop V CH lm db (tx # txs) lastSeq totFee lastTx =
     (let (ok, tf) = tx_checkValid V CH lm lastSeq db (new_TxFrame (snd tx))
      in if \<not> ok then None
         else valid_loop V CH lm db txs (getSeqNum tx) (wrap64 (totFee + getFee lm (env_tx (snd tx)))) (tf_signing tf))"

definition valid_account ::
    "sorter \<Rightarrow> verifier \<Rightarrow> (Transaction \<Rightarrow> Hash) \<Rightarrow> LedgerHeader \<Rightarrow> Database \<Rightarrow> AccountID \<times> TxPtr list \<Rightarrow> bool" where
  "valid_account srt V CH lm db item \<longleftrightarrow>
     (case valid_loop V CH lm db (srt SeqSorter (snd item)) 0 0 None of
        None \<Rightarrow> False
      | Some (totFee, lastTx) \<Rightarrow> pays_fees lm totFee lastTx)"

definition ts_checkValid ::
    "sorter \<Rightarrow> (TransactionEnvelope \<Rightarrow> Hash) \<Rightarrow> verifier \<Rightarrow> (Transaction \<Rightarrow> Hash) \<Rightarrow> Hash \<Rightarrow> LedgerHeader \<Rightarrow> Database \<Rightarrow> TxSetFrame \<Rightarrow> bool" where
  "ts_checkValid srt FH V CH lclHash lm db ts \<longleftrightarrow>
     lclHash = ts_PreviousLedgerHash ts \<and> hash_sorted FH 0 (ts_Transactions ts) \<and>
     list_all (valid_account srt V CH lm db) (accountTxMap (ts_Transactions ts))"

record TransactionSet =
  set_previousLedgerHash :: Hash
  set_txs :: "TransactionEnvelope list"

definition ts_toXDR :: "TxSetFrame \<Rightarrow> TransactionSet" where
  "ts_toXDR ts = \<lparr>set_previousLedgerHash = ts_PreviousLedgerHash ts, set_txs = map snd (ts_Transactions ts)\<rparr>"

text \<open>A set from the wire; the frames are allocated at addresses from \<open>base\<close> on.\<close>

definition TxSetFrame_of :: "nat \<Rightarrow> TransactionSet \<Rightarrow> TxSetFrame" where
  "TxSetFrame_of base s = (new_TxSetFrame (set_previousLedgerHash s))\<lparr>ts_Transactions := enumerate base (set_txs s)\<rparr>"

subsection \<open>The order of application\<close>

abbreviation of_account :: "AccountID \<Rightarrow> TxPtr \<Rightarrow> bool" where
  "of_account a tx \<equiv> getSourceID tx = a"

lemma concat_filter_push:
  assumes "v < length bs" "\<forall>i. v \<le> i \<longrightarrow> i < length bs \<longrightarrow> filter P (bs ! i) = []" "P x"
  shows "concat (map (filter P) (bs[v := bs ! v @ [x]])) = concat (map (filter P) bs) @ [x]"
proof -
  have "filter P b = []" if "b \<in> set (drop v bs)" for b
    using that assms(2) by (auto simp: in_set_conv_nth)
  then have d: "concat (map (filter P) (drop v bs)) = []" by simp
  then have "concat (map (filter P) (drop (Suc v) bs)) = []" "filter P (bs ! v) = []"
    using Cons_nth_drop_Suc [OF assms(1)] by (metis append_is_Nil_conv concat.simps(2) list.simps(9))+
  moreover have "concat (map (filter P) bs) = concat (map (filter P) (take v bs)) @ concat (map (filter P) (drop v bs))"
    by (metis append_take_drop_id concat_append map_append)
  ultimately show ?thesis
    using assms(1,3) d by (simp add: upd_conv_take_nth_drop)
qed

lemma concat_filter_other:
  assumes "v < length bs" "\<not> P x"
  shows "concat (map (filter P) (bs[v := bs ! v @ [x]])) = concat (map (filter P) bs)"
proof -
  have "map (filter P) (bs[v := bs ! v @ [x]]) = (map (filter P) bs)[v := map (filter P) bs ! v]"
    using assms by (simp add: map_update)
  then show ?thesis by (simp only: list_update_id)
qed

text \<open>Batch \<open>i\<close> holds the \<open>i\<close>-th transaction of every account that has so many.\<close>

definition batches_ok :: "(AccountID \<Rightarrow> nat) \<Rightarrow> TxPtr list list \<Rightarrow> bool" where
  "batches_ok counts bs \<longleftrightarrow>
     (\<forall>a. counts a \<le> length bs \<and>
        (\<forall>i < length bs. (i < counts a \<longrightarrow> length (filter (of_account a) (bs ! i)) = 1) \<and>
           (counts a \<le> i \<longrightarrow> filter (of_account a) (bs ! i) = [])))"

lemma batches_ok_single:
  assumes "batches_ok counts bs" "b \<in> set bs"
  shows "length (filter (of_account a) b) \<le> 1"
proof -
  obtain i where i: "i < length bs" "b = bs ! i" using assms(2) by (auto simp: in_set_conv_nth)
  with assms(1) show ?thesis by (cases "i < counts a") (auto simp: batches_ok_def)
qed

lemma batches_ok_push:
  assumes "batches_ok counts bs" "counts (getSourceID tx) < length bs" "v = counts (getSourceID tx)"
  shows "batches_ok (counts(getSourceID tx := v + 1)) (bs[v := bs ! v @ [tx]])"
  using assms by (auto simp: batches_ok_def nth_list_update less_Suc_eq)

lemma batches_ok_extend: "batches_ok counts bs \<Longrightarrow> batches_ok counts (bs @ replicate n [])"
  by (auto simp: batches_ok_def nth_append trans_le_add1) (metis leD le_less_trans not_less)

lemma fill_batches_ok:
  assumes "batches_ok counts bs"
  shows "\<exists>counts'. batches_ok counts' (fill_batches txs counts bs) \<and>
    (\<forall>a. concat (map (filter (of_account a)) (fill_batches txs counts bs)) =
       concat (map (filter (of_account a)) bs) @ filter (of_account a) txs)"
  using assms
proof (induction txs counts bs rule: fill_batches.induct)
  case (2 tx txs counts bs)
  define v where "v = counts (getSourceID tx)"
  define bs' where "bs' = (if v \<ge> length bs then bs @ replicate (v + 4 - length bs) [] else bs)"
  have ok': "batches_ok counts bs'" using 2(2) by (auto simp: bs'_def intro: batches_ok_extend)
  have v: "v < length bs'" by (auto simp: bs'_def)
  have same: "concat (map (filter P) bs') = concat (map (filter P) bs)" for P by (simp add: bs'_def)
  have late: "filter (of_account (getSourceID tx)) (bs' ! i) = []" if "v \<le> i" "i < length bs'" for i
    using ok' that by (auto simp: batches_ok_def v_def)
  obtain counts' where c: "batches_ok counts' (fill_batches txs (counts(getSourceID tx := v + 1)) (bs'[v := bs' ! v @ [tx]]))"
    "\<And>a. concat (map (filter (of_account a)) (fill_batches txs (counts(getSourceID tx := v + 1)) (bs'[v := bs' ! v @ [tx]]))) =
       concat (map (filter (of_account a)) (bs'[v := bs' ! v @ [tx]])) @ filter (of_account a) txs"
    using 2(1) [OF v_def bs'_def batches_ok_push [OF ok' _ v_def]] v [unfolded v_def] by metis
  have f: "fill_batches (tx # txs) counts bs = fill_batches txs (counts(getSourceID tx := v + 1)) (bs'[v := bs' ! v @ [tx]])"
    by (simp add: v_def bs'_def Let_def)
  have "concat (map (filter (of_account a)) (bs'[v := bs' ! v @ [tx]])) =
      concat (map (filter (of_account a)) bs) @ filter (of_account a) [tx]" for a
    using concat_filter_push [OF v, of "of_account a" tx] concat_filter_other [OF v, of "of_account a" tx] late same
    by (cases "getSourceID tx = a") auto
  with c show ?case unfolding f by (intro exI [of _ counts'] conjI allI) (auto simp del: fill_batches.simps)
qed auto

lemma filter_single:
  assumes "mset xs = mset ys" "length (filter P ys) \<le> 1"
  shows "filter P xs = filter P ys"
proof -
  have m: "mset (filter P xs) = mset (filter P ys)" using assms(1) by (simp add: mset_filter)
  show ?thesis
    using assms(2) m by (cases "filter P ys"; cases "tl (filter P ys)") (auto simp del: mset_filter)
qed

text \<open>
  C17: the order of application. Whatever sort the library has and whatever the sorter of a batch
  reads for the hash of the set, the transactions applied are those of the set, each once, and
  those of one account come in ascending order of their sequence numbers.
\<close>

theorem sortForApply_order:
  assumes "std_sort srt"
  shows "mset (fst (sortForApply srt FH SH setHash ts)) = mset (ts_Transactions ts) \<and>
    (\<forall>a. sorted (map getSeqNum (filter (\<lambda>tx. getSourceID tx = a) (fst (sortForApply srt FH SH setHash ts)))))"
proof -
  define txs where "txs = fst (sortForApply srt FH SH setHash ts)"
  define L where "L = srt SeqSorter (ts_Transactions ts)"
  define bs where "bs = fill_batches L (\<lambda>_. 0) (replicate 4 [])"
  have seq: "strict_weak SeqSorter" and app: "strict_weak (ApplyTxSorter FH h)" for h
    by (auto simp: strict_weak_def SeqSorter_def ApplyTxSorter_def)
  have L: "mset L = mset (ts_Transactions ts)" "sorted (map getSeqNum L)"
    using std_sort.sort_mset [OF assms(1) seq] std_sort.sort_sorted [OF assms(1) seq, of "ts_Transactions ts"]
    by (auto simp: L_def SeqSorter_def sorted_map not_less)
  have "batches_ok (\<lambda>_. 0) (replicate 4 [])" by (simp add: batches_ok_def)
  from fill_batches_ok [OF this, of L] obtain counts where
    ok: "batches_ok counts bs" and flt: "\<And>a. concat (map (filter (of_account a)) bs) = filter (of_account a) L"
    by (auto simp: bs_def)
  have perm: "mset (srt (ApplyTxSorter FH h) b) = mset b" for h b by (rule std_sort.sort_mset [OF assms(1) app])
  have "filter (of_account a) (srt (ApplyTxSorter FH h) b) = filter (of_account a) b" if "b \<in> set bs" for a h b
    using ok that by (intro filter_single perm batches_ok_single)
  then have "filter (of_account a) txs = concat (map (filter (of_account a) \<circ> snd) (enumerate 0 bs))" for a
    unfolding txs_def sortForApply_def Let_def fst_conv L_def [symmetric] bs_def [symmetric] filter_concat map_map
    by (intro arg_cong [of _ _ concat] map_cong) (auto simp: in_set_enumerate_eq)
  then have a: "filter (of_account a) txs = filter (of_account a) L" for a
    using flt by (simp add: map_map [symmetric] del: map_map)
  have "filter_mset (of_account a) (mset txs) = filter_mset (of_account a) (mset L)" for a
    using a by (metis mset_filter)
  then have "count (mset txs) x = count (mset L) x" for x
    by (metis (mono_tags, lifting) count_filter_mset)
  with L a show ?thesis unfolding txs_def [symmetric] by (auto intro!: multiset_eqI sorted_filter)
qed

text \<open>Account 5 sends transactions 11, 12 and 14, account 6 sends 21; hashes are made of the numbers.\<close>

definition sample_env :: "AccountID \<Rightarrow> SequenceNumber \<Rightarrow> TransactionEnvelope" where
  "sample_env a n = \<lparr>env_tx = (sample_tx [sample_pay None 6 1])\<lparr>tx_sourceAccount := a, tx_seqNum := n\<rparr>,
     env_signatures = [sample_sig a]\<rparr>"

definition sample_FH :: "TransactionEnvelope \<Rightarrow> Hash" where
  "sample_FH e = ucast (tx_seqNum (env_tx e) XOR 15)"

definition sample_set :: TxSetFrame where
  "sample_set = (new_TxSetFrame 77)\<lparr>ts_Transactions :=
     [(0, sample_env 5 12), (1, sample_env 6 21), (2, sample_env 5 14), (3, sample_env 5 11)]\<rparr>"

theorem sortForApply_order_witness:
  "std_sort sort_by \<and>
   sorted (map getSeqNum (filter (\<lambda>tx. getSourceID tx = 5)
     (fst (sortForApply sort_by sample_FH (\<lambda>h es. h) (\<lambda>_. 9) sample_set)))) \<and>
   map fst (fst (sortForApply sort_by sample_FH (\<lambda>h es. h) (\<lambda>_. 9) sample_set)) = [3, 1, 0, 2]"
proof -
  have "map fst (fst (sortForApply sort_by sample_FH (\<lambda>h es. h) (\<lambda>_. 9) sample_set)) = [3, 1, 0, 2]" by code_simp
  with sortForApply_order [OF stable.std_sort_axioms, of sample_FH "\<lambda>h es. h" "\<lambda>_. 9" sample_set] stable.std_sort_axioms
  show ?thesis by blast
qed

subsection \<open>Trimming and checking\<close>

text \<open>
  The check of a transaction depends on the sequence number asked for only through the comparison
  with its own; the account it reads is the one of the database.
\<close>

lemma checkSignature_signing: "checkSignature V CH f n tf = (ok, tf') \<Longrightarrow> tf_signing tf' = tf_signing tf"
  by (auto simp: checkSignature_def Let_def split: prod.splits)

lemma op_checkValid_signing:
  "op_checkValid V CH op db tf = (ok, r, tf', src) \<Longrightarrow> tf_signing tf' = tf_signing tf"
  by (auto simp: op_checkValid_def Let_def split: option.splits prod.splits if_splits dest: checkSignature_signing)

lemma check_ops_signing:
  "check_ops V CH db ops rs tf = (ok, rs', tf') \<Longrightarrow> tf_signing tf' = tf_signing tf"
  by (induction V CH db ops rs tf rule: check_ops.induct)
    (auto simp: Let_def split: prod.splits if_splits dest: op_checkValid_signing)

lemma checkValid_ops_signing:
  "checkValid_ops V CH db tf = (ok, tf') \<Longrightarrow> tf_signing tf' = tf_signing tf"
  by (auto simp: checkValid_ops_def Let_def set_results_def checkAllSignaturesUsed_def set_code_def
      markResultFailed_def split: prod.splits if_splits dest!: check_ops_signing)

definition asked :: "AccountFrame \<Rightarrow> SequenceNumber \<Rightarrow> SequenceNumber" where
  "asked f cur = (if cur = 0 then ae_seqNum (mAccountEntry f) else cur) + 1"

lemma tx_checkValid_valid:
  assumes "tx_checkValid V CH lm cur db (new_TxFrame e) = (True, tf)"
  obtains f where "loadAccount (tx_sourceAccount (env_tx e)) new_AccountFrame db = (True, f)"
    "tf_signing tf = Some f" "asked f cur = tx_seqNum (env_tx e)"
    "\<And>cur'. asked f cur' = tx_seqNum (env_tx e) \<Longrightarrow> tx_checkValid V CH lm cur' db (new_TxFrame e) = (True, tf)"
  using assms
  by (auto simp: tx_checkValid_def checkValid_def Let_def resetState_def new_TxFrame_def set_fee_def set_results_def
      set_code_def tx_loadAccount_def shares_frame_def asked_def
      split: if_splits option.splits prod.splits dest!: checkValid_ops_signing checkSignature_signing)

text \<open>The sequence numbers of the transactions of an account follow one another.\<close>

fun seq_chain :: "AccountFrame \<Rightarrow> SequenceNumber \<Rightarrow> SequenceNumber list \<Rightarrow> bool" where
  "seq_chain f lastSeq [] = True"
| "seq_chain f lastSeq (s # ss) \<longleftrightarrow> asked f lastSeq = s \<and> seq_chain f s ss"

definition checks_alone :: "verifier \<Rightarrow> (Transaction \<Rightarrow> Hash) \<Rightarrow> LedgerHeader \<Rightarrow> Database \<Rightarrow> TxPtr \<Rightarrow> bool" where
  "checks_alone V CH lm db tx \<longleftrightarrow> (\<exists>cur. fst (tx_checkValid V CH lm cur db (new_TxFrame (snd tx))))"

abbreviation fees_sum :: "LedgerHeader \<Rightarrow> TxPtr list \<Rightarrow> int" where
  "fees_sum lm txs \<equiv> sum_list (map (\<lambda>tx. getFee lm (env_tx (snd tx))) txs)"

lemma wrap64_add [simp]: "wrap64 (wrap64 x + y) = wrap64 (x + y)" "wrap64 (wrap64 x) = wrap64 x"
  by (simp_all add: wrap64_def algebra_simps mod_simps)

lemma valid_loop_eq:
  assumes "loadAccount a new_AccountFrame db = (True, f)" "\<forall>tx \<in> set txs. getSourceID tx = a"
  shows "valid_loop V CH lm db txs lastSeq (wrap64 totFee) lastTx =
    (if seq_chain f lastSeq (map getSeqNum txs) \<and> (\<forall>tx \<in> set txs. checks_alone V CH lm db tx)
     then Some (wrap64 (totFee + fees_sum lm txs), if txs = [] then lastTx else Some f) else None)"
  using assms(2)
proof (induction txs arbitrary: lastSeq totFee lastTx)
  case (Cons tx txs)
  obtain ok tf where c: "tx_checkValid V CH lm lastSeq db (new_TxFrame (snd tx)) = (ok, tf)" by fastforce
  show ?case
  proof (cases ok)
    case True
    with c obtain g where "loadAccount (getSourceID tx) new_AccountFrame db = (True, g)"
      "tf_signing tf = Some g" "asked g lastSeq = getSeqNum tx"
      by (auto simp: getSourceID_def getSeqNum_def elim: tx_checkValid_valid)
    moreover have "checks_alone V CH lm db tx" using c True by (metis checks_alone_def fst_conv)
    ultimately show ?thesis
      using Cons.IH [of "getSeqNum tx" "totFee + getFee lm (env_tx (snd tx))" "Some f"] Cons.prems assms(1) c True
      by (simp add: algebra_simps)
  next
    case False
    have "asked f lastSeq \<noteq> getSeqNum tx" if alone: "checks_alone V CH lm db tx"
    proof -
      from alone obtain cur where "fst (tx_checkValid V CH lm cur db (new_TxFrame (snd tx)))"
        unfolding checks_alone_def by blast
      then obtain tf' where "tx_checkValid V CH lm cur db (new_TxFrame (snd tx)) = (True, tf')"
        by (metis prod.collapse)
      then obtain g where g: "loadAccount (getSourceID tx) new_AccountFrame db = (True, g)"
        "asked g lastSeq = getSeqNum tx \<Longrightarrow> tx_checkValid V CH lm lastSeq db (new_TxFrame (snd tx)) = (True, tf')"
        by (rule tx_checkValid_valid) (simp add: getSourceID_def getSeqNum_def)
      with c False Cons.prems assms(1) show ?thesis by auto
    qed
    then show ?thesis using c False by simp
  qed
qed simp

lemma account_loop_valid:
  assumes "account_loop V CH lm db txs lastSeq totFee lastTx = (bad, r)" "distinct txs"
  shows "set bad \<subseteq> set txs \<and> valid_loop V CH lm db (filter (\<lambda>tx. tx \<notin> set bad) txs) lastSeq totFee lastTx = Some r"
  using assms
proof (induction txs arbitrary: lastSeq totFee lastTx bad)
  case (Cons tx txs)
  obtain ok tf where c: "tx_checkValid V CH lm lastSeq db (new_TxFrame (snd tx)) = (ok, tf)" by fastforce
  show ?case
  proof (cases ok)
    case True
    with Cons c have "set bad \<subseteq> set txs \<and>
        valid_loop V CH lm db (filter (\<lambda>tx. tx \<notin> set bad) txs) (getSeqNum tx)
          (wrap64 (totFee + getFee lm (env_tx (snd tx)))) (tf_signing tf) = Some r"
      by simp
    with True Cons.prems(2) c show ?thesis by auto
  next
    case False
    with Cons.prems(1) c obtain bad' where "bad = tx # bad'" "account_loop V CH lm db txs lastSeq totFee lastTx = (bad', r)"
      by (auto split: prod.splits)
    moreover have "filter (\<lambda>t. t \<noteq> tx \<and> t \<notin> set bad') txs = filter (\<lambda>t. t \<notin> set bad') txs"
      using Cons.prems(2) by (auto intro: filter_cong)
    ultimately show ?thesis using Cons.IH [of lastSeq totFee lastTx bad'] Cons.prems(2) by auto
  qed
qed simp

lemma account_loop_all:
  "valid_loop V CH lm db txs lastSeq totFee lastTx = Some r \<Longrightarrow>
   account_loop V CH lm db txs lastSeq totFee lastTx = ([], r)"
  by (induction txs arbitrary: lastSeq totFee lastTx) (auto split: prod.splits if_splits)

lemma sorted_keys_unique: "mset xs = mset ys \<Longrightarrow> sorted (map k xs) \<Longrightarrow> sorted (map k ys) \<Longrightarrow> map k xs = map k ys"
  by (metis mset_map properties_for_sort)

abbreviation ptrs :: "TxSetFrame \<Rightarrow> nat list" where
  "ptrs ts \<equiv> map fst (ts_Transactions ts)"

lemma filter_distinct_fst:
  "distinct (map fst xs) \<Longrightarrow> takeWhile (\<lambda>t. fst t \<noteq> p) xs @ tl (dropWhile (\<lambda>t. fst t \<noteq> p) xs) = filter (\<lambda>t. fst t \<noteq> p) xs"
proof (induction xs)
  case (Cons x xs)
  have "fst t \<noteq> fst x" if "t \<in> set xs" for t using Cons.prems that by (auto simp: image_iff)
  then have "filter (\<lambda>t. fst t \<noteq> fst x) xs = xs" by (simp add: filter_True)
  with Cons show ?case by (cases "fst x = p") auto
qed simp

lemma removeTx_eq:
  "distinct (ptrs ts) \<Longrightarrow> removeTx tx ts = ts\<lparr>ts_Transactions := filter (\<lambda>t. fst t \<noteq> fst tx) (ts_Transactions ts)\<rparr>"
  by (simp add: removeTx_def filter_distinct_fst)

lemma fold_removeTx:
  "distinct (ptrs ts) \<Longrightarrow>
   fold removeTx bad ts = ts\<lparr>ts_Transactions := filter (\<lambda>t. fst t \<notin> fst ` set bad) (ts_Transactions ts)\<rparr>"
proof (induction bad arbitrary: ts)
  case (Cons tx bad)
  let ?ts = "ts\<lparr>ts_Transactions := filter (\<lambda>t. fst t \<noteq> fst tx) (ts_Transactions ts)\<rparr>"
  have "distinct (ptrs ?ts)" using Cons.prems by (simp add: distinct_map_filter)
  from Cons.IH [OF this] removeTx_eq [OF Cons.prems] show ?case by (simp add: conj_commute)
qed simp

text \<open>What trimming takes out of the transactions of one account.\<close>

definition trimmed ::
    "sorter \<Rightarrow> verifier \<Rightarrow> (Transaction \<Rightarrow> Hash) \<Rightarrow> LedgerHeader \<Rightarrow> Database \<Rightarrow> TxPtr list \<Rightarrow> TxPtr list" where
  "trimmed srt V CH lm db txs =
     (let (bad, totFee, lastTx) = account_loop V CH lm db (srt SeqSorter txs) 0 0 None
      in if pays_fees lm totFee lastTx then bad else bad @ srt SeqSorter txs)"

lemma trim_account_eq:
  assumes "distinct (ptrs ts)"
  shows "trim_account srt V CH lm db item ts =
    ts\<lparr>ts_Transactions := filter (\<lambda>t. fst t \<notin> fst ` set (trimmed srt V CH lm db (snd item))) (ts_Transactions ts)\<rparr>"
proof -
  obtain bad totFee lastTx where a: "account_loop V CH lm db (srt SeqSorter (snd item)) 0 0 None = (bad, totFee, lastTx)"
    by (metis prod_cases3)
  have "fold removeTx (srt SeqSorter (snd item)) (fold removeTx bad ts) = fold removeTx (bad @ srt SeqSorter (snd item)) ts"
    by simp
  then show ?thesis
    using a by (simp only: trim_account_def trimmed_def Let_def prod.case fold_removeTx [OF assms] split: if_split) simp
qed

lemma fold_trim_account:
  "distinct (ptrs ts) \<Longrightarrow> fold (trim_account srt V CH lm db) items ts =
    ts\<lparr>ts_Transactions := filter (\<lambda>t. \<forall>item \<in> set items. fst t \<notin> fst ` set (trimmed srt V CH lm db (snd item))) (ts_Transactions ts)\<rparr>"
proof (induction items arbitrary: ts)
  case (Cons item items)
  let ?ts = "trim_account srt V CH lm db item ts"
  have eq: "?ts = ts\<lparr>ts_Transactions :=
      filter (\<lambda>t. fst t \<notin> fst ` set (trimmed srt V CH lm db (snd item))) (ts_Transactions ts)\<rparr>"
    by (rule trim_account_eq [OF Cons.prems])
  then have "distinct (ptrs ?ts)" using Cons.prems by (simp add: distinct_map_filter)
  from Cons.IH [OF this] show ?case by (simp add: eq conj_commute)
qed simp

lemma hash_sorted_eq: "hash_sorted FH h txs \<longleftrightarrow> sorted (h # map (FH \<circ> snd) txs)"
  by (induction txs arbitrary: h) (auto simp: not_less dest: order_trans)

lemma accountTxMap_item:
  "set (accountTxMap txs) = (\<lambda>tx. (getSourceID tx, filter (of_account (getSourceID tx)) txs)) ` set txs"
  by (simp add: accountTxMap_def image_image)

locale tx_sort = std_sort srt for srt :: sorter
begin

lemma seq_sort:
  "mset (srt SeqSorter xs) = mset xs" "sorted (map getSeqNum (srt SeqSorter xs))" "set (srt SeqSorter xs) = set xs"
proof -
  have "strict_weak SeqSorter" by (auto simp: strict_weak_def SeqSorter_def)
  from sort_mset [OF this] sort_sorted [OF this] show "mset (srt SeqSorter xs) = mset xs"
    "sorted (map getSeqNum (srt SeqSorter xs))" "set (srt SeqSorter xs) = set xs"
    by (auto simp: SeqSorter_def sorted_map not_less dest: mset_eq_setD)
qed

lemma hash_sort:
  "mset (srt (HashTxSorter FH) xs) = mset xs" "sorted (map (FH \<circ> snd) (srt (HashTxSorter FH) xs))"
proof -
  have "strict_weak (HashTxSorter FH)" by (auto simp: strict_weak_def HashTxSorter_def)
  from sort_mset [OF this] sort_sorted [OF this] show "mset (srt (HashTxSorter FH) xs) = mset xs"
    "sorted (map (FH \<circ> snd) (srt (HashTxSorter FH) xs))"
    by (auto simp: HashTxSorter_def sorted_map not_less)
qed

lemma valid_loop_perm:
  assumes "valid_loop V CH lm db xs 0 0 None = Some r" "mset ys = mset xs" "sorted (map getSeqNum xs)"
    and "sorted (map getSeqNum ys)" "\<forall>tx \<in> set xs. getSourceID tx = a" "xs \<noteq> []"
  shows "valid_loop V CH lm db ys 0 0 None = Some r"
proof -
  from assms(1,6) obtain tx txs tf where "xs = tx # txs"
    "tx_checkValid V CH lm 0 db (new_TxFrame (snd tx)) = (True, tf)"
    by (cases xs) (auto split: prod.splits if_splits)
  with assms(5) obtain f where f: "loadAccount a new_AccountFrame db = (True, f)"
    by (auto simp: getSourceID_def elim: tx_checkValid_valid)
  have "map getSeqNum ys = map getSeqNum xs" using assms(2-4) by (intro sorted_keys_unique) simp_all
  moreover have "set ys = set xs" using assms(2) by (rule mset_eq_setD)
  moreover have "fees_sum lm ys = fees_sum lm xs" 
    using arg_cong [OF assms(2), of "\<lambda>m. sum_mset (image_mset (\<lambda>tx. getFee lm (env_tx (snd tx))) m)"]
    by (simp flip: sum_mset_sum_list)
  moreover have "ys \<noteq> []" using assms(2,6) by auto
  moreover have "wrap64 0 = 0" by (simp add: INT64_MIN_def INT64_MAX_def)
  ultimately show ?thesis
    using assms(1,5,6) valid_loop_eq [OF f, of xs V CH lm 0 0 None] valid_loop_eq [OF f, of ys V CH lm 0 0 None]
    by simp
qed

lemma trimmed_account:
  assumes "distinct txs" "\<forall>tx \<in> set txs. getSourceID tx = a"
    and "K = filter (\<lambda>t. t \<notin> set (trimmed srt V CH lm db txs)) txs"
  shows "set (trimmed srt V CH lm db txs) \<subseteq> set txs \<and> (K = [] \<or> valid_account srt V CH lm db (a, K))"
proof -
  let ?S = "srt SeqSorter txs"
  obtain bad totFee lastTx where l: "account_loop V CH lm db ?S 0 0 None = (bad, totFee, lastTx)" by (metis prod_cases3)
  have dist: "distinct ?S" using assms(1) seq_sort(1) by (metis mset_eq_imp_distinct_iff)
  let ?F = "filter (\<lambda>tx. tx \<notin> set bad) ?S"
  have bad: "set bad \<subseteq> set txs" and v: "valid_loop V CH lm db ?F 0 0 None = Some (totFee, lastTx)"
    using account_loop_valid [OF l dist] seq_sort(3) by auto
  have "K = [] \<or> valid_account srt V CH lm db (a, K)"
  proof (cases "pays_fees lm totFee lastTx")
    case True
    then have K: "K = filter (\<lambda>t. t \<notin> set bad) txs" using l assms(3) by (simp add: trimmed_def)
    have m: "mset (srt SeqSorter K) = mset ?F" by (simp add: seq_sort(1) K)
    show ?thesis
    proof (cases "K = []")
      case False
      with m have "?F \<noteq> []" by (metis mset_zero_iff seq_sort(1))
      with valid_loop_perm [OF v m _ _ _ this, of a] True assms(2) seq_sort
      show ?thesis by (simp add: valid_account_def sorted_filter)
    qed simp
  next
    case False
    then have "K = []" using l assms(3) seq_sort(3) by (simp add: trimmed_def)
    then show ?thesis by simp
  qed
  with bad l seq_sort(3) show ?thesis by (auto simp: trimmed_def)
qed

lemma trimInvalid_groups:
  fixes FH V CH lm db
  assumes "distinct (ptrs ts)"
  defines "T \<equiv> ts_Transactions (sortForHash srt FH ts)"
  defines "T' \<equiv> ts_Transactions (trimInvalid srt FH V CH lm db ts)"
  shows "filter (of_account a) T' =
      filter (\<lambda>t. t \<notin> set (trimmed srt V CH lm db (filter (of_account a) T))) (filter (of_account a) T)"
    and "sorted (map (FH \<circ> snd) T')"
proof -
  let ?R = "\<lambda>b. trimmed srt V CH lm db (filter (of_account b) T)"
  have T: "mset T = mset (ts_Transactions ts)" "sorted (map (FH \<circ> snd) T)"
    by (simp_all add: T_def sortForHash_def hash_sort)
  have dist: "distinct (map fst T)" using assms(1) T(1) by (metis mset_eq_imp_distinct_iff mset_map)
  have T': "T' = filter (\<lambda>t. \<forall>item \<in> set (accountTxMap T). fst t \<notin> fst ` set (trimmed srt V CH lm db (snd item))) T"
    using fold_trim_account [of "sortForHash srt FH ts" srt V CH lm db "accountTxMap T"] dist
    by (simp add: T'_def T_def trimInvalid_def Let_def)
  show "sorted (map (FH \<circ> snd) T')" using T(2) by (simp add: T' sorted_filter)
  have sub: "set (?R b) \<subseteq> set (filter (of_account b) T)" for b
    by (rule trimmed_account [where a = b, OF _ _ refl, THEN conjunct1]) (use dist in \<open>simp_all add: distinct_map\<close>)
  have "(\<forall>item \<in> set (accountTxMap T). fst t \<notin> fst ` set (trimmed srt V CH lm db (snd item))) \<longleftrightarrow> t \<notin> set (?R a)"
    if t: "t \<in> set T" "getSourceID t = a" for t
  proof -
    have "fst t \<in> fst ` set (?R b) \<longleftrightarrow> t \<in> set (?R b)" for b
    proof -
      have "set (?R b) \<subseteq> set T" using sub [of b] by auto
      moreover have "inj_on fst (set T)" using dist by (simp add: distinct_map)
      ultimately show ?thesis using t(1) by (simp add: inj_on_image_mem_iff)
    qed
    then have "(\<forall>item \<in> set (accountTxMap T). fst t \<notin> fst ` set (trimmed srt V CH lm db (snd item))) \<longleftrightarrow>
        (\<forall>u \<in> set T. t \<notin> set (?R (getSourceID u)))"
      unfolding accountTxMap_item by (simp only: ball_simps snd_conv)
    moreover have "t \<notin> set (?R (getSourceID u))" if "getSourceID u \<noteq> a" for u
      using sub [of "getSourceID u"] t(2) that by auto
    ultimately show ?thesis using t by metis
  qed
  then show "filter (of_account a) T' = filter (\<lambda>t. t \<notin> set (?R a)) (filter (of_account a) T)"
    unfolding T' filter_filter by (intro filter_cong) auto
qed

lemma trim_valid:
  assumes "distinct (ptrs ts)" "ts_PreviousLedgerHash ts = lclHash"
  shows "ts_checkValid srt FH V CH lclHash lm db (trimInvalid srt FH V CH lm db ts)"
proof -
  let ?T = "ts_Transactions (sortForHash srt FH ts)" and ?T' = "ts_Transactions (trimInvalid srt FH V CH lm db ts)"
  have T: "distinct (map fst ?T)"
    using assms(1) hash_sort(1) [of FH "ts_Transactions ts"] unfolding sortForHash_def
    by simp (metis mset_eq_imp_distinct_iff mset_map)
  have "valid_account srt V CH lm db item" if "item \<in> set (accountTxMap ?T')" for item
  proof -
    from that obtain tx where tx: "tx \<in> set ?T'" "item = (getSourceID tx, filter (of_account (getSourceID tx)) ?T')"
      by (auto simp: accountTxMap_item)
    then have "filter (of_account (getSourceID tx)) ?T' \<noteq> []" by (auto simp: filter_empty_conv)
    moreover have "distinct (filter (of_account (getSourceID tx)) ?T)" using T by (simp add: distinct_map)
    moreover have "\<forall>t \<in> set (filter (of_account (getSourceID tx)) ?T). getSourceID t = getSourceID tx" by simp
    ultimately show ?thesis unfolding tx(2)
      using trimmed_account [THEN conjunct2, OF _ _ trimInvalid_groups(1) [OF assms(1)]] by blast
  qed
  moreover have "ts_PreviousLedgerHash (trimInvalid srt FH V CH lm db ts) = ts_PreviousLedgerHash ts"
    using fold_trim_account [of "sortForHash srt FH ts" srt V CH lm db] T
    by (simp add: trimInvalid_def Let_def) (simp add: sortForHash_def)
  ultimately show ?thesis
    using assms(2) trimInvalid_groups(2) [OF assms(1), of FH V CH lm db]
    by (simp add: ts_checkValid_def list_all_iff hash_sorted_eq)
qed

lemma trim_nothing:
  assumes "distinct (ptrs ts)" "ts_checkValid srt FH V CH lclHash lm db (sortForHash srt FH ts)"
  shows "trimInvalid srt FH V CH lm db ts = sortForHash srt FH ts"
proof -
  let ?ts = "sortForHash srt FH ts"
  have T: "distinct (ptrs ?ts)"
    using assms(1) hash_sort(1) [of FH "ts_Transactions ts"] unfolding sortForHash_def
    by simp (metis mset_eq_imp_distinct_iff mset_map)
  have "trimmed srt V CH lm db (snd item) = []" if "item \<in> set (accountTxMap (ts_Transactions ?ts))" for item
  proof -
    have "valid_account srt V CH lm db item" using that assms(2) by (auto simp: ts_checkValid_def list_all_iff)
    then show ?thesis
      by (auto simp: valid_account_def trimmed_def account_loop_all split: option.splits)
  qed
  then show ?thesis using fold_trim_account [OF T, of srt V CH lm db] by (simp add: trimInvalid_def Let_def)
qed

end

interpretation trim: tx_sort sort_by ..

text \<open>
  C9: trimming makes a set valid and takes out nothing from a set that is valid already. A set
  built on the last closed ledger passes the check of the other nodes after \<open>trimInvalid\<close>,
  although that goes account by account and drops single transactions out of a sequence; both
  for any sort the library may have and any verification of signatures.
\<close>

theorem trimInvalid_gives_valid_set:
  assumes "std_sort srt" "distinct (map fst (ts_Transactions ts))" "ts_PreviousLedgerHash ts = lclHash"
  shows "ts_checkValid srt FH V CH lclHash lm db (trimInvalid srt FH V CH lm db ts) \<and>
    (ts_checkValid srt FH V CH lclHash lm db (sortForHash srt FH ts) \<longrightarrow>
     trimInvalid srt FH V CH lm db ts = sortForHash srt FH ts)"
  using tx_sort.trim_valid [OF tx_sort.intro] tx_sort.trim_nothing [OF tx_sort.intro] assms by blast

theorem trimInvalid_gives_valid_set_witness:
  "ts_checkValid sort_by sample_FH sample_verify (\<lambda>_. 1) 77 sample_lm (fst sample_store)
     (trimInvalid sort_by sample_FH sample_verify (\<lambda>_. 1) sample_lm (fst sample_store) sample_set) \<and>
   map fst (ts_Transactions (trimInvalid sort_by sample_FH sample_verify (\<lambda>_. 1) sample_lm (fst sample_store) sample_set)) =
     [0, 3, 1]"
proof -
  have d: "distinct (map fst (ts_Transactions sample_set))" "ts_PreviousLedgerHash sample_set = 77" by code_simp+
  have "map fst (ts_Transactions (trimInvalid sort_by sample_FH sample_verify (\<lambda>_. 1) sample_lm (fst sample_store) sample_set)) =
     [0, 3, 1]" by code_simp
  with trimInvalid_gives_valid_set [OF stable.std_sort_axioms d, of sample_FH sample_verify "\<lambda>_. 1" sample_lm "fst sample_store"]
  show ?thesis by blast
qed

end
