(* ===== verification/Bucket_Manager.thy ===== *)
theory Bucket_Manager
  imports Bucket_List
begin

text \<open>
  \<open>src/bucket/BucketManagerImpl.cpp\<close> and the archive state of \<open>src/history/HistoryArchive.cpp\<close>:
  the bucket files, the buckets shared in memory, and the saving and restoring of the bucket list.

  A bucket file is named after the hash of its contents; the directory is a table from hashes to
  contents. The hexadecimal strings of an archive state are the hashes they spell. The JSON text of
  an archive state is not modelled, the values in it are.
\<close>

subsection \<open>Archive states\<close>

record HistoryStateBucket =
  hsb_curr :: Hash
  hsb_next :: FutureBucket
  hsb_snap :: Hash

record HistoryArchiveState =
  has_version :: nat
  has_currentLedger :: uint32
  has_currentBuckets :: "HistoryStateBucket list"

definition new_HistoryArchiveState :: HistoryArchiveState where
  "new_HistoryArchiveState = \<lparr>has_version = 0, has_currentLedger = 0,
     has_currentBuckets = replicate kNumLevels \<lparr>hsb_curr = 0, hsb_next = clear_bucket, hsb_snap = 0\<rparr>\<rparr>"

definition HistoryArchiveState_of :: "(Bucket \<Rightarrow> Hash) \<Rightarrow> uint32 \<Rightarrow> BucketLevel list \<Rightarrow> HistoryArchiveState" where
  "HistoryArchiveState_of H ledgerSeq levels = \<lparr>has_version = 0, has_currentLedger = ledgerSeq,
     has_currentBuckets = map (\<lambda>i. \<lparr>hsb_curr = bucket_hash H (mCurr (levels ! i)), hsb_next = mNextCurr (levels ! i),
       hsb_snap = bucket_hash H (mSnap (levels ! i))\<rparr>) [0..<kNumLevels]\<rparr>"

fun all_ready :: "HistoryStateBucket list \<Rightarrow> bool res" where
  "all_ready [] = Inr True"
| "all_ready (level # ls) =
     (if isMerging (hsb_next level) then
        rbind (mergeComplete (hsb_next level)) (\<lambda>c. if \<not> c then Inr False else all_ready ls)
      else all_ready ls)"

definition futuresAllReady :: "HistoryArchiveState \<Rightarrow> bool res" where
  "futuresAllReady has = all_ready (has_currentBuckets has)"

definition futuresAllResolved :: "HistoryArchiveState \<Rightarrow> bool" where
  "futuresAllResolved has \<longleftrightarrow> (\<forall>level \<in> set (has_currentBuckets has). \<not> isMerging (hsb_next level))"

fun map_res :: "('a \<Rightarrow> 'b res) \<Rightarrow> 'a list \<Rightarrow> 'b list res" where
  "map_res f [] = Inr []"
| "map_res f (x # xs) = rbind (f x) (\<lambda>y. rbind (map_res f xs) (\<lambda>ys. Inr (y # ys)))"

definition resolve_next :: "(Bucket \<Rightarrow> Hash) \<Rightarrow> HistoryStateBucket \<Rightarrow> HistoryStateBucket res" where
  "resolve_next H level = rbind (resolve H (hsb_next level)) (\<lambda>(_, fb). Inr (level\<lparr>hsb_next := fb\<rparr>))"

definition resolveAllFutures :: "(Bucket \<Rightarrow> Hash) \<Rightarrow> HistoryArchiveState \<Rightarrow> HistoryArchiveState res" where
  "resolveAllFutures H has =
     rbind (map_res (\<lambda>level. if isMerging (hsb_next level) then resolve_next H level else Inr level)
       (has_currentBuckets has)) (\<lambda>bs. Inr (has\<lparr>has_currentBuckets := bs\<rparr>))"

definition resolveAnyReadyFutures :: "(Bucket \<Rightarrow> Hash) \<Rightarrow> HistoryArchiveState \<Rightarrow> HistoryArchiveState res" where
  "resolveAnyReadyFutures H has =
     rbind (map_res (\<lambda>level.
         if isMerging (hsb_next level) then
           rbind (mergeComplete (hsb_next level)) (\<lambda>c. if c then resolve_next H level else Inr level)
         else Inr level) (has_currentBuckets has)) (\<lambda>bs. Inr (has\<lparr>has_currentBuckets := bs\<rparr>))"

text \<open>What \<open>serialize\<close> writes and reads.\<close>

record HasArchive =
  ha_version :: nat
  ha_currentLedger :: uint32
  ha_currentBuckets :: "(Hash \<times> FB_Archive \<times> Hash) list"

definition has_toString :: "(Bucket \<Rightarrow> Hash) \<Rightarrow> HistoryArchiveState \<Rightarrow> HasArchive res" where
  "has_toString H has =
     rbind (map_res (\<lambda>level. rbind (save H (hsb_next level)) (\<lambda>ar. Inr (hsb_curr level, ar, hsb_snap level)))
       (has_currentBuckets has)) (\<lambda>bs.
     Inr \<lparr>ha_version = has_version has, ha_currentLedger = has_currentLedger has, ha_currentBuckets = bs\<rparr>)"

definition has_save :: "(Bucket \<Rightarrow> Hash) \<Rightarrow> HistoryArchiveState \<Rightarrow> HasArchive res" where
  "has_save H has = rbind (rassert (futuresAllResolved has)) (\<lambda>_. has_toString H has)"

definition has_fromString :: "(Bucket \<Rightarrow> Hash) \<Rightarrow> HasArchive \<Rightarrow> HistoryArchiveState res" where
  "has_fromString H ha =
     rbind (map_res (\<lambda>(c, ar, s). rbind (load H ar clear_bucket) (\<lambda>fb.
         Inr \<lparr>hsb_curr = c, hsb_next = fb, hsb_snap = s\<rparr>)) (ha_currentBuckets ha)) (\<lambda>bs.
     let has = \<lparr>has_version = ha_version ha, has_currentLedger = ha_currentLedger ha, has_currentBuckets = bs\<rparr>
     in rbind (rassert (futuresAllResolved has)) (\<lambda>_. Inr has))"

definition getBucketListHash :: "(Hash list \<Rightarrow> Hash) \<Rightarrow> HistoryArchiveState \<Rightarrow> Hash" where
  "getBucketListHash S has = S (map (\<lambda>level. S [hsb_curr level, hsb_snap level]) (has_currentBuckets has))"

text \<open>The buckets of the other state, which need not be fetched; a live merge of it is waited for.\<close>

fun inhibit_buckets :: "(Bucket \<Rightarrow> Hash) \<Rightarrow> HistoryStateBucket list \<Rightarrow> Hash list \<Rightarrow> Hash list res" where
  "inhibit_buckets H [] inhibit = Inr inhibit"
| "inhibit_buckets H (b # bs) inhibit =
     rbind (if isLive (hsb_next b) then rbind (resolve H (hsb_next b)) (\<lambda>(_, fb). Inr fb) else Inr (hsb_next b)) (\<lambda>next'.
     rbind (hasOutputHash next') (\<lambda>out.
     rbind (if out then rbind (getOutputHash next') (\<lambda>h. Inr [h]) else Inr []) (\<lambda>os.
     inhibit_buckets H bs (hsb_snap b # os @ hsb_curr b # inhibit))))"

fun add_new :: "Hash list \<Rightarrow> Hash list \<times> Hash list \<Rightarrow> Hash list \<times> Hash list" where
  "add_new [] (inhibit, ret) = (inhibit, ret)"
| "add_new (j # js) (inhibit, ret) =
     (if j \<notin> set inhibit then add_new js (j # inhibit, ret @ [j]) else add_new js (inhibit, ret))"

fun differing_loop :: "HistoryStateBucket list \<Rightarrow> Hash list \<times> Hash list \<Rightarrow> Hash list res" where
  "differing_loop [] st = Inr (snd st)"
| "differing_loop (b # bs) st =
     rbind (hasOutputHash (hsb_next b)) (\<lambda>out.
     rbind (if out then getOutputHash (hsb_next b) else Inr (hsb_snap b)) (\<lambda>n.
     differing_loop bs (add_new [hsb_snap b, n, hsb_curr b] st)))"

definition differingBuckets ::
    "(Bucket \<Rightarrow> Hash) \<Rightarrow> HistoryArchiveState \<Rightarrow> HistoryArchiveState \<Rightarrow> Hash list res" where
  "differingBuckets H other has =
     rbind (rassert (futuresAllResolved has)) (\<lambda>_.
     rbind (inhibit_buckets H (has_currentBuckets other) [0]) (\<lambda>inhibit.
     differing_loop (rev (take kNumLevels (has_currentBuckets has))) (inhibit, [])))"

subsection \<open>The bucket manager\<close>

record BucketManager =
  bm_files :: "(Hash \<times> Bucket) list"
  bm_SharedBuckets :: "Hash list"
  bm_BucketList :: "BucketLevel list"

definition new_BucketManager :: "(Hash \<times> Bucket) list \<Rightarrow> BucketManager" where
  "new_BucketManager files = \<lparr>bm_files = files, bm_SharedBuckets = [], bm_BucketList = new_BucketList\<rparr>"

definition getBucketByHash :: "Hash \<Rightarrow> BucketManager \<Rightarrow> Bucket option \<times> BucketManager" where
  "getBucketByHash hash bm =
     (if hash = 0 then (Some [], bm)
      else if hash \<in> set (bm_SharedBuckets bm) then (map_of (bm_files bm) hash, bm)
      else case map_of (bm_files bm) hash of
             Some b \<Rightarrow> (Some b, bm\<lparr>bm_SharedBuckets := List.insert hash (bm_SharedBuckets bm)\<rparr>)
           | None \<Rightarrow> (None, bm))"

text \<open>A file just written, with its contents and hash, is taken over or found redundant.\<close>

definition adoptFileAsBucket :: "Hash \<Rightarrow> Bucket \<Rightarrow> BucketManager \<Rightarrow> Bucket \<times> BucketManager" where
  "adoptFileAsBucket hash contents bm =
     (case getBucketByHash hash bm of
        (Some b, bm') \<Rightarrow> (b, bm')
      | (None, bm') \<Rightarrow> (contents, bm'\<lparr>bm_files := (hash, contents) # bm_files bm',
          bm_SharedBuckets := List.insert hash (bm_SharedBuckets bm')\<rparr>))"

definition adopt :: "(Bucket \<Rightarrow> Hash) \<Rightarrow> Bucket \<Rightarrow> BucketManager \<Rightarrow> BucketManager" where
  "adopt H b bm = (if b = [] then bm else snd (adoptFileAsBucket (H b) b bm))"

text \<open>
  The buckets the pointers of a level lead to, those of its merge included; a merge that is not
  finished holds no output.
\<close>

definition future_buckets :: "FutureBucket \<Rightarrow> Bucket list" where
  "future_buckets fb =
     (case mInputCurrBucket fb of None \<Rightarrow> [] | Some b \<Rightarrow> [b]) @ (case mInputSnapBucket fb of None \<Rightarrow> [] | Some b \<Rightarrow> [b]) @
     mInputShadowBuckets fb @ (case mOutputBucket fb of Ready b \<Rightarrow> [b] | _ \<Rightarrow> [])"

definition level_buckets :: "BucketLevel \<Rightarrow> Bucket list" where
  "level_buckets l = mCurr l # mSnap l # future_buckets (mNextCurr l)"

text \<open>
  A shared bucket is dropped with its file unless it is referenced by name or a pointer other than
  the manager's leads to it: one of the list, or one of a worker's (\<open>held\<close>). The names made of the
  hashes of a merge lack the form of a file name, so that they never match.
\<close>

definition forgetUnreferencedBuckets :: "(Bucket \<Rightarrow> Hash) \<Rightarrow> (Hash \<Rightarrow> bool) \<Rightarrow> BucketManager \<Rightarrow> BucketManager" where
  "forgetUnreferencedBuckets H held bm =
     (let levels = bm_BucketList bm;
          referenced = 0 # concat (map (\<lambda>l. [bucket_hash H (mCurr l), bucket_hash H (mSnap l)]) levels);
          pointed = map (bucket_hash H) (concat (map level_buckets levels));
          dropped = filter (\<lambda>h. h \<notin> set referenced \<and> h \<notin> set pointed \<and> \<not> held h) (bm_SharedBuckets bm)
      in bm\<lparr>bm_files := filter (\<lambda>(h, b). h \<notin> set dropped) (bm_files bm),
            bm_SharedBuckets := filter (\<lambda>h. h \<notin> set dropped) (bm_SharedBuckets bm)\<rparr>)"

text \<open>
  Adding a batch. Every bucket made on the way, fresh or the output of a merge that was waited
  for, is adopted when it is made; of these the fresh one and those the levels now hold are kept.
\<close>

definition bm_addBatch ::
    "(Bucket \<Rightarrow> Hash) \<Rightarrow> uint32 \<Rightarrow> LedgerEntry list \<Rightarrow> LedgerKey list \<Rightarrow> BucketManager \<Rightarrow> BucketManager res" where
  "bm_addBatch H currLedger liveEntries deadEntries bm =
     rbind (addBatch H currLedger liveEntries deadEntries (bm_BucketList bm)) (\<lambda>levels.
     Inr (fold (adopt H) (fresh liveEntries deadEntries # layers levels) (bm\<lparr>bm_BucketList := levels\<rparr>)))"

text \<open>The worker of level \<open>j\<close> finishes its merge and adopts the output.\<close>

definition bm_worker :: "(Bucket \<Rightarrow> Hash) \<Rightarrow> nat \<Rightarrow> BucketManager \<Rightarrow> BucketManager" where
  "bm_worker H j bm =
     (let levels = worker_level j (bm_BucketList bm)
      in case mOutputBucket (mNextCurr (levels ! j)) of
           Ready b \<Rightarrow> adopt H b (bm\<lparr>bm_BucketList := levels\<rparr>)
         | _ \<Rightarrow> bm\<lparr>bm_BucketList := levels\<rparr>)"

definition checkForMissingBucketsFiles :: "BucketManager \<Rightarrow> HistoryArchiveState \<Rightarrow> Hash list" where
  "checkForMissingBucketsFiles bm has =
     filter (\<lambda>h. h \<noteq> 0 \<and> map_of (bm_files bm) h = None)
       (concat (map (\<lambda>level. getHashes (hsb_next level) @ [hsb_curr level, hsb_snap level]) (has_currentBuckets has)))"

definition missing_files :: cpp_error where
  "missing_files = RuntimeError ''Missing bucket files while assuming saved BucketList state''"

fun assume_levels :: "BucketManager \<Rightarrow> nat \<Rightarrow> nat \<Rightarrow> HistoryArchiveState \<Rightarrow> BucketManager res" where
  "assume_levels bm i 0 has = Inr bm"
| "assume_levels bm i (Suc n) has =
     (if length (has_currentBuckets has) \<le> i then Inl (RuntimeError ''vector::_M_range_check'')
      else
        let b = has_currentBuckets has ! i;
            (c, bm1) = getBucketByHash (hsb_curr b) bm;
            (s, bm2) = getBucketByHash (hsb_snap b) bm1
        in case (c, s) of
             (Some c, Some s) \<Rightarrow>
               assume_levels (bm2\<lparr>bm_BucketList := (bm_BucketList bm2)[i :=
                 setNext (hsb_next b) (setSnap s (setCurr c (bm_BucketList bm2 ! i)))]\<rparr>) (Suc i) n has
           | _ \<Rightarrow> Inl missing_files)"

text \<open>The buckets a restarted merge looks up become shared; the lookup itself is that of the manager.\<close>

definition assumeState :: "(Bucket \<Rightarrow> Hash) \<Rightarrow> HistoryArchiveState \<Rightarrow> BucketManager \<Rightarrow> BucketManager res" where
  "assumeState H has bm =
     rbind (assume_levels bm 0 kNumLevels has) (\<lambda>bm1.
     rbind (restartMerges H (\<lambda>h. fst (getBucketByHash h bm1)) (bm_BucketList bm1)) (\<lambda>levels.
     let needed = concat (map (\<lambda>b. if isLive (hsb_next b) then [] else getHashes (hsb_next b)) (has_currentBuckets has))
     in Inr ((fold (\<lambda>h bm. snd (getBucketByHash h bm)) needed bm1)\<lparr>bm_BucketList := levels\<rparr>)))"

end
