(* ===== verification/Ledger_Manager.thy ===== *)
theory Ledger_Manager
  imports Tx_Set Bucket_Manager
begin

text \<open>
  \<open>src/ledger/LedgerManagerImpl.cpp\<close>: closing ledgers, starting from nothing or from the stored
  state, and following the network. The state of the application that it reads and writes is part
  of its state here: the SQL tables, the bucket manager, and the catch-ups asked of the history
  manager. The functions of other libraries (hashes, signature verification, sort) are the fields
  of \<open>Lib\<close>.

  A call that throws out of \<open>closeLedger\<close> ends the process: its SQL transaction is rolled back and
  the error is the result. A failed assertion aborts and is caught by no handler.
\<close>

subsection \<open>The persistent state\<close>

text \<open>\<open>src/main/PersistentState.cpp\<close>: named values in the table \<open>StoreState\<close>.\<close>

datatype PS_Entry = kLastClosedLedger | kHistoryArchiveState | kForceSCPOnNextLaunch | kDatabaseInitialized

datatype PS_Value = PS_Hash Hash | PS_Has HasArchive | PS_Bool bool

type_synonym StoreState = "(PS_Entry, PS_Value) sql_table"

definition ps_dropAll :: StoreState where
  "ps_dropAll = [(kDatabaseInitialized, PS_Bool True)]"

definition ps_getState :: "PS_Entry \<Rightarrow> StoreState \<Rightarrow> PS_Value option" where
  "ps_getState entry t = map_of t entry"

text \<open>An update of the row, or an insertion where no row was affected.\<close>

definition ps_setState :: "PS_Entry \<Rightarrow> PS_Value \<Rightarrow> StoreState \<Rightarrow> StoreState res" where
  "ps_setState entry val t =
     (if map_of t entry \<noteq> None then Inr (AList.update entry val t)
      else sql_insert (\<lambda>_. True) entry val t)"

subsection \<open>Definitions\<close>

record LedgerCloseData =
  lcd_LedgerSeq :: uint32
  lcd_TxSet :: TxSetFrame
  lcd_CloseTime :: uint64
  lcd_BaseFee :: int32

record Lib =
  lib_verify :: verifier
  lib_txHash :: "Transaction \<Rightarrow> Hash"
  lib_envHash :: "TransactionEnvelope \<Rightarrow> Hash"
  lib_setHash :: "Hash \<Rightarrow> TransactionEnvelope list \<Rightarrow> Hash"
  lib_staleHash :: "nat \<Rightarrow> Hash"
  lib_staleSeq :: "LedgerCloseData \<Rightarrow> uint32"
  lib_headerHash :: "LedgerHeader \<Rightarrow> Hash"
  lib_bucketHash :: "Bucket \<Rightarrow> Hash"
  lib_digest :: "Hash list \<Rightarrow> Hash"
  lib_resultHash :: "TransactionResultPair list \<Rightarrow> Hash"
  lib_sort :: sorter

record Config =
  cfg_DESIRED_BASE_FEE :: int32
  cfg_DESIRED_BASE_RESERVE :: int32
  cfg_CATCHUP_COMPLETE :: bool
  cfg_PESSIMIZE_MERGES :: bool
  cfg_masterKey :: AccountID

datatype LM_State = LM_BOOTING_STATE | LM_SYNCED_STATE | LM_CATCHING_UP_STATE

datatype CatchupMode = CATCHUP_COMPLETE | CATCHUP_MINIMAL | CATCHUP_BUCKET_REPAIR

datatype VerifyHashStatus = VERIFY_HASH_OK | VERIFY_HASH_BAD | VERIFY_HASH_UNKNOWN

record LedgerManager =
  lm_State :: LM_State
  lm_LastClosedLedger :: LedgerHeaderHistoryEntry
  lm_CurrentLedger :: LedgerHeader
  lm_SyncingLedgers :: "LedgerCloseData list"
  lm_db :: Database
  lm_headers :: "HeaderRow list"
  lm_txHistory :: "TxRow list"
  lm_storeState :: StoreState
  lm_bm :: BucketManager
  lm_catchups :: "(uint32 \<times> CatchupMode) list"

definition setState :: "LM_State \<Rightarrow> LedgerManager \<Rightarrow> LedgerManager" where
  "setState s lm = (if s \<noteq> lm_State lm then lm\<lparr>lm_State := s\<rparr> else lm)"

definition advanceLedgerPointers :: "Lib \<Rightarrow> LedgerManager \<Rightarrow> LedgerManager res" where
  "advanceLedgerPointers L lm =
     rbind (header_getHash (lib_headerHash L) (lm_CurrentLedger lm)) (\<lambda>h.
     let lcl = \<lparr>lhe_hash = h, lhe_header = lm_CurrentLedger lm\<rparr>
     in rbind (LedgerHeaderFrame_next (lib_headerHash L) lcl) (\<lambda>cur.
        Inr (lm\<lparr>lm_LastClosedLedger := lcl, lm_CurrentLedger := cur\<rparr>)))"

text \<open>\<open>BucketManagerImpl::snapshotLedger\<close>: the header gets the hash of the bucket list.\<close>

definition snapshotLedger :: "Lib \<Rightarrow> BucketManager \<Rightarrow> LedgerHeader \<Rightarrow> LedgerHeader" where
  "snapshotLedger L bm h = h\<lparr>lh_bucketListHash := getHash (lib_digest L) (lib_bucketHash L) (bm_BucketList bm)\<rparr>"

definition closeLedgerHelper :: "Lib \<Rightarrow> Config \<Rightarrow> LedgerDelta \<Rightarrow> LedgerManager \<Rightarrow> LedgerManager res" where
  "closeLedgerHelper L cfg delta lm =
     rbind (bm_addBatch (lib_bucketHash L) (lh_ledgerSeq (lm_CurrentLedger lm)) (getLiveEntries delta)
       (getDeadEntries delta) (lm_bm lm)) (\<lambda>bm.
     let cur = snapshotLedger L bm (lm_CurrentLedger lm)
     in rbind (header_storeInsert (lib_headerHash L) cur (lm_headers lm)) (\<lambda>headers.
        rbind (header_getHash (lib_headerHash L) cur) (\<lambda>h.
        rbind (ps_setState kLastClosedLedger (PS_Hash h) (lm_storeState lm)) (\<lambda>st1.
        let has = HistoryArchiveState_of (lib_bucketHash L) (lh_ledgerSeq cur) (bm_BucketList bm)
        in rbind (if cfg_PESSIMIZE_MERGES cfg then Inr has else resolveAnyReadyFutures (lib_bucketHash L) has) (\<lambda>has'.
           rbind (has_toString (lib_bucketHash L) has') (\<lambda>str.
           rbind (ps_setState kHistoryArchiveState (PS_Has str) st1) (\<lambda>st2.
           advanceLedgerPointers L (lm\<lparr>lm_bm := bm, lm_CurrentLedger := cur, lm_headers := headers,
             lm_storeState := st2\<rparr>))))))))"

text \<open>
  One transaction of a ledger close: the database, the delta of the ledger, the delta of the
  transaction and its frame afterwards.
\<close>

definition internal_error :: "TxFrame \<Rightarrow> TxFrame" where
  "internal_error tf = set_fee 0 (set_code txINTERNAL_ERROR tf)"

definition close_apply ::
    "Lib \<Rightarrow> LedgerHeader \<Rightarrow> TxPtr \<Rightarrow> Database \<Rightarrow> LedgerDelta \<Rightarrow> (Database \<times> LedgerDelta \<times> LedgerDelta \<times> TxFrame) res" where
  "close_apply L cur tx db ledgerDelta =
     (case tx_apply (lib_verify L) (lib_txHash L) cur (db, LedgerDelta_nested ledgerDelta) (new_TxFrame (snd tx)) of
        Inl (e, (db', delta), tf) \<Rightarrow>
          if e = AssertFailed then Inl e else Inr (db', ledgerDelta, delta, internal_error tf)
      | Inr (True, (db', delta), tf) \<Rightarrow>
          (case commit_nested delta ledgerDelta of
             Inl e \<Rightarrow> if e = AssertFailed then Inl e else Inr (db', ledgerDelta, delta, internal_error tf)
           | Inr (ledgerDelta', delta') \<Rightarrow> Inr (db', ledgerDelta', delta', tf))
      | Inr (False, (db', delta), tf) \<Rightarrow> Inr (db', ledgerDelta, delta, set_fee 0 tf))"

definition close_tx ::
    "Lib \<Rightarrow> LedgerHeader \<Rightarrow> nat \<Rightarrow> TxPtr \<Rightarrow> Database \<times> LedgerDelta \<times> TxRow list \<times> TransactionResultPair list
      \<Rightarrow> (Database \<times> LedgerDelta \<times> TxRow list \<times> TransactionResultPair list) res" where
  "close_tx L cur index tx = (\<lambda>(db, ledgerDelta, st).
     rbind (close_apply L cur tx db ledgerDelta) (\<lambda>(db', ledgerDelta', delta, tf).
     rbind (if tr_feeCharged (tf_result tf) = 0 then rollback delta else Inr delta) (\<lambda>delta'.
     rbind (storeTransaction (lib_txHash L) cur delta' index tf st) (\<lambda>st'. Inr (db', ledgerDelta', st')))))"

fun close_txs ::
    "Lib \<Rightarrow> LedgerHeader \<Rightarrow> nat \<Rightarrow> TxPtr list \<Rightarrow> Database \<times> LedgerDelta \<times> TxRow list \<times> TransactionResultPair list
      \<Rightarrow> (Database \<times> LedgerDelta \<times> TxRow list \<times> TransactionResultPair list) res" where
  "close_txs L cur index [] st = Inr st"
| "close_txs L cur index (tx # txs) st =
     rbind (close_tx L cur (Suc index) tx st) (close_txs L cur (Suc index) txs)"

definition set_close_values :: "Lib \<Rightarrow> LedgerCloseData \<Rightarrow> TxSetFrame \<Rightarrow> TransactionResultPair list \<Rightarrow> LedgerHeader \<Rightarrow> LedgerHeader" where
  "set_close_values L d ts results h =
     h\<lparr>lh_baseFee := lcd_BaseFee d, lh_closeTime := lcd_CloseTime d,
       lh_txSetHash := fst (getContentsHash (lib_sort L) (lib_envHash L) (lib_setHash L) ts),
       lh_txSetResultHash := lib_resultHash L results\<rparr>"

text \<open>
  \<open>held\<close> are the buckets a worker thread still holds when the ledger has been closed. Publishing to
  the history archives is left to the history manager.
\<close>

definition closeLedger :: "Lib \<Rightarrow> Config \<Rightarrow> (Hash \<Rightarrow> bool) \<Rightarrow> LedgerCloseData \<Rightarrow> LedgerManager \<Rightarrow> LedgerManager res" where
  "closeLedger L cfg held d lm =
     (if ts_PreviousLedgerHash (lcd_TxSet d) \<noteq> lhe_hash (lm_LastClosedLedger lm)
      then Inl (RuntimeError ''txset mismatch'')
      else
        let cur = lm_CurrentLedger lm;
            (txs, ts) = sortForApply (lib_sort L) (lib_envHash L) (lib_setHash L) (lib_staleHash L)
              ((lcd_TxSet d)\<lparr>ts_HashIsValid := False\<rparr>)
        in rbind (close_txs L cur 0 txs (lm_db lm, LedgerDelta_over cur, lm_txHistory lm, []))
             (\<lambda>(db, ledgerDelta, rows, results).
           rbind (commit_root ledgerDelta cur) (\<lambda>(header, delta).
           rbind (closeLedgerHelper L cfg delta (lm\<lparr>lm_db := db, lm_txHistory := rows,
             lm_CurrentLedger := set_close_values L d ts results header\<rparr>)) (\<lambda>lm'.
           Inr (lm'\<lparr>lm_bm := forgetUnreferencedBuckets (lib_bucketHash L) held (lm_bm lm')\<rparr>)))))"

definition genesis_header :: "Config \<Rightarrow> LedgerHeader" where
  "genesis_header cfg = \<lparr>lh_previousLedgerHash = 0, lh_txSetHash = 0, lh_txSetResultHash = 0, lh_bucketListHash = 0,
     lh_ledgerSeq = 1, lh_closeTime = 0, lh_totalCoins = 100000000000000000, lh_feePool = 0, lh_inflationSeq = 0,
     lh_idPool = 0, lh_baseFee = cfg_DESIRED_BASE_FEE cfg, lh_baseReserve = cfg_DESIRED_BASE_RESERVE cfg\<rparr>"

definition startNewLedger :: "Lib \<Rightarrow> Config \<Rightarrow> LedgerManager \<Rightarrow> LedgerManager res" where
  "startNewLedger L cfg lm =
     (let master = upd_account (\<lambda>e. e\<lparr>ae_balance := 100000000000000000\<rparr>) (AccountFrame_of_id (cfg_masterKey cfg))
      in rbind (account_storeAdd master (lm_db lm) (LedgerDelta_over (genesis_header cfg))) (\<lambda>(db, delta).
         rbind (commit_root delta (genesis_header cfg)) (\<lambda>(header, delta').
         closeLedgerHelper L cfg delta' (lm\<lparr>lm_db := db, lm_CurrentLedger := header\<rparr>))))"

text \<open>
  \<open>loadLastKnownLedger\<close>: the state afterwards, or the buckets that have to be downloaded first;
  \<open>load_continue\<close> is what runs then.
\<close>

datatype load_result = Loaded LedgerManager | Downloading "Hash list" HistoryArchiveState LedgerManager

definition load_continue :: "Lib \<Rightarrow> HistoryArchiveState \<Rightarrow> LedgerManager \<Rightarrow> LedgerManager res" where
  "load_continue L has lm =
     rbind (assumeState (lib_bucketHash L) has (lm_bm lm)) (\<lambda>bm. advanceLedgerPointers L (lm\<lparr>lm_bm := bm\<rparr>))"

definition loadLastKnownLedger :: "Lib \<Rightarrow> LedgerManager \<Rightarrow> load_result res" where
  "loadLastKnownLedger L lm =
     (case ps_getState kLastClosedLedger (lm_storeState lm) of
        Some (PS_Hash lastLedgerHash) \<Rightarrow>
          rbind (loadByHash (lib_headerHash L) lastLedgerHash (lm_headers lm)) (\<lambda>header.
          case header of
            None \<Rightarrow> Inl (RuntimeError ''Could not load ledger from database'')
          | Some cur \<Rightarrow>
              (case ps_getState kHistoryArchiveState (lm_storeState lm) of
                 Some (PS_Has str) \<Rightarrow>
                   rbind (has_fromString (lib_bucketHash L) str) (\<lambda>has.
                   let lm1 = lm\<lparr>lm_CurrentLedger := cur\<rparr>; missing = checkForMissingBucketsFiles (lm_bm lm) has
                   in if missing \<noteq> [] then Inr (Downloading missing has lm1)
                      else rbind (load_continue L has lm1) (\<lambda>lm2. Inr (Loaded lm2)))
               | _ \<Rightarrow> Inl (RuntimeError ''rapidjson internal assertion failure'')))
      | _ \<Rightarrow> Inl (RuntimeError ''No ledger in the DB''))"

subsection \<open>Following the network\<close>

definition startCatchUp :: "uint32 \<Rightarrow> CatchupMode \<Rightarrow> LedgerManager \<Rightarrow> LedgerManager" where
  "startCatchUp initLedger mode lm =
     (let lm' = setState LM_CATCHING_UP_STATE lm in lm'\<lparr>lm_catchups := lm_catchups lm' @ [(initLedger, mode)]\<rparr>)"

definition catchup_mode :: "Config \<Rightarrow> CatchupMode" where
  "catchup_mode cfg = (if cfg_CATCHUP_COMPLETE cfg then CATCHUP_COMPLETE else CATCHUP_MINIMAL)"

definition externalizeValue :: "Lib \<Rightarrow> Config \<Rightarrow> (Hash \<Rightarrow> bool) \<Rightarrow> LedgerCloseData \<Rightarrow> LedgerManager \<Rightarrow> LedgerManager res" where
  "externalizeValue L cfg held d lm =
     (case lm_State lm of
        LM_CATCHING_UP_STATE \<Rightarrow>
          Inr (if lm_SyncingLedgers lm = [] \<or> lcd_LedgerSeq (last (lm_SyncingLedgers lm)) + 1 = lcd_LedgerSeq d
               then lm\<lparr>lm_SyncingLedgers := lm_SyncingLedgers lm @ [d]\<rparr> else lm)
      | _ \<Rightarrow>
          if lh_ledgerSeq (lhe_header (lm_LastClosedLedger lm)) + 1 = lcd_LedgerSeq d then
            if lhe_hash (lm_LastClosedLedger lm) = ts_PreviousLedgerHash (lcd_TxSet d)
            then closeLedger L cfg held d lm
            else Inl (RuntimeError ''Network consensus inconsistency'')
          else
            rbind (rassert (lm_SyncingLedgers lm = [])) (\<lambda>_.
            Inr (startCatchUp (lcd_LedgerSeq d) (catchup_mode cfg) (lm\<lparr>lm_SyncingLedgers := [d]\<rparr>))))"

definition check_pair :: "uint32 \<times> Hash \<Rightarrow> uint32 \<times> Hash \<Rightarrow> VerifyHashStatus option" where
  "check_pair a b =
     (if fst a = fst b then Some (if snd a = snd b then VERIFY_HASH_OK else VERIFY_HASH_BAD) else None)"

fun check_pairs :: "((uint32 \<times> Hash) \<times> (uint32 \<times> Hash)) list \<Rightarrow> VerifyHashStatus" where
  "check_pairs [] = VERIFY_HASH_UNKNOWN"
| "check_pairs ((a, b) # ps) = (case check_pair a b of Some s \<Rightarrow> s | None \<Rightarrow> check_pairs ps)"

definition verifyCatchupCandidate :: "LedgerHeaderHistoryEntry \<Rightarrow> LedgerManager \<Rightarrow> VerifyHashStatus" where
  "verifyCatchupCandidate candidate lm =
     (let seq = lh_ledgerSeq (lhe_header candidate); h = lhe_hash candidate;
          lcl = lm_LastClosedLedger lm; cur = lm_CurrentLedger lm
      in check_pairs
           ([((lh_ledgerSeq (lhe_header lcl), lhe_hash lcl), (seq, h)),
             ((lh_ledgerSeq (lhe_header lcl), lh_previousLedgerHash (lhe_header lcl)), (seq + 1, h)),
             ((lh_ledgerSeq cur, lh_previousLedgerHash cur), (seq + 1, h))] @
            map (\<lambda>ld. ((lcd_LedgerSeq ld, ts_PreviousLedgerHash (lcd_TxSet ld)), (seq + 1, h))) (lm_SyncingLedgers lm)))"

text \<open>
  The loop over the buffered ledgers; the value says whether it ran to its end. \<open>None\<close> is the
  overshoot, after which the catch-up starts again.
\<close>

fun replay_buffer ::
    "Lib \<Rightarrow> Config \<Rightarrow> (Hash \<Rightarrow> bool) \<Rightarrow> LedgerCloseData list \<Rightarrow> LedgerManager \<Rightarrow> (bool \<times> LedgerManager) res" where
  "replay_buffer L cfg held [] lm = Inr (True, lm)"
| "replay_buffer L cfg held (d # ds) lm =
     (let lcl = lhe_header (lm_LastClosedLedger lm)
      in if lcd_LedgerSeq d < lh_ledgerSeq lcl + 1 then
           rbind (rassert (lcd_LedgerSeq d = lh_ledgerSeq lcl \<longrightarrow>
             fst (getContentsHash (lib_sort L) (lib_envHash L) (lib_setHash L) (lcd_TxSet d)) = lh_txSetHash lcl \<and>
             lcd_BaseFee d = lh_baseFee lcl \<and> lcd_CloseTime d = lh_closeTime lcl)) (\<lambda>_.
           replay_buffer L cfg held ds lm)
         else if lcd_LedgerSeq d = lh_ledgerSeq lcl + 1 then
           rbind (closeLedger L cfg held d lm) (replay_buffer L cfg held ds)
         else Inr (False, lm))"

text \<open>
  A new catch-up goes to the last ledger that waited. The code reads its number through a reference into the buffer
  after it has cleared the buffer: \<open>lib_staleSeq\<close> is what this read gives.
\<close>

definition historyCaughtup ::
    "Lib \<Rightarrow> Config \<Rightarrow> (Hash \<Rightarrow> bool) \<Rightarrow> bool \<Rightarrow> CatchupMode \<Rightarrow> LedgerHeaderHistoryEntry \<Rightarrow> LedgerManager \<Rightarrow> LedgerManager res" where
  "historyCaughtup L cfg held ec mode lastClosed lm =
     (if ec then Inr lm
      else
        rbind (if mode = CATCHUP_MINIMAL then
                 rbind (LedgerHeaderFrame_next (lib_headerHash L) lastClosed) (\<lambda>cur.
                 Inr (lm\<lparr>lm_LastClosedLedger := lastClosed, lm_CurrentLedger := cur\<rparr>))
               else
                 rbind (rassert (mode = CATCHUP_COMPLETE \<and> lastClosed = lm_LastClosedLedger lm)) (\<lambda>_. Inr lm)) (\<lambda>lm1.
        rbind (replay_buffer L cfg held (lm_SyncingLedgers lm1) lm1) (\<lambda>(done, lm2).
        if done then Inr (setState LM_SYNCED_STATE (lm2\<lparr>lm_SyncingLedgers := []\<rparr>))
        else Inr (startCatchUp (lib_staleSeq L (last (lm_SyncingLedgers lm2))) (catchup_mode cfg)
               (lm2\<lparr>lm_SyncingLedgers := []\<rparr>)))))"

end
