(* ===== verification/Ledger_Props.thy ===== *)
theory Ledger_Props
  imports Ledger_Manager
begin

text \<open>
  The ledgers of a node: the chain of headers that closing ledgers and restarting build, and what
  the closing of a ledger does with transactions that fail.
\<close>

subsection \<open>What a transaction leaves of the header\<close>

definition fixed_part :: "LedgerHeader \<Rightarrow> uint32 \<times> Hash \<times> int64 \<times> uint32 \<times> int32" where
  "fixed_part h = (lh_ledgerSeq h, lh_previousLedgerHash h, lh_totalCoins h, lh_inflationSeq h, lh_baseReserve h)"

interpretation hdr: delta_invariant "\<lambda>d. fixed_part (mCurrentHeader d) = h" for h
  by unfold_locales
    (auto simp: delta_ops_header generateID_def LedgerDelta_nested_def LedgerDelta_over_def commit_nested_def rbind_eq_Inr
      fixed_part_def split: if_splits)

lemma prepareResult_header:
  assumes "prepareResult lm s tf = Inr (s', tf')"
  shows "fixed_part (mCurrentHeader (snd s')) = fixed_part (mCurrentHeader (snd s))"
  using assms
  by (auto simp: prepareResult_def Let_def rbind_eq_Inr fixed_part_def split: if_splits option.splits dest!: hdr.frames(1) [OF _ refl])

lemma tx_apply_header:
  assumes "tx_apply V CH lm s tf = Inr (ok, s', tf')"
  shows "fixed_part (mCurrentHeader (snd s')) = fixed_part (mCurrentHeader (snd s))"
proof -
  obtain valid tf1 where c: "checkValid V CH lm True 0 (fst s) (resetState tf) = (valid, tf1)" by fastforce
  with assms obtain s1 tf2 where "prepareResult lm s tf1 = Inr (s1, tf2)"
    "s' = s1 \<or> tx_run V CH lm s1 tf2 = Inr (ok, s', tf')"
    by (auto simp: tx_apply_def split: sum.splits if_splits)
  with prepareResult_header [OF this(1)] hdr.tx_run_I show ?thesis by metis
qed

lemma close_apply_header:
  assumes "close_apply L cur tx db ld = Inr (db', ld', delta, tf)"
  shows "fixed_part (mCurrentHeader ld') = fixed_part (mCurrentHeader ld)"
proof -
  consider "ld' = ld" | db1 delta1 tf1 delta2 where
    "tx_apply (lib_verify L) (lib_txHash L) cur (db, LedgerDelta_nested ld) (new_TxFrame (snd tx)) = Inr (True, (db1, delta1), tf1)"
    "commit_nested delta1 ld = Inr (ld', delta2)"
    using assms by (auto simp: close_apply_def split: sum.splits prod.splits bool.splits if_splits)
  then show ?thesis
  proof cases
    case 2
    then have "mCurrentHeader ld' = mCurrentHeader delta1"
      by (auto simp: commit_nested_def rbind_eq_Inr split: if_splits)
    with tx_apply_header [OF 2(1)] show ?thesis by (simp add: LedgerDelta_nested_def LedgerDelta_over_def)
  qed simp
qed

lemma close_txs_header:
  "close_txs L cur index txs (db, ld, st) = Inr (db', ld', st') \<Longrightarrow>
   fixed_part (mCurrentHeader ld') = fixed_part (mCurrentHeader ld)"
proof (induction txs arbitrary: index db ld st)
  case (Cons tx txs)
  then obtain db1 ld1 st1 where 1: "close_tx L cur (Suc index) tx (db, ld, st) = Inr (db1, ld1, st1)"
    "close_txs L cur (Suc index) txs (db1, ld1, st1) = Inr (db', ld', st')"
    by (auto simp: rbind_eq_Inr)
  then have "fixed_part (mCurrentHeader ld1) = fixed_part (mCurrentHeader ld)"
    by (auto simp: close_tx_def rbind_eq_Inr dest: close_apply_header)
  with Cons.IH [OF 1(2)] show ?case by simp
qed simp

subsection \<open>The chain of headers\<close>

definition header_row :: "Lib \<Rightarrow> LedgerHeader \<Rightarrow> HeaderRow" where
  "header_row L h = \<lparr>row_ledgerHash = lib_headerHash L h, row_ledgerSeq = lh_ledgerSeq h, row_data = h\<rparr>"

definition after :: "Lib \<Rightarrow> LedgerHeader \<Rightarrow> LedgerHeader" where
  "after L h = h\<lparr>lh_ledgerSeq := lh_ledgerSeq h + 1, lh_previousLedgerHash := lib_headerHash L h\<rparr>"

definition builds_on :: "Lib \<Rightarrow> LedgerHeader \<Rightarrow> LedgerHeader \<Rightarrow> bool" where
  "builds_on L h' h \<longleftrightarrow> lh_ledgerSeq h = lh_ledgerSeq h' + 1 \<and> lh_previousLedgerHash h = lib_headerHash L h'"

text \<open>
  The headers closed so far, newest first, from the genesis ledger on: each builds on the one before it, or on one of
  the ledgers \<open>A\<close> that minimal catch-ups ended at.
\<close>

fun linked :: "Lib \<Rightarrow> LedgerHeader set \<Rightarrow> LedgerHeader list \<Rightarrow> bool" where
  "linked L A [] = False"
| "linked L A [h] \<longleftrightarrow> lh_ledgerSeq h = 1 \<and> lh_previousLedgerHash h = 0"
| "linked L A (h # h' # hs) \<longleftrightarrow> (\<exists>p \<in> insert h' A. builds_on L p h) \<and> linked L A (h' # hs)"

text \<open>The last closed ledger is the newest of them, or the one a minimal catch-up has just led to.\<close>

definition ledger_ok :: "Lib \<Rightarrow> LedgerHeader set \<Rightarrow> LedgerHeader list \<Rightarrow> LedgerHeader \<Rightarrow> LedgerManager \<Rightarrow> bool" where
  "ledger_ok L A hs tip lm \<longleftrightarrow>
     linked L A hs \<and> lm_headers lm = map (header_row L) (rev hs) \<and> distinct (map (lib_headerHash L) hs) \<and>
     (\<forall>h \<in> set hs. lib_headerHash L h \<noteq> 0) \<and> tip \<in> insert (hd hs) A \<and>
     lm_LastClosedLedger lm = \<lparr>lhe_hash = lib_headerHash L tip, lhe_header = tip\<rparr> \<and>
     lm_CurrentLedger lm = after L tip \<and>
     ps_getState kLastClosedLedger (lm_storeState lm) = Some (PS_Hash (lib_headerHash L (hd hs)))"

lemma linked_mono: "linked L A hs \<Longrightarrow> A \<subseteq> B \<Longrightarrow> linked L B hs"
  by (induction L A hs rule: linked.induct) auto

lemma setState_get:
  "ps_setState e v t = Inr t' \<Longrightarrow> ps_getState e' t' = (if e' = e then Some v else ps_getState e' t)"
  by (auto simp: ps_setState_def ps_getState_def sql_insert_def update_conv' split: if_splits)

lemma advance_Inr:
  "advanceLedgerPointers L lm = Inr lm' \<longleftrightarrow> lib_headerHash L (lm_CurrentLedger lm) \<noteq> 0 \<and>
     lm' = lm\<lparr>lm_LastClosedLedger := \<lparr>lhe_hash = lib_headerHash L (lm_CurrentLedger lm), lhe_header = lm_CurrentLedger lm\<rparr>,
       lm_CurrentLedger := after L (lm_CurrentLedger lm)\<rparr>"
  by (auto simp: advanceLedgerPointers_def header_getHash_def LedgerHeaderFrame_next_def rbind_eq_Inr Let_def after_def)

text \<open>What closing a ledger does apart from the bucket list: a new header at the end of the chain.\<close>

lemma closeLedgerHelper_Inr:
  assumes "closeLedgerHelper L cfg delta lm = Inr lm'"
  obtains bm cur where
    "bm_addBatch (lib_bucketHash L) (lh_ledgerSeq (lm_CurrentLedger lm)) (getLiveEntries delta) (getDeadEntries delta) (lm_bm lm) = Inr bm"
    "cur = snapshotLedger L bm (lm_CurrentLedger lm)" "lib_headerHash L cur \<noteq> 0"
    "lm_bm lm' = bm" "lm_headers lm' = lm_headers lm @ [header_row L cur]"
    "\<forall>r \<in> set (lm_headers lm). row_ledgerHash r \<noteq> lib_headerHash L cur \<and> row_ledgerSeq r \<noteq> lh_ledgerSeq cur"
    "lm_LastClosedLedger lm' = \<lparr>lhe_hash = lib_headerHash L cur, lhe_header = cur\<rparr>"
    "lm_CurrentLedger lm' = after L cur"
    "ps_getState kLastClosedLedger (lm_storeState lm') = Some (PS_Hash (lib_headerHash L cur))"
    "lm_State lm' = lm_State lm" "lm_SyncingLedgers lm' = lm_SyncingLedgers lm" "lm_catchups lm' = lm_catchups lm"
    "lm_db lm' = lm_db lm" "lm_txHistory lm' = lm_txHistory lm"
proof -
  obtain bm where bm: "bm_addBatch (lib_bucketHash L) (lh_ledgerSeq (lm_CurrentLedger lm)) (getLiveEntries delta)
      (getDeadEntries delta) (lm_bm lm) = Inr bm"
    using assms unfolding closeLedgerHelper_def by (auto simp: rbind_eq_Inr)
  define cur where "cur = snapshotLedger L bm (lm_CurrentLedger lm)"
  obtain headers st1 has str st2 where
    1: "header_storeInsert (lib_headerHash L) cur (lm_headers lm) = Inr headers"
      "ps_setState kLastClosedLedger (PS_Hash (lib_headerHash L cur)) (lm_storeState lm) = Inr st1"
      "has_toString (lib_bucketHash L) has = Inr str" "ps_setState kHistoryArchiveState (PS_Has str) st1 = Inr st2"
      "advanceLedgerPointers L (lm\<lparr>lm_bm := bm, lm_CurrentLedger := cur, lm_headers := headers, lm_storeState := st2\<rparr>) = Inr lm'"
    using assms unfolding closeLedgerHelper_def bm Let_def rbind_simps cur_def [symmetric]
    by (auto simp: rbind_eq_Inr header_getHash_def)
  have "ps_getState kLastClosedLedger st2 = Some (PS_Hash (lib_headerHash L cur))"
    using setState_get [OF 1(2)] setState_get [OF 1(4)] by simp
  moreover have "headers = lm_headers lm @ [header_row L cur]"
    "\<forall>r \<in> set (lm_headers lm). row_ledgerHash r \<noteq> lib_headerHash L cur \<and> row_ledgerSeq r \<noteq> lh_ledgerSeq cur"
    using 1(1) by (auto simp: header_storeInsert_def header_getHash_def header_row_def rbind_eq_Inr split: if_splits)
  ultimately show thesis using 1(5) by (intro that [OF bm cur_def]) (auto simp: advance_Inr)
qed

lemma closeLedger_Inr:
  assumes "closeLedger L cfg held d lm = Inr lm'"
  obtains cur where
    "fixed_part cur = fixed_part (lm_CurrentLedger lm)" "lib_headerHash L cur \<noteq> 0"
    "lm_headers lm' = lm_headers lm @ [header_row L cur]"
    "\<forall>r \<in> set (lm_headers lm). row_ledgerHash r \<noteq> lib_headerHash L cur \<and> row_ledgerSeq r \<noteq> lh_ledgerSeq cur"
    "lm_LastClosedLedger lm' = \<lparr>lhe_hash = lib_headerHash L cur, lhe_header = cur\<rparr>"
    "lm_CurrentLedger lm' = after L cur"
    "ps_getState kLastClosedLedger (lm_storeState lm') = Some (PS_Hash (lib_headerHash L cur))"
    "lm_State lm' = lm_State lm" "lm_SyncingLedgers lm' = lm_SyncingLedgers lm" "lm_catchups lm' = lm_catchups lm"
proof -
  let ?cur = "lm_CurrentLedger lm"
  obtain txs ts db ld rows results header delta lm1 where
    1: "close_txs L ?cur 0 txs (lm_db lm, LedgerDelta_over ?cur, lm_txHistory lm, []) = Inr (db, ld, rows, results)"
      "commit_root ld ?cur = Inr (header, delta)"
      "closeLedgerHelper L cfg delta (lm\<lparr>lm_db := db, lm_txHistory := rows,
         lm_CurrentLedger := set_close_values L d ts results header\<rparr>) = Inr lm1"
      "lm' = lm1\<lparr>lm_bm := forgetUnreferencedBuckets (lib_bucketHash L) held (lm_bm lm1)\<rparr>"
    using assms by (auto simp: closeLedger_def rbind_eq_Inr Let_def split: if_splits prod.splits)
  have "fixed_part header = fixed_part ?cur"
    using close_txs_header [OF 1(1)] 1(2)
    by (auto simp: commit_root_def rbind_eq_Inr LedgerDelta_over_def split: if_splits)
  then have f: "fixed_part (snapshotLedger L bm (set_close_values L d ts results header)) = fixed_part ?cur" for bm
    by (simp add: fixed_part_def set_close_values_def snapshotLedger_def)
  show thesis by (rule closeLedgerHelper_Inr [OF 1(3)]) (rule that, auto simp: 1(4) f)
qed

text \<open>
  A process that starts on the tables and files another has left: what was in memory is gone.
\<close>

definition zero_header :: LedgerHeader where
  "zero_header = \<lparr>lh_previousLedgerHash = 0, lh_txSetHash = 0, lh_txSetResultHash = 0, lh_bucketListHash = 0,
     lh_ledgerSeq = 0, lh_closeTime = 0, lh_totalCoins = 0, lh_feePool = 0, lh_inflationSeq = 0, lh_idPool = 0,
     lh_baseFee = 0, lh_baseReserve = 0\<rparr>"

definition boot :: "LedgerManager \<Rightarrow> LedgerManager" where
  "boot lm = lm\<lparr>lm_State := LM_BOOTING_STATE, lm_LastClosedLedger := \<lparr>lhe_hash = 0, lhe_header = zero_header\<rparr>,
     lm_CurrentLedger := zero_header, lm_SyncingLedgers := [], lm_bm := new_BucketManager (bm_files (lm_bm lm)),
     lm_catchups := []\<rparr>"

definition new_LedgerManager :: LedgerManager where
  "new_LedgerManager = \<lparr>lm_State = LM_BOOTING_STATE, lm_LastClosedLedger = \<lparr>lhe_hash = 0, lhe_header = zero_header\<rparr>,
     lm_CurrentLedger = zero_header, lm_SyncingLedgers = [], lm_db = empty_db, lm_headers = [], lm_txHistory = [],
     lm_storeState = ps_dropAll, lm_bm = new_BucketManager [], lm_catchups = []\<rparr>"

text \<open>
  The states of a node: from the genesis ledger on, by consensus, by replaying all of history, by catching up to a
  state of an archive, and by restarts, with or without the repair of missing bucket files. \<open>A\<close> are the ledgers that
  minimal catch-ups ended at; the tables and buckets are then those of the archive.
\<close>

inductive node_reachable :: "Lib \<Rightarrow> Config \<Rightarrow> LedgerHeader set \<Rightarrow> LedgerManager \<Rightarrow> bool" for L cfg where
  start: "startNewLedger L cfg new_LedgerManager = Inr lm \<Longrightarrow> node_reachable L cfg {} lm"
| externalize: "node_reachable L cfg A lm \<Longrightarrow> externalizeValue L cfg held d lm = Inr lm' \<Longrightarrow> node_reachable L cfg A lm'"
| replay: "node_reachable L cfg A lm \<Longrightarrow> closeLedger L cfg held d lm = Inr lm' \<Longrightarrow> node_reachable L cfg A lm'"
| caughtup: "node_reachable L cfg A lm \<Longrightarrow> mode \<noteq> CATCHUP_MINIMAL \<or> ec \<Longrightarrow>
    historyCaughtup L cfg held ec mode lcl lm = Inr lm' \<Longrightarrow> node_reachable L cfg A lm'"
| jumped: "node_reachable L cfg A lm \<Longrightarrow>
    historyCaughtup L cfg held False CATCHUP_MINIMAL lcl (lm\<lparr>lm_db := db, lm_bm := bm\<rparr>) = Inr lm' \<Longrightarrow>
    node_reachable L cfg (insert (lhe_header lcl) A) lm'"
| worker: "node_reachable L cfg A lm \<Longrightarrow> node_reachable L cfg A (lm\<lparr>lm_bm := bm_worker (lib_bucketHash L) j (lm_bm lm)\<rparr>)"
| restart: "node_reachable L cfg A lm \<Longrightarrow> loadLastKnownLedger L (boot lm) = Inr (Loaded lm') \<Longrightarrow> node_reachable L cfg A lm'"
| repair: "node_reachable L cfg A lm \<Longrightarrow> loadLastKnownLedger L (boot lm) = Inr (Downloading missing has lm1) \<Longrightarrow>
    load_continue L has (lm1\<lparr>lm_bm := new_BucketManager files\<rparr>) = Inr lm' \<Longrightarrow> node_reachable L cfg A lm'"

lemma ledger_ok_bm: "ledger_ok L A hs tip (lm\<lparr>lm_bm := bm\<rparr>) \<longleftrightarrow> ledger_ok L A hs tip lm"
  by (simp add: ledger_ok_def)

lemma ledger_ok_close:
  assumes "closeLedger L cfg held d lm = Inr lm'" "ledger_ok L A hs tip lm"
  shows "\<exists>h. ledger_ok L A (h # hs) h lm'"
  using assms(1)
proof (rule closeLedger_Inr)
  fix cur
  assume 1: "fixed_part cur = fixed_part (lm_CurrentLedger lm)" "lib_headerHash L cur \<noteq> 0"
    "lm_headers lm' = lm_headers lm @ [header_row L cur]"
    "\<forall>r \<in> set (lm_headers lm). row_ledgerHash r \<noteq> lib_headerHash L cur \<and> row_ledgerSeq r \<noteq> lh_ledgerSeq cur"
    "lm_LastClosedLedger lm' = \<lparr>lhe_hash = lib_headerHash L cur, lhe_header = cur\<rparr>"
    "lm_CurrentLedger lm' = after L cur"
    "ps_getState kLastClosedLedger (lm_storeState lm') = Some (PS_Hash (lib_headerHash L cur))"
  from assms(2) obtain h0 hs0 where hs: "hs = h0 # hs0" by (cases hs) (auto simp: ledger_ok_def)
  from assms(2) 1(1) have "builds_on L tip cur"
    by (auto simp: ledger_ok_def after_def fixed_part_def builds_on_def)
  moreover have "lib_headerHash L cur \<notin> lib_headerHash L ` set hs"
    using 1(4) assms(2) by (auto simp: ledger_ok_def header_row_def)
  ultimately have "ledger_ok L A (cur # hs) cur lm'"
    using assms(2) 1 hs by (auto simp: ledger_ok_def)
  then show ?thesis ..
qed

lemma ledger_ok_replay:
  "replay_buffer L cfg held ds lm = Inr (ok, lm') \<Longrightarrow> ledger_ok L A hs tip lm \<Longrightarrow> \<exists>hs' tip'. ledger_ok L A hs' tip' lm'"
proof (induction L cfg held ds lm arbitrary: hs tip rule: replay_buffer.induct)
  case (2 L cfg held d ds lm)
  let ?lcl = "lhe_header (lm_LastClosedLedger lm)"
  consider "lcd_LedgerSeq d < lh_ledgerSeq ?lcl + 1" | "\<not> lcd_LedgerSeq d < lh_ledgerSeq ?lcl + 1" "lcd_LedgerSeq d = lh_ledgerSeq ?lcl + 1"
    | "\<not> lcd_LedgerSeq d < lh_ledgerSeq ?lcl + 1" "lcd_LedgerSeq d \<noteq> lh_ledgerSeq ?lcl + 1" by blast
  then show ?case
  proof cases
    case 1
    with 2 show ?thesis by (auto simp: rbind_eq_Inr Let_def)
  next
    case 2
    with 2 "2.prems" obtain lm1 where l: "closeLedger L cfg held d lm = Inr lm1" "replay_buffer L cfg held ds lm1 = Inr (ok, lm')"
      by (auto simp: rbind_eq_Inr Let_def)
    with ledger_ok_close [OF l(1) "2.prems"(2)] "2.IH"(2) [OF refl 2] show ?thesis by blast
  next
    case 3
    with 2 show ?thesis by (auto simp: Let_def)
  qed
qed auto

lemma find_distinct: "distinct (map k xs) \<Longrightarrow> x \<in> set xs \<Longrightarrow> find (\<lambda>r. k r = k x) xs = Some x"
  by (induction xs) (auto simp: image_iff)

lemma loadByHash_chain:
  assumes "ledger_ok L A hs tip lm" "h \<in> set hs"
  shows "loadByHash (lib_headerHash L) (lib_headerHash L h) (lm_headers lm) = Inr (Some h)"
proof -
  have "distinct (map row_ledgerHash (map (header_row L) (rev hs)))"
    using assms(1) by (simp add: ledger_ok_def header_row_def comp_def flip: rev_map)
  from find_distinct [OF this, of "header_row L h"] assms show ?thesis
    by (auto simp: loadByHash_def header_getHash_def header_row_def ledger_ok_def)
qed

text \<open>A restart goes back to the newest ledger that is stored.\<close>

lemma ledger_ok_load:
  assumes "loadLastKnownLedger L (boot lm) = Inr r" "ledger_ok L A hs tip lm"
  shows "(\<exists>lm'. r = Loaded lm' \<and> ledger_ok L A hs (hd hs) lm') \<or>
    (\<exists>missing has lm1. r = Downloading missing has lm1 \<and> lm_CurrentLedger lm1 = hd hs \<and>
       lm_headers lm1 = lm_headers lm \<and> lm_storeState lm1 = lm_storeState lm)"
proof -
  have boot: "lm_headers (boot lm) = lm_headers lm" "lm_storeState (boot lm) = lm_storeState lm" by (simp_all add: boot_def)
  from assms(2) obtain h0 hs0 where hs: "hs = h0 # hs0" by (cases hs) (auto simp: ledger_ok_def)
  have f: "loadByHash (lib_headerHash L) (lib_headerHash L h0) (lm_headers lm) = Inr (Some h0)"
    using loadByHash_chain [OF assms(2)] hs by simp
  have g: "ps_getState kLastClosedLedger (lm_storeState lm) = Some (PS_Hash (lib_headerHash L h0))"
    using assms(2) hs by (simp add: ledger_ok_def)
  obtain str has where h: "ps_getState kHistoryArchiveState (lm_storeState lm) = Some (PS_Has str)"
    "has_fromString (lib_bucketHash L) str = Inr has"
    "r = Downloading (checkForMissingBucketsFiles (lm_bm (boot lm)) has) has (boot lm\<lparr>lm_CurrentLedger := h0\<rparr>) \<or>
     (\<exists>lm2. load_continue L has (boot lm\<lparr>lm_CurrentLedger := h0\<rparr>) = Inr lm2 \<and> r = Loaded lm2)"
    using assms(1) unfolding loadLastKnownLedger_def boot g
    by (auto simp: f rbind_eq_Inr Let_def split: option.splits PS_Value.splits if_splits)
  have "ledger_ok L A hs h0 lm2" if "load_continue L has (boot lm\<lparr>lm_CurrentLedger := h0\<rparr>) = Inr lm2" for lm2
    using that assms(2) hs by (auto simp: load_continue_def rbind_eq_Inr advance_Inr ledger_ok_def boot)
  with h(3) boot show ?thesis by (auto simp: hs)
qed

lemma ledger_ok_continue:
  assumes "load_continue L has lm1 = Inr lm'" "lm_CurrentLedger lm1 = hd hs" "lm_headers lm1 = lm_headers lm"
    and "lm_storeState lm1 = lm_storeState lm" "ledger_ok L A hs tip lm"
  shows "ledger_ok L A hs (hd hs) lm'"
  using assms by (auto simp: load_continue_def rbind_eq_Inr advance_Inr ledger_ok_def)

lemma ledger_ok_start:
  assumes "startNewLedger L cfg new_LedgerManager = Inr lm"
  shows "\<exists>h. ledger_ok L {} [h] h lm"
proof -
  obtain db delta header delta' where 1:
    "account_storeAdd (upd_account (\<lambda>e. e\<lparr>ae_balance := 100000000000000000\<rparr>) (AccountFrame_of_id (cfg_masterKey cfg)))
       empty_db (LedgerDelta_over (genesis_header cfg)) = Inr (db, delta)"
    "commit_root delta (genesis_header cfg) = Inr (header, delta')"
    "closeLedgerHelper L cfg delta' (new_LedgerManager\<lparr>lm_db := db, lm_CurrentLedger := header\<rparr>) = Inr lm"
    using assms by (auto simp: startNewLedger_def Let_def rbind_eq_Inr new_LedgerManager_def)
  have "fixed_part (mCurrentHeader delta) = fixed_part (genesis_header cfg)"
    using hdr.frames(2) [OF 1(1)] by (simp add: LedgerDelta_over_def)
  then have h: "fixed_part header = fixed_part (genesis_header cfg)"
    using 1(2) by (auto simp: commit_root_def rbind_eq_Inr split: if_splits)
  show ?thesis
    by (rule closeLedgerHelper_Inr [OF 1(3)])
      (use h in \<open>auto simp: ledger_ok_def snapshotLedger_def fixed_part_def genesis_header_def new_LedgerManager_def\<close>)
qed

lemma ledger_ok_jump:
  assumes "ledger_ok L A hs tip lm" "LedgerHeaderFrame_next (lib_headerHash L) lcl = Inr cur"
  shows "ledger_ok L (insert (lhe_header lcl) A) hs (lhe_header lcl) (lm\<lparr>lm_LastClosedLedger := lcl, lm_CurrentLedger := cur\<rparr>)"
  using assms linked_mono [of L A hs "insert (lhe_header lcl) A"]
  by (auto simp: ledger_ok_def LedgerHeaderFrame_next_def header_getHash_def rbind_eq_Inr after_def split: if_splits)

lemma node_ledger_ok: "node_reachable L cfg A lm \<Longrightarrow> \<exists>hs tip. ledger_ok L A hs tip lm"
proof (induction rule: node_reachable.induct)
  case (start lm)
  then show ?case using ledger_ok_start by blast
next
  case (externalize A lm held d lm')
  then obtain hs tip where hs: "ledger_ok L A hs tip lm" by blast
  consider "closeLedger L cfg held d lm = Inr lm'" | "ledger_ok L A hs tip lm'"
    using externalize(2) hs
    by (auto simp: externalizeValue_def rbind_eq_Inr startCatchUp_def setState_def ledger_ok_def Let_def
        split: LM_State.splits if_splits)
  then show ?case using ledger_ok_close hs by cases blast+
next
  case (replay A lm held d lm')
  then show ?case using ledger_ok_close by blast
next
  case (caughtup A lm mode ec held lcl lm')
  then obtain hs tip where hs: "ledger_ok L A hs tip lm" by blast
  from caughtup(2,3) consider "lm' = lm" | ok lm2 where "replay_buffer L cfg held (lm_SyncingLedgers lm) lm = Inr (ok, lm2)"
    "\<And>hs tip. ledger_ok L A hs tip lm2 \<Longrightarrow> ledger_ok L A hs tip lm'"
    by (auto simp: historyCaughtup_def rbind_eq_Inr startCatchUp_def setState_def ledger_ok_def Let_def split: if_splits)
  then show ?case using ledger_ok_replay hs by cases blast+
next
  case (jumped A lm held lcl bm db lm')
  let ?A = "insert (lhe_header lcl) A" and ?lm = "lm\<lparr>lm_db := db, lm_bm := bm\<rparr>"
  obtain hs tip where "ledger_ok L A hs tip lm" using jumped(3) by blast
  then have hs: "ledger_ok L A hs tip ?lm" by (simp add: ledger_ok_def)
  from jumped(2) obtain cur ok lm2 where cur: "LedgerHeaderFrame_next (lib_headerHash L) lcl = Inr cur"
    and r: "replay_buffer L cfg held (lm_SyncingLedgers lm) (?lm\<lparr>lm_LastClosedLedger := lcl, lm_CurrentLedger := cur\<rparr>) = Inr (ok, lm2)"
    and l: "\<And>hs tip. ledger_ok L ?A hs tip lm2 \<Longrightarrow> ledger_ok L ?A hs tip lm'"
    by (auto simp: historyCaughtup_def rbind_eq_Inr startCatchUp_def setState_def ledger_ok_def Let_def split: if_splits)
  from ledger_ok_replay [OF r ledger_ok_jump [OF hs cur]] l show ?case by blast
next
  case (worker A lm j)
  then show ?case by (simp add: ledger_ok_bm)
next
  case (restart A lm lm')
  then show ?case using ledger_ok_load by blast
next
  case (repair A lm missing has lm1 files lm')
  then obtain hs tip where hs: "ledger_ok L A hs tip lm" by blast
  with ledger_ok_load [OF repair(2) hs] ledger_ok_continue [OF repair(3), of hs lm] show ?case by auto
qed

text \<open>
  C8: the closed ledgers of a node form a chain in its database. From the genesis ledger on, whatever
  is closed, replayed, caught up with or restarted, each stored header has the number after that of the
  header it builds on and holds its hash: this is the one stored before it, or the ledger that a minimal
  catch-up ended at, which is not stored itself; without minimal catch-ups the chain has no gap. Each stored
  header is found again by its hash; the last closed ledger is the last one stored, or one a minimal
  catch-up ended at; and the ledger in progress is the next one built on it.
\<close>

theorem ledger_headers_chain:
  assumes "node_reachable L cfg A lm"
  shows "\<exists>hs tip. linked L A hs \<and> lm_headers lm = map (header_row L) (rev hs) \<and>
    (\<forall>h \<in> set hs. loadByHash (lib_headerHash L) (lib_headerHash L h) (lm_headers lm) = Inr (Some h)) \<and>
    tip \<in> insert (hd hs) A \<and> lm_LastClosedLedger lm = \<lparr>lhe_hash = lib_headerHash L tip, lhe_header = tip\<rparr> \<and>
    lm_CurrentLedger lm = after L tip"
  using node_ledger_ok [OF assms] loadByHash_chain unfolding ledger_ok_def by metis

definition sample_lib :: Lib where
  "sample_lib = \<lparr>lib_verify = sample_verify, lib_txHash = (\<lambda>tx. ucast (tx_seqNum tx)), lib_envHash = sample_FH,
     lib_setHash = (\<lambda>h es. h), lib_staleHash = (\<lambda>_. 9), lib_staleSeq = lcd_LedgerSeq,
     lib_headerHash = (\<lambda>h. ucast (lh_ledgerSeq h) + 1000),
     lib_bucketHash = sample_hash, lib_digest = sum_list, lib_resultHash = (\<lambda>rs. of_nat (length rs)), lib_sort = sort_by\<rparr>"

definition sample_config :: Config where
  "sample_config = \<lparr>cfg_DESIRED_BASE_FEE = 10, cfg_DESIRED_BASE_RESERVE = 100, cfg_CATCHUP_COMPLETE = False,
     cfg_PESSIMIZE_MERGES = False, cfg_masterKey = 5\<rparr>"

text \<open>The genesis ledger in two steps: the master account, then the close.\<close>

definition genesis_account :: AccountEntry where
  "genesis_account = empty_account\<lparr>ae_accountID := 5, ae_balance := 100000000000000000, ae_thresholds := (1, 0, 0, 0)\<rparr>"

definition genesis_db :: Database where
  "genesis_db = empty_db\<lparr>db_Accounts := [(5, account_row genesis_account)]\<rparr>"

definition genesis_delta :: LedgerDelta where
  "genesis_delta = (LedgerDelta_over (genesis_header sample_config))
     \<lparr>mNew := [(AccountKey 5, ACCOUNT genesis_account)], mOpen := False\<rparr>"

lemma start_sample:
  "startNewLedger sample_lib sample_config new_LedgerManager =
   closeLedgerHelper sample_lib sample_config genesis_delta
     (new_LedgerManager\<lparr>lm_db := genesis_db, lm_CurrentLedger := genesis_header sample_config\<rparr>)"
proof -
  let ?f = "upd_account (\<lambda>e. e\<lparr>ae_balance := 100000000000000000\<rparr>) (AccountFrame_of_id (cfg_masterKey sample_config))"
  have "account_storeAdd ?f (lm_db new_LedgerManager) (LedgerDelta_over (genesis_header sample_config)) =
    Inr (genesis_db, genesis_delta\<lparr>mOpen := True\<rparr>)" by code_simp
  moreover have "commit_root (genesis_delta\<lparr>mOpen := True\<rparr>) (genesis_header sample_config) =
    Inr (genesis_header sample_config, genesis_delta)" by code_simp
  ultimately show ?thesis by (simp add: startNewLedger_def)
qed

theorem ledger_headers_chain_witness:
  "\<exists>lm hs. node_reachable sample_lib sample_config {} lm \<and> linked sample_lib {} hs \<and> length hs = 1 \<and>
     lm_LastClosedLedger lm = \<lparr>lhe_hash = 1001, lhe_header = hd hs\<rparr>"
proof -
  have "case closeLedgerHelper sample_lib sample_config genesis_delta
      (new_LedgerManager\<lparr>lm_db := genesis_db, lm_CurrentLedger := genesis_header sample_config\<rparr>) of
        Inr lm \<Rightarrow> length (lm_headers lm) = 1 \<and> lhe_hash (lm_LastClosedLedger lm) = 1001 | Inl _ \<Rightarrow> False"
    by code_simp
  then obtain lm where lm: "startNewLedger sample_lib sample_config new_LedgerManager = Inr lm"
    "length (lm_headers lm) = 1" "lhe_hash (lm_LastClosedLedger lm) = 1001"
    unfolding start_sample by (auto split: sum.splits)
  have r: "node_reachable sample_lib sample_config {} lm" using lm(1) by (rule node_reachable.start)
  from ledger_headers_chain [OF this] obtain hs where "linked sample_lib {} hs" "lm_headers lm = map (header_row sample_lib) (rev hs)"
    "lm_LastClosedLedger lm = \<lparr>lhe_hash = lib_headerHash sample_lib (hd hs), lhe_header = hd hs\<rparr>" by auto
  with lm(2,3) r show ?thesis by (metis LedgerHeaderHistoryEntry.select_convs(1) length_map length_rev)
qed

subsection \<open>Transactions that fail their validation\<close>

text \<open>
  A transaction that fails its validation is not without effects. Account 5 has 205 coins, of
  which 200 are its reserve, and the fee is 10. The validation fails for lack of balance after the
  fee was set; what the account has above its reserve is taken in the database and its sequence
  number moves on. The ledger then rolls back the transaction's delta: the stored result says that
  nothing was charged, the fee pool and the batch for the bucket list know nothing of it, and 5
  coins are gone.
\<close>

definition poor_db :: Database where
  "poor_db = empty_db\<lparr>db_Accounts := [(5, sample_row 10 205), (6, sample_row 20 1000)]\<rparr>"

theorem failed_validation_keeps_effects:
  "case close_txs sample_lib sample_lm 0 [(0, sample_env 5 11)] (poor_db, LedgerDelta_over sample_lm, [], []) of
     Inl _ \<Rightarrow> False
   | Inr (db, ledgerDelta, rows, results) \<Rightarrow>
       map (\<lambda>r. (tr_code (trp_result r), tr_feeCharged (trp_result r))) results = [(txINSUFFICIENT_BALANCE, 0)] \<and>
       map_option (\<lambda>r. (ac_balance r, ac_seqNum r)) (map_of (db_Accounts db) 5) = Some (200, 11) \<and>
       native_total poor_db = 1205 \<and> native_total db = 1200 \<and>
       lh_feePool (mCurrentHeader ledgerDelta) = 0 \<and> getLiveEntries ledgerDelta = []"
  by code_simp

end
