(* ===== verification/Catchup.thy ===== *)
theory Catchup
  imports Ledger_Props
begin

text \<open>
  Following the network: the ledgers that wait while the node catches up, and what happens to them.
\<close>

abbreviation lcl_seq :: "LedgerManager \<Rightarrow> nat" where
  "lcl_seq lm \<equiv> unat (lh_ledgerSeq (lhe_header (lm_LastClosedLedger lm)))"

fun contiguous :: "LedgerCloseData list \<Rightarrow> bool" where
  "contiguous (d # d' # ds) \<longleftrightarrow> lcd_LedgerSeq d' = lcd_LedgerSeq d + 1 \<and> contiguous (d' # ds)"
| "contiguous _ = True"

text \<open>The ledgers waiting are numbered without a gap, and none wait unless the node catches up.\<close>

definition sync_ok :: "LedgerManager \<Rightarrow> bool" where
  "sync_ok lm \<longleftrightarrow> contiguous (lm_SyncingLedgers lm) \<and>
     (lm_State lm \<noteq> LM_CATCHING_UP_STATE \<longrightarrow> lm_SyncingLedgers lm = [])"

lemma contiguous_snoc:
  "contiguous (ds @ [d]) \<longleftrightarrow> contiguous ds \<and> (ds \<noteq> [] \<longrightarrow> lcd_LedgerSeq d = lcd_LedgerSeq (last ds) + 1)"
  by (induction ds rule: contiguous.induct) auto

lemma unat_plus_one: "unat x < 2 ^ 32 - 1 \<Longrightarrow> unat (x + 1 :: uint32) = unat x + 1"
  by (simp add: unat_word_ariths)

lemma sync_ok_externalize:
  assumes "sync_ok lm" "externalizeValue L cfg held d lm = Inr lm'"
  shows "sync_ok lm'"
proof -
  consider "closeLedger L cfg held d lm = Inr lm'" | "sync_ok lm'"
    using assms
    by (auto simp: externalizeValue_def rbind_eq_Inr startCatchUp_def setState_def sync_ok_def Let_def contiguous_snoc
        split: LM_State.splits if_splits)
  then show ?thesis
    using assms(1) by cases (auto simp: sync_ok_def elim!: closeLedger_Inr)
qed

lemma contiguous_hd_le:
  "contiguous ds \<Longrightarrow> \<forall>d \<in> set ds. unat (lcd_LedgerSeq d) < 2 ^ 32 - 1 \<Longrightarrow> ds \<noteq> [] \<Longrightarrow>
   unat (lcd_LedgerSeq (hd ds)) \<le> unat (lcd_LedgerSeq (last ds))"
proof (induction ds rule: contiguous.induct)
  case (1 d d' ds)
  then have "unat (lcd_LedgerSeq d') = unat (lcd_LedgerSeq d) + 1" by (simp add: unat_plus_one)
  with 1 show ?case by simp
qed auto

lemma replay_closes:
  assumes "replay_buffer L cfg held ds lm = Inr (ok, lm')" "contiguous ds"
    and "lh_ledgerSeq (lm_CurrentLedger lm) = lh_ledgerSeq (lhe_header (lm_LastClosedLedger lm)) + 1"
    and "\<forall>d \<in> set ds. unat (lcd_LedgerSeq d) < 2 ^ 32 - 1" "lcl_seq lm < 2 ^ 32 - 1"
    and "ds \<noteq> [] \<longrightarrow> unat (lcd_LedgerSeq (hd ds)) \<le> lcl_seq lm + 1"
  shows "ok \<and> lcl_seq lm' = (if ds = [] then lcl_seq lm else max (lcl_seq lm) (unat (lcd_LedgerSeq (last ds))))"
  using assms
proof (induction ds arbitrary: lm)
  case (Cons d ds)
  let ?n = "lh_ledgerSeq (lhe_header (lm_LastClosedLedger lm))"
  have n1: "unat (?n + 1) = unat ?n + 1" using Cons.prems(5) by (rule unat_plus_one)
  have d1: "unat (lcd_LedgerSeq d + 1) = unat (lcd_LedgerSeq d) + 1" using Cons.prems(4) by (intro unat_plus_one) simp
  have tl: "contiguous ds" "ds \<noteq> [] \<longrightarrow> unat (lcd_LedgerSeq (hd ds)) = unat (lcd_LedgerSeq d) + 1"
    using Cons.prems(2) d1 by (cases ds; simp)+
  have up: "ds \<noteq> [] \<longrightarrow> unat (lcd_LedgerSeq (hd ds)) \<le> unat (lcd_LedgerSeq (last ds))"
    using contiguous_hd_le [OF tl(1)] Cons.prems(4) by simp
  show ?case
  proof (cases "lcd_LedgerSeq d < ?n + 1")
    case True
    then have le: "unat (lcd_LedgerSeq d) \<le> unat ?n" using n1 by (simp add: word_less_nat_alt)
    from True Cons.prems(1) have "replay_buffer L cfg held ds lm = Inr (ok, lm')" by (auto simp: rbind_eq_Inr Let_def)
    from Cons.IH [OF this tl(1) Cons.prems(3)] Cons.prems(4,5) tl up le show ?thesis by (auto simp: max_def)
  next
    case False
    then have eq: "lcd_LedgerSeq d = ?n + 1" using Cons.prems(6) n1 by (simp add: word_less_nat_alt word_unat_eq_iff)
    with False Cons.prems(1) obtain lm1 where l: "closeLedger L cfg held d lm = Inr lm1" "replay_buffer L cfg held ds lm1 = Inr (ok, lm')"
      by (auto simp: rbind_eq_Inr Let_def)
    from l(1) have cur: "lh_ledgerSeq (lhe_header (lm_LastClosedLedger lm1)) = ?n + 1"
      "lh_ledgerSeq (lm_CurrentLedger lm1) = lh_ledgerSeq (lhe_header (lm_LastClosedLedger lm1)) + 1"
      using Cons.prems(3) by (auto simp: fixed_part_def after_def elim!: closeLedger_Inr)
    from Cons.IH [OF l(2) tl(1) cur(2)] Cons.prems(4) tl up cur eq n1
    show ?thesis by (auto simp: max_def)
  qed
qed simp

lemma replay_overshoot:
  "lcd_LedgerSeq d > lh_ledgerSeq (lhe_header (lm_LastClosedLedger lm)) + 1 \<Longrightarrow>
   replay_buffer L cfg held (d # ds) lm = Inr (False, lm)"
  by (auto simp: Let_def)

text \<open>A catch-up that ended well: the ledgers that wait are replayed on the ledger it led to.\<close>

lemma historyCaughtup_Inr:
  assumes "historyCaughtup L cfg held False mode lcl lm = Inr lm'"
    and "lh_ledgerSeq (lm_CurrentLedger lm) = lh_ledgerSeq (lhe_header (lm_LastClosedLedger lm)) + 1"
  obtains cur fin lm2 where "lh_ledgerSeq cur = lh_ledgerSeq (lhe_header lcl) + 1"
    "replay_buffer L cfg held (lm_SyncingLedgers lm) (lm\<lparr>lm_LastClosedLedger := lcl, lm_CurrentLedger := cur\<rparr>) = Inr (fin, lm2)"
    "lm' = (if fin then setState LM_SYNCED_STATE (lm2\<lparr>lm_SyncingLedgers := []\<rparr>)
      else startCatchUp (lib_staleSeq L (last (lm_SyncingLedgers lm2))) (catchup_mode cfg) (lm2\<lparr>lm_SyncingLedgers := []\<rparr>))"
proof -
  let ?rest = "\<lambda>lm1. rbind (replay_buffer L cfg held (lm_SyncingLedgers lm1) lm1) (\<lambda>(done, lm2).
       if done then Inr (setState LM_SYNCED_STATE (lm2\<lparr>lm_SyncingLedgers := []\<rparr>))
       else Inr (startCatchUp (lib_staleSeq L (last (lm_SyncingLedgers lm2))) (catchup_mode cfg) (lm2\<lparr>lm_SyncingLedgers := []\<rparr>)))"
  let ?first = "if mode = CATCHUP_MINIMAL then
        rbind (LedgerHeaderFrame_next (lib_headerHash L) lcl) (\<lambda>cur. Inr (lm\<lparr>lm_LastClosedLedger := lcl, lm_CurrentLedger := cur\<rparr>))
      else rbind (rassert (mode = CATCHUP_COMPLETE \<and> lcl = lm_LastClosedLedger lm)) (\<lambda>_. Inr lm)"
  have r0: "rbind ?first ?rest = Inr lm'" using assms(1) unfolding historyCaughtup_def by (simp only: if_False)
  obtain lm1 where f1: "?first = Inr lm1"
  proof (cases ?first)
    case (Inl e)
    then show ?thesis using r0 unfolding Inl rbind_simps by simp
  qed (rule that)
  have rest: "?rest lm1 = Inr lm'" using r0 unfolding f1 rbind_simps .
  obtain cur where
    seq: "lh_ledgerSeq cur = lh_ledgerSeq (lhe_header lcl) + 1" and lm1: "lm1 = lm\<lparr>lm_LastClosedLedger := lcl, lm_CurrentLedger := cur\<rparr>"
  proof (cases "mode = CATCHUP_MINIMAL")
    case True
    with f1 obtain cur where "LedgerHeaderFrame_next (lib_headerHash L) lcl = Inr cur"
      "lm1 = lm\<lparr>lm_LastClosedLedger := lcl, lm_CurrentLedger := cur\<rparr>" by (auto simp: rbind_eq_Inr)
    then show ?thesis by (intro that [of cur]) (auto simp: LedgerHeaderFrame_next_def rbind_eq_Inr split: if_splits)
  next
    case False
    then have "lm1 = lm" "lcl = lm_LastClosedLedger lm" using f1 by (auto simp: rbind_eq_Inr)
    then show ?thesis using assms(2) by (intro that [of "lm_CurrentLedger lm"]) simp_all
  qed
  from rest obtain fin lm2 where
    "replay_buffer L cfg held (lm_SyncingLedgers lm) (lm\<lparr>lm_LastClosedLedger := lcl, lm_CurrentLedger := cur\<rparr>) = Inr (fin, lm2)"
    "lm' = (if fin then setState LM_SYNCED_STATE (lm2\<lparr>lm_SyncingLedgers := []\<rparr>)
      else startCatchUp (lib_staleSeq L (last (lm_SyncingLedgers lm2))) (catchup_mode cfg) (lm2\<lparr>lm_SyncingLedgers := []\<rparr>))"
    by (auto simp: rbind_eq_Inr lm1 split: if_splits)
  with seq show thesis by (rule that)
qed

text \<open>
  C19: the end of a catch-up of either kind, where ledgers wait and no number is the last of its 32 bits.
  Where the ledgers that were externalised in the meantime, numbered without a gap, begin no later than the
  one after the ledger history led to, all that are newer are closed one after the other, the node is
  synchronised and nothing waits any more; where they begin later, none is closed, the buffer is emptied
  and a new catch-up starts, to whatever number the code reads from the place of the last of them
  after the buffer was cleared.
\<close>

theorem catchup_closes_buffered:
  assumes "historyCaughtup L cfg held False mode lcl lm = Inr lm'"
    and "sync_ok lm" "ds = lm_SyncingLedgers lm" "ds \<noteq> []"
    and "\<forall>d \<in> set ds. unat (lcd_LedgerSeq d) < 2 ^ 32 - 1" "unat (lh_ledgerSeq (lhe_header lcl)) < 2 ^ 32 - 1"
    and "lh_ledgerSeq (lm_CurrentLedger lm) = lh_ledgerSeq (lhe_header (lm_LastClosedLedger lm)) + 1"
  shows "lm_SyncingLedgers lm' = [] \<and>
    (if unat (lcd_LedgerSeq (hd ds)) \<le> unat (lh_ledgerSeq (lhe_header lcl)) + 1
     then lm_State lm' = LM_SYNCED_STATE \<and>
       lcl_seq lm' = max (unat (lh_ledgerSeq (lhe_header lcl))) (unat (lcd_LedgerSeq (last ds)))
     else lm_State lm' = LM_CATCHING_UP_STATE \<and> lm_LastClosedLedger lm' = lcl \<and>
       lm_catchups lm' = lm_catchups lm @ [(lib_staleSeq L (last ds), catchup_mode cfg)])"
proof -
  obtain cur fin lm2 where
    seq: "lh_ledgerSeq cur = lh_ledgerSeq (lhe_header lcl) + 1" and
    r: "replay_buffer L cfg held ds (lm\<lparr>lm_LastClosedLedger := lcl, lm_CurrentLedger := cur\<rparr>) = Inr (fin, lm2)" and
    lm': "lm' = (if fin then setState LM_SYNCED_STATE (lm2\<lparr>lm_SyncingLedgers := []\<rparr>)
      else startCatchUp (lib_staleSeq L (last (lm_SyncingLedgers lm2))) (catchup_mode cfg) (lm2\<lparr>lm_SyncingLedgers := []\<rparr>))"
    using historyCaughtup_Inr [OF assms(1,7)] assms(3) by metis
  have ct: "contiguous ds" using assms(2,3) by (simp add: sync_ok_def)
  have n1: "unat (lh_ledgerSeq (lhe_header lcl) + 1) = unat (lh_ledgerSeq (lhe_header lcl)) + 1"
    using assms(6) by (rule unat_plus_one)
  show ?thesis
  proof (cases "unat (lcd_LedgerSeq (hd ds)) \<le> unat (lh_ledgerSeq (lhe_header lcl)) + 1")
    case True
    with replay_closes [OF r ct] seq assms(4-6) lm' show ?thesis by (auto simp: setState_def)
  next
    case False
    then have over: "lcd_LedgerSeq (hd ds) > lh_ledgerSeq (lhe_header lcl) + 1" using n1 by (simp add: word_less_nat_alt)
    obtain d ds' where ds: "ds = d # ds'" using assms(4) by (cases ds) auto
    have "\<not> fin" "lm2 = lm\<lparr>lm_LastClosedLedger := lcl, lm_CurrentLedger := cur\<rparr>"
      using r replay_overshoot [of "lm\<lparr>lm_LastClosedLedger := lcl, lm_CurrentLedger := cur\<rparr>" d L cfg held ds'] over
      unfolding ds by simp_all
    with False lm' assms(3) show ?thesis by (auto simp: startCatchUp_def setState_def Let_def)
  qed
qed

text \<open>Six ledgers behind, with one ledger waiting that history has passed already.\<close>

definition waiting :: "uint32 \<Rightarrow> LedgerCloseData" where
  "waiting n = \<lparr>lcd_LedgerSeq = n, lcd_TxSet = new_TxSetFrame 1, lcd_CloseTime = 1, lcd_BaseFee = 10\<rparr>"

definition behind :: LedgerManager where
  "behind = new_LedgerManager\<lparr>lm_State := LM_CATCHING_UP_STATE, lm_SyncingLedgers := [waiting 9],
     lm_CurrentLedger := zero_header\<lparr>lh_ledgerSeq := 1\<rparr>\<rparr>"

definition reached :: "uint32 \<Rightarrow> LedgerHeaderHistoryEntry" where
  "reached n = \<lparr>lhe_hash = ucast n + 1000, lhe_header = zero_header\<lparr>lh_ledgerSeq := n\<rparr>\<rparr>"

theorem catchup_closes_buffered_witness:
  "\<exists>lm' lm''. historyCaughtup sample_lib sample_config (\<lambda>_. False) False CATCHUP_MINIMAL (reached 15) behind = Inr lm' \<and>
     lm_State lm' = LM_SYNCED_STATE \<and> lcl_seq lm' = 15 \<and>
     historyCaughtup sample_lib sample_config (\<lambda>_. False) False CATCHUP_MINIMAL (reached 5) behind = Inr lm'' \<and>
     lm_catchups lm'' = [(9, CATCHUP_MINIMAL)]"
proof -
  have a: "\<exists>lm'. historyCaughtup sample_lib sample_config (\<lambda>_. False) False CATCHUP_MINIMAL (reached n) behind = Inr lm'"
    if "n = 15 \<or> n = 5" for n
    using that
    by (auto simp: historyCaughtup_def LedgerHeaderFrame_next_def header_getHash_def reached_def sample_lib_def behind_def
        waiting_def Let_def)
  have b: "sync_ok behind" "[waiting 9] = lm_SyncingLedgers behind" by (simp_all add: sync_ok_def behind_def)
  obtain lm' lm'' where l: "historyCaughtup sample_lib sample_config (\<lambda>_. False) False CATCHUP_MINIMAL (reached 15) behind = Inr lm'"
    "historyCaughtup sample_lib sample_config (\<lambda>_. False) False CATCHUP_MINIMAL (reached 5) behind = Inr lm''"
    using a by blast
  from catchup_closes_buffered [OF l(1) b] catchup_closes_buffered [OF l(2) b] l show ?thesis
    by (simp add: reached_def waiting_def behind_def new_LedgerManager_def catchup_mode_def sample_config_def zero_header_def sample_lib_def)
qed

lemma buffering:
  "each (externalizeValue L cfg held) ds lm = Inr lm' \<Longrightarrow> lm_State lm = LM_CATCHING_UP_STATE \<Longrightarrow>
   lm_State lm' = LM_CATCHING_UP_STATE \<and> lm_catchups lm' = lm_catchups lm \<and>
   lm_LastClosedLedger lm' = lm_LastClosedLedger lm"
proof (induction ds arbitrary: lm)
  case (Cons d ds)
  then obtain lm1 where "externalizeValue L cfg held d lm = Inr lm1" "each (externalizeValue L cfg held) ds lm1 = Inr lm'"
    by (auto simp: rbind_eq_Inr)
  moreover have "lm_State lm1 = LM_CATCHING_UP_STATE \<and> lm_catchups lm1 = lm_catchups lm \<and>
      lm_LastClosedLedger lm1 = lm_LastClosedLedger lm"
    using calculation(1) Cons.prems(2) by (auto simp: externalizeValue_def split: if_splits)
  ultimately show ?case using Cons.IH by simp
qed simp

text \<open>
  A catch-up that ends with an error is never tried again. The log says that it will restart at
  the next close; but the node stays in the state of catching up, in which every ledger that is
  externalised is only buffered or dropped: whatever follows, no catch-up starts and no ledger is
  closed.
\<close>

theorem failed_catchup_is_final:
  assumes "lm_State lm = LM_CATCHING_UP_STATE" "historyCaughtup L cfg held True mode lcl lm = Inr lm1"
    and "each (externalizeValue L cfg held) ds lm1 = Inr lm'"
  shows "lm_State lm' = LM_CATCHING_UP_STATE \<and> lm_catchups lm' = lm_catchups lm \<and>
    lm_LastClosedLedger lm' = lm_LastClosedLedger lm"
proof -
  have "lm1 = lm" using assms(2) by (simp add: historyCaughtup_def)
  with buffering [OF assms(3)] assms(1) show ?thesis by simp
qed

theorem failed_catchup_is_final_witness:
  "\<exists>lm'. each (externalizeValue sample_lib sample_config (\<lambda>_. False)) [waiting 10, waiting 12] behind = Inr lm' \<and>
     map lcd_LedgerSeq (lm_SyncingLedgers lm') = [9, 10] \<and> lm_State lm' = LM_CATCHING_UP_STATE \<and> lm_catchups lm' = []"
proof -
  have a: "historyCaughtup sample_lib sample_config (\<lambda>_. False) True CATCHUP_MINIMAL (reached 5) behind = Inr behind"
    by (simp add: historyCaughtup_def)
  obtain lm' where l: "each (externalizeValue sample_lib sample_config (\<lambda>_. False)) [waiting 10, waiting 12] behind = Inr lm'"
    "map lcd_LedgerSeq (lm_SyncingLedgers lm') = [9, 10]"
    by (simp add: externalizeValue_def behind_def waiting_def)
  from failed_catchup_is_final [OF _ a l(1)] l show ?thesis by (simp add: behind_def new_LedgerManager_def)
qed

end
