(* ===== verification/SCP_Node.thy ===== *)
theory SCP_Node
  imports Ordered_Map "HOL-Library.List_Lexorder"
begin

text \<open>
  \<open>src/scp/SCPXDR.x\<close>, \<open>src/scp/Node.cpp\<close> and \<open>LocalNode.cpp\<close>: the messages of the consensus
  protocol, the nodes known with the quorum sets cached for each, and the tests for quorums.

  A call reads and changes a state, and can end with an exception; what it changed before stays
  changed. A quorum set that is not cached is such an exception. A vector has fewer than \<open>2 ^ 32\<close>
  elements, so that the counts of validators, of 32 bits, are natural numbers here.
\<close>

subsection \<open>Calls\<close>

datatype scp_exn = QuorumSetNotFound uint256 Hash | ScpAssertFailed | OutOfFuel

type_synonym ('s, 'a) call = "'s \<Rightarrow> (scp_exn + 'a) \<times> 's"

definition ret :: "'a \<Rightarrow> ('s, 'a) call" where
  "ret x = (\<lambda>s. (Inr x, s))"

definition throw :: "scp_exn \<Rightarrow> ('s, 'a) call" where
  "throw e = (\<lambda>s. (Inl e, s))"

definition bind :: "('s, 'a) call \<Rightarrow> ('a \<Rightarrow> ('s, 'b) call) \<Rightarrow> ('s, 'b) call" where
  "bind m f = (\<lambda>s. case m s of (Inl e, s') \<Rightarrow> (Inl e, s') | (Inr x, s') \<Rightarrow> f x s')"

definition reads :: "('s \<Rightarrow> 'a) \<Rightarrow> ('s, 'a) call" where
  "reads f = (\<lambda>s. (Inr (f s), s))"

definition modify :: "('s \<Rightarrow> 's) \<Rightarrow> ('s, unit) call" where
  "modify f = (\<lambda>s. (Inr (), f s))"

definition when_do :: "bool \<Rightarrow> ('s, unit) call \<Rightarrow> ('s, unit) call" where
  "when_do b m = (if b then m else ret ())"

definition scp_assert :: "bool \<Rightarrow> ('s, unit) call" where
  "scp_assert b = (if b then ret () else throw ScpAssertFailed)"

fun filter_do :: "('a \<Rightarrow> ('s, bool) call) \<Rightarrow> 'a list \<Rightarrow> ('s, 'a list) call" where
  "filter_do p [] = ret []"
| "filter_do p (x # xs) = bind (p x) (\<lambda>b. bind (filter_do p xs) (\<lambda>ys. ret (if b then x # ys else ys)))"

fun each_do :: "('a \<Rightarrow> ('s, unit) call) \<Rightarrow> 'a list \<Rightarrow> ('s, unit) call" where
  "each_do f [] = ret ()"
| "each_do f (x # xs) = bind (f x) (\<lambda>_. each_do f xs)"

lemma filter_do_length: "filter_do p xs s = (Inr ys, s') \<Longrightarrow> length ys \<le> length xs"
  by (induction xs arbitrary: s ys s')
    (fastforce simp: bind_def ret_def split: prod.splits sum.splits if_splits)+

subsection \<open>Messages\<close>

type_synonym Value = "byte list"

datatype SCPBallot = Ballot (b_counter: uint32) (b_value: Value)

text \<open>The order of the keys of a map: by counter, then by value.\<close>

instantiation SCPBallot :: linorder
begin

definition less_SCPBallot :: "SCPBallot \<Rightarrow> SCPBallot \<Rightarrow> bool" where
  "less_SCPBallot b1 b2 \<longleftrightarrow> b_counter b1 < b_counter b2 \<or> b_counter b1 = b_counter b2 \<and> b_value b1 < b_value b2"

definition less_eq_SCPBallot :: "SCPBallot \<Rightarrow> SCPBallot \<Rightarrow> bool" where
  "less_eq_SCPBallot b1 b2 \<longleftrightarrow> b_counter b1 < b_counter b2 \<or> b_counter b1 = b_counter b2 \<and> b_value b1 \<le> b_value b2"

instance
  by standard (auto simp: less_SCPBallot_def less_eq_SCPBallot_def SCPBallot.expand)

end

datatype SCPStatementType = PREPARING | PREPARED | COMMITTING | COMMITTED

text \<open>The types are finitely many, so that maps on them can be compared.\<close>

instantiation SCPStatementType :: enum
begin

definition enum_SCPStatementType :: "SCPStatementType list" where
  "enum_SCPStatementType = [PREPARING, PREPARED, COMMITTING, COMMITTED]"

definition enum_all_SCPStatementType :: "(SCPStatementType \<Rightarrow> bool) \<Rightarrow> bool" where
  "enum_all_SCPStatementType P \<longleftrightarrow> P PREPARING \<and> P PREPARED \<and> P COMMITTING \<and> P COMMITTED"

definition enum_ex_SCPStatementType :: "(SCPStatementType \<Rightarrow> bool) \<Rightarrow> bool" where
  "enum_ex_SCPStatementType P \<longleftrightarrow> P PREPARING \<or> P PREPARED \<or> P COMMITTING \<or> P COMMITTED"

instance
proof
  have univ: "UNIV = {PREPARING, PREPARED, COMMITTING, COMMITTED}"
    using SCPStatementType.exhaust by blast
  show "UNIV = set (enum_class.enum :: SCPStatementType list)"
    by (simp add: enum_SCPStatementType_def univ)
  show "distinct (enum_class.enum :: SCPStatementType list)"
    by (simp add: enum_SCPStatementType_def)
  show "enum_class.enum_all P \<longleftrightarrow> Ball UNIV P" "enum_class.enum_ex P \<longleftrightarrow> Bex UNIV P" for P :: "SCPStatementType \<Rightarrow> bool"
    by (simp_all add: enum_all_SCPStatementType_def enum_ex_SCPStatementType_def univ)
qed

end

datatype SCPPledges = Prepare (excepted: "SCPBallot list") (prepared: "SCPBallot option") | Plain SCPStatementType

record SCPStatement =
  st_slotIndex :: uint64
  st_ballot :: SCPBallot
  st_quorumSetHash :: Hash
  st_pledges :: SCPPledges

definition st_type :: "SCPStatement \<Rightarrow> SCPStatementType" where
  "st_type s = (case st_pledges s of Prepare _ _ \<Rightarrow> PREPARING | Plain t \<Rightarrow> t)"

record SCPEnvelope =
  en_nodeID :: uint256
  en_statement :: SCPStatement
  en_signature :: "512 word"

record SCPQuorumSet =
  qs_threshold :: uint32
  qs_validators :: "uint256 list"

subsection \<open>Nodes and their quorum sets\<close>

text \<open>
  A node keeps a cache of quorum sets, most recently used first, at most \<open>CACHE_SIZE\<close> of them
  (\<open>src/lib/util/lrucache.hpp\<close>).
\<close>

type_synonym Cache = "(Hash \<times> SCPQuorumSet) list"

definition CACHE_SIZE :: nat where
  "CACHE_SIZE = 4"

definition lru_put :: "Hash \<Rightarrow> SCPQuorumSet \<Rightarrow> Cache \<Rightarrow> Cache" where
  "lru_put h q c = take CACHE_SIZE ((h, q) # filter (\<lambda>p. fst p \<noteq> h) c)"

definition lru_get :: "Hash \<Rightarrow> Cache \<Rightarrow> (SCPQuorumSet \<times> Cache) option" where
  "lru_get h c =
     (case map_of c h of None \<Rightarrow> None | Some q \<Rightarrow> Some (q, (h, q) # filter (\<lambda>p. fst p \<noteq> h) c))"

text \<open>
  The nodes known are pointers: to the one local node, or to a node of its own. The local node is
  also pointed to directly, so that it outlives its entry in the map.
\<close>

record LocalNode =
  ln_nodeID :: uint256
  ln_QSet :: SCPQuorumSet
  ln_QSetHash :: Hash
  ln_Cache :: Cache

datatype Node = TheLocalNode | ANode Cache

record Nodes =
  nd_local :: LocalNode
  nd_known :: "(uint256, Node) omap"

datatype NodeRef = LocalRef | KnownRef uint256

text \<open>\<open>SCP::getNode\<close> makes an unknown node known.\<close>

definition getNode :: "uint256 \<Rightarrow> Nodes \<Rightarrow> Nodes" where
  "getNode v ns = (if map_of (nd_known ns) v = None then ns\<lparr>nd_known := om_update v (ANode []) (nd_known ns)\<rparr> else ns)"

definition get_ref :: "NodeRef \<Rightarrow> Nodes \<Rightarrow> Nodes" where
  "get_ref r ns = (case r of LocalRef \<Rightarrow> ns | KnownRef v \<Rightarrow> getNode v ns)"

definition node_ID :: "NodeRef \<Rightarrow> Nodes \<Rightarrow> uint256" where
  "node_ID r ns = (case r of LocalRef \<Rightarrow> ln_nodeID (nd_local ns) | KnownRef v \<Rightarrow> v)"

definition node_cache :: "NodeRef \<Rightarrow> Nodes \<Rightarrow> Cache" where
  "node_cache r ns =
     (case r of
        LocalRef \<Rightarrow> ln_Cache (nd_local ns)
      | KnownRef v \<Rightarrow>
          (case map_of (nd_known ns) v of
             None \<Rightarrow> [] | Some TheLocalNode \<Rightarrow> ln_Cache (nd_local ns) | Some (ANode c) \<Rightarrow> c))"

definition set_cache :: "NodeRef \<Rightarrow> Cache \<Rightarrow> Nodes \<Rightarrow> Nodes" where
  "set_cache r c ns =
     (case r of
        LocalRef \<Rightarrow> ns\<lparr>nd_local := (nd_local ns)\<lparr>ln_Cache := c\<rparr>\<rparr>
      | KnownRef v \<Rightarrow>
          if map_of (nd_known ns) v = Some TheLocalNode then ns\<lparr>nd_local := (nd_local ns)\<lparr>ln_Cache := c\<rparr>\<rparr>
          else ns\<lparr>nd_known := om_update v (ANode c) (nd_known ns)\<rparr>)"

definition retrieveQuorumSet :: "NodeRef \<Rightarrow> Hash \<Rightarrow> (Nodes, SCPQuorumSet) call" where
  "retrieveQuorumSet r h ns =
     (let ns1 = get_ref r ns
      in case lru_get h (node_cache r ns1) of
           Some (q, c) \<Rightarrow> (Inr q, set_cache r c ns1)
         | None \<Rightarrow> (Inl (QuorumSetNotFound (node_ID r ns1) h), ns1))"

definition cacheQuorumSet :: "(SCPQuorumSet \<Rightarrow> Hash) \<Rightarrow> NodeRef \<Rightarrow> SCPQuorumSet \<Rightarrow> Nodes \<Rightarrow> Nodes" where
  "cacheQuorumSet QH r q ns = (let ns1 = get_ref r ns in set_cache r (lru_put (QH q) q (node_cache r ns1)) ns1)"

definition qset_count :: "SCPQuorumSet \<Rightarrow> uint256 list \<Rightarrow> nat" where
  "qset_count q nodeSet = length (filter (\<lambda>n. n \<in> set nodeSet) (qs_validators q))"

definition hasQuorum :: "NodeRef \<Rightarrow> Hash \<Rightarrow> uint256 list \<Rightarrow> (Nodes, bool) call" where
  "hasQuorum r h nodeSet = bind (retrieveQuorumSet r h) (\<lambda>q. ret (unat (qs_threshold q) \<le> qset_count q nodeSet))"

definition isVBlocking :: "NodeRef \<Rightarrow> Hash \<Rightarrow> uint256 list \<Rightarrow> (Nodes, bool) call" where
  "isVBlocking r h nodeSet = bind (retrieveQuorumSet r h) (\<lambda>q.
     ret (if qs_threshold q = 0 then False
          else length (qs_validators q) - qset_count q nodeSet < unat (qs_threshold q)))"

definition isVBlocking_map ::
    "NodeRef \<Rightarrow> Hash \<Rightarrow> (uint256, 'a) omap \<Rightarrow> (uint256 \<Rightarrow> 'a \<Rightarrow> bool) \<Rightarrow> (Nodes, bool) call" where
  "isVBlocking_map r h m f = isVBlocking r h (map fst (filter (\<lambda>(n, s). f n s) m))"

text \<open>One round of the loop: the nodes that have a quorum among those left, each by its own statement.\<close>

type_synonym StatementMap = "(uint256, SCPStatement) omap"

definition statement_qset :: "StatementMap \<Rightarrow> uint256 \<Rightarrow> Hash" where
  "statement_qset m n = (case map_of m n of Some s \<Rightarrow> st_quorumSetHash s | None \<Rightarrow> 0)"

definition quorum_filter :: "StatementMap \<Rightarrow> uint256 list \<Rightarrow> (Nodes, uint256 list) call" where
  "quorum_filter m pNodes = filter_do (\<lambda>n. hasQuorum (KnownRef n) (statement_qset m n) pNodes) pNodes"

function quorum_loop :: "StatementMap \<Rightarrow> uint256 list \<Rightarrow> (Nodes, uint256 list) call" where
  "quorum_loop m pNodes ns =
     (case quorum_filter m pNodes ns of
        (Inl e, ns') \<Rightarrow> (Inl e, ns')
      | (Inr fNodes, ns') \<Rightarrow> if length fNodes = length pNodes then (Inr fNodes, ns') else quorum_loop m fNodes ns')"
  by pat_completeness auto
termination
  by (relation "measure (\<lambda>(m, pNodes, ns). length pNodes)")
    (auto simp: quorum_filter_def le_neq_implies_less dest: filter_do_length [OF sym])

declare quorum_loop.simps [simp del]

text \<open>The nodes of the map that the filter keeps, a call itself; then the loop; then the node asked.\<close>

definition isQuorumTransitive ::
    "NodeRef \<Rightarrow> Hash \<Rightarrow> StatementMap \<Rightarrow> (uint256 \<Rightarrow> SCPStatement \<Rightarrow> (Nodes, bool) call) \<Rightarrow> (Nodes, bool) call" where
  "isQuorumTransitive r h m f =
     bind (filter_do (\<lambda>(n, s). f n s) m) (\<lambda>ps. bind (quorum_loop m (map fst ps)) (hasQuorum r h))"

text \<open>The filter that is used when none is given.\<close>

definition any_node :: "uint256 \<Rightarrow> SCPStatement \<Rightarrow> (Nodes, bool) call" where
  "any_node n s = ret True"

subsection \<open>The local node\<close>

text \<open>A local node is made before it is entered among the nodes known.\<close>

definition new_LocalNode :: "(SCPQuorumSet \<Rightarrow> Hash) \<Rightarrow> uint256 \<Rightarrow> SCPQuorumSet \<Rightarrow> LocalNode" where
  "new_LocalNode QH v q = \<lparr>ln_nodeID = v, ln_QSet = q, ln_QSetHash = QH q, ln_Cache = lru_put (QH q) q []\<rparr>"

definition updateQuorumSet :: "(SCPQuorumSet \<Rightarrow> Hash) \<Rightarrow> SCPQuorumSet \<Rightarrow> LocalNode \<Rightarrow> LocalNode" where
  "updateQuorumSet QH q l = l\<lparr>ln_Cache := lru_put (QH q) q (ln_Cache l), ln_QSetHash := QH q, ln_QSet := q\<rparr>"

end
