(* ===== verification/SCP_Quorum.thy ===== *)
theory SCP_Quorum
  imports SCP_Node
begin

text \<open>
  What the tests of \<open>src/scp/Node.cpp\<close> decide, in terms of sets of nodes: the loop of
  \<open>isQuorumTransitive\<close> ends with the greatest quorum among the nodes it starts from, and
  \<open>isVBlocking\<close> tells whether a set meets every slice. The caches are reordered by every test; what
  they hold stays the same.
\<close>

subsection \<open>Systems of quorum slices\<close>

text \<open>
  \<open>sat n Q\<close>: the nodes \<open>Q\<close> satisfy the quorum set of \<open>n\<close>. All that is assumed is that more nodes
  still do.
\<close>

definition closed :: "('n \<Rightarrow> 'n set \<Rightarrow> bool) \<Rightarrow> 'n set \<Rightarrow> bool" where
  "closed sat Q \<longleftrightarrow> (\<forall>n \<in> Q. sat n Q)"

locale quorum_slices =
  fixes sat :: "'n \<Rightarrow> 'n set \<Rightarrow> bool"
  assumes sat_mono: "sat n Q \<Longrightarrow> Q \<subseteq> Q' \<Longrightarrow> sat n Q'"
begin

lemma closed_survives: "closed sat Q \<Longrightarrow> Q \<subseteq> P \<Longrightarrow> Q \<subseteq> {n \<in> P. sat n P}"
  unfolding closed_def using sat_mono by blast

lemma closed_Un: "closed sat Q \<Longrightarrow> closed sat Q' \<Longrightarrow> closed sat (Q \<union> Q')"
  unfolding closed_def by (metis Un_iff Un_upper1 Un_upper2 sat_mono)

lemma closed_insert: "closed sat Q \<Longrightarrow> sat n Q \<Longrightarrow> closed sat (insert n Q)"
  unfolding closed_def by (metis insert_iff sat_mono subset_insertI)

end

definition enough :: "SCPQuorumSet \<Rightarrow> uint256 set \<Rightarrow> bool" where
  "enough q Q \<longleftrightarrow> unat (qs_threshold q) \<le> length (filter (\<lambda>n. n \<in> Q) (qs_validators q))"

lemma enough_mono: "enough q Q \<Longrightarrow> Q \<subseteq> Q' \<Longrightarrow> enough q Q'"
proof -
  assume "enough q Q" "Q \<subseteq> Q'"
  moreover have "length (filter (\<lambda>n. n \<in> Q) xs) \<le> length (filter (\<lambda>n. n \<in> Q') xs)" for xs
    using \<open>Q \<subseteq> Q'\<close> by (induction xs) auto
  ultimately show ?thesis
    unfolding enough_def by (meson le_trans)
qed

lemma qset_count_enough: "unat (qs_threshold q) \<le> qset_count q ns \<longleftrightarrow> enough q (set ns)"
  by (simp add: qset_count_def enough_def)

subsection \<open>What the caches hold\<close>

definition qview :: "Nodes \<Rightarrow> NodeRef \<Rightarrow> Hash \<Rightarrow> SCPQuorumSet option" where
  "qview ns r h = map_of (node_cache r ns) h"

definition same_nodes :: "Nodes \<Rightarrow> Nodes \<Rightarrow> bool" where
  "same_nodes ns ns' \<longleftrightarrow>
     qview ns' = qview ns \<and> ln_nodeID (nd_local ns') = ln_nodeID (nd_local ns) \<and>
     ln_QSet (nd_local ns') = ln_QSet (nd_local ns) \<and> ln_QSetHash (nd_local ns') = ln_QSetHash (nd_local ns)"

lemma same_nodes_refl [simp]: "same_nodes ns ns"
  by (simp add: same_nodes_def)

lemma same_nodes_trans [trans]: "same_nodes a b \<Longrightarrow> same_nodes b c \<Longrightarrow> same_nodes a c"
  by (simp add: same_nodes_def)

lemma map_of_other_keys: "map_of (filter (\<lambda>p. fst p \<noteq> h) c) k = (if k = h then None else map_of c k)"
  by (induction c) auto

lemma lru_get_map_of: "lru_get h c = Some (q, c') \<Longrightarrow> map_of c h = Some q \<and> map_of c' = map_of c"
proof -
  assume "lru_get h c = Some (q, c')"
  then have q: "map_of c h = Some q" and c': "c' = (h, q) # filter (\<lambda>p. fst p \<noteq> h) c"
    by (auto simp: lru_get_def split: option.splits)
  then show ?thesis
    by (auto simp: map_of_other_keys)
qed

lemma lru_get_None: "lru_get h c = None \<longleftrightarrow> map_of c h = None"
  by (simp add: lru_get_def split: option.splits)

lemma nd_local_getNode [simp]: "nd_local (getNode v ns) = nd_local ns"
  by (simp add: getNode_def)

lemma node_cache_getNode [simp]: "node_cache r (getNode v ns) = node_cache r ns"
  by (auto simp: getNode_def node_cache_def split: NodeRef.splits option.splits Node.splits)

lemma same_nodes_get_ref: "same_nodes ns (get_ref r ns)"
  by (auto simp: same_nodes_def get_ref_def qview_def fun_eq_iff split: NodeRef.splits)

lemma same_nodes_set_cache:
  assumes "map_of c = map_of (node_cache r ns)"
  shows "same_nodes ns (set_cache r c ns)"
proof (cases r)
  case LocalRef
  with assms show ?thesis
    by (auto simp: same_nodes_def set_cache_def qview_def node_cache_def fun_eq_iff
        split: NodeRef.splits option.splits Node.splits)
next
  case (KnownRef v)
  with assms show ?thesis
    by (auto simp: same_nodes_def set_cache_def qview_def node_cache_def fun_eq_iff
        split: NodeRef.splits option.splits Node.splits)
qed

lemma retrieveQuorumSet_spec:
  assumes "retrieveQuorumSet r h ns = (res, ns')"
  shows "res = (case qview ns r h of Some q \<Rightarrow> Inr q | None \<Rightarrow> Inl (QuorumSetNotFound (node_ID r ns) h))" (is ?A)
    and "same_nodes ns ns'" (is ?B)
proof -
  let ?ns1 = "get_ref r ns"
  have same: "same_nodes ns ?ns1" and id: "node_ID r ?ns1 = node_ID r ns"
    using same_nodes_get_ref by (auto simp: same_nodes_def node_ID_def split: NodeRef.splits)
  then have view: "map_of (node_cache r ?ns1) h = qview ns r h"
    by (simp add: same_nodes_def qview_def fun_eq_iff)
  show ?A
    using assms view id
    by (auto simp: retrieveQuorumSet_def Let_def lru_get_None split: option.splits dest: lru_get_map_of)
  show ?B
  proof (cases "lru_get h (node_cache r ?ns1)")
    case (Some p)
    then obtain q c where p: "lru_get h (node_cache r ?ns1) = Some (q, c)"
      by (cases p) auto
    then have "same_nodes ?ns1 (set_cache r c ?ns1)"
      by (intro same_nodes_set_cache) (auto dest: lru_get_map_of)
    moreover have "ns' = set_cache r c ?ns1"
      using assms p by (simp add: retrieveQuorumSet_def Let_def)
    ultimately show ?thesis
      using same same_nodes_trans by metis
  next
    case None
    with assms same show ?thesis
      by (simp add: retrieveQuorumSet_def Let_def)
  qed
qed

lemma hasQuorum_spec:
  assumes "hasQuorum r h ps ns = (Inr b, ns')"
  shows "\<exists>q. qview ns r h = Some q \<and> b = enough q (set ps)" "same_nodes ns ns'"
  using assms retrieveQuorumSet_spec [of r h ns]
  by (auto simp: hasQuorum_def bind_def ret_def qset_count_enough split: prod.splits sum.splits option.splits)

lemma hasQuorum_same: "same_nodes ns (snd (hasQuorum r h ps ns))"
  using retrieveQuorumSet_spec(2) [of r h ns]
  by (auto simp: hasQuorum_def bind_def ret_def split: prod.splits sum.splits)

lemma isVBlocking_same: "same_nodes ns (snd (isVBlocking r h ps ns))"
  using retrieveQuorumSet_spec(2) [of r h ns]
  by (auto simp: isVBlocking_def bind_def ret_def split: prod.splits sum.splits)

lemma filter_do_subset: "filter_do p xs s = (Inr ys, s') \<Longrightarrow> set ys \<subseteq> set xs"
  by (induction xs arbitrary: s ys s')
    (fastforce simp: bind_def ret_def split: prod.splits sum.splits if_splits)+

lemma filter_do_same:
  assumes "\<And>x ns. x \<in> set xs \<Longrightarrow> same_nodes ns (snd (p x ns))"
  shows "same_nodes ns (snd (filter_do p xs ns))"
  using assms
proof (induction xs arbitrary: ns)
  case (Cons x xs)
  have p: "same_nodes ns (snd (p x ns))"
    by (rule Cons.prems) simp
  have r: "same_nodes ns' (snd (filter_do p xs ns'))" for ns'
    by (rule Cons.IH) (use Cons.prems in auto)
  show ?case
    using p r [of "snd (p x ns)"]
    by (auto simp: bind_def ret_def split: prod.splits sum.splits intro: same_nodes_trans)
qed (simp add: ret_def)

subsection \<open>The loop\<close>

definition slice_ok :: "Nodes \<Rightarrow> StatementMap \<Rightarrow> uint256 \<Rightarrow> uint256 set \<Rightarrow> bool" where
  "slice_ok ns m n Q \<longleftrightarrow> (\<exists>q. qview ns (KnownRef n) (statement_qset m n) = Some q \<and> enough q Q)"

interpretation qs: quorum_slices "slice_ok ns m" for ns m
  by unfold_locales (auto simp: slice_ok_def intro: enough_mono)

lemma slice_ok_same: "same_nodes ns ns' \<Longrightarrow> slice_ok ns' m = slice_ok ns m"
  by (simp add: slice_ok_def same_nodes_def fun_eq_iff)

lemma quorum_filter_spec:
  assumes "filter_do (\<lambda>n. hasQuorum (KnownRef n) (statement_qset m n) ps) xs ns = (Inr ys, ns')"
  shows "ys = filter (\<lambda>n. slice_ok ns m n (set ps)) xs \<and> same_nodes ns ns'"
  using assms
proof (induction xs arbitrary: ns ys ns')
  case (Cons x xs)
  from Cons.prems obtain b ns1 zs where
    b: "hasQuorum (KnownRef x) (statement_qset m x) ps ns = (Inr b, ns1)" and
    zs: "filter_do (\<lambda>n. hasQuorum (KnownRef n) (statement_qset m n) ps) xs ns1 = (Inr zs, ns')" and
    ys: "ys = (if b then x # zs else zs)"
    by (auto simp: bind_def ret_def split: prod.splits sum.splits)
  have "b = slice_ok ns m x (set ps)" "same_nodes ns ns1"
    using hasQuorum_spec [OF b] by (auto simp: slice_ok_def)
  with Cons.IH [OF zs] ys show ?case
    by (auto simp: slice_ok_same intro: same_nodes_trans)
qed (simp add: ret_def)

lemma quorum_loop_same: "same_nodes ns (snd (quorum_loop m ps ns))"
proof (induction m ps ns rule: quorum_loop.induct)
  case (1 m ps ns)
  have f: "same_nodes ns (snd (quorum_filter m ps ns))"
    unfolding quorum_filter_def by (intro filter_do_same hasQuorum_same)
  show ?case
  proof (cases "quorum_filter m ps ns")
    case (Pair r ns1)
    show ?thesis
      using 1 Pair f by (subst quorum_loop.simps) (auto split: sum.splits intro: same_nodes_trans)
  qed
qed

lemma quorum_loop_spec:
  assumes "quorum_loop m ps ns = (Inr fs, ns')"
  shows "set fs \<subseteq> set ps \<and> closed (slice_ok ns m) (set fs) \<and>
    (\<forall>Q \<subseteq> set ps. closed (slice_ok ns m) Q \<longrightarrow> Q \<subseteq> set fs)"
  using assms
proof (induction m ps ns arbitrary: fs ns' rule: quorum_loop.induct)
  case (1 m ps ns)
  obtain gs ns1 where g: "quorum_filter m ps ns = (Inr gs, ns1)"
    using "1.prems" by (subst (asm) quorum_loop.simps) (auto split: prod.splits sum.splits)
  have gs: "gs = filter (\<lambda>n. slice_ok ns m n (set ps)) ps" and same: "same_nodes ns ns1"
    using quorum_filter_spec [OF g [unfolded quorum_filter_def]] by simp_all
  have keep: "Q \<subseteq> set gs" if "Q \<subseteq> set ps" "closed (slice_ok ns m) Q" for Q
    using qs.closed_survives [OF that(2,1)] gs by auto
  show ?case
  proof (cases "length gs = length ps")
    case True
    then have "gs = ps"
      using gs by (metis filter_True length_filter_less less_irrefl)
    moreover have "fs = gs"
      using "1.prems" g True by (subst (asm) quorum_loop.simps) simp
    ultimately have "fs = filter (\<lambda>n. slice_ok ns m n (set ps)) ps" "fs = ps"
      using gs by auto
    then have "\<forall>n \<in> set fs. slice_ok ns m n (set fs)"
      by (metis (mono_tags, lifting) mem_Collect_eq set_filter)
    with \<open>fs = ps\<close> show ?thesis
      by (simp add: closed_def)
  next
    case False
    then have "quorum_loop m gs ns1 = (Inr fs, ns')"
      using "1.prems" g by (subst (asm) quorum_loop.simps) simp
    from "1.IH" [OF g [symmetric] refl False this]
    have ih: "set fs \<subseteq> set gs" "closed (slice_ok ns m) (set fs)"
      "\<And>Q. Q \<subseteq> set gs \<Longrightarrow> closed (slice_ok ns m) Q \<Longrightarrow> Q \<subseteq> set fs"
      unfolding slice_ok_same [OF same] by blast+
    moreover have "set gs \<subseteq> set ps"
      using gs by auto
    ultimately show ?thesis
      using keep by blast
  qed
qed

lemma filter_do_any: "filter_do (\<lambda>(n, s). any_node n s) m ns = (Inr m, ns)"
  by (induction m) (auto simp: any_node_def ret_def bind_def)

lemma isQuorumTransitive_evidence:
  assumes "isQuorumTransitive r h m f ns = (Inr b, ns')" and same: "\<And>n s ns. same_nodes ns (snd (f n s ns))"
  shows "same_nodes ns ns'"
    and "b \<Longrightarrow> \<exists>Q \<subseteq> fst ` set m. closed (slice_ok ns m) Q \<and> (\<exists>q. qview ns r h = Some q \<and> enough q Q)"
proof -
  obtain ps ns1 fs ns2 where
    ps: "filter_do (\<lambda>(n, s). f n s) m ns = (Inr ps, ns1)" and
    fs: "quorum_loop m (map fst ps) ns1 = (Inr fs, ns2)" and
    b: "hasQuorum r h fs ns2 = (Inr b, ns')"
    using assms(1) by (auto simp: isQuorumTransitive_def bind_def split: prod.splits sum.splits)
  have s1: "same_nodes ns ns1"
    using filter_do_same [of m "\<lambda>(n, s). f n s" ns] same ps by (auto split: prod.splits)
  have s2: "same_nodes ns1 ns2"
    using quorum_loop_same [of ns1 m "map fst ps"] fs by simp
  show "same_nodes ns ns'"
    using s1 s2 hasQuorum_spec(2) [OF b] by (blast intro: same_nodes_trans)
  have sub: "fst ` set ps \<subseteq> fst ` set m"
    using filter_do_subset [OF ps] by (rule image_mono)
  assume b
  then obtain q where "qview ns r h = Some q" "enough q (set fs)"
    using hasQuorum_spec(1) [OF b] s1 s2 by (auto simp: same_nodes_def)
  with quorum_loop_spec [OF fs] sub show "\<exists>Q \<subseteq> fst ` set m. closed (slice_ok ns m) Q \<and> (\<exists>q. qview ns r h = Some q \<and> enough q Q)"
    by (intro exI [of _ "set fs"]) (auto simp: slice_ok_same [OF s1])
qed

text \<open>
  C7: when every quorum set that is needed is cached, \<open>isQuorumTransitive\<close> on a map of statements
  decides whether the map holds a transitive quorum: a set of its nodes that satisfies the quorum set
  of each of them, the one named by that node's statement, and the quorum set asked for.
\<close>

theorem isQuorumTransitive_exact:
  assumes "isQuorumTransitive r h m any_node ns = (Inr b, ns')"
  shows "b \<longleftrightarrow> (\<exists>Q \<subseteq> fst ` set m. closed (slice_ok ns m) Q \<and> (\<exists>q. qview ns r h = Some q \<and> enough q Q))"
proof -
  obtain fs ns2 where fs: "quorum_loop m (map fst m) ns = (Inr fs, ns2)" and b: "hasQuorum r h fs ns2 = (Inr b, ns')"
    using assms by (auto simp: isQuorumTransitive_def bind_def filter_do_any split: prod.splits sum.splits)
  have s: "same_nodes ns ns2"
    using quorum_loop_same [of ns m "map fst m"] fs by simp
  obtain q where q: "qview ns r h = Some q" "b = enough q (set fs)"
    using hasQuorum_spec(1) [OF b] s by (auto simp: same_nodes_def)
  have fs': "set fs \<subseteq> fst ` set m" "closed (slice_ok ns m) (set fs)"
    "\<And>Q. Q \<subseteq> fst ` set m \<Longrightarrow> closed (slice_ok ns m) Q \<Longrightarrow> Q \<subseteq> set fs"
    using quorum_loop_spec [OF fs] by auto
  show ?thesis
    using q fs' by (metis enough_mono option.inject)
qed

text \<open>Three nodes, two of which suffice for each; two of them have made a statement.\<close>

definition sample_qset :: SCPQuorumSet where
  "sample_qset = \<lparr>qs_threshold = 2, qs_validators = [1, 2, 3]\<rparr>"

definition sample_nodes :: Nodes where
  "sample_nodes = \<lparr>nd_local = new_LocalNode (\<lambda>q. 7) 1 sample_qset,
     nd_known = [(1, TheLocalNode), (2, ANode [(7, sample_qset)]), (3, ANode [(7, sample_qset)])]\<rparr>"

definition sample_statement :: SCPStatement where
  "sample_statement = \<lparr>st_slotIndex = 1, st_ballot = Ballot 1 [5], st_quorumSetHash = 7, st_pledges = Plain PREPARED\<rparr>"

definition sample_map :: StatementMap where
  "sample_map = [(1, sample_statement), (3, sample_statement)]"

lemma sample_quorum: "fst (isQuorumTransitive LocalRef 7 sample_map any_node sample_nodes) = Inr True"
  by code_simp

theorem isQuorumTransitive_exact_witness:
  "\<exists>Q \<subseteq> fst ` set sample_map. closed (slice_ok sample_nodes sample_map) Q \<and>
     (\<exists>q. qview sample_nodes LocalRef 7 = Some q \<and> enough q Q)"
  using isQuorumTransitive_exact [of LocalRef 7 sample_map sample_nodes True] sample_quorum
  by (metis prod.collapse)

subsection \<open>Blocking sets\<close>

lemma card_slice: "distinct vs \<Longrightarrow> length (filter (\<lambda>n. n \<in> N) vs) = card (set vs \<inter> N)"
  by (metis Collect_conj_eq distinct_card distinct_filter inf_set_def set_filter Collect_mem_eq)

text \<open>
  \<open>isVBlocking\<close> on a quorum set without duplicate validators decides whether a set of nodes is
  v-blocking: whether it meets every slice, that is, every set of at least \<open>threshold\<close> validators.
\<close>

theorem isVBlocking_exact:
  assumes "qview ns r h = Some q" and "distinct (qs_validators q)"
  shows "fst (isVBlocking r h N ns) =
    Inr (\<forall>S \<subseteq> set (qs_validators q). unat (qs_threshold q) \<le> card S \<longrightarrow> S \<inter> set N \<noteq> {})"
proof -
  let ?V = "set (qs_validators q)"
  let ?t = "unat (qs_threshold q)"
  have count: "qset_count q N = card (?V \<inter> set N)" and n: "length (qs_validators q) = card ?V"
    using assms(2) by (simp_all add: qset_count_def card_slice distinct_card)
  have diff: "card ?V - card (?V \<inter> set N) = card (?V - set N)"
    by (simp add: card_Diff_subset_Int)
  have "(\<forall>S \<subseteq> ?V. ?t \<le> card S \<longrightarrow> S \<inter> set N \<noteq> {}) \<longleftrightarrow> card (?V - set N) < ?t"
  proof
    assume "\<forall>S \<subseteq> ?V. ?t \<le> card S \<longrightarrow> S \<inter> set N \<noteq> {}"
    from spec [OF this, of "?V - set N"] show "card (?V - set N) < ?t"
      by auto
  next
    assume less: "card (?V - set N) < ?t"
    show "\<forall>S \<subseteq> ?V. ?t \<le> card S \<longrightarrow> S \<inter> set N \<noteq> {}"
    proof (intro allI impI notI)
      fix S
      assume "S \<subseteq> ?V" "?t \<le> card S" "S \<inter> set N = {}"
      then have "card S \<le> card (?V - set N)"
        by (intro card_mono) auto
      with \<open>?t \<le> card S\<close> less show False
        by simp
    qed
  qed
  moreover obtain ns' where "retrieveQuorumSet r h ns = (Inr q, ns')"
    using retrieveQuorumSet_spec(1) [of r h ns] assms(1) by (cases "retrieveQuorumSet r h ns") auto
  moreover have "qs_threshold q = 0 \<longleftrightarrow> ?t = 0"
    by (simp add: unat_eq_0)
  ultimately show ?thesis
    by (simp add: isVBlocking_def bind_def ret_def count n diff)
qed

theorem isVBlocking_exact_witness:
  "fst (isVBlocking LocalRef 7 [1, 3] sample_nodes) = Inr (\<forall>S \<subseteq> {1, 2, 3 :: uint256}. 2 \<le> card S \<longrightarrow> S \<inter> {1, 3} \<noteq> {})"
proof -
  have "qview sample_nodes LocalRef 7 = Some sample_qset" "distinct (qs_validators sample_qset)"
    by code_simp+
  from isVBlocking_exact [OF this, of "[1, 3]"] show ?thesis
    by (simp add: sample_qset_def)
qed

end
