(* ===== verification/SCP_Slot.thy ===== *)
theory SCP_Slot
  imports SCP_Node
begin

text \<open>
  \<open>src/scp/Slot.cpp\<close>: the state of the protocol for one slot.

  What a user of the library provides by overriding virtual functions are the fields of \<open>Driver\<close>.
  An answer that does not come at once is \<open>None\<close>: the callback is kept, and runs as a call of its
  own later. Envelopes emitted, values externalised, and quorum sets asked for are appended to logs.
  Logging, metrics and the dump of a slot's state are left out.
\<close>

subsection \<open>The state of a slot\<close>

record Driver =
  d_validateValue :: "uint64 \<Rightarrow> uint256 \<Rightarrow> Value \<Rightarrow> bool option"
  d_validateBallot :: "uint64 \<Rightarrow> uint256 \<Rightarrow> SCPBallot \<Rightarrow> bool option"
  d_compareValues :: "uint64 \<Rightarrow> uint32 \<Rightarrow> Value \<Rightarrow> Value \<Rightarrow> int"
  d_retrieveQuorumSet :: "uint256 \<Rightarrow> Hash \<Rightarrow> SCPQuorumSet option"
  d_qsetHash :: "SCPQuorumSet \<Rightarrow> Hash"
  d_isZeroKey :: bool
  d_sign :: "SCPStatement \<Rightarrow> 512 word"
  d_verify :: "uint256 \<Rightarrow> 512 word \<Rightarrow> SCPStatement \<Rightarrow> bool"

type_synonym Statements = "(SCPBallot, SCPStatementType \<Rightarrow> StatementMap) omap"

record Slot =
  sl_SlotIndex :: uint64
  sl_Ballot :: SCPBallot
  sl_IsPristine :: bool
  sl_HeardFromQuorum :: bool
  sl_IsCommitted :: bool
  sl_IsExternalized :: bool
  sl_InAdvanceSlot :: bool
  sl_RunAdvanceSlot :: bool
  sl_Statements :: Statements

datatype EnvelopeState = INVALID | STATEMENTS_MISSING | VALID

text \<open>
  What a callback does with the status of an envelope: the node's own is emitted when valid, the
  status of one that was received is handed to its receiver.
\<close>

datatype Callback = Emit SCPEnvelope | Answer SCPEnvelope

datatype Deferred = ValueCb Callback uint256 SCPStatement | BallotCb Callback uint256 SCPStatement

record Ctx = Slot +
  cx_nodes :: Nodes
  cx_emitted :: "SCPEnvelope list"
  cx_answers :: "(SCPEnvelope \<times> EnvelopeState) list"
  cx_deferred :: "Deferred list"
  cx_retrievals :: "(uint256 \<times> Hash) list"
  cx_externalized :: "Value list"
  cx_heard :: "SCPBallot list"

abbreviation cx_local :: "'a Ctx_scheme \<Rightarrow> LocalNode" where
  "cx_local c \<equiv> nd_local (cx_nodes c)"

abbreviation cx_localID :: "'a Ctx_scheme \<Rightarrow> uint256" where
  "cx_localID c \<equiv> ln_nodeID (cx_local c)"

type_synonym 'a slot_call = "(Ctx, 'a) call"

definition new_Slot :: "uint64 \<Rightarrow> Slot" where
  "new_Slot i = \<lparr>sl_SlotIndex = i, sl_Ballot = Ballot 0 [], sl_IsPristine = True, sl_HeardFromQuorum = True,
     sl_IsCommitted = False, sl_IsExternalized = False, sl_InAdvanceSlot = False, sl_RunAdvanceSlot = False,
     sl_Statements = []\<rparr>"

definition on_nodes :: "(Nodes, 'a) call \<Rightarrow> 'a slot_call" where
  "on_nodes m = (\<lambda>c. let (r, ns) = m (cx_nodes c) in (r, c\<lparr>cx_nodes := ns\<rparr>))"

definition no_statements :: "SCPStatementType \<Rightarrow> StatementMap" where
  "no_statements t = []"

text \<open>\<open>mStatements[b][t]\<close>: a ballot that is not in the map is put there.\<close>

definition statements_at :: "SCPBallot \<Rightarrow> SCPStatementType \<Rightarrow> Statements \<Rightarrow> StatementMap" where
  "statements_at b t m = (case map_of m b of None \<Rightarrow> [] | Some f \<Rightarrow> f t)"

definition touch :: "SCPBallot \<Rightarrow> Statements \<Rightarrow> Statements" where
  "touch b m = (if om_mem b m then m else om_update b no_statements m)"

definition stmts :: "SCPBallot \<Rightarrow> SCPStatementType \<Rightarrow> StatementMap slot_call" where
  "stmts b t = (\<lambda>c. (Inr (statements_at b t (sl_Statements c)), c\<lparr>sl_Statements := touch b (sl_Statements c)\<rparr>))"

definition store_statement :: "SCPBallot \<Rightarrow> SCPStatementType \<Rightarrow> uint256 \<Rightarrow> SCPStatement \<Rightarrow> Statements \<Rightarrow> Statements" where
  "store_statement b t v s m =
     (let f = (case map_of m b of None \<Rightarrow> no_statements | Some f \<Rightarrow> f)
      in om_update b (f(t := om_update v s (f t))) m)"

definition set_statement :: "SCPBallot \<Rightarrow> SCPStatementType \<Rightarrow> uint256 \<Rightarrow> SCPStatement \<Rightarrow> unit slot_call" where
  "set_statement b t v s = modify (\<lambda>c. c\<lparr>sl_Statements := store_statement b t v s (sl_Statements c)\<rparr>)"

definition getNodeStatements :: "uint256 \<Rightarrow> SCPStatementType \<Rightarrow> Statements \<Rightarrow> SCPStatement list" where
  "getNodeStatements v t m = List.map_filter (\<lambda>(b, f). map_of (f t) v) m"

definition compareBallots :: "Driver \<Rightarrow> uint64 \<Rightarrow> SCPBallot \<Rightarrow> SCPBallot \<Rightarrow> int" where
  "compareBallots D i b1 b2 =
     (if b_counter b1 < b_counter b2 then -1
      else if b_counter b2 < b_counter b1 then 1
      else d_compareValues D i (b_counter b1) (b_value b1) (b_value b2))"

subsection \<open>Processing an envelope\<close>

definition bumpToBallot :: "Driver \<Rightarrow> SCPBallot \<Rightarrow> unit slot_call" where
  "bumpToBallot D ballot =
     bind (reads (\<lambda>c. \<not> sl_IsCommitted c \<and> \<not> sl_IsExternalized c \<and>
       (\<forall>s \<in> set (getNodeStatements (cx_localID c) PREPARING (sl_Statements c)).
          compareBallots D (sl_SlotIndex c) ballot (st_ballot s) \<ge> 0) \<and>
       (sl_IsPristine c \<or> compareBallots D (sl_SlotIndex c) ballot (sl_Ballot c) \<ge> 0))) (\<lambda>ok.
     bind (scp_assert ok) (\<lambda>_.
     modify (\<lambda>c. c\<lparr>sl_Ballot := ballot, sl_IsPristine := False, sl_HeardFromQuorum := False\<rparr>)))"

definition plain_statement :: "SCPStatementType \<Rightarrow> SCPPledges" where
  "plain_statement t = (if t = PREPARING then Prepare [] None else Plain t)"

definition createStatement :: "SCPStatementType \<Rightarrow> Ctx \<Rightarrow> SCPStatement" where
  "createStatement t c = \<lparr>st_slotIndex = sl_SlotIndex c, st_ballot = sl_Ballot c,
     st_quorumSetHash = ln_QSetHash (cx_local c), st_pledges = plain_statement t\<rparr>"

definition createEnvelope :: "Driver \<Rightarrow> SCPStatement \<Rightarrow> Ctx \<Rightarrow> SCPEnvelope" where
  "createEnvelope D s c = \<lparr>en_nodeID = cx_localID c, en_statement = s, en_signature = d_sign D s\<rparr>"

definition run_cb :: "Callback \<Rightarrow> EnvelopeState \<Rightarrow> unit slot_call" where
  "run_cb cb st =
     (case cb of
        Emit e \<Rightarrow> when_do (st = VALID) (modify (\<lambda>c. c\<lparr>cx_emitted := cx_emitted c @ [e]\<rparr>))
      | Answer e \<Rightarrow> modify (\<lambda>c. c\<lparr>cx_answers := cx_answers c @ [(e, st)]\<rparr>))"

definition defer_cb :: "Deferred \<Rightarrow> unit slot_call" where
  "defer_cb d = modify (\<lambda>c. c\<lparr>cx_deferred := cx_deferred c @ [d]\<rparr>)"

text \<open>\<open>adv\<close> is the call of \<open>advanceSlot\<close> that follows once a statement is stored.\<close>

definition ballot_cb :: "Driver \<Rightarrow> unit slot_call \<Rightarrow> Callback \<Rightarrow> uint256 \<Rightarrow> SCPStatement \<Rightarrow> bool \<Rightarrow> unit slot_call" where
  "ballot_cb D adv cb v s valid =
     (if \<not> valid then run_cb cb INVALID
      else
        bind (reads (\<lambda>c. sl_IsPristine c \<or> compareBallots D (sl_SlotIndex c) (st_ballot s) (sl_Ballot c) > 0)) (\<lambda>higher.
        bind (when_do higher (bumpToBallot D (st_ballot s))) (\<lambda>_.
        bind (set_statement (st_ballot s) (st_type s) v s) (\<lambda>_. adv))))"

definition store_and_advance :: "unit slot_call \<Rightarrow> uint256 \<Rightarrow> SCPStatement \<Rightarrow> unit slot_call" where
  "store_and_advance adv v s = bind (set_statement (st_ballot s) (st_type s) v s) (\<lambda>_. adv)"

text \<open>Whether a \<open>COMMITTING\<close> statement contradicts a \<open>PREPARING\<close> one of the same node.\<close>

definition phony_committing :: "Driver \<Rightarrow> uint64 \<Rightarrow> SCPBallot \<Rightarrow> SCPStatement list \<Rightarrow> bool" where
  "phony_committing D i b preparing \<longleftrightarrow>
     (\<exists>s \<in> set preparing. compareBallots D i b (st_ballot s) < 0 \<and>
        (case st_pledges s of Prepare ex _ \<Rightarrow> b \<notin> set ex | Plain _ \<Rightarrow> True))"

definition value_cb :: "Driver \<Rightarrow> unit slot_call \<Rightarrow> Callback \<Rightarrow> uint256 \<Rightarrow> SCPStatement \<Rightarrow> bool \<Rightarrow> unit slot_call" where
  "value_cb D adv cb v s valid =
     (let b = st_ballot s; t = st_type s
      in if \<not> valid then run_cb cb INVALID
         else bind (reads (\<lambda>c. c)) (\<lambda>c.
           if \<not> sl_IsCommitted c \<and> t = PREPARING then
             bind (case d_validateBallot D (sl_SlotIndex c) v b of
                     Some ok \<Rightarrow> ballot_cb D adv cb v s ok
                   | None \<Rightarrow> defer_cb (BallotCb cb v s)) (\<lambda>_. run_cb cb VALID)
           else if \<not> sl_IsCommitted c \<and> t = PREPARED then
             bind (store_and_advance adv v s) (\<lambda>_. run_cb cb VALID)
           else if \<not> sl_IsCommitted c \<and> t = COMMITTING then
             if phony_committing D (sl_SlotIndex c) b (getNodeStatements v PREPARING (sl_Statements c))
             then run_cb cb INVALID
             else if \<exists>p \<in> set (getNodeStatements v PREPARED (sl_Statements c)).
                       compareBallots D (sl_SlotIndex c) b (st_ballot p) = 0
             then bind (store_and_advance adv v s) (\<lambda>_. run_cb cb VALID)
             else run_cb cb STATEMENTS_MISSING
           else if t = COMMITTED then
             if getNodeStatements v COMMITTED (sl_Statements c) \<noteq> [] then run_cb cb INVALID
             else bind (store_and_advance adv v s) (\<lambda>_. run_cb cb VALID)
           else
             bind (when_do (sl_IsCommitted c)
               (modify (\<lambda>c. c\<lparr>cx_emitted := cx_emitted c @ [createEnvelope D (createStatement COMMITTED c) c]\<rparr>))) (\<lambda>_.
             run_cb cb VALID)))"

definition processEnvelope :: "Driver \<Rightarrow> unit slot_call \<Rightarrow> Callback \<Rightarrow> SCPEnvelope \<Rightarrow> unit slot_call" where
  "processEnvelope D adv cb e =
     bind (reads sl_SlotIndex) (\<lambda>i.
     bind (scp_assert (st_slotIndex (en_statement e) = i)) (\<lambda>_.
     case d_validateValue D i (en_nodeID e) (b_value (st_ballot (en_statement e))) of
       Some ok \<Rightarrow> value_cb D adv cb (en_nodeID e) (en_statement e) ok
     | None \<Rightarrow> defer_cb (ValueCb cb (en_nodeID e) (en_statement e))))"

subsection \<open>What has been reached\<close>

definition local_has :: "SCPBallot \<Rightarrow> SCPStatementType \<Rightarrow> bool slot_call" where
  "local_has b t = bind (stmts b t) (\<lambda>m. reads (\<lambda>c. map_of m (cx_localID c) \<noteq> None))"

definition local_quorum :: "StatementMap \<Rightarrow> (uint256 \<Rightarrow> SCPStatement \<Rightarrow> (Nodes, bool) call) \<Rightarrow> bool slot_call" where
  "local_quorum m f = bind (reads (\<lambda>c. ln_QSetHash (cx_local c))) (\<lambda>h. on_nodes (isQuorumTransitive LocalRef h m f))"

text \<open>
  The excepted ballots of a ratifying node: each is compatible with the current value, or aborted by a
  set of nodes that blocks it and has prepared a higher ballot. Every one is looked at. The statements
  in the map are all \<open>PREPARING\<close> ones.
\<close>

definition aborts :: "Driver \<Rightarrow> uint64 \<Rightarrow> SCPBallot \<Rightarrow> SCPStatement \<Rightarrow> bool" where
  "aborts D i b s =
     (case st_pledges s of
        Prepare _ (Some p) \<Rightarrow> compareBallots D i p b > 0
      | _ \<Rightarrow> False)"

fun excepted_aborted ::
    "Driver \<Rightarrow> uint64 \<Rightarrow> Value \<Rightarrow> StatementMap \<Rightarrow> uint256 \<Rightarrow> Hash \<Rightarrow> SCPBallot list \<Rightarrow> (Nodes, bool) call" where
  "excepted_aborted D i x m nIDR h [] = ret True"
| "excepted_aborted D i x m nIDR h (b # bs) =
     (if b_value b = x then excepted_aborted D i x m nIDR h bs
      else bind (isVBlocking_map (KnownRef nIDR) h m (\<lambda>_. aborts D i b)) (\<lambda>blocked.
           bind (excepted_aborted D i x m nIDR h bs) (\<lambda>rest. ret (blocked \<and> rest))))"

definition ratifyFilter :: "Driver \<Rightarrow> uint64 \<Rightarrow> Value \<Rightarrow> StatementMap \<Rightarrow> uint256 \<Rightarrow> SCPStatement \<Rightarrow> (Nodes, bool) call" where
  "ratifyFilter D i x m nIDR stR =
     (case st_pledges stR of
        Prepare ex _ \<Rightarrow> excepted_aborted D i x m nIDR (st_quorumSetHash stR) ex
      | Plain _ \<Rightarrow> ret True)"

definition isPrepared :: "Driver \<Rightarrow> SCPBallot \<Rightarrow> bool slot_call" where
  "isPrepared D b =
     bind (local_has b PREPARED) (\<lambda>emitted.
     if emitted then ret True
     else
       bind (stmts b PREPARED) (\<lambda>m.
       bind (reads (\<lambda>c. ln_QSetHash (cx_local c))) (\<lambda>h.
       bind (on_nodes (isVBlocking_map LocalRef h m (\<lambda>_ _. True))) (\<lambda>blocked.
       if blocked then ret True
       else
         bind (stmts b PREPARING) (\<lambda>m.
         bind (reads (\<lambda>c. c)) (\<lambda>c.
         local_quorum m (ratifyFilter D (sl_SlotIndex c) (b_value (sl_Ballot c)) m)))))))"

definition isPreparedConfirmed :: "SCPBallot \<Rightarrow> bool slot_call" where
  "isPreparedConfirmed b =
     bind (local_has b COMMITTING) (\<lambda>emitted.
     if emitted then ret True else bind (stmts b PREPARED) (\<lambda>m. local_quorum m any_node))"

definition isCommitted :: "SCPBallot \<Rightarrow> bool slot_call" where
  "isCommitted b =
     bind (local_has b COMMITTED) (\<lambda>emitted.
     if emitted then ret True else bind (stmts b COMMITTING) (\<lambda>m. local_quorum m any_node))"

definition committed_statements :: "Value \<Rightarrow> Statements \<Rightarrow> StatementMap" where
  "committed_statements x m =
     fold (\<lambda>(b, f) acc. if b_value b = x then fold (\<lambda>(n, s). om_update n s) (f COMMITTED) acc else acc) m []"

definition isCommittedConfirmed :: "Value \<Rightarrow> bool slot_call" where
  "isCommittedConfirmed x = bind (reads (\<lambda>c. committed_statements x (sl_Statements c))) (\<lambda>m. local_quorum m any_node)"

subsection \<open>Moving on\<close>

text \<open>A call of \<open>advanceSlot\<close> from within it only notes that it has to run again.\<close>

definition reenter :: "unit slot_call" where
  "reenter = modify (\<lambda>c. c\<lparr>sl_RunAdvanceSlot := True\<rparr>)"

definition own_envelope :: "Driver \<Rightarrow> SCPStatement \<Rightarrow> unit slot_call" where
  "own_envelope D s = bind (reads (createEnvelope D s)) (\<lambda>e. processEnvelope D reenter (Emit e) e)"

text \<open>
  The ballot a \<open>PREPARING\<close> statement reports as prepared: of the node's own \<open>PREPARED\<close> statements
  for the same value, a later one replaces the one held when that is the greater.
\<close>

fun pick_prepared :: "Driver \<Rightarrow> uint64 \<Rightarrow> Value \<Rightarrow> SCPStatement list \<Rightarrow> SCPBallot option \<Rightarrow> SCPBallot option" where
  "pick_prepared D i x [] p = p"
| "pick_prepared D i x (s # ss) p =
     pick_prepared D i x ss
       (if b_value (st_ballot s) = x \<and> (case p of None \<Rightarrow> True | Some q \<Rightarrow> compareBallots D i q (st_ballot s) > 0)
        then Some (st_ballot s) else p)"

definition preparing_statement :: "Driver \<Rightarrow> Ctx \<Rightarrow> SCPStatement" where
  "preparing_statement D c =
     (let own = (\<lambda>t. getNodeStatements (cx_localID c) t (sl_Statements c))
      in (createStatement PREPARING c)\<lparr>st_pledges :=
           Prepare (map st_ballot (own COMMITTING))
             (pick_prepared D (sl_SlotIndex c) (b_value (sl_Ballot c)) (own PREPARED) None)\<rparr>)"

definition attemptPreparing :: "Driver \<Rightarrow> unit slot_call" where
  "attemptPreparing D =
     bind (reads sl_Ballot) (\<lambda>b.
     bind (local_has b PREPARING) (\<lambda>emitted.
     when_do (\<not> emitted) (bind (reads (preparing_statement D)) (own_envelope D))))"

definition attemptPrepared :: "Driver \<Rightarrow> SCPBallot \<Rightarrow> unit slot_call" where
  "attemptPrepared D b =
     bind (local_has b PREPARED) (\<lambda>emitted.
     when_do (\<not> emitted)
       (bind (reads (\<lambda>c. (createStatement PREPARED c)\<lparr>st_ballot := b\<rparr>)) (own_envelope D)))"

definition attemptCommitting :: "Driver \<Rightarrow> unit slot_call" where
  "attemptCommitting D =
     bind (reads sl_Ballot) (\<lambda>b.
     bind (local_has b COMMITTING) (\<lambda>emitted.
     when_do (\<not> emitted) (bind (reads (createStatement COMMITTING)) (own_envelope D))))"

definition attemptCommitted :: "Driver \<Rightarrow> unit slot_call" where
  "attemptCommitted D =
     bind (reads sl_Ballot) (\<lambda>b.
     bind (local_has b COMMITTED) (\<lambda>emitted.
     when_do (\<not> emitted)
       (bind (reads (createStatement COMMITTED)) (\<lambda>s.
        bind (modify (\<lambda>c. c\<lparr>sl_IsCommitted := True\<rparr>)) (\<lambda>_. own_envelope D s)))))"

definition attemptExternalize :: "unit slot_call" where
  "attemptExternalize = modify (\<lambda>c.
     if sl_IsExternalized c then c
     else c\<lparr>sl_IsExternalized := True, cx_externalized := cx_externalized c @ [b_value (sl_Ballot c)]\<rparr>)"

text \<open>The smallest ballot for the value that is above the current one and above every \<open>COMMITTED\<close> seen for it.\<close>

definition ext_ballot :: "Driver \<Rightarrow> uint64 \<Rightarrow> SCPBallot \<Rightarrow> Value \<Rightarrow> Statements \<Rightarrow> SCPBallot" where
  "ext_ballot D i cur x m =
     (let b0 = Ballot (b_counter cur) x;
          b1 = (if compareBallots D i b0 cur < 0 then Ballot (b_counter cur + 1) x else b0)
      in fold (\<lambda>(b, f) bext.
           if b_value b = b_value bext \<and> f COMMITTED \<noteq> [] \<and> compareBallots D i bext b < 0 then b else bext) m b1)"

definition advance_current :: "Driver \<Rightarrow> unit slot_call" where
  "advance_current D =
     bind (reads (\<lambda>c. c)) (\<lambda>c.
     if sl_IsPristine c then ret ()
     else if \<not> sl_IsCommitted c then
       bind (attemptPreparing D) (\<lambda>_.
       bind (bind (reads sl_Ballot) (isPrepared D)) (\<lambda>p.
       bind (when_do p (bind (reads sl_Ballot) (attemptPrepared D))) (\<lambda>_.
       bind (bind (reads sl_Ballot) isPreparedConfirmed) (\<lambda>pc.
       when_do pc
         (bind (attemptCommitting D) (\<lambda>_.
          bind (bind (reads sl_Ballot) isCommitted) (\<lambda>cm.
          when_do cm (attemptCommitted D))))))))
     else
       bind (bind (reads (\<lambda>c. b_value (sl_Ballot c))) isCommittedConfirmed) (\<lambda>cc. when_do cc attemptExternalize))"

definition try_externalize :: "Driver \<Rightarrow> SCPBallot \<Rightarrow> unit slot_call" where
  "try_externalize D b =
     bind (isCommittedConfirmed (b_value b)) (\<lambda>cc.
     when_do cc
       (bind (reads (\<lambda>c. ext_ballot D (sl_SlotIndex c) (sl_Ballot c) (b_value b) (sl_Statements c))) (\<lambda>bext.
        bind (bumpToBallot D bext) (\<lambda>_. attemptCommitted D))))"

definition try_prepared :: "Driver \<Rightarrow> SCPBallot \<Rightarrow> unit slot_call" where
  "try_prepared D b =
     bind (isPrepared D b) (\<lambda>p.
     when_do p
       (bind (reads (\<lambda>c. compareBallots D (sl_SlotIndex c) b (sl_Ballot c) > 0)) (\<lambda>higher.
        if higher then bind (bumpToBallot D b) (\<lambda>_. reenter) else attemptPrepared D b)))"

text \<open>
  The ballots are those of the map when the loop starts: a ballot can enter the map within the loop
  only when the slot is committed, which ends it.
\<close>

fun try_bumping :: "Driver \<Rightarrow> SCPBallot list \<Rightarrow> unit slot_call" where
  "try_bumping D [] = ret ()"
| "try_bumping D (b # bs) =
     bind (reads (\<lambda>c. sl_IsCommitted c \<or> sl_IsExternalized c)) (\<lambda>stop.
     if stop then ret ()
     else bind (try_externalize D b) (\<lambda>_. bind (try_prepared D b) (\<lambda>_. try_bumping D bs)))"

definition all_statements :: "SCPBallot \<Rightarrow> Statements \<Rightarrow> StatementMap" where
  "all_statements b m =
     fold (\<lambda>t acc. fold (\<lambda>(n, s). om_update n s) (statements_at b t m) acc) [PREPARING, PREPARED, COMMITTING, COMMITTED] []"

definition check_heard :: "unit slot_call" where
  "check_heard =
     bind (reads sl_HeardFromQuorum) (\<lambda>heard.
     when_do (\<not> heard)
       (bind (modify (\<lambda>c. c\<lparr>sl_Statements := touch (sl_Ballot c) (sl_Statements c)\<rparr>)) (\<lambda>_.
        bind (bind (reads (\<lambda>c. all_statements (sl_Ballot c) (sl_Statements c))) (\<lambda>m. local_quorum m any_node)) (\<lambda>q.
        when_do q (modify (\<lambda>c. c\<lparr>sl_HeardFromQuorum := True, cx_heard := cx_heard c @ [sl_Ballot c]\<rparr>))))))"

definition advance_body :: "Driver \<Rightarrow> unit slot_call" where
  "advance_body D =
     bind (advance_current D) (\<lambda>_.
     bind (reads (\<lambda>c. map fst (sl_Statements c))) (\<lambda>bs.
     bind (try_bumping D bs) (\<lambda>_. check_heard)))"

text \<open>
  The answer to a request for a quorum set: one whose hash is not the one asked for is ignored. When
  it does not come at once the request is noted.
\<close>

definition qset_cb :: "Driver \<Rightarrow> unit slot_call \<Rightarrow> uint256 \<Rightarrow> Hash \<Rightarrow> SCPQuorumSet \<Rightarrow> unit slot_call" where
  "qset_cb D adv v h q =
     when_do (h = d_qsetHash D q)
       (bind (modify (\<lambda>c. c\<lparr>cx_nodes := cacheQuorumSet (d_qsetHash D) (KnownRef v) q (cx_nodes c)\<rparr>)) (\<lambda>_. adv))"

definition ask_qset :: "Driver \<Rightarrow> uint256 \<Rightarrow> Hash \<Rightarrow> unit slot_call" where
  "ask_qset D v h =
     (case d_retrieveQuorumSet D v h of
        Some q \<Rightarrow> qset_cb D reenter v h q
      | None \<Rightarrow> modify (\<lambda>c. c\<lparr>cx_retrievals := cx_retrievals c @ [(v, h)]\<rparr>))"

definition catch_missing :: "Driver \<Rightarrow> unit slot_call \<Rightarrow> unit slot_call" where
  "catch_missing D m = (\<lambda>c. case m c of (Inl (QuorumSetNotFound v h), c') \<Rightarrow> ask_qset D v h c' | r \<Rightarrow> r)"

fun advanceSlot :: "Driver \<Rightarrow> nat \<Rightarrow> unit slot_call" where
  "advanceSlot D 0 = bind (reads sl_InAdvanceSlot) (\<lambda>busy. if busy then reenter else throw OutOfFuel)"
| "advanceSlot D (Suc fuel) =
     bind (reads sl_InAdvanceSlot) (\<lambda>busy.
     if busy then reenter
     else
       bind (modify (\<lambda>c. c\<lparr>sl_InAdvanceSlot := True\<rparr>)) (\<lambda>_.
       bind (catch_missing D (advance_body D)) (\<lambda>_.
       bind (modify (\<lambda>c. c\<lparr>sl_InAdvanceSlot := False\<rparr>)) (\<lambda>_.
       bind (reads sl_RunAdvanceSlot) (\<lambda>again.
       when_do again
         (bind (modify (\<lambda>c. c\<lparr>sl_RunAdvanceSlot := False\<rparr>)) (\<lambda>_. advanceSlot D fuel)))))))"

definition slot_prepareValue :: "Driver \<Rightarrow> nat \<Rightarrow> Value \<Rightarrow> bool \<Rightarrow> bool slot_call" where
  "slot_prepareValue D fuel x forceBump =
     bind (reads (\<lambda>c. c)) (\<lambda>c.
     if sl_IsCommitted c then ret False
     else
       bind (bumpToBallot D
         (if forceBump \<or> (\<not> sl_IsPristine c \<and>
               d_compareValues D (sl_SlotIndex c) (b_counter (sl_Ballot c)) (b_value (sl_Ballot c)) x > 0)
          then Ballot (b_counter (sl_Ballot c) + 1) x else Ballot (b_counter (sl_Ballot c)) x)) (\<lambda>_.
       bind (advanceSlot D fuel) (\<lambda>_. ret True)))"

text \<open>A callback that was kept runs later, with the answer it waited for.\<close>

definition run_deferred :: "Driver \<Rightarrow> nat \<Rightarrow> Deferred \<Rightarrow> bool \<Rightarrow> unit slot_call" where
  "run_deferred D fuel d valid =
     (case d of
        ValueCb cb v s \<Rightarrow> value_cb D (advanceSlot D fuel) cb v s valid
      | BallotCb cb v s \<Rightarrow> ballot_cb D (advanceSlot D fuel) cb v s valid)"

end
