(* ===== verification/SCP_Instance.thy ===== *)
theory SCP_Instance
  imports SCP_Slot
begin

text \<open>
  \<open>src/scp/SCP.cpp\<close>: the nodes and the slots known. A slot is an object of its own, at an address: a
  callback that is kept holds its slot, which outlives its entry in the map of slots. Every object
  keeps its logs of what it has emitted, answered and asked for; the nodes are shared by all.
\<close>

record SCP =
  scp_Nodes :: Nodes
  scp_Slots :: "Ctx list"
  scp_KnownSlots :: "(uint64, nat) omap"
  scp_rejected :: "SCPEnvelope list"

type_synonym 'a scp_call = "(SCP, 'a) call"

definition new_SCP :: "Driver \<Rightarrow> uint256 \<Rightarrow> SCPQuorumSet \<Rightarrow> SCP" where
  "new_SCP D v q =
     \<lparr>scp_Nodes = \<lparr>nd_local = new_LocalNode (d_qsetHash D) v q, nd_known = [(v, TheLocalNode)]\<rparr>,
      scp_Slots = [], scp_KnownSlots = [], scp_rejected = []\<rparr>"

definition new_Ctx :: "uint64 \<Rightarrow> Nodes \<Rightarrow> Ctx" where
  "new_Ctx i ns = Slot.extend (new_Slot i)
     \<lparr>cx_nodes = ns, cx_emitted = [], cx_answers = [], cx_deferred = [], cx_retrievals = [], cx_externalized = [],
      cx_heard = []\<rparr>"

definition getSlot :: "uint64 \<Rightarrow> nat scp_call" where
  "getSlot i s =
     (case map_of (scp_KnownSlots s) i of
        Some a \<Rightarrow> (Inr a, s)
      | None \<Rightarrow>
          (let a = length (scp_Slots s)
           in (Inr a, s\<lparr>scp_Slots := scp_Slots s @ [new_Ctx i (scp_Nodes s)],
                        scp_KnownSlots := om_update i a (scp_KnownSlots s)\<rparr>)))"

definition slot_at :: "nat \<Rightarrow> SCP \<Rightarrow> Ctx" where
  "slot_at a s = (scp_Slots s ! a)\<lparr>cx_nodes := scp_Nodes s\<rparr>"

definition on_slot :: "nat \<Rightarrow> 'a slot_call \<Rightarrow> 'a scp_call" where
  "on_slot a m s =
     (let (r, c) = m (slot_at a s) in (r, s\<lparr>scp_Slots := (scp_Slots s)[a := c], scp_Nodes := cx_nodes c\<rparr>))"

definition verifyEnvelope :: "Driver \<Rightarrow> SCPEnvelope \<Rightarrow> bool" where
  "verifyEnvelope D e = d_verify D (en_nodeID e) (en_signature e) (en_statement e)"

definition receiveEnvelope :: "Driver \<Rightarrow> nat \<Rightarrow> SCPEnvelope \<Rightarrow> unit scp_call" where
  "receiveEnvelope D fuel e =
     (if \<not> verifyEnvelope D e then modify (\<lambda>s. s\<lparr>scp_rejected := scp_rejected s @ [e]\<rparr>)
      else bind (getSlot (st_slotIndex (en_statement e))) (\<lambda>a.
           on_slot a (processEnvelope D (advanceSlot D fuel) (Answer e) e)))"

definition prepareValue :: "Driver \<Rightarrow> nat \<Rightarrow> uint64 \<Rightarrow> Value \<Rightarrow> bool \<Rightarrow> bool scp_call" where
  "prepareValue D fuel i x forceBump =
     bind (scp_assert (\<not> d_isZeroKey D)) (\<lambda>_.
     bind (getSlot i) (\<lambda>a. on_slot a (slot_prepareValue D fuel x forceBump)))"

definition updateLocalQuorumSet :: "Driver \<Rightarrow> SCPQuorumSet \<Rightarrow> SCP \<Rightarrow> SCP" where
  "updateLocalQuorumSet D q s =
     s\<lparr>scp_Nodes := (scp_Nodes s)\<lparr>nd_local := updateQuorumSet (d_qsetHash D) q (nd_local (scp_Nodes s))\<rparr>\<rparr>"

definition purgeNode :: "uint256 \<Rightarrow> SCP \<Rightarrow> SCP" where
  "purgeNode v s = s\<lparr>scp_Nodes := (scp_Nodes s)\<lparr>nd_known := om_erase v (nd_known (scp_Nodes s))\<rparr>\<rparr>"

definition purgeSlots :: "uint64 \<Rightarrow> SCP \<Rightarrow> SCP" where
  "purgeSlots maxSlotIndex s = s\<lparr>scp_KnownSlots := filter (\<lambda>(i, a). \<not> i < maxSlotIndex) (scp_KnownSlots s)\<rparr>"

definition isVBlocking_nodes :: "uint256 list \<Rightarrow> bool scp_call" where
  "isVBlocking_nodes vs s =
     (let (r, ns) = isVBlocking_map LocalRef (ln_QSetHash (nd_local (scp_Nodes s))) (fold (\<lambda>v. om_update v True) vs [])
            (\<lambda>_ _. True) (scp_Nodes s)
      in (r, s\<lparr>scp_Nodes := ns\<rparr>))"

text \<open>The answers that did not come at once. A callback runs once; it may find its slot gone from the map.\<close>

definition deferred_answer :: "Driver \<Rightarrow> nat \<Rightarrow> nat \<Rightarrow> nat \<Rightarrow> bool \<Rightarrow> unit scp_call" where
  "deferred_answer D fuel a k valid =
     on_slot a
       (bind (reads cx_deferred) (\<lambda>ds.
        when_do (k < length ds)
          (bind (modify (\<lambda>c. c\<lparr>cx_deferred := take k ds @ drop (Suc k) ds\<rparr>)) (\<lambda>_.
           run_deferred D fuel (ds ! k) valid))))"

definition qset_answer :: "Driver \<Rightarrow> nat \<Rightarrow> nat \<Rightarrow> nat \<Rightarrow> SCPQuorumSet \<Rightarrow> unit scp_call" where
  "qset_answer D fuel a k q =
     on_slot a
       (bind (reads cx_retrievals) (\<lambda>rs.
        when_do (k < length rs) (qset_cb D (advanceSlot D fuel) (fst (rs ! k)) (snd (rs ! k)) q)))"

text \<open>The counters reported as metrics.\<close>

definition getKnownNodesCount :: "SCP \<Rightarrow> nat" where
  "getKnownNodesCount s = length (nd_known (scp_Nodes s))"

definition getKnownSlotsCount :: "SCP \<Rightarrow> nat" where
  "getKnownSlotsCount s = length (scp_KnownSlots s)"

definition getCumulativeStatemtCount :: "SCP \<Rightarrow> nat" where
  "getCumulativeStatemtCount s = (\<Sum>(i, a) \<leftarrow> scp_KnownSlots s. length (sl_Statements (scp_Slots s ! a)))"

definition getCumulativeCachedQuorumSetCount :: "SCP \<Rightarrow> nat" where
  "getCumulativeCachedQuorumSetCount s = (\<Sum>(v, n) \<leftarrow> nd_known (scp_Nodes s). length (node_cache (KnownRef v) (scp_Nodes s)))"

end
