(* ===== verification/SCP_Refine.thy ===== *)
theory SCP_Refine
  imports SCP_Quorum SCP_Instance
begin

text \<open>
  What a slot of \<open>src/scp/Slot.cpp\<close> may do, as a step relation: the handlers are shown to be
  sequences of these steps, whatever they return, and what holds of a slot is then proved by induction
  on the steps.
\<close>

subsection \<open>Calls that refine a relation\<close>

text \<open>
  \<open>triple R P m Q\<close>: started where \<open>P\<close> holds, \<open>m\<close> moves the state along \<open>R\<close>, also when it ends with an
  exception, and a result satisfies \<open>Q\<close>.
\<close>

definition triple :: "('s \<Rightarrow> 's \<Rightarrow> bool) \<Rightarrow> ('s \<Rightarrow> bool) \<Rightarrow> ('s, 'a) call \<Rightarrow> ('a \<Rightarrow> 's \<Rightarrow> bool) \<Rightarrow> bool" where
  "triple R P m Q \<longleftrightarrow> (\<forall>s. P s \<longrightarrow> R\<^sup>*\<^sup>* s (snd (m s)) \<and> (\<forall>x. fst (m s) = Inr x \<longrightarrow> Q x (snd (m s))))"

definition stable :: "('s \<Rightarrow> 's \<Rightarrow> bool) \<Rightarrow> ('s \<Rightarrow> bool) \<Rightarrow> bool" where
  "stable R P \<longleftrightarrow> (\<forall>s s'. R s s' \<longrightarrow> P s \<longrightarrow> P s')"

lemma stable_star: "stable R P \<Longrightarrow> R\<^sup>*\<^sup>* s s' \<Longrightarrow> P s \<Longrightarrow> P s'"
  by (rotate_tac 1, induction rule: rtranclp_induct) (auto simp: stable_def)

lemma t_conseq: "triple R P m Q \<Longrightarrow> (\<And>s. P' s \<Longrightarrow> P s) \<Longrightarrow> (\<And>x s. Q x s \<Longrightarrow> Q' x s) \<Longrightarrow> triple R P' m Q'"
  by (auto simp: triple_def)

lemma t_pre: "triple R P m Q \<Longrightarrow> (\<And>s. P' s \<Longrightarrow> P s) \<Longrightarrow> triple R P' m Q"
  by (auto simp: triple_def)

lemma t_frame: "triple R P m Q \<Longrightarrow> stable R S \<Longrightarrow> triple R (\<lambda>s. P s \<and> S s) m (\<lambda>x s. Q x s \<and> S s)"
  by (auto simp: triple_def intro: stable_star)

lemma t_bind:
  assumes "triple R P m Q" and "\<And>x. triple R (Q x) (f x) T"
  shows "triple R P (bind m f) T"
  unfolding triple_def
proof (intro allI impI)
  fix s
  assume "P s"
  with assms(1) have m: "R\<^sup>*\<^sup>* s (snd (m s))" "\<And>x. fst (m s) = Inr x \<Longrightarrow> Q x (snd (m s))"
    by (auto simp: triple_def)
  show "R\<^sup>*\<^sup>* s (snd (bind m f s)) \<and> (\<forall>x. fst (bind m f s) = Inr x \<longrightarrow> T x (snd (bind m f s)))"
  proof (cases "m s")
    case (Pair r s')
    show ?thesis
    proof (cases r)
      case (Inl e)
      with Pair m show ?thesis
        by (simp add: bind_def)
    next
      case (Inr x)
      with Pair m have "R\<^sup>*\<^sup>* s s'" "Q x s'"
        by auto
      moreover have "bind m f s = f x s'"
        using Pair Inr by (simp add: bind_def)
      ultimately show ?thesis
        using assms(2) [of x] unfolding triple_def by (auto intro: rtranclp_trans)
    qed
  qed
qed

text \<open>The same with what is known before, when it is stable, still known after.\<close>

lemma t_seq:
  assumes "triple R P m (\<lambda>_ _. True)" and "stable R S" and "\<And>x. triple R S (f x) T" and "\<And>s. P' s \<Longrightarrow> P s \<and> S s"
  shows "triple R P' (bind m f) T"
  by (rule t_bind [of _ _ _ "\<lambda>_. S"])
    (use t_frame [OF assms(1,2)] assms(3,4) in \<open>auto simp: triple_def\<close>)

lemma t_ret: "triple R (\<lambda>s. True) (ret x) (\<lambda>y s. y = x)"
  by (simp add: triple_def ret_def)

lemma t_ret_any: "triple R P (ret x) (\<lambda>_ _. True)"
  by (simp add: triple_def ret_def)

lemma t_throw: "triple R P (throw e) Q"
  by (simp add: triple_def throw_def)

lemma t_reads: "triple R P (reads f) (\<lambda>x s. P s \<and> x = f s)"
  by (simp add: triple_def reads_def)

lemma t_modify: "(\<And>s. P s \<Longrightarrow> R s (f s)) \<Longrightarrow> triple R P (modify f) (\<lambda>_ _. True)"
  by (simp add: triple_def modify_def r_into_rtranclp)

lemma t_modify_post: "(\<And>s. P s \<Longrightarrow> R s (f s) \<and> Q (f s)) \<Longrightarrow> triple R P (modify f) (\<lambda>_. Q)"
  by (simp add: triple_def modify_def r_into_rtranclp)

lemma t_when: "(b \<Longrightarrow> triple R P m (\<lambda>_ _. True)) \<Longrightarrow> triple R P (when_do b m) (\<lambda>_ _. True)"
  by (simp add: when_do_def t_ret_any)

lemma t_if: "(b \<Longrightarrow> triple R P m Q) \<Longrightarrow> (\<not> b \<Longrightarrow> triple R P n Q) \<Longrightarrow> triple R P (if b then m else n) Q"
  by simp

lemma t_assert: "triple R P (scp_assert b) (\<lambda>_ s. P s \<and> b)"
  by (simp add: triple_def scp_assert_def ret_def throw_def)

lemma t_False: "triple R (\<lambda>s. False) m Q"
  by (simp add: triple_def)

lemma t_reach: "triple R P m Q \<Longrightarrow> P s \<Longrightarrow> m s = (r, s') \<Longrightarrow> R\<^sup>*\<^sup>* s s'"
  unfolding triple_def by force

subsection \<open>The steps of a slot\<close>

text \<open>
  \<open>A\<close> holds the statements received, with their nodes. A statement of the node itself is for the
  ballot it is committed to when it is a \<open>COMMITTED\<close> one.
\<close>

type_synonym Received = "(uint256 \<times> SCPStatement) set"

definition own_ok :: "Ctx \<Rightarrow> SCPStatement \<Rightarrow> bool" where
  "own_ok c s \<longleftrightarrow>
     st_type s = COMMITTED \<longrightarrow>
     sl_IsCommitted c \<and> st_ballot s = sl_Ballot c \<and> st_quorumSetHash s = ln_QSetHash (cx_local c)"

definition may :: "Received \<Rightarrow> Ctx \<Rightarrow> uint256 \<Rightarrow> SCPStatement \<Rightarrow> bool" where
  "may A c v s \<longleftrightarrow> st_slotIndex s = sl_SlotIndex c \<and> ((v, s) \<in> A \<or> v = cx_localID c \<and> own_ok c s)"

definition cb_ok :: "Ctx \<Rightarrow> Callback \<Rightarrow> bool" where
  "cb_ok c cb \<longleftrightarrow>
     (case cb of
        Emit e \<Rightarrow> en_nodeID e = cx_localID c \<and> st_slotIndex (en_statement e) = sl_SlotIndex c \<and> own_ok c (en_statement e)
      | Answer e \<Rightarrow> True)"

fun deferred_ok :: "Received \<Rightarrow> Ctx \<Rightarrow> Deferred \<Rightarrow> bool" where
  "deferred_ok A c (ValueCb cb v s) \<longleftrightarrow> cb_ok c cb \<and> may A c v s"
| "deferred_ok A c (BallotCb cb v s) \<longleftrightarrow> cb_ok c cb \<and> may A c v s \<and> st_type s = PREPARING"

text \<open>A transitive quorum of the local node that has committed to a value.\<close>

definition committed_by :: "Ctx \<Rightarrow> Value \<Rightarrow> uint256 \<Rightarrow> SCPStatement \<Rightarrow> bool" where
  "committed_by c x n s \<longleftrightarrow> (\<exists>(b, f) \<in> set (sl_Statements c). b_value b = x \<and> (n, s) \<in> set (f COMMITTED))"

definition committed_quorum :: "Ctx \<Rightarrow> Value \<Rightarrow> bool" where
  "committed_quorum c x \<longleftrightarrow>
     (\<exists>Q. (\<forall>n \<in> Q. \<exists>s q. committed_by c x n s \<and> qview (cx_nodes c) (KnownRef n) (st_quorumSetHash s) = Some q \<and> enough q Q) \<and>
       (\<exists>q. qview (cx_nodes c) LocalRef (ln_QSetHash (cx_local c)) = Some q \<and> enough q Q))"

inductive slot_step :: "Driver \<Rightarrow> Received \<Rightarrow> Ctx \<Rightarrow> Ctx \<Rightarrow> bool" for D A where
  bookkeeping: "slot_step D A c (c\<lparr>sl_InAdvanceSlot := i, sl_RunAdvanceSlot := r, cx_answers := as, cx_retrievals := rs\<rparr>)"
| lookup: "same_nodes (cx_nodes c) ns \<Longrightarrow> slot_step D A c (c\<lparr>cx_nodes := ns\<rparr>)"
| cache: "slot_step D A c (c\<lparr>cx_nodes := cacheQuorumSet (d_qsetHash D) (KnownRef v) q (cx_nodes c)\<rparr>)"
| visit: "slot_step D A c (c\<lparr>sl_Statements := touch b (sl_Statements c)\<rparr>)"
| heard: "\<not> sl_HeardFromQuorum c \<Longrightarrow>
    slot_step D A c (c\<lparr>sl_HeardFromQuorum := True, cx_heard := cx_heard c @ [sl_Ballot c]\<rparr>)"
| bump: "\<not> sl_IsCommitted c \<Longrightarrow> \<not> sl_IsExternalized c \<Longrightarrow>
    sl_IsPristine c \<or> compareBallots D (sl_SlotIndex c) b (sl_Ballot c) \<ge> 0 \<Longrightarrow>
    slot_step D A c (c\<lparr>sl_Ballot := b, sl_IsPristine := False, sl_HeardFromQuorum := False\<rparr>)"
| store: "may A c v s \<Longrightarrow> (st_type s = COMMITTED \<Longrightarrow> getNodeStatements v COMMITTED (sl_Statements c) = []) \<Longrightarrow>
    slot_step D A c (c\<lparr>sl_Statements := store_statement (st_ballot s) (st_type s) v s (sl_Statements c)\<rparr>)"
| postpone: "deferred_ok A c d \<Longrightarrow> slot_step D A c (c\<lparr>cx_deferred := cx_deferred c @ [d]\<rparr>)"
| resume: "set ds \<subseteq> set (cx_deferred c) \<Longrightarrow> slot_step D A c (c\<lparr>cx_deferred := ds\<rparr>)"
| emit: "cb_ok c (Emit e) \<Longrightarrow> slot_step D A c (c\<lparr>cx_emitted := cx_emitted c @ [e]\<rparr>)"
| commit: "\<not> sl_IsPristine c \<Longrightarrow> slot_step D A c (c\<lparr>sl_IsCommitted := True\<rparr>)"
| externalize: "sl_IsCommitted c \<Longrightarrow> \<not> sl_IsExternalized c \<Longrightarrow> committed_quorum c (b_value (sl_Ballot c)) \<Longrightarrow>
    slot_step D A c (c\<lparr>sl_IsExternalized := True, cx_externalized := cx_externalized c @ [b_value (sl_Ballot c)]\<rparr>)"

inductive_cases slot_stepE: "slot_step D A c c'"

subsection \<open>What stays\<close>

lemma cacheQuorumSet_local:
  "ln_nodeID (nd_local (cacheQuorumSet QH r q ns)) = ln_nodeID (nd_local ns)"
  "ln_QSetHash (nd_local (cacheQuorumSet QH r q ns)) = ln_QSetHash (nd_local ns)"
  "ln_QSet (nd_local (cacheQuorumSet QH r q ns)) = ln_QSet (nd_local ns)"
  by (auto simp: cacheQuorumSet_def Let_def set_cache_def get_ref_def getNode_def split: NodeRef.splits)

lemma stable_index: "stable (slot_step D A) (\<lambda>c. sl_SlotIndex c = i)"
  by (auto simp: stable_def elim: slot_stepE)

lemma stable_local: "stable (slot_step D A) (\<lambda>c. cx_localID c = v \<and> ln_QSetHash (cx_local c) = h)"
  by (auto simp: stable_def cacheQuorumSet_local same_nodes_def elim!: slot_stepE)

lemma stable_not_pristine: "stable (slot_step D A) (\<lambda>c. \<not> sl_IsPristine c)"
  by (auto simp: stable_def elim!: slot_stepE)

lemma stable_committed: "stable (slot_step D A) (\<lambda>c. sl_IsCommitted c \<and> sl_Ballot c = b)"
  by (auto simp: stable_def elim!: slot_stepE)

lemma stable_conj: "stable R P \<Longrightarrow> stable R Q \<Longrightarrow> stable R (\<lambda>s. P s \<and> Q s)"
  by (auto simp: stable_def)

lemma step_local:
  assumes "slot_step D A c c'"
  shows "sl_SlotIndex c' = sl_SlotIndex c" "cx_localID c' = cx_localID c"
    "ln_QSetHash (cx_local c') = ln_QSetHash (cx_local c)"
    "sl_IsCommitted c \<Longrightarrow> sl_IsCommitted c' \<and> sl_Ballot c' = sl_Ballot c"
  using assms stable_index stable_local stable_committed unfolding stable_def by blast+

lemma stable_own_ok: "stable (slot_step D A) (\<lambda>c. own_ok c s)"
  using step_local unfolding stable_def own_ok_def by metis

lemma stable_may: "stable (slot_step D A) (\<lambda>c. may A c v s)"
  using step_local stable_own_ok unfolding stable_def may_def by metis

lemma stable_cb_ok: "stable (slot_step D A) (\<lambda>c. cb_ok c cb)"
proof (cases cb)
  case (Emit e)
  then show ?thesis
    using stable_own_ok [of D A "en_statement e"] by (auto simp: stable_def cb_ok_def step_local)
qed (simp add: stable_def cb_ok_def)

subsection \<open>The handlers take steps\<close>

lemma step_bookkeeping:
  "slot_step D A c (c\<lparr>sl_RunAdvanceSlot := r\<rparr>)"
  "slot_step D A c (c\<lparr>sl_InAdvanceSlot := i\<rparr>)"
  "slot_step D A c (c\<lparr>cx_answers := as\<rparr>)"
  "slot_step D A c (c\<lparr>cx_retrievals := rs\<rparr>)"
  using
    slot_step.bookkeeping [of D A c rs "cx_answers c" "sl_RunAdvanceSlot c" "sl_InAdvanceSlot c"]
    slot_step.bookkeeping [of D A c "cx_retrievals c" as "sl_RunAdvanceSlot c" "sl_InAdvanceSlot c"]
    slot_step.bookkeeping [of D A c "cx_retrievals c" "cx_answers c" r "sl_InAdvanceSlot c"]
    slot_step.bookkeeping [of D A c "cx_retrievals c" "cx_answers c" "sl_RunAdvanceSlot c" i]
  by simp_all

lemma t_flag: "triple (slot_step D A) P reenter (\<lambda>_ _. True)"
  unfolding reenter_def by (intro t_modify step_bookkeeping)

lemma t_stmts: "triple (slot_step D A) P (stmts b t) (\<lambda>_ _. True)"
  unfolding triple_def stmts_def by (auto intro: slot_step.visit)

lemma t_local_has: "triple (slot_step D A) P (local_has b t) (\<lambda>_ _. True)"
  unfolding local_has_def by (rule t_bind [OF t_stmts]) (rule t_conseq [OF t_reads], auto)

lemma t_on_nodes: "(\<And>ns. same_nodes ns (snd (m ns))) \<Longrightarrow> triple (slot_step D A) P (on_nodes m) (\<lambda>_ _. True)"
  unfolding triple_def on_nodes_def
  by (auto simp: Let_def split: prod.splits intro!: r_into_rtranclp slot_step.lookup) (metis snd_conv)

lemma isVBlocking_map_same: "same_nodes ns (snd (isVBlocking_map r h m f ns))"
  unfolding isVBlocking_map_def by (rule isVBlocking_same)

lemma bind_same:
  assumes "\<And>ns. same_nodes ns (snd (m ns))" and "\<And>x ns. same_nodes ns (snd (f x ns))"
  shows "same_nodes ns (snd (bind m f ns))"
  using assms(1) [of ns] assms(2) by (auto simp: bind_def split: prod.splits sum.splits intro: same_nodes_trans)

lemma excepted_aborted_same: "same_nodes ns (snd (excepted_aborted D i x m v h bs ns))"
  by (induction bs arbitrary: ns) (auto simp: ret_def intro!: bind_same isVBlocking_map_same)

lemma ratifyFilter_same: "same_nodes ns (snd (ratifyFilter D i x m v s ns))"
  unfolding ratifyFilter_def by (cases "st_pledges s") (simp_all add: excepted_aborted_same ret_def)

lemma any_node_same: "same_nodes ns (snd (any_node n s ns))"
  by (simp add: any_node_def ret_def)

lemma isQuorumTransitive_same:
  assumes "\<And>n s ns. same_nodes ns (snd (f n s ns))"
  shows "same_nodes ns (snd (isQuorumTransitive r h m f ns))"
  unfolding isQuorumTransitive_def
  by (intro bind_same quorum_loop_same hasQuorum_same filter_do_same) (auto simp: assms split: prod.splits)

lemma t_local_quorum:
  assumes "\<And>n s ns. same_nodes ns (snd (f n s ns))"
  shows "triple (slot_step D A) P (local_quorum m f) (\<lambda>_ _. True)"
  unfolding local_quorum_def
  by (rule t_bind [OF t_reads]) (intro t_on_nodes isQuorumTransitive_same assms)

lemma t_local_quorum_keeps:
  assumes "\<And>n s ns. same_nodes ns (snd (f n s ns))" and "\<And>c ns. P c \<Longrightarrow> P (c\<lparr>cx_nodes := ns\<rparr>)"
  shows "triple (slot_step D A) P (local_quorum m f) (\<lambda>_. P)"
  using t_local_quorum [OF assms(1), of D A P m] assms(2) unfolding triple_def
  by (auto simp: local_quorum_def bind_def reads_def on_nodes_def split: prod.splits)

lemma t_isPrepared: "triple (slot_step D A) P (isPrepared D b) (\<lambda>_ _. True)"
  unfolding isPrepared_def
  apply (rule t_bind [OF t_local_has])
  subgoal for emitted
    apply (cases emitted; simp add: t_ret_any)
    apply (rule t_bind [OF t_stmts], rule t_bind [OF t_reads])
    apply (rule t_bind [OF t_on_nodes [OF isVBlocking_map_same]])
    subgoal for m h blocked
      apply (cases blocked; simp add: t_ret_any)
      apply (rule t_bind [OF t_stmts], rule t_bind [OF t_reads])
      by (rule t_local_quorum [OF ratifyFilter_same])
    done
  done

lemma t_reached:
  "triple (slot_step D A) P (isPreparedConfirmed b) (\<lambda>_ _. True)"
  "triple (slot_step D A) P (isCommitted b) (\<lambda>_ _. True)"
  unfolding isPreparedConfirmed_def isCommitted_def
  by (rule t_bind [OF t_local_has],
      simp add: t_ret_any t_bind [OF t_stmts] t_local_quorum [OF any_node_same])+

lemma t_run_cb: "triple (slot_step D A) (\<lambda>c. cb_ok c cb) (run_cb cb st) (\<lambda>_ _. True)"
proof (cases cb)
  case (Emit e)
  then show ?thesis
    by (auto simp: run_cb_def intro!: t_when t_modify slot_step.emit)
next
  case (Answer e)
  then show ?thesis
    by (auto simp: run_cb_def intro!: t_modify step_bookkeeping)
qed

lemma t_bumpToBallot: "triple (slot_step D A) P (bumpToBallot D b) (\<lambda>_ c. \<not> sl_IsPristine c)"
  unfolding bumpToBallot_def
  by (rule t_bind [OF t_reads], rule t_bind [OF t_assert], rule t_modify_post) (auto intro!: slot_step.bump)

lemma t_defer: "triple (slot_step D A) (\<lambda>c. deferred_ok A c d) (defer_cb d) (\<lambda>_ _. True)"
  unfolding defer_cb_def by (intro t_modify slot_step.postpone)

lemma t_store:
  "triple (slot_step D A)
     (\<lambda>c. may A c v s \<and> (st_type s = COMMITTED \<longrightarrow> getNodeStatements v COMMITTED (sl_Statements c) = []))
     (set_statement (st_ballot s) (st_type s) v s) (\<lambda>_ _. True)"
  unfolding set_statement_def by (intro t_modify slot_step.store) auto

lemma t_store_and_advance:
  assumes "triple (slot_step D A) (\<lambda>_. True) adv (\<lambda>_ _. True)"
  shows "triple (slot_step D A)
     (\<lambda>c. may A c v s \<and> (st_type s = COMMITTED \<longrightarrow> getNodeStatements v COMMITTED (sl_Statements c) = []))
     (store_and_advance adv v s) (\<lambda>_ _. True)"
  unfolding store_and_advance_def by (rule t_bind [OF t_store assms])

lemma stable_cb_may: "stable (slot_step D A) (\<lambda>c. cb_ok c cb \<and> may A c v s)"
  by (intro stable_conj stable_cb_ok stable_may)

lemma t_ballot_cb:
  assumes "triple (slot_step D A) (\<lambda>_. True) adv (\<lambda>_ _. True)" and "st_type s = PREPARING"
  shows "triple (slot_step D A) (\<lambda>c. cb_ok c cb \<and> may A c v s) (ballot_cb D adv cb v s valid) (\<lambda>_ _. True)"
proof (cases valid)
  case True
  show ?thesis
    unfolding ballot_cb_def using True
    apply simp
    apply (rule t_bind [OF t_reads])
    apply (rule t_seq [of _ "\<lambda>_. True" _ "\<lambda>c. may A c v s"])
       apply (rule t_when, rule t_conseq [OF t_bumpToBallot], simp, simp)
      apply (rule stable_may)
     apply (rule t_bind [OF t_pre [OF t_store]])
      apply (simp add: assms(2))
     apply (rule assms(1))
    apply simp
    done
qed (simp add: ballot_cb_def, rule t_pre [OF t_run_cb], simp)

lemma t_value_cb:
  assumes adv: "triple (slot_step D A) (\<lambda>_. True) adv (\<lambda>_ _. True)"
  shows "triple (slot_step D A) (\<lambda>c. cb_ok c cb \<and> may A c v s) (value_cb D adv cb v s valid) (\<lambda>_ _. True)"
proof -
  let ?P = "\<lambda>c. cb_ok c cb \<and> may A c v s"
  let ?t = "triple (slot_step D A)"
  have answer: "?t ?P (run_cb cb st) (\<lambda>_ _. True)" for st
    by (rule t_pre [OF t_run_cb]) simp
  have keep: "?t P (bind m (\<lambda>_. run_cb cb st)) (\<lambda>_ _. True)"
    if "?t P m (\<lambda>_ _. True)" "\<And>c. P c \<Longrightarrow> ?P c" for P m st
    by (rule t_seq [OF that(1) stable_cb_may answer]) (use that(2) in blast)
  have ballot: "?t (\<lambda>c. ?P c \<and> c0 = c)
      (case d_validateBallot D (sl_SlotIndex c0) v (st_ballot s) of
         Some ok \<Rightarrow> ballot_cb D adv cb v s ok | None \<Rightarrow> defer_cb (BallotCb cb v s)) (\<lambda>_ _. True)"
    if "st_type s = PREPARING" for c0
    using that by (auto split: option.split intro: t_pre [OF t_defer] t_pre [OF t_ballot_cb [OF adv]])
  have put: "?t (\<lambda>c. ?P c \<and> c0 = c) (store_and_advance adv v s) (\<lambda>_ _. True)"
    if "st_type s = COMMITTED \<Longrightarrow> getNodeStatements v COMMITTED (sl_Statements c0) = []" for c0
    by (rule t_pre [OF t_store_and_advance [OF adv]]) (use that in auto)
  have resend: "?t (\<lambda>c. ?P c \<and> c0 = c)
      (when_do (sl_IsCommitted c0)
        (modify (\<lambda>c. c\<lparr>cx_emitted := cx_emitted c @ [createEnvelope D (createStatement COMMITTED c) c]\<rparr>))) (\<lambda>_ _. True)"
    for c0
    by (intro t_when t_modify slot_step.emit)
      (auto simp: cb_ok_def createEnvelope_def createStatement_def own_ok_def)
  show ?thesis
  proof (cases valid)
    case True
    have answer_now: "?t (\<lambda>c. ?P c \<and> c0 = c) (run_cb cb st) (\<lambda>_ _. True)" for c0 st
      by (rule t_pre [OF answer]) simp
    show ?thesis
      unfolding value_cb_def Let_def if_not_P [OF iffD2 [OF not_not True]]
      by (rule t_bind [OF t_reads], intro t_if answer_now keep ballot put resend) auto
  qed (simp add: value_cb_def answer)
qed

lemma t_processEnvelope:
  assumes "triple (slot_step D A) (\<lambda>_. True) adv (\<lambda>_ _. True)"
  shows "triple (slot_step D A)
    (\<lambda>c. cb_ok c cb \<and> ((en_nodeID e, en_statement e) \<in> A \<or> en_nodeID e = cx_localID c \<and> own_ok c (en_statement e)))
    (processEnvelope D adv cb e) (\<lambda>_ _. True)"
  unfolding processEnvelope_def
  by (rule t_bind [OF t_reads], rule t_bind [OF t_assert])
    (auto split: option.split intro!: t_pre [OF t_defer] t_pre [OF t_value_cb [OF assms]] simp: may_def)

lemma t_own_envelope:
  "triple (slot_step D A) (\<lambda>c. st_slotIndex s = sl_SlotIndex c \<and> own_ok c s) (own_envelope D s) (\<lambda>_ _. True)"
  unfolding own_envelope_def
  by (rule t_bind [OF t_reads], rule t_pre [OF t_processEnvelope [OF t_flag]])
    (auto simp: cb_ok_def createEnvelope_def)

lemma own_ok_plain: "st_type s \<noteq> COMMITTED \<Longrightarrow> own_ok c s"
  by (simp add: own_ok_def)

lemma createStatement_type: "st_type (createStatement t c) = t"
  by (cases t) (simp_all add: createStatement_def plain_statement_def st_type_def)

lemma t_own_read:
  assumes "\<And>c. P c \<Longrightarrow> st_slotIndex (g c) = sl_SlotIndex c \<and> st_type (g c) \<noteq> COMMITTED"
  shows "triple (slot_step D A) P (bind (reads g) (own_envelope D)) (\<lambda>_ _. True)"
  by (rule t_bind [OF t_reads], rule t_pre [OF t_own_envelope]) (use assms in \<open>auto simp: own_ok_plain\<close>)

lemma t_attempts:
  "triple (slot_step D A) P (attemptPreparing D) (\<lambda>_ _. True)"
  "triple (slot_step D A) P (attemptPrepared D b) (\<lambda>_ _. True)"
  "triple (slot_step D A) P (attemptCommitting D) (\<lambda>_ _. True)"
  unfolding attemptPreparing_def attemptPrepared_def attemptCommitting_def
  by (intro t_bind [OF t_reads] t_bind [OF t_local_has] t_when t_own_read;
      simp add: preparing_statement_def Let_def createStatement_def plain_statement_def st_type_def)+

lemma t_attemptCommitted: "triple (slot_step D A) (\<lambda>c. \<not> sl_IsPristine c) (attemptCommitted D) (\<lambda>_ _. True)"
  unfolding attemptCommitted_def
  apply (rule t_bind [OF t_reads])
  apply (rule t_seq [OF t_local_has stable_not_pristine])
   apply (rule t_when, rule t_bind [OF t_reads])
  subgoal for b emitted s
    by (rule t_bind [OF t_modify_post [of _ _ _ "\<lambda>c. st_slotIndex s = sl_SlotIndex c \<and> own_ok c s"] t_own_envelope])
      (auto intro: slot_step.commit simp: own_ok_def createStatement_def)
  by simp

lemma committed_statements_by:
  "(n, s) \<in> set (committed_statements x m) \<Longrightarrow> \<exists>(b, f) \<in> set m. b_value b = x \<and> (n, s) \<in> set (f COMMITTED)"
proof -
  have inner: "set (fold (\<lambda>(n, s). om_update n s) l acc) \<subseteq> set l \<union> set acc" for l acc :: StatementMap
  proof (induction l arbitrary: acc)
    case (Cons p l)
    from Cons.IH [of "om_update (fst p) (snd p) acc"] set_om_update [of "fst p" "snd p" acc] show ?case
      by (cases p) auto
  qed simp
  have outer: "set (fold (\<lambda>(b, f) acc. if b_value b = x then fold (\<lambda>(n, s). om_update n s) (f COMMITTED) acc else acc) m acc)
      \<subseteq> {(n, s). \<exists>(b, f) \<in> set m. b_value b = x \<and> (n, s) \<in> set (f COMMITTED)} \<union> set acc" for acc
  proof (induction m arbitrary: acc)
    case (Cons p m)
    let ?acc = "if b_value (fst p) = x then fold (\<lambda>(n, s). om_update n s) (snd p COMMITTED) acc else acc"
    have "set ?acc \<subseteq> (if b_value (fst p) = x then set (snd p COMMITTED) else {}) \<union> set acc"
      using inner [of "snd p COMMITTED" acc] by auto
    with Cons.IH [of ?acc] show ?case
      by (cases p) (auto split: if_splits)
  qed simp
  assume "(n, s) \<in> set (committed_statements x m)"
  then show ?thesis
    using outer [of "[]"] unfolding committed_statements_def by auto
qed

lemma committed_quorum_evidence:
  assumes "isQuorumTransitive LocalRef (ln_QSetHash (cx_local c)) (committed_statements x (sl_Statements c)) any_node (cx_nodes c) =
    (Inr True, ns)"
  shows "committed_quorum (c\<lparr>cx_nodes := ns\<rparr>) x"
proof -
  let ?m = "committed_statements x (sl_Statements c)"
  from isQuorumTransitive_evidence [OF assms any_node_same] obtain Q q where
    same: "same_nodes (cx_nodes c) ns" and
    Q: "Q \<subseteq> fst ` set ?m" "closed (slice_ok (cx_nodes c) ?m) Q" and
    q: "qview (cx_nodes c) LocalRef (ln_QSetHash (cx_local c)) = Some q" "enough q Q"
    by blast
  have "\<exists>s q. committed_by (c\<lparr>cx_nodes := ns\<rparr>) x n s \<and> qview ns (KnownRef n) (st_quorumSetHash s) = Some q \<and> enough q Q"
    if "n \<in> Q" for n
  proof -
    from that Q(1) obtain s where s: "map_of ?m n = Some s"
      by (metis (no_types, lifting) domIff dom_map_of_conv_image_fst not_None_eq subsetD)
    from committed_statements_by [OF map_of_SomeD [OF s]] have "committed_by (c\<lparr>cx_nodes := ns\<rparr>) x n s"
      by (simp add: committed_by_def)
    moreover have "\<exists>q. qview (cx_nodes c) (KnownRef n) (st_quorumSetHash s) = Some q \<and> enough q Q"
      using Q(2) that s by (force simp: closed_def slice_ok_def statement_qset_def)
    ultimately show ?thesis
      using same by (auto simp: same_nodes_def)
  qed
  with q same show ?thesis
    unfolding committed_quorum_def by (auto simp: same_nodes_def)
qed

lemma t_isCommittedConfirmed:
  "triple (slot_step D A) (\<lambda>c. sl_IsCommitted c = k \<and> b_value (sl_Ballot c) = y) (isCommittedConfirmed x)
     (\<lambda>b c. (b \<longrightarrow> committed_quorum c x) \<and> sl_IsCommitted c = k \<and> b_value (sl_Ballot c) = y)"
  unfolding triple_def
proof (intro allI impI conjI)
  fix c :: Ctx
  assume P: "sl_IsCommitted c = k \<and> b_value (sl_Ballot c) = y"
  let ?m = "committed_statements x (sl_Statements c)"
  obtain r ns where q: "isQuorumTransitive LocalRef (ln_QSetHash (cx_local c)) ?m any_node (cx_nodes c) = (r, ns)"
    by (cases "isQuorumTransitive LocalRef (ln_QSetHash (cx_local c)) ?m any_node (cx_nodes c)")
  then have run: "isCommittedConfirmed x c = (r, c\<lparr>cx_nodes := ns\<rparr>)"
    by (simp add: isCommittedConfirmed_def local_quorum_def bind_def reads_def on_nodes_def)
  have "same_nodes (cx_nodes c) ns"
    using isQuorumTransitive_same [of any_node "cx_nodes c", OF any_node_same] q by (metis snd_conv)
  then show "(slot_step D A)\<^sup>*\<^sup>* c (snd (isCommittedConfirmed x c))"
    by (auto simp: run intro: slot_step.lookup)
  fix b
  assume b: "fst (isCommittedConfirmed x c) = Inr b"
  show "b \<Longrightarrow> committed_quorum (snd (isCommittedConfirmed x c)) x"
    using committed_quorum_evidence [of c x ns] q b by (simp add: run)
  show "sl_IsCommitted (snd (isCommittedConfirmed x c)) = k" "b_value (sl_Ballot (snd (isCommittedConfirmed x c))) = y"
    using P by (simp_all add: run)
qed

lemma t_attemptExternalize:
  "triple (slot_step D A) (\<lambda>c. committed_quorum c (b_value (sl_Ballot c)) \<and> sl_IsCommitted c) attemptExternalize (\<lambda>_ _. True)"
proof -
  have "slot_step D A c (if sl_IsExternalized c then c
      else c\<lparr>sl_IsExternalized := True, cx_externalized := cx_externalized c @ [b_value (sl_Ballot c)]\<rparr>)"
    if "committed_quorum c (b_value (sl_Ballot c))" "sl_IsCommitted c" for c
    using that slot_step.externalize [of c D A] slot_step.lookup [of c "cx_nodes c" D A] by simp
  then show ?thesis
    unfolding attemptExternalize_def by (intro t_modify) blast
qed

lemma t_advance_current: "triple (slot_step D A) P (advance_current D) (\<lambda>_ _. True)"
proof -
  let ?t = "triple (slot_step D A)"
  let ?np = "\<lambda>c. \<not> sl_IsPristine c"
  note np = stable_not_pristine [of D A]
  have read: "?t P (bind (reads f) g) (\<lambda>_ _. True)" if "\<And>x. ?t (\<lambda>_. True) (g x) (\<lambda>_ _. True)" for P f g
    by (rule t_bind [OF t_reads], rule t_pre [OF that]) simp
  have committing: "?t ?np (bind (attemptCommitting D) (\<lambda>_. bind (bind (reads sl_Ballot) isCommitted) (\<lambda>cm.
      when_do cm (attemptCommitted D)))) (\<lambda>_ _. True)"
    by (rule t_seq [OF t_attempts(3) np]; (rule t_seq [OF read [OF t_reached(2)] np])?)
      (simp_all add: t_when t_attemptCommitted)
  have ballot: "?t ?np (bind (attemptPreparing D) (\<lambda>_. bind (bind (reads sl_Ballot) (isPrepared D)) (\<lambda>p.
      bind (when_do p (bind (reads sl_Ballot) (attemptPrepared D))) (\<lambda>_.
      bind (bind (reads sl_Ballot) isPreparedConfirmed) (\<lambda>pc.
      when_do pc (bind (attemptCommitting D) (\<lambda>_. bind (bind (reads sl_Ballot) isCommitted) (\<lambda>cm.
      when_do cm (attemptCommitted D)))))))) ) (\<lambda>_ _. True)"
    apply (rule t_seq [OF t_attempts(1) np], rule t_seq [OF read [OF t_isPrepared] np])
       apply (rule t_seq [OF t_when [OF read [OF t_attempts(2)]] np], rule t_seq [OF read [OF t_reached(1)] np])
         apply (rule t_when [OF committing])
        apply simp_all
    done
  have ext: "?t (\<lambda>c. sl_IsCommitted c)
      (bind (bind (reads (\<lambda>c. b_value (sl_Ballot c))) isCommittedConfirmed) (\<lambda>cc. when_do cc attemptExternalize)) (\<lambda>_ _. True)"
  proof (rule t_bind)
    show "?t sl_IsCommitted (bind (reads (\<lambda>c. b_value (sl_Ballot c))) isCommittedConfirmed)
        (\<lambda>b c. b \<longrightarrow> committed_quorum c (b_value (sl_Ballot c)) \<and> sl_IsCommitted c)"
      by (rule t_bind [OF t_reads], rule t_conseq [OF t_isCommittedConfirmed [where k = True]]) auto
    show "?t (\<lambda>c. b \<longrightarrow> committed_quorum c (b_value (sl_Ballot c)) \<and> sl_IsCommitted c)
        (when_do b attemptExternalize) (\<lambda>_ _. True)" for b
      by (cases b) (simp_all add: when_do_def t_attemptExternalize t_ret_any)
  qed
  show ?thesis
    unfolding advance_current_def
    by (rule t_bind [OF t_reads], intro t_if t_ret_any t_pre [OF ballot] t_pre [OF ext]) auto
qed

lemma t_try_externalize: "triple (slot_step D A) P (try_externalize D b) (\<lambda>_ _. True)"
proof -
  have c: "triple (slot_step D A) (\<lambda>_. True) (isCommittedConfirmed x) (\<lambda>_ _. True)" for x
    using t_isCommittedConfirmed [of D A] unfolding triple_def by blast
  show ?thesis
    unfolding try_externalize_def
    by (rule t_bind [OF t_pre [OF c]]) (auto intro!: t_when t_bind [OF t_reads] t_bind [OF t_bumpToBallot t_attemptCommitted])
qed

lemma t_try_prepared: "triple (slot_step D A) P (try_prepared D b) (\<lambda>_ _. True)"
  unfolding try_prepared_def
  by (intro t_bind [OF t_isPrepared] t_when t_bind [OF t_reads] t_if t_bind [OF t_bumpToBallot t_flag] t_attempts)

lemma t_try_bumping: "triple (slot_step D A) P (try_bumping D bs) (\<lambda>_ _. True)"
proof (induction bs arbitrary: P)
  case (Cons b bs)
  show ?case
    unfolding try_bumping.simps
    by (intro t_bind [OF t_reads] t_if t_ret_any t_bind [OF t_try_externalize] t_bind [OF t_try_prepared] Cons.IH)
qed (simp add: t_ret_any)

lemma t_check_heard: "triple (slot_step D A) P check_heard (\<lambda>_ _. True)"
proof -
  have q: "triple (slot_step D A) (\<lambda>c. \<not> sl_HeardFromQuorum c)
      (bind (reads (\<lambda>c. all_statements (sl_Ballot c) (sl_Statements c))) (\<lambda>m. local_quorum m any_node))
      (\<lambda>_ c. \<not> sl_HeardFromQuorum c)"
    by (rule t_bind [OF t_reads], rule t_pre [OF t_local_quorum_keeps [OF any_node_same]]) auto
  show ?thesis
    unfolding check_heard_def
    apply (rule t_bind [OF t_reads])
    subgoal for h
      by (rule t_when, rule t_bind [OF t_modify_post [of _ _ _ "\<lambda>c. \<not> sl_HeardFromQuorum c"]],
          auto intro!: slot_step.visit t_bind [OF q] t_when t_modify slot_step.heard)
    done
qed

lemma t_advance_body: "triple (slot_step D A) P (advance_body D) (\<lambda>_ _. True)"
  unfolding advance_body_def
  by (intro t_bind [OF t_advance_current] t_bind [OF t_reads] t_bind [OF t_try_bumping] t_check_heard)

lemma t_qset_cb:
  assumes "triple (slot_step D A) (\<lambda>_. True) adv (\<lambda>_ _. True)"
  shows "triple (slot_step D A) P (qset_cb D adv v h q) (\<lambda>_ _. True)"
  unfolding qset_cb_def by (intro t_when t_bind [OF t_modify assms] slot_step.cache)

lemma t_ask_qset: "triple (slot_step D A) P (ask_qset D v h) (\<lambda>_ _. True)"
  unfolding ask_qset_def by (auto split: option.split intro!: t_qset_cb t_flag t_modify step_bookkeeping)

lemma t_catch_missing:
  assumes "triple (slot_step D A) P m (\<lambda>_ _. True)"
  shows "triple (slot_step D A) P (catch_missing D m) (\<lambda>_ _. True)"
  unfolding triple_def
proof (intro allI impI conjI)
  fix c
  assume "P c"
  with assms have m: "(slot_step D A)\<^sup>*\<^sup>* c (snd (m c))"
    by (simp add: triple_def)
  show "(slot_step D A)\<^sup>*\<^sup>* c (snd (catch_missing D m c))"
    using m t_ask_qset [of D A "\<lambda>_. True"] unfolding triple_def catch_missing_def
    by (auto split: prod.split sum.split scp_exn.split intro: rtranclp_trans)
qed simp

lemma t_advanceSlot: "triple (slot_step D A) P (advanceSlot D fuel) (\<lambda>_ _. True)"
proof (induction fuel arbitrary: P)
  case (Suc fuel)
  show ?case
    unfolding advanceSlot.simps
    by (intro t_bind [OF t_reads] t_if t_flag t_bind [OF t_modify] t_bind [OF t_catch_missing [OF t_advance_body]] t_when
        step_bookkeeping Suc.IH)
qed (auto intro!: t_bind [OF t_reads] t_if t_flag t_throw)

lemma t_slot_prepareValue: "triple (slot_step D A) P (slot_prepareValue D fuel x forceBump) (\<lambda>_ _. True)"
  unfolding slot_prepareValue_def
  by (intro t_bind [OF t_reads] t_if t_ret_any t_bind [OF t_bumpToBallot] t_bind [OF t_advanceSlot])

lemma t_run_deferred: "triple (slot_step D A) (\<lambda>c. deferred_ok A c d) (run_deferred D fuel d valid) (\<lambda>_ _. True)"
proof (cases d)
  case (ValueCb cb v s)
  show ?thesis
    unfolding run_deferred_def ValueCb by (simp add: t_value_cb [OF t_advanceSlot])
next
  case (BallotCb cb v s)
  show ?thesis
  proof (cases "st_type s = PREPARING")
    case True
    show ?thesis
      unfolding run_deferred_def BallotCb by (simp add: t_ballot_cb [OF t_advanceSlot] True)
  qed (simp add: BallotCb triple_def)
qed

end
