(* ===== verification/SCP_Agreement.thy ===== *)
theory SCP_Agreement
  imports SCP_Refine
begin

text \<open>
  A network of nodes that run \<open>src/scp\<close>, some of which are honest: two honest nodes never
  externalise different values for a slot, provided that any two quorums of honest nodes share an
  honest node.
\<close>

subsection \<open>The invariant of a slot\<close>

text \<open>The caches hold quorum sets under their own hashes, and the local node stays the one it is.\<close>

definition nodes_ok :: "(SCPQuorumSet \<Rightarrow> Hash) \<Rightarrow> uint256 \<Rightarrow> Hash \<Rightarrow> Nodes \<Rightarrow> bool" where
  "nodes_ok QH v h ns \<longleftrightarrow>
     ln_nodeID (nd_local ns) = v \<and> ln_QSetHash (nd_local ns) = h \<and> (\<forall>r k q. qview ns r k = Some q \<longrightarrow> QH q = k)"

text \<open>A quorum that has committed to a value, each node of it by a statement that may be relied on.\<close>

definition committed_evidence :: "(SCPQuorumSet \<Rightarrow> Hash) \<Rightarrow> Received \<Rightarrow> Ctx \<Rightarrow> Value \<Rightarrow> bool" where
  "committed_evidence QH A c x \<longleftrightarrow>
     (\<exists>Q. (\<forall>n \<in> Q. \<exists>s q. may A c n s \<and> st_type s = COMMITTED \<and> b_value (st_ballot s) = x \<and>
              QH q = st_quorumSetHash s \<and> enough q Q) \<and>
          (\<exists>q. QH q = ln_QSetHash (cx_local c) \<and> enough q Q))"

definition stored :: "Ctx \<Rightarrow> SCPBallot \<Rightarrow> SCPStatementType \<Rightarrow> uint256 \<Rightarrow> SCPStatement \<Rightarrow> bool" where
  "stored c b t n s \<longleftrightarrow> (\<exists>f. (b, f) \<in> set (sl_Statements c) \<and> (n, s) \<in> set (f t))"

definition slot_ok :: "(SCPQuorumSet \<Rightarrow> Hash) \<Rightarrow> Received \<Rightarrow> Ctx \<Rightarrow> bool" where
  "slot_ok QH A c \<longleftrightarrow>
     (\<forall>b t n s. stored c b t n s \<longrightarrow> st_ballot s = b \<and> st_type s = t \<and> may A c n s) \<and>
     (\<forall>d \<in> set (cx_deferred c). deferred_ok A c d) \<and>
     (\<forall>e \<in> set (cx_emitted c). cb_ok c (Emit e)) \<and>
     (sl_IsExternalized c \<longrightarrow> sl_IsCommitted c \<and> committed_evidence QH A c (b_value (sl_Ballot c))) \<and>
     cx_externalized c = (if sl_IsExternalized c then [b_value (sl_Ballot c)] else [])"

lemma stored_touch: "stored (c\<lparr>sl_Statements := touch b (sl_Statements c)\<rparr>) b' t n s \<Longrightarrow> stored c b' t n s"
  unfolding stored_def touch_def
  using set_om_update [of b no_statements "sl_Statements c"]
  by (auto split: if_splits simp: no_statements_def)

lemma stored_store:
  assumes "stored (c\<lparr>sl_Statements := store_statement b t v s (sl_Statements c)\<rparr>) b' t' n s'"
  shows "stored c b' t' n s' \<or> b' = b \<and> t' = t \<and> n = v \<and> s' = s"
proof -
  let ?f = "case map_of (sl_Statements c) b of None \<Rightarrow> no_statements | Some f \<Rightarrow> f"
  from assms obtain g where g: "(b', g) \<in> set (om_update b (?f(t := om_update v s (?f t))) (sl_Statements c))" "(n, s') \<in> set (g t')"
    by (auto simp: stored_def store_statement_def Let_def)
  then consider "(b', g) \<in> set (sl_Statements c)" | "b' = b" "g = ?f(t := om_update v s (?f t))"
    using set_om_update by fastforce
  then show ?thesis
  proof cases
    case 1
    with g show ?thesis
      by (auto simp: stored_def)
  next
    case 2
    with g have "(n, s') \<in> set (?f t') \<or> t' = t \<and> n = v \<and> s' = s"
      using set_om_update [of v s "?f t"] by (auto split: if_splits)
    with 2 show ?thesis
      by (auto simp: stored_def no_statements_def split: option.splits dest: map_of_SomeD)
  qed
qed

lemma node_cache_set_cache:
  "node_cache r' (set_cache r c ns) = node_cache r' ns \<or>
   node_cache r' (set_cache r c ns) = c \<and> node_cache r' ns = node_cache r ns"
  by (cases r; cases r') (auto simp: node_cache_def set_cache_def split: option.splits Node.splits)

lemma map_of_lru_put: "map_of (lru_put k q c) h = Some q' \<Longrightarrow> map_of c h = Some q' \<or> h = k \<and> q' = q"
proof -
  assume a: "map_of (lru_put k q c) h = Some q'"
  have "map_of (take n l) h = Some q' \<Longrightarrow> map_of l h = Some q'" for n and l :: Cache
    by (induction l arbitrary: n) (auto simp: take_Cons split: nat.splits if_splits)
  from this [OF a [unfolded lru_put_def]] show ?thesis
    by (auto split: if_splits simp: map_of_other_keys)
qed

lemma qview_cacheQuorumSet:
  assumes "qview (cacheQuorumSet QH r q ns) r' h = Some q'"
  shows "qview ns r' h = Some q' \<or> h = QH q \<and> q' = q"
proof -
  let ?ns = "get_ref r ns"
  let ?c = "lru_put (QH q) q (node_cache r ?ns)"
  have view: "map_of (node_cache r'' ?ns) h = qview ns r'' h" for r''
    using same_nodes_get_ref [of ns r] by (simp add: same_nodes_def qview_def fun_eq_iff)
  have get: "map_of (node_cache r' (set_cache r ?c ?ns)) h = Some q'"
    using assms by (simp add: qview_def cacheQuorumSet_def Let_def)
  from node_cache_set_cache [of r' r ?c ?ns] show ?thesis
  proof
    assume "node_cache r' (set_cache r ?c ?ns) = node_cache r' ?ns"
    with get view [of r'] show ?thesis
      by simp
  next
    assume "node_cache r' (set_cache r ?c ?ns) = ?c \<and> node_cache r' ?ns = node_cache r ?ns"
    with get have "map_of (node_cache r' ?ns) h = Some q' \<or> h = QH q \<and> q' = q"
      using map_of_lru_put [of "QH q" q "node_cache r ?ns" h q'] by simp
    with view [of r'] show ?thesis
      by simp
  qed
qed

lemma same_nodes_ok: "same_nodes ns ns' \<Longrightarrow> nodes_ok QH v h ns \<Longrightarrow> nodes_ok QH v h ns'"
  by (simp add: nodes_ok_def same_nodes_def)

lemma stable_nodes_ok: "stable (slot_step D A) (\<lambda>c. nodes_ok (d_qsetHash D) v h (cx_nodes c))"
  unfolding stable_def
proof (intro allI impI)
  fix c c'
  assume "slot_step D A c c'" and ok: "nodes_ok (d_qsetHash D) v h (cx_nodes c)"
  then show "nodes_ok (d_qsetHash D) v h (cx_nodes c')"
  proof cases
    case (cache w q)
    with ok show ?thesis
      by (auto simp: nodes_ok_def cacheQuorumSet_local dest!: qview_cacheQuorumSet)
  qed (auto simp: nodes_ok_def same_nodes_def)
qed

lemma may_committed:
  assumes "slot_ok QH A c" "committed_by c x n s"
  shows "may A c n s \<and> st_type s = COMMITTED \<and> b_value (st_ballot s) = x"
proof -
  from assms(2) obtain b where "stored c b COMMITTED n s" "b_value b = x"
    by (auto simp: committed_by_def stored_def)
  with assms(1) show ?thesis
    unfolding slot_ok_def by blast
qed

lemma committed_quorum_ok:
  assumes "slot_ok QH A c" "nodes_ok QH v h (cx_nodes c)" "committed_quorum c x"
  shows "committed_evidence QH A c x"
proof -
  from assms(3) obtain Q where
    Q: "\<forall>n \<in> Q. \<exists>s q. committed_by c x n s \<and> qview (cx_nodes c) (KnownRef n) (st_quorumSetHash s) = Some q \<and> enough q Q" and
    q: "\<exists>q. qview (cx_nodes c) LocalRef (ln_QSetHash (cx_local c)) = Some q \<and> enough q Q"
    unfolding committed_quorum_def by blast
  have "\<exists>s q. may A c n s \<and> st_type s = COMMITTED \<and> b_value (st_ballot s) = x \<and> QH q = st_quorumSetHash s \<and> enough q Q"
    if n: "n \<in> Q" for n
    using bspec [OF Q n] may_committed [OF assms(1)] assms(2) unfolding nodes_ok_def by metis
  moreover have "\<exists>q. QH q = ln_QSetHash (cx_local c) \<and> enough q Q"
    using q assms(2) unfolding nodes_ok_def by metis
  ultimately show ?thesis
    unfolding committed_evidence_def by blast
qed

lemma stable_evidence: "stable (slot_step D A) (\<lambda>c. committed_evidence QH A c x)"
  unfolding stable_def
proof (intro allI impI)
  fix c c'
  assume step: "slot_step D A c c'" and "committed_evidence QH A c x"
  moreover have "may A c n s \<Longrightarrow> may A c' n s" for n s
    using stable_may step unfolding stable_def by blast
  ultimately show "committed_evidence QH A c' x"
    unfolding committed_evidence_def step_local(3) [OF step] by meson
qed

lemma stable_deferred_ok: "stable (slot_step D A) (\<lambda>c. deferred_ok A c d)"
  using stable_cb_ok stable_may by (cases d) (auto simp: stable_def)

lemma stored_step:
  assumes "slot_step D A c c'" "stored c' b t n s"
  shows "stored c b t n s \<or> b = st_ballot s \<and> t = st_type s \<and> may A c n s"
  using assms(1)
proof cases
  case (store v s')
  with assms(2) show ?thesis
    using stored_store by blast
next
  case (visit b)
  with assms(2) show ?thesis
    using stored_touch by blast
qed (use assms(2) in \<open>auto simp: stored_def\<close>)

lemma deferred_step: "slot_step D A c c' \<Longrightarrow> d \<in> set (cx_deferred c') \<Longrightarrow> d \<in> set (cx_deferred c) \<or> deferred_ok A c d"
  by (auto elim!: slot_stepE)

lemma emitted_step: "slot_step D A c c' \<Longrightarrow> e \<in> set (cx_emitted c') \<Longrightarrow> e \<in> set (cx_emitted c) \<or> cb_ok c (Emit e)"
  by (auto elim!: slot_stepE)

lemma externalized_step:
  "slot_step D A c c' \<Longrightarrow>
     sl_IsExternalized c' = sl_IsExternalized c \<and> cx_externalized c' = cx_externalized c \<or>
     \<not> sl_IsExternalized c \<and> sl_IsExternalized c' \<and> sl_IsCommitted c \<and> committed_quorum c (b_value (sl_Ballot c)) \<and>
     cx_externalized c' = cx_externalized c @ [b_value (sl_Ballot c)]"
  by (auto elim!: slot_stepE)

lemma stable_slot_ok:
  "stable (slot_step D A) (\<lambda>c. slot_ok (d_qsetHash D) A c \<and> nodes_ok (d_qsetHash D) v h (cx_nodes c))"
  unfolding stable_def
proof (intro allI impI)
  fix c c'
  assume step: "slot_step D A c c'" and "slot_ok (d_qsetHash D) A c \<and> nodes_ok (d_qsetHash D) v h (cx_nodes c)"
  then have ok: "slot_ok (d_qsetHash D) A c" and nodes: "nodes_ok (d_qsetHash D) v h (cx_nodes c)"
    by auto
  note still = step_local [OF step] stable_may [unfolded stable_def, rule_format, OF step]
    stable_deferred_ok [unfolded stable_def, rule_format, OF step] stable_cb_ok [unfolded stable_def, rule_format, OF step]
    stable_evidence [unfolded stable_def, rule_format, OF step]
  have "st_ballot s = b \<and> st_type s = t \<and> may A c' n s" if "stored c' b t n s" for b t n s
    using stored_step [OF step that] ok still(5) unfolding slot_ok_def by blast
  moreover have "deferred_ok A c' d" if "d \<in> set (cx_deferred c')" for d
    using deferred_step [OF step that] ok still(6) unfolding slot_ok_def by blast
  moreover have "cb_ok c' (Emit e)" if "e \<in> set (cx_emitted c')" for e
    using emitted_step [OF step that] ok still(7) unfolding slot_ok_def by blast
  moreover have "(sl_IsExternalized c' \<longrightarrow> sl_IsCommitted c' \<and> committed_evidence (d_qsetHash D) A c' (b_value (sl_Ballot c'))) \<and>
      cx_externalized c' = (if sl_IsExternalized c' then [b_value (sl_Ballot c')] else [])"
    using externalized_step [OF step]
  proof
    assume "sl_IsExternalized c' = sl_IsExternalized c \<and> cx_externalized c' = cx_externalized c"
    with ok still(4,8) show ?thesis
      unfolding slot_ok_def by auto
  next
    assume new: "\<not> sl_IsExternalized c \<and> sl_IsExternalized c' \<and> sl_IsCommitted c \<and> committed_quorum c (b_value (sl_Ballot c)) \<and>
      cx_externalized c' = cx_externalized c @ [b_value (sl_Ballot c)]"
    then have "committed_evidence (d_qsetHash D) A c (b_value (sl_Ballot c))"
      using committed_quorum_ok [OF ok nodes] by blast
    with new ok still(4,8) show ?thesis
      unfolding slot_ok_def by auto
  qed
  ultimately have "slot_ok (d_qsetHash D) A c'"
    unfolding slot_ok_def by blast
  with stable_nodes_ok step nodes show "slot_ok (d_qsetHash D) A c' \<and> nodes_ok (d_qsetHash D) v h (cx_nodes c')"
    unfolding stable_def by blast
qed

lemma may_mono: "may A c v s \<Longrightarrow> A \<subseteq> A' \<Longrightarrow> may A' c v s"
  by (auto simp: may_def)

lemma slot_ok_mono:
  assumes "slot_ok QH A c" "A \<subseteq> A'"
  shows "slot_ok QH A' c"
proof -
  have "deferred_ok A c d \<Longrightarrow> deferred_ok A' c d" for d
    using assms(2) by (cases d) (auto intro: may_mono)
  moreover have "committed_evidence QH A c x \<Longrightarrow> committed_evidence QH A' c x" for x
    unfolding committed_evidence_def using may_mono [OF _ assms(2)] by meson
  ultimately show ?thesis
    using assms may_mono unfolding slot_ok_def by meson
qed

text \<open>What is known of the nodes enters only by the local node.\<close>

lemma slot_ok_nodes:
  assumes "slot_ok QH A c" "nodes_ok QH v h (cx_nodes c)" "nodes_ok QH v h ns"
  shows "slot_ok QH A (c\<lparr>cx_nodes := ns\<rparr>)"
proof -
  let ?c = "c\<lparr>cx_nodes := ns\<rparr>"
  have may: "may A ?c n s = may A c n s" and own: "own_ok ?c s = own_ok c s" for n s
    using assms(2,3) by (auto simp: may_def own_ok_def nodes_ok_def)
  have cb: "cb_ok ?c cb = cb_ok c cb" for cb
    using assms(2,3) own by (auto simp: cb_ok_def nodes_ok_def split: Callback.splits)
  have "deferred_ok A ?c d = deferred_ok A c d" for d
    by (cases d) (simp_all add: cb may)
  moreover have "committed_evidence QH A ?c x = committed_evidence QH A c x" for x
    using assms(2,3) by (simp add: committed_evidence_def may nodes_ok_def)
  moreover have "stored ?c = stored c"
    by (simp add: stored_def fun_eq_iff)
  ultimately show ?thesis
    using assms(1) unfolding slot_ok_def by (simp add: cb may)
qed

subsection \<open>The invariant of a node\<close>

definition scp_ok :: "uint64 \<Rightarrow> (SCPQuorumSet \<Rightarrow> Hash) \<Rightarrow> Received \<Rightarrow> uint256 \<Rightarrow> Hash \<Rightarrow> SCP \<Rightarrow> bool" where
  "scp_ok i QH A v h S \<longleftrightarrow>
     nodes_ok QH v h (scp_Nodes S) \<and>
     (\<forall>a < length (scp_Slots S). slot_ok QH A (slot_at a S)) \<and>
     (\<forall>a < length (scp_Slots S). sl_SlotIndex (scp_Slots S ! a) = i \<longrightarrow> map_of (scp_KnownSlots S) i = Some a) \<and>
     (\<forall>k a. map_of (scp_KnownSlots S) k = Some a \<longrightarrow> a < length (scp_Slots S))"

text \<open>Slots are never lost, and a commitment stays.\<close>

definition progress :: "SCP \<Rightarrow> SCP \<Rightarrow> bool" where
  "progress S S' \<longleftrightarrow>
     length (scp_Slots S) \<le> length (scp_Slots S') \<and>
     (\<forall>a < length (scp_Slots S).
        sl_SlotIndex (scp_Slots S' ! a) = sl_SlotIndex (scp_Slots S ! a) \<and>
        (sl_IsCommitted (scp_Slots S ! a) \<longrightarrow>
         sl_IsCommitted (scp_Slots S' ! a) \<and> sl_Ballot (scp_Slots S' ! a) = sl_Ballot (scp_Slots S ! a)))"

lemma progress_refl [simp]: "progress S S"
  by (simp add: progress_def)

lemma progress_trans: "progress S T \<Longrightarrow> progress T U \<Longrightarrow> progress S U"
  unfolding progress_def by (metis less_le_trans le_trans)

lemma slot_at_simps [simp]:
  "sl_SlotIndex (slot_at a S) = sl_SlotIndex (scp_Slots S ! a)"
  "sl_IsCommitted (slot_at a S) = sl_IsCommitted (scp_Slots S ! a)"
  "sl_Ballot (slot_at a S) = sl_Ballot (scp_Slots S ! a)"
  "cx_emitted (slot_at a S) = cx_emitted (scp_Slots S ! a)"
  "cx_deferred (slot_at a S) = cx_deferred (scp_Slots S ! a)"
  "cx_externalized (slot_at a S) = cx_externalized (scp_Slots S ! a)"
  "sl_IsExternalized (slot_at a S) = sl_IsExternalized (scp_Slots S ! a)"
  "cx_nodes (slot_at a S) = scp_Nodes S"
  by (simp_all add: slot_at_def)

lemma on_slot_ok:
  assumes ok: "scp_ok i (d_qsetHash D) A v h S" and a: "a < length (scp_Slots S)"
    and t: "triple (slot_step D A) P m T" "P (slot_at a S)"
  shows "scp_ok i (d_qsetHash D) A v h (snd (on_slot a m S)) \<and> progress S (snd (on_slot a m S))"
proof -
  let ?QH = "d_qsetHash D"
  obtain r c where m: "m (slot_at a S) = (r, c)"
    by (cases "m (slot_at a S)")
  let ?S = "S\<lparr>scp_Slots := (scp_Slots S)[a := c], scp_Nodes := cx_nodes c\<rparr>"
  have S: "snd (on_slot a m S) = ?S"
    by (simp add: on_slot_def m)
  have steps: "(slot_step D A)\<^sup>*\<^sup>* (slot_at a S) c"
    by (rule t_reach [OF t(1) t(2) m])
  have nodes: "nodes_ok ?QH v h (scp_Nodes S)" and slots: "\<And>a. a < length (scp_Slots S) \<Longrightarrow> slot_ok ?QH A (slot_at a S)"
    using ok by (auto simp: scp_ok_def)
  have c: "slot_ok ?QH A c \<and> nodes_ok ?QH v h (cx_nodes c)"
    by (rule stable_star [OF stable_slot_ok steps]) (simp add: nodes slots a)
  have index: "sl_SlotIndex c = sl_SlotIndex (scp_Slots S ! a)"
    by (rule stable_star [OF stable_index steps]) simp
  have comm: "sl_IsCommitted c \<and> sl_Ballot c = sl_Ballot (scp_Slots S ! a)" if "sl_IsCommitted (scp_Slots S ! a)"
    by (rule stable_star [OF stable_committed steps]) (simp add: that)
  have "slot_ok ?QH A (slot_at k ?S)" if "k < length (scp_Slots S)" for k
  proof (cases "k = a")
    case True
    then show ?thesis
      using c a by (simp add: slot_at_def)
  next
    case False
    then have "slot_at k ?S = (slot_at k S)\<lparr>cx_nodes := cx_nodes c\<rparr>"
      by (simp add: slot_at_def)
    then show ?thesis
      using slot_ok_nodes [OF slots [OF that], of v h "cx_nodes c"] nodes c by simp
  qed
  then show ?thesis
    unfolding S using ok c index comm a
    by (auto simp: scp_ok_def progress_def nth_list_update)
qed

lemma new_slot_ok: "slot_ok QH A (new_Ctx j ns)"
  by (simp add: slot_ok_def new_Ctx_def new_Slot_def Slot.extend_def stored_def)

lemma getSlot_ok:
  assumes ok: "scp_ok i QH A v h S" and g: "getSlot j S = (r, S')"
  obtains a where "r = Inr a" "a < length (scp_Slots S')" "scp_ok i QH A v h S'" "progress S S'"
proof (cases "map_of (scp_KnownSlots S) j")
  case (Some a)
  with ok g that [of a] show thesis
    by (auto simp: getSlot_def scp_ok_def)
next
  case None
  let ?a = "length (scp_Slots S)"
  have S': "S' = S\<lparr>scp_Slots := scp_Slots S @ [new_Ctx j (scp_Nodes S)], scp_KnownSlots := om_update j ?a (scp_KnownSlots S)\<rparr>"
    and r: "r = Inr ?a"
    using None g by (auto simp: getSlot_def Let_def)
  have at: "slot_at k S' = (if k < ?a then slot_at k S else new_Ctx j (scp_Nodes S))" if "k < Suc ?a" for k
    using that by (auto simp: S' slot_at_def nth_append new_Ctx_def Slot.extend_def less_Suc_eq)
  have idx: "sl_SlotIndex (scp_Slots S' ! k) = (if k < ?a then sl_SlotIndex (scp_Slots S ! k) else j)" if "k < Suc ?a" for k
    using that by (auto simp: S' nth_append new_Ctx_def new_Slot_def Slot.extend_def less_Suc_eq)
  have fresh: "sl_SlotIndex (scp_Slots S ! k) = i \<Longrightarrow> i \<noteq> j" if "k < ?a" for k
    using ok None that by (auto simp: scp_ok_def)
  have "scp_ok i QH A v h S'"
    unfolding scp_ok_def
  proof (intro conjI allI impI)
    show "nodes_ok QH v h (scp_Nodes S')"
      using ok by (simp add: scp_ok_def S')
    show "slot_ok QH A (slot_at k S')" if "k < length (scp_Slots S')" for k
      using that ok at [of k] new_slot_ok by (auto simp: scp_ok_def S')
    show "map_of (scp_KnownSlots S') i = Some k" if "k < length (scp_Slots S')" "sl_SlotIndex (scp_Slots S' ! k) = i" for k
      using that idx [of k] ok fresh [of k] by (auto simp: scp_ok_def S' less_Suc_eq split: if_splits)
    show "a < length (scp_Slots S')" if "map_of (scp_KnownSlots S') k = Some a" for k a
      using that ok by (auto simp: scp_ok_def S' less_Suc_eq split: if_splits)
  qed
  moreover have "progress S S'"
    by (simp add: progress_def S' nth_append)
  ultimately show thesis
    using that [OF r] by (simp add: S')
qed

text \<open>A call on the slot of an index, which may have to be made.\<close>

lemma at_slot_ok:
  assumes ok: "scp_ok i (d_qsetHash D) A v h S" and t: "triple (slot_step D A) P m T"
    and P: "\<And>c. ln_nodeID (nd_local (cx_nodes c)) = v \<Longrightarrow> P c"
  shows "scp_ok i (d_qsetHash D) A v h (snd (bind (getSlot j) (\<lambda>a. on_slot a m) S)) \<and>
    progress S (snd (bind (getSlot j) (\<lambda>a. on_slot a m) S))"
proof (cases "getSlot j S")
  case (Pair r S')
  from getSlot_ok [OF ok Pair] obtain a where
    a: "r = Inr a" "a < length (scp_Slots S')" "scp_ok i (d_qsetHash D) A v h S'" "progress S S'"
    by blast
  have "P (slot_at a S')"
    using a(3) by (intro P) (simp add: scp_ok_def nodes_ok_def)
  from on_slot_ok [OF a(3,2) t this] have
    "scp_ok i (d_qsetHash D) A v h (snd (on_slot a m S')) \<and> progress S (snd (on_slot a m S'))"
    using a(4) progress_trans by blast
  moreover have "bind (getSlot j) (\<lambda>a. on_slot a m) S = on_slot a m S'"
    by (simp add: bind_def Pair a(1))
  ultimately show ?thesis
    by simp
qed

lemma scp_ok_rejected [simp]: "scp_ok i QH A v h (S\<lparr>scp_rejected := es\<rparr>) = scp_ok i QH A v h S"
  by (simp add: scp_ok_def slot_at_def)

lemma progress_rejected [simp]: "progress S (S\<lparr>scp_rejected := es\<rparr>)"
  by (simp add: progress_def)

lemma receiveEnvelope_ok:
  assumes ok: "scp_ok i (d_qsetHash D) A v h S" and e: "verifyEnvelope D e \<Longrightarrow> (en_nodeID e, en_statement e) \<in> A"
  shows "scp_ok i (d_qsetHash D) A v h (snd (receiveEnvelope D fuel e S)) \<and> progress S (snd (receiveEnvelope D fuel e S))"
proof (cases "verifyEnvelope D e")
  case True
  show ?thesis
    unfolding receiveEnvelope_def if_not_P [OF iffD2 [OF not_not True]]
    by (rule at_slot_ok [OF ok t_processEnvelope [OF t_advanceSlot]]) (simp add: e [OF True] cb_ok_def)
qed (simp add: receiveEnvelope_def modify_def ok)

lemma prepareValue_ok:
  assumes ok: "scp_ok i (d_qsetHash D) A v h S"
  shows "scp_ok i (d_qsetHash D) A v h (snd (prepareValue D fuel j x b S)) \<and> progress S (snd (prepareValue D fuel j x b S))"
proof (cases "d_isZeroKey D")
  case False
  then have "prepareValue D fuel j x b S = bind (getSlot j) (\<lambda>a. on_slot a (slot_prepareValue D fuel x b)) S"
    by (simp add: prepareValue_def scp_assert_def bind_def ret_def)
  with at_slot_ok [OF ok t_slot_prepareValue [of D A "\<lambda>_. True"]] show ?thesis
    by simp
qed (simp add: prepareValue_def scp_assert_def bind_def throw_def ok)

lemma deferred_answer_ok:
  assumes ok: "scp_ok i (d_qsetHash D) A v h S" and a: "a < length (scp_Slots S)"
  shows "scp_ok i (d_qsetHash D) A v h (snd (deferred_answer D fuel a k valid S)) \<and>
    progress S (snd (deferred_answer D fuel a k valid S))"
  unfolding deferred_answer_def
proof (rule on_slot_ok [OF ok a])
  let ?P = "\<lambda>c. \<forall>d \<in> set (cx_deferred c). deferred_ok A c d"
  show "?P (slot_at a S)"
    using ok a by (simp add: scp_ok_def slot_ok_def)
  have drop: "triple (slot_step D A) (\<lambda>c. ?P c \<and> ds = cx_deferred c) (modify (\<lambda>c. c\<lparr>cx_deferred := take k ds @ drop (Suc k) ds\<rparr>))
      (\<lambda>_ c. deferred_ok A c (ds ! k))" if k: "k < length ds" for ds
  proof (rule t_modify_post)
    fix c
    assume P: "?P c \<and> ds = cx_deferred c"
    have step: "slot_step D A c (c\<lparr>cx_deferred := take k ds @ drop (Suc k) ds\<rparr>)"
      using P by (intro slot_step.resume) (auto dest: in_set_takeD in_set_dropD)
    moreover have "deferred_ok A c (ds ! k)"
      using P k by simp
    ultimately show "slot_step D A c (c\<lparr>cx_deferred := take k ds @ drop (Suc k) ds\<rparr>) \<and>
        deferred_ok A (c\<lparr>cx_deferred := take k ds @ drop (Suc k) ds\<rparr>) (ds ! k)"
      using stable_deferred_ok unfolding stable_def by blast
  qed
  show "triple (slot_step D A) ?P
      (bind (reads cx_deferred) (\<lambda>ds. when_do (k < length ds)
        (bind (modify (\<lambda>c. c\<lparr>cx_deferred := take k ds @ drop (Suc k) ds\<rparr>)) (\<lambda>_. run_deferred D fuel (ds ! k) valid))))
      (\<lambda>_ _. True)"
    by (rule t_bind [OF t_reads], rule t_when, rule t_bind [OF drop t_run_deferred])
qed

lemma qset_answer_ok:
  assumes ok: "scp_ok i (d_qsetHash D) A v h S" and a: "a < length (scp_Slots S)"
  shows "scp_ok i (d_qsetHash D) A v h (snd (qset_answer D fuel a k q S)) \<and> progress S (snd (qset_answer D fuel a k q S))"
  unfolding qset_answer_def
  by (rule on_slot_ok [OF ok a, of "\<lambda>_. True"], rule t_bind [OF t_reads])
    (auto intro!: t_when t_qset_cb t_advanceSlot)

lemma scp_ok_nodes:
  assumes "scp_ok i QH A v h S" "nodes_ok QH v h ns"
  shows "scp_ok i QH A v h (S\<lparr>scp_Nodes := ns\<rparr>) \<and> progress S (S\<lparr>scp_Nodes := ns\<rparr>)"
proof -
  have "slot_at a (S\<lparr>scp_Nodes := ns\<rparr>) = (slot_at a S)\<lparr>cx_nodes := ns\<rparr>" for a
    by (simp add: slot_at_def)
  with assms slot_ok_nodes [of QH A _ v h ns] show ?thesis
    by (auto simp: scp_ok_def progress_def)
qed

lemma purgeNode_ok:
  assumes ok: "scp_ok i QH A v h S"
  shows "scp_ok i QH A v h (purgeNode w S) \<and> progress S (purgeNode w S)"
proof -
  have "nodes_ok QH v h ((scp_Nodes S)\<lparr>nd_known := om_erase w (nd_known (scp_Nodes S))\<rparr>)"
    using ok by (fastforce simp: scp_ok_def nodes_ok_def qview_def node_cache_def split: NodeRef.splits option.splits Node.splits if_splits)
  from scp_ok_nodes [OF ok this] show ?thesis
    by (simp add: purgeNode_def)
qed

lemma isVBlocking_nodes_ok:
  assumes ok: "scp_ok i QH A v h S"
  shows "scp_ok i QH A v h (snd (isVBlocking_nodes vs S)) \<and> progress S (snd (isVBlocking_nodes vs S))"
proof -
  let ?r = "isVBlocking_map LocalRef (ln_QSetHash (nd_local (scp_Nodes S))) (fold (\<lambda>v. om_update v True) vs []) (\<lambda>_ _. True) (scp_Nodes S)"
  have "nodes_ok QH v h (snd ?r)"
    by (rule same_nodes_ok [OF isVBlocking_map_same]) (use ok in \<open>simp add: scp_ok_def\<close>)
  from scp_ok_nodes [OF ok this] show ?thesis
    by (simp add: isVBlocking_nodes_def case_prod_beta)
qed

lemma purgeSlots_ok:
  assumes ok: "scp_ok i QH A v h S" and m: "m \<le> i"
  shows "scp_ok i QH A v h (purgeSlots m S) \<and> progress S (purgeSlots m S)"
proof -
  have "map_of (filter (\<lambda>(j, a). \<not> j < m) l) k = (if k < m then None else map_of l k)" for l :: "(uint64, nat) omap" and k
    by (induction l) auto
  with ok m show ?thesis
    by (auto simp: scp_ok_def progress_def purgeSlots_def slot_at_def split: if_splits)
qed

subsection \<open>A network of nodes\<close>

text \<open>
  The honest nodes \<open>H\<close> run the code, each with a driver of its own; all others send what they like.
  An envelope that verifies as one of an honest node carries a statement that this node has emitted.
  Calls end as they may, also by an exception. Old slots, below \<open>i\<close>, may be purged; a node does not
  change its quorum set.
\<close>

definition has_emitted :: "SCP \<Rightarrow> SCPStatement \<Rightarrow> bool" where
  "has_emitted S s \<longleftrightarrow> (\<exists>c \<in> set (scp_Slots S). \<exists>e \<in> set (cx_emitted c). en_statement e = s)"

definition authentic :: "uint256 set \<Rightarrow> (uint256 \<Rightarrow> SCP) \<Rightarrow> Driver \<Rightarrow> SCPEnvelope \<Rightarrow> bool" where
  "authentic H N D e \<longleftrightarrow> (verifyEnvelope D e \<and> en_nodeID e \<in> H \<longrightarrow> has_emitted (N (en_nodeID e)) (en_statement e))"

inductive net_step :: "uint256 set \<Rightarrow> (uint256 \<Rightarrow> Driver) \<Rightarrow> uint64 \<Rightarrow> (uint256 \<Rightarrow> SCP) \<Rightarrow> (uint256 \<Rightarrow> SCP) \<Rightarrow> bool"
  for H D i where
  receive: "v \<in> H \<Longrightarrow> authentic H N (D v) e \<Longrightarrow> net_step H D i N (N(v := snd (receiveEnvelope (D v) fuel e (N v))))"
| propose: "v \<in> H \<Longrightarrow> net_step H D i N (N(v := snd (prepareValue (D v) fuel j x forceBump (N v))))"
| validated: "v \<in> H \<Longrightarrow> a < length (scp_Slots (N v)) \<Longrightarrow>
    net_step H D i N (N(v := snd (deferred_answer (D v) fuel a k valid (N v))))"
| retrieved: "v \<in> H \<Longrightarrow> a < length (scp_Slots (N v)) \<Longrightarrow>
    net_step H D i N (N(v := snd (qset_answer (D v) fuel a k q (N v))))"
| asked: "v \<in> H \<Longrightarrow> net_step H D i N (N(v := snd (isVBlocking_nodes vs (N v))))"
| forget_node: "v \<in> H \<Longrightarrow> net_step H D i N (N(v := purgeNode w (N v)))"
| forget_slots: "v \<in> H \<Longrightarrow> m \<le> i \<Longrightarrow> net_step H D i N (N(v := purgeSlots m (N v)))"

definition net_init :: "(uint256 \<Rightarrow> Driver) \<Rightarrow> (uint256 \<Rightarrow> SCPQuorumSet) \<Rightarrow> uint256 \<Rightarrow> SCP" where
  "net_init D qs v = new_SCP (D v) v (qs v)"

definition externalized :: "uint64 \<Rightarrow> SCP \<Rightarrow> Value \<Rightarrow> bool" where
  "externalized i S x \<longleftrightarrow> (\<exists>c \<in> set (scp_Slots S). sl_SlotIndex c = i \<and> x \<in> set (cx_externalized c))"

text \<open>What a \<open>COMMITTED\<close> statement of an honest node tells: the node is committed to its ballot.\<close>

definition promise :: "(SCPQuorumSet \<Rightarrow> Hash) \<Rightarrow> (uint256 \<Rightarrow> SCPQuorumSet) \<Rightarrow> (uint256 \<Rightarrow> SCP) \<Rightarrow> uint256 \<Rightarrow> SCPStatement \<Rightarrow> bool" where
  "promise QH qs N n s \<longleftrightarrow>
     st_quorumSetHash s = QH (qs n) \<and>
     (\<exists>a < length (scp_Slots (N n)). sl_SlotIndex (scp_Slots (N n) ! a) = st_slotIndex s \<and>
        sl_IsCommitted (scp_Slots (N n) ! a) \<and> sl_Ballot (scp_Slots (N n) ! a) = st_ballot s)"

definition reliable :: "uint256 set \<Rightarrow> (SCPQuorumSet \<Rightarrow> Hash) \<Rightarrow> (uint256 \<Rightarrow> SCPQuorumSet) \<Rightarrow> (uint256 \<Rightarrow> SCP) \<Rightarrow> Received" where
  "reliable H QH qs N = {(n, s). n \<in> H \<and> st_type s = COMMITTED \<longrightarrow> promise QH qs N n s}"

definition net_ok :: "uint256 set \<Rightarrow> (SCPQuorumSet \<Rightarrow> Hash) \<Rightarrow> (uint256 \<Rightarrow> SCPQuorumSet) \<Rightarrow> uint64 \<Rightarrow> (uint256 \<Rightarrow> SCP) \<Rightarrow> bool" where
  "net_ok H QH qs i N \<longleftrightarrow> (\<forall>v \<in> H. scp_ok i QH (reliable H QH qs N) v (QH (qs v)) (N v))"

lemma promise_progress: "promise QH qs N n s \<Longrightarrow> progress (N n) (N' n) \<Longrightarrow> promise QH qs N' n s"
  unfolding promise_def progress_def by (metis order_less_le_trans)

lemma emitted_reliable:
  assumes ok: "net_ok H QH qs i N" and v: "v \<in> H" and e: "has_emitted (N v) s"
  shows "(v, s) \<in> reliable H QH qs N"
proof -
  from e obtain a e where a: "a < length (scp_Slots (N v))" and e: "e \<in> set (cx_emitted (scp_Slots (N v) ! a))" "en_statement e = s"
    unfolding has_emitted_def by (metis in_set_conv_nth)
  from ok v a have "slot_ok QH (reliable H QH qs N) (slot_at a (N v))" "ln_QSetHash (nd_local (scp_Nodes (N v))) = QH (qs v)"
    by (auto simp: net_ok_def scp_ok_def nodes_ok_def)
  with e have "cb_ok (slot_at a (N v)) (Emit e)" "ln_QSetHash (nd_local (scp_Nodes (N v))) = QH (qs v)"
    by (auto simp: slot_ok_def)
  with e a show ?thesis
    by (auto simp: cb_ok_def own_ok_def reliable_def promise_def)
qed

lemma net_ok_update:
  assumes ok: "net_ok H QH qs i N"
    and S: "scp_ok i QH (reliable H QH qs N) v (QH (qs v)) S \<and> progress (N v) S"
  shows "net_ok H QH qs i (N(v := S))"
proof -
  have "reliable H QH qs N \<subseteq> reliable H QH qs (N(v := S))"
    using S promise_progress [of QH qs N _ _ "N(v := S)"] by (auto simp: reliable_def)
  moreover have "scp_ok i QH (reliable H QH qs N) w (QH (qs w)) ((N(v := S)) w)" if "w \<in> H" for w
    using ok S that by (auto simp: net_ok_def)
  ultimately show ?thesis
    unfolding net_ok_def scp_ok_def by (meson slot_ok_mono)
qed

lemma net_init_ok:
  assumes "\<And>v. v \<in> H \<Longrightarrow> d_qsetHash (D v) = QH"
  shows "net_ok H QH qs i (net_init D qs)"
proof -
  have view: "qview (scp_Nodes (new_SCP (D v) v (qs v))) r k = Some q \<Longrightarrow> QH q = k" if "v \<in> H" for v r k q
    using assms [OF that]
    by (cases r) (auto simp: qview_def new_SCP_def new_LocalNode_def node_cache_def lru_put_def CACHE_SIZE_def split: if_splits)
  have "ln_nodeID (nd_local (scp_Nodes (new_SCP (D v) v (qs v)))) = v"
    "ln_QSetHash (nd_local (scp_Nodes (new_SCP (D v) v (qs v)))) = QH (qs v)" if "v \<in> H" for v
    by (simp_all add: new_SCP_def new_LocalNode_def assms [OF that])
  then have "nodes_ok QH v (QH (qs v)) (scp_Nodes (new_SCP (D v) v (qs v)))" if "v \<in> H" for v
    unfolding nodes_ok_def using that view [OF that] by simp
  then show ?thesis
    by (simp add: net_ok_def scp_ok_def net_init_def) (simp add: new_SCP_def)
qed

lemma net_step_ok:
  assumes hash: "\<And>v. v \<in> H \<Longrightarrow> d_qsetHash (D v) = QH"
    and step: "net_step H D i N N'" and ok: "net_ok H QH qs i N"
  shows "net_ok H QH qs i N'"
proof -
  have node: "scp_ok i (d_qsetHash (D v)) (reliable H QH qs N) v (QH (qs v)) (N v)" if "v \<in> H" for v
    using ok that hash by (simp add: net_ok_def)
  from step show ?thesis
  proof cases
    case (receive v e fuel)
    have "verifyEnvelope (D v) e \<Longrightarrow> (en_nodeID e, en_statement e) \<in> reliable H QH qs N"
      using receive(3) emitted_reliable [OF ok] by (cases "en_nodeID e \<in> H") (auto simp: authentic_def reliable_def)
    from receiveEnvelope_ok [OF node [OF receive(2)] this] show ?thesis
      unfolding receive(1) hash [OF receive(2)] by (intro net_ok_update ok) auto
  next
    case (propose v fuel j x forceBump)
    from prepareValue_ok [OF node [OF propose(2)]] show ?thesis
      unfolding propose(1) hash [OF propose(2)] by (intro net_ok_update ok) auto
  next
    case (validated v a fuel k valid)
    from deferred_answer_ok [OF node [OF validated(2)] validated(3)] show ?thesis
      unfolding validated(1) hash [OF validated(2)] by (intro net_ok_update ok) auto
  next
    case (retrieved v a fuel k q)
    from qset_answer_ok [OF node [OF retrieved(2)] retrieved(3)] show ?thesis
      unfolding retrieved(1) hash [OF retrieved(2)] by (intro net_ok_update ok) auto
  next
    case (asked v vs)
    from isVBlocking_nodes_ok [OF node [OF asked(2)]] show ?thesis
      unfolding asked(1) hash [OF asked(2)] by (intro net_ok_update ok) auto
  next
    case (forget_node v w)
    from purgeNode_ok [OF node [OF forget_node(2)]] show ?thesis
      unfolding forget_node(1) hash [OF forget_node(2)] by (intro net_ok_update ok) auto
  next
    case (forget_slots v m)
    from purgeSlots_ok [OF node [OF forget_slots(2)] forget_slots(3)] show ?thesis
      unfolding forget_slots(1) hash [OF forget_slots(2)] by (intro net_ok_update ok) auto
  qed
qed

lemma net_reachable_ok:
  assumes "\<And>v. v \<in> H \<Longrightarrow> d_qsetHash (D v) = QH" and "(net_step H D i)\<^sup>*\<^sup>* (net_init D qs) N"
  shows "net_ok H QH qs i N"
  using assms(2)
proof (induction rule: rtranclp_induct)
  case base
  show ?case
    by (rule net_init_ok [OF assms(1)])
next
  case (step N N')
  show ?case
    by (rule net_step_ok [OF assms(1) step.hyps(2) step.IH])
qed

subsection \<open>Agreement\<close>

text \<open>Of a quorum, only what it means to its honest nodes counts.\<close>

definition honest_slice :: "uint256 set \<Rightarrow> (uint256 \<Rightarrow> SCPQuorumSet) \<Rightarrow> uint256 \<Rightarrow> uint256 set \<Rightarrow> bool" where
  "honest_slice H qs n Q \<longleftrightarrow> (n \<in> H \<longrightarrow> enough (qs n) Q)"

interpretation hs: quorum_slices "honest_slice H qs" for H qs
  by unfold_locales (auto simp: honest_slice_def intro: enough_mono)

definition quorum_intersection :: "uint256 set \<Rightarrow> (uint256 \<Rightarrow> SCPQuorumSet) \<Rightarrow> bool" where
  "quorum_intersection H qs \<longleftrightarrow>
     (\<forall>Q1 Q2. closed (honest_slice H qs) Q1 \<and> closed (honest_slice H qs) Q2 \<and> Q1 \<inter> H \<noteq> {} \<and> Q2 \<inter> H \<noteq> {} \<longrightarrow>
        Q1 \<inter> Q2 \<inter> H \<noteq> {})"

definition committed_to :: "uint64 \<Rightarrow> SCP \<Rightarrow> Value \<Rightarrow> bool" where
  "committed_to i S x \<longleftrightarrow>
     (\<exists>a < length (scp_Slots S). sl_SlotIndex (scp_Slots S ! a) = i \<and> sl_IsCommitted (scp_Slots S ! a) \<and>
        b_value (sl_Ballot (scp_Slots S ! a)) = x)"

lemma committed_to_unique:
  assumes "scp_ok i QH A v h S" "committed_to i S x" "committed_to i S y"
  shows "x = y"
  using assms unfolding scp_ok_def committed_to_def by (metis option.inject)

lemma may_honest:
  assumes ok: "net_ok H QH qs i N" and v: "v \<in> H" and n: "n \<in> H"
    and a: "a < length (scp_Slots (N v))" "sl_SlotIndex (scp_Slots (N v) ! a) = i"
    and s: "may (reliable H QH qs N) (slot_at a (N v)) n s" "st_type s = COMMITTED"
  shows "st_quorumSetHash s = QH (qs n) \<and> committed_to i (N n) (b_value (st_ballot s))"
proof -
  have local: "ln_nodeID (nd_local (scp_Nodes (N v))) = v" "ln_QSetHash (nd_local (scp_Nodes (N v))) = QH (qs v)"
    using ok v by (auto simp: net_ok_def scp_ok_def nodes_ok_def)
  from s(1) have index: "st_slotIndex s = i" and
    "(n, s) \<in> reliable H QH qs N \<or> n = v \<and> own_ok (slot_at a (N v)) s"
    using a(2) local by (auto simp: may_def)
  then consider "promise QH qs N n s" | "n = v" "own_ok (slot_at a (N v)) s"
    using n s(2) by (auto simp: reliable_def)
  then show ?thesis
  proof cases
    case 1
    with index show ?thesis
      by (auto simp: promise_def committed_to_def)
  next
    case 2
    with s(2) a local show ?thesis
      by (auto simp: own_ok_def committed_to_def)
  qed
qed

lemma externalized_quorum:
  assumes ok: "net_ok H QH qs i N" and v: "v \<in> H" and x: "externalized i (N v) x"
    and inj: "\<And>v q. v \<in> H \<Longrightarrow> QH q = QH (qs v) \<Longrightarrow> q = qs v"
  obtains Q where "closed (honest_slice H qs) Q" "v \<in> Q" "\<And>n. n \<in> Q \<Longrightarrow> n \<in> H \<Longrightarrow> committed_to i (N n) x"
proof -
  from x obtain a where a: "a < length (scp_Slots (N v))" "sl_SlotIndex (scp_Slots (N v) ! a) = i"
    and xs: "x \<in> set (cx_externalized (scp_Slots (N v) ! a))"
    unfolding externalized_def by (metis in_set_conv_nth)
  let ?c = "slot_at a (N v)"
  let ?A = "reliable H QH qs N"
  have slot: "slot_ok QH ?A ?c" and hash: "ln_QSetHash (nd_local (scp_Nodes (N v))) = QH (qs v)"
    using ok v a by (auto simp: net_ok_def scp_ok_def nodes_ok_def)
  then have ext: "sl_IsCommitted (scp_Slots (N v) ! a)" "b_value (sl_Ballot (scp_Slots (N v) ! a)) = x" "committed_evidence QH ?A ?c x"
    using xs by (auto simp: slot_ok_def split: if_splits)
  then obtain Q q where
    Q: "\<forall>n \<in> Q. \<exists>s q. may ?A ?c n s \<and> st_type s = COMMITTED \<and> b_value (st_ballot s) = x \<and> QH q = st_quorumSetHash s \<and> enough q Q"
    and q: "QH q = QH (qs v)" "enough q Q"
    unfolding committed_evidence_def slot_at_simps hash by blast
  have member: "enough (qs n) Q \<and> committed_to i (N n) x" if n: "n \<in> Q" "n \<in> H" for n
  proof -
    obtain s q where s: "may ?A ?c n s" "st_type s = COMMITTED" "b_value (st_ballot s) = x" "QH q = st_quorumSetHash s" "enough q Q"
      using bspec [OF Q n(1)] by blast
    from may_honest [OF ok v n(2) a s(1,2)] s inj [OF n(2)] show ?thesis
      by metis
  qed
  then have "closed (honest_slice H qs) Q"
    by (simp add: closed_def honest_slice_def)
  moreover have "honest_slice H qs v Q"
    using q inj [OF v] by (auto simp: honest_slice_def)
  ultimately have closed: "closed (honest_slice H qs) (insert v Q)"
    by (rule hs.closed_insert)
  have "committed_to i (N v) x"
    using a ext by (auto simp: committed_to_def)
  with member show thesis
    by (intro that [OF closed]) auto
qed

text \<open>
  C5: agreement. In a network where any two quorums that have an honest node share an honest node, two
  honest nodes that externalise values for the same slot externalise the same value, whatever the
  other nodes send, in which order messages, timeouts and answers come, and which calls fail. The hash
  is the same for all honest nodes and tells their quorum sets from all others.
\<close>

theorem externalize_agreement:
  assumes "(net_step H D i)\<^sup>*\<^sup>* (net_init D qs) N"
    and "\<And>v. v \<in> H \<Longrightarrow> d_qsetHash (D v) = QH"
    and "\<And>v q. v \<in> H \<Longrightarrow> QH q = QH (qs v) \<Longrightarrow> q = qs v"
    and "quorum_intersection H qs"
    and "v \<in> H" "externalized i (N v) x" and "w \<in> H" "externalized i (N w) y"
  shows "x = y"
proof -
  have ok: "net_ok H QH qs i N"
    by (rule net_reachable_ok [OF assms(2,1)])
  obtain Q1 where Q1: "closed (honest_slice H qs) Q1" "v \<in> Q1" "\<And>n. n \<in> Q1 \<Longrightarrow> n \<in> H \<Longrightarrow> committed_to i (N n) x"
    using externalized_quorum [OF ok assms(5,6,3)] by metis
  obtain Q2 where Q2: "closed (honest_slice H qs) Q2" "w \<in> Q2" "\<And>n. n \<in> Q2 \<Longrightarrow> n \<in> H \<Longrightarrow> committed_to i (N n) y"
    using externalized_quorum [OF ok assms(7,8,3)] by metis
  have "Q1 \<inter> H \<noteq> {}" "Q2 \<inter> H \<noteq> {}"
    using assms(5,7) Q1(2) Q2(2) by auto
  with assms(4) Q1(1) Q2(1) have "Q1 \<inter> Q2 \<inter> H \<noteq> {}"
    unfolding quorum_intersection_def by blast
  then obtain n where n: "n \<in> Q1" "n \<in> Q2" "n \<in> H"
    by auto
  have "scp_ok i QH (reliable H QH qs N) n (QH (qs n)) (N n)"
    using ok n(3) by (simp add: net_ok_def)
  from committed_to_unique [OF this Q1(3) Q2(3)] n show ?thesis
    by simp
qed

text \<open>
  Two nodes that both rely on the first one. The first node proposes a value and externalises it; the
  second one follows when it receives the \<open>COMMITTED\<close> statement.
\<close>

definition lead_qset :: SCPQuorumSet where
  "lead_qset = \<lparr>qs_threshold = 1, qs_validators = [1]\<rparr>"

definition lead_driver :: Driver where
  "lead_driver = \<lparr>d_validateValue = (\<lambda>_ _ _. Some True), d_validateBallot = (\<lambda>_ _ _. Some True),
     d_compareValues = (\<lambda>_ _ x y. if x < y then -1 else if y < x then 1 else 0),
     d_retrieveQuorumSet = (\<lambda>_ _. Some lead_qset), d_qsetHash = (\<lambda>q. if q = lead_qset then 7 else 8),
     d_isZeroKey = False, d_sign = (\<lambda>_. 0), d_verify = (\<lambda>_ _ _. True)\<rparr>"

definition lead_init :: "uint256 \<Rightarrow> SCP" where
  "lead_init = net_init (\<lambda>_. lead_driver) (\<lambda>_. lead_qset)"

definition lead_first :: SCP where
  "lead_first = snd (prepareValue lead_driver 9 1 [5] False (lead_init 1))"

definition lead_envelope :: SCPEnvelope where
  "lead_envelope = last (cx_emitted (hd (scp_Slots lead_first)))"

definition lead_second :: SCP where
  "lead_second = snd (receiveEnvelope lead_driver 9 lead_envelope (lead_init 2))"

lemma lead_first_runs:
  "map (\<lambda>c. (sl_SlotIndex c, cx_externalized c, length (cx_emitted c))) (scp_Slots lead_first) = [(1, [[5]], 4)]"
  by code_simp

lemma lead_second_runs:
  "map (\<lambda>c. (sl_SlotIndex c, cx_externalized c)) (scp_Slots lead_second) = [(1, [[5]])]"
  by code_simp

lemma lead_reachable:
  "(net_step {1, 2} (\<lambda>_. lead_driver) 1)\<^sup>*\<^sup>* lead_init (lead_init(1 := lead_first, 2 := lead_second))"
proof -
  let ?N = "lead_init(1 := lead_first)"
  have "net_step {1, 2} (\<lambda>_. lead_driver) 1 lead_init ?N"
    unfolding lead_first_def by (rule net_step.propose) simp
  moreover have "net_step {1, 2} (\<lambda>_. lead_driver) 1 ?N (?N(2 := snd (receiveEnvelope lead_driver 9 lead_envelope (?N 2))))"
  proof (rule net_step.receive)
    obtain c where c: "scp_Slots lead_first = [c]" "length (cx_emitted c) = 4"
      using lead_first_runs by auto
    have "en_nodeID lead_envelope = 1"
      by code_simp
    moreover from c have "lead_envelope \<in> set (cx_emitted c)"
      by (auto simp: lead_envelope_def intro: last_in_set)
    ultimately show "authentic {1, 2} ?N lead_driver lead_envelope"
      using c by (auto simp: authentic_def has_emitted_def)
  qed simp
  ultimately show ?thesis
    by (simp add: lead_second_def)
qed

lemma lead_quorums: "quorum_intersection {1, 2} (\<lambda>_. lead_qset)"
proof -
  have one: "1 \<in> Q" if "closed (honest_slice {1, 2} (\<lambda>_. lead_qset)) Q" "Q \<inter> {1, 2} \<noteq> {}" for Q
    using that by (auto simp: closed_def honest_slice_def enough_def lead_qset_def split: if_splits)
  show ?thesis
    unfolding quorum_intersection_def
  proof (intro allI impI)
    fix Q1 Q2
    assume a: "closed (honest_slice {1, 2} (\<lambda>_. lead_qset)) Q1 \<and> closed (honest_slice {1, 2} (\<lambda>_. lead_qset)) Q2 \<and>
      Q1 \<inter> {1, 2} \<noteq> {} \<and> Q2 \<inter> {1, 2} \<noteq> {}"
    then have "1 \<in> Q1" "1 \<in> Q2"
      using one [of Q1] one [of Q2] by blast+
    then show "Q1 \<inter> Q2 \<inter> {1, 2} \<noteq> {}"
      by blast
  qed
qed

theorem externalize_agreement_witness: "externalized 1 lead_first [5] \<and> externalized 1 lead_second [5] \<and> [5 :: byte] = [5]"
proof -
  have ext: "externalized 1 lead_first [5]" "externalized 1 lead_second [5]"
    using lead_first_runs lead_second_runs by (auto simp: externalized_def)
  have "[5 :: byte] = [5]"
  proof (rule externalize_agreement [OF lead_reachable [unfolded lead_init_def] _ _ lead_quorums])
    show "d_qsetHash lead_driver = (\<lambda>q. if q = lead_qset then 7 else 8)"
      by (simp add: lead_driver_def)
    show "(if q = lead_qset then 7 else 8) = (if lead_qset = lead_qset then 7 else (8 :: Hash)) \<Longrightarrow> q = lead_qset" for q
      by (simp split: if_splits)
    show "externalized 1 (((net_init (\<lambda>_. lead_driver) (\<lambda>_. lead_qset))(1 := lead_first, 2 := lead_second)) 1) [5]"
      "externalized 1 (((net_init (\<lambda>_. lead_driver) (\<lambda>_. lead_qset))(1 := lead_first, 2 := lead_second)) 2) [5]"
      using ext by simp_all
  qed simp_all
  with ext show ?thesis
    by simp
qed

end
