(* ===== verification/SCP_Props.thy ===== *)
theory SCP_Props
  imports SCP_Agreement
begin

text \<open>
  Further properties of \<open>src/scp\<close>: what a slot goes through, that a value is externalised at most once,
  and calls that end badly: a ballot that is validated after the slot has committed, a node whose
  quorum sets do not fit into its cache.
\<close>

subsection \<open>A slot goes through the steps of the protocol\<close>

text \<open>
  C6: refinement. Whatever \<open>Slot::processEnvelope\<close> and \<open>Slot::prepareValue\<close> do, with everything
  \<open>advanceSlot\<close> does in turn and also when they end with an exception, is a sequence of steps of the
  protocol: a ballot never moves once committed and never backwards, a statement that is stored is the
  one received or one's own, what is emitted as \<open>COMMITTED\<close> is the ballot the slot is committed to, and a
  value is externalised only when a transitive quorum has committed to it.
\<close>

theorem slot_calls_refine:
  "(slot_step D {(en_nodeID e, en_statement e)})\<^sup>*\<^sup>* c (snd (processEnvelope D (advanceSlot D fuel) (Answer e) e c)) \<and>
   (slot_step D {})\<^sup>*\<^sup>* c (snd (slot_prepareValue D fuel x forceBump c))"
  using t_processEnvelope [OF t_advanceSlot [where fuel = fuel], where cb = "Answer e" and e = e and A = "{(en_nodeID e, en_statement e)}"]
    t_slot_prepareValue [of D "{}" "\<lambda>_. True" fuel x forceBump]
  by (auto simp: triple_def cb_ok_def)

text \<open>
  C18: in every state of the network, a slot of an honest node has externalised at most one value, the
  one of the ballot it is committed to.
\<close>

theorem externalize_at_most_once:
  assumes "(net_step H D i)\<^sup>*\<^sup>* (net_init D qs) N" and "\<And>v. v \<in> H \<Longrightarrow> d_qsetHash (D v) = QH"
    and "v \<in> H" and "c \<in> set (scp_Slots (N v))"
  shows "cx_externalized c = [] \<or> cx_externalized c = [b_value (sl_Ballot c)] \<and> sl_IsCommitted c"
proof -
  have "net_ok H QH qs i N"
    by (rule net_reachable_ok [OF assms(2,1)])
  moreover obtain a where a: "a < length (scp_Slots (N v))" "scp_Slots (N v) ! a = c"
    using assms(4) by (metis in_set_conv_nth)
  ultimately have "slot_ok QH (reliable H QH qs N) (slot_at a (N v))"
    using assms(3) by (simp add: net_ok_def scp_ok_def)
  with a(2) show ?thesis
    by (auto simp: slot_ok_def)
qed

theorem externalize_at_most_once_witness:
  "cx_externalized (hd (scp_Slots lead_second)) = [] \<or>
   cx_externalized (hd (scp_Slots lead_second)) = [b_value (sl_Ballot (hd (scp_Slots lead_second)))] \<and>
   sl_IsCommitted (hd (scp_Slots lead_second))"
proof (rule externalize_at_most_once [OF lead_reachable [unfolded lead_init_def]])
  show "d_qsetHash lead_driver = d_qsetHash lead_driver" ..
  show "(2 :: uint256) \<in> {1, 2}"
    by simp
  show "hd (scp_Slots lead_second) \<in> set (scp_Slots (((net_init (\<lambda>_. lead_driver) (\<lambda>_. lead_qset))(1 := lead_first, 2 := lead_second)) 2))"
    using lead_second_runs by (cases "scp_Slots lead_second") auto
qed

subsection \<open>A ballot validated late\<close>

text \<open>
  \<open>validateBallot\<close> may answer later, and the herder does so by a timer. When the slot has committed
  in the meantime and the ballot is higher, the callback runs into the assertion of \<open>bumpToBallot\<close> that
  the slot is not committed, and the process ends.
\<close>

theorem late_ballot_aborts:
  assumes "sl_IsCommitted c" and "compareBallots D (sl_SlotIndex c) (st_ballot s) (sl_Ballot c) > 0"
  shows "run_deferred D fuel (BallotCb cb v s) True c = (Inl ScpAssertFailed, c)"
  using assms
  by (simp add: run_deferred_def ballot_cb_def bumpToBallot_def bind_def reads_def when_do_def scp_assert_def throw_def)

text \<open>
  Such a state is reached: the second node of the example receives a ballot that its driver does not
  validate at once, then the statement it commits by; the answer comes last.
\<close>

definition slow_driver :: Driver where
  "slow_driver = lead_driver\<lparr>d_validateBallot := (\<lambda>_ _ _. None)\<rparr>"

definition late_envelope :: SCPEnvelope where
  "late_envelope = \<lparr>en_nodeID = 1, en_statement = \<lparr>st_slotIndex = 1, st_ballot = Ballot 9 [6],
     st_quorumSetHash = 7, st_pledges = Prepare [] None\<rparr>, en_signature = 0\<rparr>"

definition late_node :: SCP where
  "late_node = snd (receiveEnvelope slow_driver 9 lead_envelope (snd (receiveEnvelope slow_driver 9 late_envelope (lead_init 2))))"

lemma late_node_runs:
  "map (\<lambda>c. (sl_IsCommitted c, sl_SlotIndex c, b_counter (sl_Ballot c), cx_deferred c)) (scp_Slots late_node) =
   [(True, 1, 0, [BallotCb (Answer late_envelope) 1 (en_statement late_envelope)])]"
  by code_simp

theorem late_ballot_aborts_witness:
  "fst (deferred_answer slow_driver 9 0 0 True late_node) = Inl ScpAssertFailed"
proof -
  let ?c = "slot_at 0 late_node"
  have c: "sl_IsCommitted (scp_Slots late_node ! 0)" "b_counter (sl_Ballot (scp_Slots late_node ! 0)) = 0"
    "cx_deferred (scp_Slots late_node ! 0) = [BallotCb (Answer late_envelope) 1 (en_statement late_envelope)]"
    using late_node_runs by auto
  then have "run_deferred slow_driver 9 (BallotCb (Answer late_envelope) 1 (en_statement late_envelope)) True
      (?c\<lparr>cx_deferred := []\<rparr>) = (Inl ScpAssertFailed, ?c\<lparr>cx_deferred := []\<rparr>)"
    by (intro late_ballot_aborts) (simp_all add: compareBallots_def late_envelope_def)
  with c show ?thesis
    by (simp add: deferred_answer_def on_slot_def bind_def reads_def when_do_def modify_def)
qed

subsection \<open>A node with more quorum sets than its cache holds\<close>

text \<open>One run of the body of \<open>advanceSlot\<close> that asks for another one.\<close>

definition advance_round :: "Driver \<Rightarrow> Ctx \<Rightarrow> Ctx option" where
  "advance_round D c =
     (if sl_InAdvanceSlot c then None
      else case catch_missing D (advance_body D) (c\<lparr>sl_InAdvanceSlot := True\<rparr>) of
             (Inl e, c') \<Rightarrow> None
           | (Inr _, c') \<Rightarrow>
               if sl_RunAdvanceSlot c' then Some (c'\<lparr>sl_InAdvanceSlot := False, sl_RunAdvanceSlot := False\<rparr>) else None)"

fun rounds :: "Driver \<Rightarrow> nat \<Rightarrow> Ctx \<Rightarrow> Ctx option" where
  "rounds D 0 c = Some c"
| "rounds D (Suc n) c = (case advance_round D c of None \<Rightarrow> None | Some c' \<Rightarrow> rounds D n c')"

lemma advanceSlot_round: "advance_round D c = Some c' \<Longrightarrow> advanceSlot D (Suc fuel) c = advanceSlot D fuel c'"
  by (auto simp: advance_round_def bind_def reads_def modify_def when_do_def split: prod.splits sum.splits if_splits)

lemma advanceSlot_rounds: "rounds D n c = Some c' \<Longrightarrow> advanceSlot D (n + fuel) c = advanceSlot D fuel c'"
proof (induction n arbitrary: c)
  case (Suc n)
  then obtain c1 where "advance_round D c = Some c1" "rounds D n c1 = Some c'"
    by (auto split: option.splits)
  with Suc.IH advanceSlot_round show ?case
    by (metis add_Suc)
qed simp

lemma advanceSlot_starved: "rounds D n c \<noteq> None \<Longrightarrow> fuel < n \<Longrightarrow> fst (advanceSlot D fuel c) = Inl OutOfFuel"
proof (induction fuel arbitrary: n c)
  case 0
  then obtain m c' where "advance_round D c = Some c'"
    by (cases n) (auto split: option.splits)
  then have "\<not> sl_InAdvanceSlot c"
    by (auto simp: advance_round_def)
  then show ?case
    by (simp add: bind_def reads_def throw_def)
next
  case (Suc fuel)
  then obtain m c' where m: "n = Suc m" "advance_round D c = Some c'" "rounds D m c' \<noteq> None"
    by (cases n) (auto split: option.splits)
  with Suc.IH [OF m(3)] Suc.prems show ?case
    by (simp add: advanceSlot_round del: advanceSlot.simps)
qed

lemma advanceSlot_cycle:
  assumes "rounds D (Suc n) c = Some c"
  shows "fst (advanceSlot D fuel c) = Inl OutOfFuel"
proof (induction fuel rule: less_induct)
  case (less fuel)
  show ?case
  proof (cases "fuel < Suc n")
    case True
    with assms show ?thesis
      by (intro advanceSlot_starved [of D "Suc n"]) auto
  next
    case False
    then obtain k where k: "fuel = Suc n + k"
      by (metis le_Suc_ex not_less)
    then show ?thesis
      using advanceSlot_rounds [OF assms, of k] less.IH [of k] by simp
  qed
qed

text \<open>
  The node 2 has sent \<open>PREPARING\<close> statements for five ballots, each under a quorum set of its own, and
  node 1 has followed each; the quorum sets are answered at once. \<open>ks\<close> are those in the cache of node 2.
\<close>

definition thrash_qset :: "uint32 \<Rightarrow> SCPQuorumSet" where
  "thrash_qset t = \<lparr>qs_threshold = t, qs_validators = [1, 2, 3]\<rparr>"

definition thrash_driver :: Driver where
  "thrash_driver = lead_driver\<lparr>d_retrieveQuorumSet := (\<lambda>_ h. Some (thrash_qset (ucast h))),
     d_qsetHash := (\<lambda>q. ucast (qs_threshold q))\<rparr>"

definition thrash_statement :: "uint32 \<Rightarrow> Hash \<Rightarrow> SCPStatement" where
  "thrash_statement k h = \<lparr>st_slotIndex = 1, st_ballot = Ballot k [5], st_quorumSetHash = h, st_pledges = Prepare [] None\<rparr>"

definition thrash_slot :: "(uint32 \<times> Hash) list \<Rightarrow> Ctx" where
  "thrash_slot ks = \<lparr>sl_SlotIndex = 1, sl_Ballot = Ballot 14 [5], sl_IsPristine = False, sl_HeardFromQuorum = False,
     sl_IsCommitted = False, sl_IsExternalized = False, sl_InAdvanceSlot = False, sl_RunAdvanceSlot = False,
     sl_Statements =
       map (\<lambda>(k, h). (Ballot k [5], no_statements(PREPARING := [(1, thrash_statement k 3), (2, thrash_statement k h)])))
         [(10, 10), (11, 11), (12, 12), (13, 13), (14, 14)],
     cx_nodes = \<lparr>nd_local = new_LocalNode (d_qsetHash thrash_driver) 1 (thrash_qset 3),
       nd_known = [(1, TheLocalNode), (2, ANode (map (\<lambda>(k, h). (h, thrash_qset k)) ks))]\<rparr>,
     cx_emitted = map (\<lambda>k. \<lparr>en_nodeID = 1, en_statement = thrash_statement k 3, en_signature = 0\<rparr>) [10, 11, 12, 13, 14],
     cx_answers = [], cx_deferred = [], cx_retrievals = [], cx_externalized = [], cx_heard = []\<rparr>"

lemma thrash_rounds:
  "advance_round thrash_driver (thrash_slot [(13, 13), (12, 12), (11, 11), (10, 10)]) =
     Some (thrash_slot [(14, 14), (13, 13), (12, 12), (11, 11)])"
  "advance_round thrash_driver (thrash_slot [(14, 14), (13, 13), (12, 12), (11, 11)]) =
     Some (thrash_slot [(10, 10), (14, 14), (13, 13), (12, 12)])"
  "advance_round thrash_driver (thrash_slot [(10, 10), (14, 14), (13, 13), (12, 12)]) =
     Some (thrash_slot [(11, 11), (10, 10), (14, 14), (13, 13)])"
  "advance_round thrash_driver (thrash_slot [(11, 11), (10, 10), (14, 14), (13, 13)]) =
     Some (thrash_slot [(12, 12), (11, 11), (10, 10), (14, 14)])"
  "advance_round thrash_driver (thrash_slot [(12, 12), (11, 11), (10, 10), (14, 14)]) =
     Some (thrash_slot [(13, 13), (12, 12), (11, 11), (10, 10)])"
  by code_simp+

text \<open>
  A node whose statements name five quorum sets keeps \<open>advanceSlot\<close> from ever returning, when
  quorum sets are answered at once: the cache of a node holds four, each one that is fetched evicts the
  one that is needed next, and every answer makes \<open>advanceSlot\<close> start again, without bound.
\<close>

theorem advanceSlot_thrashes:
  "fst (advanceSlot thrash_driver fuel (thrash_slot [(13, 13), (12, 12), (11, 11), (10, 10)])) = Inl OutOfFuel"
  by (rule advanceSlot_cycle [of _ 4]) (simp add: thrash_rounds numeral_eq_Suc)

end
