(* ===== verification/Pending_Envelopes.thy ===== *)
theory Pending_Envelopes
  imports SCP_Node
begin

text \<open>
  \<open>src/herder/PendingEnvelopes.cpp\<close>: the envelopes received, by slot, until the herder hands them to
  the consensus protocol. Access to a slot that is not in the map enters it with an empty queue.
\<close>

record PendingEnvelopes =
  pe_Envelopes :: "(uint64, SCPEnvelope list) omap"
  pe_IsFutureCommitted :: "uint64 list"

definition new_PendingEnvelopes :: PendingEnvelopes where
  "new_PendingEnvelopes = \<lparr>pe_Envelopes = [], pe_IsFutureCommitted = []\<rparr>"

definition queue_at :: "uint64 \<Rightarrow> PendingEnvelopes \<Rightarrow> SCPEnvelope list" where
  "queue_at i p = (case map_of (pe_Envelopes p) i of None \<Rightarrow> [] | Some es \<Rightarrow> es)"

text \<open>The count of the envelopes with the value of the new one; their types are not looked at.\<close>

fun count_reaches :: "Value \<Rightarrow> nat \<Rightarrow> nat \<Rightarrow> SCPEnvelope list \<Rightarrow> bool" where
  "count_reaches x threshold k [] = False"
| "count_reaches x threshold k (e # es) =
     (let k' = (if b_value (st_ballot (en_statement e)) = x then k + 1 else k)
      in k' \<ge> threshold \<or> count_reaches x threshold k' es)"

definition checkFutureCommitted :: "SCPQuorumSet \<Rightarrow> SCPEnvelope \<Rightarrow> PendingEnvelopes \<Rightarrow> bool" where
  "checkFutureCommitted qset e p \<longleftrightarrow>
     st_type (en_statement e) = COMMITTED \<and> en_nodeID e \<in> set (qs_validators qset) \<and>
     count_reaches (b_value (st_ballot (en_statement e))) (unat (qs_threshold qset)) 0
       (queue_at (st_slotIndex (en_statement e)) p)"

definition pending_add :: "SCPQuorumSet \<Rightarrow> SCPEnvelope \<Rightarrow> PendingEnvelopes \<Rightarrow> PendingEnvelopes" where
  "pending_add qset e p =
     (let i = st_slotIndex (en_statement e); es = queue_at i p
      in if e \<in> set es then p
         else
           let p' = p\<lparr>pe_Envelopes := om_update i (es @ [e]) (pe_Envelopes p)\<rparr>
           in if checkFutureCommitted qset e p'
              then p'\<lparr>pe_IsFutureCommitted := os_insert i (pe_IsFutureCommitted p')\<rparr> else p')"

definition pending_erase :: "uint64 \<Rightarrow> PendingEnvelopes \<Rightarrow> PendingEnvelopes" where
  "pending_erase i p =
     \<lparr>pe_Envelopes = om_erase i (pe_Envelopes p), pe_IsFutureCommitted = os_erase i (pe_IsFutureCommitted p)\<rparr>"

definition pending_slots :: "PendingEnvelopes \<Rightarrow> uint64 list" where
  "pending_slots p = sort (map fst (pe_Envelopes p))"

definition eraseBelow :: "uint64 \<Rightarrow> PendingEnvelopes \<Rightarrow> PendingEnvelopes" where
  "eraseBelow i p =
     (let gone = filter (\<lambda>(k, es). k < i \<or> es = []) (pe_Envelopes p)
      in \<lparr>pe_Envelopes = filter (\<lambda>(k, es). \<not> (k < i \<or> es = [])) (pe_Envelopes p),
          pe_IsFutureCommitted = fold os_erase (map fst gone) (pe_IsFutureCommitted p)\<rparr>)"

definition pending_pop :: "uint64 \<Rightarrow> PendingEnvelopes \<Rightarrow> SCPEnvelope option \<times> PendingEnvelopes" where
  "pending_pop i p =
     (case queue_at i p of
        [] \<Rightarrow> (None, p\<lparr>pe_Envelopes := om_update i [] (pe_Envelopes p)\<rparr>)
      | e # es \<Rightarrow> (Some e, p\<lparr>pe_Envelopes := om_update i es (pe_Envelopes p)\<rparr>))"

definition isFutureCommitted :: "uint64 \<Rightarrow> PendingEnvelopes \<Rightarrow> bool" where
  "isFutureCommitted i p \<longleftrightarrow> i \<in> set (pe_IsFutureCommitted p)"

subsection \<open>Queues\<close>

text \<open>
  What is kept for each slot is a queue without duplicates, in order of arrival.
\<close>

definition pending_ok :: "PendingEnvelopes \<Rightarrow> bool" where
  "pending_ok p \<longleftrightarrow>
     om_wf (pe_Envelopes p) \<and> os_wf (pe_IsFutureCommitted p) \<and>
     (\<forall>i. distinct (queue_at i p) \<and> (\<forall>e \<in> set (queue_at i p). st_slotIndex (en_statement e) = i))"

lemma queue_at_update [simp]:
  "queue_at i (p\<lparr>pe_Envelopes := om_update k es (pe_Envelopes p)\<rparr>) = (if i = k then es else queue_at i p)"
  by (simp add: queue_at_def)

lemma queue_at_committed [simp]: "queue_at i (p\<lparr>pe_IsFutureCommitted := s\<rparr>) = queue_at i p"
  by (simp add: queue_at_def)

lemma pending_add_queue:
  "queue_at i (pending_add qset e p) =
     (if i = st_slotIndex (en_statement e) \<and> e \<notin> set (queue_at i p) then queue_at i p @ [e] else queue_at i p)"
  by (auto simp: pending_add_def Let_def)

lemma pending_erase_queue: "queue_at i (pending_erase k p) = (if i = k then [] else queue_at i p)"
  by (simp add: pending_erase_def queue_at_def)

lemma map_of_filter_wf: "om_wf m \<Longrightarrow> map_of (filter P m) k = (case map_of m k of None \<Rightarrow> None | Some v \<Rightarrow> if P (k, v) then Some v else None)"
  by (induction m) (fastforce simp: om_wf_Cons split: option.splits dest: map_of_SomeD)+

lemma eraseBelow_queue: "om_wf (pe_Envelopes p) \<Longrightarrow> queue_at k (eraseBelow i p) = (if k < i then [] else queue_at k p)"
  by (auto simp: eraseBelow_def queue_at_def Let_def map_of_filter_wf split: option.splits)

lemma om_wf_filter: "om_wf m \<Longrightarrow> om_wf (filter P m)"
  by (induction m) (auto simp: om_wf_Cons)

lemma os_wf_fold_erase: "os_wf s \<Longrightarrow> os_wf (fold os_erase ks s)"
  by (induction ks arbitrary: s) auto

lemma pending_ok_add: "pending_ok p \<Longrightarrow> pending_ok (pending_add qset e p)"
proof -
  assume ok: "pending_ok p"
  have "om_wf (pe_Envelopes (pending_add qset e p)) \<and> os_wf (pe_IsFutureCommitted (pending_add qset e p))"
    using ok by (simp add: pending_ok_def pending_add_def Let_def)
  moreover have "distinct (queue_at i (pending_add qset e p)) \<and>
      (\<forall>e' \<in> set (queue_at i (pending_add qset e p)). st_slotIndex (en_statement e') = i)" for i
    unfolding pending_add_queue using ok by (auto simp: pending_ok_def)
  ultimately show ?thesis
    by (simp add: pending_ok_def)
qed

lemma pending_ok_erase: "pending_ok p \<Longrightarrow> pending_ok (pending_erase i p)"
  unfolding pending_ok_def pending_erase_queue by (auto simp: pending_erase_def)

lemma pending_ok_eraseBelow: "pending_ok p \<Longrightarrow> pending_ok (eraseBelow i p)"
  unfolding pending_ok_def
  by (auto simp: eraseBelow_queue) (auto simp: eraseBelow_def Let_def om_wf_filter os_wf_fold_erase)

lemma pending_pop_queue:
  "fst (pending_pop i p) = (case queue_at i p of [] \<Rightarrow> None | e # _ \<Rightarrow> Some e)"
  "queue_at k (snd (pending_pop i p)) = (if k = i then tl (queue_at i p) else queue_at k p)"
  by (auto simp: pending_pop_def split: list.splits)

lemma pending_ok_pop: "pending_ok p \<Longrightarrow> pending_ok (snd (pending_pop i p))"
  unfolding pending_ok_def pending_pop_queue
  by (auto simp: pending_pop_def distinct_tl split: list.splits dest: list.set_sel(2))

end
