(* ===== verification/Timer.thy ===== *)
theory Timer
  imports Prelude "HOL-Library.Multiset" "HOL-Library.Sublist"
begin

text \<open>
  \<open>src/util/Timer.cpp\<close>: the clock that drives a node, its queue of events and the timers.

  A point in time counts nanoseconds. An event is its address in the heap of the clock and stands for
  its callback; what the callbacks are told is logged, an event with \<open>True\<close> for success and \<open>False\<close> for an
  aborted wait. A callback may use timers itself: the events that \<open>advanceTo\<close> has taken off the queue
  wait in \<open>ck_toDispatch\<close>, and any other call may come between two of them. The service for I/O and
  the timer of the system belong to asio; the time of the system is an argument. \<open>pick\<close> is the
  top of \<open>std::priority_queue\<close>, which leaves the order of events at the same time open.
\<close>

subsection \<open>Definitions\<close>

type_synonym time_point = int

definition to_time_t :: "time_point \<Rightarrow> uint64" where
  "to_time_t t = word_of_int (if t < 0 then - (- t div 1000000000) else t div 1000000000)"

definition from_time_t :: "int \<Rightarrow> time_point" where
  "from_time_t s = s * 1000000000"

record VirtualClockEvent =
  ev_Triggered :: bool
  ev_When :: time_point

record VirtualTimer =
  tm_ExpiryTime :: time_point
  tm_Events :: "nat list"
  tm_Cancelled :: bool
  tm_Deleting :: bool

record VirtualClock =
  ck_RealTime :: bool
  ck_Now :: time_point
  ck_Events :: "nat list"
  ck_FlushesIgnored :: nat
  ck_Destructing :: bool
  ck_heap :: "VirtualClockEvent list"
  ck_toDispatch :: "nat list"
  ck_calls :: "(nat \<times> bool) list"

type_synonym pq_top = "(nat \<Rightarrow> time_point) \<Rightarrow> nat list \<Rightarrow> nat"

text \<open>The constructor leaves \<open>mFlushesIgnored\<close> uninitialised: it is the argument \<open>junk\<close>.\<close>

definition new_VirtualClock :: "nat \<Rightarrow> bool \<Rightarrow> time_point \<Rightarrow> VirtualClock" where
  "new_VirtualClock junk real system = \<lparr>ck_RealTime = real, ck_Now = (if real then system else 0), ck_Events = [],
     ck_FlushesIgnored = junk, ck_Destructing = False, ck_heap = [], ck_toDispatch = [], ck_calls = []\<rparr>"

definition clock_now :: "time_point \<Rightarrow> VirtualClock \<Rightarrow> VirtualClock" where
  "clock_now system ck = (if ck_RealTime ck then ck\<lparr>ck_Now := system\<rparr> else ck)"

abbreviation when_of :: "VirtualClock \<Rightarrow> nat \<Rightarrow> time_point" where
  "when_of ck e \<equiv> ev_When (ck_heap ck ! e)"

abbreviation triggered :: "VirtualClock \<Rightarrow> nat \<Rightarrow> bool" where
  "triggered ck e \<equiv> ev_Triggered (ck_heap ck ! e)"

text \<open>\<open>trigger\<close> and \<open>cancel\<close> of an event.\<close>

definition fire :: "bool \<Rightarrow> nat \<Rightarrow> VirtualClock \<Rightarrow> VirtualClock" where
  "fire success e ck =
     (if triggered ck e then ck
      else ck\<lparr>ck_heap := (ck_heap ck)[e := (ck_heap ck ! e)\<lparr>ev_Triggered := True\<rparr>], ck_calls := ck_calls ck @ [(e, success)]\<rparr>)"

definition ev_trigger :: "nat \<Rightarrow> VirtualClock \<Rightarrow> VirtualClock" where
  "ev_trigger = fire True"

definition ev_cancel :: "nat \<Rightarrow> VirtualClock \<Rightarrow> VirtualClock" where
  "ev_cancel = fire False"

definition next_event :: "pq_top \<Rightarrow> VirtualClock \<Rightarrow> time_point" where
  "next_event pick ck = (if ck_Events ck = [] then INT64_MAX else min (when_of ck (pick (when_of ck) (ck_Events ck))) INT64_MAX)"

definition enqueue :: "nat \<Rightarrow> VirtualClock \<Rightarrow> VirtualClock" where
  "enqueue e ck = (if ck_Destructing ck then ck else ck\<lparr>ck_Events := ck_Events ck @ [e]\<rparr>)"

definition flushCancelledEvents :: "VirtualClock \<Rightarrow> VirtualClock" where
  "flushCancelledEvents ck =
     (if ck_Destructing ck then ck
      else if ck_FlushesIgnored ck \<le> length (ck_Events ck) then ck\<lparr>ck_FlushesIgnored := ck_FlushesIgnored ck + 1\<rparr>
      else ck\<lparr>ck_FlushesIgnored := 0, ck_Events := filter (\<lambda>e. \<not> triggered ck e) (ck_Events ck)\<rparr>)"

text \<open>The loops over the queue; it shrinks by one each time, so that its length is fuel enough.\<close>

fun cancel_loop :: "pq_top \<Rightarrow> nat \<Rightarrow> VirtualClock \<Rightarrow> VirtualClock" where
  "cancel_loop pick 0 ck = ck"
| "cancel_loop pick (Suc k) ck =
     (if ck_Events ck = [] then ck
      else
        let e = pick (when_of ck) (ck_Events ck)
        in cancel_loop pick k (ev_cancel e (ck\<lparr>ck_Events := remove1 e (ck_Events ck)\<rparr>)))"

definition cancelAllEvents :: "pq_top \<Rightarrow> VirtualClock \<Rightarrow> bool \<times> VirtualClock" where
  "cancelAllEvents pick ck = (ck_Events ck \<noteq> [], (cancel_loop pick (length (ck_Events ck)) ck)\<lparr>ck_Events := []\<rparr>)"

fun pop_due :: "pq_top \<Rightarrow> (nat \<Rightarrow> time_point) \<Rightarrow> time_point \<Rightarrow> nat \<Rightarrow> nat list \<Rightarrow> nat list \<times> nat list" where
  "pop_due pick w now 0 q = ([], q)"
| "pop_due pick w now (Suc k) q =
     (if q = [] then ([], q)
      else
        let e = pick w q
        in if w e > now then ([], q)
           else let (d, q') = pop_due pick w now k (remove1 e q) in (e # d, q'))"

definition advanceTo :: "pq_top \<Rightarrow> time_point \<Rightarrow> VirtualClock \<Rightarrow> nat \<times> VirtualClock" where
  "advanceTo pick n ck =
     (if ck_Destructing ck then (0, ck)
      else
        let (d, q) = pop_due pick (when_of ck) n (length (ck_Events ck)) (ck_Events ck)
        in (length d, ck\<lparr>ck_Now := n, ck_Events := q, ck_toDispatch := d\<rparr>))"

text \<open>The loop that dispatches, one event at a time.\<close>

definition dispatch_next :: "VirtualClock \<Rightarrow> VirtualClock" where
  "dispatch_next ck =
     (case ck_toDispatch ck of [] \<Rightarrow> ck | e # es \<Rightarrow> ev_trigger e (ck\<lparr>ck_toDispatch := es\<rparr>))"

definition advanceToNow :: "pq_top \<Rightarrow> time_point \<Rightarrow> VirtualClock \<Rightarrow> (nat \<times> VirtualClock) res" where
  "advanceToNow pick system ck =
     (if ck_Destructing ck then Inr (0, ck)
      else if \<not> ck_RealTime ck then Inl AssertFailed
      else Inr (advanceTo pick system (clock_now system ck)))"

definition advanceToNext :: "pq_top \<Rightarrow> VirtualClock \<Rightarrow> (nat \<times> VirtualClock) res" where
  "advanceToNext pick ck =
     (if ck_Destructing ck then Inr (0, ck)
      else if ck_RealTime ck then Inl AssertFailed
      else if ck_Events ck = [] then Inr (0, ck)
      else Inr (advanceTo pick (next_event pick ck) ck))"

definition destroy_clock :: "pq_top \<Rightarrow> VirtualClock \<Rightarrow> VirtualClock" where
  "destroy_clock pick ck = snd (cancelAllEvents pick (ck\<lparr>ck_Destructing := True\<rparr>))"

text \<open>Timers. \<open>mEvents\<close> is never cleared.\<close>

definition new_VirtualTimer :: "time_point \<Rightarrow> VirtualClock \<Rightarrow> VirtualTimer \<times> VirtualClock" where
  "new_VirtualTimer system ck =
     (let ck1 = clock_now system ck
      in (\<lparr>tm_ExpiryTime = ck_Now ck1, tm_Events = [], tm_Cancelled = False, tm_Deleting = False\<rparr>, ck1))"

definition timer_cancel :: "VirtualTimer \<Rightarrow> VirtualClock \<Rightarrow> VirtualTimer \<times> VirtualClock" where
  "timer_cancel t ck =
     (if tm_Cancelled t then (t, ck)
      else (t\<lparr>tm_Cancelled := True\<rparr>, flushCancelledEvents (fold ev_cancel (tm_Events t) ck)))"

definition expires_at :: "time_point \<Rightarrow> VirtualTimer \<Rightarrow> VirtualClock \<Rightarrow> VirtualTimer \<times> VirtualClock" where
  "expires_at when t ck = (let (t1, ck1) = timer_cancel t ck in (t1\<lparr>tm_ExpiryTime := when, tm_Cancelled := False\<rparr>, ck1))"

definition expires_from_now :: "time_point \<Rightarrow> time_point \<Rightarrow> VirtualTimer \<Rightarrow> VirtualClock \<Rightarrow> VirtualTimer \<times> VirtualClock" where
  "expires_from_now system d t ck =
     (let (t1, ck1) = timer_cancel t ck; ck2 = clock_now system ck1
      in (t1\<lparr>tm_ExpiryTime := wrap64 (ck_Now ck2 + d), tm_Cancelled := False\<rparr>, ck2))"

definition async_wait :: "VirtualTimer \<Rightarrow> VirtualClock \<Rightarrow> (VirtualTimer \<times> VirtualClock) res" where
  "async_wait t ck =
     (if tm_Cancelled t then Inr (t, ck)
      else if tm_Deleting t then Inl AssertFailed
      else
        let e = length (ck_heap ck)
        in Inr (t\<lparr>tm_Events := tm_Events t @ [e]\<rparr>,
             enqueue e (ck\<lparr>ck_heap := ck_heap ck @ [\<lparr>ev_Triggered = False, ev_When = tm_ExpiryTime t\<rparr>]\<rparr>)))"

definition destroy_timer :: "VirtualTimer \<Rightarrow> VirtualClock \<Rightarrow> VirtualClock" where
  "destroy_timer t ck = snd (timer_cancel (t\<lparr>tm_Deleting := True\<rparr>) ck)"

subsection \<open>Due events\<close>

locale priority_queue =
  fixes pick :: pq_top
  assumes top_in: "q \<noteq> [] \<Longrightarrow> pick w q \<in> set q"
    and top_least: "q \<noteq> [] \<Longrightarrow> x \<in> set q \<Longrightarrow> w (pick w q) \<le> w x"
begin

lemma pop_due_splits:
  "pop_due pick w now k q = (d, q') \<Longrightarrow> length q \<le> k \<Longrightarrow>
   mset q = mset d + mset q' \<and> sorted (map w d) \<and> (\<forall>e \<in> set d. w e \<le> now) \<and> (\<forall>e \<in> set q'. now < w e)"
proof (induction k arbitrary: q d)
  case (Suc k)
  let ?e = "pick w q"
  show ?case
  proof (cases "q = [] \<or> now < w ?e")
    case True
    then have "d = [] \<and> q' = q" using Suc.prems(1) by (auto simp: Let_def split: if_splits)
    moreover have "now < w x" if "x \<in> set q" for x
      using that True top_least [of q x w] by (cases "q = []") (auto intro: less_le_trans)
    ultimately show ?thesis by simp
  next
    case False
    then obtain d0 where d: "pop_due pick w now k (remove1 ?e q) = (d0, q')" "d = ?e # d0"
      using Suc.prems(1) by (auto simp: Let_def split: prod.splits)
    have e: "?e \<in> set q" using False top_in by blast
    with Suc.prems(2) have "length (remove1 ?e q) \<le> k" by (simp add: length_remove1)
    from Suc.IH [OF d(1) this] have IH: "mset (remove1 ?e q) = mset d0 + mset q'" "sorted (map w d0)"
      "\<forall>e \<in> set d0. w e \<le> now" "\<forall>e \<in> set q'. now < w e" by auto
    have q: "mset q = mset d + mset q'" using IH(1) e by (simp add: d(2)) (metis insert_DiffM set_mset_mset)
    then have "set d0 \<subseteq> set q" by (metis d(2) set_mset_mset set_mset_union set_subset_Cons Un_upper1 subset_trans)
    then have "\<forall>x \<in> set d0. w ?e \<le> w x" using False top_least [of q _ w] by blast
    with IH q False show ?thesis by (auto simp: d(2))
  qed
qed auto

end

text \<open>One top: the first of the earliest.\<close>

fun first_least :: pq_top where
  "first_least w [] = 0"
| "first_least w [e] = e"
| "first_least w (e # f # es) = (let g = first_least w (f # es) in if w e \<le> w g then e else g)"

interpretation binary_heap: priority_queue first_least
proof
  fix q :: "nat list" and w :: "nat \<Rightarrow> time_point" and x
  assume "q \<noteq> []"
  then show "first_least w q \<in> set q" by (induction w q rule: first_least.induct) (auto simp: Let_def)
  assume "x \<in> set q"
  with \<open>q \<noteq> []\<close> show "w (first_least w q) \<le> w x"
    by (induction w q rule: first_least.induct) (auto simp: Let_def)
qed

lemma filter_mset_False_all: "(\<And>x. x \<in># M \<Longrightarrow> \<not> P x) \<Longrightarrow> filter_mset P M = {#}"
  by (induction M) auto

text \<open>
  Advancing the clock takes exactly the events that are due off the queue, in the order of their
  times, whatever order the queue has for events at the same time; the others stay.
\<close>

theorem advanceTo_takes_due:
  assumes "priority_queue pick" "advanceTo pick n ck = (k, ck')" "\<not> ck_Destructing ck"
  shows "ck_Now ck' = n \<and> k = length (ck_toDispatch ck') \<and> sorted (map (when_of ck) (ck_toDispatch ck')) \<and>
    mset (ck_toDispatch ck') = filter_mset (\<lambda>e. when_of ck e \<le> n) (mset (ck_Events ck)) \<and>
    mset (ck_Events ck') = filter_mset (\<lambda>e. n < when_of ck e) (mset (ck_Events ck))"
proof -
  obtain d q where p: "pop_due pick (when_of ck) n (length (ck_Events ck)) (ck_Events ck) = (d, q)" by fastforce
  then have ck': "k = length d" "ck' = ck\<lparr>ck_Now := n, ck_Events := q, ck_toDispatch := d\<rparr>"
    using assms(2,3) by (auto simp: advanceTo_def)
  from priority_queue.pop_due_splits [OF assms(1) p] have
    s: "mset (ck_Events ck) = mset d + mset q" "sorted (map (when_of ck) d)" "\<forall>e \<in> set d. when_of ck e \<le> n" "\<forall>e \<in> set q. n < when_of ck e"
    by auto
  have "filter_mset (\<lambda>e. when_of ck e \<le> n) (mset d) = mset d" "filter_mset (\<lambda>e. when_of ck e \<le> n) (mset q) = {#}"
    "filter_mset (\<lambda>e. n < when_of ck e) (mset d) = {#}" "filter_mset (\<lambda>e. n < when_of ck e) (mset q) = mset q"
    using s(3,4) by (auto simp: filter_mset_eq_conv not_le not_less intro!: filter_mset_False_all)
  with s ck' show ?thesis by simp
qed

definition sample_clock :: VirtualClock where
  "sample_clock = (new_VirtualClock 0 False 0)
     \<lparr>ck_heap := map (\<lambda>t. \<lparr>ev_Triggered = False, ev_When = t\<rparr>) [9, 7, 3], ck_Events := [0, 1, 2]\<rparr>"

theorem advanceTo_takes_due_witness:
  "\<exists>ck'. advanceTo first_least 7 sample_clock = (2, ck') \<and> ck_toDispatch ck' = [2, 1] \<and> mset (ck_Events ck') = {#0#}"
proof -
  have "fst (advanceTo first_least 7 sample_clock) = 2 \<and> ck_toDispatch (snd (advanceTo first_least 7 sample_clock)) = [2, 1]"
    by code_simp
  then obtain ck' where a: "advanceTo first_least 7 sample_clock = (2, ck')" "ck_toDispatch ck' = [2, 1]" by (metis prod.collapse)
  have "\<not> ck_Destructing sample_clock" by code_simp
  with advanceTo_takes_due [OF binary_heap.priority_queue_axioms a(1)] a show ?thesis
    by (simp add: sample_clock_def new_VirtualClock_def)
qed

subsection \<open>Every callback once\<close>

text \<open>The clock and its timers: all the calls, in any order, also from within callbacks.\<close>

type_synonym timers = "VirtualClock \<times> VirtualTimer list"

inductive clock_step :: "pq_top \<Rightarrow> timers \<Rightarrow> timers \<Rightarrow> bool" for pick where
  now: "clock_step pick (ck, ts) (clock_now system ck, ts)"
| advance: "ck_toDispatch ck = [] \<Longrightarrow> advanceTo pick n ck = (k, ck') \<Longrightarrow> clock_step pick (ck, ts) (ck', ts)"
| dispatch: "clock_step pick (ck, ts) (dispatch_next ck, ts)"
| cancel_all: "cancelAllEvents pick ck = (b, ck') \<Longrightarrow> clock_step pick (ck, ts) (ck', ts)"
| destroy: "clock_step pick (ck, ts) (destroy_clock pick ck, ts)"
| create: "new_VirtualTimer system ck = (t, ck') \<Longrightarrow> clock_step pick (ck, ts) (ck', ts @ [t])"
| cancel: "i < length ts \<Longrightarrow> timer_cancel (ts ! i) ck = (t, ck') \<Longrightarrow> clock_step pick (ck, ts) (ck', ts[i := t])"
| set_at: "i < length ts \<Longrightarrow> expires_at w (ts ! i) ck = (t, ck') \<Longrightarrow> clock_step pick (ck, ts) (ck', ts[i := t])"
| set_from_now: "i < length ts \<Longrightarrow> expires_from_now system d (ts ! i) ck = (t, ck') \<Longrightarrow> clock_step pick (ck, ts) (ck', ts[i := t])"
| wait: "i < length ts \<Longrightarrow> async_wait (ts ! i) ck = Inr (t, ck') \<Longrightarrow> clock_step pick (ck, ts) (ck', ts[i := t])"
| delete: "i < length ts \<Longrightarrow> clock_step pick (ck, ts) (destroy_timer (ts ! i) ck, take i ts @ drop (Suc i) ts)"

text \<open>
  The invariant: the events that wait are all different, an event is triggered just when its
  callback was called, no callback was called twice, and unless the clock is being destroyed no event
  that is not triggered got lost.
\<close>

definition clock_ok :: "VirtualClock \<Rightarrow> bool" where
  "clock_ok ck \<longleftrightarrow>
     distinct (ck_Events ck @ ck_toDispatch ck) \<and> set (ck_Events ck @ ck_toDispatch ck) \<subseteq> {..<length (ck_heap ck)} \<and>
     distinct (map fst (ck_calls ck)) \<and> fst ` set (ck_calls ck) = {e. e < length (ck_heap ck) \<and> triggered ck e} \<and>
     (ck_Destructing ck \<or> (\<forall>e < length (ck_heap ck). triggered ck e \<or> e \<in> set (ck_Events ck @ ck_toDispatch ck)))"

definition timers_ok :: "timers \<Rightarrow> bool" where
  "timers_ok s \<longleftrightarrow> clock_ok (fst s) \<and> (\<forall>t \<in> set (snd s). set (tm_Events t) \<subseteq> {..<length (ck_heap (fst s))})"

lemma fire_heap [simp]: "length (ck_heap (fire b e ck)) = length (ck_heap ck)" "ck_Events (fire b e ck) = ck_Events ck"
  "ck_toDispatch (fire b e ck) = ck_toDispatch ck" "ck_Destructing (fire b e ck) = ck_Destructing ck"
  by (simp_all add: fire_def)

lemma fire_triggered: "e < length (ck_heap ck) \<Longrightarrow> triggered (fire b e ck) x \<longleftrightarrow> triggered ck x \<or> x = e"
  by (auto simp: fire_def nth_list_update)

text \<open>What firing does to the log.\<close>

lemma fire_calls:
  assumes "e < length (ck_heap ck)" "distinct (map fst (ck_calls ck))"
    "fst ` set (ck_calls ck) = {x. x < length (ck_heap ck) \<and> triggered ck x}"
  shows "distinct (map fst (ck_calls (fire b e ck)))"
    "fst ` set (ck_calls (fire b e ck)) = {x. x < length (ck_heap ck) \<and> triggered (fire b e ck) x}"
proof -
  have "triggered ck e \<or> e \<notin> fst ` set (ck_calls ck)" using assms(3) by auto
  then show "distinct (map fst (ck_calls (fire b e ck)))" using assms(2) by (auto simp: fire_def)
  have "fst ` set (ck_calls (fire b e ck)) = (if triggered ck e then fst ` set (ck_calls ck) else insert e (fst ` set (ck_calls ck)))"
    by (simp add: fire_def)
  then show "fst ` set (ck_calls (fire b e ck)) = {x. x < length (ck_heap ck) \<and> triggered (fire b e ck) x}"
    using assms(1,3) fire_triggered [OF assms(1)] by auto
qed

lemma clock_ok_fire:
  assumes "clock_ok ck" "e < length (ck_heap ck)"
  shows "clock_ok (fire b e ck)"
  using assms fire_calls [OF assms(2), of b] fire_triggered [OF assms(2), of b] unfolding clock_ok_def by simp blast

lemma clock_ok_fold_cancel:
  "clock_ok ck \<Longrightarrow> set es \<subseteq> {..<length (ck_heap ck)} \<Longrightarrow>
   clock_ok (fold ev_cancel es ck) \<and> length (ck_heap (fold ev_cancel es ck)) = length (ck_heap ck)"
  by (induction es arbitrary: ck) (auto simp: ev_cancel_def clock_ok_fire)

lemma clock_ok_flush: "clock_ok ck \<Longrightarrow> clock_ok (flushCancelledEvents ck)"
  by (auto simp: flushCancelledEvents_def clock_ok_def)

lemma flush_heap [simp]: "ck_heap (flushCancelledEvents ck) = ck_heap ck"
  by (simp add: flushCancelledEvents_def)

lemma timer_cancel_ok:
  assumes "timer_cancel t ck = (t', ck')" "clock_ok ck" "set (tm_Events t) \<subseteq> {..<length (ck_heap ck)}"
  shows "clock_ok ck' \<and> length (ck_heap ck') = length (ck_heap ck) \<and> tm_Events t' = tm_Events t"
  using assms clock_ok_fold_cancel [OF assms(2,3)] by (auto simp: timer_cancel_def clock_ok_flush split: if_splits)

lemma clock_now_ok: "clock_ok (clock_now system ck) = clock_ok ck" "ck_heap (clock_now system ck) = ck_heap ck"
  by (simp_all add: clock_now_def clock_ok_def)

lemma clock_ok_dequeue: "clock_ok ck \<Longrightarrow> triggered ck e \<Longrightarrow> clock_ok (ck\<lparr>ck_Events := remove1 e (ck_Events ck)\<rparr>)"
  by (auto simp: clock_ok_def set_remove1_eq)

text \<open>Cancelling everything: whatever leaves the queue is fired.\<close>

lemma cancel_loop_ok:
  assumes "priority_queue pick" "clock_ok ck" "length (ck_Events ck) \<le> k"
  shows "clock_ok (cancel_loop pick k ck) \<and> ck_Events (cancel_loop pick k ck) = [] \<and>
    length (ck_heap (cancel_loop pick k ck)) = length (ck_heap ck)"
  using assms(2,3)
proof (induction k arbitrary: ck)
  case (Suc k)
  show ?case
  proof (cases "ck_Events ck = []")
    case False
    let ?e = "pick (when_of ck) (ck_Events ck)"
    let ?ck = "fire False ?e (ck\<lparr>ck_Events := remove1 ?e (ck_Events ck)\<rparr>)"
    have e: "?e \<in> set (ck_Events ck)" using False priority_queue.top_in [OF assms(1)] by blast
    then have l: "?e < length (ck_heap ck)" using Suc.prems(1) by (auto simp: clock_ok_def)
    have "clock_ok ((fire False ?e ck)\<lparr>ck_Events := remove1 ?e (ck_Events (fire False ?e ck))\<rparr>)"
      using clock_ok_fire [OF Suc.prems(1) l] fire_triggered [OF l, of False ?e] by (intro clock_ok_dequeue) simp_all
    moreover have "(fire False ?e ck)\<lparr>ck_Events := remove1 ?e (ck_Events ck)\<rparr> = ?ck" by (simp add: fire_def)
    ultimately have "clock_ok ?ck" by simp
    moreover have "length (ck_Events ?ck) \<le> k" using e Suc.prems(2) by (simp add: length_remove1)
    ultimately show ?thesis using Suc.IH [of ?ck] False by (simp add: Let_def ev_cancel_def)
  qed (use Suc.prems in simp)
qed simp

lemma cancelAllEvents_ok:
  assumes "priority_queue pick" "clock_ok ck" "cancelAllEvents pick ck = (b, ck')"
  shows "clock_ok ck' \<and> length (ck_heap ck') = length (ck_heap ck)"
proof -
  have "ck' = cancel_loop pick (length (ck_Events ck)) ck"
    using assms(3) cancel_loop_ok [OF assms(1,2) order_refl] by (auto simp: cancelAllEvents_def)
  then show ?thesis using cancel_loop_ok [OF assms(1,2) order_refl] by simp
qed

lemma advanceTo_ok:
  assumes "priority_queue pick" "clock_ok ck" "ck_toDispatch ck = []" "advanceTo pick n ck = (k, ck')"
  shows "clock_ok ck' \<and> ck_heap ck' = ck_heap ck"
proof (cases "ck_Destructing ck")
  case False
  obtain d q where p: "pop_due pick (when_of ck) n (length (ck_Events ck)) (ck_Events ck) = (d, q)" by fastforce
  then have ck': "ck' = ck\<lparr>ck_Now := n, ck_Events := q, ck_toDispatch := d\<rparr>"
    using assms(4) False by (auto simp: advanceTo_def)
  have m: "mset (q @ d) = mset (ck_Events ck)"
    using priority_queue.pop_due_splits [OF assms(1) p] by (simp add: add.commute)
  then have "set (q @ d) = set (ck_Events ck)" "distinct (q @ d) = distinct (ck_Events ck)"
    by (metis mset_eq_setD, metis mset_eq_imp_distinct_iff)
  with assms(2,3) show ?thesis unfolding clock_ok_def ck' by (auto simp del: set_append distinct_append)
qed (use assms in \<open>simp add: advanceTo_def\<close>)

lemma dispatch_next_ok:
  assumes "clock_ok ck"
  shows "clock_ok (dispatch_next ck) \<and> length (ck_heap (dispatch_next ck)) = length (ck_heap ck)"
proof (cases "ck_toDispatch ck")
  case (Cons e es)
  then have l: "e < length (ck_heap ck)" using assms by (simp add: clock_ok_def)
  have "clock_ok (fire True e ck)" "triggered (fire True e ck) e"
    using clock_ok_fire [OF assms l] fire_triggered [OF l] by simp_all
  then have "clock_ok ((fire True e ck)\<lparr>ck_toDispatch := es\<rparr>)" using Cons by (auto simp: clock_ok_def)
  moreover have "(fire True e ck)\<lparr>ck_toDispatch := es\<rparr> = fire True e (ck\<lparr>ck_toDispatch := es\<rparr>)" by (simp add: fire_def)
  ultimately show ?thesis using Cons by (simp add: dispatch_next_def ev_trigger_def)
qed (use assms in \<open>simp add: dispatch_next_def\<close>)

lemma async_wait_ok:
  assumes "async_wait t ck = Inr (t', ck')" "clock_ok ck" "set (tm_Events t) \<subseteq> {..<length (ck_heap ck)}"
  shows "clock_ok ck' \<and> length (ck_heap ck) \<le> length (ck_heap ck') \<and> set (tm_Events t') \<subseteq> {..<length (ck_heap ck')}"
proof (cases "tm_Cancelled t")
  case False
  let ?n = "length (ck_heap ck)" and ?heap = "ck_heap ck @ [\<lparr>ev_Triggered = False, ev_When = tm_ExpiryTime t\<rparr>]"
  have ck': "ck' = enqueue ?n (ck\<lparr>ck_heap := ?heap\<rparr>)" "t' = t\<lparr>tm_Events := tm_Events t @ [?n]\<rparr>"
    using assms(1) False by (auto simp: async_wait_def Let_def split: if_splits)
  have "{e. e < Suc ?n \<and> ev_Triggered (?heap ! e)} = {e. e < ?n \<and> triggered ck e}" by (auto simp: nth_append less_Suc_eq)
  moreover have "?n \<notin> set (ck_Events ck @ ck_toDispatch ck)" using assms(2) by (auto simp: clock_ok_def)
  ultimately show ?thesis using assms(2,3) unfolding ck'
    by (auto simp: clock_ok_def enqueue_def nth_append less_Suc_eq)
qed (use assms in \<open>auto simp: async_wait_def\<close>)

lemma timers_ok_update:
  assumes "timers_ok (ck, ts)" "i < length ts" "clock_ok ck'" "length (ck_heap ck) \<le> length (ck_heap ck')"
    and "set (tm_Events t) \<subseteq> {..<length (ck_heap ck')}"
  shows "timers_ok (ck', ts[i := t])"
proof -
  have "set (tm_Events u) \<subseteq> {..<length (ck_heap ck')}" if "u \<in> set ts" for u
    using assms(1,4) that by (fastforce simp: timers_ok_def)
  moreover have "set (ts[i := t]) \<subseteq> insert t (set ts)" by (rule set_update_subset_insert)
  ultimately show ?thesis using assms(3,5) unfolding timers_ok_def fst_conv snd_conv by blast
qed

lemma clock_step_ok:
  assumes "clock_step pick s s'" "priority_queue pick" "timers_ok s"
  shows "timers_ok s'"
  using assms(1)
proof cases
  case (now ck ts system)
  with assms(3) show ?thesis by (simp add: timers_ok_def clock_now_ok)
next
  case (advance ck n k ck' ts)
  with assms(3) advanceTo_ok [OF assms(2) _ advance(3,4)] show ?thesis by (simp add: timers_ok_def)
next
  case (dispatch ck ts)
  with assms(3) dispatch_next_ok [of ck] show ?thesis by (simp add: timers_ok_def)
next
  case (cancel_all ck b ck' ts)
  with assms(3) cancelAllEvents_ok [OF assms(2) _ cancel_all(3)] show ?thesis by (simp add: timers_ok_def)
next
  case (destroy ck ts)
  have "clock_ok (ck\<lparr>ck_Destructing := True\<rparr>)" using assms(3) by (simp add: destroy timers_ok_def clock_ok_def)
  from cancelAllEvents_ok [OF assms(2) this, of "fst (cancelAllEvents pick (ck\<lparr>ck_Destructing := True\<rparr>))" "destroy_clock pick ck"]
  show ?thesis using assms(3) by (simp add: destroy timers_ok_def destroy_clock_def)
next
  case (create system ck t ck' ts)
  with assms(3) show ?thesis by (fastforce simp: new_VirtualTimer_def Let_def timers_ok_def clock_now_ok)
next
  case (cancel i ts ck t ck')
  then have "clock_ok ck" "set (tm_Events (ts ! i)) \<subseteq> {..<length (ck_heap ck)}" using assms(3) by (simp_all add: timers_ok_def)
  from timer_cancel_ok [OF cancel(4) this] this(2) show ?thesis
    using assms(3) unfolding cancel(1,2) by (intro timers_ok_update [OF _ cancel(3)]) auto
next
  case (set_at i ts w ck t ck')
  then have ok: "clock_ok ck" "set (tm_Events (ts ! i)) \<subseteq> {..<length (ck_heap ck)}" using assms(3) by (simp_all add: timers_ok_def)
  obtain t1 where c: "timer_cancel (ts ! i) ck = (t1, ck')" "t = t1\<lparr>tm_ExpiryTime := w, tm_Cancelled := False\<rparr>"
    using set_at(4) by (auto simp: expires_at_def split: prod.splits)
  from timer_cancel_ok [OF c(1) ok] ok(2) show ?thesis
    using assms(3) unfolding set_at(1,2) c(2) by (intro timers_ok_update [OF _ set_at(3)]) auto
next
  case (set_from_now i ts system d ck t ck')
  then have ok: "clock_ok ck" "set (tm_Events (ts ! i)) \<subseteq> {..<length (ck_heap ck)}" using assms(3) by (simp_all add: timers_ok_def)
  obtain t1 ck1 where c: "timer_cancel (ts ! i) ck = (t1, ck1)" "ck' = clock_now system ck1" "tm_Events t = tm_Events t1"
    using set_from_now(4) by (auto simp: expires_from_now_def Let_def split: prod.splits)
  from timer_cancel_ok [OF c(1) ok] ok(2) show ?thesis
    using assms(3) unfolding set_from_now(1,2) c(2) by (intro timers_ok_update [OF _ set_from_now(3)]) (auto simp: clock_now_ok c(3))
next
  case (wait i ts ck t ck')
  then have "clock_ok ck" "set (tm_Events (ts ! i)) \<subseteq> {..<length (ck_heap ck)}" using assms(3) by (simp_all add: timers_ok_def)
  from async_wait_ok [OF wait(4) this] show ?thesis
    using assms(3) unfolding wait(1,2) by (intro timers_ok_update [OF _ wait(3)]) auto
next
  case (delete i ts ck)
  let ?t = "(ts ! i)\<lparr>tm_Deleting := True\<rparr>"
  have ok: "clock_ok ck" "set (tm_Events ?t) \<subseteq> {..<length (ck_heap ck)}" using assms(3) delete by (simp_all add: timers_ok_def)
  have "timer_cancel ?t ck = (fst (timer_cancel ?t ck), destroy_timer (ts ! i) ck)" by (simp add: destroy_timer_def)
  from timer_cancel_ok [OF this ok] have "clock_ok (destroy_timer (ts ! i) ck)"
    "length (ck_heap (destroy_timer (ts ! i) ck)) = length (ck_heap ck)" by simp_all
  moreover have "set (take i ts @ drop (Suc i) ts) \<subseteq> set ts" by (auto dest: in_set_takeD in_set_dropD)
  ultimately show ?thesis using assms(3) unfolding delete(1,2) timers_ok_def fst_conv snd_conv by (metis subsetD)
qed

lemma clock_reach_ok:
  assumes "(clock_step pick)\<^sup>*\<^sup>* s s'" "priority_queue pick" "timers_ok s"
  shows "timers_ok s'"
  using assms by (induction rule: rtranclp_induct) (auto intro: clock_step_ok)

text \<open>The time of an event never changes.\<close>

abbreviation times :: "VirtualClock \<Rightarrow> time_point list" where
  "times ck \<equiv> map ev_When (ck_heap ck)"

lemma times_fire [simp]: "times (fire b e ck) = times ck"
  by (cases "e < length (ck_heap ck)") (simp_all add: fire_def map_update list_update_same_conv list_update_beyond)

lemma times_simps [simp]: "times (fold ev_cancel es ck) = times ck" "times (cancel_loop pick k ck) = times ck"
    "ck_heap (clock_now system ck) = ck_heap ck"
proof -
  show "times (fold ev_cancel es ck) = times ck" by (induction es arbitrary: ck) (simp_all add: ev_cancel_def)
  show "times (cancel_loop pick k ck) = times ck" by (induction k arbitrary: ck) (simp_all add: ev_cancel_def Let_def)
qed (simp add: clock_now_def)

lemma times_timer [simp]: "times (snd (timer_cancel t ck)) = times ck" "ck_heap (snd (advanceTo pick n ck)) = ck_heap ck"
    "times (dispatch_next ck) = times ck" "times (snd (cancelAllEvents pick ck)) = times ck"
  by (simp_all add: timer_cancel_def advanceTo_def dispatch_next_def ev_trigger_def cancelAllEvents_def split: list.split prod.split)

lemma times_timer_cancel: "timer_cancel t ck = (t', ck') \<Longrightarrow> times ck' = times ck"
  by (metis times_timer(1) snd_conv)

lemma clock_step_times:
  assumes "clock_step pick s s'"
  shows "prefix (times (fst s)) (times (fst s'))"
  using assms
proof cases
  case (wait i ts ck t ck')
  then show ?thesis by (auto simp: async_wait_def enqueue_def Let_def split: if_splits)
next
  case (set_at i ts w ck t ck')
  then show ?thesis by (auto simp: expires_at_def split: prod.splits dest!: times_timer_cancel)
next
  case (set_from_now i ts system d ck t ck')
  then show ?thesis by (auto simp: expires_from_now_def Let_def split: prod.splits dest!: times_timer_cancel)
next
  case (advance ck n k ck' ts)
  then show ?thesis using times_timer(2) [of pick n ck] by simp
next
  case (cancel_all ck b ck' ts)
  then show ?thesis using times_timer(4) [of pick ck] by simp
next
  case (cancel i ts ck t ck')
  then show ?thesis by (auto dest!: times_timer_cancel)
qed (auto simp: destroy_clock_def destroy_timer_def new_VirtualTimer_def Let_def)

lemma clock_reach_times:
  assumes "(clock_step pick)\<^sup>*\<^sup>* (ck, ts) (ck', ts')" "e < length (ck_heap ck)"
  shows "e < length (ck_heap ck') \<and> when_of ck' e = when_of ck e"
proof -
  have "(clock_step pick)\<^sup>*\<^sup>* s s' \<Longrightarrow> prefix (times (fst s)) (times (fst s'))" for s s'
    by (induction rule: rtranclp_induct) (auto intro: clock_step_times prefix_order.trans)
  from this [OF assms(1)] obtain ws where w: "times ck' = times ck @ ws" by (auto simp: prefix_def)
  have "length (ck_heap ck) \<le> length (ck_heap ck')" using arg_cong [OF w, of length] by simp
  with assms(2) w show ?thesis by (metis less_le_trans nth_append nth_map length_map)
qed

text \<open>The events that were due are called when all of them have been dispatched.\<close>

lemma dispatch_all:
  "clock_ok ck \<Longrightarrow> x \<in> set (ck_toDispatch ck) \<or> x \<in> fst ` set (ck_calls ck) \<Longrightarrow>
   x \<in> fst ` set (ck_calls ((dispatch_next ^^ length (ck_toDispatch ck)) ck))"
proof (induction "ck_toDispatch ck" arbitrary: ck)
  case (Cons e es)
  let ?ck = "dispatch_next ck"
  have l: "e < length (ck_heap ck)" using Cons.prems(1) Cons.hyps(2) [symmetric] by (simp add: clock_ok_def)
  have d: "?ck = fire True e (ck\<lparr>ck_toDispatch := es\<rparr>)" using Cons.hyps(2) [symmetric] by (simp add: dispatch_next_def ev_trigger_def)
  have t: "ck_toDispatch ?ck = es" by (simp add: d)
  have "e \<in> fst ` set (ck_calls ?ck)" "fst ` set (ck_calls ck) \<subseteq> fst ` set (ck_calls ?ck)"
    using Cons.prems(1) l by (auto simp: d fire_def clock_ok_def)
  then have "x \<in> set (ck_toDispatch ?ck) \<or> x \<in> fst ` set (ck_calls ?ck)"
    using Cons.prems(2) Cons.hyps(2) [symmetric] by (auto simp: t)
  from Cons.hyps(1) [OF t [symmetric] _ this] dispatch_next_ok [OF Cons.prems(1)] Cons.hyps(2) [symmetric] show ?case
    by (simp add: t funpow_Suc_right del: funpow.simps(2))
qed auto

text \<open>
  C35: what becomes of a wait. A wait on a cancelled timer does nothing, its callback is dropped. On any other timer of a
  clock that is not being destroyed it puts an event for the time of the timer into the queue, not called yet; and whatever is done
  with the timers afterwards, also by callbacks while others are due, the callback is never called twice, be it for
  success or as aborted, and as long as the clock lives it has been called or is still in the queue or among the events
  being dispatched. Once the clock is advanced to the time or beyond it and has dispatched what was due, it has been
  called. The batching of the flushes loses nothing, although its counter starts with an arbitrary value.
\<close>

theorem timer_callbacks_once:
  assumes "priority_queue pick" "(clock_step pick)\<^sup>*\<^sup>* (new_VirtualClock junk real system, []) (ck0, ts0)"
    and "i < length ts0" "async_wait (ts0 ! i) ck0 = Inr (t, ck1)" "\<not> ck_Destructing ck0"
    and "(clock_step pick)\<^sup>*\<^sup>* (ck1, ts0[i := t]) (ck, ts)" "e = length (ck_heap ck0)"
  shows "if tm_Cancelled (ts0 ! i) then t = ts0 ! i \<and> ck1 = ck0
    else e \<in> set (ck_Events ck1) \<and> when_of ck1 e = tm_ExpiryTime (ts0 ! i) \<and> e \<notin> fst ` set (ck_calls ck1) \<and>
      length (filter (\<lambda>c. fst c = e) (ck_calls ck)) \<le> 1 \<and>
      (\<not> ck_Destructing ck \<longrightarrow> e \<in> fst ` set (ck_calls ck) \<or> e \<in> set (ck_Events ck @ ck_toDispatch ck)) \<and>
      (\<forall>n k ck'. \<not> ck_Destructing ck \<and> ck_toDispatch ck = [] \<and> tm_ExpiryTime (ts0 ! i) \<le> n \<and> advanceTo pick n ck = (k, ck') \<longrightarrow>
         e \<in> fst ` set (ck_calls ((dispatch_next ^^ k) ck')))"
proof (cases "tm_Cancelled (ts0 ! i)")
  case True
  then show ?thesis using assms(4) by (simp add: async_wait_def)
next
  case False
  have "timers_ok (new_VirtualClock junk real system, [])" by (simp add: timers_ok_def clock_ok_def new_VirtualClock_def)
  from clock_reach_ok [OF assms(2,1) this] have ok0: "timers_ok (ck0, ts0)" .
  have "clock_step pick (ck0, ts0) (ck1, ts0[i := t])" using assms(3,4) by (rule clock_step.wait)
  from clock_step_ok [OF this assms(1) ok0] have ok1: "timers_ok (ck1, ts0[i := t])" .
  have ok: "clock_ok ck" using clock_reach_ok [OF assms(6,1) ok1] by (simp add: timers_ok_def)
  have ck1: "ck1 = enqueue e (ck0\<lparr>ck_heap := ck_heap ck0 @ [\<lparr>ev_Triggered = False, ev_When = tm_ExpiryTime (ts0 ! i)\<rparr>]\<rparr>)"
    using assms(4,7) False by (auto simp: async_wait_def Let_def split: if_splits)
  have 1: "e \<in> set (ck_Events ck1)" "when_of ck1 e = tm_ExpiryTime (ts0 ! i)" "e < length (ck_heap ck1)"
    using assms(5,7) by (simp_all add: ck1 enqueue_def nth_append)
  have 2: "e \<notin> fst ` set (ck_calls ck1)" using ok0 assms(7) by (auto simp: ck1 enqueue_def timers_ok_def clock_ok_def)
  have e: "e < length (ck_heap ck)" "when_of ck e = tm_ExpiryTime (ts0 ! i)" using clock_reach_times [OF assms(6) 1(3)] 1(2) by simp_all
  have "length (filter (\<lambda>c. fst c = e) cs) \<le> 1" if "distinct (map fst cs)" for cs :: "(nat \<times> bool) list"
    using that by (induction cs) (auto simp: filter_empty_conv image_iff)
  then have 3: "length (filter (\<lambda>c. fst c = e) (ck_calls ck)) \<le> 1" using ok by (simp add: clock_ok_def)
  have 4: "e \<in> fst ` set (ck_calls ck) \<or> e \<in> set (ck_Events ck @ ck_toDispatch ck)" if "\<not> ck_Destructing ck"
    using ok e(1) that by (auto simp: clock_ok_def)
  have "e \<in> fst ` set (ck_calls ((dispatch_next ^^ k) ck'))"
    if a: "\<not> ck_Destructing ck" "ck_toDispatch ck = []" "tm_ExpiryTime (ts0 ! i) \<le> n" "advanceTo pick n ck = (k, ck')" for n k ck'
  proof -
    have k: "k = length (ck_toDispatch ck')" "mset (ck_toDispatch ck') = filter_mset (\<lambda>e. when_of ck e \<le> n) (mset (ck_Events ck))"
      using advanceTo_takes_due [OF assms(1) a(4,1)] by simp_all
    have "ck_calls ck' = ck_calls ck" using a(1,4) by (auto simp: advanceTo_def split: prod.splits)
    moreover have "e \<in> set (ck_toDispatch ck') \<or> e \<in> fst ` set (ck_calls ck)"
      using 4 [OF a(1)] a(2,3) e(2) arg_cong [OF k(2), of set_mset] by auto
    ultimately show ?thesis unfolding k(1) using advanceTo_ok [OF assms(1) ok a(2,4)] by (intro dispatch_all) simp_all
  qed
  with 1 2 3 4 False show ?thesis by auto
qed

theorem timer_callbacks_once_witness:
  "\<exists>ck ck'. advanceTo first_least 5 ck = (1, ck') \<and> ck_Events ck = [0] \<and> 0 \<in> fst ` set (ck_calls (dispatch_next ck'))"
proof -
  let ?ck = "new_VirtualClock 3 False 0"
  let ?t = "\<lparr>tm_ExpiryTime = 0, tm_Events = [], tm_Cancelled = False, tm_Deleting = False\<rparr>"
  have "new_VirtualTimer 0 ?ck = (?t, ?ck)" by (simp add: new_VirtualTimer_def clock_now_def new_VirtualClock_def)
  from clock_step.create [OF this, of first_least "[]"] have s1: "(clock_step first_least)\<^sup>*\<^sup>* (?ck, []) (?ck, [?t])" by auto
  have "case async_wait ([?t] ! 0) ?ck of Inr (t, ck) \<Rightarrow> ck_Events ck = [0] \<and> \<not> ck_Destructing ck \<and> ck_toDispatch ck = [] \<and>
      fst (advanceTo first_least 5 ck) = 1 | Inl _ \<Rightarrow> False" by code_simp
  then obtain t ck where w: "async_wait ([?t] ! 0) ?ck = Inr (t, ck)" "ck_Events ck = [0]" "\<not> ck_Destructing ck" "ck_toDispatch ck = []"
    "fst (advanceTo first_least 5 ck) = 1"
    by (auto split: sum.splits)
  then obtain ck' where a: "advanceTo first_least 5 ck = (1, ck')" by (metis prod.collapse)
  have h: "ck_heap ?ck = []" "\<not> ck_Destructing ?ck" by (simp_all add: new_VirtualClock_def)
  have "\<forall>n k ck'. \<not> ck_Destructing ck \<and> ck_toDispatch ck = [] \<and> 0 \<le> n \<and> advanceTo first_least n ck = (k, ck') \<longrightarrow>
      length (ck_heap ?ck) \<in> fst ` set (ck_calls ((dispatch_next ^^ k) ck'))"
    using timer_callbacks_once [OF binary_heap.priority_queue_axioms s1 _ w(1) h(2) rtranclp.rtrancl_refl refl] by simp (elim conjE)
  then have "length (ck_heap ?ck) \<in> fst ` set (ck_calls ((dispatch_next ^^ 1) ck'))" using w(3,4) a by (meson zero_le_numeral)
  with a w(2) h(1) show ?thesis by auto
qed

end
