(* ===== verification/Herder.thy ===== *)
theory Herder
  imports Ledger_Manager SCP_Instance Pending_Envelopes Timer
begin

text \<open>
  \<open>src/herder/HerderImpl.cpp\<close>: the values that the nodes vote on, their order and validation, the
  transactions waiting for a ledger, and the node's own proposals.

  A value is the XDR encoding of a \<open>PaysharesBallot\<close>; encoding, decoding, signatures and SHA-256 are
  the fields of \<open>HLib\<close>. The clock is read as the argument \<open>now\<close>. A method that hands over to the
  protocol or waits for an item to be fetched is modelled up to that point, and its continuation is a
  definition of its own.
\<close>

subsection \<open>Values\<close>

record PaysharesBallotValue =
  bv_txSetHash :: Hash
  bv_closeTime :: uint64
  bv_baseFee :: uint32

record PaysharesBallot =
  pb_nodeID :: uint256
  pb_signature :: "512 word"
  pb_value :: PaysharesBallotValue

record HLib = Lib +
  hl_encode :: "PaysharesBallot \<Rightarrow> Value"
  hl_decode :: "Value \<Rightarrow> PaysharesBallot option"
  hl_blank :: PaysharesBallot
  hl_roundHash :: "uint64 \<Rightarrow> uint32 \<Rightarrow> uint256 \<Rightarrow> Hash"
  hl_isZeroKey :: bool
  hl_publicKey :: uint256
  hl_signValue :: "PaysharesBallotValue \<Rightarrow> 512 word"
  hl_verifyValue :: "uint256 \<Rightarrow> 512 word \<Rightarrow> PaysharesBallotValue \<Rightarrow> bool"

text \<open>The order of the structure: field by field.\<close>

definition ballot_value_less :: "PaysharesBallotValue \<Rightarrow> PaysharesBallotValue \<Rightarrow> bool" where
  "ballot_value_less a b \<longleftrightarrow>
     bv_txSetHash a < bv_txSetHash b \<or>
     bv_txSetHash a = bv_txSetHash b \<and>
       (bv_closeTime a < bv_closeTime b \<or> bv_closeTime a = bv_closeTime b \<and> bv_baseFee a < bv_baseFee b)"

definition signPaysharesBallot :: "HLib \<Rightarrow> PaysharesBallotValue \<Rightarrow> PaysharesBallot" where
  "signPaysharesBallot L v = \<lparr>pb_nodeID = hl_publicKey L, pb_signature = hl_signValue L v, pb_value = v\<rparr>"

definition verifyPaysharesBallot :: "HLib \<Rightarrow> PaysharesBallot \<Rightarrow> bool" where
  "verifyPaysharesBallot L b = hl_verifyValue L (pb_nodeID b) (pb_signature b) (pb_value b)"

definition compare_ballots :: "HLib \<Rightarrow> uint64 \<Rightarrow> uint32 \<Rightarrow> PaysharesBallot \<Rightarrow> PaysharesBallot \<Rightarrow> int" where
  "compare_ballots L i n b1 b2 =
     (let h1 = hl_roundHash L i n (pb_nodeID b1); h2 = hl_roundHash L i n (pb_nodeID b2)
      in if h1 < h2 then -1 else if h2 < h1 then 1
         else if ballot_value_less (pb_value b1) (pb_value b2) then -1
         else if ballot_value_less (pb_value b2) (pb_value b1) then 1 else 0)"

definition compareValues :: "HLib \<Rightarrow> uint64 \<Rightarrow> uint32 \<Rightarrow> Value \<Rightarrow> Value \<Rightarrow> int res" where
  "compareValues L i n v1 v2 =
     (if v1 = [] then Inr (if v2 = [] then 0 else -1)
      else if v2 = [] then Inr 1
      else case (hl_decode L v1, hl_decode L v2) of
             (Some b1, Some b2) \<Rightarrow>
               if verifyPaysharesBallot L b1 \<and> verifyPaysharesBallot L b2 then Inr (compare_ballots L i n b1 b2)
               else Inl AssertFailed
           | _ \<Rightarrow> Inl AssertFailed)"

subsection \<open>The state\<close>

record ConsensusData =
  cd_ConsensusIndex :: uint64
  cd_ConsensusBallot :: PaysharesBallot

record HerderImpl =
  hd_ReceivedTransactions :: "TxPtr list list"
  hd_NodeLastAccess :: "(uint256, time_point) omap"
  hd_PendingEnvelopes :: PendingEnvelopes
  hd_BallotValidationTimers :: "(SCPBallot, (uint256, nat) omap) omap"
  hd_TrackingSCP :: "ConsensusData option"
  hd_LastTrigger :: time_point
  hd_CurrentValue :: Value
  hd_LastSentMessage :: "SCPEnvelope option"
  hd_SCP :: SCP
  hd_lm :: LedgerManager

definition EXP_LEDGER_TIMESPAN_SECONDS :: int where
  "EXP_LEDGER_TIMESPAN_SECONDS = 5"

definition MAX_SCP_TIMEOUT_SECONDS :: int where
  "MAX_SCP_TIMEOUT_SECONDS = 240"

definition MAX_TIME_SLIP_SECONDS :: uint64 where
  "MAX_TIME_SLIP_SECONDS = 60"

definition NODE_EXPIRATION_SECONDS :: int where
  "NODE_EXPIRATION_SECONDS = 240"

definition LEDGER_VALIDITY_BRACKET :: uint32 where
  "LEDGER_VALIDITY_BRACKET = 1000"

definition MAX_SLOTS_TO_REMEMBER :: uint64 where
  "MAX_SLOTS_TO_REMEMBER = 4"

definition isSynced :: "HerderImpl \<Rightarrow> bool" where
  "isSynced h \<longleftrightarrow> lm_State (hd_lm h) = LM_SYNCED_STATE"

definition new_HerderImpl :: "Driver \<Rightarrow> HLib \<Rightarrow> SCPQuorumSet \<Rightarrow> time_point \<Rightarrow> LedgerManager \<Rightarrow> HerderImpl" where
  "new_HerderImpl D L q now lm =
     \<lparr>hd_ReceivedTransactions = replicate 4 [], hd_NodeLastAccess = [], hd_PendingEnvelopes = new_PendingEnvelopes,
      hd_BallotValidationTimers = [], hd_TrackingSCP = None, hd_LastTrigger = now, hd_CurrentValue = [],
      hd_LastSentMessage = None, hd_SCP = new_SCP D (hl_publicKey L) q, hd_lm = lm\<rparr>"

datatype Herder_State = HERDER_SYNCING_STATE | HERDER_TRACKING_STATE

definition herder_getState :: "HerderImpl \<Rightarrow> Herder_State" where
  "herder_getState h = (if hd_TrackingSCP h \<noteq> None then HERDER_TRACKING_STATE else HERDER_SYNCING_STATE)"

text \<open>The index is one of 64 bits, the ledgers are numbered with 32.\<close>

definition lastConsensusLedgerIndex :: "ConsensusData \<Rightarrow> uint32 res" where
  "lastConsensusLedgerIndex t =
     (if cd_ConsensusIndex t \<le> 4294967295 then Inr (ucast (cd_ConsensusIndex t)) else Inl AssertFailed)"

definition nextConsensusLedgerIndex :: "ConsensusData \<Rightarrow> uint32 res" where
  "nextConsensusLedgerIndex t = rbind (lastConsensusLedgerIndex t) (\<lambda>i. Inr (i + 1))"

definition getCurrentLedgerSeq :: "HerderImpl \<Rightarrow> uint32" where
  "getCurrentLedgerSeq h =
     (case hd_TrackingSCP h of
        Some t \<Rightarrow> ucast (cd_ConsensusIndex t)
      | None \<Rightarrow> lh_ledgerSeq (lhe_header (lm_LastClosedLedger (hd_lm h))))"

definition nodeTouched :: "time_point \<Rightarrow> uint256 \<Rightarrow> HerderImpl \<Rightarrow> HerderImpl" where
  "nodeTouched now v h = h\<lparr>hd_NodeLastAccess := om_update v now (hd_NodeLastAccess h)\<rparr>"

subsection \<open>Validation\<close>

text \<open>
  The verdict on a value: refused, accepted, accepted while its transaction set is fetched, or
  depending on the set, which is fetched first.
\<close>

datatype ValueVerdict = ValueInvalid | ValueValid | ValueUnchecked Hash | ValueAwaits Hash

definition validateValue :: "HLib \<Rightarrow> time_point \<Rightarrow> uint64 \<Rightarrow> Value \<Rightarrow> HerderImpl \<Rightarrow> ValueVerdict res" where
  "validateValue L now i v h =
     (case hl_decode L v of
        None \<Rightarrow> Inr ValueInvalid
      | Some b \<Rightarrow>
          if \<not> verifyPaysharesBallot L b then Inr ValueInvalid
          else
            case hd_TrackingSCP h of
              None \<Rightarrow> Inr ValueValid
            | Some t \<Rightarrow>
                rbind (nextConsensusLedgerIndex t) (\<lambda>next_i. Inr (
                  if ucast next_i \<noteq> i then ValueInvalid
                  else if bv_closeTime (pb_value b) \<le> bv_closeTime (pb_value (cd_ConsensusBallot t)) then ValueInvalid
                  else if bv_closeTime (pb_value b) > to_time_t now + MAX_TIME_SLIP_SECONDS then ValueInvalid
                  else if \<not> isSynced h then ValueUnchecked (bv_txSetHash (pb_value b))
                  else ValueAwaits (bv_txSetHash (pb_value b)))))"

text \<open>The answer once the set is there.\<close>

definition txSet_arrived :: "HLib \<Rightarrow> TxSetFrame \<Rightarrow> HerderImpl \<Rightarrow> bool" where
  "txSet_arrived L ts h \<longleftrightarrow>
     \<not> isSynced h \<or>
     ts_checkValid (lib_sort L) (lib_envHash L) (lib_verify L) (lib_txHash L) (lhe_hash (lm_LastClosedLedger (hd_lm h)))
       (lm_CurrentLedger (hd_lm h)) (lm_db (hd_lm h)) ts"

text \<open>
  The timeouts of the rounds before the ballot, summed up as long as they lie in the past. From the
  63rd round on the conversion of the power is undefined in C++; the model takes the number meant.
\<close>

function sum_timeouts :: "uint64 \<Rightarrow> uint64 \<Rightarrow> nat \<Rightarrow> nat \<Rightarrow> uint64 \<Rightarrow> uint64" where
  "sum_timeouts limit lastTrigger counter i acc =
     (if i < counter \<and> limit \<ge> lastTrigger + acc
      then sum_timeouts limit lastTrigger counter (i + 1) (acc + word_of_int (min MAX_SCP_TIMEOUT_SECONDS (2 ^ i)))
      else acc)"
  by pat_completeness auto
termination
  by (relation "measure (\<lambda>(limit, lastTrigger, counter, i, acc). counter - i)") auto

declare sum_timeouts.simps [simp del]

definition isTrusted :: "HerderImpl \<Rightarrow> PaysharesBallot \<Rightarrow> bool" where
  "isTrusted h b \<longleftrightarrow>
     (\<exists>v \<in> set (qs_validators (ln_QSet (nd_local (scp_Nodes (hd_SCP h))))).
        pb_nodeID b = v \<or> pb_nodeID b = ln_nodeID (nd_local (scp_Nodes (hd_SCP h))))"

definition isKing :: "HLib \<Rightarrow> uint64 \<Rightarrow> uint32 \<Rightarrow> HerderImpl \<Rightarrow> PaysharesBallot \<Rightarrow> bool" where
  "isKing L i n h b \<longleftrightarrow>
     (\<forall>v \<in> set (qs_validators (ln_QSet (nd_local (scp_Nodes (hd_SCP h))))).
        \<not> hl_roundHash L i n (pb_nodeID b) < hl_roundHash L i n v)"

datatype BallotVerdict = BallotInvalid | BallotValid | BallotAwaits int

text \<open>
  A ballot that is not the king's has to wait for half the timeout of its round, in milliseconds; from
  the 23rd round on the conversion to \<open>int\<close> is undefined in C++, and the model has the number meant.
  The limit on the fee above is a product of 32 bits.
\<close>

definition validateBallot ::
    "HLib \<Rightarrow> Config \<Rightarrow> time_point \<Rightarrow> uint64 \<Rightarrow> uint256 \<Rightarrow> SCPBallot \<Rightarrow> HerderImpl \<Rightarrow> BallotVerdict res" where
  "validateBallot L cfg now i v ballot h =
     (case hl_decode L (b_value ballot) of
        None \<Rightarrow> Inr BallotInvalid
      | Some b \<Rightarrow>
          if bv_closeTime (pb_value b) > to_time_t now + MAX_TIME_SLIP_SECONDS then Inr BallotInvalid
          else
            rbind (case hd_TrackingSCP h of
                     None \<Rightarrow> Inr ()
                   | Some t \<Rightarrow> rbind (nextConsensusLedgerIndex t) (\<lambda>next_i.
                       if ucast next_i \<noteq> i then Inl (RuntimeError ''unexpected state'') else Inr ())) (\<lambda>_.
            let limit = to_time_t now + MAX_TIME_SLIP_SECONDS;
                lastTrigger = to_time_t (hd_LastTrigger h);
                sumTimeouts = sum_timeouts limit lastTrigger (unat (b_counter ballot)) 0 0;
                fee = uint (bv_baseFee (pb_value b))
            in Inr (
              if limit < lastTrigger + sumTimeouts then BallotInvalid
              else if 2 * fee < cfg_DESIRED_BASE_FEE cfg then BallotInvalid
              else if fee > (2 * cfg_DESIRED_BASE_FEE cfg) mod 2 ^ 32 then BallotInvalid
              else if hl_isZeroKey L \<and> v = ln_nodeID (nd_local (scp_Nodes (hd_SCP h))) then BallotInvalid
              else if isKing L i (b_counter ballot) h b \<and> isTrusted h b then BallotValid
              else BallotAwaits (500 * 2 ^ unat (b_counter ballot)))))"

text \<open>
  The timer of a ballot that has to wait. When the nodes that wait for it block the local node, all
  its timers are cancelled, and their callbacks accept the ballot.
\<close>

definition start_ballot_timer :: "uint256 \<Rightarrow> SCPBallot \<Rightarrow> (HerderImpl, bool) call" where
  "start_ballot_timer v ballot h =
     (let waiting = (case map_of (hd_BallotValidationTimers h) ballot of None \<Rightarrow> [] | Some m \<Rightarrow> m);
          waiting' = om_update v (Suc (case map_of waiting v of None \<Rightarrow> 0 | Some k \<Rightarrow> k)) waiting;
          (blocked, scp) = isVBlocking_nodes (map fst waiting') (hd_SCP h);
          h' = h\<lparr>hd_BallotValidationTimers := om_update ballot waiting' (hd_BallotValidationTimers h), hd_SCP := scp\<rparr>
      in if blocked = Inr True
         then (Inr True, h'\<lparr>hd_BallotValidationTimers := om_erase ballot (hd_BallotValidationTimers h')\<rparr>)
         else (blocked, h'))"

subsection \<open>Envelopes\<close>

text \<open>What is done with an envelope of the protocol: kept back, broadcast, or made the latest of the node's own.\<close>

definition emitEnvelope :: "HLib \<Rightarrow> SCPEnvelope \<Rightarrow> HerderImpl \<Rightarrow> SCPEnvelope option \<times> HerderImpl" where
  "emitEnvelope L e h =
     (if en_nodeID e = ln_nodeID (nd_local (scp_Nodes (hd_SCP h))) then
        if hl_isZeroKey L then (None, h)
        else if hd_TrackingSCP h = None \<or> \<not> isSynced h \<or> hd_CurrentValue h = [] then (None, h)
        else (Some e, h\<lparr>hd_LastSentMessage := Some e\<rparr>)
      else (Some e, h))"

definition rebroadcast :: "HerderImpl \<Rightarrow> SCPEnvelope option" where
  "rebroadcast h = hd_LastSentMessage h"

text \<open>Whether an envelope is in the bracket around the slot expected next.\<close>

definition in_bracket :: "HerderImpl \<Rightarrow> SCPEnvelope \<Rightarrow> bool res" where
  "in_bracket h e =
     (case hd_TrackingSCP h of
        None \<Rightarrow> Inr True
      | Some t \<Rightarrow>
          rbind (nextConsensusLedgerIndex t) (\<lambda>minLedgerSeq.
          let i = st_slotIndex (en_statement e); maxLedgerSeq = minLedgerSeq + LEDGER_VALIDITY_BRACKET
          in Inr (\<not> (i > ucast maxLedgerSeq \<or> i < ucast minLedgerSeq))))"

definition enqueue_envelope :: "SCPEnvelope \<Rightarrow> HerderImpl \<Rightarrow> HerderImpl res" where
  "enqueue_envelope e h =
     rbind (in_bracket h e) (\<lambda>ok. Inr (
     if \<not> ok then h
     else h\<lparr>hd_PendingEnvelopes :=
         pending_add (ln_QSet (nd_local (scp_Nodes (hd_SCP h)))) e (hd_PendingEnvelopes h)\<rparr>))"

text \<open>The slots whose queues are handed to the protocol, in this order, until the node tracks again.\<close>

definition slots_to_process :: "HerderImpl \<Rightarrow> (uint64 list \<times> HerderImpl) res" where
  "slots_to_process h =
     (case hd_TrackingSCP h of
        Some t \<Rightarrow>
          rbind (nextConsensusLedgerIndex t) (\<lambda>next_i.
          let h1 = h\<lparr>hd_PendingEnvelopes := eraseBelow (ucast next_i) (hd_PendingEnvelopes h)\<rparr>
          in Inr (if \<not> isSynced h \<or> isSynced h \<and> hd_CurrentValue h \<noteq> [] \<or>
                     isFutureCommitted (ucast next_i) (hd_PendingEnvelopes h1)
                  then ([ucast next_i], h1) else ([], h1)))
      | None \<Rightarrow> Inr (pending_slots (hd_PendingEnvelopes h), h))"

definition next_envelope :: "uint64 \<Rightarrow> HerderImpl \<Rightarrow> SCPEnvelope option \<times> HerderImpl" where
  "next_envelope i h =
     (let (e, p) = pending_pop i (hd_PendingEnvelopes h) in (e, h\<lparr>hd_PendingEnvelopes := p\<rparr>))"

subsection \<open>Transactions\<close>

text \<open>
  The pass over the transactions known: the fees of those of the same account and the highest of their
  sequence numbers, nothing if the transaction is known already.
\<close>

fun pool_scan :: "HLib \<Rightarrow> LedgerHeader \<Rightarrow> TxPtr \<Rightarrow> TxPtr list \<Rightarrow> int64 \<Rightarrow> SequenceNumber \<Rightarrow> (int64 \<times> SequenceNumber) option" where
  "pool_scan L lm tx [] totFee highSeq = Some (totFee, highSeq)"
| "pool_scan L lm tx (oldTX # olds) totFee highSeq =
     (if lib_envHash L (snd tx) = lib_envHash L (snd oldTX) then None
      else if getSourceID oldTX = getSourceID tx
      then pool_scan L lm tx olds (wrap64 (totFee + getFee lm (env_tx (snd oldTX))))
             (if getSeqNum oldTX > highSeq then getSeqNum oldTX else highSeq)
      else pool_scan L lm tx olds totFee highSeq)"

definition pool :: "HerderImpl \<Rightarrow> TxPtr list" where
  "pool h = concat (hd_ReceivedTransactions h)"

definition recvTransaction :: "HLib \<Rightarrow> TxPtr \<Rightarrow> HerderImpl \<Rightarrow> (bool \<times> TransactionResultCode \<times> HerderImpl) res" where
  "recvTransaction L tx h =
     (let lm = lm_CurrentLedger (hd_lm h)
      in case pool_scan L lm tx (pool h) (getFee lm (env_tx (snd tx))) 0 of
           None \<Rightarrow> Inr (False, txDUPLICATE, h)
         | Some (totFee, highSeq) \<Rightarrow>
             let (ok, tf) = tx_checkValid (lib_verify L) (lib_txHash L) lm highSeq (lm_db (hd_lm h)) (new_TxFrame (snd tx));
                 code = tr_code (tf_result tf)
             in if \<not> ok then Inr (False, code, h)
                else case tf_signing tf of
                       None \<Rightarrow> Inl AssertFailed
                     | Some f \<Rightarrow>
                         rbind (getBalanceAboveReserve lm f) (\<lambda>avail.
                         if avail < totFee then Inr (False, txINSUFFICIENT_BALANCE, h)
                         else Inr (True, code, h\<lparr>hd_ReceivedTransactions :=
                                (hd_ReceivedTransactions h)[0 := hd_ReceivedTransactions h ! 0 @ [tx]]\<rparr>)))"

fun recv_each :: "HLib \<Rightarrow> TxPtr list \<Rightarrow> bool \<Rightarrow> HerderImpl \<Rightarrow> (bool \<times> HerderImpl) res" where
  "recv_each L [] allGood h = Inr (allGood, h)"
| "recv_each L (tx # txs) allGood h =
     rbind (recvTransaction L tx h) (\<lambda>(ok, code, h1). recv_each L txs (allGood \<and> ok) h1)"

definition recvTransactions :: "HLib \<Rightarrow> TxSetFrame \<Rightarrow> HerderImpl \<Rightarrow> (bool \<times> TxSetFrame \<times> HerderImpl) res" where
  "recvTransactions L ts h =
     (let (txs, ts1) = sortForApply (lib_sort L) (lib_envHash L) (lib_setHash L) (lib_staleHash L) ts
      in rbind (recv_each L txs True h) (\<lambda>(ok, h1). Inr (ok, ts1, h1)))"

text \<open>The first of the lists that has the transaction loses it.\<close>

fun erase_tx :: "HLib \<Rightarrow> TxPtr \<Rightarrow> TxPtr list \<Rightarrow> TxPtr list option" where
  "erase_tx L tx [] = None"
| "erase_tx L tx (t # ts) =
     (if lib_envHash L (snd t) = lib_envHash L (snd tx) then Some ts else map_option (\<lambda>ts'. t # ts') (erase_tx L tx ts))"

fun erase_from_lists :: "HLib \<Rightarrow> TxPtr \<Rightarrow> TxPtr list list \<Rightarrow> TxPtr list list" where
  "erase_from_lists L tx [] = []"
| "erase_from_lists L tx (l # ls) =
     (case erase_tx L tx l of Some l' \<Rightarrow> l' # ls | None \<Rightarrow> l # erase_from_lists L tx ls)"

definition removeReceivedTx :: "HLib \<Rightarrow> TxPtr \<Rightarrow> HerderImpl \<Rightarrow> HerderImpl" where
  "removeReceivedTx L tx h = h\<lparr>hd_ReceivedTransactions := erase_from_lists L tx (hd_ReceivedTransactions h)\<rparr>"

text \<open>Every list is moved into the next higher one, from the top; the highest keeps what it has.\<close>

definition shift_list :: "nat \<Rightarrow> TxPtr list list \<Rightarrow> TxPtr list list" where
  "shift_list n ls = ls[n := ls ! n @ ls ! (n - 1), n - 1 := []]"

definition age_transactions :: "HerderImpl \<Rightarrow> HerderImpl" where
  "age_transactions h =
     h\<lparr>hd_ReceivedTransactions := fold shift_list (rev [1..<length (hd_ReceivedTransactions h)]) (hd_ReceivedTransactions h)\<rparr>"

subsection \<open>Proposals\<close>

text \<open>
  The set proposed is built from all transactions known. What trimming takes out never reaches the
  caller (\<open>trimInvalid\<close> takes the list by value), so that nothing is removed from those known.
\<close>

definition proposed_set :: "HLib \<Rightarrow> HerderImpl \<Rightarrow> TxSetFrame" where
  "proposed_set L h =
     trimInvalid (lib_sort L) (lib_envHash L) (lib_verify L) (lib_txHash L) (lm_CurrentLedger (hd_lm h)) (lm_db (hd_lm h))
       (fold ts_add (pool h) (new_TxSetFrame (lhe_hash (lm_LastClosedLedger (hd_lm h)))))"

definition trigger_propose :: "HLib \<Rightarrow> HerderImpl \<Rightarrow> (Hash \<times> TxSetFrame \<times> HerderImpl) option res" where
  "trigger_propose L h =
     (if hd_TrackingSCP h = None \<or> \<not> isSynced h then Inr None
      else
        let (txSetHash, ts) = getContentsHash (lib_sort L) (lib_envHash L) (lib_setHash L) (proposed_set L h)
        in rbind (recvTransactions L ts h) (\<lambda>(_, ts1, h1). Inr (Some (txSetHash, ts1, h1))))"

text \<open>The position taken on the set, and the call of \<open>prepareValue\<close> that follows.\<close>

definition trigger_position ::
    "HLib \<Rightarrow> Config \<Rightarrow> time_point \<Rightarrow> uint32 \<Rightarrow> Hash \<Rightarrow> HerderImpl \<Rightarrow> (uint64 \<times> Value) option \<times> HerderImpl" where
  "trigger_position L cfg now ledgerSeqToTrigger txSetHash h =
     (let lcl = lhe_header (lm_LastClosedLedger (hd_lm h)); slotIndex = lh_ledgerSeq lcl + 1
      in if ledgerSeqToTrigger \<noteq> slotIndex then (None, h)
         else
           let t = to_time_t (hd_LastTrigger h);
               nextCloseTime = (if t \<le> lh_closeTime lcl then lh_closeTime lcl + 1 else t);
               b = signPaysharesBallot L \<lparr>bv_txSetHash = txSetHash, bv_closeTime = nextCloseTime,
                     bv_baseFee = word_of_int (cfg_DESIRED_BASE_FEE cfg)\<rparr>;
               v = hl_encode L b
           in (Some (ucast slotIndex, v), h\<lparr>hd_CurrentValue := v, hd_LastTrigger := now\<rparr>))"

definition bootstrap_tracking :: "HLib \<Rightarrow> Config \<Rightarrow> bool \<Rightarrow> HerderImpl \<Rightarrow> HerderImpl res" where
  "bootstrap_tracking L cfg FORCE_SCP h =
     (if hl_isZeroKey L \<or> \<not> FORCE_SCP then Inl AssertFailed
      else
        let lcl = lhe_header (lm_LastClosedLedger (hd_lm h));
            b = signPaysharesBallot L \<lparr>bv_txSetHash = lh_txSetHash lcl, bv_closeTime = lh_closeTime lcl,
                  bv_baseFee = word_of_int (cfg_DESIRED_BASE_FEE cfg)\<rparr>
        in Inr (h\<lparr>hd_TrackingSCP := Some \<lparr>cd_ConsensusIndex = ucast (lh_ledgerSeq lcl), cd_ConsensusBallot = b\<rparr>,
                  hd_lm := setState LM_SYNCED_STATE (hd_lm h)\<rparr>))"

definition expireBallot :: "uint64 \<Rightarrow> HerderImpl \<Rightarrow> (uint64 \<times> Value) res" where
  "expireBallot i h =
     (case hd_TrackingSCP h of
        None \<Rightarrow> Inl AssertFailed
      | Some t \<Rightarrow> rbind (nextConsensusLedgerIndex t) (\<lambda>next_i.
          if i = ucast next_i then Inr (i, hd_CurrentValue h) else Inl AssertFailed))"

definition herderOutOfSync :: "HerderImpl \<Rightarrow> HerderImpl" where
  "herderOutOfSync h = h\<lparr>hd_TrackingSCP := None\<rparr>"

subsection \<open>An externalised value\<close>

definition track_value :: "HLib \<Rightarrow> uint64 \<Rightarrow> Value \<Rightarrow> HerderImpl \<Rightarrow> PaysharesBallot \<times> HerderImpl" where
  "track_value L i v h =
     (let b = (case hl_decode L v of Some b \<Rightarrow> b | None \<Rightarrow> hl_blank L)
      in (b, h\<lparr>hd_CurrentValue := [], hd_TrackingSCP := Some \<lparr>cd_ConsensusIndex = i, cd_ConsensusBallot = b\<rparr>\<rparr>))"

definition evict_nodes :: "time_point \<Rightarrow> HerderImpl \<Rightarrow> HerderImpl" where
  "evict_nodes now h =
     h\<lparr>hd_SCP := fold (\<lambda>(v, t). if now - t > NODE_EXPIRATION_SECONDS * 1000000000 then purgeNode v else (\<lambda>s. s))
         (hd_NodeLastAccess h) (hd_SCP h)\<rparr>"

definition evict_slots :: "uint64 \<Rightarrow> HerderImpl \<Rightarrow> HerderImpl" where
  "evict_slots i h =
     (if i > MAX_SLOTS_TO_REMEMBER then h\<lparr>hd_SCP := purgeSlots (i - MAX_SLOTS_TO_REMEMBER) (hd_SCP h)\<rparr> else h)"

text \<open>
  With the transaction set at hand: the ledger is closed with it, or buffered; its transactions are
  forgotten, those of the last round are broadcast again, nodes and slots are evicted. Without it
  the set is fetched, and the value comes back then.
\<close>

definition valueExternalized ::
    "HLib \<Rightarrow> Config \<Rightarrow> (Hash \<Rightarrow> bool) \<Rightarrow> time_point \<Rightarrow> uint64 \<Rightarrow> Value \<Rightarrow> TxSetFrame option \<Rightarrow> HerderImpl
      \<Rightarrow> (TxPtr list \<times> HerderImpl) res" where
  "valueExternalized L cfg held now i v found h =
     (let (b, h1) = track_value L i v h
      in case found of
           None \<Rightarrow> Inr ([], h1)
         | Some ts \<Rightarrow>
             rbind (if i \<le> 4294967295 then Inr (ucast i) else Inl AssertFailed) (\<lambda>seq.
             rbind (externalizeValue (Lib.truncate L) cfg held \<lparr>lcd_LedgerSeq = seq, lcd_TxSet = ts, lcd_CloseTime = bv_closeTime (pb_value b),
                 lcd_BaseFee = sint (bv_baseFee (pb_value b))\<rparr> (hd_lm h1)) (\<lambda>lm.
             let h2 = fold (removeReceivedTx L) (ts_Transactions ts) (h1\<lparr>hd_lm := lm\<rparr>)
             in if length (hd_ReceivedTransactions h2) < 2 then Inl AssertFailed
                else Inr (hd_ReceivedTransactions h2 ! 1, age_transactions (evict_slots i (evict_nodes now h2))))))"

text \<open>\<open>ledgerClosed\<close> up to the queue of the next slot, and the wait until the next proposal after it.\<close>

definition ledgerClosed :: "HerderImpl \<Rightarrow> (uint64 \<times> HerderImpl) res" where
  "ledgerClosed h =
     (case hd_TrackingSCP h of
        None \<Rightarrow> Inl AssertFailed
      | Some t \<Rightarrow>
          rbind (lastConsensusLedgerIndex t) (\<lambda>last_i.
          Inr (ucast (last_i + 1),
               h\<lparr>hd_PendingEnvelopes := pending_erase (ucast last_i) (hd_PendingEnvelopes h), hd_BallotValidationTimers := []\<rparr>)))"

definition trigger_delay :: "HLib \<Rightarrow> bool \<Rightarrow> time_point \<Rightarrow> uint64 \<Rightarrow> HerderImpl \<Rightarrow> (time_point option) res" where
  "trigger_delay L accelerate now nextIndex h =
     (case hd_TrackingSCP h of
        None \<Rightarrow> Inl AssertFailed
      | Some t \<Rightarrow>
          rbind (nextConsensusLedgerIndex t) (\<lambda>next_i.
          let timespan = (if accelerate then 1 else EXP_LEDGER_TIMESPAN_SECONDS) * 1000000000
          in Inr (if nextIndex \<noteq> ucast next_i \<or> hl_isZeroKey L \<or> \<not> isSynced h then None
                  else Some (if now - hd_LastTrigger h < timespan then timespan - (now - hd_LastTrigger h) else 0))))"

end
