(* ===== verification/Herder_Props.thy ===== *)
theory Herder_Props
  imports Herder Ledger_Props SCP_Agreement "HOL-Library.Option_ord" "HOL-Library.Product_Lexorder"
begin

text \<open>
  What the herder promises: an order on the values, ballots that do not outrun the clock, proposals
  that pass the node's own validation, and what becomes of the transactions it was sent.
\<close>

subsection \<open>The order of the values\<close>

text \<open>
  What the order looks at: nothing for the empty value, otherwise the rank of the proposing node in
  this round and the proposal. The signature does not count.
\<close>

definition value_key :: "HLib \<Rightarrow> uint64 \<Rightarrow> uint32 \<Rightarrow> Value \<Rightarrow> (Hash \<times> Hash \<times> uint64 \<times> uint32) option" where
  "value_key L i n v =
     (if v = [] then None
      else map_option (\<lambda>b. (hl_roundHash L i n (pb_nodeID b), bv_txSetHash (pb_value b), bv_closeTime (pb_value b),
             bv_baseFee (pb_value b))) (hl_decode L v))"

definition verified :: "HLib \<Rightarrow> Value \<Rightarrow> bool" where
  "verified L v \<longleftrightarrow> v = [] \<or> (case hl_decode L v of None \<Rightarrow> False | Some b \<Rightarrow> verifyPaysharesBallot L b)"

lemma ballot_value_less_key:
  "ballot_value_less a b \<longleftrightarrow>
     (bv_txSetHash a, bv_closeTime a, bv_baseFee a) < (bv_txSetHash b, bv_closeTime b, bv_baseFee b)"
  by (auto simp: ballot_value_less_def)

lemma compare_ballots_key:
  "compare_ballots L i n b1 b2 =
     (let k = (\<lambda>b. (hl_roundHash L i n (pb_nodeID b), bv_txSetHash (pb_value b), bv_closeTime (pb_value b), bv_baseFee (pb_value b)))
      in if k b1 < k b2 then -1 else if k b2 < k b1 then 1 else 0)"
  by (auto simp: compare_ballots_def ballot_value_less_key Let_def)

text \<open>
  The order of the values of a round is that of their keys, a linear order, whatever the
  hash function is: the empty value comes first, then the values go by the rank of the node that
  proposed them and by their proposals. A value that was not validated before stops the node.
\<close>

theorem compareValues_is_key_order:
  "(verified L v1 \<and> verified L v2 \<longrightarrow>
      compareValues L i n v1 v2 =
        Inr (if value_key L i n v1 < value_key L i n v2 then -1
             else if value_key L i n v2 < value_key L i n v1 then 1 else 0)) \<and>
   (v1 \<noteq> [] \<and> v2 \<noteq> [] \<and> \<not> (verified L v1 \<and> verified L v2) \<longrightarrow> compareValues L i n v1 v2 = Inl AssertFailed)"
  by (auto simp: compareValues_def value_key_def verified_def compare_ballots_key Let_def split: option.splits)

subsection \<open>Ballot counters and the clock\<close>

definition round_timeout :: "nat \<Rightarrow> nat" where
  "round_timeout i = min 240 (2 ^ i)"

lemma round_timeout_bounds: "0 < round_timeout i" "round_timeout i \<le> 240"
  by (simp_all add: round_timeout_def)

lemma round_timeout_word: "word_of_int (min MAX_SCP_TIMEOUT_SECONDS (2 ^ i)) = (of_nat (round_timeout i) :: uint64)"
proof -
  have "min 240 (2 ^ i) = int (round_timeout i)" by (simp add: round_timeout_def of_nat_min)
  then show ?thesis by (simp add: MAX_SCP_TIMEOUT_SECONDS_def)
qed

lemma late_word:
  fixes limit lastTrigger :: uint64
  assumes "unat lastTrigger + a < 2 ^ 64"
  shows "limit < lastTrigger + of_nat a \<longleftrightarrow> unat limit < unat lastTrigger + a"
proof -
  have "lastTrigger + of_nat a = of_nat (unat lastTrigger + a)" by simp
  then have "unat (lastTrigger + of_nat a) = unat lastTrigger + a"
    using assms by (simp only: unat_of_nat) simp
  then show ?thesis by (simp add: word_less_nat_alt)
qed

text \<open>The loop stops early only when the sum is too high already: nothing wraps around on the way.\<close>

lemma sum_timeouts_past:
  assumes "unat limit < 2 ^ 63" "unat lastTrigger < 2 ^ 63" "unat lastTrigger + a \<le> max (unat lastTrigger) (unat limit) + 240"
  shows "limit < lastTrigger + sum_timeouts limit lastTrigger c i (of_nat a) \<longleftrightarrow>
    unat limit < unat lastTrigger + a + (\<Sum>j = i..<c. round_timeout j)"
  using assms(3)
proof (induction "c - i" arbitrary: i a)
  case 0
  then have "sum_timeouts limit lastTrigger c i (of_nat a) = of_nat a" by (subst sum_timeouts.simps) simp
  moreover have "unat lastTrigger + a < 2 ^ 64" using 0 assms(1,2) by (auto simp: max_def split: if_splits)
  ultimately show ?case using 0 by (simp add: late_word)
next
  case (Suc k)
  have small: "unat lastTrigger + a < 2 ^ 64" using Suc.prems assms(1,2) by (auto simp: max_def split: if_splits)
  have split: "(\<Sum>j = i..<c. round_timeout j) = round_timeout i + (\<Sum>j = Suc i..<c. round_timeout j)"
    using Suc.hyps(2) by (simp add: sum.atLeast_Suc_lessThan)
  show ?case
  proof (cases "limit < lastTrigger + of_nat a")
    case True
    then have "sum_timeouts limit lastTrigger c i (of_nat a) = of_nat a"
      by (subst sum_timeouts.simps) (auto simp: not_le)
    with True small show ?thesis by (simp add: late_word)
  next
    case False
    moreover have "i < c" using Suc.hyps(2) by simp
    ultimately have "sum_timeouts limit lastTrigger c i (of_nat a) =
        sum_timeouts limit lastTrigger c (Suc i) (of_nat (a + round_timeout i))"
      by (subst sum_timeouts.simps) (simp add: round_timeout_word not_less)
    moreover have "unat lastTrigger + (a + round_timeout i) \<le> max (unat lastTrigger) (unat limit) + 240"
      using False small round_timeout_bounds(2) [of i] by (auto simp: late_word max_def)
    ultimately show ?thesis
      using Suc.hyps(1) [of "Suc i" "a + round_timeout i"] Suc.hyps(2) split by (simp add: add.assoc)
  qed
qed

lemma sum_round_timeout: "8 \<le> n \<Longrightarrow> (\<Sum>j = 0..<n. round_timeout j) = 255 + 240 * (n - 8)"
proof (induction n rule: nat_induct_at_least)
  case base
  show ?case by (simp add: round_timeout_def eval_nat_numeral)
next
  case (Suc n)
  have "(2::nat) ^ 8 \<le> 2 ^ n" using Suc.hyps by (intro power_increasing) simp_all
  with Suc show ?case by (simp add: round_timeout_def)
qed

text \<open>
  Ballots do not outrun the clock. A ballot that is accepted, at once or after the wait, has a
  counter for which the timeouts of all rounds before (powers of two, at most four minutes each) fit
  between the last proposal and now, with a minute of slip: at most eight rounds plus one for every four
  minutes.
\<close>

theorem validateBallot_bounds_counter:
  assumes "unat (to_time_t now) < 2 ^ 62" "unat (to_time_t (hd_LastTrigger h)) < 2 ^ 62"
    and "validateBallot L cfg now i v ballot h = Inr r" "r \<noteq> BallotInvalid"
  shows "unat (to_time_t (hd_LastTrigger h)) + (\<Sum>j = 0..<unat (b_counter ballot). round_timeout j)
      \<le> unat (to_time_t now) + 60 \<and>
    unat (b_counter ballot) \<le> 8 + (unat (to_time_t now) + 60 - unat (to_time_t (hd_LastTrigger h))) div 240"
proof -
  let ?n = "unat (b_counter ballot)" and ?limit = "to_time_t now + MAX_TIME_SLIP_SECONDS"
  let ?last = "to_time_t (hd_LastTrigger h)"
  have lim: "unat ?limit = unat (to_time_t now) + 60"
    using assms(1) by (simp add: MAX_TIME_SLIP_SECONDS_def unat_word_ariths)
  have "\<not> ?limit < ?last + sum_timeouts ?limit ?last ?n 0 0"
    using assms(3,4) by (auto simp: validateBallot_def Let_def rbind_eq_Inr split: option.splits if_splits)
  moreover have le: "unat ?last + 0 \<le> max (unat ?last) (unat ?limit) + 240" by (simp add: max_def)
  ultimately have fit: "unat ?last + (\<Sum>j = 0..<?n. round_timeout j) \<le> unat (to_time_t now) + 60"
    using sum_timeouts_past [OF _ _ le, of ?n 0] assms(1,2) lim by simp
  then have "?n \<le> 8 + (unat (to_time_t now) + 60 - unat ?last) div 240"
    using sum_round_timeout [of ?n] by (cases "8 \<le> ?n") simp_all
  with fit show ?thesis by simp
qed

text \<open>
  A node with a small ledger: values are written in unary, account 5 has sequence number 10, the
  ledger closed last is 7. The node proposed at second 100.
\<close>

definition unary :: "nat \<Rightarrow> Value" where
  "unary n = replicate n 0 @ [1]"

fun read_unary :: "Value \<Rightarrow> (nat \<times> Value) option" where
  "read_unary [] = None"
| "read_unary (x # xs) = (if x = 1 then Some (0, xs) else map_option (\<lambda>(n, ys). (Suc n, ys)) (read_unary xs))"

lemma read_unary [simp]: "read_unary (unary n @ xs) = Some (n, xs)" "read_unary (unary n) = Some (n, [])"
  by (induction n) (simp_all add: unary_def)

definition sample_encode :: "PaysharesBallot \<Rightarrow> Value" where
  "sample_encode b = unary (unat (pb_nodeID b)) @ unary (unat (pb_signature b)) @ unary (unat (bv_txSetHash (pb_value b))) @
     unary (unat (bv_closeTime (pb_value b))) @ unary (unat (bv_baseFee (pb_value b)))"

definition sample_decode :: "Value \<Rightarrow> PaysharesBallot option" where
  "sample_decode v =
     (case read_unary v of None \<Rightarrow> None | Some (n, v) \<Rightarrow>
      case read_unary v of None \<Rightarrow> None | Some (s, v) \<Rightarrow>
      case read_unary v of None \<Rightarrow> None | Some (h, v) \<Rightarrow>
      case read_unary v of None \<Rightarrow> None | Some (t, v) \<Rightarrow>
      map_option (\<lambda>(f, v). \<lparr>pb_nodeID = of_nat n, pb_signature = of_nat s,
        pb_value = \<lparr>bv_txSetHash = of_nat h, bv_closeTime = of_nat t, bv_baseFee = of_nat f\<rparr>\<rparr>) (read_unary v))"

lemma sample_decode_encode: "sample_decode (sample_encode b) = Some b"
  by (simp add: sample_decode_def sample_encode_def)

definition sample_ballot :: "Hash \<Rightarrow> uint64 \<Rightarrow> PaysharesBallot" where
  "sample_ballot txs t = \<lparr>pb_nodeID = 1, pb_signature = 3, pb_value = \<lparr>bv_txSetHash = txs, bv_closeTime = t, bv_baseFee = 10\<rparr>\<rparr>"

definition sample_hlib :: HLib where
  "sample_hlib = Lib.extend sample_lib
     \<lparr>hl_encode = sample_encode, hl_decode = sample_decode, hl_blank = sample_ballot 0 0, hl_roundHash = (\<lambda>i n v. ucast n XOR v),
      hl_isZeroKey = False, hl_publicKey = 1, hl_signValue = (\<lambda>v. 3), hl_verifyValue = (\<lambda>n s v. s = 3)\<rparr>"

definition sample_node :: LedgerManager where
  "sample_node = new_LedgerManager\<lparr>lm_State := LM_SYNCED_STATE,
     lm_LastClosedLedger := \<lparr>lhe_hash = 77, lhe_header = sample_lm\<lparr>lh_closeTime := 100\<rparr>\<rparr>,
     lm_CurrentLedger := sample_lm\<lparr>lh_ledgerSeq := 8\<rparr>, lm_db := fst sample_store\<rparr>"

definition sample_herder :: "TxPtr list \<Rightarrow> HerderImpl" where
  "sample_herder txs = (new_HerderImpl lead_driver sample_hlib lead_qset 100000000000 sample_node)
     \<lparr>hd_TrackingSCP := Some \<lparr>cd_ConsensusIndex = 7, cd_ConsensusBallot = sample_ballot 50 100\<rparr>,
      hd_ReceivedTransactions := [txs, [], [], []]\<rparr>"

theorem compareValues_is_key_order_witness:
  "compareValues sample_hlib 8 2 (sample_encode (sample_ballot 60 101)) (sample_encode (sample_ballot 60 102)) = Inr (-1) \<and>
   compareValues sample_hlib 8 2 (sample_encode (sample_ballot 60 101)) [1] = Inl AssertFailed"
proof -
  let ?v = "sample_encode (sample_ballot 60 101)" and ?w = "sample_encode (sample_ballot 60 102)"
  have "verified sample_hlib ?v" "verified sample_hlib ?w" "\<not> verified sample_hlib [1]" "?v \<noteq> []"
    "value_key sample_hlib 8 2 ?v < value_key sample_hlib 8 2 ?w" by code_simp+
  with compareValues_is_key_order [of sample_hlib ?v ?w 8 2] compareValues_is_key_order [of sample_hlib ?v "[1]" 8 2]
  show ?thesis by simp
qed

theorem validateBallot_bounds_counter_witness:
  "validateBallot sample_hlib sample_config 400000000000 8 2 (Ballot 8 (sample_encode (sample_ballot 60 101))) (sample_herder [])
     \<noteq> Inr BallotInvalid \<and>
   validateBallot sample_hlib sample_config 400000000000 8 2 (Ballot 10 (sample_encode (sample_ballot 60 101))) (sample_herder [])
     = Inr BallotInvalid \<and>
   (8 :: nat) \<le> 8 + (400 + 60 - 100) div 240"
proof -
  let ?b = "Ballot 8 (sample_encode (sample_ballot 60 101))"
  have v: "validateBallot sample_hlib sample_config 400000000000 8 2 ?b (sample_herder []) = Inr BallotValid"
    by code_simp
  have t: "unat (to_time_t 400000000000) = 400" "unat (to_time_t (hd_LastTrigger (sample_herder []))) = 100"
    "unat (b_counter ?b) = 8" by code_simp+
  have "validateBallot sample_hlib sample_config 400000000000 8 2 (Ballot 10 (sample_encode (sample_ballot 60 101))) (sample_herder [])
     = Inr BallotInvalid" by code_simp
  with validateBallot_bounds_counter [of 400000000000 "sample_herder []", OF _ _ v] t v show ?thesis by simp
qed

subsection \<open>The transactions waiting\<close>

text \<open>A scan either finds the transaction itself or a sequence number at least as high as any of the account's.\<close>

lemma pool_scan_None: "pool_scan L lm tx olds totFee s = None \<longleftrightarrow> (\<exists>old \<in> set olds. lib_envHash L (snd old) = lib_envHash L (snd tx))"
  by (induction L lm tx olds totFee s rule: pool_scan.induct) auto

lemma pool_scan_high:
  assumes "pool_scan L lm tx olds totFee s = Some (fee, high)"
  shows "s \<le> high \<and> (\<forall>old \<in> set olds. getSourceID old = getSourceID tx \<longrightarrow> getSeqNum old \<le> high)"
  using assms
proof (induction L lm tx olds totFee s rule: pool_scan.induct)
  case (2 L lm tx old olds totFee s)
  then show ?case by (cases "getSourceID old = getSourceID tx"; cases "getSeqNum old > s") (auto split: if_splits)
qed simp

lemma checked_seq:
  assumes "fst (tx_checkValid V CH lm high db (new_TxFrame e))" "high \<noteq> 0"
  shows "tx_seqNum (env_tx e) = high + 1"
proof -
  obtain tf where "tx_checkValid V CH lm high db (new_TxFrame e) = (True, tf)"
    using assms(1) by (metis prod.collapse)
  then obtain f where "asked f high = tx_seqNum (env_tx e)" by (rule tx_checkValid_valid)
  with assms(2) show ?thesis by (simp add: asked_def)
qed

text \<open>What is received is the transaction, at the end of the first list, or nothing.\<close>

lemma recvTransaction_pool:
  assumes "recvTransaction L tx h = Inr (ok, code, h')"
  shows "h' = (if ok then h\<lparr>hd_ReceivedTransactions := (hd_ReceivedTransactions h)[0 := hd_ReceivedTransactions h ! 0 @ [tx]]\<rparr> else h)"
  using assms by (auto simp: recvTransaction_def Let_def rbind_eq_Inr split: option.splits prod.splits if_splits)

lemma recvTransaction_behind:
  assumes "old \<in> set (pool h)" "getSourceID old = getSourceID tx" "0 < getSeqNum tx" "getSeqNum tx \<le> getSeqNum old"
  shows "\<exists>code. recvTransaction L tx h = Inr (False, code, h)"
proof (cases "pool_scan L (lm_CurrentLedger (hd_lm h)) tx (pool h) (getFee (lm_CurrentLedger (hd_lm h)) (env_tx (snd tx))) 0")
  case None
  then show ?thesis by (simp add: recvTransaction_def Let_def)
next
  case (Some r)
  obtain fee high where r: "r = (fee, high)" by fastforce
  have "getSeqNum old \<le> high" using pool_scan_high [OF Some [unfolded r]] assms(1,2) by blast
  moreover have "high < high + 1 \<or> high + 1 = 0"
    using word_less_nat_alt [of high "high + 1"] unatSuc [of high] by (auto simp: add.commute)
  ultimately have "high \<noteq> 0" "getSeqNum tx \<noteq> high + 1" using assms(3,4) by auto
  with checked_seq have "\<not> fst (tx_checkValid (lib_verify L) (lib_txHash L) (lm_CurrentLedger (hd_lm h)) high (lm_db (hd_lm h)) (new_TxFrame (snd tx)))"
    by (metis getSeqNum_def)
  with Some r show ?thesis by (auto simp: recvTransaction_def Let_def split: prod.splits)
qed

text \<open>Taking a transaction out of the lists takes it out of the pool.\<close>

lemma erase_tx_append:
  "erase_tx L tx (xs @ ys) =
     (case erase_tx L tx xs of Some xs' \<Rightarrow> Some (xs' @ ys) | None \<Rightarrow> map_option ((@) xs) (erase_tx L tx ys))"
  by (cases "erase_tx L tx ys"; induction xs) (auto split: option.splits)

lemma erase_from_lists_concat:
  "concat (erase_from_lists L tx ls) = (case erase_tx L tx (concat ls) of Some p \<Rightarrow> p | None \<Rightarrow> concat ls)"
  by (induction ls) (auto simp: erase_tx_append split: option.splits)

lemma erase_from_lists_length [simp]: "length (erase_from_lists L tx ls) = length ls"
  by (induction ls) (auto split: option.splits)

lemma erase_tx_Some:
  "erase_tx L tx xs = Some ys \<Longrightarrow>
   \<exists>us u vs. xs = us @ u # vs \<and> ys = us @ vs \<and> lib_envHash L (snd u) = lib_envHash L (snd tx)"
proof (induction xs arbitrary: ys)
  case (Cons x xs)
  show ?case
  proof (cases "lib_envHash L (snd x) = lib_envHash L (snd tx)")
    case True
    with Cons.prems show ?thesis by (intro exI [of _ "[]"]) auto
  next
    case False
    with Cons.prems obtain zs where "erase_tx L tx xs = Some zs" "ys = x # zs" by auto
    with Cons.IH [OF this(1)] show ?thesis by (metis append_Cons)
  qed
qed simp

abbreviation hashes :: "HLib \<Rightarrow> TxPtr list \<Rightarrow> Hash list" where
  "hashes L txs \<equiv> map (\<lambda>tx. lib_envHash L (snd tx)) txs"

lemma removeReceivedTx_erases:
  "pool (removeReceivedTx L tx h) = (case erase_tx L tx (pool h) of Some p \<Rightarrow> p | None \<Rightarrow> pool h)"
  by (simp add: removeReceivedTx_def pool_def erase_from_lists_concat split: option.split)

lemma removeReceivedTx_pool:
  "set (pool (removeReceivedTx L tx h)) \<subseteq> set (pool h)"
  "distinct (hashes L (pool h)) \<Longrightarrow> distinct (hashes L (pool (removeReceivedTx L tx h)))"
  "old \<in> set (pool h) \<Longrightarrow> lib_envHash L (snd old) \<noteq> lib_envHash L (snd tx) \<Longrightarrow> old \<in> set (pool (removeReceivedTx L tx h))"
  by (auto simp: removeReceivedTx_erases split: option.splits dest!: erase_tx_Some)

lemma removeReceivedTx_lists [simp]:
  "length (hd_ReceivedTransactions (removeReceivedTx L tx h)) = length (hd_ReceivedTransactions h)"
  "hd_PendingEnvelopes (removeReceivedTx L tx h) = hd_PendingEnvelopes h"
  by (simp_all add: removeReceivedTx_def)

lemma length_4E:
  assumes "length ls = 4"
  obtains a b c d where "ls = [a, b, c, d]"
  using assms by (auto simp: numeral_eq_Suc length_Suc_conv)

lemma age_transactions_lists:
  assumes "hd_ReceivedTransactions h = [a, b, c, d]"
  shows "hd_ReceivedTransactions (age_transactions h) = [[], a, b, d @ c]"
  using assms by (simp add: age_transactions_def upt_rec shift_list_def)

text \<open>
  What holds of the herder's state at all times: four lists of transactions, none waiting twice,
  and the queues of envelopes in order.
\<close>

definition herder_ok :: "HLib \<Rightarrow> HerderImpl \<Rightarrow> bool" where
  "herder_ok L h \<longleftrightarrow> length (hd_ReceivedTransactions h) = 4 \<and> distinct (hashes L (pool h)) \<and> pending_ok (hd_PendingEnvelopes h)"

text \<open>The steps of a herder, with everything that comes in from outside.\<close>

inductive herder_step :: "HLib \<Rightarrow> Config \<Rightarrow> Hash set \<Rightarrow> HerderImpl \<Rightarrow> HerderImpl \<Rightarrow> bool" for L cfg applied where
  touch: "herder_step L cfg applied h (nodeTouched now v h)"
| wait_ballot: "start_ballot_timer v ballot h = (r, h') \<Longrightarrow> herder_step L cfg applied h h'"
| emit: "emitEnvelope L e h = (r, h') \<Longrightarrow> herder_step L cfg applied h h'"
| envelope: "enqueue_envelope e h = Inr h' \<Longrightarrow> herder_step L cfg applied h h'"
| queues: "slots_to_process h = Inr (slots, h') \<Longrightarrow> herder_step L cfg applied h h'"
| pop_envelope: "next_envelope i h = (e, h') \<Longrightarrow> herder_step L cfg applied h h'"
| scp: "herder_step L cfg applied h (h\<lparr>hd_SCP := scp'\<rparr>)"
| transaction: "recvTransaction L tx h = Inr (ok, code, h') \<Longrightarrow> herder_step L cfg applied h h'"
| tx_set: "recvTransactions L ts h = Inr (ok, ts', h') \<Longrightarrow> herder_step L cfg applied h h'"
| propose: "trigger_propose L h = Inr (Some (hash, ts, h')) \<Longrightarrow> herder_step L cfg applied h h'"
| position: "trigger_position L cfg now seq hash h = (r, h') \<Longrightarrow> herder_step L cfg applied h h'"
| bootstrap: "bootstrap_tracking L cfg force h = Inr h' \<Longrightarrow> herder_step L cfg applied h h'"
| out_of_sync: "herder_step L cfg applied h (herderOutOfSync h)"
| externalized: "valueExternalized L cfg held now i v found h = Inr (again, h') \<Longrightarrow>
    (\<And>ts. found = Some ts \<Longrightarrow> set (hashes L (ts_Transactions ts)) \<subseteq> applied) \<Longrightarrow> herder_step L cfg applied h h'"
| closed: "ledgerClosed h = Inr (i, h') \<Longrightarrow> herder_step L cfg applied h h'"

lemma herder_ok_same:
  "herder_ok L h \<Longrightarrow> hd_ReceivedTransactions h' = hd_ReceivedTransactions h \<Longrightarrow> pending_ok (hd_PendingEnvelopes h') \<Longrightarrow> herder_ok L h'"
  by (simp add: herder_ok_def pool_def)

lemma recvTransaction_ok:
  assumes "herder_ok L h" "recvTransaction L tx h = Inr (ok, code, h')"
  shows "herder_ok L h' \<and> set (pool h) \<subseteq> set (pool h') \<and> hd_lm h' = hd_lm h"
proof (cases ok)
  case True
  have h': "h' = h\<lparr>hd_ReceivedTransactions := (hd_ReceivedTransactions h)[0 := hd_ReceivedTransactions h ! 0 @ [tx]]\<rparr>"
    using recvTransaction_pool [OF assms(2)] True by simp
  have "pool_scan L (lm_CurrentLedger (hd_lm h)) tx (pool h) (getFee (lm_CurrentLedger (hd_lm h)) (env_tx (snd tx))) 0 \<noteq> None"
    using assms(2) True unfolding recvTransaction_def Let_def by (metis Inr_inject fst_conv option.simps(4))
  then have new: "lib_envHash L (snd tx) \<notin> set (hashes L (pool h))" by (auto simp: pool_scan_None)
  obtain a b c d where "hd_ReceivedTransactions h = [a, b, c, d]"
    using assms(1) by (auto simp: herder_ok_def elim: length_4E)
  with h' new assms(1) show ?thesis by (auto simp: herder_ok_def pool_def)
next
  case False
  with recvTransaction_pool [OF assms(2)] assms(1) show ?thesis by simp
qed

lemma recv_each_ok:
  "recv_each L txs ok0 h = Inr (ok, h') \<Longrightarrow> herder_ok L h \<Longrightarrow>
   herder_ok L h' \<and> set (pool h) \<subseteq> set (pool h') \<and> hd_lm h' = hd_lm h"
proof (induction L txs ok0 h rule: recv_each.induct)
  case (2 L tx txs ok0 h)
  from 2(2) obtain ok1 code h1 where r: "recvTransaction L tx h = Inr (ok1, code, h1)"
    "recv_each L txs (ok0 \<and> ok1) h1 = Inr (ok, h')"
    by (auto simp: rbind_eq_Inr)
  from recvTransaction_ok [OF 2(3) r(1)] 2(1) [OF r(1) refl refl r(2)] show ?case by auto
qed simp

lemma recvTransactions_ok:
  "herder_ok L h \<Longrightarrow> recvTransactions L ts h = Inr (ok, ts', h') \<Longrightarrow>
   herder_ok L h' \<and> set (pool h) \<subseteq> set (pool h') \<and> hd_lm h' = hd_lm h"
  by (auto simp: recvTransactions_def rbind_eq_Inr split: prod.splits dest: recv_each_ok)

lemma trigger_propose_ok:
  "herder_ok L h \<Longrightarrow> trigger_propose L h = Inr (Some (hash, ts, h')) \<Longrightarrow>
   herder_ok L h' \<and> set (pool h) \<subseteq> set (pool h') \<and> hd_lm h' = hd_lm h"
  by (auto simp: trigger_propose_def rbind_eq_Inr split: prod.splits if_splits dest: recvTransactions_ok)

lemma fold_remove_ok:
  assumes "herder_ok L h"
  shows "herder_ok L (fold (removeReceivedTx L) txs h) \<and> 
    (\<forall>old \<in> set (pool h). lib_envHash L (snd old) \<notin> set (hashes L txs) \<longrightarrow> old \<in> set (pool (fold (removeReceivedTx L) txs h)))"
  using assms
proof (induction txs arbitrary: h)
  case (Cons tx txs)
  have "herder_ok L (removeReceivedTx L tx h)"
    using Cons.prems removeReceivedTx_pool(2) [of L h tx] by (simp add: herder_ok_def)
  from Cons.IH [OF this] removeReceivedTx_pool(3) [of _ h L tx] show ?case by auto
qed simp

lemma age_transactions_ok:
  assumes "herder_ok L h"
  shows "herder_ok L (age_transactions h) \<and> set (pool (age_transactions h)) = set (pool h)"
proof -
  obtain a b c d where ls: "hd_ReceivedTransactions h = [a, b, c, d]"
    using assms by (auto simp: herder_ok_def elim: length_4E)
  have "hd_PendingEnvelopes (age_transactions h) = hd_PendingEnvelopes h" by (simp add: age_transactions_def)
  with assms show ?thesis unfolding herder_ok_def pool_def age_transactions_lists [OF ls] ls by auto
qed

lemma valueExternalized_ok:
  assumes "herder_ok L h" "valueExternalized L cfg held now i v found h = Inr (again, h')"
    and "\<And>ts. found = Some ts \<Longrightarrow> set (hashes L (ts_Transactions ts)) \<subseteq> applied"
  shows "herder_ok L h' \<and> (\<forall>old \<in> set (pool h). lib_envHash L (snd old) \<notin> applied \<longrightarrow> old \<in> set (pool h'))"
proof (cases found)
  case None
  with assms(1,2) show ?thesis
    by (auto simp: valueExternalized_def track_value_def Let_def herder_ok_def pool_def)
next
  case (Some ts)
  then obtain lm where "h' = age_transactions (evict_slots i (evict_nodes now
      (fold (removeReceivedTx L) (ts_Transactions ts) ((snd (track_value L i v h))\<lparr>hd_lm := lm\<rparr>))))"
    using assms(2) by (auto simp: valueExternalized_def Let_def rbind_eq_Inr split: prod.splits if_splits)
  moreover define h1 where "h1 = (snd (track_value L i v h))\<lparr>hd_lm := lm\<rparr>"
  moreover define h2 where "h2 = fold (removeReceivedTx L) (ts_Transactions ts) h1"
  moreover define h3 where "h3 = evict_slots i (evict_nodes now h2)"
  ultimately have h': "h' = age_transactions h3" by simp
  have h1: "herder_ok L h1" "pool h1 = pool h"
    using assms(1) by (auto simp: h1_def track_value_def Let_def herder_ok_def pool_def)
  have h3: "pool h3 = pool h2" "herder_ok L h3 = herder_ok L h2"
    by (auto simp: h3_def evict_slots_def evict_nodes_def pool_def herder_ok_def)
  from fold_remove_ok [OF h1(1), THEN conjunct1, of "ts_Transactions ts"] h3 age_transactions_ok [of L h3]
  have "herder_ok L (age_transactions h3)" "set (pool (age_transactions h3)) = set (pool h2)" unfolding h2_def [symmetric] by auto
  moreover have "old \<in> set (pool h2)" if "old \<in> set (pool h)" "lib_envHash L (snd old) \<notin> applied" for old
  proof -
    have "lib_envHash L (snd old) \<notin> set (hashes L (ts_Transactions ts))" using that(2) assms(3) [OF Some] by (rule contra_subsetD [rotated])
    then show ?thesis
      using fold_remove_ok [OF h1(1), THEN conjunct2, rule_format, of old "ts_Transactions ts"] that(1) h1(2) by (simp add: h2_def)
  qed
  ultimately show ?thesis unfolding h' by simp
qed

lemma herder_step_ok:
  assumes "herder_step L cfg applied h h'" "herder_ok L h"
  shows "herder_ok L h' \<and> (\<forall>old \<in> set (pool h). lib_envHash L (snd old) \<notin> applied \<longrightarrow> old \<in> set (pool h'))"
  using assms
proof (cases rule: herder_step.cases)
  case (externalized held now i v found again)
  with assms(2) show ?thesis by (intro valueExternalized_ok)
next
  case (transaction tx ok code)
  with assms(2) show ?thesis using recvTransaction_ok by blast
next
  case (tx_set ts ok ts')
  with assms(2) show ?thesis using recvTransactions_ok by blast
next
  case (propose hash ts)
  with assms(2) show ?thesis using trigger_propose_ok by blast
next
  case (envelope e)
  with assms(2) show ?thesis
    by (auto simp: enqueue_envelope_def rbind_eq_Inr herder_ok_def pool_def pending_ok_add split: if_splits)
next
  case (queues slots)
  with assms(2) show ?thesis
    by (auto simp: slots_to_process_def rbind_eq_Inr herder_ok_def pool_def pending_ok_eraseBelow Let_def split: option.splits if_splits)
next
  case (pop_envelope i e)
  with assms(2) pending_ok_pop [of "hd_PendingEnvelopes h" i] show ?thesis
    by (auto simp: next_envelope_def Let_def herder_ok_def pool_def split: prod.splits)
next
  case (closed i)
  with assms(2) show ?thesis
    by (auto simp: ledgerClosed_def rbind_eq_Inr herder_ok_def pool_def pending_ok_erase split: option.splits)
qed (use assms(2) in \<open>auto simp: nodeTouched_def start_ballot_timer_def emitEnvelope_def trigger_position_def
    bootstrap_tracking_def herderOutOfSync_def herder_ok_def pool_def Let_def split: prod.splits if_splits\<close>)

lemma herder_steps_ok:
  assumes "(herder_step L cfg applied)\<^sup>*\<^sup>* h h'" "herder_ok L h"
  shows "herder_ok L h' \<and> (\<forall>old \<in> set (pool h). lib_envHash L (snd old) \<notin> applied \<longrightarrow> old \<in> set (pool h'))"
  using assms
proof (induction rule: rtranclp_induct)
  case (step h1 h2)
  then have "herder_ok L h1" by blast
  from herder_step_ok [OF step.hyps(2) this] step show ?case by blast
qed simp

lemma new_HerderImpl_ok: "herder_ok L (new_HerderImpl D L q now lm)"
  by (simp add: herder_ok_def new_HerderImpl_def pool_def pending_ok_def new_PendingEnvelopes_def queue_at_def om_wf_def os_wf_def)

text \<open>
  C25: the invariant of the herder. Whatever transactions, sets, envelopes, externalised values and
  timeouts come in, in any order, no transaction waits twice in the four lists, and the queue of each
  slot holds envelopes of this slot only, each once.
\<close>

theorem herder_invariant:
  assumes "(herder_step L cfg UNIV)\<^sup>*\<^sup>* (new_HerderImpl D L q now lm) h"
  shows "length (hd_ReceivedTransactions h) = 4 \<and> distinct (map (\<lambda>tx. lib_envHash L (snd tx)) (pool h)) \<and>
    (\<forall>i. distinct (queue_at i (hd_PendingEnvelopes h)) \<and>
       (\<forall>e \<in> set (queue_at i (hd_PendingEnvelopes h)). st_slotIndex (en_statement e) = i))"
  using herder_steps_ok [OF assms new_HerderImpl_ok] by (simp add: herder_ok_def pending_ok_def)

theorem herder_invariant_witness:
  "\<exists>h. (herder_step sample_hlib sample_config UNIV)\<^sup>*\<^sup>* (new_HerderImpl lead_driver sample_hlib lead_qset 0 sample_node) h \<and>
     pool h = [(0, sample_env 5 11)] \<and> length (hd_ReceivedTransactions h) = 4"
proof -
  let ?h = "new_HerderImpl lead_driver sample_hlib lead_qset 0 sample_node"
  have "case recvTransaction sample_hlib (0, sample_env 5 11) ?h of Inr (ok, code, h) \<Rightarrow> pool h = [(0, sample_env 5 11)] | Inl _ \<Rightarrow> False"
    by code_simp
  then obtain ok code h where r: "recvTransaction sample_hlib (0, sample_env 5 11) ?h = Inr (ok, code, h)" "pool h = [(0, sample_env 5 11)]"
    by (auto split: sum.splits)
  then have "(herder_step sample_hlib sample_config UNIV)\<^sup>*\<^sup>* ?h h" by (intro r_into_rtranclp herder_step.transaction)
  with herder_invariant [OF this] r(2) show ?thesis by blast
qed

text \<open>
  C38: a transaction that no ledger takes blocks its account for good. Proposing trims it off the
  set but not off the lists, since the list of what was trimmed comes back empty; so as long as no
  externalised set holds it, whatever happens, every transaction of the account with this or a
  lower sequence number is turned down, even when the ledger has nothing against it.
\<close>

theorem untaken_transaction_blocks_account:
  assumes "(herder_step L cfg applied)\<^sup>*\<^sup>* h h'" "herder_ok L h" "old \<in> set (pool h)" "lib_envHash L (snd old) \<notin> applied"
    and "getSourceID tx = getSourceID old" "0 < getSeqNum tx" "getSeqNum tx \<le> getSeqNum old"
  shows "\<exists>code. recvTransaction L tx h' = Inr (False, code, h')"
proof -
  have "old \<in> set (pool h')" using herder_steps_ok [OF assms(1,2)] assms(3,4) by blast
  then show ?thesis using recvTransaction_behind [of old h' tx L] assms(5-7) by simp
qed

text \<open>Transaction 12 of account 5 waits too early and is trimmed off the proposal; transaction 11 is turned down for it.\<close>

theorem untaken_transaction_blocks_account_witness:
  "\<exists>h' code. (herder_step sample_hlib sample_config {})\<^sup>*\<^sup>* (sample_herder [(1, sample_env 5 12), (2, sample_env 6 21)]) h' \<and>
     recvTransaction sample_hlib (0, sample_env 5 11) h' = Inr (False, code, h')"
proof -
  let ?h = "sample_herder [(1, sample_env 5 12), (2, sample_env 6 21)]"
  have "case trigger_propose sample_hlib ?h of Inr (Some (hash, ts, h')) \<Rightarrow> map fst (ts_Transactions ts) = [2] | _ \<Rightarrow> False"
    by code_simp
  then obtain hash ts h' where "trigger_propose sample_hlib ?h = Inr (Some (hash, ts, h'))"
    by (auto split: sum.splits option.splits)
  then have r: "(herder_step sample_hlib sample_config {})\<^sup>*\<^sup>* ?h h'" by (intro r_into_rtranclp herder_step.propose)
  have ok: "herder_ok sample_hlib ?h"
    unfolding herder_ok_def by (simp add: sample_herder_def new_HerderImpl_def pool_def pending_ok_def new_PendingEnvelopes_def
        queue_at_def om_wf_def os_wf_def) code_simp
  have "(1, sample_env 5 12) \<in> set (pool ?h)" "getSourceID (0, sample_env 5 11) = getSourceID (1, sample_env 5 12)"
    "0 < getSeqNum (0, sample_env 5 11)" "getSeqNum (0, sample_env 5 11) \<le> getSeqNum (1, sample_env 5 12)" by code_simp+
  from untaken_transaction_blocks_account [OF r ok this(1) _ this(2-4)] r show ?thesis by blast
qed

subsection \<open>Proposals\<close>

context tx_sort
begin

lemma resort_valid:
  assumes "ts_checkValid srt FH V CH lclHash lm db ts"
  shows "ts_checkValid srt FH V CH lclHash lm db (sortForHash srt FH ts)"
proof -
  let ?T = "ts_Transactions ts" and ?T' = "srt (HashTxSorter FH) (ts_Transactions ts)"
  have "valid_account srt V CH lm db (a, filter (of_account a) ?T')" if "a \<in> getSourceID ` set ?T'" for a
  proof -
    let ?F = "filter (of_account a) ?T" and ?F' = "filter (of_account a) ?T'"
    have m: "mset ?T' = mset ?T" by (rule hash_sort(1))
    then have "a \<in> getSourceID ` set ?T" using that mset_eq_setD [OF m] by simp
    then have a: "(a, ?F) \<in> set (accountTxMap ?T)" "?F \<noteq> []" by (auto simp: accountTxMap_item filter_empty_conv)
    with assms have v: "valid_account srt V CH lm db (a, ?F)" by (auto simp: ts_checkValid_def list_all_iff)
    then obtain r where r: "valid_loop V CH lm db (srt SeqSorter ?F) 0 0 None = Some r"
      by (auto simp: valid_account_def split: option.splits)
    have p: "mset (srt SeqSorter ?F') = mset (srt SeqSorter ?F)" using m by (simp add: seq_sort(1))
    have ne: "srt SeqSorter ?F \<noteq> []" using a(2) by (metis mset_zero_iff seq_sort(1))
    have "valid_loop V CH lm db (srt SeqSorter ?F') 0 0 None = Some r"
      by (rule valid_loop_perm [OF r p _ _ _ ne, where a = a]) (simp_all add: seq_sort(2,3))
    with v r show ?thesis by (simp add: valid_account_def)
  qed
  then have "list_all (valid_account srt V CH lm db) (accountTxMap ?T')"
    by (auto simp: list_all_iff accountTxMap_item)
  with assms hash_sort(2) [of FH ?T] show ?thesis
    by (simp add: ts_checkValid_def sortForHash_def hash_sorted_eq)
qed

lemma contents_valid:
  assumes "ts_checkValid srt FH V CH lclHash lm db ts"
  shows "ts_checkValid srt FH V CH lclHash lm db (snd (getContentsHash srt FH SH ts))"
  using assms resort_valid [OF assms] by (simp add: getContentsHash_def Let_def ts_checkValid_def)

end

lemma fold_ts_add:
  "fold ts_add txs ts = (if txs = [] then ts else ts\<lparr>ts_Transactions := ts_Transactions ts @ txs, ts_HashIsValid := False\<rparr>)"
  by (induction txs arbitrary: ts) (simp_all add: ts_add_def)

lemma recvTransactions_set:
  "recvTransactions L ts h = Inr (ok, ts', h') \<Longrightarrow> ts' = snd (getContentsHash (lib_sort L) (lib_envHash L) (lib_setHash L) ts)"
  by (auto simp: recvTransactions_def rbind_eq_Inr sortForApply_def Let_def)

lemma trigger_propose_set:
  assumes "trigger_propose L h = Inr (Some (hash, ts, h'))"
  shows "ts = snd (getContentsHash (lib_sort L) (lib_envHash L) (lib_setHash L) (proposed_set L h)) \<and>
    hash = fst (getContentsHash (lib_sort L) (lib_envHash L) (lib_setHash L) (proposed_set L h)) \<and> ts_Hash ts = hash"
proof -
  let ?g = "getContentsHash (lib_sort L) (lib_envHash L) (lib_setHash L)"
  have g: "ts_HashIsValid (snd (?g x))" "ts_Hash (snd (?g x)) = fst (?g x)" for x
    by (auto simp: getContentsHash_def Let_def)
  then have again: "?g (snd (?g x)) = (fst (?g x), snd (?g x))" for x by (subst getContentsHash_def) simp
  obtain ok where r: "recvTransactions L (snd (?g (proposed_set L h))) h = Inr (ok, ts, h')"
    "hash = fst (?g (proposed_set L h))"
    using assms by (auto simp: trigger_propose_def rbind_eq_Inr split: prod.splits if_splits)
  from recvTransactions_set [OF r(1)] r(2) g(2) [of "proposed_set L h"] show ?thesis unfolding again by simp
qed

lemma proposal_valid:
  assumes "std_sort (lib_sort L)" "distinct (map fst (pool h))" "trigger_propose L h = Inr (Some (hash, ts, h'))"
  shows "ts_checkValid (lib_sort L) (lib_envHash L) (lib_verify L) (lib_txHash L) (lhe_hash (lm_LastClosedLedger (hd_lm h)))
    (lm_CurrentLedger (hd_lm h)) (lm_db (hd_lm h)) ts"
proof -
  let ?ts = "fold ts_add (pool h) (new_TxSetFrame (lhe_hash (lm_LastClosedLedger (hd_lm h))))"
  have srt: "tx_sort (lib_sort L)" using assms(1) by (rule tx_sort.intro)
  have "distinct (ptrs ?ts)" "ts_PreviousLedgerHash ?ts = lhe_hash (lm_LastClosedLedger (hd_lm h))"
    using assms(2) by (auto simp: fold_ts_add new_TxSetFrame_def)
  from tx_sort.contents_valid [OF srt tx_sort.trim_valid [OF srt this]] trigger_propose_set [OF assms(3)]
  show ?thesis by (simp add: proposed_set_def)
qed

lemma ledger_index_fits: "(ucast (i :: uint32) :: uint64) \<le> 4294967295" "ucast (ucast i :: uint64) = (i :: uint32)"
proof -
  have "uint i < 2 ^ 32" using uint_lt2p [of i] by simp
  then show "(ucast i :: uint64) \<le> 4294967295"
    by (simp add: word_le_def unsigned_ucast_eq take_bit_int_eq_self)
  show "ucast (ucast i :: uint64) = i" by (rule bit_word_eqI) (simp add: bit_simps)
qed

lemma recv_each_same:
  "recv_each L txs ok0 h = Inr (ok, h') \<Longrightarrow> \<exists>ls. h' = h\<lparr>hd_ReceivedTransactions := ls\<rparr>"
proof (induction L txs ok0 h rule: recv_each.induct)
  case (1 L ok0 h)
  then show ?case by (intro exI [of _ "hd_ReceivedTransactions h"]) simp
next
  case (2 L tx txs ok0 h)
  from 2(2) obtain ok1 code h1 where r: "recvTransaction L tx h = Inr (ok1, code, h1)"
    "recv_each L txs (ok0 \<and> ok1) h1 = Inr (ok, h')"
    by (auto simp: rbind_eq_Inr)
  from 2(1) [OF r(1) refl refl r(2)] recvTransaction_pool [OF r(1)] show ?case by (cases ok1) auto
qed

lemma trigger_propose_same:
  "trigger_propose L h = Inr (Some (hash, ts, h')) \<Longrightarrow> \<exists>ls. h' = h\<lparr>hd_ReceivedTransactions := ls\<rparr>"
  by (auto simp: trigger_propose_def recvTransactions_def rbind_eq_Inr split: prod.splits if_splits dest!: recv_each_same)



end
