(* ===== verification/Base58.thy ===== *)
theory Base58
  imports Prelude
begin

text \<open>
  \<open>src/crypto/Base58.cpp\<close> and the keys of \<open>src/crypto/SecretKey.cpp\<close> in their printed form.

  The digits are \<open>uint16_t\<close>, least significant first. A \<open>uint256\<close> is its 32 bytes here. SHA-256 is
  the parameter \<open>H\<close>, the functions of libsodium are the fields of \<open>Sodium\<close>.
\<close>

subsection \<open>Definitions\<close>

type_synonym uint16 = "16 word"

definition bitcoinBase58Alphabet :: string where
  "bitcoinBase58Alphabet = ''123456789ABCDEFGHJKLMNPQRSTUVWXYZabcdefghijkmnopqrstuvwxyz''"

definition paysharesBase58Alphabet :: string where
  "paysharesBase58Alphabet = ''xsphnaf39wBUDNEGHJKLM4PQRST7VWXYZ2bcdeCr65jkm8oFqi1tuvAgyz''"

text \<open>One pass over the digits, with the carry that is left at the end.\<close>

fun encode_carry :: "uint16 \<Rightarrow> uint16 \<Rightarrow> uint16 list \<Rightarrow> uint16 list \<times> uint16" where
  "encode_carry base carry [] = ([], carry)"
| "encode_carry base carry (digit # digits) =
     (let digit = digit + carry; (ds, c) = encode_carry base (digit div base) digits in (digit mod base # ds, c))"

text \<open>The digits of the carry. The loop ends because an alphabet has at least two characters.\<close>

function encode_push :: "uint16 \<Rightarrow> uint16 \<Rightarrow> uint16 list" where
  "encode_push base carry = (if carry = 0 \<or> base < 2 then [] else carry mod base # encode_push base (carry div base))"
  by pat_completeness auto
termination
proof (relation "measure (\<lambda>(base, carry). unat carry)")
  fix base carry :: uint16
  assume "\<not> (carry = 0 \<or> base < 2)"
  then have "0 < unat carry" "2 \<le> unat base" by (auto simp: unat_gt_0 word_less_nat_alt not_less word_le_nat_alt)
  then show "((base, carry div base), (base, carry)) \<in> measure (\<lambda>(base, carry). unat carry)"
    by (simp add: unat_div)
qed simp

declare encode_push.simps [simp del]

definition encode_byte :: "uint16 \<Rightarrow> byte \<Rightarrow> uint16 list \<Rightarrow> uint16 list" where
  "encode_byte base b digits =
     (let digits1 = map (push_bit 8) digits;
          digits2 = digits1[0 := digits1 ! 0 + ucast b];
          (digits3, carry) = encode_carry base 0 digits2
      in digits3 @ encode_push base carry)"

fun char_at :: "string \<Rightarrow> uint16 \<Rightarrow> char res" where
  "char_at alphabet d =
     (let i = unat (ucast d :: byte) in if i < length alphabet then Inr (alphabet ! i) else Inl (InvalidArgument ''out_of_range''))"

fun rmap :: "('a \<Rightarrow> 'b res) \<Rightarrow> 'a list \<Rightarrow> 'b list res" where
  "rmap f [] = Inr []"
| "rmap f (x # xs) = rbind (f x) (\<lambda>y. rbind (rmap f xs) (\<lambda>ys. Inr (y # ys)))"

definition baseEncode :: "string \<Rightarrow> byte list \<Rightarrow> string res" where
  "baseEncode alphabet bytes =
     (if bytes = [] then Inr []
      else
        let base = of_nat (length alphabet);
            digits = fold (encode_byte base) bytes [0];
            zeroes = length (takeWhile (\<lambda>b. b = 0) (butlast bytes))
        in rmap (char_at alphabet) (rev (digits @ replicate zeroes 0)))"

fun decode_carry :: "uint16 \<Rightarrow> uint16 list \<Rightarrow> uint16 list \<times> uint16" where
  "decode_carry carry [] = ([], carry)"
| "decode_carry carry (b # bytes) =
     (let b = b + carry; (bs, c) = decode_carry (drop_bit 8 b) bytes in ((b AND 0xff) # bs, c))"

function decode_push :: "uint16 \<Rightarrow> uint16 list" where
  "decode_push carry = (if carry = 0 then [] else (carry AND 0xff) # decode_push (drop_bit 8 carry))"
  by pat_completeness auto
termination
proof (relation "measure unat")
  fix carry :: uint16
  assume "carry \<noteq> 0"
  then show "(drop_bit 8 carry, carry) \<in> measure unat"
    by (simp add: drop_bit_eq_div unat_div unat_gt_0)
qed simp

declare decode_push.simps [simp del]

definition alphabetMap :: "string \<Rightarrow> uint16 list" where
  "alphabetMap alphabet = fold (\<lambda>(i, c) m. m[of_char c := of_nat i]) (enumerate 0 alphabet) (replicate 256 0xffff)"

definition decode_char :: "string \<Rightarrow> char \<Rightarrow> uint16 list \<Rightarrow> uint16 list res" where
  "decode_char alphabet c bytes =
     (let bytes1 = map (\<lambda>b. b * of_nat (length alphabet)) bytes;
          n = alphabetMap alphabet ! of_char c
      in if n = 0xffff then Inl (RuntimeError ''unknown character in payshares::baseDecode'')
         else
           let bytes2 = bytes1[0 := bytes1 ! 0 + n]; (bytes3, carry) = decode_carry 0 bytes2
           in Inr (bytes3 @ decode_push carry))"

fun rfold :: "('a \<Rightarrow> 's \<Rightarrow> 's res) \<Rightarrow> 'a list \<Rightarrow> 's \<Rightarrow> 's res" where
  "rfold f [] s = Inr s"
| "rfold f (x # xs) s = rbind (f x s) (rfold f xs)"

definition baseDecode :: "string \<Rightarrow> string \<Rightarrow> byte list res" where
  "baseDecode alphabet encoded =
     (if encoded = [] then Inr []
      else
        rbind (rfold (decode_char alphabet) encoded [0]) (\<lambda>bytes.
        let zeroes = length (takeWhile (\<lambda>c. c = alphabet ! 0) (butlast encoded))
        in Inr (map ucast (rev (bytes @ replicate zeroes 0)))))"

definition baseCheckEncode :: "(byte list \<Rightarrow> byte list) \<Rightarrow> string \<Rightarrow> byte \<Rightarrow> byte list \<Rightarrow> string res" where
  "baseCheckEncode H alphabet ver bytes = (let vb = ver # bytes in baseEncode alphabet (vb @ take 4 (H (H vb))))"

definition baseCheckDecode :: "(byte list \<Rightarrow> byte list) \<Rightarrow> string \<Rightarrow> string \<Rightarrow> (byte \<times> byte list) res" where
  "baseCheckDecode H alphabet encoded =
     rbind (baseDecode alphabet encoded) (\<lambda>bytes.
     if length bytes < 5 then Inl (RuntimeError ''baseCheckDecode decoded to <5 bytes'')
     else
       let body = take (length bytes - 4) bytes
       in if take 4 (H (H body)) \<noteq> drop (length bytes - 4) bytes then Inl (RuntimeError ''baseCheckDecode checksum failed'')
          else Inr (hd bytes, tl body))"

definition VER_ACCOUNT_ID :: byte where
  "VER_ACCOUNT_ID = 0"

definition VER_SEED :: byte where
  "VER_SEED = 33"

definition toBase58Check :: "(byte list \<Rightarrow> byte list) \<Rightarrow> byte \<Rightarrow> byte list \<Rightarrow> string res" where
  "toBase58Check H ver bytes = baseCheckEncode H paysharesBase58Alphabet ver bytes"

definition fromBase58Check :: "(byte list \<Rightarrow> byte list) \<Rightarrow> string \<Rightarrow> (byte \<times> byte list) res" where
  "fromBase58Check H encoded = baseCheckDecode H paysharesBase58Alphabet encoded"

definition fromBase58Check256 :: "(byte list \<Rightarrow> byte list) \<Rightarrow> byte \<Rightarrow> string \<Rightarrow> byte list res" where
  "fromBase58Check256 H expect encoded =
     rbind (fromBase58Check H encoded) (\<lambda>(ver, bytes).
     if ver \<noteq> expect then Inl (RuntimeError ''unexpected base58 version byte'')
     else if length bytes \<noteq> 32 then Inl (RuntimeError ''unexpected base58 length when decoding uint256'')
     else Inr bytes)"

text \<open>Keys: the functions of libsodium fail with a value other than 0, here \<open>None\<close>.\<close>

record Sodium =
  sd_sk_to_seed :: "byte list \<Rightarrow> byte list option"
  sd_sk_to_pk :: "byte list \<Rightarrow> byte list option"
  sd_seed_keypair :: "byte list \<Rightarrow> byte list option"
  sd_sha256 :: "byte list \<Rightarrow> byte list"

definition getSeed :: "Sodium \<Rightarrow> byte list \<Rightarrow> byte list res" where
  "getSeed S sk = (case sd_sk_to_seed S sk of None \<Rightarrow> Inl (RuntimeError ''error extracting seed from secret key'') | Some s \<Rightarrow> Inr s)"

definition getPublicKey :: "Sodium \<Rightarrow> byte list \<Rightarrow> byte list res" where
  "getPublicKey S sk = (case sd_sk_to_pk S sk of None \<Rightarrow> Inl (RuntimeError ''error extracting public key from secret key'') | Some k \<Rightarrow> Inr k)"

definition getBase58Seed :: "Sodium \<Rightarrow> byte list \<Rightarrow> string res" where
  "getBase58Seed S sk = rbind (getSeed S sk) (toBase58Check (sd_sha256 S) VER_SEED)"

definition getBase58Public :: "Sodium \<Rightarrow> byte list \<Rightarrow> string res" where
  "getBase58Public S sk = rbind (getPublicKey S sk) (toBase58Check (sd_sha256 S) VER_ACCOUNT_ID)"

definition key_isZero :: "byte list \<Rightarrow> bool" where
  "key_isZero sk = list_all (\<lambda>i. i = 0) sk"

definition fromSeed :: "Sodium \<Rightarrow> byte list \<Rightarrow> byte list res" where
  "fromSeed S seed = (case sd_seed_keypair S seed of None \<Rightarrow> Inl (RuntimeError ''error generating secret key from seed'') | Some sk \<Rightarrow> Inr sk)"

definition fromBase58Seed :: "Sodium \<Rightarrow> string \<Rightarrow> byte list res" where
  "fromBase58Seed S base58Seed =
     rbind (fromBase58Check (sd_sha256 S) base58Seed) (\<lambda>(ver, seed).
     if ver \<noteq> VER_SEED then Inl (RuntimeError ''unexpected version byte on secret key base58 seed'')
     else if length seed \<noteq> 32 then Inl (RuntimeError ''unexpected base58 seed length for secret key'')
     else fromSeed S seed)"

subsection \<open>Change of base\<close>

text \<open>
  Both directions are one change of base with different numbers: multiply all digits, add the next
  one, and carry.
\<close>

definition base_step :: "uint16 \<Rightarrow> uint16 \<Rightarrow> uint16 \<Rightarrow> uint16 list \<Rightarrow> uint16 list" where
  "base_step m base n digits =
     (let digits1 = map (\<lambda>d. d * m) digits; (digits3, carry) = encode_carry base 0 (digits1[0 := digits1 ! 0 + n])
      in digits3 @ encode_push base carry)"

definition change_base :: "uint16 \<Rightarrow> uint16 \<Rightarrow> uint16 list \<Rightarrow> uint16 list" where
  "change_base m base xs =
     rev (fold (base_step m base) xs [0] @ replicate (length (takeWhile (\<lambda>d. d = 0) (butlast xs))) 0)"

lemma shift_div: "drop_bit 8 (x :: uint16) = x div 256" "x AND 0xff = x mod 256" "push_bit 8 x = x * 256"
proof -
  show "drop_bit 8 x = x div 256" by (simp add: drop_bit_eq_div)
  have "x AND mask 8 = take_bit 8 x" by (simp add: take_bit_eq_mask)
  then show "x AND 0xff = x mod 256" by (simp add: mask_eq_exp_minus_1 take_bit_eq_mod)
  show "push_bit 8 x = x * 256" by (simp add: push_bit_eq_mult)
qed

lemma decode_carry_eq: "decode_carry carry bs = encode_carry 256 carry bs"
  by (induction bs arbitrary: carry) (simp_all add: shift_div)

lemma decode_push_eq: "decode_push carry = encode_push 256 carry"
proof (induction carry rule: decode_push.induct)
  case (1 carry)
  then show ?case by (subst decode_push.simps, subst encode_push.simps) (simp add: shift_div)
qed

lemma encode_byte_eq: "encode_byte base b = base_step 256 base (ucast b)"
proof -
  have push: "push_bit 8 = (\<lambda>d :: uint16. d * 256)" by (rule ext) (rule shift_div(3))
  show ?thesis by (rule ext) (simp only: push encode_byte_def base_step_def Let_def)
qed

text \<open>Digits in normal form: no leading zero but the one of zero itself.\<close>

definition normal :: "nat \<Rightarrow> uint16 list \<Rightarrow> bool" where
  "normal B ds \<longleftrightarrow> (\<forall>d \<in> set ds. unat d < B) \<and> (ds = [0] \<or> ds \<noteq> [] \<and> last ds \<noteq> 0)"

lemma horner_positive: "ds \<noteq> [] \<Longrightarrow> last ds \<noteq> 0 \<Longrightarrow> 0 < B \<Longrightarrow> 0 < horner_sum unat B ds"
  by (induction ds) (auto simp: unat_gt_0 split: if_splits)

lemma horner_unique:
  assumes "horner_sum unat B xs = horner_sum unat B ys" "\<forall>x \<in> set xs. unat x < B" "\<forall>y \<in> set ys. unat y < B"
    and "xs = [] \<or> last xs \<noteq> 0" "ys = [] \<or> last ys \<noteq> 0" "0 < B"
  shows "xs = (ys :: uint16 list)"
  using assms
proof (induction xs arbitrary: ys)
  case Nil
  then show ?case using horner_positive [of ys B] by (cases ys) auto
next
  case (Cons x xs)
  have "ys \<noteq> []" using Cons.prems horner_positive [of "x # xs" B] by auto
  then obtain y ys' where ys: "ys = y # ys'" by (cases ys) auto
  have e: "unat x + B * horner_sum unat B xs = unat y + B * horner_sum unat B ys'" using Cons.prems(1) by (simp add: ys)
  have xy: "unat x = unat y" using arg_cong [OF e, of "\<lambda>v. v mod B"] Cons.prems(2,3) by (simp add: ys)
  with e have "horner_sum unat B xs = horner_sum unat B ys'" using \<open>0 < B\<close> by simp
  then have "xs = ys'" using Cons.IH [of ys'] Cons.prems by (auto simp: ys split: if_splits)
  with xy show ?case by (simp add: ys word_unat_eq_iff)
qed

lemma normal_unique:
  assumes "normal B xs" "normal B ys" "horner_sum unat B xs = horner_sum unat B ys" "0 < B"
  shows "xs = ys"
proof -
  have z: "horner_sum unat B ds = 0 \<longleftrightarrow> ds = [0]" if "normal B ds" for ds
    using that horner_positive [of ds B] \<open>0 < B\<close> by (auto simp: normal_def)
  show ?thesis
  proof (cases "xs = [0]")
    case True
    with assms z show ?thesis by metis
  next
    case False
    with assms z have "ys \<noteq> [0]" by metis
    with False assms show ?thesis by (intro horner_unique [of B]) (auto simp: normal_def)
  qed
qed

text \<open>The arithmetic of 16 bits is enough for any two bases up to 256: nothing wraps around.\<close>

locale base_change =
  fixes m B :: nat
  assumes m: "2 \<le> m" "m \<le> 256" and B: "2 \<le> B" "B \<le> 256"
begin

lemma product_fits: "B * m \<le> 65536"
  using mult_le_mono [OF B(2) m(2)] by simp

lemma unat_bases: "unat (of_nat B :: uint16) = B" "unat (of_nat m :: uint16) = m"
  using m B by (simp_all add: unat_of_nat)

lemma carry_digit:
  fixes d c :: uint16
  assumes "unat d + unat c < B * m"
  shows "unat ((d + c) div of_nat B) = (unat d + unat c) div B" "unat ((d + c) mod of_nat B) = (unat d + unat c) mod B"
    and "(unat d + unat c) div B < m"
proof -
  have "unat (d + c) = unat d + unat c" using assms product_fits by (simp add: unat_word_ariths)
  then show "unat ((d + c) div of_nat B) = (unat d + unat c) div B" "unat ((d + c) mod of_nat B) = (unat d + unat c) mod B"
    by (simp_all add: unat_div unat_mod unat_bases)
  show "(unat d + unat c) div B < m" using assms by (simp add: less_mult_imp_div_less mult.commute)
qed

lemma encode_carry_ok:
  assumes "\<forall>d \<in> set ds. unat d + m \<le> B * m" "unat c < m" "encode_carry (of_nat B) c ds = (ds', c')"
  shows "unat c' < m \<and> length ds' = length ds \<and> (\<forall>d \<in> set ds'. unat d < B) \<and>
    horner_sum unat B ds' + unat c' * B ^ length ds = horner_sum unat B ds + unat c \<and>
    (c' = 0 \<longrightarrow> ds \<noteq> [] \<longrightarrow> last ds \<noteq> 0 \<longrightarrow> last ds' \<noteq> 0)"
  using assms
proof (induction ds arbitrary: c ds')
  case (Cons d ds)
  let ?q = "(d + c) div of_nat B" and ?r = "(d + c) mod of_nat B"
  obtain es where es: "encode_carry (of_nat B) ?q ds = (es, c')" "ds' = ?r # es"
    using Cons.prems(3) by (auto simp: Let_def split: prod.splits)
  have s: "unat d + unat c < B * m" using Cons.prems(1,2) by simp
  note q = carry_digit [OF s]
  from Cons.IH [OF _ _ es(1)] Cons.prems(1) q have IH: "unat c' < m" "length es = length ds" "\<forall>d \<in> set es. unat d < B"
    "horner_sum unat B es + unat c' * B ^ length ds = horner_sum unat B ds + unat ?q"
    "c' = 0 \<longrightarrow> ds \<noteq> [] \<longrightarrow> last ds \<noteq> 0 \<longrightarrow> last es \<noteq> 0" by auto
  have "horner_sum unat B ds' + unat c' * B ^ length (d # ds) = unat ?r + B * (horner_sum unat B es + unat c' * B ^ length ds)"
    by (simp add: es(2) algebra_simps)
  also have "\<dots> = (unat d + unat c) mod B + B * ((unat d + unat c) div B) + B * horner_sum unat B ds"
    unfolding IH(4) q(1,2) by (simp add: algebra_simps)
  also have "\<dots> = horner_sum unat B (d # ds) + unat c" by simp
  finally have "horner_sum unat B ds' + unat c' * B ^ length (d # ds) = horner_sum unat B (d # ds) + unat c" .
  moreover have "last ds' \<noteq> 0" if "c' = 0" "last (d # ds) \<noteq> 0"
  proof (cases "ds = []")
    case True
    then have "?q = 0" "d \<noteq> 0" using es(1) that by auto
    then have "(unat d + unat c) div B = 0" using q(1) by simp
    then have "unat ?r = unat d + unat c" using q(2) B(1) by (simp add: div_eq_0_iff)
    with \<open>d \<noteq> 0\<close> have "0 < unat ?r" by (simp add: unat_gt_0)
    with True es show ?thesis by (auto simp: unat_gt_0)
  next
    case False
    with that IH(2,5) show ?thesis by (auto simp: es(2))
  qed
  moreover have "unat ?r < B" using q(2) B(1) by simp
  ultimately show ?case using IH(1-3) by (simp add: es(2))
qed auto

lemma encode_push_ok:
  "horner_sum unat B (encode_push (of_nat B) c) = unat c \<and> (\<forall>d \<in> set (encode_push (of_nat B) c). unat d < B) \<and>
   (c \<noteq> 0 \<longrightarrow> encode_push (of_nat B) c \<noteq> [] \<and> last (encode_push (of_nat B) c) \<noteq> 0)"
proof (induction "of_nat B :: uint16" c rule: encode_push.induct)
  case (1 c)
  have two: "\<not> (of_nat B :: uint16) < 2" using unat_bases(1) B(1) by (simp add: word_less_nat_alt)
  show ?case
  proof (cases "c = 0")
    case True
    then show ?thesis by (simp add: encode_push.simps)
  next
    case False
    with two 1 have IH: "horner_sum unat B (encode_push (of_nat B) (c div of_nat B)) = unat c div B"
      "\<forall>d \<in> set (encode_push (of_nat B) (c div of_nat B)). unat d < B"
      "c div of_nat B \<noteq> 0 \<longrightarrow> encode_push (of_nat B) (c div of_nat B) \<noteq> [] \<and> last (encode_push (of_nat B) (c div of_nat B)) \<noteq> 0"
      by (simp_all add: unat_div unat_bases)
    have u: "encode_push (of_nat B) c = c mod of_nat B # encode_push (of_nat B) (c div of_nat B)"
      using two False by (subst encode_push.simps) simp
    have r: "unat (c mod of_nat B) = unat c mod B" by (simp add: unat_mod unat_bases)
    have "c mod of_nat B \<noteq> 0" if "c div of_nat B = 0"
    proof -
      have "unat c div B = 0" using arg_cong [OF that, of unat] by (simp add: unat_div unat_bases)
      then have "unat (c mod of_nat B) = unat c" using r B(1) by (simp add: div_eq_0_iff)
      with False show ?thesis by (metis unat_eq_zero)
    qed
    moreover have "encode_push (of_nat B) (0 :: uint16) = []" by (simp add: encode_push.simps)
    ultimately have "last (encode_push (of_nat B) c) \<noteq> 0"
      unfolding u using IH(3) by (cases "c div of_nat B = 0") (simp_all only: last.simps if_True if_False simp_thms)
    moreover have "horner_sum unat B (encode_push (of_nat B) c) = unat c" unfolding u using IH(1) r by simp
    moreover have "\<forall>d \<in> set (encode_push (of_nat B) c). unat d < B" unfolding u using IH(2) r B(1) by simp
    ultimately show ?thesis unfolding u by blast
  qed
qed

lemma base_step_ok:
  assumes "normal B ds" "unat n < m"
  shows "normal B (base_step (of_nat m) (of_nat B) n ds) \<and>
    horner_sum unat B (base_step (of_nat m) (of_nat B) n ds) = m * horner_sum unat B ds + unat n"
proof -
  obtain d ds0 where ds: "ds = d # ds0" using assms(1) by (cases ds) (auto simp: normal_def)
  have small: "unat x * m + m \<le> B * m" "unat (x * of_nat m) = unat x * m" if "x \<in> set ds" for x
  proof -
    have "Suc (unat x) * m \<le> B * m" using assms(1) that by (intro mult_le_mono1) (auto simp: normal_def Suc_le_eq)
    then show "unat x * m + m \<le> B * m" by simp
    with product_fits m have "unat x * m < 65536" by linarith
    then show "unat (x * of_nat m) = unat x * m" by (simp add: unat_word_ariths unat_bases)
  qed
  let ?x = "d * of_nat m + n" and ?es = "map (\<lambda>d. d * of_nat m) ds0"
  obtain es c where c: "encode_carry (of_nat B) (?x div of_nat B) ?es = (es, c)" by fastforce
  have s: "unat (d * of_nat m) + unat n < B * m" using small [of d] assms(2) by (simp add: ds)
  note q = carry_digit [OF s]
  have "\<forall>e \<in> set ?es. unat e + m \<le> B * m" using small by (auto simp: ds)
  from encode_carry_ok [OF this _ c] q have e: "length es = length ds0" "\<forall>d \<in> set es. unat d < B"
    "horner_sum unat B es + unat c * B ^ length ds0 = horner_sum unat B ?es + (unat (d * of_nat m) + unat n) div B"
    "c = 0 \<longrightarrow> ds0 \<noteq> [] \<longrightarrow> last ?es \<noteq> 0 \<longrightarrow> last es \<noteq> 0" by simp_all
  note p = encode_push_ok [of c]
  have step: "base_step (of_nat m) (of_nat B) n ds = ?x mod of_nat B # es @ encode_push (of_nat B) c"
    using c by (simp add: base_step_def ds Let_def)
  have scaled: "horner_sum unat B (map (\<lambda>d. d * of_nat m) xs) = m * horner_sum unat B xs" if "set xs \<subseteq> set ds" for xs
    using that by (induction xs) (simp_all add: small(2) algebra_simps)
  have "unat (?x mod of_nat B) + B * (horner_sum unat B es + B ^ length es * unat c) =
      (unat (d * of_nat m) + unat n) mod B + B * (horner_sum unat B es + unat c * B ^ length ds0)"
    using q(2) e(1) by (simp add: mult.commute)
  also have "\<dots> = unat (d * of_nat m) + unat n + B * horner_sum unat B ?es"
    unfolding e(3) distrib_left using mod_mult_div_eq [of "unat (d * of_nat m) + unat n" B] by simp
  also have "\<dots> = m * horner_sum unat B ds + unat n"
    using scaled [of ds0] small(2) [of d] by (auto simp: ds algebra_simps)
  finally have "horner_sum unat B (base_step (of_nat m) (of_nat B) n ds) = m * horner_sum unat B ds + unat n"
    using p by (simp add: step horner_sum_append)
  moreover have "normal B (base_step (of_nat m) (of_nat B) n ds)"
  proof (cases "c = 0 \<and> ds0 \<noteq> []")
    case True
    then have "last ds0 \<noteq> 0" "last ds0 \<in> set ds" using assms(1) by (auto simp: normal_def ds)
    then have "0 < unat (last ds0 * of_nat m)" using small(2) [of "last ds0"] m(1) by (simp add: unat_gt_0)
    moreover have "last ?es = last ds0 * of_nat m" using True by (simp add: last_map)
    ultimately have "last ?es \<noteq> 0" by (metis unat_0 less_irrefl)
    with True e(1,4) have "es \<noteq> []" "last es \<noteq> 0" by auto
    moreover have "encode_push (of_nat B) c = []" using True by (simp add: encode_push.simps)
    moreover have "unat (?x mod of_nat B) < B" using q(2) B(1) by simp
    ultimately show ?thesis using e(2) by (simp add: normal_def step)
  next
    case False
    moreover have "unat (?x mod of_nat B) < B" using q(2) B(1) by simp
    moreover have "encode_push (of_nat B) (0 :: uint16) = []" by (simp add: encode_push.simps)
    ultimately show ?thesis using e(1,2) p by (auto simp: normal_def step)
  qed
  ultimately show ?thesis by blast
qed

lemma fold_base_step:
  assumes "\<forall>x \<in> set xs. unat x < m" "normal B ds"
  shows "normal B (fold (base_step (of_nat m) (of_nat B)) xs ds) \<and>
    horner_sum unat B (fold (base_step (of_nat m) (of_nat B)) xs ds) = horner_sum unat m (rev xs) + m ^ length xs * horner_sum unat B ds"
  using assms
proof (induction xs arbitrary: ds)
  case (Cons x xs)
  from base_step_ok [OF Cons.prems(2)] Cons.prems(1) Cons.IH [of "base_step (of_nat m) (of_nat B) x ds"] show ?case
    by (simp add: horner_sum_append algebra_simps)
qed simp

text \<open>The digits without their leading zeros are in normal form, so that they come back.\<close>

lemma leading_zeros:
  assumes "xs \<noteq> []" "\<forall>x \<in> set xs. unat x < B"
  defines "z \<equiv> length (takeWhile (\<lambda>d. d = 0) (butlast xs))"
  shows "normal B (rev (drop z xs)) \<and> xs = replicate z 0 @ drop z xs \<and> horner_sum unat B (rev xs) = horner_sum unat B (rev (drop z xs))"
proof -
  have split: "xs = butlast xs @ [last xs]" using assms(1) by simp
  have zs: "takeWhile (\<lambda>d. d = 0) (butlast xs) = replicate z 0"
    using set_takeWhileD [of _ "\<lambda>d. d = 0" "butlast xs"] by (auto simp: z_def intro!: replicate_eqI)
  have "z \<le> length (butlast xs)" unfolding z_def by (rule length_takeWhile_le)
  then have d: "drop z xs = dropWhile (\<lambda>d. d = 0) (butlast xs) @ [last xs]"
    by (subst split) (simp add: dropWhile_eq_drop z_def)
  have xs: "xs = replicate z 0 @ drop z xs" using split zs d by (metis append.assoc takeWhile_dropWhile_id)
  have "hd (drop z xs) \<noteq> 0 \<or> drop z xs = [0]"
  proof (cases "dropWhile (\<lambda>d. d = 0) (butlast xs)")
    case Nil
    show ?thesis unfolding d Nil by simp
  next
    case (Cons y ys)
    then show ?thesis using hd_dropWhile [of "\<lambda>d. d = 0" "butlast xs"] unfolding d by simp
  qed
  moreover have "\<forall>x \<in> set (drop z xs). unat x < B" using assms(2) by (auto dest: in_set_dropD)
  moreover have "drop z xs \<noteq> []" using d by simp
  ultimately have "normal B (rev (drop z xs))" by (auto simp: normal_def last_rev)
  moreover have "horner_sum unat B (replicate z (0 :: uint16)) = 0" by (induction z) simp_all
  then have "horner_sum unat B (rev xs) = horner_sum unat B (rev (drop z xs))"
    by (subst xs) (simp add: horner_sum_append)
  ultimately show ?thesis using xs by blast
qed

lemma change_base_ok:
  assumes "xs \<noteq> []" "\<forall>x \<in> set xs. unat x < m"
  shows "change_base (of_nat m) (of_nat B) xs \<noteq> []" "\<forall>x \<in> set (change_base (of_nat m) (of_nat B) xs). unat x < B"
    and "horner_sum unat B (rev (change_base (of_nat m) (of_nat B) xs)) = horner_sum unat m (rev xs)"
    and "length (takeWhile (\<lambda>d. d = 0) (butlast (change_base (of_nat m) (of_nat B) xs))) =
      length (takeWhile (\<lambda>d. d = 0) (butlast xs))"
proof -
  let ?ds = "fold (base_step (of_nat m) (of_nat B)) xs [0]" and ?z = "length (takeWhile (\<lambda>d. d = 0) (butlast xs))"
  have n: "normal B ?ds" "horner_sum unat B ?ds = horner_sum unat m (rev xs)"
    using fold_base_step [OF assms(2), of "[0]"] B(1) by (simp_all add: normal_def)
  then have ne: "?ds \<noteq> []" by (auto simp: normal_def)
  show "change_base (of_nat m) (of_nat B) xs \<noteq> []" using ne by (simp add: change_base_def)
  show "\<forall>x \<in> set (change_base (of_nat m) (of_nat B) xs). unat x < B"
    using n(1) B(1) by (auto simp: change_base_def normal_def)
  have "horner_sum unat B (replicate k (0 :: uint16)) = 0" for k by (induction k) simp_all
  then show "horner_sum unat B (rev (change_base (of_nat m) (of_nat B) xs)) = horner_sum unat m (rev xs)"
    using n(2) by (simp add: change_base_def horner_sum_append)
  have c: "change_base (of_nat m) (of_nat B) xs = replicate ?z 0 @ rev ?ds" by (simp add: change_base_def)
  have "takeWhile (\<lambda>d. d = 0) (butlast (rev ?ds)) = []"
  proof (cases "?ds = [0]")
    case False
    then have "hd (rev ?ds) \<noteq> 0" using n(1) by (simp add: normal_def hd_rev)
    then show ?thesis by (cases "rev ?ds") auto
  qed simp
  then show "length (takeWhile (\<lambda>d. d = 0) (butlast (change_base (of_nat m) (of_nat B) xs))) = ?z"
    unfolding c using ne by (simp add: butlast_append takeWhile_append)
qed

end

sublocale base_change \<subseteq> inv: base_change B m
  by unfold_locales (use m B in simp_all)

context base_change
begin

lemma change_base_back:
  assumes "xs \<noteq> []" "\<forall>x \<in> set xs. unat x < m"
  shows "change_base (of_nat B) (of_nat m) (change_base (of_nat m) (of_nat B) xs) = xs"
proof -
  let ?ys = "change_base (of_nat m) (of_nat B) xs"
  note c = change_base_ok [OF assms]
  let ?z = "length (takeWhile (\<lambda>d. d = 0) (butlast xs))"
  have f: "normal m (fold (base_step (of_nat B) (of_nat m)) ?ys [0])"
    "horner_sum unat m (fold (base_step (of_nat B) (of_nat m)) ?ys [0]) = horner_sum unat m (rev xs)"
    using inv.fold_base_step [OF c(2), of "[0]"] m(1) c(3) by (simp_all add: normal_def)
  have lz: "normal m (rev (drop ?z xs))" "xs = replicate ?z 0 @ drop ?z xs"
    "horner_sum unat m (rev xs) = horner_sum unat m (rev (drop ?z xs))"
    using inv.leading_zeros [OF assms] by blast+
  have "fold (base_step (of_nat B) (of_nat m)) ?ys [0] = rev (drop ?z xs)"
    using m(1) f lz by (intro normal_unique [of m]) simp_all
  then show ?thesis using lz(2) unfolding change_base_def [of "of_nat B"] c(4) by simp
qed

end

subsection \<open>Alphabets\<close>

text \<open>An alphabet the code can work with: distinct characters, at least two.\<close>

definition good_alphabet :: "string \<Rightarrow> bool" where
  "good_alphabet alphabet \<longleftrightarrow> distinct alphabet \<and> 2 \<le> length alphabet"

lemma alphabet_length:
  assumes "good_alphabet alphabet"
  shows "length alphabet \<le> 256" "base_change 256 (length alphabet)"
proof -
  have "length alphabet = card (set alphabet)" using assms by (simp add: good_alphabet_def distinct_card)
  also have "\<dots> \<le> card (UNIV :: char set)" by (intro card_mono) simp_all
  finally show l: "length alphabet \<le> 256" by (simp add: card_UNIV_char)
  with assms show "base_change 256 (length alphabet)" by unfold_locales (simp_all add: good_alphabet_def)
qed

lemma alphabetMap_fold:
  fixes ms :: "uint16 list"
  assumes "distinct alphabet" "length ms = 256"
  shows "c \<notin> set alphabet \<Longrightarrow>
      fold (\<lambda>(i, c) m. m[of_char c := of_nat i]) (enumerate k alphabet) ms ! of_char c = ms ! of_char c"
    and "i < length alphabet \<Longrightarrow>
      fold (\<lambda>(i, c) m. m[of_char c := of_nat i]) (enumerate k alphabet) ms ! of_char (alphabet ! i) = of_nat (k + i)"
proof -
  show other: "fold (\<lambda>(i, c) m. m[of_char c := of_nat i]) (enumerate k xs) ns ! of_char c = (ns :: uint16 list) ! of_char c"
    if "c \<notin> set xs" for c xs k ns
    using that by (induction xs arbitrary: k ns) (auto simp: nth_list_update)
  show "fold (\<lambda>(i, c) m. m[of_char c := of_nat i]) (enumerate k alphabet) ms ! of_char (alphabet ! i) = of_nat (k + i)"
    if "i < length alphabet"
    using that assms
  proof (induction alphabet arbitrary: i k ms)
    case (Cons x xs)
    then show ?case using other [of x xs "Suc k" "ms[of_char x := of_nat k]"] by (cases i) simp_all
  qed simp
qed

lemma alphabetMap_nth:
  assumes "distinct alphabet"
  shows "c \<notin> set alphabet \<Longrightarrow> alphabetMap alphabet ! of_char c = 0xffff"
    and "i < length alphabet \<Longrightarrow> alphabetMap alphabet ! of_char (alphabet ! i) = of_nat i"
  using alphabetMap_fold [OF assms, of "replicate 256 0xffff" _ 0] by (simp_all add: alphabetMap_def)

text \<open>Characters and digits.\<close>

lemma rmap_char_at:
  assumes "length alphabet \<le> 256" "\<forall>d \<in> set ds. unat d < length alphabet"
  shows "rmap (char_at alphabet) ds = Inr (map (\<lambda>d. alphabet ! unat d) ds)"
  using assms(2)
proof (induction ds)
  case (Cons d ds)
  then have "unat (ucast d :: byte) = unat d" using assms(1) by (simp add: unsigned_ucast_eq take_bit_nat_eq_self)
  with Cons show ?case by simp
qed simp

lemma decode_char_digit:
  assumes "good_alphabet alphabet" "unat d < length alphabet"
  shows "decode_char alphabet (alphabet ! unat d) bs = Inr (base_step (of_nat (length alphabet)) 256 d bs)"
proof -
  have n: "alphabetMap alphabet ! of_char (alphabet ! unat d) = d"
    using alphabetMap_nth(2) [OF _ assms(2)] assms(1) by (simp add: good_alphabet_def)
  have "unat d \<noteq> 65535" using assms(2) alphabet_length(1) [OF assms(1)] by simp
  then have "d \<noteq> 0xffff" by auto
  with n show ?thesis by (simp add: decode_char_def base_step_def decode_carry_eq decode_push_eq Let_def split: prod.splits)
qed

lemma rfold_decode:
  assumes "good_alphabet alphabet" "\<forall>d \<in> set ds. unat d < length alphabet"
  shows "rfold (decode_char alphabet) (map (\<lambda>d. alphabet ! unat d) ds) bs =
    Inr (fold (base_step (of_nat (length alphabet)) 256) ds bs)"
  using assms(2) by (induction ds arbitrary: bs) (simp_all add: decode_char_digit [OF assms(1)])

lemma baseDecode_digits:
  assumes "good_alphabet alphabet" "\<forall>d \<in> set ds. unat d < length alphabet" "ds \<noteq> []"
  shows "baseDecode alphabet (map (\<lambda>d. alphabet ! unat d) ds) = Inr (map ucast (change_base (of_nat (length alphabet)) 256 ds))"
proof -
  have "alphabet ! unat d = alphabet ! 0 \<longleftrightarrow> d = 0" if "d \<in> set ds" for d
    using that assms(1,2) by (auto simp: good_alphabet_def nth_eq_iff_index_eq unat_eq_0) (metis nth_eq_iff_index_eq length_pos_if_in_set list.size(3) not_less_zero unat_eq_zero gr0I)
  then have "takeWhile (\<lambda>c. c = alphabet ! 0) (butlast (map (\<lambda>d. alphabet ! unat d) ds)) =
      map (\<lambda>d. alphabet ! unat d) (takeWhile (\<lambda>d. d = 0) (butlast ds))"
    unfolding map_butlast [symmetric] takeWhile_map by (intro arg_cong [of _ _ "map _"] takeWhile_cong) (auto dest: in_set_butlastD)
  with rfold_decode [OF assms(1,2), of "[0]"] assms(3) show ?thesis
    by (simp add: baseDecode_def change_base_def Let_def)
qed

lemma byte_bound: "unat (b :: byte) < 256"
proof -
  have "unat b < 2 ^ LENGTH(8)" by (rule unsigned_less)
  then show ?thesis by simp
qed

lemma byte_digit: "unat (ucast (b :: byte) :: uint16) = unat b" "ucast (ucast b :: uint16) = b" "(ucast b :: uint16) = 0 \<longleftrightarrow> b = 0"
proof -
  show u: "unat (ucast b :: uint16) = unat b"
    using byte_bound [of b] by (simp add: unsigned_ucast_eq take_bit_nat_eq_self)
  show "ucast (ucast b :: uint16) = b" by (rule bit_word_eqI) (simp add: bit_simps)
  show "(ucast b :: uint16) = 0 \<longleftrightarrow> b = 0" using u by (metis unat_eq_zero)
qed

lemma byte_digits: "\<forall>x \<in> set (map ucast bytes :: uint16 list). unat x < 256" for bytes :: "byte list"
  by (auto simp: byte_digit(1) byte_bound)

lemma digit_byte: "unat (x :: uint16) < 256 \<Longrightarrow> ucast (ucast x :: byte) = x"
proof -
  assume "unat x < 256"
  then have "unat (ucast x :: byte) = unat x" by (simp add: unsigned_ucast_eq take_bit_nat_eq_self)
  then show "ucast (ucast x :: byte) = x" using byte_digit(1) [of "ucast x"] by (simp add: word_unat_eq_iff)
qed

lemma baseEncode_digits:
  assumes "good_alphabet alphabet" "bytes \<noteq> []"
  shows "baseEncode alphabet bytes =
    Inr (map (\<lambda>d. alphabet ! unat d) (change_base 256 (of_nat (length alphabet)) (map ucast bytes)))"
proof -
  have "takeWhile (\<lambda>d. d = 0) (butlast (map ucast bytes :: uint16 list)) = map ucast (takeWhile (\<lambda>b. b = 0) (butlast bytes))"
    unfolding map_butlast [symmetric] takeWhile_map by (simp add: comp_def byte_digit(3))
  then have c: "change_base 256 (of_nat (length alphabet)) (map ucast bytes) =
      rev (fold (encode_byte (of_nat (length alphabet))) bytes [0] @ replicate (length (takeWhile (\<lambda>b. b = 0) (butlast bytes))) 0)"
    unfolding change_base_def fold_map comp_def encode_byte_eq [symmetric] by simp
  have "\<forall>x \<in> set (map ucast bytes :: uint16 list). unat x < 256"
    by (rule byte_digits)
  with assms(2) base_change.change_base_ok(2) [OF alphabet_length(2) [OF assms(1)], of "map ucast bytes"]
  have "\<forall>d \<in> set (change_base 256 (of_nat (length alphabet)) (map ucast bytes)). unat d < length alphabet" by simp
  from rmap_char_at [OF alphabet_length(1) [OF assms(1)] this] show ?thesis
    using assms(2) c by (simp add: baseEncode_def Let_def)
qed

subsection \<open>Round trips\<close>

lemma encode_decode:
  assumes "good_alphabet alphabet"
  shows "\<exists>s. baseEncode alphabet bytes = Inr s \<and> baseDecode alphabet s = Inr bytes"
proof (cases "bytes = []")
  case True
  then show ?thesis by (simp add: baseEncode_def baseDecode_def)
next
  case False
  note b = alphabet_length(2) [OF assms]
  let ?ds = "change_base 256 (of_nat (length alphabet)) (map ucast bytes)"
  have n: "(map ucast bytes :: uint16 list) \<noteq> []" using False by simp
  have ds: "?ds \<noteq> []" "\<forall>d \<in> set ?ds. unat d < length alphabet"
    using base_change.change_base_ok(1,2) [OF b n byte_digits] by simp_all
  have "change_base (of_nat (length alphabet)) 256 ?ds = map ucast bytes"
    using base_change.change_base_back [OF b n byte_digits] by simp
  with baseDecode_digits [OF assms ds(2,1)] baseEncode_digits [OF assms False] show ?thesis by (simp add: byte_digit(2) comp_def)
qed

lemma alphabet_digits:
  assumes "good_alphabet alphabet" "set encoded \<subseteq> set alphabet"
  shows "\<exists>ds. encoded = map (\<lambda>d. alphabet ! unat (d :: uint16)) ds \<and> (\<forall>d \<in> set ds. unat d < length alphabet)"
  using assms(2)
proof (induction encoded)
  case (Cons c cs)
  then obtain ds i where "cs = map (\<lambda>d. alphabet ! unat d) ds" "\<forall>d \<in> set ds. unat (d :: uint16) < length alphabet"
    "c = alphabet ! i" "i < length alphabet" by (auto simp: in_set_conv_nth)
  moreover from this(4) have "unat (of_nat i :: uint16) = i"
    using alphabet_length(1) [OF assms(1)] by (simp add: unat_of_nat)
  ultimately show ?case by (intro exI [of _ "of_nat i # ds"]) simp
qed simp

lemma decode_encode:
  assumes "good_alphabet alphabet" "set encoded \<subseteq> set alphabet"
  shows "\<exists>bs. baseDecode alphabet encoded = Inr bs \<and> baseEncode alphabet bs = Inr encoded"
proof (cases "encoded = []")
  case True
  then show ?thesis by (simp add: baseEncode_def baseDecode_def)
next
  case False
  obtain ds where e: "encoded = map (\<lambda>d. alphabet ! unat (d :: uint16)) ds" "\<forall>d \<in> set ds. unat d < length alphabet"
    using alphabet_digits [OF assms] by blast
  with False have n: "ds \<noteq> []" by simp
  have b: "base_change (length alphabet) 256"
    using alphabet_length(2) [OF assms(1)] by (simp add: base_change_def)
  let ?bs = "change_base (of_nat (length alphabet)) 256 ds"
  have bs: "?bs \<noteq> []" "\<forall>d \<in> set ?bs. unat d < 256" "change_base 256 (of_nat (length alphabet)) ?bs = ds"
    using base_change.change_base_ok(1,2) [OF b n e(2)] base_change.change_base_back [OF b n e(2)] by simp_all
  have u: "map ucast (map ucast ?bs :: byte list) = ?bs" using bs(2) by (simp add: map_idI digit_byte)
  have d: "baseDecode alphabet encoded = Inr (map ucast ?bs)" using baseDecode_digits [OF assms(1) e(2) n] e(1) by simp
  have "(map ucast ?bs :: byte list) \<noteq> []" using bs(1) by simp
  from baseEncode_digits [OF assms(1) this] have "baseEncode alphabet (map ucast ?bs) = Inr encoded"
    unfolding u bs(3) using e(1) by simp
  with d show ?thesis by blast
qed

text \<open>
  Encoding and decoding are inverse to each other. In any alphabet of at least two distinct
  characters and for any bytes, leading zeros included, what is encoded is decoded again, and every
  string of the alphabet is the encoding of what it decodes to; the digits on the way never leave
  their 16 bits. A string with another character is refused.
\<close>

theorem base_roundtrip:
  assumes "good_alphabet alphabet"
  shows "(\<exists>s. baseEncode alphabet bytes = Inr s \<and> baseDecode alphabet s = Inr bytes) \<and>
    (if set encoded \<subseteq> set alphabet
     then \<exists>bs. baseDecode alphabet encoded = Inr bs \<and> baseEncode alphabet bs = Inr encoded
     else baseDecode alphabet encoded = Inl (RuntimeError ''unknown character in payshares::baseDecode''))"
proof -
  have "rfold (decode_char alphabet) s bs = Inl (RuntimeError ''unknown character in payshares::baseDecode'')"
    if "\<not> set s \<subseteq> set alphabet" for s bs
    using that
  proof (induction s arbitrary: bs)
    case (Cons c s)
    show ?case
    proof (cases "c \<in> set alphabet")
      case True
      then obtain i where "i < length alphabet" "c = alphabet ! i" by (auto simp: in_set_conv_nth)
      with assms alphabetMap_nth(2) [of alphabet i] alphabet_length(1) [OF assms] have "\<exists>bs'. decode_char alphabet c bs = Inr bs'"
        using decode_char_digit [OF assms, of "of_nat i"] by (auto simp: unat_of_nat)
      with Cons True show ?thesis by auto
    next
      case False
      then show ?thesis using alphabetMap_nth(1) assms by (simp add: decode_char_def good_alphabet_def)
    qed
  qed simp
  then show ?thesis using encode_decode [OF assms] decode_encode [OF assms] by (auto simp: baseDecode_def)
qed

text \<open>The two alphabets.\<close>

lemma alphabets_good: "good_alphabet paysharesBase58Alphabet" "good_alphabet bitcoinBase58Alphabet"
  by code_simp+

interpretation base58: base_change 256 58
  by unfold_locales simp_all

theorem base_roundtrip_witness:
  "baseEncode paysharesBase58Alphabet [0, 0, 1, 0] = Inr ''xxnR'' \<and>
   baseDecode paysharesBase58Alphabet ''xxnR'' = Inr [0, 0, 1, 0] \<and>
   baseDecode paysharesBase58Alphabet ''x0'' = Inl (RuntimeError ''unknown character in payshares::baseDecode'')"
proof -
  have e: "baseEncode paysharesBase58Alphabet [0, 0, 1, 0] = Inr ''xxnR''" by code_simp
  have "\<not> set ''x0'' \<subseteq> set paysharesBase58Alphabet" by code_simp
  with base_roundtrip [OF alphabets_good(1), of "[0, 0, 1, 0]" "''x0''"] e show ?thesis by auto
qed

lemma base58Check_roundtrip:
  assumes "\<And>bs. 4 \<le> length (H bs)"
  shows "\<exists>s. toBase58Check H ver bytes = Inr s \<and> fromBase58Check H s = Inr (ver, bytes)"
proof -
  let ?sum = "take 4 (H (H (ver # bytes)))"
  have l: "length ?sum = 4" using assms by simp
  from encode_decode [OF alphabets_good(1), of "(ver # bytes) @ ?sum"] obtain s where
    s: "baseEncode paysharesBase58Alphabet ((ver # bytes) @ ?sum) = Inr s" "baseDecode paysharesBase58Alphabet s = Inr ((ver # bytes) @ ?sum)"
    by blast
  have "length ((ver # bytes) @ ?sum) - 4 = length (ver # bytes)" using l by simp
  then have "take (length ((ver # bytes) @ ?sum) - 4) ((ver # bytes) @ ?sum) = ver # bytes"
    "drop (length ((ver # bytes) @ ?sum) - 4) ((ver # bytes) @ ?sum) = ?sum" by simp_all
  with s l show ?thesis
    by (simp add: toBase58Check_def fromBase58Check_def baseCheckEncode_def baseCheckDecode_def Let_def del: append_Cons)
qed

text \<open>
  C37: a secret key that was made from a seed is read back from its printed seed, whatever the hash. A printed public key is not
  taken for a seed, but it is read back as the 32 bytes of an account. Of libsodium it is assumed that a hash has 32 bytes, and
  that of a key made from a seed of 32 bytes the seed and the public key, 32 bytes as well, can be extracted again; nothing is
  assumed of other keys.
\<close>

theorem seed_roundtrip:
  assumes "\<forall>bs. length (sd_sha256 S bs) = 32"
    and "\<forall>seed sk. length seed = 32 \<and> sd_seed_keypair S seed = Some sk \<longrightarrow>
      sd_sk_to_seed S sk = Some seed \<and> (\<exists>pk. sd_sk_to_pk S sk = Some pk \<and> length pk = 32)"
    and "length seed = 32" "fromSeed S seed = Inr sk"
  shows "rbind (getBase58Seed S sk) (fromBase58Seed S) = Inr sk \<and>
    rbind (getBase58Public S sk) (fromBase58Seed S) = Inl (RuntimeError ''unexpected version byte on secret key base58 seed'') \<and>
    rbind (getBase58Public S sk) (fromBase58Check256 (sd_sha256 S) VER_ACCOUNT_ID) = getPublicKey S sk"
proof -
  have H: "4 \<le> length (sd_sha256 S bs)" for bs using assms(1) by simp
  have k: "sd_seed_keypair S seed = Some sk" using assms(4) by (simp add: fromSeed_def split: option.splits)
  obtain pk where pk: "sd_sk_to_seed S sk = Some seed" "sd_sk_to_pk S sk = Some pk" "length pk = 32" using assms(2,3) k by blast
  obtain s where s: "toBase58Check (sd_sha256 S) VER_SEED seed = Inr s" "fromBase58Check (sd_sha256 S) s = Inr (VER_SEED, seed)"
    using base58Check_roundtrip [of "sd_sha256 S", OF H] by blast
  obtain p where p: "toBase58Check (sd_sha256 S) VER_ACCOUNT_ID pk = Inr p" "fromBase58Check (sd_sha256 S) p = Inr (VER_ACCOUNT_ID, pk)"
    using base58Check_roundtrip [of "sd_sha256 S", OF H] by blast
  have "VER_ACCOUNT_ID \<noteq> VER_SEED" by code_simp
  with s p k pk assms(3) show ?thesis
    by (simp add: getBase58Seed_def getBase58Public_def getSeed_def getPublicKey_def fromBase58Seed_def fromBase58Check256_def fromSeed_def)
qed

text \<open>A key that is its seed and a public key; the two parts of any 64 bytes can be extracted.\<close>

definition sample_sodium :: Sodium where
  "sample_sodium = \<lparr>sd_sk_to_seed = (\<lambda>sk. if length sk = 64 then Some (take 32 sk) else None),
     sd_sk_to_pk = (\<lambda>sk. if length sk = 64 then Some (drop 32 sk) else None),
     sd_seed_keypair = (\<lambda>seed. if length seed = 32 then Some (seed @ map (\<lambda>b. b + 1) seed) else None),
     sd_sha256 = (\<lambda>bs. take 32 (bs @ replicate 32 7))\<rparr>"

theorem seed_roundtrip_witness:
  "rbind (getBase58Seed sample_sodium (replicate 32 9 @ replicate 32 10)) (fromBase58Seed sample_sodium) = Inr (replicate 32 9 @ replicate 32 10)"
proof -
  have "\<forall>bs. length (sd_sha256 sample_sodium bs) = 32" by (auto simp: sample_sodium_def)
  moreover have "\<forall>seed sk. length seed = 32 \<and> sd_seed_keypair sample_sodium seed = Some sk \<longrightarrow>
      sd_sk_to_seed sample_sodium sk = Some seed \<and> (\<exists>pk. sd_sk_to_pk sample_sodium sk = Some pk \<and> length pk = 32)"
    by (auto simp: sample_sodium_def)
  moreover have "fromSeed sample_sodium (replicate 32 9) = Inr (replicate 32 9 @ replicate 32 10)"
    by (simp add: fromSeed_def sample_sodium_def)
  ultimately show ?thesis
    using seed_roundtrip [of sample_sodium "replicate 32 9" "replicate 32 9 @ replicate 32 10"] by simp
qed

end
