(* ===== verification/Floodgate.thy ===== *)
theory Floodgate
  imports Ordered_Map
begin

text \<open>
  \<open>src/overlay/Floodgate.cpp\<close>: which peers have been told which message.

  A peer is its address, \<open>None\<close> the null pointer. \<open>H\<close> is the hash of the encoded message and \<open>seq\<close> the ledger
  the herder is at. The connected peers and the test for a finished handshake are arguments; the messages
  sent are part of the result.
\<close>

subsection \<open>Definitions\<close>

record 'm FloodRecord =
  fr_LedgerSeq :: uint32
  fr_Message :: 'm
  fr_PeersTold :: "nat option list"

type_synonym 'm FloodMap = "(uint256, 'm FloodRecord) omap"

definition new_FloodRecord :: "'m \<Rightarrow> uint32 \<Rightarrow> nat option \<Rightarrow> 'm FloodRecord" where
  "new_FloodRecord msg ledger peer =
     \<lparr>fr_LedgerSeq = ledger, fr_Message = msg, fr_PeersTold = (case peer of None \<Rightarrow> [] | Some p \<Rightarrow> [Some p])\<rparr>"

definition clearBelow :: "uint32 \<Rightarrow> 'm FloodMap \<Rightarrow> 'm FloodMap" where
  "clearBelow currentLedger fm = filter (\<lambda>(_, r). \<not> fr_LedgerSeq r + 10 < currentLedger) fm"

definition addRecord :: "('m \<Rightarrow> uint256) \<Rightarrow> uint32 \<Rightarrow> 'm \<Rightarrow> nat option \<Rightarrow> 'm FloodMap \<Rightarrow> bool \<times> 'm FloodMap" where
  "addRecord H seq msg peer fm =
     (case map_of fm (H msg) of
        None \<Rightarrow> (True, om_update (H msg) (new_FloodRecord msg seq peer) fm)
      | Some r \<Rightarrow> (False, om_update (H msg) (r\<lparr>fr_PeersTold := fr_PeersTold r @ [peer]\<rparr>) fm))"

text \<open>The two loops of \<open>broadcast\<close>: the peers the message is sent to, and those told afterwards.\<close>

fun tell_all :: "(nat \<Rightarrow> bool) \<Rightarrow> nat list \<Rightarrow> nat option list \<Rightarrow> nat list \<times> nat option list" where
  "tell_all ready [] told = ([], told)"
| "tell_all ready (p # ps) told =
     (if ready p then let (sent, told') = tell_all ready ps (told @ [Some p]) in (p # sent, told')
      else tell_all ready ps told)"

fun tell_others :: "(nat \<Rightarrow> bool) \<Rightarrow> nat list \<Rightarrow> nat option list \<Rightarrow> nat list \<times> nat option list" where
  "tell_others ready [] told = ([], told)"
| "tell_others ready (p # ps) told =
     (if Some p \<notin> set told \<and> ready p then let (sent, told') = tell_others ready ps (told @ [Some p]) in (p # sent, told')
      else tell_others ready ps told)"

definition broadcast ::
    "('m \<Rightarrow> uint256) \<Rightarrow> uint32 \<Rightarrow> bool \<Rightarrow> (nat \<Rightarrow> bool) \<Rightarrow> nat list \<Rightarrow> 'm \<Rightarrow> 'm FloodMap \<Rightarrow> nat list \<times> 'm FloodMap" where
  "broadcast H seq force ready peers msg fm =
     (case (if force then None else map_of fm (H msg)) of
        None \<Rightarrow>
          let (sent, told) = tell_all ready peers (map Some peers)
          in (sent, om_update (H msg) ((new_FloodRecord msg seq None)\<lparr>fr_PeersTold := told\<rparr>) fm)
      | Some r \<Rightarrow>
          let (sent, told) = tell_others ready peers (fr_PeersTold r)
          in (sent, om_update (H msg) (r\<lparr>fr_PeersTold := told\<rparr>) fm))"

subsection \<open>Who is sent a message\<close>

lemma tell_all_exact: "tell_all ready ps told = (filter ready ps, told @ map Some (filter ready ps))"
  by (induction ps arbitrary: told) auto

lemma tell_others_exact:
  "tell_others ready ps told = (sent, told') \<Longrightarrow>
    told' = told @ map Some sent \<and> distinct sent \<and> set sent = {p \<in> set ps. ready p \<and> Some p \<notin> set told}"
proof (induction ps arbitrary: told sent told')
  case (Cons p ps)
  show ?case
  proof (cases "Some p \<notin> set told \<and> ready p")
    case True
    obtain sent1 told1 where r: "tell_others ready ps (told @ [Some p]) = (sent1, told1)" by fastforce
    have "sent = p # sent1" "told' = told1" using Cons.prems True r by auto
    with Cons.IH [OF r] True show ?thesis by auto
  next
    case False
    then have "tell_others ready ps told = (sent, told')" using Cons.prems by (simp split: if_splits)
    from Cons.IH [OF this] False show ?thesis by auto
  qed
qed simp

lemma tell_others_list: "distinct ps \<Longrightarrow> fst (tell_others ready ps told) = filter (\<lambda>p. ready p \<and> Some p \<notin> set told) ps"
proof (induction ps arbitrary: told)
  case (Cons p ps)
  have "filter (\<lambda>q. ready q \<and> Some q \<notin> set (told @ [Some p])) ps = filter (\<lambda>q. ready q \<and> Some q \<notin> set told) ps"
    using Cons.prems by (intro filter_cong) auto
  with Cons show ?case by (auto split: prod.splits dest: arg_cong [where f = fst])
qed simp

lemma broadcast_first:
  "map_of fm (H msg) = None \<or> force \<Longrightarrow> broadcast H seq force ready peers msg fm =
    (filter ready peers, om_update (H msg)
       \<lparr>fr_LedgerSeq = seq, fr_Message = msg, fr_PeersTold = map Some peers @ map Some (filter ready peers)\<rparr> fm)"
  by (auto simp: broadcast_def tell_all_exact new_FloodRecord_def)

text \<open>
  The first broadcast of a message marks every connection as told, but leaves out those still in the
  handshake: they are not sent the message later either.
\<close>

lemma broadcast_misses_handshake:
  assumes "map_of fm (H msg) = None" "p \<in> set peers" "\<not> ready p" "broadcast H seq False ready peers msg fm = (sent, fm1)"
    and "broadcast H seq' False ready' peers' msg fm1 = (sent', fm2)"
  shows "p \<notin> set sent" "p \<notin> set sent'"
proof -
  have b: "sent = filter ready peers" "map_of fm1 (H msg) =
      Some \<lparr>fr_LedgerSeq = seq, fr_Message = msg, fr_PeersTold = map Some peers @ map Some (filter ready peers)\<rparr>"
    using assms(1,4) broadcast_first [of fm H msg False seq ready peers] by auto
  then show "p \<notin> set sent" using assms(3) by simp
  obtain told where "tell_others ready' peers' (map Some peers @ map Some (filter ready peers)) = (sent', told)"
    using assms(5) b(2) by (auto simp: broadcast_def split: prod.splits)
  from tell_others_exact [OF this] assms(2) show "p \<notin> set sent'" by auto
qed

subsection \<open>Once and only once\<close>

datatype 'm flood_event = Sent (ev_peer: nat) (ev_msg: 'm) | Got (ev_peer: nat) (ev_msg: 'm)

text \<open>
  The messages that go in and out, as far as they bear on the hash \<open>h\<close>: messages that arrive, broadcasts, and the
  removal of old records. A record of \<open>h\<close> is neither removed nor made anew by force.
\<close>

inductive flood_step :: "('m \<Rightarrow> uint256) \<Rightarrow> uint256 \<Rightarrow> 'm FloodMap \<times> 'm flood_event list \<Rightarrow> 'm FloodMap \<times> 'm flood_event list \<Rightarrow> bool"
  for H h where
  arrives: "addRecord H seq msg (Some p) fm = (b, fm') \<Longrightarrow> flood_step H h (fm, es) (fm', es @ [Got p msg])"
| tells: "broadcast H seq force ready peers msg fm = (sent, fm') \<Longrightarrow> distinct peers \<Longrightarrow> force \<longrightarrow> H msg \<noteq> h \<Longrightarrow>
    flood_step H h (fm, es) (fm', es @ map (\<lambda>p. Sent p msg) sent)"
| clears: "map_of fm h = None \<or> map_of (clearBelow n fm) h = map_of fm h \<Longrightarrow> flood_step H h (fm, es) (clearBelow n fm, es)"

text \<open>A peer is not sent what it has been sent or has sent itself.\<close>

definition tells_once :: "'m flood_event list \<Rightarrow> bool" where
  "tells_once es \<longleftrightarrow> sorted_wrt (\<lambda>e e'. ev_peer e = ev_peer e' \<longrightarrow> \<not> is_Sent e') es"

definition flood_ok :: "('m \<Rightarrow> uint256) \<Rightarrow> uint256 \<Rightarrow> 'm FloodMap \<times> 'm flood_event list \<Rightarrow> bool" where
  "flood_ok H h s \<longleftrightarrow> (let es = filter (\<lambda>e. H (ev_msg e) = h) (snd s) in
     tells_once es \<and> (case map_of (fst s) h of None \<Rightarrow> es = [] | Some r \<Rightarrow> Some ` ev_peer ` set es \<subseteq> set (fr_PeersTold r)))"

lemma tells_once_snoc: "tells_once (es @ map (\<lambda>p. Sent p m) ps) \<longleftrightarrow> tells_once es \<and> distinct ps \<and> ev_peer ` set es \<inter> set ps = {}"
  by (induction ps rule: rev_induct) (auto simp: tells_once_def sorted_wrt_append)

lemma tells_once_simps [simp]: "tells_once []" "tells_once [Got p m]" "tells_once (es @ [Got p m]) \<longleftrightarrow> tells_once es"
  by (auto simp: tells_once_def sorted_wrt_append)

lemma clearBelow_absent: "map_of fm h = None \<Longrightarrow> map_of (clearBelow n fm) h = None"
  by (auto simp: clearBelow_def map_of_eq_None_iff)

lemma flood_ok_arrives:
  assumes "flood_ok H h (fm, es)" "addRecord H seq msg (Some p) fm = (b, fm')"
  shows "flood_ok H h (fm', es @ [Got p msg])"
proof (cases "H msg = h")
  case True
  with assms show ?thesis
    by (cases "map_of fm h") (auto simp: image_subset_iff flood_ok_def addRecord_def new_FloodRecord_def Let_def)
next
  case False
  then have "map_of fm' h = map_of fm h" using assms(2) by (auto simp: addRecord_def split: option.splits)
  with assms(1) False show ?thesis by (simp add: flood_ok_def)
qed

lemma flood_ok_tells:
  assumes "flood_ok H h (fm, es)" "broadcast H seq force ready peers msg fm = (sent, fm')" "distinct peers" "force \<longrightarrow> H msg \<noteq> h"
  shows "flood_ok H h (fm', es @ map (\<lambda>p. Sent p msg) sent)"
proof (cases "H msg = h")
  case False
  then have "map_of fm' h = map_of fm h"
    using assms(2) by (auto simp: broadcast_def Let_def split: option.splits prod.splits if_splits)
  with assms(1) False show ?thesis by (simp add: flood_ok_def)
next
  case h: True
  let ?es = "filter (\<lambda>e. H (ev_msg e) = h) es"
  have new: "filter (\<lambda>e. H (ev_msg e) = h) (es @ map (\<lambda>p. Sent p msg) sent) = ?es @ map (\<lambda>p. Sent p msg) sent" using h by (induction sent) auto
  show ?thesis
  proof (cases "map_of fm h")
    case None
    then have "?es = []" using assms(1) by (simp add: flood_ok_def Let_def)
    moreover have "distinct sent" "map_of fm' h =
        Some \<lparr>fr_LedgerSeq = seq, fr_Message = msg, fr_PeersTold = map Some peers @ map Some sent\<rparr>"
      using assms(2,3) h None broadcast_first [of fm H msg force seq ready peers] by auto
    ultimately show ?thesis unfolding flood_ok_def Let_def snd_conv new using tells_once_snoc [of "[]" msg sent] by auto
  next
    case (Some r)
    obtain told where t: "tell_others ready peers (fr_PeersTold r) = (sent, told)" "map_of fm' h = Some (r\<lparr>fr_PeersTold := told\<rparr>)"
      using assms(2,4) h Some by (auto simp: broadcast_def split: prod.splits)
    have ok: "tells_once ?es" "Some ` ev_peer ` set ?es \<subseteq> set (fr_PeersTold r)" using assms(1) Some by (simp_all add: flood_ok_def Let_def)
    note s = tell_others_exact [OF t(1)]
    have "ev_peer ` set ?es \<inter> set sent = {}" using ok(2) s by auto
    with ok s t(2) show ?thesis unfolding flood_ok_def Let_def snd_conv new by (auto simp: tells_once_snoc)
  qed
qed

lemma flood_ok_step: "flood_step H h s s' \<Longrightarrow> flood_ok H h s \<Longrightarrow> flood_ok H h s'"
proof (induction rule: flood_step.induct)
  case (clears fm n es)
  then have "map_of (clearBelow n fm) h = map_of fm h" using clearBelow_absent [of fm h n] by auto
  then show ?case using clears.prems by (simp add: flood_ok_def)
qed (blast intro: flood_ok_arrives flood_ok_tells)+

text \<open>
  C30: Floodgate sends each message to each peer at most once, and never to a peer that has sent it
  itself: in the sequence of events for one message, no message is sent to a peer that occurs before. This holds
  while the record of the message is kept (ten ledgers long) and no broadcast of it is forced.
\<close>

theorem flooded_once:
  assumes "map_of fm h = None" "(flood_step H h)\<^sup>*\<^sup>* (fm, []) (fm', es)"
  shows "tells_once (filter (\<lambda>e. H (ev_msg e) = h) es)"
proof -
  have "flood_ok H h (fm, [])" using assms(1) by (simp add: flood_ok_def tells_once_def)
  with assms(2) have "flood_ok H h (fm', es)" by (induction rule: rtranclp_induct) (auto intro: flood_ok_step)
  then show ?thesis by (simp add: flood_ok_def Let_def)
qed

theorem flooded_once_witness:
  "\<exists>fm es. (flood_step (\<lambda>m :: uint256. m) 7)\<^sup>*\<^sup>* ([], []) (fm, es) \<and> es = [Got 2 7, Sent 1 7, Sent 3 7] \<and>
     tells_once (filter (\<lambda>e. ev_msg e = 7) es)"
proof -
  let ?H = "\<lambda>m :: uint256. m"
  let ?f = "snd (addRecord ?H 5 7 (Some 2) [])" and ?ready = "\<lambda>_ :: nat. True"
  have "flood_step ?H 7 ([], []) (?f, [] @ [Got 2 7])" by (rule flood_step.arrives [of _ 5 _ _ _ True]) (simp add: addRecord_def)
  moreover have "broadcast ?H 5 False ?ready [1, 2, 3] 7 ?f = ([1, 3], snd (broadcast ?H 5 False ?ready [1, 2, 3] 7 ?f))"
    by (simp add: addRecord_def broadcast_def new_FloodRecord_def)
  then have "flood_step ?H 7 (?f, [Got 2 7]) (snd (broadcast ?H 5 False ?ready [1, 2, 3] 7 ?f), [Got 2 7] @ map (\<lambda>p. Sent p 7) [1, 3])"
    by (rule flood_step.tells) simp_all
  ultimately have "(flood_step ?H 7)\<^sup>*\<^sup>* ([], []) (snd (broadcast ?H 5 False ?ready [1, 2, 3] 7 ?f), [Got 2 7, Sent 1 7, Sent 3 7])"
    by (simp add: converse_rtranclp_into_rtranclp [OF _ r_into_rtranclp])
  with flooded_once [OF _ this] show ?thesis by auto
qed

end
