(* ===== verification/Peer_Record.thy ===== *)
theory Peer_Record
  imports Database Timer
begin

text \<open>
  \<open>src/overlay/PeerRecord.cpp\<close>: what is known of the nodes one could connect to.

  The table \<open>Peers\<close> has the address and the port as its key. A point in time is stored as a date, that is in whole
  seconds; a \<open>tm\<close> is the second it denotes. \<open>resolve\<close> stands for the resolver of asio: \<open>None\<close> for an error, else the
  addresses found, each with the mark of IPv4; its first argument asks for a numeric host. \<open>order\<close> stands for the
  \<open>ORDER BY\<close> clause, which leaves the order of equal rows open.
\<close>

subsection \<open>Numbers and addresses as text\<close>

definition is_digit :: "char \<Rightarrow> bool" where
  "is_digit c \<longleftrightarrow> c \<in> set ''0123456789''"

definition digit_value :: "char \<Rightarrow> int" where
  "digit_value c = of_char c - 48"

text \<open>\<open>atoi\<close>, for numbers that an \<open>int\<close> holds.\<close>

definition digits_value :: "string \<Rightarrow> int" where
  "digits_value ds = foldl (\<lambda>v c. 10 * v + digit_value c) 0 ds"

definition is_space :: "char \<Rightarrow> bool" where
  "is_space c \<longleftrightarrow> (of_char c :: nat) = 32 \<or> (of_char c :: nat) \<in> {9..13}"

definition atoi :: "string \<Rightarrow> int" where
  "atoi s =
     (case dropWhile is_space s of
        [] \<Rightarrow> 0
      | c # cs \<Rightarrow>
          if c = CHR ''-'' then - digits_value (takeWhile is_digit cs)
          else if c = CHR ''+'' then digits_value (takeWhile is_digit cs)
          else digits_value (takeWhile is_digit (c # cs)))"

fun to_string :: "nat \<Rightarrow> string" where
  "to_string n = (if n < 10 then [char_of (48 + n)] else to_string (n div 10) @ [char_of (48 + n mod 10)])"

declare to_string.simps [simp del]

text \<open>The items \<open>getline\<close> reads up to a full stop.\<close>

function getline_items :: "string \<Rightarrow> string list" where
  "getline_items s =
     (if s = [] then [] else takeWhile (\<lambda>c. c \<noteq> CHR ''.'') s # getline_items (tl (dropWhile (\<lambda>c. c \<noteq> CHR ''.'') s)))"
  by pat_completeness auto
termination
proof (relation "measure length")
  fix s :: string
  assume "s \<noteq> []"
  then have "length (tl (dropWhile (\<lambda>c. c \<noteq> CHR ''.'') s)) < length s"
    using length_dropWhile_le [of "\<lambda>c. c \<noteq> CHR ''.''" s] by (cases s) (auto split: if_splits)
  then show "(tl (dropWhile (\<lambda>c. c \<noteq> CHR ''.'') s), s) \<in> measure length" by simp
qed simp

declare getline_items.simps [simp del]

definition ipToXdr :: "string \<Rightarrow> byte list res" where
  "ipToXdr ip =
     (let items = take 4 (getline_items ip)
      in if length items = 4 then Inr (map (\<lambda>i. word_of_int (atoi i)) items) else Inl (RuntimeError ''PeerRecord::ipToXdr''))"

text \<open>The text of an address that \<open>Peer::recvPeers\<close> makes.\<close>

definition ip_text :: "byte list \<Rightarrow> string" where
  "ip_text ip = to_string (unat (ip ! 0)) @ ''.'' @ to_string (unat (ip ! 1)) @ ''.'' @ to_string (unat (ip ! 2)) @ ''.'' @ to_string (unat (ip ! 3))"

subsection \<open>Records\<close>

record PeerRecord =
  pr_IP :: string
  pr_Port :: "16 word"
  pr_NextAttempt :: time_point
  pr_NumFailures :: uint32
  pr_Rank :: uint32

record PeerAddress =
  pa_ip :: "byte list"
  pa_port :: uint32
  pa_numFailures :: uint32

definition toXdr :: "PeerRecord \<Rightarrow> PeerAddress res" where
  "toXdr pr = rbind (ipToXdr (pr_IP pr)) (\<lambda>ip. Inr \<lparr>pa_ip = ip, pa_port = ucast (pr_Port pr), pa_numFailures = pr_NumFailures pr\<rparr>)"

definition fromIPPort :: "string \<Rightarrow> 16 word \<Rightarrow> time_point \<Rightarrow> PeerRecord" where
  "fromIPPort ip port now = \<lparr>pr_IP = ip, pr_Port = port, pr_NextAttempt = now, pr_NumFailures = 0, pr_Rank = 1\<rparr>"

definition DEFAULT_PEER_PORT :: "16 word" where
  "DEFAULT_PEER_PORT = 39133"

definition is_alnum :: "char \<Rightarrow> bool" where
  "is_alnum c \<longleftrightarrow> is_digit c \<or> (of_char c :: nat) \<in> {65..90} \<or> (of_char c :: nat) \<in> {97..122}"

fun split_dot :: "string \<Rightarrow> string list" where
  "split_dot [] = [[]]"
| "split_dot (c # s) =
     (if c = CHR ''.'' then [] # split_dot s
      else case split_dot s of [] \<Rightarrow> [[c]] | w # ws \<Rightarrow> (c # w) # ws)"

definition dotted_quad :: "string \<Rightarrow> bool" where
  "dotted_quad s \<longleftrightarrow> length (split_dot s) = 4 \<and> list_all (\<lambda>w. w \<noteq> [] \<and> length w \<le> 3 \<and> list_all is_digit w) (split_dot s)"

text \<open>
  The regular expression: a dotted quad or else a name, and a port or none. A match gives whether the host is
  numeric, the host and the port.
\<close>

definition match_ipPort :: "string \<Rightarrow> (bool \<times> string \<times> string option) option" where
  "match_ipPort s =
     (let host = takeWhile (\<lambda>c. c \<noteq> CHR '':'') s; rest = dropWhile (\<lambda>c. c \<noteq> CHR '':'') s; port = tl rest
      in if (dotted_quad host \<or> host \<noteq> [] \<and> list_all (\<lambda>c. is_alnum c \<or> c = CHR ''.'' \<or> c = CHR ''-'') host) \<and>
            (rest = [] \<or> port \<noteq> [] \<and> length port \<le> 5 \<and> list_all is_digit port)
         then Some (dotted_quad host, host, if rest = [] then None else Some port) else None)"

definition parseIPPort ::
    "(bool \<Rightarrow> string \<Rightarrow> (bool \<times> string) list option) \<Rightarrow> time_point \<Rightarrow> 16 word \<Rightarrow> string \<Rightarrow> PeerRecord option" where
  "parseIPPort resolve now defaultPort ipPort =
     (case match_ipPort ipPort of
        None \<Rightarrow> None
      | Some (numeric, host, portText) \<Rightarrow>
          (case resolve numeric host of
             None \<Rightarrow> None
           | Some found \<Rightarrow>
               let ip = (case filter fst found of [] \<Rightarrow> [] | (_, a) # _ \<Rightarrow> a);
                   bad = (case portText of None \<Rightarrow> False | Some t \<Rightarrow> atoi t \<le> 0 \<or> atoi t > 65535);
                   port = (case portText of None \<Rightarrow> defaultPort | Some t \<Rightarrow> word_of_int (atoi t))
               in if ip = [] \<or> bad \<or> port = 0 then None else Some (fromIPPort ip port now)))"

text \<open>\<open>from_string\<close> is the parser of asio; it gives the address as a number.\<close>

definition isPrivateAddress :: "(string \<Rightarrow> uint32 option) \<Rightarrow> PeerRecord \<Rightarrow> bool" where
  "isPrivateAddress from_string pr =
     (case from_string (pr_IP pr) of
        None \<Rightarrow> False
      | Some val \<Rightarrow> drop_bit 24 val = 10 \<or> drop_bit 20 val = 2753 \<or> drop_bit 16 val = 49320)"

text \<open>
  The delay is computed in \<open>double\<close> and cast to seconds, which are then converted to nanoseconds. Where the cast is out
  of range the value is that of x86-64.
\<close>

definition backOff_seconds :: "uint32 \<Rightarrow> int64" where
  "backOff_seconds n = (if n < 60 then 2 ^ unat n * 10 else INT64_MIN)"

definition backOff :: "time_point \<Rightarrow> PeerRecord \<Rightarrow> PeerRecord" where
  "backOff now pr =
     (let n = pr_NumFailures pr + 1
      in pr\<lparr>pr_NumFailures := n, pr_NextAttempt := wrap64 (now + wrap64 (backOff_seconds n * 1000000000))\<rparr>)"

definition pr_toString :: "PeerRecord \<Rightarrow> string" where
  "pr_toString pr = pr_IP pr @ '':'' @ to_string (unat (pr_Port pr))"

subsection \<open>The table\<close>

record PeerRow =
  pw_nextAttempt :: int
  pw_numFailures :: uint32
  pw_rank :: uint32

type_synonym Peers = "(string \<times> 16 word, PeerRow) sql_table"

definition pointToTm :: "time_point \<Rightarrow> int" where
  "pointToTm t = (if t < 0 then - (- t div 1000000000) else t div 1000000000)"

definition tmToPoint :: "int \<Rightarrow> time_point" where
  "tmToPoint s = s * 1000000000"

definition row_record :: "(string \<times> 16 word) \<times> PeerRow \<Rightarrow> PeerRecord" where
  "row_record kr = (case kr of ((ip, port), r) \<Rightarrow>
     \<lparr>pr_IP = ip, pr_Port = port, pr_NextAttempt = tmToPoint (pw_nextAttempt r), pr_NumFailures = pw_numFailures r, pr_Rank = pw_rank r\<rparr>)"

definition record_row :: "PeerRecord \<Rightarrow> PeerRow" where
  "record_row pr = \<lparr>pw_nextAttempt = pointToTm (pr_NextAttempt pr), pw_numFailures = pr_NumFailures pr, pw_rank = pr_Rank pr\<rparr>"

definition loadPeerRecord :: "Peers \<Rightarrow> string \<Rightarrow> 16 word \<Rightarrow> PeerRecord option" where
  "loadPeerRecord db ip port = map_option (\<lambda>r. row_record ((ip, port), r)) (map_of db (ip, port))"

definition loadPeerRecords ::
    "(((string \<times> 16 word) \<times> PeerRow) list \<Rightarrow> ((string \<times> 16 word) \<times> PeerRow) list) \<Rightarrow> uint32 \<Rightarrow> time_point \<Rightarrow> Peers \<Rightarrow> PeerRecord list" where
  "loadPeerRecords order maxn nextAttemptCutoff db =
     map row_record (take (unat maxn) (order (filter (\<lambda>(_, r). pw_nextAttempt r \<le> pointToTm nextAttemptCutoff) db)))"

definition isStored :: "Peers \<Rightarrow> PeerRecord \<Rightarrow> bool" where
  "isStored db pr \<longleftrightarrow> loadPeerRecord db (pr_IP pr) (pr_Port pr) \<noteq> None"

text \<open>The checks of the table, which see the unsigned numbers of a record as signed ones.\<close>

definition peer_check :: "16 word \<Rightarrow> PeerRow \<Rightarrow> bool" where
  "peer_check port r \<longleftrightarrow> 0 < port \<and> 0 \<le> sint (pw_numFailures r) \<and> 0 \<le> sint (pw_rank r)"

definition insertIfNew :: "PeerRecord \<Rightarrow> Peers \<Rightarrow> (bool \<times> Peers) res" where
  "insertIfNew pr db =
     (if isStored db pr then Inr (False, db)
      else rbind (sql_insert (peer_check (pr_Port pr)) (pr_IP pr, pr_Port pr) (record_row pr) db) (\<lambda>db'. Inr (True, db')))"

definition storePeerRecord :: "PeerRecord \<Rightarrow> Peers \<Rightarrow> Peers res" where
  "storePeerRecord pr db =
     rbind (insertIfNew pr db) (\<lambda>(inserted, db').
       if inserted then Inr db'
       else sql_update (peer_check (pr_Port pr)) (pr_IP pr, pr_Port pr) (\<lambda>_. record_row pr)
              (Inl (RuntimeError ''PeerRecord::storePeerRecord'')) db')"

subsection \<open>Addresses are read back\<close>

lemma digit_char:
  assumes "k < 10"
  shows "is_digit (char_of (48 + k :: nat))" "digit_value (char_of (48 + k :: nat)) = int k"
proof -
  have "list_all (\<lambda>k. is_digit (char_of (48 + k :: nat)) \<and> digit_value (char_of (48 + k :: nat)) = int k) [0..<10]" by code_simp
  with assms show "is_digit (char_of (48 + k))" "digit_value (char_of (48 + k)) = int k" by (simp_all add: list_all_iff)
qed

lemma digits_value_snoc: "digits_value (ds @ [c]) = 10 * digits_value ds + digit_value c"
  by (simp add: digits_value_def)

lemma to_string_digits: "list_all is_digit (to_string n)" "to_string n \<noteq> []" "digits_value (to_string n) = int n"
proof (induction n rule: to_string.induct)
  case (1 n)
  have "n mod 10 < 10" by simp
  note d = digit_char [OF this]
  have "n < 10 \<Longrightarrow> list_all is_digit [char_of (48 + n)] \<and> digits_value [char_of (48 + n)] = int n"
    using digit_char [of n] by (simp add: digits_value_def)
  moreover have "10 * int (n div 10) + int (n mod 10) = int n" by (simp add: zdiv_int zmod_int)
  ultimately show "list_all is_digit (to_string n)" "to_string n \<noteq> []" "digits_value (to_string n) = int n"
    using 1 d by (subst to_string.simps, simp add: digits_value_snoc)+
qed

lemma digit_not:
  assumes "is_digit c"
  shows "c \<noteq> CHR ''.''" "\<not> is_space c" "c \<noteq> CHR ''-''" "c \<noteq> CHR ''+''"
  using assms by (auto simp: is_digit_def is_space_def)

lemma atoi_digits:
  assumes "list_all is_digit w"
  shows "atoi w = digits_value w"
proof (cases w)
  case (Cons c cs)
  then have "dropWhile is_space w = w" "takeWhile is_digit cs = cs"
    using assms by (auto simp: digit_not list_all_iff takeWhile_eq_all_conv)
  moreover have "is_digit c" using Cons assms by simp
  moreover from this have "c \<noteq> CHR ''-''" "c \<noteq> CHR ''+''" by (rule digit_not)+
  ultimately show ?thesis unfolding atoi_def Cons by (simp del: takeWhile_eq_all_conv)
qed (simp add: atoi_def digits_value_def)

lemma getline_items_dot:
  assumes "list_all is_digit w"
  shows "getline_items (w @ CHR ''.'' # s) = w # getline_items s"
proof -
  have "\<forall>c \<in> set w. c \<noteq> CHR ''.''" using assms digit_not(1) by (auto simp: list_all_iff)
  then have "takeWhile (\<lambda>c. c \<noteq> CHR ''.'') (w @ CHR ''.'' # s) = w" "dropWhile (\<lambda>c. c \<noteq> CHR ''.'') (w @ CHR ''.'' # s) = CHR ''.'' # s"
    by (simp_all add: takeWhile_append2 dropWhile_append2)
  then show ?thesis by (subst getline_items.simps) simp
qed

lemma getline_items_last:
  assumes "list_all is_digit w" "w \<noteq> []"
  shows "getline_items w = [w]"
proof -
  have "\<forall>c \<in> set w. c \<noteq> CHR ''.''" using assms(1) digit_not(1) by (auto simp: list_all_iff)
  then have w: "takeWhile (\<lambda>c. c \<noteq> CHR ''.'') w = w" "dropWhile (\<lambda>c. c \<noteq> CHR ''.'') w = []"
    by (simp_all add: takeWhile_eq_all_conv dropWhile_eq_Nil_conv)
  have "getline_items w = takeWhile (\<lambda>c. c \<noteq> CHR ''.'') w # getline_items (tl (dropWhile (\<lambda>c. c \<noteq> CHR ''.'') w))"
    using assms(2) by (subst getline_items.simps) simp
  then show ?thesis unfolding w by (simp add: getline_items.simps [of "[]"])
qed

lemma ipToXdr_ip_text:
  assumes "length ip = 4"
  shows "ipToXdr (ip_text ip) = Inr ip"
proof -
  obtain a b c d where ip: "ip = [a, b, c, d]" using assms by (auto simp: length_Suc_conv numeral_eq_Suc)
  have "getline_items (ip_text ip) = map (\<lambda>x. to_string (unat x)) ip"
    by (simp add: ip ip_text_def getline_items_dot getline_items_last to_string_digits)
  moreover have "word_of_int (atoi (to_string (unat x))) = x" for x :: byte
    by (simp add: atoi_digits to_string_digits)
  ultimately show ?thesis by (simp add: ipToXdr_def ip)
qed

lemma sint_nonneg_iff: "0 \<le> sint (w :: uint32) \<longleftrightarrow> w < 2 ^ 31"
proof -
  have "0 \<le> uint w" "uint w < 2 * 2147483648" using uint_bounded [of w] by simp_all
  then have "uint w div 2147483648 = (if uint w < 2147483648 then 0 else 1)"
    by (auto simp: div_pos_pos_trivial div_pos_geq)
  then have "even (uint w div 2147483648) \<longleftrightarrow> uint w < 2147483648" by simp
  then show ?thesis by (simp add: word_less_def sint_uint bit_iff_odd)
qed

text \<open>
  C32: Addresses of nodes survive the way from node to node. A record made of the four bytes of an address with a port, as they
  arrive from a peer, is sent on with the same bytes, port and number of failures, once it has been stored in the table
  and loaded again; where the number of failures is below 2 ^ 31, storing it does not fail, and only its own row changes. From
  2 ^ 31 on the database sees a negative number, and storing the record raises an error.
\<close>

theorem peer_address_roundtrip:
  assumes "length (pa_ip a) = 4" "0 < pa_port a" "pa_port a \<le> 65535"
    and "pr = \<lparr>pr_IP = ip_text (pa_ip a), pr_Port = ucast (pa_port a), pr_NextAttempt = now, pr_NumFailures = pa_numFailures a, pr_Rank = 1\<rparr>"
  shows "if pa_numFailures a < 2 ^ 31 then
      \<exists>db' pr'. storePeerRecord pr db = Inr db' \<and> loadPeerRecord db' (pr_IP pr) (pr_Port pr) = Some pr' \<and> toXdr pr' = Inr a \<and>
        pr_NextAttempt pr' = tmToPoint (pointToTm now) \<and>
        (\<forall>ip port. (ip, port) \<noteq> (pr_IP pr, pr_Port pr) \<longrightarrow> loadPeerRecord db' ip port = loadPeerRecord db ip port)
    else \<exists>e. storePeerRecord pr db = Inl e"
proof -
  let ?k = "(pr_IP pr, pr_Port pr)" and ?db' = "AList.update (pr_IP pr, pr_Port pr) (record_row pr) db"
  have same: "ucast (ucast (pa_port a) :: 16 word) = pa_port a"
  proof -
    have "take_bit 16 (unat (pa_port a)) = unat (pa_port a)" using assms(3) by (simp add: take_bit_nat_eq_self_iff word_le_nat_alt)
    then show ?thesis by (simp add: word_unat_eq_iff unsigned_ucast_eq unsigned_take_bit_eq)
  qed
  have port: "0 < pr_Port pr"
  proof -
    have "ucast (pa_port a) \<noteq> (0 :: 16 word)" using same assms(2) by auto
    then show ?thesis by (simp add: assms(4) word_gt_0)
  qed
  have chk: "peer_check (pr_Port pr) (record_row pr) \<longleftrightarrow> pa_numFailures a < 2 ^ 31"
    using port sint_nonneg_iff [of "pa_numFailures a"] by (simp add: peer_check_def record_row_def assms(4))
  have store: "storePeerRecord pr db =
      (if pa_numFailures a < 2 ^ 31 then Inr ?db' else Inl (SqlError ''CHECK constraint failed''))"
    using chk by (cases "map_of db ?k") (auto simp: storePeerRecord_def insertIfNew_def isStored_def loadPeerRecord_def sql_insert_def sql_update_def)
  have "toXdr (row_record (?k, record_row pr)) = Inr a"
    using same assms(1) by (simp add: toXdr_def row_record_def record_row_def assms(4) ipToXdr_ip_text)
  moreover have "pr_NextAttempt (row_record (?k, record_row pr)) = tmToPoint (pointToTm now)"
    by (simp add: row_record_def record_row_def assms(4))
  ultimately show ?thesis by (auto simp: store loadPeerRecord_def update_conv')
qed

theorem peer_address_roundtrip_witness:
  "\<exists>db' pr'. storePeerRecord \<lparr>pr_IP = ''10.0.7.255'', pr_Port = 39133, pr_NextAttempt = 1500000000, pr_NumFailures = 2, pr_Rank = 1\<rparr> [] = Inr db' \<and>
     loadPeerRecord db' ''10.0.7.255'' 39133 = Some pr' \<and> toXdr pr' = Inr \<lparr>pa_ip = [10, 0, 7, 255], pa_port = 39133, pa_numFailures = 2\<rparr>"
proof -
  let ?a = "\<lparr>pa_ip = [10, 0, 7, 255], pa_port = 39133, pa_numFailures = 2\<rparr> :: PeerAddress"
  have "ip_text (pa_ip ?a) = ''10.0.7.255''" by code_simp
  with peer_address_roundtrip [of ?a _ 1500000000 "[]", OF _ _ _ refl] show ?thesis by simp blast
qed

subsection \<open>Waiting\<close>

text \<open>
  The time to wait before the next attempt doubles with every failure, from twenty seconds on, up to the
  29th. At the 30th the conversion to nanoseconds overflows, and the next attempt lies in the past.
\<close>

theorem backOff_delay:
  assumes "0 \<le> now" "now \<le> 2 ^ 61"
  shows "pr_NumFailures pr < 29 \<Longrightarrow> pr_NextAttempt (backOff now pr) = now + 10 * 1000000000 * 2 ^ (unat (pr_NumFailures pr) + 1)"
    and "pr_NumFailures pr = 29 \<Longrightarrow> pr_NextAttempt (backOff now pr) < now"
proof -
  let ?n = "pr_NumFailures pr"
  show "pr_NextAttempt (backOff now pr) = now + 10 * 1000000000 * 2 ^ (unat ?n + 1)" if n: "?n < 29"
  proof -
    have u: "unat ?n < 29" using n by (simp add: word_less_nat_alt)
    then have u1: "unat (?n + 1) = unat ?n + 1" by (simp add: unat_word_ariths)
    then have n1: "?n + 1 < 60" using u by (simp add: word_less_nat_alt)
    define p :: int where "p = 2 ^ (unat ?n + 1)"
    have "p \<le> 2 ^ 29" using u unfolding p_def by (intro power_increasing) simp_all
    moreover have "0 \<le> p" by (simp add: p_def)
    ultimately have "in64 (p * 10 * 1000000000)" "in64 (now + p * 10 * 1000000000)"
      using assms by (simp_all add: INT64_MIN_def INT64_MAX_def)
    then have "wrap64 (p * 10 * 1000000000) = p * 10 * 1000000000" "wrap64 (now + p * 10 * 1000000000) = now + p * 10 * 1000000000" by simp_all
    then show ?thesis using u1 n1 by (simp only: backOff_def Let_def backOff_seconds_def if_True PeerRecord.simps p_def) simp
  qed
  show "pr_NextAttempt (backOff now pr) < now" if n: "?n = 29"
    using assms by (simp add: backOff_def Let_def n backOff_seconds_def wrap64_def)
qed

theorem backOff_delay_witness:
  "pr_NextAttempt (backOff 1400000000000000000 (fromIPPort ''10.0.7.255'' 39133 0)) = 1400000000000000000 + 20 * 1000000000"
  using backOff_delay(1) [of 1400000000000000000 "fromIPPort ''10.0.7.255'' 39133 0"] by (simp add: fromIPPort_def)

end
