(* ===== verification/Item_Fetcher.thy ===== *)
theory Item_Fetcher
  imports Ordered_Map
begin

text \<open>
  \<open>src/overlay/ItemFetcher.cpp\<close>: fetching transaction sets and quorum sets from the peers.

  A peer is its address. A tracker lives in the heap of its fetcher until the last shared pointer to
  it is released; the map of the fetcher has weak pointers only. Callbacks are numbers; the calls
  made and the requests sent are logged. The connected peers are an argument, and so is the choice
  of the random generator. \<open>tk_Timer\<close> is the wait in milliseconds the timer was set to last.
\<close>

subsection \<open>Peers in a circle (\<open>src/overlay/OverlayManagerImpl.cpp\<close>)\<close>

definition getNextPeer :: "nat list \<Rightarrow> nat \<Rightarrow> nat option" where
  "getNextPeer peers p =
     (case dropWhile (\<lambda>q. q \<noteq> p) peers of
        [] \<Rightarrow> None
      | [_] \<Rightarrow> Some (hd peers)
      | _ # q # _ \<Rightarrow> Some q)"

definition getRandomPeer :: "nat \<Rightarrow> nat list \<Rightarrow> nat option" where
  "getRandomPeer r peers = (if peers = [] then None else Some (peers ! (r mod length peers)))"

subsection \<open>Definitions\<close>

definition MS_TO_WAIT_FOR_FETCH_REPLY :: nat where
  "MS_TO_WAIT_FOR_FETCH_REPLY = 500"

record 'a Tracker =
  tk_LastAskedPeer :: "nat option"
  tk_PeersAsked :: "nat list"
  tk_Timer :: "nat option"
  tk_Item :: "'a option"
  tk_IsStoped :: bool
  tk_Callbacks :: "nat list"
  tk_ItemID :: uint256

record 'a ItemFetcher =
  if_Trackers :: "(uint256, nat) omap"
  if_Cache :: "(uint256 \<times> 'a) list"
  if_CacheSize :: nat
  if_heap :: "'a Tracker option list"
  if_asked :: "(nat \<times> uint256) list"
  if_called :: "(nat \<times> 'a) list"

definition new_ItemFetcher :: "nat \<Rightarrow> 'a ItemFetcher" where
  "new_ItemFetcher n = \<lparr>if_Trackers = [], if_Cache = [], if_CacheSize = n, if_heap = [], if_asked = [], if_called = []\<rparr>"

definition new_Tracker :: "uint256 \<Rightarrow> 'a Tracker" where
  "new_Tracker i = \<lparr>tk_LastAskedPeer = None, tk_PeersAsked = [], tk_Timer = None, tk_Item = None, tk_IsStoped = False,
     tk_Callbacks = [], tk_ItemID = i\<rparr>"

definition cache_put :: "nat \<Rightarrow> 'k \<Rightarrow> 'v \<Rightarrow> ('k \<times> 'v) list \<Rightarrow> ('k \<times> 'v) list" where
  "cache_put n k v c = (let c' = (k, v) # filter (\<lambda>p. fst p \<noteq> k) c in if length c' > n then butlast c' else c')"

definition cache_get :: "'k \<Rightarrow> ('k \<times> 'v) list \<Rightarrow> ('v \<times> ('k \<times> 'v) list) option" where
  "cache_get k c = map_option (\<lambda>v. (v, (k, v) # filter (\<lambda>p. fst p \<noteq> k) c)) (map_of c k)"

definition tracker_at :: "nat \<Rightarrow> 'a ItemFetcher \<Rightarrow> 'a Tracker option" where
  "tracker_at a f = (if a < length (if_heap f) then if_heap f ! a else None)"

definition set_tracker :: "nat \<Rightarrow> 'a Tracker \<Rightarrow> 'a ItemFetcher \<Rightarrow> 'a ItemFetcher" where
  "set_tracker a t f = f\<lparr>if_heap := (if_heap f)[a := Some t]\<rparr>"

text \<open>A weak pointer that cannot be locked any more is removed.\<close>

definition isNeeded :: "uint256 \<Rightarrow> 'a ItemFetcher \<Rightarrow> nat option \<times> 'a ItemFetcher" where
  "isNeeded i f =
     (case map_of (if_Trackers f) i of
        None \<Rightarrow> (None, f)
      | Some a \<Rightarrow> if tracker_at a f \<noteq> None then (Some a, f) else (None, f\<lparr>if_Trackers := om_erase i (if_Trackers f)\<rparr>))"

definition tracker_cancel :: "'a Tracker \<Rightarrow> 'a Tracker" where
  "tracker_cancel t = t\<lparr>tk_Callbacks := [], tk_PeersAsked := [], tk_Timer := None, tk_LastAskedPeer := None, tk_IsStoped := True\<rparr>"

definition isItemFound :: "'a Tracker \<Rightarrow> bool" where
  "isItemFound t \<longleftrightarrow> tk_Item t \<noteq> None"

definition listen :: "nat \<Rightarrow> 'a Tracker \<Rightarrow> 'a Tracker res" where
  "listen cb t = rbind (rassert (\<not> isItemFound t)) (\<lambda>_. Inr (t\<lparr>tk_Callbacks := tk_Callbacks t @ [cb]\<rparr>))"

definition tracker_recv :: "nat \<Rightarrow> 'a \<Rightarrow> 'a Tracker \<Rightarrow> 'a ItemFetcher \<Rightarrow> 'a ItemFetcher" where
  "tracker_recv a item t f =
     set_tracker a (tracker_cancel (t\<lparr>tk_Item := Some item\<rparr>))
       (f\<lparr>if_called := if_called f @ map (\<lambda>cb. (cb, item)) (tk_Callbacks t)\<rparr>)"

text \<open>The peer after the last one asked that is still connected.\<close>

function find_next :: "nat list \<Rightarrow> nat list \<Rightarrow> nat option \<times> nat list" where
  "find_next peers asked =
     (if asked = [] then (None, [])
      else case getNextPeer peers (last asked) of Some p \<Rightarrow> (Some p, asked) | None \<Rightarrow> find_next peers (butlast asked))"
  by pat_completeness auto
termination
  by (relation "measure (\<lambda>(peers, asked). length asked)") auto

declare find_next.simps [simp del]

definition choose_peer :: "nat \<Rightarrow> nat list \<Rightarrow> 'a Tracker \<Rightarrow> nat option \<times> nat list" where
  "choose_peer r peers t =
     (if tk_PeersAsked t \<noteq> [] then find_next peers (tk_PeersAsked t) else (getRandomPeer r peers, []))"

definition tryNextPeer :: "nat \<Rightarrow> nat list \<Rightarrow> nat \<Rightarrow> 'a Tracker \<Rightarrow> 'a ItemFetcher \<Rightarrow> 'a ItemFetcher" where
  "tryNextPeer r peers a t f =
     (if isItemFound t then f
      else
        let (needed, f1) = isNeeded (tk_ItemID t) f
        in if needed = None then f1
           else
             let (peer, asked) = choose_peer r peers t
             in case peer of
                  Some p \<Rightarrow>
                    if p \<in> set asked
                    then set_tracker a (t\<lparr>tk_PeersAsked := [], tk_Timer := Some (MS_TO_WAIT_FOR_FETCH_REPLY * 2)\<rparr>) f1
                    else set_tracker a (t\<lparr>tk_LastAskedPeer := Some p, tk_PeersAsked := asked @ [p], tk_Timer := Some MS_TO_WAIT_FOR_FETCH_REPLY\<rparr>)
                           (f1\<lparr>if_asked := if_asked f1 @ [(p, tk_ItemID t)]\<rparr>)
                | None \<Rightarrow> set_tracker a (t\<lparr>tk_PeersAsked := [], tk_Timer := Some (MS_TO_WAIT_FOR_FETCH_REPLY * 2)\<rparr>) f1)"

definition fetcher_get :: "uint256 \<Rightarrow> 'a ItemFetcher \<Rightarrow> 'a option \<times> 'a ItemFetcher" where
  "fetcher_get i f =
     (case cache_get i (if_Cache f) of None \<Rightarrow> (None, f) | Some (x, c) \<Rightarrow> (Some x, f\<lparr>if_Cache := c\<rparr>))"

text \<open>The tracker found or made for an item, and whether it is new.\<close>

definition obtain_tracker :: "uint256 \<Rightarrow> 'a ItemFetcher \<Rightarrow> nat \<times> 'a Tracker \<times> bool \<times> 'a ItemFetcher" where
  "obtain_tracker i f =
     (let fresh = (length (if_heap f), new_Tracker i, True,
            f\<lparr>if_heap := if_heap f @ [Some (new_Tracker i)], if_Trackers := om_update i (length (if_heap f)) (if_Trackers f)\<rparr>)
      in case map_of (if_Trackers f) i of
           None \<Rightarrow> fresh
         | Some a \<Rightarrow> (case tracker_at a f of None \<Rightarrow> fresh | Some t \<Rightarrow> if tk_IsStoped t then fresh else (a, t, False, f)))"

definition fetch :: "nat \<Rightarrow> nat list \<Rightarrow> uint256 \<Rightarrow> nat \<Rightarrow> 'a ItemFetcher \<Rightarrow> (nat \<times> 'a ItemFetcher) res" where
  "fetch r peers i cb f =
     (let (a, t, newTracker, f1) = obtain_tracker i f
      in rbind (listen cb t) (\<lambda>t1.
         let f2 = set_tracker a t1 f1
         in Inr (a, case cache_get i (if_Cache f2) of
                      Some (x, c) \<Rightarrow> tracker_recv a x t1 (f2\<lparr>if_Trackers := om_erase i (if_Trackers f2), if_Cache := c\<rparr>)
                    | None \<Rightarrow> if newTracker then tryNextPeer r peers a t1 f2 else f2)))"

definition getOrFetch :: "nat \<Rightarrow> nat list \<Rightarrow> uint256 \<Rightarrow> nat \<Rightarrow> 'a ItemFetcher \<Rightarrow> (nat option \<times> 'a ItemFetcher) res" where
  "getOrFetch r peers i cb f =
     (case cache_get i (if_Cache f) of
        Some (x, c) \<Rightarrow> Inr (None, f\<lparr>if_Cache := c, if_called := if_called f @ [(cb, x)]\<rparr>)
      | None \<Rightarrow> rbind (fetch r peers i cb f) (\<lambda>(a, f1). Inr (Some a, f1)))"

definition tracker_doesntHave :: "nat \<Rightarrow> nat list \<Rightarrow> nat \<Rightarrow> nat \<Rightarrow> 'a Tracker \<Rightarrow> 'a ItemFetcher \<Rightarrow> 'a ItemFetcher" where
  "tracker_doesntHave r peers p a t f = (if tk_LastAskedPeer t = Some p then tryNextPeer r peers a t f else f)"

definition fetcher_doesntHave :: "nat \<Rightarrow> nat list \<Rightarrow> uint256 \<Rightarrow> nat \<Rightarrow> 'a ItemFetcher \<Rightarrow> 'a ItemFetcher" where
  "fetcher_doesntHave r peers i p f =
     (case isNeeded i f of
        (None, f1) \<Rightarrow> f1
      | (Some a, f1) \<Rightarrow> (case tracker_at a f1 of None \<Rightarrow> f1 | Some t \<Rightarrow> tracker_doesntHave r peers p a t f1))"

definition fetcher_recv :: "uint256 \<Rightarrow> 'a \<Rightarrow> 'a ItemFetcher \<Rightarrow> 'a ItemFetcher" where
  "fetcher_recv i item f =
     (case isNeeded i f of
        (None, f1) \<Rightarrow> f1
      | (Some a, f1) \<Rightarrow>
          (case tracker_at a f1 of
             None \<Rightarrow> f1
           | Some t \<Rightarrow> tracker_recv a item t (f1\<lparr>if_Cache := cache_put (if_CacheSize f1) i item (if_Cache f1),
               if_Trackers := om_erase i (if_Trackers f1)\<rparr>)))"

definition fetcher_cache :: "uint256 \<Rightarrow> 'a \<Rightarrow> 'a ItemFetcher \<Rightarrow> 'a ItemFetcher" where
  "fetcher_cache i item f = fetcher_recv i item (f\<lparr>if_Cache := cache_put (if_CacheSize f) i item (if_Cache f)\<rparr>)"

text \<open>The timer of a tracker, and the release of the last pointer to it.\<close>

definition timer_fired :: "nat \<Rightarrow> nat list \<Rightarrow> nat \<Rightarrow> 'a ItemFetcher \<Rightarrow> 'a ItemFetcher" where
  "timer_fired r peers a f = (case tracker_at a f of None \<Rightarrow> f | Some t \<Rightarrow> tryNextPeer r peers a t f)"

definition release :: "nat \<Rightarrow> 'a ItemFetcher \<Rightarrow> 'a ItemFetcher" where
  "release a f = f\<lparr>if_heap := (if_heap f)[a := None]\<rparr>"

subsection \<open>Asking around\<close>

lemma getNextPeer_nth:
  assumes "distinct peers" "k < length peers"
  shows "getNextPeer peers (peers ! k) = Some (peers ! (Suc k mod length peers))"
proof -
  have "p \<noteq> peers ! k" if "p \<in> set (take k peers)" for p
    using that assms by (auto simp: in_set_conv_nth nth_eq_iff_index_eq)
  then have "dropWhile (\<lambda>q. q \<noteq> peers ! k) (take k peers @ drop k peers) = dropWhile (\<lambda>q. q \<noteq> peers ! k) (drop k peers)"
    by (subst dropWhile_append2) auto
  moreover have "drop k peers = peers ! k # drop (Suc k) peers" using assms(2) by (simp add: Cons_nth_drop_Suc)
  ultimately have d: "dropWhile (\<lambda>q. q \<noteq> peers ! k) peers = peers ! k # drop (Suc k) peers"
    unfolding append_take_drop_id by simp
  show ?thesis
  proof (cases "Suc k = length peers")
    case True
    moreover have "peers \<noteq> []" using assms(2) by auto
    ultimately show ?thesis by (simp add: getNextPeer_def d hd_conv_nth)
  next
    case False
    then have "Suc k < length peers" using assms(2) by simp
    then have "drop (Suc k) peers = peers ! Suc k # drop (Suc (Suc k)) peers" by (simp add: Cons_nth_drop_Suc)
    with d \<open>Suc k < length peers\<close> show ?thesis by (simp add: getNextPeer_def)
  qed
qed

lemma getNextPeer_rotate:
  assumes "distinct peers" "k < length peers"
  shows "getNextPeer peers (rotate r peers ! k) = Some (rotate r peers ! (Suc k mod length peers))"
proof -
  have n: "0 < length peers" using assms(2) by linarith
  have "getNextPeer peers (peers ! ((r + k) mod length peers)) = Some (peers ! (Suc ((r + k) mod length peers) mod length peers))"
    using n by (intro getNextPeer_nth assms(1) mod_less_divisor)
  moreover have "Suc ((r + k) mod length peers) mod length peers = (r + Suc k mod length peers) mod length peers"
    by (simp add: mod_simps)
  moreover have "Suc k mod length peers < length peers" using n by (rule mod_less_divisor)
  ultimately show ?thesis using assms(2) by (auto simp: nth_rotate)
qed

text \<open>A tracker that still looks for its item, known to its fetcher.\<close>

definition searching :: "nat \<Rightarrow> 'a Tracker \<Rightarrow> 'a ItemFetcher \<Rightarrow> bool" where
  "searching a t f \<longleftrightarrow> tracker_at a f = Some t \<and> tk_Item t = None \<and> map_of (if_Trackers f) (tk_ItemID t) = Some a"

lemma tracker_at_set: "a < length (if_heap f) \<Longrightarrow> tracker_at b (set_tracker a t f) = (if b = a then Some t else tracker_at b f)"
  by (auto simp: tracker_at_def set_tracker_def)

lemma tracker_at_less: "tracker_at a f = Some t \<Longrightarrow> a < length (if_heap f)"
  by (auto simp: tracker_at_def split: if_splits)

lemma tracker_at_log [simp]: "tracker_at a (f\<lparr>if_asked := x\<rparr>) = tracker_at a f"
  by (simp add: tracker_at_def)

lemma timer_fired_searching:
  assumes "searching a t f" "choose_peer r peers t = (peer, asked)"
  shows "timer_fired r peers a f =
    (case peer of
       Some p \<Rightarrow> if p \<in> set asked then set_tracker a (t\<lparr>tk_PeersAsked := [], tk_Timer := Some 1000\<rparr>) f
                 else set_tracker a (t\<lparr>tk_LastAskedPeer := Some p, tk_PeersAsked := asked @ [p], tk_Timer := Some 500\<rparr>)
                        (f\<lparr>if_asked := if_asked f @ [(p, tk_ItemID t)]\<rparr>)
     | None \<Rightarrow> set_tracker a (t\<lparr>tk_PeersAsked := [], tk_Timer := Some 1000\<rparr>) f)"
  using assms
  by (auto simp: timer_fired_def searching_def tryNextPeer_def isItemFound_def isNeeded_def MS_TO_WAIT_FOR_FETCH_REPLY_def split: option.splits)

lemma searching_set:
  "searching a t f \<Longrightarrow> tk_Item t' = None \<Longrightarrow> tk_ItemID t' = tk_ItemID t \<Longrightarrow> searching a t' (set_tracker a t' (f\<lparr>if_asked := x\<rparr>))"
  by (auto simp: searching_def tracker_at_def set_tracker_def split: if_splits)

lemma ask_round:
  assumes "searching a t f" "tk_PeersAsked t = []" "distinct peers" "0 < k" "k \<le> length peers" "length rs = k"
  defines "ring \<equiv> rotate (hd rs mod length peers) peers"
  shows "\<exists>t'. searching a t' (fold (\<lambda>r. timer_fired r peers a) rs f) \<and> tk_PeersAsked t' = take k ring \<and>
    tk_ItemID t' = tk_ItemID t \<and> tk_Callbacks t' = tk_Callbacks t \<and>
    if_asked (fold (\<lambda>r. timer_fired r peers a) rs f) = if_asked f @ map (\<lambda>p. (p, tk_ItemID t)) (take k ring)"
  using assms(4-6) unfolding ring_def
proof (induction rs arbitrary: k rule: rev_induct)
  case (snoc r rs)
  let ?n = "length peers" and ?g = "\<lambda>r. timer_fired r peers a"
  have n: "peers \<noteq> []" using snoc.prems by auto
  show ?case
  proof (cases rs)
    case Nil
    let ?p = "peers ! (r mod ?n)"
    have k: "k = 1" using snoc.prems Nil by simp
    have ring: "take 1 (rotate (r mod ?n) peers) = [?p]"
      using n nth_rotate [of 0 peers "r mod ?n"] by (cases "rotate (r mod ?n) peers") simp_all
    have "choose_peer r peers t = (Some ?p, [])" using assms(2) n by (simp add: choose_peer_def getRandomPeer_def)
    from timer_fired_searching [OF assms(1) this] show ?thesis
      using searching_set [OF assms(1), of "t\<lparr>tk_LastAskedPeer := Some ?p, tk_PeersAsked := [?p], tk_Timer := Some 500\<rparr>"]
        assms(1) ring unfolding Nil k
      by (intro exI [of _ "t\<lparr>tk_LastAskedPeer := Some ?p, tk_PeersAsked := [?p], tk_Timer := Some 500\<rparr>"])
        (simp add: searching_def set_tracker_def)
  next
    case (Cons r0 rs0)
    let ?ring = "rotate (r0 mod ?n) peers" and ?j = "length rs" and ?f = "fold ?g rs f"
    have j: "0 < ?j" "?j < ?n" "k = Suc ?j" using snoc.prems Cons by simp_all
    from snoc.IH [OF j(1)] j Cons obtain t1 where
      t1: "searching a t1 ?f" "tk_PeersAsked t1 = take ?j ?ring" "tk_ItemID t1 = tk_ItemID t" "tk_Callbacks t1 = tk_Callbacks t"
        "if_asked ?f = if_asked f @ map (\<lambda>p. (p, tk_ItemID t)) (take ?j ?ring)" by auto
    have ne: "take ?j ?ring \<noteq> []" using j n by simp
    have "last (take ?j ?ring) = ?ring ! (?j - 1)" using j n by (simp add: last_conv_nth)
    then have "getNextPeer peers (last (take ?j ?ring)) = Some (?ring ! ?j)"
      using getNextPeer_rotate [OF assms(3), of "?j - 1" "r0 mod ?n"] j by simp
    then have c: "choose_peer r peers t1 = (Some (?ring ! ?j), take ?j ?ring)"
      using ne by (simp add: choose_peer_def t1(2) find_next.simps)
    have new: "?ring ! ?j \<notin> set (take ?j ?ring)"
      using j assms(3) by (auto simp: in_set_conv_nth nth_eq_iff_index_eq)
    let ?t = "t1\<lparr>tk_LastAskedPeer := Some (?ring ! ?j), tk_PeersAsked := take ?j ?ring @ [?ring ! ?j], tk_Timer := Some 500\<rparr>"
    have "take k ?ring = take ?j ?ring @ [?ring ! ?j]" using j by (simp add: take_Suc_conv_app_nth)
    moreover have "tk_Item t1 = None" using t1(1) by (simp add: searching_def)
    moreover have "timer_fired r peers a ?f = set_tracker a ?t (?f\<lparr>if_asked := if_asked ?f @ [(?ring ! ?j, tk_ItemID t1)]\<rparr>)"
      using timer_fired_searching [OF t1(1) c] new by simp
    moreover have "fold ?g (rs @ [r]) f = timer_fired r peers a ?f" "hd (rs @ [r]) = r0" by (simp_all add: Cons)
    ultimately show ?thesis using searching_set [OF t1(1), of ?t] t1(3-5)
      by (intro exI [of _ ?t]) (simp add: set_tracker_def del: fold_append fold_simps)
  qed
qed simp

text \<open>
  A search asks every peer. While the same peers stay connected, the tries of a tracker ask each
  of them exactly once, in the order of the connections from a random one on; the try after that asks
  nobody, waits twice as long and starts over. So a peer that has the item is asked in every round.
\<close>

theorem search_asks_every_peer:
  assumes "searching a t f" "tk_PeersAsked t = []" "distinct peers" "peers \<noteq> []" "length rs = length peers"
  shows "if_asked (fold (\<lambda>r. timer_fired r peers a) rs f) =
      if_asked f @ map (\<lambda>p. (p, tk_ItemID t)) (rotate (hd rs mod length peers) peers) \<and>
    (\<exists>t'. searching a t' (timer_fired r peers a (fold (\<lambda>r. timer_fired r peers a) rs f)) \<and>
       tk_PeersAsked t' = [] \<and> tk_Timer t' = Some 1000 \<and> tk_Callbacks t' = tk_Callbacks t)"
proof -
  let ?f = "fold (\<lambda>r. timer_fired r peers a) rs f" and ?n = "length peers" and ?ring = "rotate (hd rs mod length peers) peers"
  have n: "0 < ?n" using assms(4) by simp
  from ask_round [OF assms(1-3) n order_refl assms(5)] obtain t1 where
    t1: "searching a t1 ?f" "tk_PeersAsked t1 = ?ring" "tk_Callbacks t1 = tk_Callbacks t"
      "if_asked ?f = if_asked f @ map (\<lambda>p. (p, tk_ItemID t)) ?ring" by auto
  have "last ?ring = ?ring ! (?n - 1)" using n by (simp add: last_conv_nth)
  then have "getNextPeer peers (last ?ring) = Some (?ring ! 0)"
    using getNextPeer_rotate [OF assms(3), of "?n - 1" "hd rs mod ?n"] n by simp
  then have c: "choose_peer r peers t1 = (Some (?ring ! 0), ?ring)"
    using assms(4) by (simp add: choose_peer_def t1(2) find_next.simps)
  have "?ring ! 0 \<in> set ?ring" using n by (intro nth_mem) simp
  with timer_fired_searching [OF t1(1) c] have "timer_fired r peers a ?f = set_tracker a (t1\<lparr>tk_PeersAsked := [], tk_Timer := Some 1000\<rparr>) ?f"
    by simp
  with searching_set [OF t1(1), of "t1\<lparr>tk_PeersAsked := [], tk_Timer := Some 1000\<rparr>" "if_asked ?f"] t1(1)
  have "searching a (t1\<lparr>tk_PeersAsked := [], tk_Timer := Some 1000\<rparr>) (timer_fired r peers a ?f)" by (simp add: searching_def)
  with t1(3,4) show ?thesis by (intro conjI exI [of _ "t1\<lparr>tk_PeersAsked := [], tk_Timer := Some 1000\<rparr>"]) simp_all
qed

definition sample_fetcher :: "int ItemFetcher" where
  "sample_fetcher = (new_ItemFetcher 2)\<lparr>if_Trackers := [(7, 0)], if_heap := [Some ((new_Tracker 7)\<lparr>tk_Callbacks := [3]\<rparr>)]\<rparr>"

theorem search_asks_every_peer_witness:
  "if_asked (fold (\<lambda>r. timer_fired r [11, 12, 13] 0) [4, 9, 9] sample_fetcher) = [(12, 7), (13, 7), (11, 7)]"
proof -
  let ?t = "(new_Tracker 7)\<lparr>tk_Callbacks := [3]\<rparr> :: int Tracker"
  have "searching 0 ?t sample_fetcher" "tk_PeersAsked ?t = []"
    by (simp_all add: searching_def sample_fetcher_def tracker_at_def new_Tracker_def)
  moreover have "if_asked sample_fetcher @ map (\<lambda>p. (p, tk_ItemID ?t)) (rotate (hd [4, 9, 9] mod length [11, 12, 13 :: nat]) [11, 12, 13]) =
    [(12, 7), (13, 7), (11, 7)]" by code_simp
  ultimately show ?thesis using search_asks_every_peer [of 0 ?t sample_fetcher "[11, 12, 13]" "[4, 9, 9]"] by simp
qed

subsection \<open>Listeners get their item\<close>

text \<open>
  The pointers in the map lead to trackers of that item that still search, or to released ones.
\<close>

definition fetcher_ok :: "'a ItemFetcher \<Rightarrow> bool" where
  "fetcher_ok f \<longleftrightarrow> (\<forall>i a. map_of (if_Trackers f) i = Some a \<longrightarrow> a < length (if_heap f)) \<and>
     (\<forall>i a t. map_of (if_Trackers f) i = Some a \<longrightarrow> tracker_at a f = Some t \<longrightarrow>
        tk_ItemID t = i \<and> \<not> tk_IsStoped t \<and> tk_Item t = None)"

lemma fetcher_okI:
  assumes "\<And>i a. map_of (if_Trackers f) i = Some a \<Longrightarrow> a < length (if_heap f)"
    and "\<And>i a t. map_of (if_Trackers f) i = Some a \<Longrightarrow> tracker_at a f = Some t \<Longrightarrow>
      tk_ItemID t = i \<and> \<not> tk_IsStoped t \<and> tk_Item t = None"
  shows "fetcher_ok f"
  using assms by (simp add: fetcher_ok_def)

lemma fetcher_okD:
  "fetcher_ok f \<Longrightarrow> map_of (if_Trackers f) i = Some a \<Longrightarrow> a < length (if_heap f)"
  "fetcher_ok f \<Longrightarrow> map_of (if_Trackers f) i = Some a \<Longrightarrow> tracker_at a f = Some t \<Longrightarrow> tk_ItemID t = i \<and> \<not> tk_IsStoped t \<and> tk_Item t = None"
  by (simp_all add: fetcher_ok_def)

text \<open>
  Whatever the fetcher may do while tracker \<open>a\<close> waits for item \<open>i\<close>: everything but the arrival of this
  item and the release of this tracker.
\<close>

inductive fetcher_step :: "nat \<Rightarrow> uint256 \<Rightarrow> 'a ItemFetcher \<Rightarrow> 'a ItemFetcher \<Rightarrow> bool" for a i where
  get: "fetcher_get j f = (x, f') \<Longrightarrow> fetcher_step a i f f'"
| fetch: "fetch r peers j cb f = Inr (b, f') \<Longrightarrow> fetcher_step a i f f'"
| get_or_fetch: "getOrFetch r peers j cb f = Inr (b, f') \<Longrightarrow> fetcher_step a i f f'"
| doesnt_have: "fetcher_step a i f (fetcher_doesntHave r peers j p f)"
| arrive: "j \<noteq> i \<Longrightarrow> fetcher_step a i f (fetcher_recv j x f)"
| put: "j \<noteq> i \<Longrightarrow> fetcher_step a i f (fetcher_cache j x f)"
| timer: "fetcher_step a i f (timer_fired r peers b f)"
| released: "b \<noteq> a \<Longrightarrow> fetcher_step a i f (release b f)"

definition waits :: "nat \<Rightarrow> uint256 \<Rightarrow> nat \<Rightarrow> 'a ItemFetcher \<Rightarrow> bool" where
  "waits a i cb f \<longleftrightarrow> fetcher_ok f \<and> map_of (if_Trackers f) i = Some a \<and> map_of (if_Cache f) i = None \<and>
     (\<exists>t. tracker_at a f = Some t \<and> cb \<in> set (tk_Callbacks t))"

text \<open>Most calls change nothing of this but the search and stale pointers.\<close>

abbreviation tracker_core :: "'a Tracker \<Rightarrow> uint256 \<times> bool \<times> 'a option \<times> nat list" where
  "tracker_core t \<equiv> (tk_ItemID t, tk_IsStoped t, tk_Item t, tk_Callbacks t)"

definition same_trackers :: "'a ItemFetcher \<Rightarrow> 'a ItemFetcher \<Rightarrow> bool" where
  "same_trackers f f' \<longleftrightarrow>
     (\<forall>c. map_option tracker_core (tracker_at c f') = map_option tracker_core (tracker_at c f)) \<and>
     (\<forall>j. map_of (if_Trackers f') j = map_of (if_Trackers f) j \<or>
        map_of (if_Trackers f') j = None \<and> (\<exists>c. map_of (if_Trackers f) j = Some c \<and> tracker_at c f = None)) \<and>
     map_of (if_Cache f') = map_of (if_Cache f) \<and> length (if_heap f') = length (if_heap f)"

lemma same_trackers_core:
  "same_trackers f f' \<Longrightarrow> tracker_at c f' = Some t' \<Longrightarrow> \<exists>t. tracker_at c f = Some t \<and> tracker_core t' = tracker_core t"
  "same_trackers f f' \<Longrightarrow> tracker_at c f = Some t \<Longrightarrow> \<exists>t'. tracker_at c f' = Some t' \<and> tracker_core t' = tracker_core t"
proof -
  assume "same_trackers f f'"
  then have m: "map_option tracker_core (tracker_at c f') = map_option tracker_core (tracker_at c f)" by (simp add: same_trackers_def)
  show "tracker_at c f' = Some t' \<Longrightarrow> \<exists>t. tracker_at c f = Some t \<and> tracker_core t' = tracker_core t"
    using m by (cases "tracker_at c f") auto
  show "tracker_at c f = Some t \<Longrightarrow> \<exists>t'. tracker_at c f' = Some t' \<and> tracker_core t' = tracker_core t"
    using m by (cases "tracker_at c f'") auto
qed

lemma same_trackers_ok: 
  assumes "same_trackers f f'" "fetcher_ok f"
  shows "fetcher_ok f'"
proof (rule fetcher_okI)
  have old: "map_of (if_Trackers f) j = Some c" if "map_of (if_Trackers f') j = Some c" for j c
    using assms(1) that unfolding same_trackers_def by (metis option.distinct(1))
  then show "c < length (if_heap f')" if "map_of (if_Trackers f') j = Some c" for j c
    using fetcher_okD(1) [OF assms(2)] that assms(1) by (auto simp: same_trackers_def)
  fix j c t' assume m: "map_of (if_Trackers f') j = Some c" "tracker_at c f' = Some t'"
  then obtain t where t: "tracker_at c f = Some t" "tracker_core t' = tracker_core t"
    using same_trackers_core(1) [OF assms(1)] by blast
  from fetcher_okD(2) [OF assms(2) old [OF m(1)] t(1)] t(2) show "tk_ItemID t' = j \<and> \<not> tk_IsStoped t' \<and> tk_Item t' = None" by auto
qed

lemma same_trackers_waits:
  assumes "same_trackers f f'" "waits a i cb f"
  shows "waits a i cb f'"
proof -
  obtain t where t: "tracker_at a f = Some t" "cb \<in> set (tk_Callbacks t)" using assms(2) by (auto simp: waits_def)
  obtain t' where "tracker_at a f' = Some t'" "tracker_core t' = tracker_core t" using same_trackers_core(2) [OF assms(1) t(1)] by blast
  moreover have "map_of (if_Trackers f') i = Some a"
    using assms t(1) unfolding same_trackers_def waits_def by (metis option.distinct(1) option.inject)
  moreover have "map_of (if_Cache f') i = None" using assms by (simp add: same_trackers_def waits_def)
  ultimately show ?thesis using same_trackers_ok [OF assms(1)] assms(2) t(2) by (auto simp: waits_def)
qed

lemma same_trackers_refl [simp]: "same_trackers f f"
  by (simp add: same_trackers_def)

lemma same_trackers_trans: "same_trackers f g \<Longrightarrow> same_trackers g h \<Longrightarrow> same_trackers f h"
proof -
  assume fg: "same_trackers f g" and gh: "same_trackers g h"
  have n: "tracker_at c g = None \<longleftrightarrow> tracker_at c f = None" for c
  proof -
    have "map_option tracker_core (tracker_at c g) = map_option tracker_core (tracker_at c f)"
      using fg by (simp only: same_trackers_def simp_thms)
    then show ?thesis by (cases "tracker_at c g"; cases "tracker_at c f") simp_all
  qed
  have gh2: "map_of (if_Trackers h) j = map_of (if_Trackers g) j \<or>
      map_of (if_Trackers h) j = None \<and> (\<exists>c. map_of (if_Trackers g) j = Some c \<and> tracker_at c g = None)" for j
    using gh by (simp only: same_trackers_def simp_thms)
  have fg2: "map_of (if_Trackers g) j = map_of (if_Trackers f) j \<or>
      map_of (if_Trackers g) j = None \<and> (\<exists>c. map_of (if_Trackers f) j = Some c \<and> tracker_at c f = None)" for j
    using fg by (simp only: same_trackers_def simp_thms)
  have "map_of (if_Trackers h) j = map_of (if_Trackers f) j \<or>
      map_of (if_Trackers h) j = None \<and> (\<exists>c. map_of (if_Trackers f) j = Some c \<and> tracker_at c f = None)" for j
    using gh2 [of j] fg2 [of j] n by auto
  with fg gh show ?thesis by (simp add: same_trackers_def)
qed

lemma isNeeded_same: "same_trackers f (snd (isNeeded i f))"
  by (auto simp: isNeeded_def same_trackers_def tracker_at_def split: option.splits if_splits)

lemma set_tracker_same:
  "tracker_at a f = Some t \<Longrightarrow> tracker_core t' = tracker_core t \<Longrightarrow> same_trackers f (set_tracker a t' (f\<lparr>if_asked := x\<rparr>))"
proof -
  assume a: "tracker_at a f = Some t" and t: "tracker_core t' = tracker_core t"
  have "map_option tracker_core (tracker_at c (set_tracker a t' (f\<lparr>if_asked := x\<rparr>))) = map_option tracker_core (tracker_at c f)" for c
    using tracker_at_set [of a "f\<lparr>if_asked := x\<rparr>" c t'] tracker_at_less [OF a] a t by simp
  then show ?thesis by (simp add: same_trackers_def) (simp add: set_tracker_def)
qed

lemma tryNextPeer_same:
  assumes "tracker_at a f = Some t"
  shows "same_trackers f (tryNextPeer r peers a t f)"
proof -
  obtain needed f1 where n: "isNeeded (tk_ItemID t) f = (needed, f1)" by fastforce
  have s: "same_trackers f f1" using isNeeded_same [of f "tk_ItemID t"] n by simp
  have t: "tracker_at a f1 = Some t"
    using n assms by (auto simp: isNeeded_def tracker_at_def split: option.splits if_splits)
  have self: "f1\<lparr>if_asked := if_asked f1\<rparr> = f1" by simp
  obtain peer asked where c: "choose_peer r peers t = (peer, asked)" by fastforce
  have same: "same_trackers f (set_tracker a t' (f1\<lparr>if_asked := x\<rparr>))" if "tracker_core t' = tracker_core t" for t' x
    using same_trackers_trans [OF s set_tracker_same [OF t that]] .
  have same': "same_trackers f (set_tracker a t' f1)" if "tracker_core t' = tracker_core t" for t'
    using same [OF that, of "if_asked f1"] by simp
  show ?thesis using s n c by (auto simp: tryNextPeer_def Let_def intro!: same same' split: option.splits)
qed

lemma fetcher_doesntHave_same: "same_trackers f (fetcher_doesntHave r peers j p f)"
proof -
  obtain needed f1 where n: "isNeeded j f = (needed, f1)" by fastforce
  have s: "same_trackers f f1" using isNeeded_same [of f j] n by simp
  show ?thesis
    using s n same_trackers_trans [OF s tryNextPeer_same]
    by (auto simp: fetcher_doesntHave_def tracker_doesntHave_def split: option.splits)
qed

lemma timer_fired_same: "same_trackers f (timer_fired r peers b f)"
  by (auto simp: timer_fired_def tryNextPeer_same split: option.splits)

lemma cache_get_lookup: "cache_get k c = Some (x, c') \<Longrightarrow> map_of c' = map_of c \<and> map_of c k = Some x"
proof -
  have "map_of (filter (\<lambda>p. fst p \<noteq> k) c) j = (if j = k then None else map_of c j)" for j by (induction c) auto
  then show "cache_get k c = Some (x, c') \<Longrightarrow> map_of c' = map_of c \<and> map_of c k = Some x"
    by (auto simp: cache_get_def fun_eq_iff)
qed

lemma fetcher_get_same: "same_trackers f (snd (fetcher_get j f))"
  by (auto simp: fetcher_get_def same_trackers_def tracker_at_def split: option.splits dest: cache_get_lookup)

text \<open>Different items have different trackers.\<close>

lemma fetcher_ok_apart:
  "fetcher_ok f \<Longrightarrow> map_of (if_Trackers f) i = Some a \<Longrightarrow> map_of (if_Trackers f) j = Some b \<Longrightarrow> tracker_at b f = Some t \<Longrightarrow> i \<noteq> j \<Longrightarrow> a \<noteq> b"
  using fetcher_okD(2) by blast

lemma tracker_recv_waits:
  assumes "waits a i cb f" "fetcher_ok f" "map_of (if_Trackers f) j = Some b" "tracker_at b f = Some t" "j \<noteq> i"
    and "f' = tracker_recv b x t' (f\<lparr>if_Cache := c, if_Trackers := om_erase j (if_Trackers f)\<rparr>)" "map_of c i = None"
  shows "waits a i cb f'"
proof -
  have ab: "b \<noteq> a" using fetcher_ok_apart [OF assms(2) _ assms(3,4)] assms(1,5) by (auto simp: waits_def)
  have at: "tracker_at k f' = (if k = b then Some (tracker_cancel (t'\<lparr>tk_Item := Some x\<rparr>)) else tracker_at k f)" for k
    using tracker_at_less [OF assms(4)] by (auto simp: assms(6) tracker_recv_def set_tracker_def tracker_at_def)
  have m: "map_of (if_Trackers f') = (map_of (if_Trackers f))(j := None)" "if_Cache f' = c"
    by (simp_all add: assms(6) tracker_recv_def set_tracker_def)
  have "fetcher_ok f'"
  proof (rule fetcher_okI)
    show "d < length (if_heap f')" if "map_of (if_Trackers f') k = Some d" for k d
      using that m(1) fetcher_okD(1) [OF assms(2)] by (auto simp: assms(6) tracker_recv_def set_tracker_def split: if_splits)
    fix k d u assume k: "map_of (if_Trackers f') k = Some d" "tracker_at d f' = Some u"
    then have k': "k \<noteq> j" "map_of (if_Trackers f) k = Some d" using m(1) by (auto split: if_splits)
    then have "d \<noteq> b" using fetcher_ok_apart [OF assms(2) k'(2) assms(3,4)] by simp
    with k(2) at have "tracker_at d f = Some u" by simp
    with fetcher_okD(2) [OF assms(2) k'(2)] show "tk_ItemID u = k \<and> \<not> tk_IsStoped u \<and> tk_Item u = None" by blast
  qed
  with assms(1,5,7) at ab m show ?thesis by (simp add: waits_def)
qed

text \<open>What \<open>obtain_tracker\<close> gives: a tracker of the item that searches, known to the fetcher; all others are kept.\<close>

lemma obtain_tracker_ok:
  assumes "obtain_tracker i f = (a, t, new, f1)" "fetcher_ok f"
  shows "fetcher_ok f1" "tracker_at a f1 = Some t" "map_of (if_Trackers f1) i = Some a" "tk_Item t = None" "tk_ItemID t = i"
    and "if_Cache f1 = if_Cache f" "if_called f1 = if_called f" "\<not> tk_IsStoped t"
    and "waits b j cb f \<Longrightarrow> waits b j cb f1 \<and> (j = i \<longrightarrow> b = a)"
proof -
  let ?n = "length (if_heap f)"
  let ?g = "f\<lparr>if_heap := if_heap f @ [Some (new_Tracker i)], if_Trackers := om_update i ?n (if_Trackers f)\<rparr>"
  have at: "tracker_at c ?g = (if c = ?n then Some (new_Tracker i) else tracker_at c f)" for c
    by (auto simp: tracker_at_def nth_append)
  have ok: "fetcher_ok ?g"
  proof (rule fetcher_okI)
    show "d < length (if_heap ?g)" if "map_of (if_Trackers ?g) k = Some d" for k d
      using that fetcher_okD(1) [OF assms(2), of k d] by (auto split: if_splits)
    fix k d u assume k: "map_of (if_Trackers ?g) k = Some d" "tracker_at d ?g = Some u"
    show "tk_ItemID u = k \<and> \<not> tk_IsStoped u \<and> tk_Item u = None"
    proof (cases "k = i")
      case True
      with k at show ?thesis by (auto simp: new_Tracker_def)
    next
      case False
      with k have m: "map_of (if_Trackers f) k = Some d" by simp
      with fetcher_okD(1) [OF assms(2) this] k(2) at have "tracker_at d f = Some u" by simp
      with fetcher_okD(2) [OF assms(2) m] show ?thesis by blast
    qed
  qed
  have cs: "(a, t, new, f1) = (?n, new_Tracker i, True, ?g) \<and> (\<forall>b u. map_of (if_Trackers f) i = Some b \<longrightarrow> tracker_at b f \<noteq> Some u) \<or>
      map_of (if_Trackers f) i = Some a \<and> tracker_at a f = Some t \<and> \<not> tk_IsStoped t \<and> f1 = f"
    using assms(1) fetcher_okD(2) [OF assms(2), of i] by (fastforce simp: obtain_tracker_def Let_def split: option.splits if_splits)
  have "fetcher_ok f1 \<and> tracker_at a f1 = Some t \<and> map_of (if_Trackers f1) i = Some a \<and> tk_Item t = None \<and> tk_ItemID t = i \<and>
    if_Cache f1 = if_Cache f \<and> if_called f1 = if_called f \<and> \<not> tk_IsStoped t"
    using cs
  proof (elim disjE conjE)
    assume "(a, t, new, f1) = (?n, new_Tracker i, True, ?g)"
    then show ?thesis using ok at by (simp add: new_Tracker_def)
  next
    assume "map_of (if_Trackers f) i = Some a" "tracker_at a f = Some t" "f1 = f"
    then show ?thesis using assms(2) fetcher_okD(2) [OF assms(2), of i a t] by simp
  qed
  then show f1: "fetcher_ok f1" "tracker_at a f1 = Some t" "map_of (if_Trackers f1) i = Some a" "tk_Item t = None" "tk_ItemID t = i"
    "if_Cache f1 = if_Cache f" "if_called f1 = if_called f" "\<not> tk_IsStoped t" by simp_all
  assume w: "waits b j cb f"
  then obtain u where u: "map_of (if_Trackers f) j = Some b" "tracker_at b f = Some u" "cb \<in> set (tk_Callbacks u)" "map_of (if_Cache f) j = None"
    by (auto simp: waits_def)
  show "waits b j cb f1 \<and> (j = i \<longrightarrow> b = a)"
    using cs
  proof (elim disjE conjE)
    assume new: "(a, t, new, f1) = (?n, new_Tracker i, True, ?g)" "\<forall>b u. map_of (if_Trackers f) i = Some b \<longrightarrow> tracker_at b f \<noteq> Some u"
    then have "j \<noteq> i" using u(1,2) by blast
    with new(1) u at ok tracker_at_less [OF u(2)] show ?thesis by (auto simp: waits_def)
  next
    assume "map_of (if_Trackers f) i = Some a" "f1 = f"
    with w u(1) show ?thesis by auto
  qed
qed

lemma listen_ok: "tk_Item t = None \<Longrightarrow> listen cb t = Inr (t\<lparr>tk_Callbacks := tk_Callbacks t @ [cb]\<rparr>)"
  by (simp add: listen_def isItemFound_def)

lemma set_callbacks_ok:
  assumes "fetcher_ok f" "tracker_at a f = Some t" and f': "f' = set_tracker a (t\<lparr>tk_Callbacks := tk_Callbacks t @ [cb]\<rparr>) f"
  shows "fetcher_ok f'" "waits b j cb' f \<Longrightarrow> waits b j cb' f'"
proof -
  have at: "tracker_at c f' = (if c = a then Some (t\<lparr>tk_Callbacks := tk_Callbacks t @ [cb]\<rparr>) else tracker_at c f)" for c
    unfolding f' using tracker_at_less [OF assms(2)] by (rule tracker_at_set)
  have same: "if_Trackers f' = if_Trackers f" "if_Cache f' = if_Cache f" "length (if_heap f') = length (if_heap f)"
    by (simp_all add: f' set_tracker_def)
  show ok: "fetcher_ok f'"
  proof (rule fetcher_okI)
    show "d < length (if_heap f')" if "map_of (if_Trackers f') k = Some d" for k d
      using that fetcher_okD(1) [OF assms(1), of k d] same by simp
    fix k d u assume k: "map_of (if_Trackers f') k = Some d" "tracker_at d f' = Some u"
    then have m: "map_of (if_Trackers f) k = Some d" using same by simp
    show "tk_ItemID u = k \<and> \<not> tk_IsStoped u \<and> tk_Item u = None"
      using fetcher_okD(2) [OF assms(1) m] k(2) at assms(2) by (auto split: if_splits)
  qed
  assume "waits b j cb' f"
  with ok at same assms(2) show "waits b j cb' f'" by (auto simp: waits_def)
qed

text \<open>A fetch of any item keeps those waiting; a new listener waits unless the item is there already.\<close>

lemma fetch_waits:
  assumes "fetch r peers i cb f = Inr (a, f')" "fetcher_ok f"
  shows "map_of (if_Cache f) i = None \<Longrightarrow> waits a i cb f'" "waits b j cb' f \<Longrightarrow> waits b j cb' f'"
proof -
  obtain t new f1 where o: "obtain_tracker i f = (a, t, new, f1)"
    using assms(1) by (auto simp: fetch_def Let_def rbind_eq_Inr split: prod.splits)
  note ot = obtain_tracker_ok [OF o assms(2)]
  define t1 where "t1 = t\<lparr>tk_Callbacks := tk_Callbacks t @ [cb]\<rparr>"
  define f2 where "f2 = set_tracker a t1 f1"
  have f': "f' = (case cache_get i (if_Cache f2) of
      Some (x, c) \<Rightarrow> tracker_recv a x t1 (f2\<lparr>if_Trackers := om_erase i (if_Trackers f2), if_Cache := c\<rparr>)
    | None \<Rightarrow> if new then tryNextPeer r peers a t1 f2 else f2)"
    using assms(1) o listen_ok [OF ot(4), of cb, folded t1_def] unfolding f2_def by (simp add: fetch_def Let_def)
  note sc = set_callbacks_ok [OF ot(1,2) f2_def [unfolded t1_def]]
  have f2: "tracker_at a f2 = Some t1" "map_of (if_Trackers f2) i = Some a" "if_Cache f2 = if_Cache f"
    using tracker_at_set [OF tracker_at_less [OF ot(2)], of a t1] ot(3,6) by (simp_all add: f2_def) (simp_all add: set_tracker_def)
  have step: "same_trackers f2 (if new then tryNextPeer r peers a t1 f2 else f2)" using tryNextPeer_same [OF f2(1)] by simp
  show "waits a i cb f'" if "map_of (if_Cache f) i = None"
  proof -
    have "cache_get i (if_Cache f2) = None" using that f2(3) by (simp add: cache_get_def)
    then have "f' = (if new then tryNextPeer r peers a t1 f2 else f2)" using f' by simp
    moreover have "waits a i cb f2" using f2 that sc(1) by (simp add: waits_def t1_def)
    ultimately show ?thesis using same_trackers_waits [OF step] by simp
  qed
  assume w: "waits b j cb' f"
  then have w2: "waits b j cb' f2" using ot(9) sc(2) by blast
  show "waits b j cb' f'"
  proof (cases "cache_get i (if_Cache f2)")
    case None
    then show ?thesis using f' same_trackers_waits [OF step w2] by simp
  next
    case (Some p)
    obtain x c where p: "p = (x, c)" by fastforce
    have c: "map_of c = map_of (if_Cache f)" "map_of (if_Cache f) i \<noteq> None"
      using cache_get_lookup [OF Some [unfolded p]] f2(3) by simp_all
    then have "i \<noteq> j" using w by (auto simp: waits_def)
    moreover have "f' = tracker_recv a x t1 (f2\<lparr>if_Cache := c, if_Trackers := om_erase i (if_Trackers f2)\<rparr>)"
      using f' Some p by (cases f2) simp
    ultimately show ?thesis using tracker_recv_waits [OF w2 sc(1) f2(2,1)] c(1) w by (simp add: waits_def)
  qed
qed

lemma cache_put_other: "j \<noteq> i \<Longrightarrow> map_of c i = None \<Longrightarrow> map_of (cache_put n j x c) i = None"
  by (auto simp: cache_put_def Let_def map_of_eq_None_iff dest!: in_set_butlastD)

lemma fetcher_recv_waits:
  assumes "waits a i cb f" "j \<noteq> i"
  shows "waits a i cb (fetcher_recv j x f)"
proof -
  obtain needed f1 where n: "isNeeded j f = (needed, f1)" by fastforce
  have w: "waits a i cb f1" using same_trackers_waits [OF isNeeded_same [of f j] assms(1)] n by simp
  show ?thesis
  proof (cases needed)
    case None
    then show ?thesis using n w by (simp add: fetcher_recv_def)
  next
    case (Some b)
    then obtain t where t: "f1 = f" "map_of (if_Trackers f) j = Some b" "tracker_at b f = Some t"
      using n by (auto simp: isNeeded_def split: option.splits if_splits)
    have "fetcher_ok f" "map_of (if_Cache f) i = None" using assms(1) by (simp_all add: waits_def)
    then show ?thesis
      using tracker_recv_waits [OF assms(1) _ t(2,3) assms(2) refl cache_put_other [OF assms(2)]] n Some t by (simp add: fetcher_recv_def)
  qed
qed

lemma fetcher_cache_waits: "waits a i cb f \<Longrightarrow> j \<noteq> i \<Longrightarrow> waits a i cb (fetcher_cache j x f)"
  unfolding fetcher_cache_def
  by (rule fetcher_recv_waits) (auto simp: waits_def fetcher_ok_def tracker_at_def cache_put_other)

lemma release_waits: "waits a i cb f \<Longrightarrow> b \<noteq> a \<Longrightarrow> waits a i cb (release b f)"
proof -
  have "tracker_at c (release b f) = (if c = b then None else tracker_at c f)" for c
    by (auto simp: tracker_at_def release_def)
  moreover have "if_Trackers (release b f) = if_Trackers f" "if_Cache (release b f) = if_Cache f" "length (if_heap (release b f)) = length (if_heap f)"
    by (simp_all add: release_def)
  ultimately show "waits a i cb f \<Longrightarrow> b \<noteq> a \<Longrightarrow> waits a i cb (release b f)" by (simp add: waits_def fetcher_ok_def)
qed

lemma fetcher_step_waits: "fetcher_step a i f f' \<Longrightarrow> waits a i cb f \<Longrightarrow> waits a i cb f'"
proof (induction rule: fetcher_step.induct)
  case (get j f x f')
  then show ?case using same_trackers_waits [OF fetcher_get_same [of f j]] by simp
next
  case (fetch r peers j cb' f b f')
  then show ?case using fetch_waits(2) [of r peers j cb' f b f'] unfolding waits_def by blast
next
  case (get_or_fetch r peers j cb' f b f')
  have ok: "fetcher_ok f" using get_or_fetch.prems by (simp add: waits_def)
  show ?case
  proof (cases "cache_get j (if_Cache f)")
    case None
    then obtain c where "fetch r peers j cb' f = Inr (c, f')" using get_or_fetch.hyps by (auto simp: getOrFetch_def rbind_eq_Inr)
    then show ?thesis using fetch_waits(2) [OF _ ok] get_or_fetch.prems by blast
  next
    case (Some p)
    obtain x c where p: "p = (x, c)" by fastforce
    have "f' = f\<lparr>if_Cache := c, if_called := if_called f @ [(cb', x)]\<rparr>" using get_or_fetch.hyps Some p by (simp add: getOrFetch_def)
    then show ?thesis using get_or_fetch.prems cache_get_lookup [OF Some [unfolded p]]
      by (auto simp: waits_def fetcher_ok_def tracker_at_def split: if_splits)
  qed
qed (auto intro: same_trackers_waits [OF fetcher_doesntHave_same] same_trackers_waits [OF timer_fired_same]
  fetcher_recv_waits fetcher_cache_waits release_waits)

lemma waits_recv:
  assumes "waits a i cb f"
  shows "(cb, x) \<in> set (if_called (fetcher_recv i x f))"
proof -
  obtain t where "map_of (if_Trackers f) i = Some a" "tracker_at a f = Some t" "cb \<in> set (tk_Callbacks t)"
    using assms by (auto simp: waits_def)
  then show ?thesis by (simp add: fetcher_recv_def isNeeded_def tracker_recv_def set_tracker_def tracker_at_def)
qed

text \<open>
  C36: A listener is never forgotten. Once an item that is not in the cache has been fetched with a
  callback, then whatever else the fetcher does, as long as the caller holds the tracker, the arrival of
  the item calls the callback with it.
\<close>

theorem fetched_item_reaches_listener:
  assumes "fetcher_ok f" "map_of (if_Cache f) i = None" "fetch r peers i cb f = Inr (a, f1)" "(fetcher_step a i)\<^sup>*\<^sup>* f1 f2"
  shows "(cb, x) \<in> set (if_called (fetcher_recv i x f2))"
proof -
  have "waits a i cb f2"
    using assms(4) fetch_waits(1) [OF assms(3,1,2)] by (induction rule: rtranclp_induct) (auto intro: fetcher_step_waits)
  then show ?thesis by (rule waits_recv)
qed

theorem fetched_item_reaches_listener_witness:
  "\<exists>a f1. fetch 4 [11, 12, 13] 7 3 (new_ItemFetcher 2 :: int ItemFetcher) = Inr (a, f1) \<and>
     (3, 42) \<in> set (if_called (fetcher_recv 7 42 (fetcher_recv 8 41 (timer_fired 0 [11, 12, 13] a f1))))"
proof -
  let ?f = "new_ItemFetcher 2 :: int ItemFetcher"
  have ok: "fetcher_ok ?f" "map_of (if_Cache ?f) 7 = None" by (simp_all add: fetcher_ok_def new_ItemFetcher_def)
  have "obtain_tracker 7 ?f = (0, new_Tracker 7, True, ?f\<lparr>if_heap := [Some (new_Tracker 7)], if_Trackers := om_update 7 0 []\<rparr>)"
    by (simp add: obtain_tracker_def new_ItemFetcher_def)
  then obtain f1 where f1: "fetch 4 [11, 12, 13] 7 3 ?f = Inr (0, f1)"
    by (simp add: fetch_def listen_def isItemFound_def new_Tracker_def Let_def)
  have "fetcher_step 0 7 f1 (timer_fired 0 [11, 12, 13] 0 f1)" by (rule fetcher_step.timer)
  moreover have "fetcher_step 0 7 (timer_fired 0 [11, 12, 13] 0 f1) (fetcher_recv 8 41 (timer_fired 0 [11, 12, 13] 0 f1))"
    by (rule fetcher_step.arrive) simp
  ultimately have "(fetcher_step 0 7)\<^sup>*\<^sup>* f1 (fetcher_recv 8 41 (timer_fired 0 [11, 12, 13] 0 f1))" by (rule converse_rtranclp_into_rtranclp [OF _ r_into_rtranclp])
  from fetched_item_reaches_listener [OF ok f1 this] f1 show ?thesis by blast
qed

end
