(* ===== verification/Overlay.thy ===== *)
theory Overlay
  imports Floodgate Peer_Record Item_Fetcher Tx_Set SCP_Node
begin

text \<open>
  \<open>src/overlay/Peer.cpp\<close>, \<open>TCPPeer.cpp\<close>, \<open>PeerDoor.cpp\<close> and \<open>OverlayManagerImpl.cpp\<close>: the connections of a node and the
  messages of its peers.

  A peer is its address in the heap of the overlay. Sockets belong to asio: what is sent is logged, what
  arrives, fails or times out is an argument. \<open>drop\<close> posts the removal of a peer from the list of connections; it
  waits in \<open>ov_posted\<close> until the service for I/O runs it. The herder is the interface \<open>HerderOps\<close> over a
  state of its own; its verdict on an envelope may come at any time and is a call of its own, \<open>envelope_verdict\<close>.
\<close>

subsection \<open>Messages\<close>

datatype MessageType =
  ERROR_MSG | HELLO | DONT_HAVE | GET_PEERS | PEERS | GET_TX_SET | TX_SET | TRANSACTION | GET_SCP_QUORUMSET | SCP_QUORUMSET | SCP_MESSAGE

record Hello =
  he_protocolVersion :: int32
  he_versionStr :: string
  he_listeningPort :: int32
  he_peerID :: uint256

datatype PaysharesMessage =
    ErrorMessage int32 string
  | HelloMessage Hello
  | DontHaveMessage MessageType uint256
  | GetPeersMessage
  | PeersMessage "PeerAddress list"
  | GetTxSetMessage uint256
  | TxSetMessage TransactionSet
  | TransactionMessage TransactionEnvelope
  | GetQuorumSetMessage uint256
  | QuorumSetMessage SCPQuorumSet
  | EnvelopeMessage SCPEnvelope

fun msg_type :: "PaysharesMessage \<Rightarrow> MessageType" where
  "msg_type (ErrorMessage _ _) = ERROR_MSG"
| "msg_type (HelloMessage _) = HELLO"
| "msg_type (DontHaveMessage _ _) = DONT_HAVE"
| "msg_type GetPeersMessage = GET_PEERS"
| "msg_type (PeersMessage _) = PEERS"
| "msg_type (GetTxSetMessage _) = GET_TX_SET"
| "msg_type (TxSetMessage _) = TX_SET"
| "msg_type (TransactionMessage _) = TRANSACTION"
| "msg_type (GetQuorumSetMessage _) = GET_SCP_QUORUMSET"
| "msg_type (QuorumSetMessage _) = SCP_QUORUMSET"
| "msg_type (EnvelopeMessage _) = SCP_MESSAGE"

subsection \<open>State\<close>

datatype PeerState = CONNECTING | CONNECTED | GOT_HELLO | CLOSING

datatype PeerRole = INITIATOR | ACCEPTOR

record Peer =
  pp_Role :: PeerRole
  pp_State :: PeerState
  pp_PeerID :: uint256
  pp_RemoteVersion :: string
  pp_RemoteProtocolVersion :: uint32
  pp_RemoteListeningPort :: "16 word"
  pp_IP :: string

record OverlayConfig =
  oc_PROTOCOL_VERSION :: uint32
  oc_VERSION_STR :: string
  oc_PEER_PORT :: "16 word"
  oc_PEER_PUBLIC_KEY :: uint256
  oc_TARGET_PEER_CONNECTIONS :: nat
  oc_MAX_PEER_CONNECTIONS :: nat
  oc_KNOWN_PEERS :: "string list"
  oc_PREFERRED_PEERS :: "string list"
  oc_quorumSet :: SCPQuorumSet

text \<open>What the overlay uses of the libraries: hashes, the resolver and the parser of asio, the order of SQL.\<close>

record OverlayLib =
  ol_msgHash :: "PaysharesMessage \<Rightarrow> uint256"
  ol_qsetHash :: "SCPQuorumSet \<Rightarrow> Hash"
  ol_sort :: sorter
  ol_envHash :: "TransactionEnvelope \<Rightarrow> Hash"
  ol_setHash :: "Hash \<Rightarrow> TransactionEnvelope list \<Rightarrow> Hash"
  ol_resolve :: "bool \<Rightarrow> string \<Rightarrow> (bool \<times> string) list option"
  ol_from_string :: "string \<Rightarrow> uint32 option"
  ol_order :: "((string \<times> 16 word) \<times> PeerRow) list \<Rightarrow> ((string \<times> 16 word) \<times> PeerRow) list"

record 'h HerderOps =
  ho_recvTransaction :: "TransactionEnvelope \<Rightarrow> 'h \<Rightarrow> (bool \<times> 'h) res"
  ho_recvSCPEnvelope :: "SCPEnvelope \<Rightarrow> 'h \<Rightarrow> 'h res"
  ho_getCurrentLedgerSeq :: "'h \<Rightarrow> uint32"

record 'h Overlay =
  ov_heap :: "Peer list"
  ov_Peers :: "nat list"
  ov_FloodGate :: "PaysharesMessage FloodMap"
  ov_TxSetFetcher :: "TxSetFrame ItemFetcher"
  ov_QuorumSetFetcher :: "SCPQuorumSet ItemFetcher"
  ov_db :: Peers
  ov_herder :: 'h
  ov_posted :: "nat list"
  ov_sent :: "(nat \<times> PaysharesMessage) list"

definition new_OverlayManagerImpl :: "Peers \<Rightarrow> 'h \<Rightarrow> 'h Overlay" where
  "new_OverlayManagerImpl db h =
     \<lparr>ov_heap = [], ov_Peers = [], ov_FloodGate = [], ov_TxSetFetcher = new_ItemFetcher 400, ov_QuorumSetFetcher = new_ItemFetcher 400,
      ov_db = db, ov_herder = h, ov_posted = [], ov_sent = []\<rparr>"

abbreviation peer_state :: "'h Overlay \<Rightarrow> nat \<Rightarrow> PeerState" where
  "peer_state s a \<equiv> pp_State (ov_heap s ! a)"

definition set_peer :: "nat \<Rightarrow> Peer \<Rightarrow> 'h Overlay \<Rightarrow> 'h Overlay" where
  "set_peer a p s = s\<lparr>ov_heap := (ov_heap s)[a := p]\<rparr>"

definition set_state :: "nat \<Rightarrow> PeerState \<Rightarrow> 'h Overlay \<Rightarrow> 'h Overlay" where
  "set_state a st s = set_peer a ((ov_heap s ! a)\<lparr>pp_State := st\<rparr>) s"

definition sendMessage :: "nat \<Rightarrow> PaysharesMessage \<Rightarrow> 'h Overlay \<Rightarrow> 'h Overlay" where
  "sendMessage a m s = s\<lparr>ov_sent := ov_sent s @ [(a, m)]\<rparr>"

subsection \<open>The list of connections\<close>

definition new_Peer :: "PeerRole \<Rightarrow> string \<Rightarrow> Peer" where
  "new_Peer role ip =
     \<lparr>pp_Role = role, pp_State = (if role = ACCEPTOR then CONNECTING else CONNECTED), pp_PeerID = 0, pp_RemoteVersion = [],
      pp_RemoteProtocolVersion = 0, pp_RemoteListeningPort = 0, pp_IP = ip\<rparr>"

text \<open>A new peer at the next address; the side that connects calls the other the acceptor.\<close>

definition initiate :: "string \<Rightarrow> 16 word \<Rightarrow> 'h Overlay \<Rightarrow> nat \<times> 'h Overlay" where
  "initiate ip port s =
     (length (ov_heap s), s\<lparr>ov_heap := ov_heap s @ [(new_Peer ACCEPTOR ip)\<lparr>pp_RemoteListeningPort := port\<rparr>]\<rparr>)"

definition accept_peer :: "string \<Rightarrow> 'h Overlay \<Rightarrow> nat \<times> 'h Overlay" where
  "accept_peer ip s = (length (ov_heap s), s\<lparr>ov_heap := ov_heap s @ [new_Peer INITIATOR ip]\<rparr>)"

definition addConnectedPeer :: "nat \<Rightarrow> 'h Overlay \<Rightarrow> 'h Overlay" where
  "addConnectedPeer a s = s\<lparr>ov_Peers := ov_Peers s @ [a]\<rparr>"

definition dropPeer :: "nat \<Rightarrow> 'h Overlay \<Rightarrow> 'h Overlay" where
  "dropPeer a s = s\<lparr>ov_Peers := remove1 a (ov_Peers s)\<rparr>"

definition handleKnock :: "string \<Rightarrow> 'h Overlay \<Rightarrow> 'h Overlay" where
  "handleKnock ip s = (let (a, s1) = accept_peer ip s in addConnectedPeer a s1)"

definition drop_peer :: "nat \<Rightarrow> 'h Overlay \<Rightarrow> 'h Overlay" where
  "drop_peer a s = (if peer_state s a = CLOSING then s else (set_state a CLOSING s)\<lparr>ov_posted := ov_posted s @ [a]\<rparr>)"

definition run_posted :: "'h Overlay \<Rightarrow> 'h Overlay" where
  "run_posted s = (case ov_posted s of [] \<Rightarrow> s | a # as \<Rightarrow> dropPeer a (s\<lparr>ov_posted := as\<rparr>))"

definition getConnectedPeer :: "string \<Rightarrow> 16 word \<Rightarrow> 'h Overlay \<Rightarrow> nat option" where
  "getConnectedPeer ip port s =
     List.find (\<lambda>a. pp_IP (ov_heap s ! a) = ip \<and> pp_RemoteListeningPort (ov_heap s ! a) = port) (ov_Peers s)"

definition connectTo :: "time_point \<Rightarrow> PeerRecord \<Rightarrow> 'h Overlay \<Rightarrow> 'h Overlay res" where
  "connectTo now pr s =
     (if pr_Port pr = 0 \<or> pr_IP pr = [] then Inr s
      else case getConnectedPeer (pr_IP pr) (pr_Port pr) s of
             Some _ \<Rightarrow> Inr s
           | None \<Rightarrow>
               rbind (storePeerRecord (backOff now pr) (ov_db s)) (\<lambda>db.
               let (a, s1) = initiate (pr_IP pr) (pr_Port pr) (s\<lparr>ov_db := db\<rparr>) in Inr (addConnectedPeer a s1)))"

definition connectTo_text :: "OverlayLib \<Rightarrow> time_point \<Rightarrow> string \<Rightarrow> 'h Overlay \<Rightarrow> 'h Overlay res" where
  "connectTo_text L now peerStr s =
     (case parseIPPort (ol_resolve L) now DEFAULT_PEER_PORT peerStr of Some pr \<Rightarrow> connectTo now pr s | None \<Rightarrow> Inr s)"

text \<open>The rank is not used.\<close>

fun storePeerList :: "OverlayLib \<Rightarrow> time_point \<Rightarrow> int \<Rightarrow> string list \<Rightarrow> 'h Overlay \<Rightarrow> 'h Overlay res" where
  "storePeerList L now rank [] s = Inr s"
| "storePeerList L now rank (peerStr # list) s =
     (case parseIPPort (ol_resolve L) now DEFAULT_PEER_PORT peerStr of
        None \<Rightarrow> storePeerList L now rank list s
      | Some pr \<Rightarrow> rbind (insertIfNew pr (ov_db s)) (\<lambda>(_, db). storePeerList L now rank list (s\<lparr>ov_db := db\<rparr>)))"

definition storeConfigPeers :: "OverlayLib \<Rightarrow> OverlayConfig \<Rightarrow> time_point \<Rightarrow> 'h Overlay \<Rightarrow> 'h Overlay res" where
  "storeConfigPeers L C now s =
     rbind (storePeerList L now 2 (oc_KNOWN_PEERS C) s) (storePeerList L now 10 (oc_PREFERRED_PEERS C))"

fun connect_each :: "OverlayConfig \<Rightarrow> time_point \<Rightarrow> PeerRecord list \<Rightarrow> 'h Overlay \<Rightarrow> 'h Overlay res" where
  "connect_each C now [] s = Inr s"
| "connect_each C now (pr # prs) s =
     (if length (ov_Peers s) \<ge> oc_TARGET_PEER_CONNECTIONS C then Inr s
      else if getConnectedPeer (pr_IP pr) (pr_Port pr) s = None then rbind (connectTo now pr s) (connect_each C now prs)
      else connect_each C now prs s)"

definition connectToMorePeers :: "OverlayLib \<Rightarrow> OverlayConfig \<Rightarrow> time_point \<Rightarrow> uint32 \<Rightarrow> 'h Overlay \<Rightarrow> 'h Overlay res" where
  "connectToMorePeers L C now maxn s = connect_each C now (loadPeerRecords (ol_order L) maxn now (ov_db s)) s"

definition tick :: "OverlayLib \<Rightarrow> OverlayConfig \<Rightarrow> time_point \<Rightarrow> 'h Overlay \<Rightarrow> 'h Overlay res" where
  "tick L C now s =
     (if length (ov_Peers s) < oc_TARGET_PEER_CONNECTIONS C
      then connectToMorePeers L C now (of_nat (oc_TARGET_PEER_CONNECTIONS C - length (ov_Peers s))) s
      else Inr s)"

text \<open>The record is dereferenced without a test.\<close>

definition isPeerPreferred :: "nat \<Rightarrow> 'h Overlay \<Rightarrow> bool res" where
  "isPeerPreferred a s =
     (case loadPeerRecord (ov_db s) (pp_IP (ov_heap s ! a)) (pp_RemoteListeningPort (ov_heap s ! a)) of
        None \<Rightarrow> Inl (RuntimeError ''null pointer'')
      | Some pr \<Rightarrow> Inr (pr_Rank pr > 9))"

definition isPeerAccepted :: "OverlayConfig \<Rightarrow> nat \<Rightarrow> 'h Overlay \<Rightarrow> bool res" where
  "isPeerAccepted C a s = (if length (ov_Peers s) < oc_MAX_PEER_CONNECTIONS C then Inr True else isPeerPreferred a s)"

subsection \<open>Flooding\<close>

definition recvFloodedMsg :: "OverlayLib \<Rightarrow> 'h HerderOps \<Rightarrow> PaysharesMessage \<Rightarrow> nat \<Rightarrow> 'h Overlay \<Rightarrow> 'h Overlay" where
  "recvFloodedMsg L ops m a s =
     s\<lparr>ov_FloodGate := snd (addRecord (ol_msgHash L) (ho_getCurrentLedgerSeq ops (ov_herder s)) m (Some a) (ov_FloodGate s))\<rparr>"

definition broadcastMessage :: "OverlayLib \<Rightarrow> 'h HerderOps \<Rightarrow> PaysharesMessage \<Rightarrow> bool \<Rightarrow> 'h Overlay \<Rightarrow> 'h Overlay" where
  "broadcastMessage L ops m force s =
     (let (sent, fm) = broadcast (ol_msgHash L) (ho_getCurrentLedgerSeq ops (ov_herder s)) force (\<lambda>a. peer_state s a = GOT_HELLO)
            (ov_Peers s) m (ov_FloodGate s)
      in fold (\<lambda>a. sendMessage a m) sent (s\<lparr>ov_FloodGate := fm\<rparr>))"

definition overlay_ledgerClosed :: "uint32 \<Rightarrow> 'h Overlay \<Rightarrow> 'h Overlay" where
  "overlay_ledgerClosed seq s = s\<lparr>ov_FloodGate := clearBelow seq (ov_FloodGate s)\<rparr>"

subsection \<open>Sending\<close>

definition sendHello :: "OverlayConfig \<Rightarrow> nat \<Rightarrow> 'h Overlay \<Rightarrow> 'h Overlay" where
  "sendHello C a = sendMessage a (HelloMessage \<lparr>he_protocolVersion = sint (oc_PROTOCOL_VERSION C), he_versionStr = oc_VERSION_STR C,
     he_listeningPort = uint (oc_PEER_PORT C), he_peerID = oc_PEER_PUBLIC_KEY C\<rparr>)"

definition sendDontHave :: "MessageType \<Rightarrow> uint256 \<Rightarrow> nat \<Rightarrow> 'h Overlay \<Rightarrow> 'h Overlay" where
  "sendDontHave t itemID a = sendMessage a (DontHaveMessage t itemID)"

definition sendSCPQuorumSet :: "SCPQuorumSet \<Rightarrow> nat \<Rightarrow> 'h Overlay \<Rightarrow> 'h Overlay" where
  "sendSCPQuorumSet q a = sendMessage a (QuorumSetMessage q)"

definition sendGetTxSet :: "uint256 \<Rightarrow> nat \<Rightarrow> 'h Overlay \<Rightarrow> 'h Overlay" where
  "sendGetTxSet i a = sendMessage a (GetTxSetMessage i)"

definition sendGetQuorumSet :: "uint256 \<Rightarrow> nat \<Rightarrow> 'h Overlay \<Rightarrow> 'h Overlay" where
  "sendGetQuorumSet i a = sendMessage a (GetQuorumSetMessage i)"

text \<open>A private address leaves its entry blank.\<close>

definition address_of :: "OverlayLib \<Rightarrow> PeerRecord \<Rightarrow> PeerAddress res" where
  "address_of L pr =
     (if isPrivateAddress (ol_from_string L) pr then Inr \<lparr>pa_ip = [0, 0, 0, 0], pa_port = 0, pa_numFailures = 0\<rparr> else toXdr pr)"

fun addresses_of :: "OverlayLib \<Rightarrow> PeerRecord list \<Rightarrow> PeerAddress list res" where
  "addresses_of L [] = Inr []"
| "addresses_of L (pr # prs) = rbind (address_of L pr) (\<lambda>x. rbind (addresses_of L prs) (\<lambda>xs. Inr (x # xs)))"

definition sendPeers :: "OverlayLib \<Rightarrow> time_point \<Rightarrow> nat \<Rightarrow> 'h Overlay \<Rightarrow> 'h Overlay res" where
  "sendPeers L now a s =
     rbind (addresses_of L (loadPeerRecords (ol_order L) 50 now (ov_db s))) (\<lambda>xs. Inr (sendMessage a (PeersMessage xs) s))"

definition connectHandler :: "OverlayConfig \<Rightarrow> bool \<Rightarrow> nat \<Rightarrow> 'h Overlay \<Rightarrow> 'h Overlay" where
  "connectHandler C error a s = (if error then drop_peer a s else sendHello C a (set_state a CONNECTED s))"

text \<open>The requests of a fetcher since \<open>old\<close>, sent by \<open>askPeer\<close> of its trackers.\<close>

definition askPeers :: "(uint256 \<Rightarrow> nat \<Rightarrow> 'h Overlay \<Rightarrow> 'h Overlay) \<Rightarrow> 'a ItemFetcher \<Rightarrow> 'a ItemFetcher \<Rightarrow> 'h Overlay \<Rightarrow> 'h Overlay" where
  "askPeers ask old new = fold (\<lambda>(p, i). ask i p) (drop (length (if_asked old)) (if_asked new))"

definition with_TxSetFetcher :: "(TxSetFrame ItemFetcher \<Rightarrow> TxSetFrame ItemFetcher) \<Rightarrow> 'h Overlay \<Rightarrow> 'h Overlay" where
  "with_TxSetFetcher f s =
     (let old = ov_TxSetFetcher s; new = f old in askPeers sendGetTxSet old new (s\<lparr>ov_TxSetFetcher := new\<rparr>))"

definition with_QuorumSetFetcher :: "(SCPQuorumSet ItemFetcher \<Rightarrow> SCPQuorumSet ItemFetcher) \<Rightarrow> 'h Overlay \<Rightarrow> 'h Overlay" where
  "with_QuorumSetFetcher f s =
     (let old = ov_QuorumSetFetcher s; new = f old in askPeers sendGetQuorumSet old new (s\<lparr>ov_QuorumSetFetcher := new\<rparr>))"

subsection \<open>Receiving\<close>

text \<open>\<open>Peer::recvHello\<close>, and the same of a TCP peer.\<close>

definition base_recvHello :: "OverlayConfig \<Rightarrow> Hello \<Rightarrow> nat \<Rightarrow> 'h Overlay \<Rightarrow> bool \<times> 'h Overlay" where
  "base_recvHello C h a s =
     (if he_peerID h = oc_PEER_PUBLIC_KEY C then (False, drop_peer a s)
      else
        let p = (ov_heap s ! a)\<lparr>pp_RemoteProtocolVersion := word_of_int (he_protocolVersion h), pp_RemoteVersion := he_versionStr h\<rparr>
        in if he_listeningPort h \<le> 0 \<or> he_listeningPort h > 65535 then (False, drop_peer a (set_peer a p s))
           else (True, set_peer a (p\<lparr>pp_RemoteListeningPort := word_of_int (he_listeningPort h), pp_State := GOT_HELLO, pp_PeerID := he_peerID h\<rparr>) s))"

definition recvHello :: "OverlayLib \<Rightarrow> OverlayConfig \<Rightarrow> time_point \<Rightarrow> Hello \<Rightarrow> nat \<Rightarrow> 'h Overlay \<Rightarrow> (bool \<times> 'h Overlay) res" where
  "recvHello L C now h a s =
     (let (ok, s1) = base_recvHello C h a s; p = ov_heap s1 ! a; stored = loadPeerRecord (ov_db s1) (pp_IP p) (pp_RemoteListeningPort p);
          fresh = fromIPPort (pp_IP p) (pp_RemoteListeningPort p) now
      in if \<not> ok then Inr (False, s1)
         else if pp_Role p = INITIATOR
         then rbind (if stored = None then storePeerRecord fresh (ov_db s1) else Inr (ov_db s1)) (\<lambda>db.
              let s2 = s1\<lparr>ov_db := db\<rparr>
              in rbind (isPeerAccepted C a s2) (\<lambda>accepted.
                 if accepted then rbind (sendPeers L now a (sendHello C a s2)) (\<lambda>s3. Inr (True, s3))
                 else rbind (sendPeers L now a s2) (\<lambda>s3. Inr (True, drop_peer a s3))))
         else rbind (storePeerRecord ((case stored of Some pr \<Rightarrow> pr | None \<Rightarrow> fresh)\<lparr>pr_NumFailures := 0, pr_NextAttempt := now\<rparr>) (ov_db s1)) (\<lambda>db.
              Inr (True, s1\<lparr>ov_db := db\<rparr>)))"

definition recvDontHave :: "nat \<Rightarrow> MessageType \<Rightarrow> uint256 \<Rightarrow> nat \<Rightarrow> 'h Overlay \<Rightarrow> 'h Overlay" where
  "recvDontHave r t reqHash a s =
     (case t of
        TX_SET \<Rightarrow> with_TxSetFetcher (fetcher_doesntHave r (ov_Peers s) reqHash a) s
      | SCP_QUORUMSET \<Rightarrow> with_QuorumSetFetcher (fetcher_doesntHave r (ov_Peers s) reqHash a) s
      | _ \<Rightarrow> s)"

definition recvGetTxSet :: "uint256 \<Rightarrow> nat \<Rightarrow> 'h Overlay \<Rightarrow> 'h Overlay" where
  "recvGetTxSet h a s =
     (case fetcher_get h (ov_TxSetFetcher s) of
        (Some ts, f) \<Rightarrow> sendMessage a (TxSetMessage (ts_toXDR ts)) (s\<lparr>ov_TxSetFetcher := f\<rparr>)
      | (None, f) \<Rightarrow> sendDontHave TX_SET h a (s\<lparr>ov_TxSetFetcher := f\<rparr>))"

text \<open>Two frames are made of the set, one for its hash and one that is kept.\<close>

definition contents_hash :: "OverlayLib \<Rightarrow> TransactionSet \<Rightarrow> Hash" where
  "contents_hash L x = fst (getContentsHash (ol_sort L) (ol_envHash L) (ol_setHash L) (TxSetFrame_of 0 x))"

definition recvTxSet :: "OverlayLib \<Rightarrow> nat \<Rightarrow> TransactionSet \<Rightarrow> 'h Overlay \<Rightarrow> 'h Overlay" where
  "recvTxSet L base x = with_TxSetFetcher (fetcher_recv (contents_hash L x) (TxSetFrame_of base x))"

definition peer_recvTransaction :: "OverlayLib \<Rightarrow> 'h HerderOps \<Rightarrow> TransactionEnvelope \<Rightarrow> nat \<Rightarrow> 'h Overlay \<Rightarrow> 'h Overlay res" where
  "peer_recvTransaction L ops tx a s =
     rbind (ho_recvTransaction ops tx (ov_herder s)) (\<lambda>(ok, h).
       let s1 = s\<lparr>ov_herder := h\<rparr>
       in Inr (if ok then broadcastMessage L ops (TransactionMessage tx) False (recvFloodedMsg L ops (TransactionMessage tx) a s1) else s1))"

definition recvGetSCPQuorumSet :: "OverlayLib \<Rightarrow> OverlayConfig \<Rightarrow> uint256 \<Rightarrow> nat \<Rightarrow> 'h Overlay \<Rightarrow> 'h Overlay" where
  "recvGetSCPQuorumSet L C h a s =
     (if h = ol_qsetHash L (oc_quorumSet C) then sendSCPQuorumSet (oc_quorumSet C) a s
      else case fetcher_get h (ov_QuorumSetFetcher s) of
             (Some q, f) \<Rightarrow> sendSCPQuorumSet q a (s\<lparr>ov_QuorumSetFetcher := f\<rparr>)
           | (None, f) \<Rightarrow> sendDontHave SCP_QUORUMSET h a (s\<lparr>ov_QuorumSetFetcher := f\<rparr>))"

definition recvSCPQuorumSet :: "OverlayLib \<Rightarrow> SCPQuorumSet \<Rightarrow> 'h Overlay \<Rightarrow> 'h Overlay" where
  "recvSCPQuorumSet L q = with_QuorumSetFetcher (fetcher_recv (ol_qsetHash L q) q)"

definition recvSCPMessage :: "OverlayLib \<Rightarrow> 'h HerderOps \<Rightarrow> SCPEnvelope \<Rightarrow> nat \<Rightarrow> 'h Overlay \<Rightarrow> 'h Overlay res" where
  "recvSCPMessage L ops e a s =
     (let s1 = recvFloodedMsg L ops (EnvelopeMessage e) a s
      in rbind (ho_recvSCPEnvelope ops e (ov_herder s1)) (\<lambda>h. Inr (s1\<lparr>ov_herder := h\<rparr>)))"

definition envelope_verdict :: "OverlayLib \<Rightarrow> 'h HerderOps \<Rightarrow> bool \<Rightarrow> SCPEnvelope \<Rightarrow> 'h Overlay \<Rightarrow> 'h Overlay" where
  "envelope_verdict L ops valid e s = (if valid then broadcastMessage L ops (EnvelopeMessage e) False s else s)"

fun recvPeers :: "OverlayLib \<Rightarrow> time_point \<Rightarrow> PeerAddress list \<Rightarrow> 'h Overlay \<Rightarrow> 'h Overlay res" where
  "recvPeers L now [] s = Inr s"
| "recvPeers L now (x # xs) s =
     (let pr = \<lparr>pr_IP = ip_text (pa_ip x), pr_Port = ucast (pa_port x), pr_NextAttempt = now, pr_NumFailures = pa_numFailures x, pr_Rank = 1\<rparr>
      in if pa_port x = 0 \<or> pa_port x > 65535 \<or> isPrivateAddress (ol_from_string L) pr then recvPeers L now xs s
         else rbind (insertIfNew pr (ov_db s)) (\<lambda>(_, db). recvPeers L now xs (s\<lparr>ov_db := db\<rparr>)))"

definition recvMessage ::
    "OverlayLib \<Rightarrow> OverlayConfig \<Rightarrow> 'h HerderOps \<Rightarrow> nat \<Rightarrow> nat \<Rightarrow> time_point \<Rightarrow> nat \<Rightarrow> PaysharesMessage \<Rightarrow> 'h Overlay \<Rightarrow> 'h Overlay res" where
  "recvMessage L C ops r base now a m s =
     (if peer_state s a \<in> {CONNECTING, CONNECTED} \<and> msg_type m \<noteq> HELLO \<and> msg_type m \<noteq> PEERS then Inr (drop_peer a s)
      else case m of
             ErrorMessage _ _ \<Rightarrow> Inr s
           | HelloMessage h \<Rightarrow> rbind (recvHello L C now h a s) (\<lambda>(_, s1). Inr s1)
           | DontHaveMessage t h \<Rightarrow> Inr (recvDontHave r t h a s)
           | GetPeersMessage \<Rightarrow> sendPeers L now a s
           | PeersMessage xs \<Rightarrow> recvPeers L now xs s
           | GetTxSetMessage h \<Rightarrow> Inr (recvGetTxSet h a s)
           | TxSetMessage x \<Rightarrow> Inr (recvTxSet L base x s)
           | TransactionMessage tx \<Rightarrow> peer_recvTransaction L ops tx a s
           | GetQuorumSetMessage h \<Rightarrow> Inr (recvGetSCPQuorumSet L C h a s)
           | QuorumSetMessage q \<Rightarrow> Inr (recvSCPQuorumSet L q s)
           | EnvelopeMessage e \<Rightarrow> recvSCPMessage L ops e a s)"

subsection \<open>The socket\<close>

definition MAX_MESSAGE_SIZE :: int where
  "MAX_MESSAGE_SIZE = 0x1000000"

text \<open>The length in the header of a message, and whether the peer is dropped for it.\<close>

definition getIncomingMsgLength :: "byte list \<Rightarrow> int" where
  "getIncomingMsgLength h =
     (let n = uint (h ! 0) AND 0x7f; n = push_bit 8 n OR uint (h ! 1); n = push_bit 8 n OR uint (h ! 2) in push_bit 8 n OR uint (h ! 3))"

definition readHeaderHandler :: "bool \<Rightarrow> byte list \<Rightarrow> nat \<Rightarrow> 'h Overlay \<Rightarrow> int option \<times> 'h Overlay" where
  "readHeaderHandler error h a s =
     (let n = getIncomingMsgLength h
      in if error then (None, drop_peer a s)
         else (Some n, if n < 0 \<or> n > MAX_MESSAGE_SIZE then drop_peer a s else s))"

definition readBodyHandler :: "bool \<Rightarrow> nat \<Rightarrow> 'h Overlay \<Rightarrow> 'h Overlay" where
  "readBodyHandler error a s = (if error then drop_peer a s else s)"

definition writeHandler :: "bool \<Rightarrow> nat \<Rightarrow> 'h Overlay \<Rightarrow> 'h Overlay" where
  "writeHandler error a s = (if error then drop_peer a s else s)"

definition timeoutRead :: "nat \<Rightarrow> 'h Overlay \<Rightarrow> 'h Overlay" where
  "timeoutRead a s = drop_peer a s"

definition timeoutWrite :: "nat \<Rightarrow> 'h Overlay \<Rightarrow> 'h Overlay" where
  "timeoutWrite a s = drop_peer a s"

end
