(* ===== verification/Overlay_Props.thy ===== *)
theory Overlay_Props
  imports Overlay
begin

text \<open>
  What holds of the connections of a node in every state the overlay can reach, and what follows from it: who is served,
  how many connections a node makes, that items come from where they are asked for.
\<close>

subsection \<open>What the operations leave alone\<close>

lemma sendMessage_simps [simp]:
  "ov_heap (sendMessage a m s) = ov_heap s" "ov_Peers (sendMessage a m s) = ov_Peers s"
  "ov_FloodGate (sendMessage a m s) = ov_FloodGate s" "ov_TxSetFetcher (sendMessage a m s) = ov_TxSetFetcher s"
  "ov_QuorumSetFetcher (sendMessage a m s) = ov_QuorumSetFetcher s" "ov_db (sendMessage a m s) = ov_db s"
  "ov_herder (sendMessage a m s) = ov_herder s" "ov_posted (sendMessage a m s) = ov_posted s"
  "ov_sent (sendMessage a m s) = ov_sent s @ [(a, m)]"
  by (simp_all add: sendMessage_def)

lemma fold_sendMessage: "fold (\<lambda>a. sendMessage a m) as s = s\<lparr>ov_sent := ov_sent s @ map (\<lambda>a. (a, m)) as\<rparr>"
  by (induction as arbitrary: s) (simp_all add: sendMessage_def)

lemma fold_ask:
  "fold (\<lambda>(p, i). sendGetTxSet i p) xs s = s\<lparr>ov_sent := ov_sent s @ map (\<lambda>(p, i). (p, GetTxSetMessage i)) xs\<rparr>"
  "fold (\<lambda>(p, i). sendGetQuorumSet i p) xs s = s\<lparr>ov_sent := ov_sent s @ map (\<lambda>(p, i). (p, GetQuorumSetMessage i)) xs\<rparr>"
  by (induction xs arbitrary: s) (auto simp: sendGetTxSet_def sendGetQuorumSet_def sendMessage_def)

lemma with_fetcher_simps:
  "\<exists>log. with_TxSetFetcher f s = s\<lparr>ov_TxSetFetcher := f (ov_TxSetFetcher s), ov_sent := log\<rparr>"
  "\<exists>log. with_QuorumSetFetcher g s = s\<lparr>ov_QuorumSetFetcher := g (ov_QuorumSetFetcher s), ov_sent := log\<rparr>"
  by (auto simp: with_TxSetFetcher_def with_QuorumSetFetcher_def askPeers_def fold_ask Let_def)

lemma set_state_simps [simp]:
  "ov_heap (set_state a st s) = (ov_heap s)[a := (ov_heap s ! a)\<lparr>pp_State := st\<rparr>]" "ov_Peers (set_state a st s) = ov_Peers s"
  "ov_FloodGate (set_state a st s) = ov_FloodGate s" "ov_TxSetFetcher (set_state a st s) = ov_TxSetFetcher s"
  "ov_QuorumSetFetcher (set_state a st s) = ov_QuorumSetFetcher s" "ov_db (set_state a st s) = ov_db s"
  "ov_herder (set_state a st s) = ov_herder s" "ov_sent (set_state a st s) = ov_sent s"
  by (simp_all add: set_state_def set_peer_def)

lemma drop_peer_simps [simp]:
  "ov_Peers (drop_peer a s) = ov_Peers s" "ov_FloodGate (drop_peer a s) = ov_FloodGate s"
  "ov_TxSetFetcher (drop_peer a s) = ov_TxSetFetcher s" "ov_QuorumSetFetcher (drop_peer a s) = ov_QuorumSetFetcher s"
  "ov_db (drop_peer a s) = ov_db s" "ov_herder (drop_peer a s) = ov_herder s" "ov_sent (drop_peer a s) = ov_sent s"
  "length (ov_heap (drop_peer a s)) = length (ov_heap s)"
  by (simp_all add: drop_peer_def)

lemma sendPeers_simps:
  "sendPeers L now a s = Inr s' \<Longrightarrow> \<exists>xs. s' = sendMessage a (PeersMessage xs) s"
  by (auto simp: sendPeers_def rbind_eq_Inr)

lemma recvPeers_simps:
  "recvPeers L now xs s = Inr s' \<Longrightarrow> \<exists>db. s' = s\<lparr>ov_db := db\<rparr>"
proof (induction xs arbitrary: s)
  case Nil
  then show ?case by (intro exI [of _ "ov_db s"]) simp
next
  case (Cons x xs)
  from Cons.prems show ?case by (auto simp: Let_def rbind_eq_Inr split: if_splits dest!: Cons.IH)
qed

lemma base_recvHello_simps:
  "base_recvHello C h a s = (ok, s') \<Longrightarrow>
    ov_Peers s' = ov_Peers s \<and> ov_FloodGate s' = ov_FloodGate s \<and> ov_TxSetFetcher s' = ov_TxSetFetcher s \<and>
    ov_QuorumSetFetcher s' = ov_QuorumSetFetcher s \<and> ov_db s' = ov_db s \<and> ov_herder s' = ov_herder s \<and> ov_sent s' = ov_sent s"
  by (auto simp: base_recvHello_def Let_def set_peer_def split: if_splits)

text \<open>What a call leaves alone that only talks to one peer, and what it may say.\<close>

definition only_greets :: "nat \<Rightarrow> 'h Overlay \<Rightarrow> 'h Overlay \<Rightarrow> bool" where
  "only_greets a s s' \<longleftrightarrow> ov_herder s' = ov_herder s \<and> ov_FloodGate s' = ov_FloodGate s \<and> ov_TxSetFetcher s' = ov_TxSetFetcher s \<and>
     ov_QuorumSetFetcher s' = ov_QuorumSetFetcher s \<and> ov_Peers s' = ov_Peers s \<and>
     (\<exists>log. ov_sent s' = ov_sent s @ log \<and> (\<forall>(p, x) \<in> set log. p = a \<and> msg_type x \<in> {HELLO, PEERS}))"

lemma only_greets_basics:
  "only_greets a s s" "only_greets a s (drop_peer a s)" "only_greets a s (s\<lparr>ov_db := db\<rparr>)"
  "only_greets a s (sendHello C a s)" "only_greets a s (sendMessage a (PeersMessage xs) s)"
  by (simp_all add: only_greets_def sendHello_def)

lemma only_greets_trans: "only_greets a s s1 \<Longrightarrow> only_greets a s1 s2 \<Longrightarrow> only_greets a s s2"
  by (fastforce simp: only_greets_def)

lemma only_greets_sendPeers: "sendPeers L now a s = Inr s' \<Longrightarrow> only_greets a s s'"
  using sendPeers_simps only_greets_basics(5) by blast

lemma only_greets_recvHello:
  assumes "recvHello L C now h a s = Inr (b, s')"
  shows "only_greets a s s'"
proof -
  obtain ok s1 where b: "base_recvHello C h a s = (ok, s1)" by fastforce
  have s1: "only_greets a s s1" using base_recvHello_simps [OF b] by (simp add: only_greets_def)
  have "only_greets a s1 s'"
    using assms b
    by (auto simp: recvHello_def Let_def rbind_eq_Inr split: if_splits
      dest!: only_greets_sendPeers intro: only_greets_basics only_greets_trans [OF only_greets_basics(3)]
        only_greets_trans [OF only_greets_basics(4)] only_greets_trans [OF only_greets_trans [OF only_greets_basics(3) only_greets_basics(4)]]
        only_greets_trans [OF _ only_greets_basics(2)])
  with s1 show ?thesis by (rule only_greets_trans)
qed

text \<open>
  C29: A node that has not said hello gets no service. Whatever message arrives from a peer before the handshake is
  done, the herder, the flooded messages and both fetchers stay as they are, the connections are kept, and what the peer is sent is
  a greeting or a list of addresses; any message but a hello or a list of addresses ends the connection.
\<close>

theorem no_service_before_hello:
  assumes "peer_state s a = CONNECTING \<or> peer_state s a = CONNECTED" "a < length (ov_heap s)" "recvMessage L C ops r base now a m s = Inr s'"
  shows "ov_herder s' = ov_herder s \<and> ov_FloodGate s' = ov_FloodGate s \<and> ov_TxSetFetcher s' = ov_TxSetFetcher s \<and>
    ov_QuorumSetFetcher s' = ov_QuorumSetFetcher s \<and> ov_Peers s' = ov_Peers s \<and>
    (\<exists>log. ov_sent s' = ov_sent s @ log \<and> (\<forall>(p, x) \<in> set log. p = a \<and> msg_type x \<in> {HELLO, PEERS})) \<and>
    (msg_type m \<noteq> HELLO \<and> msg_type m \<noteq> PEERS \<longrightarrow> peer_state s' a = CLOSING \<and> a \<in> set (ov_posted s'))"
proof -
  consider h where "m = HelloMessage h" | xs where "m = PeersMessage xs" | "msg_type m \<noteq> HELLO" "msg_type m \<noteq> PEERS"
    by (cases m) auto
  then show ?thesis
  proof cases
    case 1
    then have "only_greets a s s'" using assms(3) only_greets_recvHello by (auto simp: recvMessage_def rbind_eq_Inr)
    then show ?thesis by (simp add: only_greets_def 1)
  next
    case 2
    then have "recvPeers L now xs s = Inr s'" using assms(3) by (simp add: recvMessage_def)
    then obtain db where "s' = s\<lparr>ov_db := db\<rparr>" using recvPeers_simps by blast
    then show ?thesis using 2 by simp
  next
    case 3
    then have "s' = drop_peer a s" using assms(1,3) by (auto simp: recvMessage_def)
    then show ?thesis using assms(1,2) by (auto simp: drop_peer_def set_state_def set_peer_def)
  qed
qed

text \<open>A node with one peer that has connected and not said hello yet.\<close>

definition sample_overlay_lib :: OverlayLib where
  "sample_overlay_lib = \<lparr>ol_msgHash = (\<lambda>m. case m of EnvelopeMessage e \<Rightarrow> ucast (st_slotIndex (en_statement e)) | _ \<Rightarrow> 1),
     ol_qsetHash = (\<lambda>q. ucast (qs_threshold q)), ol_sort = (\<lambda>_ xs. xs), ol_envHash = (\<lambda>_. 0), ol_setHash = (\<lambda>h _. h),
     ol_resolve = (\<lambda>_ h. Some [(True, h)]), ol_from_string = (\<lambda>_. Some 0), ol_order = (\<lambda>rs. rs)\<rparr>"

definition sample_overlay_config :: OverlayConfig where
  "sample_overlay_config = \<lparr>oc_PROTOCOL_VERSION = 1, oc_VERSION_STR = ''v1'', oc_PEER_PORT = 39133, oc_PEER_PUBLIC_KEY = 5,
     oc_TARGET_PEER_CONNECTIONS = 2, oc_MAX_PEER_CONNECTIONS = 3, oc_KNOWN_PEERS = [''10.0.0.1''], oc_PREFERRED_PEERS = [''10.0.0.2:7000''],
     oc_quorumSet = \<lparr>qs_threshold = 1, qs_validators = [5]\<rparr>\<rparr>"

definition sample_herder_ops :: "nat HerderOps" where
  "sample_herder_ops = \<lparr>ho_recvTransaction = (\<lambda>_ h. Inr (True, h + 1)), ho_recvSCPEnvelope = (\<lambda>_ h. Inr (h + 1)),
     ho_getCurrentLedgerSeq = (\<lambda>_. 3)\<rparr>"

definition sample_overlay :: "nat Overlay" where
  "sample_overlay = handleKnock ''10.0.0.9'' (new_OverlayManagerImpl [] 0)"

lemma sample_overlay_unfold:
  "sample_overlay = (new_OverlayManagerImpl [] 0)\<lparr>ov_heap := [new_Peer INITIATOR ''10.0.0.9''], ov_Peers := [0]\<rparr>"
  by (simp add: sample_overlay_def handleKnock_def accept_peer_def addConnectedPeer_def new_OverlayManagerImpl_def)

theorem no_service_before_hello_witness:
  "recvMessage sample_overlay_lib sample_overlay_config sample_herder_ops 0 0 0 0 (GetTxSetMessage 7) sample_overlay = Inr (drop_peer 0 sample_overlay) \<and>
   ov_sent (drop_peer 0 sample_overlay) = [] \<and> peer_state (drop_peer 0 sample_overlay) 0 = CLOSING"
proof -
  have st: "peer_state sample_overlay 0 = CONNECTED" "0 < length (ov_heap sample_overlay)" "ov_sent sample_overlay = []"
    by (simp_all add: sample_overlay_unfold new_Peer_def new_OverlayManagerImpl_def)
  then have r: "recvMessage sample_overlay_lib sample_overlay_config sample_herder_ops 0 0 0 0 (GetTxSetMessage 7) sample_overlay = Inr (drop_peer 0 sample_overlay)"
    by (simp add: recvMessage_def)
  with no_service_before_hello [OF disjI2 [OF st(1)] st(2) r] st(3) show ?thesis by simp
qed

subsection \<open>An invariant of the overlay\<close>

text \<open>What may happen to a fetcher; \<open>P\<close> says which items belong to a hash.\<close>

inductive fetcher_use :: "(uint256 \<Rightarrow> 'a \<Rightarrow> bool) \<Rightarrow> 'a ItemFetcher \<Rightarrow> 'a ItemFetcher \<Rightarrow> bool" for P where
  get: "fetcher_use P f (snd (fetcher_get i f))"
| fetch: "fetch r peers i cb f = Inr (b, f') \<Longrightarrow> fetcher_use P f f'"
| get_or_fetch: "getOrFetch r peers i cb f = Inr (b, f') \<Longrightarrow> fetcher_use P f f'"
| doesnt_have: "fetcher_use P f (fetcher_doesntHave r peers i p f)"
| arrives: "P i x \<Longrightarrow> fetcher_use P f (fetcher_recv i x f)"
| put: "P i x \<Longrightarrow> fetcher_use P f (fetcher_cache i x f)"
| timer: "fetcher_use P f (timer_fired r peers b f)"
| released: "fetcher_use P f (release b f)"

definition cache_ok :: "(uint256 \<Rightarrow> 'a \<Rightarrow> bool) \<Rightarrow> 'a ItemFetcher \<Rightarrow> bool" where
  "cache_ok P f \<longleftrightarrow> (\<forall>(i, x) \<in> set (if_Cache f). P i x)"

lemma cache_get_set: "cache_get k c = Some (v, c') \<Longrightarrow> set c' \<subseteq> set c"
  by (auto simp: cache_get_def map_of_SomeD)

lemma cache_get_in: "e \<in> set c' \<Longrightarrow> cache_get k c = Some (v, c') \<Longrightarrow> e \<in> set c"
  using cache_get_set by fastforce

lemma cache_put_set: "set (cache_put n k v c) \<subseteq> insert (k, v) (set c)"
  by (auto simp: cache_put_def Let_def dest!: in_set_butlastD)

lemma if_Cache_simps [simp]:
  "if_Cache (set_tracker a t f) = if_Cache f" "if_Cache (snd (isNeeded i f)) = if_Cache f" "if_Cache (release b f) = if_Cache f"
  "if_Cache (tracker_recv a x t f) = if_Cache f"
  by (auto simp: set_tracker_def isNeeded_def release_def tracker_recv_def split: option.splits)

lemma isNeeded_Cache: "isNeeded i f = (n, f') \<Longrightarrow> if_Cache f' = if_Cache f"
  using if_Cache_simps(2) [of i f] by simp

lemma tryNextPeer_Cache [simp]: "if_Cache (tryNextPeer r peers a t f) = if_Cache f"
  by (auto simp: tryNextPeer_def Let_def isNeeded_Cache split: prod.splits option.splits)

lemma search_Cache [simp]:
  "if_Cache (timer_fired r peers b f) = if_Cache f" "if_Cache (fetcher_doesntHave r peers i p f) = if_Cache f"
  by (auto simp: timer_fired_def fetcher_doesntHave_def tracker_doesntHave_def isNeeded_Cache split: prod.splits option.splits)

lemma fetch_Cache: "fetch r peers i cb f = Inr (b, f') \<Longrightarrow> set (if_Cache f') \<subseteq> set (if_Cache f)"
proof -
  assume f: "fetch r peers i cb f = Inr (b, f')"
  obtain a t new f1 where o: "obtain_tracker i f = (a, t, new, f1)" using prod_cases4 by blast
  have c: "if_Cache f1 = if_Cache f" using o by (auto simp: obtain_tracker_def Let_def split: option.splits if_splits)
  show ?thesis
  proof (cases "cache_get i (if_Cache f)")
    case None
    then show ?thesis using f o c by (auto simp: fetch_def Let_def rbind_eq_Inr split: if_splits)
  next
    case (Some p)
    obtain x c' where p: "p = (x, c')" by fastforce
    then have "if_Cache f' = c'" using f o c Some by (auto simp: fetch_def Let_def rbind_eq_Inr)
    then show ?thesis using cache_get_set [of i "if_Cache f" x c'] Some p by simp
  qed
qed

lemma cache_ok_use: "fetcher_use P f f' \<Longrightarrow> cache_ok P f \<Longrightarrow> cache_ok P f'"
proof (induction rule: fetcher_use.induct)
  case (get f i)
  then show ?case by (auto simp: cache_ok_def fetcher_get_def dest: cache_get_in split: option.splits)
next
  case (fetch r peers i cb f b f')
  then show ?case using fetch_Cache by (fastforce simp: cache_ok_def)
next
  case (get_or_fetch r peers i cb f b f')
  then show ?case
    by (auto simp: cache_ok_def getOrFetch_def rbind_eq_Inr dest: cache_get_in fetch_Cache [THEN subsetD] split: option.splits)
next
  case (arrives i x f)
  then show ?case
    by (auto simp: cache_ok_def fetcher_recv_def isNeeded_Cache dest: cache_put_set [THEN subsetD] split: option.splits prod.splits)
next
  case (put i x f)
  then show ?case
    by (auto simp: cache_ok_def fetcher_cache_def fetcher_recv_def isNeeded_Cache dest: cache_put_set [THEN subsetD] split: option.splits prod.splits)
qed (simp_all add: cache_ok_def)

text \<open>The calls of the overlay, in any order.\<close>

abbreviation is_set_of :: "OverlayLib \<Rightarrow> uint256 \<Rightarrow> TxSetFrame \<Rightarrow> bool" where
  "is_set_of L i ts \<equiv> contents_hash L (ts_toXDR ts) = i"

abbreviation is_qset_of :: "OverlayLib \<Rightarrow> uint256 \<Rightarrow> SCPQuorumSet \<Rightarrow> bool" where
  "is_qset_of L i q \<equiv> ol_qsetHash L q = i"

inductive overlay_step :: "OverlayLib \<Rightarrow> OverlayConfig \<Rightarrow> 'h HerderOps \<Rightarrow> 'h Overlay \<Rightarrow> 'h Overlay \<Rightarrow> bool" for L C ops where
  knock: "overlay_step L C ops s (handleKnock ip s)"
| connects: "connectTo_text L now txt s = Inr s' \<Longrightarrow> overlay_step L C ops s s'"
| connected: "overlay_step L C ops s (connectHandler C error a s)"
| config: "storeConfigPeers L C now s = Inr s' \<Longrightarrow> overlay_step L C ops s s'"
| ticks: "tick L C now s = Inr s' \<Longrightarrow> overlay_step L C ops s s'"
| message: "a < length (ov_heap s) \<Longrightarrow> recvMessage L C ops r base now a m s = Inr s' \<Longrightarrow> overlay_step L C ops s s'"
| posted: "overlay_step L C ops s (run_posted s)"
| closed: "overlay_step L C ops s (overlay_ledgerClosed n s)"
| verdict: "overlay_step L C ops s (envelope_verdict L ops valid e s)"
| broadcasts: "overlay_step L C ops s (broadcastMessage L ops m force s)"
| header_read: "readHeaderHandler error h a s = (n, s') \<Longrightarrow> overlay_step L C ops s s'"
| body_read: "overlay_step L C ops s (readBodyHandler error a s)"
| written: "overlay_step L C ops s (writeHandler error a s)"
| timeout_read: "overlay_step L C ops s (timeoutRead a s)"
| timeout_write: "overlay_step L C ops s (timeoutWrite a s)"
| sets: "fetcher_use (is_set_of L) (ov_TxSetFetcher s) (f (ov_TxSetFetcher s)) \<Longrightarrow> overlay_step L C ops s (with_TxSetFetcher f s)"
| qsets: "fetcher_use (is_qset_of L) (ov_QuorumSetFetcher s) (g (ov_QuorumSetFetcher s)) \<Longrightarrow> overlay_step L C ops s (with_QuorumSetFetcher g s)"
| herder: "overlay_step L C ops s (s\<lparr>ov_herder := h\<rparr>)"

text \<open>
  The connections are different peers; a peer that has said hello is another node and can be reached at a port; every record in
  the table has a port and the rank one; what is in the caches has the hash it is filed under.
\<close>

definition db_ok :: "Peers \<Rightarrow> bool" where
  "db_ok db \<longleftrightarrow> (\<forall>((ip, port), r) \<in> set db. port \<noteq> 0 \<and> pw_rank r = 1)"

definition peers_ok :: "OverlayConfig \<Rightarrow> Peer list \<Rightarrow> nat list \<Rightarrow> bool" where
  "peers_ok C heap ps \<longleftrightarrow> distinct ps \<and> set ps \<subseteq> {..<length heap} \<and>
     (\<forall>p \<in> set heap. pp_State p = GOT_HELLO \<longrightarrow> pp_PeerID p \<noteq> oc_PEER_PUBLIC_KEY C \<and> pp_RemoteListeningPort p \<noteq> 0)"

definition overlay_ok :: "OverlayLib \<Rightarrow> OverlayConfig \<Rightarrow> 'h Overlay \<Rightarrow> bool" where
  "overlay_ok L C s \<longleftrightarrow> peers_ok C (ov_heap s) (ov_Peers s) \<and> db_ok (ov_db s) \<and>
     cache_ok (is_set_of L) (ov_TxSetFetcher s) \<and> cache_ok (is_qset_of L) (ov_QuorumSetFetcher s)"

definition order_ok :: "OverlayLib \<Rightarrow> bool" where
  "order_ok L \<longleftrightarrow> (\<forall>rs. mset (ol_order L rs) = mset rs)"

lemma set_AList_update: "set (AList.update k v al) \<subseteq> insert (k, v) (set al)"
  by (induction al) auto

lemma db_ok_update: "db_ok db \<Longrightarrow> snd k \<noteq> 0 \<Longrightarrow> pw_rank r = 1 \<Longrightarrow> db_ok (AList.update k r db)"
  using set_AList_update [of k r db] by (fastforce simp: db_ok_def)

lemma record_row_rank [simp]: "pw_rank (record_row pr) = pr_Rank pr"
  by (simp add: record_row_def)

lemma loadPeerRecord_ok: "db_ok db \<Longrightarrow> loadPeerRecord db ip port = Some pr \<Longrightarrow> pr_Rank pr = 1 \<and> pr_IP pr = ip \<and> pr_Port pr = port \<and> port \<noteq> 0"
  by (auto simp: db_ok_def loadPeerRecord_def row_record_def dest!: map_of_SomeD)

lemma loadPeerRecords_ok: "db_ok db \<Longrightarrow> order_ok L \<Longrightarrow> pr \<in> set (loadPeerRecords (ol_order L) n now db) \<Longrightarrow> pr_Rank pr = 1"
proof -
  have "set (ol_order L rs) = set rs" if "order_ok L" for rs using that by (metis order_ok_def set_mset_mset)
  then show "db_ok db \<Longrightarrow> order_ok L \<Longrightarrow> pr \<in> set (loadPeerRecords (ol_order L) n now db) \<Longrightarrow> pr_Rank pr = 1"
    by (auto simp: db_ok_def loadPeerRecords_def row_record_def dest!: in_set_takeD)
qed

lemma insertIfNew_ok: "insertIfNew pr db = Inr (b, db') \<Longrightarrow> db_ok db \<Longrightarrow> pr_Rank pr = 1 \<Longrightarrow> db_ok db'"
  by (auto simp: insertIfNew_def sql_insert_def peer_check_def rbind_eq_Inr split: if_splits intro: db_ok_update)

lemma storePeerRecord_ok: "storePeerRecord pr db = Inr db' \<Longrightarrow> db_ok db \<Longrightarrow> pr_Rank pr = 1 \<Longrightarrow> db_ok db'"
proof -
  assume st: "storePeerRecord pr db = Inr db'" and ok: "db_ok db" "pr_Rank pr = 1"
  then obtain b db1 where i: "insertIfNew pr db = Inr (b, db1)" by (auto simp: storePeerRecord_def rbind_eq_Inr)
  show ?thesis
  proof (cases b)
    case True
    then show ?thesis using st i insertIfNew_ok [OF i ok] by (simp add: storePeerRecord_def)
  next
    case False
    then obtain pr' where "db1 = db" "loadPeerRecord db (pr_IP pr) (pr_Port pr) = Some pr'"
      using i by (auto simp: insertIfNew_def isStored_def rbind_eq_Inr split: if_splits)
    with st i False ok loadPeerRecord_ok [OF ok(1)] show ?thesis
      by (auto simp: storePeerRecord_def sql_update_def split: option.splits if_splits intro!: db_ok_update)
  qed
qed

lemma parseIPPort_rank: "parseIPPort rsv now d txt = Some pr \<Longrightarrow> pr_Rank pr = 1"
  by (auto simp: parseIPPort_def fromIPPort_def Let_def split: option.splits prod.splits if_splits)

lemma peers_ok_new: "peers_ok C heap ps \<Longrightarrow> pp_State p \<noteq> GOT_HELLO \<Longrightarrow> peers_ok C (heap @ [p]) (ps @ [length heap])"
  by (auto simp: peers_ok_def)

lemma peers_ok_update:
  assumes "peers_ok C heap ps" "pp_State p = GOT_HELLO \<Longrightarrow> pp_PeerID p \<noteq> oc_PEER_PUBLIC_KEY C \<and> pp_RemoteListeningPort p \<noteq> 0"
  shows "peers_ok C (heap[a := p]) ps"
  using assms set_update_subset_insert [of heap a p] by (auto simp: peers_ok_def)

lemma peers_ok_remove: "peers_ok C heap ps \<Longrightarrow> peers_ok C heap (remove1 a ps)"
  by (auto simp: peers_ok_def dest: set_remove1_subset [THEN subsetD])

lemma overlay_ok_drop: "overlay_ok L C s \<Longrightarrow> overlay_ok L C (drop_peer a s)"
  by (auto simp: overlay_ok_def drop_peer_def intro: peers_ok_update)

lemma connectTo_ok:
  assumes "connectTo now pr s = Inr s'" "overlay_ok L C s" "pr_Rank pr = 1"
  shows "overlay_ok L C s'"
  using assms
  by (auto simp: connectTo_def overlay_ok_def initiate_def addConnectedPeer_def new_Peer_def backOff_def Let_def rbind_eq_Inr
    split: if_splits option.splits intro!: peers_ok_new elim!: storePeerRecord_ok)

lemma storePeerList_ok: "storePeerList L now rank xs s = Inr s' \<Longrightarrow> overlay_ok L C s \<Longrightarrow> overlay_ok L C s'"
proof (induction xs arbitrary: s)
  case (Cons x xs)
  show ?case
  proof (cases "parseIPPort (ol_resolve L) now DEFAULT_PEER_PORT x")
    case None
    then show ?thesis using Cons by simp
  next
    case (Some pr)
    then obtain b db where i: "insertIfNew pr (ov_db s) = Inr (b, db)" "storePeerList L now rank xs (s\<lparr>ov_db := db\<rparr>) = Inr s'"
      using Cons.prems(1) by (auto simp: rbind_eq_Inr)
    have "overlay_ok L C (s\<lparr>ov_db := db\<rparr>)"
      using insertIfNew_ok [OF i(1)] parseIPPort_rank [OF Some] Cons.prems(2) by (simp add: overlay_ok_def)
    with Cons.IH [OF i(2)] show ?thesis by blast
  qed
qed simp

lemma connect_each_ok: "connect_each C now prs s = Inr s' \<Longrightarrow> overlay_ok L C s \<Longrightarrow> (\<And>pr. pr \<in> set prs \<Longrightarrow> pr_Rank pr = 1) \<Longrightarrow> overlay_ok L C s'"
proof (induction prs arbitrary: s)
  case (Cons pr prs)
  then show ?case using connectTo_ok [of now pr s _ L C] by (auto simp: rbind_eq_Inr split: if_splits)
qed simp

lemma recvPeers_ok: "recvPeers L now xs s = Inr s' \<Longrightarrow> overlay_ok L C s \<Longrightarrow> overlay_ok L C s'"
proof (induction xs arbitrary: s)
  case (Cons x xs)
  let ?pr = "\<lparr>pr_IP = ip_text (pa_ip x), pr_Port = ucast (pa_port x), pr_NextAttempt = now, pr_NumFailures = pa_numFailures x, pr_Rank = 1\<rparr>"
  have "overlay_ok L C (s\<lparr>ov_db := db\<rparr>)" if "insertIfNew ?pr (ov_db s) = Inr (b, db)" for b db
    using insertIfNew_ok [OF that] Cons.prems(2) by (simp add: overlay_ok_def)
  then show ?case using Cons by (auto simp: Let_def rbind_eq_Inr split: if_splits)
qed simp

lemma port_nonzero: "0 < n \<Longrightarrow> n \<le> 65535 \<Longrightarrow> (word_of_int n :: 16 word) \<noteq> 0"
proof
  assume n: "0 < n" "n \<le> 65535" and z: "(word_of_int n :: 16 word) = 0"
  have "uint (word_of_int n :: 16 word) = n" using n by (simp add: unsigned_of_int take_bit_int_eq_self)
  with z n(1) show False by simp
qed

lemma base_recvHello_ok:
  assumes "base_recvHello C h a s = (ok, s')" "overlay_ok L C s" "a < length (ov_heap s)"
  shows "overlay_ok L C s'"
proof -
  let ?p = "(ov_heap s ! a)\<lparr>pp_RemoteProtocolVersion := word_of_int (he_protocolVersion h), pp_RemoteVersion := he_versionStr h\<rparr>"
  have upd: "overlay_ok L C (set_peer a q s)" if "pp_State q = GOT_HELLO \<Longrightarrow> pp_PeerID q \<noteq> oc_PEER_PUBLIC_KEY C \<and> pp_RemoteListeningPort q \<noteq> 0" for q
    using assms(2) peers_ok_update [OF _ that] by (simp add: overlay_ok_def set_peer_def)
  have "overlay_ok L C (set_peer a ?p s)" using assms(2,3) by (intro upd) (auto simp: overlay_ok_def peers_ok_def)
  then show ?thesis
    using assms(1,2) port_nonzero [of "he_listeningPort h"]
    by (auto simp: base_recvHello_def Let_def split: if_splits intro!: overlay_ok_drop upd)
qed

lemma overlay_ok_db: "overlay_ok L C s \<Longrightarrow> db_ok db \<Longrightarrow> overlay_ok L C (s\<lparr>ov_db := db\<rparr>)"
  by (simp add: overlay_ok_def)

lemma overlay_ok_sent [simp]: "overlay_ok L C (sendMessage a m s) \<longleftrightarrow> overlay_ok L C s"
  by (simp add: overlay_ok_def)

lemma sendPeers_ok: "sendPeers L now a s = Inr s' \<Longrightarrow> overlay_ok L C s \<Longrightarrow> overlay_ok L C s'"
  using sendPeers_simps by fastforce

lemma recvHello_ok:
  assumes "recvHello L C now h a s = Inr (b, s')" "overlay_ok L C s" "a < length (ov_heap s)"
  shows "overlay_ok L C s'"
proof -
  obtain ok s1 where b: "base_recvHello C h a s = (ok, s1)" by fastforce
  have s1: "overlay_ok L C s1" using base_recvHello_ok [OF b assms(2,3)] .
  then have db1: "db_ok (ov_db s1)" by (simp add: overlay_ok_def)
  let ?p = "ov_heap s1 ! a"
  define stored where "stored = loadPeerRecord (ov_db s1) (pp_IP ?p) (pp_RemoteListeningPort ?p)"
  define fresh where "fresh = fromIPPort (pp_IP ?p) (pp_RemoteListeningPort ?p) now"
  have rank: "pr_Rank fresh = 1" "stored = Some pr \<Longrightarrow> pr_Rank pr = 1" for pr
    using loadPeerRecord_ok [OF db1] by (auto simp: fresh_def fromIPPort_def stored_def)
  have st: "db_ok db" if "storePeerRecord pr (ov_db s1) = Inr db" "pr_Rank pr = 1" for pr db
    using storePeerRecord_ok [OF that(1) db1 that(2)] .
  note r = assms(1) [unfolded recvHello_def b Let_def prod.case, folded stored_def fresh_def]
  show ?thesis
  proof (cases "ok \<and> pp_Role ?p = INITIATOR")
    case True
    then obtain db accepted where db: "(if stored = None then storePeerRecord fresh (ov_db s1) else Inr (ov_db s1)) = Inr db"
        "isPeerAccepted C a (s1\<lparr>ov_db := db\<rparr>) = Inr accepted"
      and s': "if accepted then sendPeers L now a (sendHello C a (s1\<lparr>ov_db := db\<rparr>)) = Inr s'
        else \<exists>s3. sendPeers L now a (s1\<lparr>ov_db := db\<rparr>) = Inr s3 \<and> s' = drop_peer a s3"
      using r by (auto simp: rbind_eq_Inr split: if_splits)
    have "overlay_ok L C (s1\<lparr>ov_db := db\<rparr>)" using db(1) st rank(1) db1 s1 by (auto intro: overlay_ok_db split: if_splits)
    then show ?thesis using s' by (auto simp: sendHello_def split: if_splits dest: sendPeers_ok intro: overlay_ok_drop)
  next
    case False
    show ?thesis
    proof (cases ok)
      case True
      then obtain db where db: "storePeerRecord ((case stored of Some pr \<Rightarrow> pr | None \<Rightarrow> fresh)\<lparr>pr_NumFailures := 0, pr_NextAttempt := now\<rparr>) (ov_db s1) = Inr db"
          "s' = s1\<lparr>ov_db := db\<rparr>"
        using r False by (auto simp: rbind_eq_Inr)
      have "db_ok db" using st [OF db(1)] rank by (cases stored) auto
      with db(2) s1 show ?thesis by (simp add: overlay_ok_db)
    next
      case False
      with r s1 show ?thesis by simp
    qed
  qed
qed

lemma broadcastMessage_ok: "overlay_ok L C s \<Longrightarrow> overlay_ok L C (broadcastMessage L ops m force s)"
  by (simp add: broadcastMessage_def fold_sendMessage overlay_ok_def split: prod.splits)

lemma with_fetcher_ok:
  "fetcher_use (is_set_of L) (ov_TxSetFetcher s) (f (ov_TxSetFetcher s)) \<Longrightarrow> overlay_ok L C s \<Longrightarrow> overlay_ok L C (with_TxSetFetcher f s)"
  "fetcher_use (is_qset_of L) (ov_QuorumSetFetcher s) (g (ov_QuorumSetFetcher s)) \<Longrightarrow> overlay_ok L C s \<Longrightarrow> overlay_ok L C (with_QuorumSetFetcher g s)"
  using with_fetcher_simps(1) [of f s] with_fetcher_simps(2) [of g s] by (auto simp: overlay_ok_def intro: cache_ok_use)

lemma toXDR_frame [simp]: "ts_toXDR (TxSetFrame_of base x) = x"
  by (simp add: ts_toXDR_def TxSetFrame_of_def new_TxSetFrame_def)

lemma get_ok: "overlay_ok L C s \<Longrightarrow> fetcher_get h (ov_TxSetFetcher s) = (y, f) \<Longrightarrow> overlay_ok L C (s\<lparr>ov_TxSetFetcher := f\<rparr>)"
  "overlay_ok L C s \<Longrightarrow> fetcher_get h (ov_QuorumSetFetcher s) = (z, g) \<Longrightarrow> overlay_ok L C (s\<lparr>ov_QuorumSetFetcher := g\<rparr>)"
  using cache_ok_use [OF fetcher_use.get [of _ "ov_TxSetFetcher s" h]] cache_ok_use [OF fetcher_use.get [of _ "ov_QuorumSetFetcher s" h]]
  by (fastforce simp: overlay_ok_def)+

lemma recvFloodedMsg_ok: "overlay_ok L C s \<Longrightarrow> overlay_ok L C (recvFloodedMsg L ops m a s)"
  by (simp add: recvFloodedMsg_def overlay_ok_def)

lemma overlay_ok_herder [simp]: "overlay_ok L C (s\<lparr>ov_herder := h\<rparr>) \<longleftrightarrow> overlay_ok L C s"
  by (simp add: overlay_ok_def)

lemma recvMessage_ok:
  assumes "recvMessage L C ops r base now a m s = Inr s'" "overlay_ok L C s" "a < length (ov_heap s)"
  shows "overlay_ok L C s'"
proof (cases "peer_state s a \<in> {CONNECTING, CONNECTED} \<and> msg_type m \<noteq> HELLO \<and> msg_type m \<noteq> PEERS")
  case True
  then have "s' = drop_peer a s" using assms(1) by (simp add: recvMessage_def)
  then show ?thesis using assms(2) by (simp add: overlay_ok_drop)
next
  case False
  note r = assms(1) [unfolded recvMessage_def if_not_P [OF False]]
  show ?thesis
  proof (cases m)
    case (HelloMessage h)
    then show ?thesis using r recvHello_ok [OF _ assms(2,3)] by (auto simp: rbind_eq_Inr)
  next
    case (DontHaveMessage t h)
    then show ?thesis using r assms(2)
      by (auto simp: recvDontHave_def intro!: with_fetcher_ok fetcher_use.doesnt_have split: MessageType.splits)
  next
    case (PeersMessage xs)
    then show ?thesis using r recvPeers_ok [OF _ assms(2)] by simp
  next
    case (TxSetMessage x)
    then show ?thesis using r assms(2) by (auto simp: recvTxSet_def intro!: with_fetcher_ok fetcher_use.arrives)
  next
    case (QuorumSetMessage q)
    then show ?thesis using r assms(2) by (auto simp: recvSCPQuorumSet_def intro!: with_fetcher_ok fetcher_use.arrives)
  next
    case (TransactionMessage tx)
    then show ?thesis using r assms(2)
      by (auto simp: peer_recvTransaction_def rbind_eq_Inr Let_def intro!: broadcastMessage_ok recvFloodedMsg_ok)
  next
    case (EnvelopeMessage e)
    then show ?thesis using r assms(2) by (auto simp: recvSCPMessage_def rbind_eq_Inr Let_def intro!: recvFloodedMsg_ok)
  next
    case (GetTxSetMessage h)
    then show ?thesis using r assms(2) by (auto simp: recvGetTxSet_def sendDontHave_def split: prod.splits option.splits dest: get_ok)
  next
    case (GetQuorumSetMessage h)
    then show ?thesis using r assms(2)
      by (auto simp: recvGetSCPQuorumSet_def sendDontHave_def sendSCPQuorumSet_def split: prod.splits option.splits if_splits dest: get_ok)
  next
    case GetPeersMessage
    then show ?thesis using r sendPeers_ok [OF _ assms(2)] by simp
  next
    case (ErrorMessage n x)
    then show ?thesis using r assms(2) by simp
  qed
qed

lemma overlay_step_ok:
  assumes "order_ok L"
  shows "overlay_step L C ops s s' \<Longrightarrow> overlay_ok L C s \<Longrightarrow> overlay_ok L C s'"
proof (induction rule: overlay_step.induct)
  case (knock s ip)
  then show ?case by (simp add: handleKnock_def accept_peer_def addConnectedPeer_def overlay_ok_def new_Peer_def peers_ok_new)
next
  case (connects now x s s')
  then show ?case by (auto simp: connectTo_text_def split: option.splits dest: connectTo_ok parseIPPort_rank)
next
  case (connected s e a)
  then show ?case by (auto simp: connectHandler_def sendHello_def overlay_ok_drop) (auto simp: overlay_ok_def intro: peers_ok_update)
next
  case (config now s s')
  then show ?case by (auto simp: storeConfigPeers_def rbind_eq_Inr dest: storePeerList_ok)
next
  case (ticks now s s')
  then have "db_ok (ov_db s)" by (simp add: overlay_ok_def)
  with ticks show ?case
    using connect_each_ok [OF _ ticks.prems loadPeerRecords_ok [OF _ assms]]
    by (auto simp: tick_def connectToMorePeers_def split: if_splits)
next
  case (message a s r base now m s')
  then show ?case by (blast intro: recvMessage_ok)
next
  case (posted s)
  then show ?case by (auto simp: run_posted_def dropPeer_def overlay_ok_def peers_ok_remove split: list.splits)
next
  case (header_read e h a s n s')
  then show ?case by (auto simp: readHeaderHandler_def Let_def overlay_ok_drop split: if_splits)
next
  case (sets s f)
  then show ?case by (rule with_fetcher_ok)
next
  case (qsets s g)
  then show ?case by (rule with_fetcher_ok)
next
  case (closed s n)
  then show ?case by (simp add: overlay_ledgerClosed_def overlay_ok_def)
qed (simp_all add: envelope_verdict_def broadcastMessage_ok readBodyHandler_def writeHandler_def timeoutRead_def timeoutWrite_def overlay_ok_drop)

lemma overlay_reachable_ok:
  assumes "(overlay_step L C ops)\<^sup>*\<^sup>* (new_OverlayManagerImpl db h) s" "order_ok L" "db_ok db"
  shows "overlay_ok L C s"
proof -
  have "overlay_ok L C (new_OverlayManagerImpl db h)"
    using assms(3) by (simp add: overlay_ok_def new_OverlayManagerImpl_def peers_ok_def cache_ok_def new_ItemFetcher_def)
  with assms(1) show ?thesis by (induction rule: rtranclp_induct) (auto intro: overlay_step_ok [OF assms(2)])
qed

text \<open>
  C26: In every state the overlay reaches from a table without foreign ranks, the connections are different peers; a peer that
  has said hello is not the node itself and has a port to connect to; every record of the table has a port and the rank one; and
  the transaction sets and quorum sets in the caches have the hash they are filed under, whatever the peers have sent.
\<close>

theorem overlay_invariant:
  assumes "(overlay_step L C ops)\<^sup>*\<^sup>* (new_OverlayManagerImpl db h) s" "order_ok L" "db_ok db"
  shows "distinct (ov_Peers s) \<and> set (ov_Peers s) \<subseteq> {..<length (ov_heap s)} \<and>
    (\<forall>p \<in> set (ov_heap s). pp_State p = GOT_HELLO \<longrightarrow> pp_PeerID p \<noteq> oc_PEER_PUBLIC_KEY C \<and> pp_RemoteListeningPort p \<noteq> 0) \<and>
    (\<forall>((ip, port), r) \<in> set (ov_db s). port \<noteq> 0 \<and> pw_rank r = 1) \<and>
    (\<forall>(i, ts) \<in> set (if_Cache (ov_TxSetFetcher s)). contents_hash L (ts_toXDR ts) = i) \<and>
    (\<forall>(i, q) \<in> set (if_Cache (ov_QuorumSetFetcher s)). ol_qsetHash L q = i)"
  using overlay_reachable_ok [OF assms] by (simp add: overlay_ok_def peers_ok_def db_ok_def cache_ok_def)

lemma sample_overlay_reachable:
  "(overlay_step sample_overlay_lib sample_overlay_config sample_herder_ops)\<^sup>*\<^sup>* (new_OverlayManagerImpl [] 0) sample_overlay"
  unfolding sample_overlay_def by (rule r_into_rtranclp, rule overlay_step.knock)

lemma sample_lib_ok: "order_ok sample_overlay_lib" "db_ok []"
  by (simp_all add: order_ok_def sample_overlay_lib_def db_ok_def)

theorem overlay_invariant_witness: "distinct (ov_Peers sample_overlay) \<and> ov_Peers sample_overlay = [0]"
  using overlay_invariant [OF sample_overlay_reachable sample_lib_ok] by (simp add: sample_overlay_unfold)

text \<open>
  The preferred peers of the configuration are never preferred: no record gets a rank above nine, so that a node with as many
  connections as it may have refuses them like any other.
\<close>

theorem no_peer_is_preferred:
  assumes "(overlay_step L C ops)\<^sup>*\<^sup>* (new_OverlayManagerImpl db h) s" "order_ok L" "db_ok db" "isPeerPreferred a s = Inr b"
  shows "\<not> b"
  using assms(4) loadPeerRecord_ok overlay_reachable_ok [OF assms(1-3)]
  by (auto simp: isPeerPreferred_def overlay_ok_def split: option.splits)

subsection \<open>Items are found where they are\<close>

text \<open>
  C28: A transaction set finds its way from a node that has it to one that waits for it. The request for a hash is answered with a set that
  has this hash, and when the answer arrives, every listener for the hash is called with the same set.
\<close>

theorem requested_set_arrives:
  assumes "(overlay_step L C ops)\<^sup>*\<^sup>* (new_OverlayManagerImpl db h0) sA" "order_ok L" "db_ok db"
    and "map_of (if_Cache (ov_TxSetFetcher sA)) h \<noteq> None" "waits t h cb (ov_TxSetFetcher sB)"
  shows "\<exists>x. ov_sent (recvGetTxSet h a sA) = ov_sent sA @ [(a, TxSetMessage x)] \<and> contents_hash L x = h \<and>
    (cb, TxSetFrame_of base x) \<in> set (if_called (ov_TxSetFetcher (recvTxSet L base x sB)))"
proof -
  obtain ts c where g: "cache_get h (if_Cache (ov_TxSetFetcher sA)) = Some (ts, c)" "(h, ts) \<in> set (if_Cache (ov_TxSetFetcher sA))"
    using assms(4) by (auto simp: cache_get_def dest: map_of_SomeD)
  then have sent: "ov_sent (recvGetTxSet h a sA) = ov_sent sA @ [(a, TxSetMessage (ts_toXDR ts))]"
    by (simp add: recvGetTxSet_def fetcher_get_def)
  have hash: "contents_hash L (ts_toXDR ts) = h"
    using overlay_reachable_ok [OF assms(1-3)] g(2) by (auto simp: overlay_ok_def cache_ok_def)
  obtain log where "recvTxSet L base (ts_toXDR ts) sB =
      sB\<lparr>ov_TxSetFetcher := fetcher_recv h (TxSetFrame_of base (ts_toXDR ts)) (ov_TxSetFetcher sB), ov_sent := log\<rparr>"
    using with_fetcher_simps(1) hash unfolding recvTxSet_def by metis
  then have "(cb, TxSetFrame_of base (ts_toXDR ts)) \<in> set (if_called (ov_TxSetFetcher (recvTxSet L base (ts_toXDR ts) sB)))"
    using waits_recv [OF assms(5)] by simp
  with sent hash show ?thesis by blast
qed

definition sample_tx_set :: TransactionSet where
  "sample_tx_set = \<lparr>set_previousLedgerHash = 9, set_txs = []\<rparr>"

theorem requested_set_arrives_witness:
  "\<exists>(sA :: nat Overlay) (sB :: nat Overlay) x. ov_sent (recvGetTxSet 9 0 sA) = ov_sent sA @ [(0, TxSetMessage x)] \<and>
     (3, TxSetFrame_of 7 x) \<in> set (if_called (ov_TxSetFetcher (recvTxSet sample_overlay_lib 7 x sB)))"
proof -
  let ?ts = "TxSetFrame_of 0 sample_tx_set" and ?s0 = "new_OverlayManagerImpl [] 0 :: nat Overlay"
  let ?f0 = "new_ItemFetcher 400 :: TxSetFrame ItemFetcher"
  let ?sA = "with_TxSetFetcher (fetcher_cache 9 ?ts) ?s0"
  have "is_set_of sample_overlay_lib 9 ?ts"
    by (simp add: sample_tx_set_def contents_hash_def TxSetFrame_of_def new_TxSetFrame_def getContentsHash_def sortForHash_def sample_overlay_lib_def ts_toXDR_def Let_def)
  then have "overlay_step sample_overlay_lib sample_overlay_config sample_herder_ops ?s0 ?sA"
    by (intro overlay_step.sets fetcher_use.put)
  then have reach: "(overlay_step sample_overlay_lib sample_overlay_config sample_herder_ops)\<^sup>*\<^sup>* ?s0 ?sA" by (rule r_into_rtranclp)
  have "map_of (if_Cache (fetcher_cache 9 ?ts ?f0)) 9 \<noteq> None"
    by (simp add: fetcher_cache_def fetcher_recv_def isNeeded_def new_ItemFetcher_def cache_put_def)
  moreover have "ov_TxSetFetcher ?sA = fetcher_cache 9 ?ts ?f0"
    using with_fetcher_simps(1) [of "fetcher_cache 9 ?ts" ?s0] by (auto simp: new_OverlayManagerImpl_def)
  ultimately have cached: "map_of (if_Cache (ov_TxSetFetcher ?sA)) 9 \<noteq> None" by simp
  have "\<exists>a f. fetch 0 [] 9 3 ?f0 = Inr (a, f)"
    by (simp add: fetch_def obtain_tracker_def listen_def isItemFound_def new_Tracker_def new_ItemFetcher_def Let_def)
  then obtain a f where "fetch 0 [] 9 3 ?f0 = Inr (a, f)" by blast
  then have "waits a 9 3 f" by (rule fetch_waits(1)) (simp_all add: fetcher_ok_def new_ItemFetcher_def)
  then have "waits a 9 3 (ov_TxSetFetcher (?s0\<lparr>ov_TxSetFetcher := f\<rparr>))" by simp
  from requested_set_arrives [OF reach sample_lib_ok cached this, of 0 7] obtain x where x:
    "ov_sent (recvGetTxSet 9 0 ?sA) = ov_sent ?sA @ [(0, TxSetMessage x)]"
    "(3, TxSetFrame_of 7 x) \<in> set (if_called (ov_TxSetFetcher (recvTxSet sample_overlay_lib 7 x (?s0\<lparr>ov_TxSetFetcher := f\<rparr>))))" by blast
  show ?thesis by (rule exI [of _ ?sA], rule exI [of _ "?s0\<lparr>ov_TxSetFetcher := f\<rparr>"], rule exI [of _ x], rule conjI [OF x])
qed

subsection \<open>Making connections\<close>

abbreviation peer_addr :: "Peer \<Rightarrow> string \<times> 16 word" where
  "peer_addr p \<equiv> (pp_IP p, pp_RemoteListeningPort p)"

abbreviation pr_addr :: "PeerRecord \<Rightarrow> string \<times> 16 word" where
  "pr_addr pr \<equiv> (pr_IP pr, pr_Port pr)"

definition connected_addrs :: "'h Overlay \<Rightarrow> (string \<times> 16 word) set" where
  "connected_addrs s = (\<lambda>a. peer_addr (ov_heap s ! a)) ` set (ov_Peers s)"

lemma getConnectedPeer_None: "getConnectedPeer ip port s = None \<longleftrightarrow> (ip, port) \<notin> connected_addrs s"
  by (auto simp: getConnectedPeer_def find_None_iff connected_addrs_def)

lemma storePeerRecord_load:
  assumes "storePeerRecord pr db = Inr db'"
  shows "map_of db' k = (if k = pr_addr pr then Some (record_row pr) else map_of db k)"
proof -
  have "db' = AList.update (pr_addr pr) (record_row pr) db"
    using assms by (auto simp: storePeerRecord_def insertIfNew_def isStored_def loadPeerRecord_def sql_insert_def sql_update_def rbind_eq_Inr
      split: if_splits option.splits)
  then show ?thesis by (simp add: update_conv')
qed

text \<open>The connection that is made to the node of a record, and the records a loop makes connections to.\<close>

definition outgoing :: "PeerRecord \<Rightarrow> Peer" where
  "outgoing pr = (new_Peer ACCEPTOR (pr_IP pr))\<lparr>pp_RemoteListeningPort := pr_Port pr\<rparr>"

definition unconnected :: "'h Overlay \<Rightarrow> PeerRecord list \<Rightarrow> PeerRecord list" where
  "unconnected s prs = filter (\<lambda>pr. pr_IP pr \<noteq> [] \<and> pr_addr pr \<notin> connected_addrs s) prs"

definition connects :: "time_point \<Rightarrow> PeerRecord list \<Rightarrow> 'h Overlay \<Rightarrow> 'h Overlay \<Rightarrow> bool" where
  "connects now new s s' \<longleftrightarrow> ov_heap s' = ov_heap s @ map outgoing new \<and>
     ov_Peers s' = ov_Peers s @ [length (ov_heap s)..<length (ov_heap s')] \<and>
     (\<forall>pr \<in> set new. map_of (ov_db s') (pr_addr pr) = Some (record_row (backOff now pr))) \<and>
     (\<forall>k. k \<notin> pr_addr ` set new \<longrightarrow> map_of (ov_db s') k = map_of (ov_db s) k)"

lemma connectTo_new:
  assumes "connectTo now pr s = Inr s1" "pr_Port pr \<noteq> 0" "pr_IP pr \<noteq> []" "pr_addr pr \<notin> connected_addrs s"
    and "set (ov_Peers s) \<subseteq> {..<length (ov_heap s)}"
  shows "connects now [pr] s s1" "connected_addrs s1 = insert (pr_addr pr) (connected_addrs s)"
    and "set (ov_Peers s1) \<subseteq> {..<length (ov_heap s1)}" "length (ov_Peers s1) = Suc (length (ov_Peers s))"
proof -
  let ?n = "length (ov_heap s)"
  obtain db where db: "storePeerRecord (backOff now pr) (ov_db s) = Inr db"
    and s1: "s1 = s\<lparr>ov_db := db, ov_heap := ov_heap s @ [outgoing pr], ov_Peers := ov_Peers s @ [?n]\<rparr>"
    using assms(1-4) getConnectedPeer_None [of "pr_IP pr" "pr_Port pr" s]
    by (auto simp: connectTo_def initiate_def addConnectedPeer_def outgoing_def rbind_eq_Inr Let_def)
  have p: "peer_addr (outgoing pr) = pr_addr pr" by (simp add: outgoing_def new_Peer_def)
  show "connects now [pr] s s1"
    using storePeerRecord_load [OF db] by (simp add: connects_def s1 backOff_def Let_def)
  have "(ov_heap s @ [outgoing pr]) ! a = ov_heap s ! a" if "a \<in> set (ov_Peers s)" for a using that assms(5) by (auto simp: nth_append)
  then show "connected_addrs s1 = insert (pr_addr pr) (connected_addrs s)" using p by (auto simp: connected_addrs_def s1)
  show "set (ov_Peers s1) \<subseteq> {..<length (ov_heap s1)}" "length (ov_Peers s1) = Suc (length (ov_Peers s))"
    using assms(5) by (auto simp: s1)
qed

lemma connects_step:
  assumes "connects now [pr] s s1" "connects now new s1 s'" "pr_addr pr \<notin> pr_addr ` set new"
  shows "connects now (pr # new) s s'"
proof -
  have "[length (ov_heap s)..<length (ov_heap s1)] @ [length (ov_heap s1)..<length (ov_heap s')] = [length (ov_heap s)..<length (ov_heap s')]"
    using assms(1,2) upt_add_eq_append [of "length (ov_heap s)" "length (ov_heap s1)" "length new"] by (simp add: connects_def)
  then have "ov_Peers s' = ov_Peers s @ [length (ov_heap s)..<length (ov_heap s')]"
    using assms(1,2) unfolding connects_def by (metis append.assoc)
  moreover have "ov_heap s' = ov_heap s @ map outgoing (pr # new)" using assms(1,2) by (simp add: connects_def)
  moreover have "map_of (ov_db s') (pr_addr pr) = Some (record_row (backOff now pr))" using assms by (simp add: connects_def)
  moreover have "map_of (ov_db s') k = map_of (ov_db s) k" if "k \<notin> pr_addr ` set (pr # new)" for k
    using assms(1,2) that by (cases k) (simp add: connects_def)
  ultimately show ?thesis using assms(2) by (simp add: connects_def)
qed

lemma connect_each_new:
  "connect_each C now prs s = Inr s' \<Longrightarrow> set (ov_Peers s) \<subseteq> {..<length (ov_heap s)} \<Longrightarrow>
   length (ov_Peers s) + length prs \<le> oc_TARGET_PEER_CONNECTIONS C \<Longrightarrow> distinct (map pr_addr prs) \<Longrightarrow>
   \<forall>pr \<in> set prs. pr_Port pr \<noteq> 0 \<Longrightarrow> connects now (unconnected s prs) s s'"
proof (induction prs arbitrary: s)
  case Nil
  then show ?case by (simp add: connects_def unconnected_def)
next
  case (Cons pr prs)
  have room: "\<not> length (ov_Peers s) \<ge> oc_TARGET_PEER_CONNECTIONS C" using Cons.prems(3) by simp
  show ?case
  proof (cases "pr_IP pr \<noteq> [] \<and> pr_addr pr \<notin> connected_addrs s")
    case False
    then have "connect_each C now prs s = Inr s'"
      using Cons.prems(1) room getConnectedPeer_None [of "pr_IP pr" "pr_Port pr" s] by (auto simp: connectTo_def split: if_splits)
    then show ?thesis using Cons.IH [of s] Cons.prems(2-5) False by (auto simp: unconnected_def)
  next
    case True
    then obtain s1 where s1: "connectTo now pr s = Inr s1" "connect_each C now prs s1 = Inr s'"
      using Cons.prems(1) room getConnectedPeer_None [of "pr_IP pr" "pr_Port pr" s] by (auto simp: rbind_eq_Inr)
    note c = connectTo_new [OF s1(1) _ _ _ Cons.prems(2)]
    have u: "unconnected s1 prs = unconnected s prs"
      unfolding unconnected_def using c(2) Cons.prems(4,5) True by (intro filter_cong) (auto simp: image_iff)
    have "connects now (unconnected s prs) s1 s'"
      using Cons.IH [OF s1(2)] c(3,4) Cons.prems(3-5) True unfolding u by simp
    from connects_step [OF _ this, of pr] c(1) Cons.prems(4,5) True show ?thesis by (auto simp: unconnected_def)
  qed
qed

lemma loadPeerRecords_addrs:
  assumes "order_ok L" "distinct (map fst db)"
  shows "distinct (map pr_addr (loadPeerRecords (ol_order L) n now db))" "length (loadPeerRecords (ol_order L) n now db) \<le> unat n"
    and "pr \<in> set (loadPeerRecords (ol_order L) n now db) \<Longrightarrow> \<exists>r. (pr_addr pr, r) \<in> set db \<and> pw_nextAttempt r \<le> pointToTm now"
proof -
  let ?due = "filter (\<lambda>(_, r). pw_nextAttempt r \<le> pointToTm now) db"
  have m: "mset (ol_order L ?due) = mset ?due" using assms(1) by (simp only: order_ok_def)
  have "distinct (map fst ?due)" using assms(2) by (rule distinct_map_filter)
  then have "distinct (map fst (ol_order L ?due))" using m by (metis mset_map mset_eq_imp_distinct_iff)
  then have "distinct (map fst (take (unat n) (ol_order L ?due)))" by (metis distinct_take take_map)
  moreover have "pr_addr (row_record kr) = fst kr" for kr by (cases kr) (auto simp: row_record_def)
  ultimately show "distinct (map pr_addr (loadPeerRecords (ol_order L) n now db))" by (simp add: loadPeerRecords_def comp_def)
  have "set (ol_order L ?due) = set ?due" using m by (metis set_mset_mset)
  then show "pr \<in> set (loadPeerRecords (ol_order L) n now db) \<Longrightarrow> \<exists>r. (pr_addr pr, r) \<in> set db \<and> pw_nextAttempt r \<le> pointToTm now"
    by (force simp: loadPeerRecords_def row_record_def dest!: in_set_takeD)
qed (simp add: loadPeerRecords_def)

text \<open>
  C31: What a tick connects to. Where connections are missing, as many records as are missing are loaded, of those whose time has come; a
  connection is made to the address of each of them to which there is none, and to no other, in the order of the records. Each of these
  records counts one more failure and gets the next time to try that belongs to this number, and no other changes; the connections that were there are kept, and together they are never more
  than the target. Where no connection is missing, nothing changes. (The table has one record for an address, and none with an empty
  address is used.)
\<close>

theorem tick_connects_due_peers:
  assumes "(overlay_step L C ops)\<^sup>*\<^sup>* (new_OverlayManagerImpl db h) s" "order_ok L" "db_ok db" "distinct (map fst (ov_db s))"
    and "tick L C now s = Inr s'"
    and "missing = oc_TARGET_PEER_CONNECTIONS C - length (ov_Peers s)"
    and "new = filter (\<lambda>pr. pr_IP pr \<noteq> [] \<and> pr_addr pr \<notin> connected_addrs s) (loadPeerRecords (ol_order L) (of_nat missing) now (ov_db s))"
  shows "if missing = 0 then s' = s
    else ov_heap s' = ov_heap s @ map outgoing new \<and> ov_Peers s' = ov_Peers s @ [length (ov_heap s)..<length (ov_heap s')] \<and>
      (\<forall>pr \<in> set new. pr_NextAttempt pr \<le> tmToPoint (pointToTm now) \<and> map_of (ov_db s') (pr_addr pr) = Some (record_row (backOff now pr))) \<and>
      (\<forall>k. k \<notin> pr_addr ` set new \<longrightarrow> map_of (ov_db s') k = map_of (ov_db s) k) \<and>
      length (ov_Peers s') \<le> oc_TARGET_PEER_CONNECTIONS C"
proof (cases "missing = 0")
  case True
  then show ?thesis using assms(5,6) by (simp add: tick_def)
next
  case False
  let ?prs = "loadPeerRecords (ol_order L) (of_nat missing) now (ov_db s)"
  have ok: "overlay_ok L C s" using overlay_reachable_ok [OF assms(1-3)] .
  have c: "connect_each C now ?prs s = Inr s'" using assms(5,6) False by (simp add: tick_def connectToMorePeers_def)
  have len: "length ?prs \<le> missing"
    using loadPeerRecords_addrs(2) [OF assms(2,4), of "of_nat missing" now] by (simp add: unsigned_of_nat take_bit_nat_eq_self_iff) (metis le_trans take_bit_nat_less_eq_self)
  have port: "\<forall>pr \<in> set ?prs. pr_Port pr \<noteq> 0"
    using loadPeerRecords_addrs(3) [OF assms(2,4)] ok by (fastforce simp: overlay_ok_def db_ok_def)
  have p: "set (ov_Peers s) \<subseteq> {..<length (ov_heap s)}" using ok by (simp add: overlay_ok_def peers_ok_def)
  have "connects now new s s'"
    unfolding assms(7) unconnected_def [symmetric]
    using len assms(6) False by (intro connect_each_new [OF c p _ loadPeerRecords_addrs(1) [OF assms(2,4)] port]) simp
  moreover have "length new \<le> missing" using len unfolding assms(7) by (meson length_filter_le le_trans)
  moreover have "pr_NextAttempt pr \<le> tmToPoint (pointToTm now)" if "pr \<in> set new" for pr
  proof -
    have "set (ol_order L rs) = set rs" for rs using assms(2) by (metis order_ok_def set_mset_mset)
    with that show ?thesis by (auto simp: assms(7) loadPeerRecords_def row_record_def tmToPoint_def dest!: in_set_takeD)
  qed
  ultimately show ?thesis using False assms(6) by (simp add: connects_def)
qed

theorem tick_connects_due_peers_witness:
  "\<exists>s'. tick sample_overlay_lib sample_overlay_config 0
     (new_OverlayManagerImpl [((''10.0.0.1'', 7000), \<lparr>pw_nextAttempt = 0, pw_numFailures = 2, pw_rank = 1\<rparr>)] (0 :: nat)) = Inr s' \<and>
     length (ov_heap s') = 1 \<and> ov_Peers s' = [0] \<and> map_option pw_numFailures (map_of (ov_db s') (''10.0.0.1'', 7000)) = Some 3"
proof -
  let ?row = "\<lparr>pw_nextAttempt = 0, pw_numFailures = 2, pw_rank = 1\<rparr>"
  let ?s = "new_OverlayManagerImpl [((''10.0.0.1'', 7000), ?row)] (0 :: nat)"
  let ?pr = "row_record ((''10.0.0.1'', 7000), ?row)"
  have load: "loadPeerRecords (ol_order sample_overlay_lib) 2 0 [((''10.0.0.1'', 7000), ?row)] = [?pr]"
    by (simp add: loadPeerRecords_def sample_overlay_lib_def pointToTm_def)
  obtain db where db: "storePeerRecord (backOff 0 ?pr) [((''10.0.0.1'', 7000), ?row)] = Inr db"
    by (simp add: storePeerRecord_def insertIfNew_def isStored_def loadPeerRecord_def backOff_def row_record_def sql_update_def Let_def
        peer_check_def record_row_def)
  have s: "ov_Peers ?s = []" "ov_db ?s = [((''10.0.0.1'', 7000), ?row)]" "ov_heap ?s = []" "connected_addrs ?s = {}"
    by (simp_all add: new_OverlayManagerImpl_def connected_addrs_def)
  have pr: "pr_IP ?pr = ''10.0.0.1''" "pr_Port ?pr = 7000" by (simp_all add: row_record_def)
  let ?s1 = "addConnectedPeer (length (ov_heap ?s)) (snd (initiate ''10.0.0.1'' 7000 (?s\<lparr>ov_db := db\<rparr>)))"
  have none: "getConnectedPeer ''10.0.0.1'' 7000 ?s = None" by (simp add: getConnectedPeer_def s(1))
  have c: "connectTo 0 ?pr ?s = Inr ?s1" unfolding connectTo_def pr none s(2) db by (simp add: initiate_def)
  have C: "oc_TARGET_PEER_CONNECTIONS sample_overlay_config = 2" by (simp add: sample_overlay_config_def)
  have "connect_each sample_overlay_config 0 [?pr] ?s = Inr ?s1"
    by (simp only: connect_each.simps pr none c s(1) C list.size rbind_simps simp_thms if_False) simp
  then have t: "tick sample_overlay_lib sample_overlay_config 0 ?s = Inr ?s1"
    unfolding tick_def connectToMorePeers_def s C using load by simp
  have "db_ok [((''10.0.0.1'', 7000), ?row)]" "distinct (map fst (ov_db ?s))" by (simp_all add: db_ok_def s(2))
  note th = tick_connects_due_peers [where ops = sample_herder_ops, OF rtranclp.rtrancl_refl sample_lib_ok(1) this t refl refl]
  have "ov_heap ?s1 = [outgoing ?pr]" "ov_Peers ?s1 = [0]" "map_of (ov_db ?s1) (''10.0.0.1'', 7000) = Some (record_row (backOff 0 ?pr))"
    using th unfolding s C by (simp_all add: load pr)
  then show ?thesis using t by (intro exI [of _ ?s1]) (simp add: record_row_def backOff_def row_record_def Let_def)
qed

subsection \<open>Passing transactions on\<close>

text \<open>What the overlay relies on: a herder that refuses a transaction does not change.\<close>

locale herder_service =
  fixes ops :: "'h HerderOps"
  assumes refused: "ho_recvTransaction ops tx h = Inr (False, h') \<Longrightarrow> h' = h"
begin

lemma transaction_relayed:
  assumes "distinct (ov_Peers s)" "peer_state s a = GOT_HELLO" "map_of (ov_FloodGate s) (ol_msgHash L (TransactionMessage tx)) = None"
    and "recvMessage L C ops r base now a (TransactionMessage tx) s = Inr s'"
  shows "\<exists>ok. ho_recvTransaction ops tx (ov_herder s) = Inr (ok, ov_herder s') \<and>
    ov_sent s' = ov_sent s @ (if ok then map (\<lambda>p. (p, TransactionMessage tx)) (filter (\<lambda>p. peer_state s p = GOT_HELLO \<and> p \<noteq> a) (ov_Peers s)) else []) \<and>
    (\<not> ok \<longrightarrow> s' = s)"
proof -
  let ?m = "TransactionMessage tx"
  obtain ok h where r: "ho_recvTransaction ops tx (ov_herder s) = Inr (ok, h)"
    and s': "s' = (if ok then broadcastMessage L ops ?m False (recvFloodedMsg L ops ?m a (s\<lparr>ov_herder := h\<rparr>)) else s\<lparr>ov_herder := h\<rparr>)"
    using assms(2,4) by (auto simp: recvMessage_def peer_recvTransaction_def rbind_eq_Inr Let_def)
  show ?thesis
  proof (cases ok)
    case False
    then have h: "h = ov_herder s" using refused r by simp
    then have "s' = s" using s' False by simp
    with r False h show ?thesis by auto
  next
    case True
    let ?fm = "om_update (ol_msgHash L ?m) (new_FloodRecord ?m (ho_getCurrentLedgerSeq ops h) (Some a)) (ov_FloodGate s)"
    have fm: "ov_FloodGate (recvFloodedMsg L ops ?m a (s\<lparr>ov_herder := h\<rparr>)) = ?fm"
      using assms(3) by (simp add: recvFloodedMsg_def addRecord_def)
    have told: "fst (broadcast (ol_msgHash L) q False ready (ov_Peers s) ?m ?fm) = filter (\<lambda>p. ready p \<and> p \<noteq> a) (ov_Peers s)" for q ready
      using tell_others_list [OF assms(1), of ready "[Some a]"] by (auto simp: broadcast_def new_FloodRecord_def split: prod.splits)
    have "ov_herder s' = h" "ov_sent s' = ov_sent s @ map (\<lambda>p. (p, ?m)) (filter (\<lambda>p. peer_state s p = GOT_HELLO \<and> p \<noteq> a) (ov_Peers s))"
      using s' True fm told
      by (auto simp: broadcastMessage_def fold_sendMessage recvFloodedMsg_def split: prod.splits dest: arg_cong [where f = fst])
    with r True show ?thesis by auto
  qed
qed

end

end
