(* ===== verification/Overlay_Herder.thy ===== *)
theory Overlay_Herder
  imports Overlay_Props Herder_Props
begin

text \<open>
  The overlay with the herder of \<open>src/herder/HerderImpl.cpp\<close> behind it. A transaction from the wire becomes a frame at a new address
  \<open>ptr\<close>. \<open>recvSCPEnvelope\<close> queues the envelope; the queue is handed to the protocol by calls of their own. The callback that
  \<open>Peer::recvSCPMessage\<close> passes for the verdict is not used by the herder.
\<close>

definition herder_ops :: "HLib \<Rightarrow> nat \<Rightarrow> HerderImpl HerderOps" where
  "herder_ops HL ptr =
     \<lparr>ho_recvTransaction = (\<lambda>tx h. rbind (recvTransaction HL (ptr, tx) h) (\<lambda>(ok, _, h'). Inr (ok, h'))),
      ho_recvSCPEnvelope = enqueue_envelope,
      ho_getCurrentLedgerSeq = getCurrentLedgerSeq\<rparr>"

interpretation herder: herder_service "herder_ops HL ptr" for HL ptr
  by unfold_locales (auto simp: herder_ops_def rbind_eq_Inr dest: recvTransaction_pool)

text \<open>
  C27: A transaction spreads. When a peer that has said hello sends a transaction that is new to the node, the herder decides: if it takes
  the transaction, every other connected peer that has said hello is sent it, each once and in the order of the connections; if not, nothing is sent and the herder is
  as before.
\<close>

theorem transaction_spreads:
  assumes "distinct (ov_Peers s)" "peer_state s a = GOT_HELLO" "map_of (ov_FloodGate s) (ol_msgHash L (TransactionMessage tx)) = None"
    and "recvMessage L C (herder_ops HL ptr) r base now a (TransactionMessage tx) s = Inr s'"
  shows "\<exists>ok code. recvTransaction HL (ptr, tx) (ov_herder s) = Inr (ok, code, ov_herder s') \<and>
    ov_sent s' = ov_sent s @ (if ok then map (\<lambda>p. (p, TransactionMessage tx)) (filter (\<lambda>p. peer_state s p = GOT_HELLO \<and> p \<noteq> a) (ov_Peers s)) else []) \<and>
    (\<not> ok \<longrightarrow> s' = s)"
  using herder.transaction_relayed [OF assms] by (auto simp: herder_ops_def rbind_eq_Inr)

definition greeted_peer :: Peer where
  "greeted_peer = (new_Peer INITIATOR ''10.0.0.9'')\<lparr>pp_State := GOT_HELLO, pp_PeerID := 8, pp_RemoteListeningPort := 7000\<rparr>"

theorem transaction_spreads_witness:
  "\<exists>s'. recvMessage sample_overlay_lib sample_overlay_config (herder_ops sample_hlib 0) 0 0 0 0 (TransactionMessage (sample_env 5 11))
     ((new_OverlayManagerImpl [] (new_HerderImpl lead_driver sample_hlib lead_qset 0 sample_node))
        \<lparr>ov_heap := [greeted_peer, greeted_peer, new_Peer INITIATOR ''10.0.0.7''], ov_Peers := [0, 1, 2]\<rparr>) = Inr s' \<and>
     ov_sent s' = [(1, TransactionMessage (sample_env 5 11))]"
proof -
  let ?h = "new_HerderImpl lead_driver sample_hlib lead_qset 0 sample_node" and ?m = "TransactionMessage (sample_env 5 11)"
  let ?s = "(new_OverlayManagerImpl [] ?h)\<lparr>ov_heap := [greeted_peer, greeted_peer, new_Peer INITIATOR ''10.0.0.7''], ov_Peers := [0, 1, 2]\<rparr>"
  have "case recvTransaction sample_hlib (0, sample_env 5 11) ?h of Inr (ok, _, _) \<Rightarrow> ok | Inl _ \<Rightarrow> False" by code_simp
  then obtain code h where r: "recvTransaction sample_hlib (0, sample_env 5 11) ?h = Inr (True, code, h)" by (auto split: sum.splits)
  have s: "distinct (ov_Peers ?s)" "peer_state ?s 0 = GOT_HELLO" "map_of (ov_FloodGate ?s) (ol_msgHash sample_overlay_lib ?m) = None" "ov_herder ?s = ?h" "ov_sent ?s = []"
    by (simp_all add: greeted_peer_def new_OverlayManagerImpl_def)
  obtain s' where s': "recvMessage sample_overlay_lib sample_overlay_config (herder_ops sample_hlib 0) 0 0 0 0 ?m ?s = Inr s'"
    unfolding recvMessage_def peer_recvTransaction_def using r s(2,4) by (simp add: herder_ops_def Let_def)
  have "filter (\<lambda>p. peer_state ?s p = GOT_HELLO \<and> p \<noteq> 0) (ov_Peers ?s) = [1]" by (simp add: greeted_peer_def new_Peer_def)
  with transaction_spreads [OF s(1-3) s'] r s(4,5) have "ov_sent s' = [(1, ?m)]" by auto
  with s' show ?thesis by blast
qed

text \<open>
  Envelopes do not spread: what a peer sends is recorded and queued, and nothing is sent on, then or later.
\<close>

lemma envelope_not_relayed:
  assumes "peer_state s a = GOT_HELLO" "recvMessage L C (herder_ops HL ptr) r base now a (EnvelopeMessage e) s = Inr s'"
  shows "ov_sent s' = ov_sent s"
  using assms by (auto simp: recvMessage_def recvSCPMessage_def rbind_eq_Inr Let_def recvFloodedMsg_def)

end
