(* ===== verification/History_Files.thy ===== *)
theory History_Files
  imports Ledger_Manager "HOL-Library.List_Lexorder" "HOL-Library.Char_ord"
begin

text \<open>
  What publishing and catching up share: the names of the files of an archive
  (\<open>src/util/Fs.cpp\<close>, \<open>src/history/HistoryArchive.cpp\<close>), the state of a file on its way
  (\<open>src/history/FileTransferInfo.h\<close>), the ledgers at which checkpoints are made and the archives of
  the configuration (\<open>src/history/HistoryManagerImpl.cpp\<close>).

  Commands that copy files run in processes of their own. A command is a request here, and its end,
  with or without an error, an answer that comes later.
\<close>

subsection \<open>Hexadecimal text\<close>

definition hex_digit :: "nat \<Rightarrow> char" where
  "hex_digit n = ''0123456789abcdef'' ! n"

definition hex_text :: "nat \<Rightarrow> 'a::len word \<Rightarrow> string" where
  "hex_text k w = map (\<lambda>i. hex_digit (unat (drop_bit (4 * i) w AND 15))) (rev [0..<k])"

definition hex_digits :: "(char \<times> nat) list" where
  "hex_digits = zip ''0123456789abcdef'' [0..<16] @ zip ''ABCDEF'' [10..<16]"

fun hex_value :: "string \<Rightarrow> nat option" where
  "hex_value [] = Some 0"
| "hex_value (c # cs) = (case (map_of hex_digits c, hex_value cs) of
     (Some d, Some v) \<Rightarrow> Some (d * 16 ^ length cs + v) | _ \<Rightarrow> None)"

definition binToHex :: "Hash \<Rightarrow> string" where
  "binToHex h = hex_text 64 h"

definition hexToBin256 :: "string \<Rightarrow> Hash res" where
  "hexToBin256 s =
     (case hex_value s of
        None \<Rightarrow> Inl (RuntimeError ''error in payshares::hexToBin(std::string)'')
      | Some v \<Rightarrow> if length s div 2 \<noteq> 32
          then Inl (RuntimeError ''wrong number of hex bytes when decoding uint256'') else Inr (of_nat v))"

subsection \<open>Names of files\<close>

definition hexStr :: "uint32 \<Rightarrow> string" where
  "hexStr checkpointNum = hex_text 8 checkpointNum"

text \<open>Six hexadecimal digits, then anything but the end of a line; the match is inside an assertion.\<close>

definition hexDir :: "string \<Rightarrow> string res" where
  "hexDir s =
     rbind (rassert (6 \<le> length s \<and> (\<forall>c \<in> set (take 6 s). map_of hex_digits c \<noteq> None) \<and>
       (\<forall>c \<in> set (drop 6 s). c \<noteq> CHR 0x0A \<and> c \<noteq> CHR 0x0D))) (\<lambda>_.
     Inr (take 2 s @ ''/'' @ take 2 (drop 2 s) @ ''/'' @ take 2 (drop 4 s)))"

definition fs_baseName :: "string \<Rightarrow> string \<Rightarrow> string \<Rightarrow> string" where
  "fs_baseName type hex suffix = type @ ''-'' @ hex @ ''.'' @ suffix"

definition fs_remoteDir :: "string \<Rightarrow> string \<Rightarrow> string res" where
  "fs_remoteDir type hex = rbind (hexDir hex) (\<lambda>d. Inr (type @ ''/'' @ d))"

definition fs_remoteName :: "string \<Rightarrow> string \<Rightarrow> string \<Rightarrow> string res" where
  "fs_remoteName type hex suffix =
     rbind (fs_remoteDir type hex) (\<lambda>d. Inr (d @ ''/'' @ fs_baseName type hex suffix))"

definition HISTORY_FILE_TYPE_BUCKET :: string where
  "HISTORY_FILE_TYPE_BUCKET = ''bucket''"

definition HISTORY_FILE_TYPE_LEDGER :: string where
  "HISTORY_FILE_TYPE_LEDGER = ''ledger''"

definition HISTORY_FILE_TYPE_TRANSACTIONS :: string where
  "HISTORY_FILE_TYPE_TRANSACTIONS = ''transactions''"

definition HISTORY_FILE_TYPE_RESULTS :: string where
  "HISTORY_FILE_TYPE_RESULTS = ''results''"

definition wellKnownRemoteDir :: string where
  "wellKnownRemoteDir = ''.well-known''"

definition wellKnownRemoteName :: string where
  "wellKnownRemoteName = wellKnownRemoteDir @ ''/'' @ ''payshares-history.json''"

definition has_remoteDir :: "uint32 \<Rightarrow> string res" where
  "has_remoteDir snapshotNumber = fs_remoteDir ''history'' (hexStr snapshotNumber)"

definition has_remoteName :: "uint32 \<Rightarrow> string res" where
  "has_remoteName snapshotNumber = fs_remoteName ''history'' (hexStr snapshotNumber) ''json''"

subsection \<open>Files on their way\<close>

record 's FileTransferInfo =
  fti_TransferState :: 's
  fti_Type :: string
  fti_HexDigits :: string
  fti_LocalPath :: string

definition baseName_nogz :: "'s FileTransferInfo \<Rightarrow> string" where
  "baseName_nogz fi = fs_baseName (fti_Type fi) (fti_HexDigits fi) ''xdr''"

definition localPath_gz :: "'s FileTransferInfo \<Rightarrow> string" where
  "localPath_gz fi = fti_LocalPath fi @ ''.gz''"

definition fti_remoteDir :: "'s FileTransferInfo \<Rightarrow> string res" where
  "fti_remoteDir fi = fs_remoteDir (fti_Type fi) (fti_HexDigits fi)"

definition fti_remoteName :: "'s FileTransferInfo \<Rightarrow> string res" where
  "fti_remoteName fi = fs_remoteName (fti_Type fi) (fti_HexDigits fi) ''xdr''"

text \<open>A bucket where it lies in the directory of buckets, and a file in a temporary directory.\<close>

definition FileTransferInfo_of_bucket :: "'s \<Rightarrow> string \<Rightarrow> Hash \<Rightarrow> 's FileTransferInfo" where
  "FileTransferInfo_of_bucket state filename hash = \<lparr>fti_TransferState = state,
     fti_Type = HISTORY_FILE_TYPE_BUCKET, fti_HexDigits = binToHex hash, fti_LocalPath = filename\<rparr>"

definition FileTransferInfo_of_digits :: "'s \<Rightarrow> string \<Rightarrow> string \<Rightarrow> string \<Rightarrow> 's FileTransferInfo" where
  "FileTransferInfo_of_digits state dir type digits = \<lparr>fti_TransferState = state, fti_Type = type,
     fti_HexDigits = digits, fti_LocalPath = dir @ ''/'' @ fs_baseName type digits ''xdr''\<rparr>"

definition FileTransferInfo_of_checkpoint :: "'s \<Rightarrow> string \<Rightarrow> string \<Rightarrow> uint32 \<Rightarrow> 's FileTransferInfo" where
  "FileTransferInfo_of_checkpoint state dir type checkpointLedger =
     FileTransferInfo_of_digits state dir type (hexStr checkpointLedger)"

definition getBucketHashName :: "'s FileTransferInfo \<Rightarrow> string option" where
  "getBucketHashName fi =
     (if length (fti_HexDigits fi) = 64 \<and> fti_Type fi = HISTORY_FILE_TYPE_BUCKET then Some (fti_HexDigits fi) else None)"

definition bucketBasename :: "string \<Rightarrow> string" where
  "bucketBasename bucketHexHash = ''bucket-'' @ bucketHexHash @ ''.xdr''"

subsection \<open>Archives\<close>

record HistoryArchive =
  arc_Name :: string
  arc_GetCmd :: string
  arc_PutCmd :: string
  arc_MkdirCmd :: string

definition hasGetCmd :: "HistoryArchive \<Rightarrow> bool" where
  "hasGetCmd a \<longleftrightarrow> arc_GetCmd a \<noteq> []"

definition hasPutCmd :: "HistoryArchive \<Rightarrow> bool" where
  "hasPutCmd a \<longleftrightarrow> arc_PutCmd a \<noteq> []"

definition hasMkdirCmd :: "HistoryArchive \<Rightarrow> bool" where
  "hasMkdirCmd a \<longleftrightarrow> arc_MkdirCmd a \<noteq> []"

text \<open>
  The configuration: the archives, in the order of their names, and whether time is accelerated.
\<close>

record HistoryConfig =
  hc_HISTORY :: "HistoryArchive list"
  hc_ARTIFICIALLY_ACCELERATE_TIME_FOR_TESTING :: bool

definition checkSensibleConfig :: "HistoryConfig \<Rightarrow> bool" where
  "checkSensibleConfig cfg =
     (let readOnly = filter (\<lambda>a. hasGetCmd a \<and> \<not> hasPutCmd a) (hc_HISTORY cfg);
          readWrite = filter (\<lambda>a. hasGetCmd a \<and> hasPutCmd a) (hc_HISTORY cfg);
          writeOnly = filter (\<lambda>a. \<not> hasGetCmd a \<and> hasPutCmd a) (hc_HISTORY cfg);
          inert = filter (\<lambda>a. \<not> hasGetCmd a \<and> \<not> hasPutCmd a) (hc_HISTORY cfg)
      in inert = [] \<and> writeOnly = [] \<and> \<not> (readOnly = [] \<and> readWrite = []))"

definition hasAnyWritableHistoryArchive :: "HistoryConfig \<Rightarrow> bool" where
  "hasAnyWritableHistoryArchive cfg \<longleftrightarrow> (\<exists>a \<in> set (hc_HISTORY cfg). hasGetCmd a \<and> hasPutCmd a)"

subsection \<open>Checkpoints\<close>

definition getCheckpointFrequency :: "HistoryConfig \<Rightarrow> uint32" where
  "getCheckpointFrequency cfg = (if hc_ARTIFICIALLY_ACCELERATE_TIME_FOR_TESTING cfg then 8 else 64)"

definition prevCheckpointLedger :: "HistoryConfig \<Rightarrow> uint32 \<Rightarrow> uint32" where
  "prevCheckpointLedger cfg ledger = (let freq = getCheckpointFrequency cfg in (ledger div freq) * freq)"

text \<open>The flag is the one of the catch-up that was asked for last.\<close>

definition nextCheckpointLedger :: "HistoryConfig \<Rightarrow> bool \<Rightarrow> uint32 \<Rightarrow> uint32" where
  "nextCheckpointLedger cfg manualCatchup ledger =
     (if manualCatchup then ledger
      else let freq = getCheckpointFrequency cfg
           in if ledger = 0 then freq else ((ledger + freq - 1) div freq) * freq)"

definition SLEEP_SECONDS_PER_LEDGER :: uint64 where
  "SLEEP_SECONDS_PER_LEDGER = 5 + 1"

definition nextCheckpointCatchupProbe :: "HistoryConfig \<Rightarrow> bool \<Rightarrow> uint32 \<Rightarrow> uint64" where
  "nextCheckpointCatchupProbe cfg manualCatchup ledger =
     (let next = nextCheckpointLedger cfg manualCatchup ledger
      in ucast ((next - ledger) + 5) * SLEEP_SECONDS_PER_LEDGER)"

subsection \<open>Names are unambiguous\<close>

lemma length_hex_text [simp]: "length (hex_text k w) = k"
  by (simp add: hex_text_def)

lemma hex_digit_value: "n < 16 \<Longrightarrow> map_of hex_digits (hex_digit n) = Some n"
proof -
  have "\<forall>n \<in> set [0..<16]. map_of hex_digits (hex_digit n) = Some n" by code_simp
  then show "n < 16 \<Longrightarrow> map_of hex_digits (hex_digit n) = Some n" by simp
qed

lemma unat_nibble: "unat (drop_bit (4 * i) w AND 15) = unat (w :: 'a::len word) div 16 ^ i mod 16"
proof -
  have "unat (drop_bit (4 * i) w AND 15) = unat (take_bit 4 (drop_bit (4 * i) w))"
    by (simp add: take_bit_eq_mask mask_numeral)
  also have "\<dots> = take_bit 4 (drop_bit (4 * i) (unat w))"
    by (simp only: unsigned_take_bit_eq unat_drop_bit_eq)
  also have "\<dots> = unat w div 16 ^ i mod 16"
    by (simp add: take_bit_eq_mod drop_bit_eq_div power_mult)
  finally show ?thesis .
qed

lemma hex_value_text: "hex_value (hex_text k w) = Some (unat (w :: 'a::len word) mod 16 ^ k)"
proof (induction k)
  case (Suc k)
  have "hex_text (Suc k) w = hex_digit (unat w div 16 ^ k mod 16) # hex_text k w"
    by (simp add: hex_text_def unat_nibble)
  moreover have "unat w div 16 ^ k mod 16 * 16 ^ k + unat w mod 16 ^ k = unat w mod 16 ^ Suc k"
    using mod_mult2_eq [of "unat w" "16 ^ k" 16] by (simp add: mult.commute)
  ultimately show ?case using Suc by (simp add: hex_digit_value)
qed (simp add: hex_text_def)

lemma hex_text_digits: "c \<in> set (hex_text k (w :: 'a::len word)) \<Longrightarrow> map_of hex_digits c \<noteq> None"
  by (auto simp: hex_text_def unat_nibble hex_digit_value)

lemma hexToBin256_binToHex [simp]: "hexToBin256 (binToHex h) = Inr h"
proof -
  have "unat h < 16 ^ 64" using unsigned_less [of h] by simp
  then show ?thesis by (simp add: hexToBin256_def binToHex_def hex_value_text)
qed

lemma binToHex_inject [simp]: "binToHex h = binToHex h' \<longleftrightarrow> h = h'"
  by (metis hexToBin256_binToHex sum.inject(2))

lemma unat_mod_32: "unat (n :: uint32) mod 4294967296 = unat n"
  using unsigned_less [of n, where 'a = nat] by simp

lemma hexStr_inject [simp]: "hexStr n = hexStr n' \<longleftrightarrow> n = n'"
proof
  assume "hexStr n = hexStr n'"
  then have "Some (unat n mod 16 ^ 8) = Some (unat n' mod 16 ^ 8)"
    by (metis hex_value_text hexStr_def)
  then show "n = n'" by (simp add: word_unat_eq_iff unat_mod_32)
qed simp

text \<open>The types of files contain no dash, so that a name splits into its parts in one way.\<close>

lemma fs_baseName_inject:
  assumes "CHR ''-'' \<notin> set t" "CHR ''-'' \<notin> set t'"
  shows "fs_baseName t x s = fs_baseName t' x' s \<longleftrightarrow> t = t' \<and> x = x'"
proof
  assume eq: "fs_baseName t x s = fs_baseName t' x' s"
  have "takeWhile (\<lambda>c. c \<noteq> CHR ''-'') (fs_baseName u y s) = u" if "CHR ''-'' \<notin> set u" for u y
    using that by (induction u) (auto simp: fs_baseName_def)
  with eq assms have "t = t'" by metis
  with eq show "t = t' \<and> x = x'" by (simp add: fs_baseName_def)
qed simp

lemma hexDir_hex_text:
  assumes "6 \<le> k"
  shows "\<exists>d. hexDir (hex_text k (w :: 'a::len word)) = Inr d"
proof -
  have "map_of hex_digits CHR 0x0A = None" "map_of hex_digits CHR 0x0D = None" by code_simp+
  then have "c \<noteq> CHR 0x0A \<and> c \<noteq> CHR 0x0D" if "c \<in> set (hex_text k w)" for c
    using hex_text_digits [OF that] by auto
  then show ?thesis
    using assms hex_text_digits [of _ k w]
    by (auto simp: hexDir_def rassert_def simp del: not_None_eq dest!: in_set_takeD in_set_dropD)
qed

lemma remoteName_total:
  "\<exists>r. fti_remoteName (FileTransferInfo_of_checkpoint s dir t n) = Inr r"
  "\<exists>r. fti_remoteName (FileTransferInfo_of_bucket s filename h) = Inr r"
  "\<exists>r. fti_remoteDir (FileTransferInfo_of_checkpoint s dir t n) = Inr r"
  "\<exists>r. fti_remoteDir (FileTransferInfo_of_bucket s filename h) = Inr r"
  using hexDir_hex_text [of 8 n] hexDir_hex_text [of 64 h]
  by (auto simp: fti_remoteName_def fti_remoteDir_def fs_remoteName_def fs_remoteDir_def FileTransferInfo_of_checkpoint_def
      FileTransferInfo_of_digits_def FileTransferInfo_of_bucket_def hexStr_def binToHex_def)

end
