(* ===== verification/Publish.thy ===== *)
theory Publish
  imports History_Files Ordered_Map
begin

text \<open>
  \<open>src/history/PublishStateMachine.cpp\<close>: copying a checkpoint to the archives. A snapshot is queued
  when a ledger closes at a checkpoint; its files are written from the database, and one publisher
  per archive compresses and copies them, and then the state that names them.

  The objects for files are shared between publishers, so that they live in a store, and a pointer is
  a place there. Publishers are numbered as they are made. Commands, timers and work posted to other
  threads are requests, kept in the order in which they are made; an answer is a call of its own.
  What is done to files on the disk is among them.
\<close>

subsection \<open>The contents of a checkpoint\<close>

record TransactionHistoryEntry =
  txh_ledgerSeq :: uint32
  txh_txSet :: TransactionSet

record TransactionHistoryResultEntry =
  txr_seq :: uint32
  txr_results :: "TransactionResultPair list"

definition saveTransactionHelper ::
    "Lib \<Rightarrow> HeaderRow list \<Rightarrow> uint32 \<Rightarrow> TxSetFrame \<Rightarrow> TransactionHistoryEntry res" where
  "saveTransactionHelper L headers ledgerSeq ts =
     (case loadBySequence ledgerSeq headers of
        None \<Rightarrow> Inl (RuntimeError ''Could not find ledger'')
      | Some lh \<Rightarrow>
          Inr \<lparr>txh_ledgerSeq = ledgerSeq,
            txh_txSet = ts_toXDR (sortForHash (lib_sort L) (lib_envHash L)
              (ts\<lparr>ts_PreviousLedgerHash := lh_previousLedgerHash lh, ts_HashIsValid := False\<rparr>))\<rparr>)"

text \<open>
  The loop over the rows: the ledger of the row before, the set and the results collected for it, and
  what was written. After the first ledger the results are labelled with the start of the range.
\<close>

fun copy_txs_loop ::
    "Lib \<Rightarrow> HeaderRow list \<Rightarrow> uint32 \<Rightarrow> TxRow list \<Rightarrow> uint32 \<Rightarrow> TxSetFrame \<Rightarrow> TransactionHistoryResultEntry
      \<Rightarrow> TransactionHistoryEntry list \<times> TransactionHistoryResultEntry list
      \<Rightarrow> (TransactionHistoryEntry list \<times> TransactionHistoryResultEntry list) res" where
  "copy_txs_loop L headers begin [] lastSeq ts results out =
     rbind (saveTransactionHelper L headers lastSeq ts) (\<lambda>hist. Inr (fst out @ [hist], snd out @ [results]))"
| "copy_txs_loop L headers begin (r # rs) lastSeq ts results out =
     rbind (if txr_ledgerSeq r \<noteq> lastSeq then
              rbind (saveTransactionHelper L headers lastSeq ts) (\<lambda>hist.
              Inr (txr_ledgerSeq r, ts\<lparr>ts_Transactions := []\<rparr>,
                \<lparr>txr_seq = begin, txr_results = []\<rparr>, fst out @ [hist], snd out @ [results]))
            else Inr (lastSeq, ts, results, out)) (\<lambda>(lastSeq', ts', results', out').
     if trp_transactionHash (txr_TxResult r) \<noteq> lib_txHash L (env_tx (txr_TxBody r))
     then Inl (RuntimeError ''transaction mismatch'')
     else copy_txs_loop L headers begin rs lastSeq' (ts_add (length (ts_Transactions ts'), txr_TxBody r) ts')
            (results'\<lparr>txr_results := txr_results results' @ [txr_TxResult r]\<rparr>) out')"

definition copyTransactionsToStream ::
    "Lib \<Rightarrow> HeaderRow list \<Rightarrow> TxRow list \<Rightarrow> uint32 \<Rightarrow> uint32
      \<Rightarrow> (TransactionHistoryEntry list \<times> TransactionHistoryResultEntry list) res" where
  "copyTransactionsToStream L headers rows ledgerSeq ledgerCount =
     (let end = ledgerSeq + ledgerCount
      in rbind (rassert (ledgerSeq \<le> end)) (\<lambda>_.
         case sort_key (\<lambda>r. (txr_ledgerSeq r, txr_txindex r))
                (filter (\<lambda>r. ledgerSeq \<le> txr_ledgerSeq r \<and> txr_ledgerSeq r < end) rows) of
           [] \<Rightarrow> Inr ([], [])
         | r # rs \<Rightarrow> copy_txs_loop L headers ledgerSeq (r # rs) (txr_ledgerSeq r) (new_TxSetFrame 0)
             \<lparr>txr_seq = txr_ledgerSeq r, txr_results = []\<rparr> ([], [])))"

type_synonym HistoryBlock =
  "LedgerHeaderHistoryEntry list \<times> TransactionHistoryEntry list \<times> TransactionHistoryResultEntry list"

text \<open>The three files of a checkpoint: all ledgers since the checkpoint before it.\<close>

definition writeHistoryBlocks ::
    "Lib \<Rightarrow> HistoryConfig \<Rightarrow> HistoryArchiveState \<Rightarrow> HeaderRow list \<Rightarrow> TxRow list \<Rightarrow> HistoryBlock res" where
  "writeHistoryBlocks L cfg localState headers rows =
     (let begin = prevCheckpointLedger cfg (has_currentLedger localState);
          count = (has_currentLedger localState - begin) + 1
      in rbind (copyLedgerHeadersToStream (lib_headerHash L) begin count headers) (\<lambda>ledgerOut.
         rbind (copyTransactionsToStream L headers rows begin count) (\<lambda>(txOut, txResultOut).
         Inr (ledgerOut, txOut, txResultOut))))"

subsection \<open>The state\<close>

datatype PublishState =
    PUBLISH_RETRYING | PUBLISH_BEGIN | PUBLISH_OBSERVED | PUBLISH_SENDING | PUBLISH_COMMITTING | PUBLISH_END

datatype FilePublishState =
    FILE_PUBLISH_FAILED | FILE_PUBLISH_NEEDED | FILE_PUBLISH_COMPRESSING | FILE_PUBLISH_COMPRESSED
  | FILE_PUBLISH_MAKING_DIR | FILE_PUBLISH_MADE_DIR | FILE_PUBLISH_UPLOADING | FILE_PUBLISH_UPLOADED

fun file_publish_code :: "FilePublishState \<Rightarrow> int" where
  "file_publish_code FILE_PUBLISH_FAILED = -1"
| "file_publish_code FILE_PUBLISH_NEEDED = 0"
| "file_publish_code FILE_PUBLISH_COMPRESSING = 3"
| "file_publish_code FILE_PUBLISH_COMPRESSED = 4"
| "file_publish_code FILE_PUBLISH_MAKING_DIR = 5"
| "file_publish_code FILE_PUBLISH_MADE_DIR = 6"
| "file_publish_code FILE_PUBLISH_UPLOADING = 7"
| "file_publish_code FILE_PUBLISH_UPLOADED = 8"

instantiation FilePublishState :: linorder
begin

definition less_eq_FilePublishState :: "FilePublishState \<Rightarrow> FilePublishState \<Rightarrow> bool" where
  "less_eq_FilePublishState a b \<longleftrightarrow> file_publish_code a \<le> file_publish_code b"

definition less_FilePublishState :: "FilePublishState \<Rightarrow> FilePublishState \<Rightarrow> bool" where
  "less_FilePublishState a b \<longleftrightarrow> file_publish_code a < file_publish_code b"

instance
proof
  fix a b :: FilePublishState
  show "a \<le> b \<Longrightarrow> b \<le> a \<Longrightarrow> a = b"
    by (cases a; cases b) (simp_all add: less_eq_FilePublishState_def)
qed (auto simp: less_eq_FilePublishState_def less_FilePublishState_def)

end

type_synonym FilePublishInfo = "FilePublishState FileTransferInfo"

record StateSnapshot =
  ss_LocalState :: HistoryArchiveState
  ss_LocalBuckets :: "Bucket list"
  ss_LedgerSnapFile :: nat
  ss_TransactionSnapFile :: nat
  ss_TransactionResultSnapFile :: nat

record ArchivePublisher =
  ap_Error :: bool
  ap_State :: PublishState
  ap_RetryCount :: nat
  ap_Archive :: HistoryArchive
  ap_ArchiveState :: HistoryArchiveState
  ap_Snap :: StateSnapshot
  ap_FileInfos :: "(string, nat) omap"

definition publish_kRetryLimit :: nat where
  "publish_kRetryLimit = 16"

datatype PubRequest =
    GetState nat
  | RetryTimer nat
  | Compress nat string string
  | MakeDir nat string string
  | PutFile nat string string string
  | RemoveFile string
  | StateMkdir nat bool string
  | StatePut nat bool string HasArchive
  | RecheckTimer
  | PostWrite StateSnapshot
  | WroteBlock HistoryArchiveState HistoryBlock

record PublishStateMachine =
  psm_Publishers :: "(nat \<times> ArchivePublisher) list"
  psm_PendingSnaps :: "(StateSnapshot \<times> nat) list"
  psm_files :: "FilePublishInfo list"
  psm_made :: nat
  psm_asked :: "PubRequest list"
  psm_finished :: "(nat \<times> bool) list"

definition new_PublishStateMachine :: PublishStateMachine where
  "new_PublishStateMachine = \<lparr>psm_Publishers = [], psm_PendingSnaps = [], psm_files = [], psm_made = 0,
     psm_asked = [], psm_finished = []\<rparr>"

text \<open>
  What the machine reads of the application: the libraries, the configuration, whether the database
  can be used by other threads, the tables, the directory of the buckets.
\<close>

record PubEnv =
  env_lib :: Lib
  env_cfg :: HistoryConfig
  env_canUsePool :: bool
  env_headers :: "HeaderRow list"
  env_txRows :: "TxRow list"
  env_bucketDir :: string

definition ask :: "PubRequest \<Rightarrow> PublishStateMachine \<Rightarrow> PublishStateMachine" where
  "ask r psm = psm\<lparr>psm_asked := psm_asked psm @ [r]\<rparr>"

text \<open>A callback holds a bare pointer to its publisher; one that is gone is used all the same.\<close>

definition publisher :: "nat \<Rightarrow> PublishStateMachine \<Rightarrow> ArchivePublisher res" where
  "publisher p psm =
     (case map_of (psm_Publishers psm) p of
        None \<Rightarrow> Inl (RuntimeError ''use of a publisher that is gone'') | Some ap \<Rightarrow> Inr ap)"

definition upd_publisher :: "nat \<Rightarrow> (ArchivePublisher \<Rightarrow> ArchivePublisher) \<Rightarrow> PublishStateMachine \<Rightarrow> PublishStateMachine" where
  "upd_publisher p f psm =
     psm\<lparr>psm_Publishers := map (\<lambda>(q, ap). (q, if q = p then f ap else ap)) (psm_Publishers psm)\<rparr>"

definition file_state :: "nat \<Rightarrow> PublishStateMachine \<Rightarrow> FilePublishState" where
  "file_state a psm = fti_TransferState (psm_files psm ! a)"

definition set_file :: "nat \<Rightarrow> FilePublishState \<Rightarrow> PublishStateMachine \<Rightarrow> PublishStateMachine" where
  "set_file a s psm = psm\<lparr>psm_files := (psm_files psm)[a := (psm_files psm ! a)\<lparr>fti_TransferState := s\<rparr>]\<rparr>"

definition alloc_file :: "FilePublishInfo \<Rightarrow> PublishStateMachine \<Rightarrow> nat \<times> PublishStateMachine" where
  "alloc_file fi psm = (length (psm_files psm), psm\<lparr>psm_files := psm_files psm @ [fi]\<rparr>)"

subsection \<open>One archive\<close>

definition expect_state :: "nat \<Rightarrow> PublishState list \<Rightarrow> PublishState \<Rightarrow> PublishStateMachine \<Rightarrow> PublishStateMachine res" where
  "expect_state p from to psm =
     rbind (publisher p psm) (\<lambda>ap.
     rbind (rassert (ap_State ap \<in> set from)) (\<lambda>_. Inr (upd_publisher p (\<lambda>ap. ap\<lparr>ap_State := to\<rparr>) psm)))"

definition publish_enterRetryingState :: "nat \<Rightarrow> PublishStateMachine \<Rightarrow> PublishStateMachine res" where
  "publish_enterRetryingState p psm =
     rbind (expect_state p [PUBLISH_BEGIN, PUBLISH_SENDING, PUBLISH_COMMITTING] PUBLISH_RETRYING psm) (\<lambda>psm1.
     Inr (ask (RetryTimer p) psm1))"

definition publish_enterBeginState :: "nat \<Rightarrow> PublishStateMachine \<Rightarrow> PublishStateMachine res" where
  "publish_enterBeginState p psm =
     rbind (expect_state p [PUBLISH_RETRYING] PUBLISH_BEGIN psm) (\<lambda>psm1. Inr (ask (GetState p) psm1))"

definition checkNoGzipSuffix :: "string \<Rightarrow> unit res" where
  "checkNoGzipSuffix filename =
     (if 3 \<le> length filename \<and> drop (length filename - 3) filename = ''.gz''
      then Inl (RuntimeError ''filename ends in .gz'') else Inr ())"

text \<open>
  One file in the loop of \<open>enterSendingState\<close>. Where the archive has no command to make a directory
  the callback is called at once; the first value says so.
\<close>

definition send_file :: "nat \<Rightarrow> nat \<Rightarrow> PublishStateMachine \<Rightarrow> (bool \<times> PublishStateMachine) res" where
  "send_file p a psm =
     (let fi = psm_files psm ! a; name = baseName_nogz fi
      in rbind (publisher p psm) (\<lambda>ap.
         case fti_TransferState fi of
           FILE_PUBLISH_NEEDED \<Rightarrow>
             rbind (checkNoGzipSuffix (fti_LocalPath fi)) (\<lambda>_.
             Inr (False, ask (Compress p name (fti_LocalPath fi)) (set_file a FILE_PUBLISH_COMPRESSING psm)))
         | FILE_PUBLISH_COMPRESSED \<Rightarrow>
             rbind (fti_remoteDir fi) (\<lambda>dir.
             let psm1 = set_file a FILE_PUBLISH_MAKING_DIR psm
             in Inr (if hasMkdirCmd (ap_Archive ap) then (False, ask (MakeDir p name dir) psm1) else (True, psm1)))
         | FILE_PUBLISH_MADE_DIR \<Rightarrow>
             rbind (fti_remoteName fi) (\<lambda>remote.
             rbind (rassert (hasPutCmd (ap_Archive ap))) (\<lambda>_.
             Inr (False, ask (PutFile p name (localPath_gz fi) remote) (set_file a FILE_PUBLISH_UPLOADING psm))))
         | FILE_PUBLISH_UPLOADED \<Rightarrow> Inr (False, ask (RemoveFile (localPath_gz fi)) psm)
         | _ \<Rightarrow> Inr (False, psm)))"

text \<open>The first part of \<open>fileStateChange\<close>: the state of the file, and the error.\<close>

definition change_file :: "nat \<Rightarrow> bool \<Rightarrow> string \<Rightarrow> FilePublishState \<Rightarrow> PublishStateMachine \<Rightarrow> PublishStateMachine res" where
  "change_file p ec name newGoodState psm =
     rbind (publisher p psm) (\<lambda>ap.
     case map_of (ap_FileInfos ap) name of
       None \<Rightarrow> Inl (RuntimeError ''null file'')
     | Some a \<Rightarrow>
         Inr (set_file a (if ec then FILE_PUBLISH_FAILED else newGoodState)
           (if ec then upd_publisher p (\<lambda>ap. ap\<lparr>ap_Error := True\<rparr>) psm else psm)))"

definition put_state_file :: "PubEnv \<Rightarrow> nat \<Rightarrow> bool \<Rightarrow> PublishStateMachine \<Rightarrow> PublishStateMachine res" where
  "put_state_file E p wellKnown psm =
     rbind (publisher p psm) (\<lambda>ap.
     let s = ss_LocalState (ap_Snap ap)
     in rbind (if wellKnown then Inr wellKnownRemoteName else has_remoteName (has_currentLedger s)) (\<lambda>remote.
        rbind (rassert (hasPutCmd (ap_Archive ap))) (\<lambda>_.
        rbind (has_save (lib_bucketHash (env_lib E)) s) (\<lambda>ar. Inr (ask (StatePut p wellKnown remote ar) psm)))))"

definition putStateInDir :: "PubEnv \<Rightarrow> nat \<Rightarrow> bool \<Rightarrow> PublishStateMachine \<Rightarrow> PublishStateMachine res" where
  "putStateInDir E p wellKnown psm =
     rbind (publisher p psm) (\<lambda>ap.
     rbind (if wellKnown then Inr wellKnownRemoteDir
            else has_remoteDir (has_currentLedger (ss_LocalState (ap_Snap ap)))) (\<lambda>dir.
     if hasMkdirCmd (ap_Archive ap) then Inr (ask (StateMkdir p wellKnown dir) psm)
     else put_state_file E p wellKnown psm))"

text \<open>The state is saved to a local file, which the commands copy; it is the same each time.\<close>

definition putState :: "PubEnv \<Rightarrow> nat \<Rightarrow> PublishStateMachine \<Rightarrow> PublishStateMachine res" where
  "putState E p psm =
     rbind (publisher p psm) (\<lambda>ap.
     rbind (has_save (lib_bucketHash (env_lib E)) (ss_LocalState (ap_Snap ap))) (\<lambda>_. putStateInDir E p False psm))"

definition publish_enterCommittingState :: "PubEnv \<Rightarrow> nat \<Rightarrow> PublishStateMachine \<Rightarrow> PublishStateMachine res" where
  "publish_enterCommittingState E p psm =
     rbind (expect_state p [PUBLISH_SENDING] PUBLISH_COMMITTING psm) (putState E p)"

text \<open>
  The loop over the files. A callback called at once enters the state again inside the loop, which
  then goes on. The fuel bounds how deep the calls are nested: a nested call needs a file that was
  compressed and is not any more, so that the number of files is enough.
\<close>

fun sending_loop ::
    "PubEnv \<Rightarrow> nat \<Rightarrow> nat \<Rightarrow> (string \<times> nat) list \<Rightarrow> FilePublishState \<Rightarrow> PublishStateMachine \<Rightarrow> PublishStateMachine res" where
  "sending_loop E fuel p [] minimumState psm =
     (if minimumState = FILE_PUBLISH_FAILED then publish_enterRetryingState p psm
      else if minimumState = FILE_PUBLISH_UPLOADED then publish_enterCommittingState E p psm
      else Inr psm)"
| "sending_loop E fuel p ((name, a) # fs) minimumState psm =
     rbind (send_file p a psm) (\<lambda>(called, psm1).
     rbind (if \<not> called then Inr psm1
            else
              rbind (change_file p False (baseName_nogz (psm_files psm ! a)) FILE_PUBLISH_MADE_DIR psm1) (\<lambda>psm2.
              rbind (publisher p psm2) (\<lambda>ap.
              if ap_State ap = PUBLISH_RETRYING then Inr psm2
              else
                rbind (expect_state p [PUBLISH_OBSERVED, PUBLISH_SENDING] PUBLISH_SENDING psm2) (\<lambda>psm3.
                case fuel of
                  0 \<Rightarrow> Inr psm3
                | Suc n \<Rightarrow> sending_loop E n p (ap_FileInfos ap) FILE_PUBLISH_UPLOADED psm3)))) (\<lambda>psm4.
     sending_loop E fuel p fs (min (file_state a psm4) minimumState) psm4))"

definition publish_enterSendingState :: "PubEnv \<Rightarrow> nat \<Rightarrow> PublishStateMachine \<Rightarrow> PublishStateMachine res" where
  "publish_enterSendingState E p psm =
     rbind (expect_state p [PUBLISH_OBSERVED, PUBLISH_SENDING] PUBLISH_SENDING psm) (\<lambda>psm1.
     rbind (publisher p psm1) (\<lambda>ap.
     sending_loop E (length (ap_FileInfos ap)) p (ap_FileInfos ap) FILE_PUBLISH_UPLOADED psm1))"

definition publish_fileStateChange ::
    "PubEnv \<Rightarrow> nat \<Rightarrow> bool \<Rightarrow> string \<Rightarrow> FilePublishState \<Rightarrow> PublishStateMachine \<Rightarrow> PublishStateMachine res" where
  "publish_fileStateChange E p ec name newGoodState psm =
     rbind (change_file p ec name newGoodState psm) (\<lambda>psm1.
     rbind (publisher p psm1) (\<lambda>ap.
     if ap_State ap \<noteq> PUBLISH_RETRYING then publish_enterSendingState E p psm1 else Inr psm1))"

text \<open>The buckets to send, each with an object of its own.\<close>

fun alloc_buckets :: "PubEnv \<Rightarrow> (string \<times> Bucket) list \<Rightarrow> Hash list \<Rightarrow> PublishStateMachine \<Rightarrow> (nat list \<times> PublishStateMachine) res" where
  "alloc_buckets E byHash [] psm = Inr ([], psm)"
| "alloc_buckets E byHash (h # hs) psm =
     (case map_of byHash (binToHex h) of
        None \<Rightarrow> Inl AssertFailed
      | Some b \<Rightarrow>
          let bh = bucket_hash (lib_bucketHash (env_lib E)) b;
              (a, psm1) = alloc_file (FileTransferInfo_of_bucket FILE_PUBLISH_NEEDED
                (env_bucketDir E @ ''/'' @ bucketBasename (binToHex bh)) bh) psm
          in rbind (alloc_buckets E byHash hs psm1) (\<lambda>(as, psm2). Inr (a # as, psm2)))"

text \<open>A file is queued where there is none of its name yet, or one that failed.\<close>

fun queue_files :: "FilePublishInfo list \<Rightarrow> nat list \<Rightarrow> (string, nat) omap \<Rightarrow> (string, nat) omap" where
  "queue_files files [] m = m"
| "queue_files files (a # as) m =
     (let name = baseName_nogz (files ! a)
      in queue_files files as
           (case map_of m name of
              None \<Rightarrow> om_update name a m
            | Some a' \<Rightarrow> if fti_TransferState (files ! a') = FILE_PUBLISH_FAILED then om_update name a m else m))"

definition publish_enterObservedState :: "PubEnv \<Rightarrow> nat \<Rightarrow> HistoryArchiveState \<Rightarrow> PublishStateMachine \<Rightarrow> PublishStateMachine res" where
  "publish_enterObservedState E p has psm =
     (let H = lib_bucketHash (env_lib E)
      in rbind (expect_state p [PUBLISH_BEGIN] PUBLISH_OBSERVED psm) (\<lambda>psm1.
         rbind (publisher p psm1) (\<lambda>ap.
         let snp = ap_Snap ap;
             byHash = rev (map (\<lambda>b. (binToHex (bucket_hash H b), b)) (ss_LocalBuckets snp))
         in rbind (differingBuckets H has (ss_LocalState snp)) (\<lambda>bucketsToSend.
            rbind (alloc_buckets E byHash bucketsToSend psm1) (\<lambda>(as, psm2).
            publish_enterSendingState E p (upd_publisher p (\<lambda>ap. ap\<lparr>ap_ArchiveState := has,
              ap_FileInfos := queue_files (psm_files psm2)
                ([ss_LedgerSnapFile snp, ss_TransactionSnapFile snp, ss_TransactionResultSnapFile snp] @ as)
                (ap_FileInfos ap)\<rparr>) psm2))))))"

subsection \<open>The queue of snapshots\<close>

text \<open>A new publisher begins in its constructor.\<close>

definition new_publisher :: "StateSnapshot \<Rightarrow> HistoryArchive \<Rightarrow> PublishStateMachine \<Rightarrow> PublishStateMachine res" where
  "new_publisher snp archive psm =
     (let p = psm_made psm;
          ap = \<lparr>ap_Error = False, ap_State = PUBLISH_RETRYING, ap_RetryCount = 0, ap_Archive = archive,
            ap_ArchiveState = new_HistoryArchiveState, ap_Snap = snp, ap_FileInfos = []\<rparr>
      in publish_enterBeginState p
           (psm\<lparr>psm_Publishers := psm_Publishers psm @ [(p, ap)], psm_made := Suc p\<rparr>))"

text \<open>\<open>snapshotWritten\<close> when the files are there: a publisher for every archive that can be written.\<close>

fun start_publishers :: "StateSnapshot \<Rightarrow> HistoryArchive list \<Rightarrow> PublishStateMachine \<Rightarrow> PublishStateMachine res" where
  "start_publishers snp [] psm = Inr psm"
| "start_publishers snp (a # as) psm =
     rbind (if hasGetCmd a \<and> hasPutCmd a then new_publisher snp a psm else Inr psm) (start_publishers snp as)"

text \<open>
  The writing of the files returns no error, it succeeds or throws; it runs at once, or on another
  thread when the database allows it.
\<close>

definition write_blocks :: "PubEnv \<Rightarrow> StateSnapshot \<Rightarrow> PublishStateMachine \<Rightarrow> PublishStateMachine res" where
  "write_blocks E snp psm =
     rbind (writeHistoryBlocks (env_lib E) (env_cfg E) (ss_LocalState snp) (env_headers E) (env_txRows E)) (\<lambda>block.
     start_publishers snp (hc_HISTORY (env_cfg E)) (ask (WroteBlock (ss_LocalState snp) block) psm))"

definition writeNextSnapshot :: "PubEnv \<Rightarrow> PublishStateMachine \<Rightarrow> PublishStateMachine res" where
  "writeNextSnapshot E psm =
     (case psm_PendingSnaps psm of
        [] \<Rightarrow> Inr psm
      | (snp, handler) # rest \<Rightarrow>
          rbind (resolveAnyReadyFutures (lib_bucketHash (env_lib E)) (ss_LocalState snp)) (\<lambda>local.
          let snp' = snp\<lparr>ss_LocalState := local\<rparr>;
              psm1 = psm\<lparr>psm_PendingSnaps := (snp', handler) # rest\<rparr>
          in if \<not> futuresAllResolved local then Inr (ask RecheckTimer psm1)
             else if env_canUsePool E then Inr (ask (PostWrite snp') psm1)
             else write_blocks E snp' psm1))"

definition finishOne :: "PubEnv \<Rightarrow> bool \<Rightarrow> PublishStateMachine \<Rightarrow> PublishStateMachine res" where
  "finishOne E ec psm =
     (case psm_PendingSnaps psm of
        [] \<Rightarrow> Inl AssertFailed
      | (snp, handler) # rest \<Rightarrow>
          writeNextSnapshot E (psm\<lparr>psm_finished := psm_finished psm @ [(handler, ec)], psm_PendingSnaps := rest\<rparr>))"

definition snapshotWritten :: "PubEnv \<Rightarrow> bool \<Rightarrow> PublishStateMachine \<Rightarrow> PublishStateMachine res" where
  "snapshotWritten E ec psm =
     (case psm_PendingSnaps psm of
        [] \<Rightarrow> Inl (RuntimeError ''front of an empty deque'')
      | (snp, handler) # rest \<Rightarrow>
          if ec then finishOne E ec psm else start_publishers snp (hc_HISTORY (env_cfg E)) psm)"

text \<open>
  The publishers that are done are moved behind the others, and the first of them is erased. None, or
  more than one, would leave the vector in a state that is not defined.
\<close>

definition snapshotPublished :: "PubEnv \<Rightarrow> bool \<Rightarrow> PublishStateMachine \<Rightarrow> PublishStateMachine res" where
  "snapshotPublished E ec psm =
     (let ended = filter (\<lambda>(p, ap). ap_State ap = PUBLISH_END) (psm_Publishers psm);
          rest = filter (\<lambda>(p, ap). ap_State ap \<noteq> PUBLISH_END) (psm_Publishers psm)
      in if length ended \<noteq> 1 then Inl (RuntimeError ''vector::erase'')
         else
           let psm1 = psm\<lparr>psm_Publishers := rest\<rparr>
           in if rest = [] then finishOne E ec psm1 else Inr psm1)"

definition publish_enterEndState :: "PubEnv \<Rightarrow> nat \<Rightarrow> PublishStateMachine \<Rightarrow> PublishStateMachine res" where
  "publish_enterEndState E p psm =
     rbind (publisher p psm) (\<lambda>ap.
     snapshotPublished E (ap_Error ap) (upd_publisher p (\<lambda>ap. ap\<lparr>ap_State := PUBLISH_END\<rparr>) psm))"

definition queueSnapshot :: "PubEnv \<Rightarrow> StateSnapshot \<Rightarrow> nat \<Rightarrow> PublishStateMachine \<Rightarrow> (bool \<times> PublishStateMachine) res" where
  "queueSnapshot E snp handler psm =
     (let delayed = psm_PendingSnaps psm \<noteq> [];
          psm1 = psm\<lparr>psm_PendingSnaps := psm_PendingSnaps psm @ [(snp, handler)]\<rparr>
      in if delayed then Inr (True, psm1) else rbind (writeNextSnapshot E psm1) (\<lambda>psm2. Inr (False, psm2)))"

subsection \<open>Answers\<close>

definition retry_timer :: "PubEnv \<Rightarrow> nat \<Rightarrow> PublishStateMachine \<Rightarrow> PublishStateMachine res" where
  "retry_timer E p psm =
     rbind (publisher p psm) (\<lambda>ap.
     let psm1 = upd_publisher p (\<lambda>ap. ap\<lparr>ap_RetryCount := ap_RetryCount ap + 1\<rparr>) psm
     in if ap_RetryCount ap > publish_kRetryLimit then publish_enterEndState E p psm1
        else publish_enterBeginState p psm1)"

text \<open>
  The file with a state is read when it has been copied. What the reader throws is an error of the
  copy; a failed assertion is not caught.
\<close>

definition getStateFromPath :: "(Bucket \<Rightarrow> Hash) \<Rightarrow> bool \<Rightarrow> HasArchive option \<Rightarrow> HistoryArchiveState option res" where
  "getStateFromPath H ec contents =
     (if ec then Inr None
      else case contents of
             None \<Rightarrow> Inr None
           | Some ar \<Rightarrow>
               (case has_fromString H ar of
                  Inl e \<Rightarrow> if e = AssertFailed then Inl e else Inr None
                | Inr has \<Rightarrow> Inr (Some has)))"

definition got_state :: "PubEnv \<Rightarrow> nat \<Rightarrow> bool \<Rightarrow> HasArchive option \<Rightarrow> PublishStateMachine \<Rightarrow> PublishStateMachine res" where
  "got_state E p ec contents psm =
     rbind (getStateFromPath (lib_bucketHash (env_lib E)) ec contents) (\<lambda>r.
     case r of None \<Rightarrow> publish_enterRetryingState p psm | Some has \<Rightarrow> publish_enterObservedState E p has psm)"

definition state_committed :: "PubEnv \<Rightarrow> nat \<Rightarrow> bool \<Rightarrow> PublishStateMachine \<Rightarrow> PublishStateMachine res" where
  "state_committed E p ec psm = (if ec then publish_enterRetryingState p psm else publish_enterEndState E p psm)"

fun publish_answer :: "PubEnv \<Rightarrow> PubRequest \<Rightarrow> bool \<Rightarrow> HasArchive option \<Rightarrow> PublishStateMachine \<Rightarrow> PublishStateMachine res" where
  "publish_answer E (GetState p) ec contents psm = got_state E p ec contents psm"
| "publish_answer E (RetryTimer p) ec contents psm = retry_timer E p psm"
| "publish_answer E (Compress p name path) ec contents psm = publish_fileStateChange E p ec name FILE_PUBLISH_COMPRESSED psm"
| "publish_answer E (MakeDir p name dir) ec contents psm = publish_fileStateChange E p ec name FILE_PUBLISH_MADE_DIR psm"
| "publish_answer E (PutFile p name l r) ec contents psm = publish_fileStateChange E p ec name FILE_PUBLISH_UPLOADED psm"
| "publish_answer E (StateMkdir p wellKnown dir) ec contents psm =
     (if ec then state_committed E p ec psm else put_state_file E p wellKnown psm)"
| "publish_answer E (StatePut p wellKnown r ar) ec contents psm =
     (if ec \<or> wellKnown then state_committed E p ec psm else putStateInDir E p True psm)"
| "publish_answer E RecheckTimer ec contents psm = (if ec then Inr psm else writeNextSnapshot E psm)"
| "publish_answer E (PostWrite snp) ec contents psm =
     rbind (writeHistoryBlocks (env_lib E) (env_cfg E) (ss_LocalState snp) (env_headers E) (env_txRows E)) (\<lambda>block.
     snapshotWritten E False (ask (WroteBlock (ss_LocalState snp) block) psm))"
| "publish_answer E (RemoveFile path) ec contents psm = Inr psm"
| "publish_answer E (WroteBlock s b) ec contents psm = Inr psm"

subsection \<open>Snapshots\<close>

text \<open>
  The pointers of all buckets of the list; a merge that runs is waited for. The copy of the list in the
  snapshot shares its futures, which are ready then.
\<close>

fun resolve_live :: "(Bucket \<Rightarrow> Hash) \<Rightarrow> BucketLevel list \<Rightarrow> (Bucket list \<times> BucketLevel list) res" where
  "resolve_live H [] = Inr ([], [])"
| "resolve_live H (l # ls) =
     rbind (if isLive (mNextCurr l) then rbind (resolve H (mNextCurr l)) (\<lambda>(b, fb). Inr ([b], l\<lparr>mNextCurr := fb\<rparr>))
            else Inr ([], l)) (\<lambda>(next, l').
     rbind (resolve_live H ls) (\<lambda>(bs, ls'). Inr (next @ [mCurr l', mSnap l'] @ bs, l' # ls')))"

definition getLastClosedHistoryArchiveState :: "Lib \<Rightarrow> LedgerManager \<Rightarrow> HistoryArchiveState" where
  "getLastClosedHistoryArchiveState L lm =
     HistoryArchiveState_of (lib_bucketHash L) (lh_ledgerSeq (lhe_header (lm_LastClosedLedger lm))) (bm_BucketList (lm_bm lm))"

definition futures_ready :: "HistoryArchiveState \<Rightarrow> HistoryArchiveState" where
  "futures_ready has = has\<lparr>has_currentBuckets :=
     map (\<lambda>b. b\<lparr>hsb_next := worker_run (hsb_next b)\<rparr>) (has_currentBuckets has)\<rparr>"

definition takeSnapshot ::
    "Lib \<Rightarrow> string \<Rightarrow> LedgerManager \<Rightarrow> PublishStateMachine \<Rightarrow> (StateSnapshot \<times> LedgerManager \<times> PublishStateMachine) res" where
  "takeSnapshot L snapDir lm psm =
     rbind (resolve_live (lib_bucketHash L) (bm_BucketList (lm_bm lm))) (\<lambda>(buckets, levels).
     let has = getLastClosedHistoryArchiveState L lm;
         info = (\<lambda>type. FileTransferInfo_of_checkpoint FILE_PUBLISH_NEEDED snapDir type (has_currentLedger has));
         (a, psm1) = alloc_file (info HISTORY_FILE_TYPE_LEDGER) psm;
         (b, psm2) = alloc_file (info HISTORY_FILE_TYPE_TRANSACTIONS) psm1;
         (c, psm3) = alloc_file (info HISTORY_FILE_TYPE_RESULTS) psm2
     in Inr (\<lparr>ss_LocalState = futures_ready has, ss_LocalBuckets = buckets, ss_LedgerSnapFile = a,
          ss_TransactionSnapFile = b, ss_TransactionResultSnapFile = c\<rparr>,
          lm\<lparr>lm_bm := (lm_bm lm)\<lparr>bm_BucketList := levels\<rparr>\<rparr>, psm3))"

text \<open>The history manager, as far as publishing goes; the machine is made when it is needed.\<close>

definition publishHistory ::
    "PubEnv \<Rightarrow> string \<Rightarrow> nat \<Rightarrow> LedgerManager \<Rightarrow> PublishStateMachine option
      \<Rightarrow> (bool \<times> LedgerManager \<times> PublishStateMachine) res" where
  "publishHistory E snapDir handler lm publish =
     (let psm = (case publish of None \<Rightarrow> new_PublishStateMachine | Some psm \<Rightarrow> psm)
      in rbind (takeSnapshot (env_lib E) snapDir lm psm) (\<lambda>(snp, lm', psm1).
         rbind (queueSnapshot E snp handler psm1) (\<lambda>(delayed, psm2). Inr (delayed, lm', psm2))))"

definition maybePublishHistory ::
    "PubEnv \<Rightarrow> bool \<Rightarrow> string \<Rightarrow> nat \<Rightarrow> LedgerManager \<Rightarrow> PublishStateMachine option
      \<Rightarrow> (bool \<times> LedgerManager \<times> PublishStateMachine option) res" where
  "maybePublishHistory E manualCatchup snapDir handler lm publish =
     (let seq = lh_ledgerSeq (lm_CurrentLedger lm)
      in if seq \<noteq> nextCheckpointLedger (env_cfg E) manualCatchup seq then Inr (False, lm, publish)
         else if \<not> hasAnyWritableHistoryArchive (env_cfg E) then Inr (False, lm, publish)
         else rbind (publishHistory E snapDir handler lm publish) (\<lambda>(_, lm', psm). Inr (True, lm', Some psm)))"

end
