(* ===== verification/Publish_Props.thy ===== *)
theory Publish_Props
  imports Publish Ledger_Props
begin

text \<open>
  Publishing checkpoints: to how many archives the files of a checkpoint get, and how deep the loop
  over them nests.
\<close>

subsection \<open>Runs\<close>

text \<open>
  A run answers requests that are outstanding, in any order and with any outcome. The last value is
  what was answered without an error.
\<close>

inductive publish_run ::
    "PubEnv \<Rightarrow> PublishStateMachine \<Rightarrow> PublishStateMachine \<Rightarrow> PubRequest list \<Rightarrow> PubRequest list \<Rightarrow> bool"
  for E psm0 where
  start: "publish_run E psm0 psm0 (psm_asked psm0) []"
| answer: "publish_run E psm0 psm out good \<Longrightarrow> r \<in> set out \<Longrightarrow> publish_answer E r ec contents psm = Inr psm' \<Longrightarrow>
    publish_run E psm0 psm' (remove1 r out @ drop (length (psm_asked psm)) (psm_asked psm')) (if ec then good else r # good)"

text \<open>The machine when its first snapshot, of ledger \<open>n\<close>, has been queued.\<close>

definition checkpoint_file :: "string \<Rightarrow> uint32 \<Rightarrow> string \<Rightarrow> FilePublishInfo" where
  "checkpoint_file dir n type = FileTransferInfo_of_checkpoint FILE_PUBLISH_NEEDED dir type n"

definition first_snapshot :: "PubEnv \<Rightarrow> string \<Rightarrow> uint32 \<Rightarrow> StateSnapshot \<Rightarrow> nat \<Rightarrow> PublishStateMachine \<Rightarrow> bool" where
  "first_snapshot E dir n snp handler psm0 \<longleftrightarrow>
     ss_LedgerSnapFile snp = 0 \<and> ss_TransactionSnapFile snp = 1 \<and> ss_TransactionResultSnapFile snp = 2 \<and>
     (\<exists>delayed. queueSnapshot E snp handler (new_PublishStateMachine\<lparr>psm_files :=
       [checkpoint_file dir n HISTORY_FILE_TYPE_LEDGER, checkpoint_file dir n HISTORY_FILE_TYPE_TRANSACTIONS,
        checkpoint_file dir n HISTORY_FILE_TYPE_RESULTS]\<rparr>) = Inr (delayed, psm0))"

definition snap_files :: "StateSnapshot \<Rightarrow> nat list" where
  "snap_files snp = [ss_LedgerSnapFile snp, ss_TransactionSnapFile snp, ss_TransactionResultSnapFile snp]"

fun about :: "string \<Rightarrow> PubRequest \<Rightarrow> bool" where
  "about n (Compress p m path) \<longleftrightarrow> m = n"
| "about n (MakeDir p m dir) \<longleftrightarrow> m = n"
| "about n (PutFile p m l r) \<longleftrightarrow> m = n"
| "about n _ \<longleftrightarrow> False"

fun is_put :: "string \<Rightarrow> PubRequest \<Rightarrow> bool" where
  "is_put n (PutFile p m l r) \<longleftrightarrow> m = n"
| "is_put n _ \<longleftrightarrow> False"

text \<open>The state of a file against the requests for it that are outstanding and the times it was put.\<close>

fun phase_ok :: "FilePublishState \<Rightarrow> PubRequest list \<Rightarrow> nat \<Rightarrow> bool" where
  "phase_ok FILE_PUBLISH_FAILED k puts \<longleftrightarrow> k = [] \<and> puts \<le> 1"
| "phase_ok FILE_PUBLISH_NEEDED k puts \<longleftrightarrow> k = [] \<and> puts = 0"
| "phase_ok FILE_PUBLISH_COMPRESSING k puts \<longleftrightarrow> (\<exists>p m x. k = [Compress p m x]) \<and> puts = 0"
| "phase_ok FILE_PUBLISH_COMPRESSED k puts \<longleftrightarrow> k = [] \<and> puts = 0"
| "phase_ok FILE_PUBLISH_MAKING_DIR k puts \<longleftrightarrow> (\<exists>p m x. k = [MakeDir p m x]) \<and> puts = 0"
| "phase_ok FILE_PUBLISH_MADE_DIR k puts \<longleftrightarrow> k = [] \<and> puts = 0"
| "phase_ok FILE_PUBLISH_UPLOADING k puts \<longleftrightarrow> (\<exists>p m l r. k = [PutFile p m l r]) \<and> puts = 1"
| "phase_ok FILE_PUBLISH_UPLOADED k puts \<longleftrightarrow> k = [] \<and> puts = 1"

text \<open>
  What the machine keeps of file \<open>a\<close> of the snapshot, whose name is \<open>n\<close>: every publisher that has a
  file of that name has this one.
\<close>

definition names :: "PublishStateMachine \<Rightarrow> string list" where
  "names psm = map baseName_nogz (psm_files psm)"

definition pub_ok :: "nat list \<Rightarrow> nat \<Rightarrow> string \<Rightarrow> string list \<Rightarrow> ArchivePublisher \<Rightarrow> bool" where
  "pub_ok s a n ns ap \<longleftrightarrow> snap_files (ap_Snap ap) = s \<and>
     (\<forall>y \<in> set (ap_FileInfos ap). snd y < length ns \<and> ns ! snd y = fst y \<and> (fst y = n \<longrightarrow> snd y = a))"

definition pubs_ok :: "nat list \<Rightarrow> nat \<Rightarrow> string \<Rightarrow> PublishStateMachine \<Rightarrow> bool" where
  "pubs_ok s a n psm \<longleftrightarrow>
     a \<in> set s \<and> (\<forall>b \<in> set s. b < length (names psm) \<and> (names psm ! b = n \<longleftrightarrow> b = a)) \<and>
     (\<forall>h. n \<noteq> fs_baseName HISTORY_FILE_TYPE_BUCKET h ''xdr'') \<and>
     (\<forall>x \<in> set (psm_PendingSnaps psm). snap_files (fst x) = s) \<and>
     (\<forall>x \<in> set (psm_Publishers psm). pub_ok s a n (names psm) (snd x))"

definition phase :: "PubRequest list \<Rightarrow> nat \<Rightarrow> nat \<Rightarrow> string \<Rightarrow> PublishStateMachine \<Rightarrow> bool" where
  "phase out k a n psm \<longleftrightarrow> k \<le> length (psm_asked psm) \<and>
     phase_ok (file_state a psm) (filter (about n) (out @ drop k (psm_asked psm))) (length (filter (is_put n) (psm_asked psm)))"

lemma baseName_set [simp]: "baseName_nogz (fi\<lparr>fti_TransferState := s\<rparr>) = baseName_nogz fi"
  by (simp add: baseName_nogz_def)

lemma names_set_file [simp]: "names (set_file a s psm) = names psm"
  by (cases "a < length (psm_files psm)") (simp_all add: names_def set_file_def map_update list_update_same_conv list_update_beyond)

lemma names_simps [simp]:
  "names (ask r psm) = names psm" "names (upd_publisher p f psm) = names psm"
  by (simp_all add: names_def ask_def upd_publisher_def)

lemma record_simps [simp]:
  "names (psm\<lparr>psm_Publishers := ps\<rparr>) = names psm" "file_state a (psm\<lparr>psm_Publishers := ps\<rparr>) = file_state a psm"
  "names (psm\<lparr>psm_PendingSnaps := q\<rparr>) = names psm" "file_state a (psm\<lparr>psm_PendingSnaps := q\<rparr>) = file_state a psm"
  "names (psm\<lparr>psm_finished := f\<rparr>) = names psm" "file_state a (psm\<lparr>psm_finished := f\<rparr>) = file_state a psm"
  "names (psm\<lparr>psm_made := m\<rparr>) = names psm" "file_state a (psm\<lparr>psm_made := m\<rparr>) = file_state a psm"
  by (simp_all add: names_def file_state_def)

lemma length_names [simp]: "length (names psm) = length (psm_files psm)"
  by (simp add: names_def)

lemma names_nth [simp]: "a < length (psm_files psm) \<Longrightarrow> names psm ! a = baseName_nogz (psm_files psm ! a)"
  by (simp add: names_def)

lemma set_file_simps [simp]:
  "psm_Publishers (set_file a s psm) = psm_Publishers psm"
  "psm_PendingSnaps (set_file a s psm) = psm_PendingSnaps psm"
  "psm_asked (set_file a s psm) = psm_asked psm"
  "length (psm_files (set_file a s psm)) = length (psm_files psm)"
  "a < length (psm_files psm) \<Longrightarrow> file_state a (set_file a s psm) = s"
  "a \<noteq> b \<Longrightarrow> file_state b (set_file a s psm) = file_state b psm"
  by (simp_all add: set_file_def file_state_def)

lemma ask_simps [simp]:
  "psm_Publishers (ask r psm) = psm_Publishers psm"
  "psm_PendingSnaps (ask r psm) = psm_PendingSnaps psm"
  "psm_files (ask r psm) = psm_files psm"
  "psm_asked (ask r psm) = psm_asked psm @ [r]"
  "file_state a (ask r psm) = file_state a psm"
  by (simp_all add: ask_def file_state_def)

lemma upd_simps [simp]:
  "psm_PendingSnaps (upd_publisher p f psm) = psm_PendingSnaps psm"
  "psm_files (upd_publisher p f psm) = psm_files psm"
  "psm_asked (upd_publisher p f psm) = psm_asked psm"
  "file_state a (upd_publisher p f psm) = file_state a psm"
  by (simp_all add: upd_publisher_def file_state_def)

lemma set_upd: "set (psm_Publishers (upd_publisher p f psm)) = (\<lambda>(q, ap). (q, if q = p then f ap else ap)) ` set (psm_Publishers psm)"
  by (simp add: upd_publisher_def)

lemma pubs_ok_ask [simp]: "pubs_ok s a n (ask r psm) = pubs_ok s a n psm"
  by (simp add: pubs_ok_def)

lemma pubs_ok_set_file [simp]: "pubs_ok s a n (set_file b st psm) = pubs_ok s a n psm"
  by (simp add: pubs_ok_def pub_ok_def)

lemma pubs_ok_upd:
  assumes "pubs_ok s a n psm" "\<And>ap. ap_Snap (f ap) = ap_Snap ap" "\<And>ap. ap_FileInfos (f ap) = ap_FileInfos ap"
  shows "pubs_ok s a n (upd_publisher p f psm)"
proof -
  have "pub_ok s a n files (f ap) = pub_ok s a n files ap" for files ap by (simp add: pub_ok_def assms)
  with assms(1) show ?thesis by (auto simp: pubs_ok_def set_upd)
qed

lemma publisher_in: "publisher p psm = Inr ap \<Longrightarrow> (p, ap) \<in> set (psm_Publishers psm)"
  by (auto simp: publisher_def split: option.splits dest: map_of_SomeD)

definition sent_ok :: "PubRequest list \<Rightarrow> nat \<Rightarrow> nat list \<Rightarrow> nat \<Rightarrow> string \<Rightarrow> PublishStateMachine \<Rightarrow> bool" where
  "sent_ok out k s a n psm \<longleftrightarrow> pubs_ok s a n psm \<and> phase out k a n psm"

lemma about_put: "is_put n r \<Longrightarrow> about n r"
  by (cases r) auto

lemma sent_ok_ask: "sent_ok out k s a n psm \<Longrightarrow> \<not> about n r \<Longrightarrow> sent_ok out k s a n (ask r psm)"
  using about_put by (auto simp: sent_ok_def phase_def)

lemma sent_ok_upd:
  assumes "sent_ok out k s a n psm" "\<And>ap. ap_Snap (f ap) = ap_Snap ap" "\<And>ap. ap_FileInfos (f ap) = ap_FileInfos ap"
  shows "sent_ok out k s a n (upd_publisher p f psm)"
  using assms pubs_ok_upd by (auto simp: sent_ok_def phase_def)

lemma sent_ok_set_other: "sent_ok out k s a n psm \<Longrightarrow> b \<noteq> a \<Longrightarrow> sent_ok out k s a n (set_file b st psm)"
  by (simp add: sent_ok_def phase_def)

lemma expect_sent_ok: "expect_state p from to psm = Inr psm' \<Longrightarrow> sent_ok out k s a n psm \<Longrightarrow> sent_ok out k s a n psm'"
  by (auto simp: expect_state_def rbind_eq_Inr intro!: sent_ok_upd)

lemma retrying_sent_ok:
  "publish_enterRetryingState p psm = Inr psm' \<Longrightarrow> sent_ok out k s a n psm \<Longrightarrow> sent_ok out k s a n psm'"
  by (auto simp: publish_enterRetryingState_def rbind_eq_Inr intro!: sent_ok_ask dest: expect_sent_ok)

lemma begin_sent_ok:
  "publish_enterBeginState p psm = Inr psm' \<Longrightarrow> sent_ok out k s a n psm \<Longrightarrow> sent_ok out k s a n psm'"
  by (auto simp: publish_enterBeginState_def rbind_eq_Inr intro!: sent_ok_ask dest: expect_sent_ok)

lemma put_state_file_sent_ok:
  "put_state_file E p w psm = Inr psm' \<Longrightarrow> sent_ok out k s a n psm \<Longrightarrow> sent_ok out k s a n psm'"
  by (auto simp: put_state_file_def rbind_eq_Inr Let_def intro!: sent_ok_ask)

lemma putStateInDir_sent_ok:
  "putStateInDir E p w psm = Inr psm' \<Longrightarrow> sent_ok out k s a n psm \<Longrightarrow> sent_ok out k s a n psm'"
  by (auto simp: putStateInDir_def rbind_eq_Inr Let_def intro!: sent_ok_ask dest: put_state_file_sent_ok split: if_splits)

lemma committing_sent_ok:
  "publish_enterCommittingState E p psm = Inr psm' \<Longrightarrow> sent_ok out k s a n psm \<Longrightarrow> sent_ok out k s a n psm'"
  by (auto simp: publish_enterCommittingState_def putState_def rbind_eq_Inr dest: putStateInDir_sent_ok expect_sent_ok)

lemma pub_ok_file:
  assumes "pub_ok s a n ns ap" "(m, b) \<in> set (ap_FileInfos ap)"
  shows "b < length ns" "ns ! b = m" "m = n \<Longrightarrow> b = a"
  using assms unfolding pub_ok_def by fastforce+

lemma pubs_ok_a: "pubs_ok s a n psm \<Longrightarrow> a < length (psm_files psm) \<and> names psm ! a = n"
  unfolding pubs_ok_def by (metis length_names)

lemma pubs_ok_publisher: "pubs_ok s a n psm \<Longrightarrow> publisher p psm = Inr ap \<Longrightarrow> pub_ok s a n (names psm) ap"
  by (auto simp: pubs_ok_def dest!: publisher_in)

lemma pubs_ok_file:
  assumes "pubs_ok s a n psm" "pub_ok s a n (names psm) ap" "(m, b) \<in> set (ap_FileInfos ap)"
  shows "b < length (psm_files psm)" "names psm ! b = m" "m = n \<longleftrightarrow> b = a"
  using pub_ok_file [OF assms(2,3)] pubs_ok_a [OF assms(1)] by auto

lemma change_file_cases:
  assumes "change_file p ec m st psm = Inr psm'" "pubs_ok s a n psm"
  obtains b where "m = n \<longleftrightarrow> b = a" "b < length (psm_files psm)" "names psm ! b = m"
    "psm' = set_file b (if ec then FILE_PUBLISH_FAILED else st)
       (if ec then upd_publisher p (\<lambda>ap. ap\<lparr>ap_Error := True\<rparr>) psm else psm)"
proof -
  obtain ap b where ap: "publisher p psm = Inr ap" "map_of (ap_FileInfos ap) m = Some b"
    and psm': "psm' = set_file b (if ec then FILE_PUBLISH_FAILED else st)
       (if ec then upd_publisher p (\<lambda>ap. ap\<lparr>ap_Error := True\<rparr>) psm else psm)"
    using assms(1) by (auto simp: change_file_def rbind_eq_Inr split: option.splits)
  show thesis
    using pubs_ok_file [OF assms(2) pubs_ok_publisher [OF assms(2) ap(1)] map_of_SomeD [OF ap(2)]] that psm' by blast
qed

text \<open>Where the directory needs no command the file is ready to be put at once.\<close>

lemma send_file_sent_ok:
  assumes "send_file p b psm = Inr (called, psm1)" "sent_ok out k s a n psm" "b < length (psm_files psm)"
    and "b = a \<longleftrightarrow> names psm ! b = n"
  shows "if called then psm1 = set_file b FILE_PUBLISH_MAKING_DIR psm \<and> file_state b psm = FILE_PUBLISH_COMPRESSED
    else sent_ok out k s a n psm1"
proof (cases "b = a")
  case True
  show ?thesis
  proof (cases "file_state a psm")
    case FILE_PUBLISH_NEEDED
    with assms True have "psm1 = ask (Compress p n (fti_LocalPath (psm_files psm ! a))) (set_file a FILE_PUBLISH_COMPRESSING psm)" "\<not> called"
      by (auto simp: send_file_def Let_def rbind_eq_Inr file_state_def)
    with assms True FILE_PUBLISH_NEEDED show ?thesis by (auto simp: sent_ok_def phase_def filter_empty_conv)
  next
    case FILE_PUBLISH_COMPRESSED
    with assms True have "called \<and> psm1 = set_file a FILE_PUBLISH_MAKING_DIR psm \<or>
        (\<exists>dir. psm1 = ask (MakeDir p n dir) (set_file a FILE_PUBLISH_MAKING_DIR psm)) \<and> \<not> called"
      by (auto simp: send_file_def Let_def rbind_eq_Inr file_state_def split: if_splits)
    with assms True FILE_PUBLISH_COMPRESSED show ?thesis by (auto simp: sent_ok_def phase_def filter_empty_conv)
  next
    case FILE_PUBLISH_MADE_DIR
    with assms True obtain l r where "psm1 = ask (PutFile p n l r) (set_file a FILE_PUBLISH_UPLOADING psm)" "\<not> called"
      by (auto simp: send_file_def Let_def rbind_eq_Inr file_state_def)
    with assms True FILE_PUBLISH_MADE_DIR show ?thesis by (auto simp: sent_ok_def phase_def filter_empty_conv)
  qed (use assms True in \<open>auto simp: send_file_def Let_def rbind_eq_Inr file_state_def intro!: sent_ok_ask\<close>)
next
  case False
  with assms show ?thesis
    by (cases "fti_TransferState (psm_files psm ! b)")
      (auto simp: send_file_def Let_def rbind_eq_Inr file_state_def intro!: sent_ok_ask sent_ok_set_other split: if_splits)
qed

lemma sent_ok_made_dir:
  assumes "sent_ok out k s a n psm" "b < length (psm_files psm)" "file_state b psm = FILE_PUBLISH_COMPRESSED"
  shows "sent_ok out k s a n (set_file b FILE_PUBLISH_MADE_DIR (set_file b FILE_PUBLISH_MAKING_DIR psm))"
  using assms by (cases "b = a") (auto simp: sent_ok_def phase_def)


lemma quiet_files:
  "expect_state p from to psm = Inr psm' \<Longrightarrow> psm_files psm' = psm_files psm"
  "publish_enterRetryingState p psm = Inr psm' \<Longrightarrow> psm_files psm' = psm_files psm"
  "put_state_file E p w psm = Inr psm' \<Longrightarrow> psm_files psm' = psm_files psm"
  "putStateInDir E p w psm = Inr psm' \<Longrightarrow> psm_files psm' = psm_files psm"
  "publish_enterCommittingState E p psm = Inr psm' \<Longrightarrow> psm_files psm' = psm_files psm"
  "publish_enterBeginState p psm = Inr psm' \<Longrightarrow> psm_files psm' = psm_files psm"
  by (auto simp: expect_state_def publish_enterRetryingState_def publish_enterBeginState_def put_state_file_def putStateInDir_def
      publish_enterCommittingState_def putState_def rbind_eq_Inr Let_def split: if_splits)

lemma send_file_names: "send_file p b psm = Inr (called, psm1) \<Longrightarrow> names psm1 = names psm"
  by (cases "fti_TransferState (psm_files psm ! b)") (auto simp: send_file_def Let_def rbind_eq_Inr split: if_splits)

text \<open>One round of the loop, with the nested call where there is one.\<close>

lemma sending_cons:
  assumes "sending_loop E fuel p ((m, b) # fs) st psm = Inr psm'"
  obtains called psm1 psm4 where "send_file p b psm = Inr (called, psm1)"
    "sending_loop E fuel p fs (min (file_state b psm4) st) psm4 = Inr psm'"
    "if called then \<exists>psm2 ap. change_file p False (baseName_nogz (psm_files psm ! b)) FILE_PUBLISH_MADE_DIR psm1 = Inr psm2 \<and>
        publisher p psm2 = Inr ap \<and>
        (psm4 = psm2 \<or> (\<exists>psm3. expect_state p [PUBLISH_OBSERVED, PUBLISH_SENDING] PUBLISH_SENDING psm2 = Inr psm3 \<and>
          (psm4 = psm3 \<or> (\<exists>k. fuel = Suc k \<and> sending_loop E k p (ap_FileInfos ap) FILE_PUBLISH_UPLOADED psm3 = Inr psm4))))
     else psm4 = psm1"
proof -
  obtain called psm1 where 1: "send_file p b psm = Inr (called, psm1)"
    using assms by (cases "send_file p b psm") auto
  let ?C = "change_file p False (baseName_nogz (psm_files psm ! b)) FILE_PUBLISH_MADE_DIR psm1"
  show thesis
  proof (cases called)
    case False
    with assms 1 have "sending_loop E fuel p fs (min (file_state b psm1) st) psm1 = Inr psm'" by simp
    with False 1 show thesis by (intro that [of called psm1 psm1]) simp_all
  next
    case True
    obtain psm2 where 2: "?C = Inr psm2" using assms 1 True by (cases ?C) auto
    obtain ap where 3: "publisher p psm2 = Inr ap" using assms 1 True 2 by (cases "publisher p psm2") auto
    let ?X = "expect_state p [PUBLISH_OBSERVED, PUBLISH_SENDING] PUBLISH_SENDING psm2"
    show thesis
    proof (cases "ap_State ap = PUBLISH_RETRYING")
      case r: True
      with assms 1 True 2 3 have "sending_loop E fuel p fs (min (file_state b psm2) st) psm2 = Inr psm'" by simp
      with True 1 2 3 show thesis by (intro that [of called psm1 psm2]) auto
    next
      case False
      then obtain psm3 where 4: "?X = Inr psm3" using assms 1 True 2 3 by (cases ?X) auto
      show thesis
      proof (cases fuel)
        case 0
        with assms 1 True 2 3 4 False have "sending_loop E fuel p fs (min (file_state b psm3) st) psm3 = Inr psm'" by simp
        with True 1 2 3 4 show thesis by (intro that [of called psm1 psm3]) auto
      next
        case (Suc k)
        then obtain psm4 where 5: "sending_loop E k p (ap_FileInfos ap) FILE_PUBLISH_UPLOADED psm3 = Inr psm4"
          "sending_loop E fuel p fs (min (file_state b psm4) st) psm4 = Inr psm'"
          using assms 1 True 2 3 4 False by (cases "sending_loop E k p (ap_FileInfos ap) FILE_PUBLISH_UPLOADED psm3") auto
        with True 1 2 3 4 Suc show thesis by (intro that [of called psm1 psm4]) auto
      qed
    qed
  qed
qed

lemma sending_sent_ok:
  "sending_loop E fuel p fs st psm = Inr psm' \<Longrightarrow> sent_ok out k s a n psm \<Longrightarrow> pub_ok s a n (names psm) ap \<Longrightarrow>
   set fs \<subseteq> set (ap_FileInfos ap) \<Longrightarrow> sent_ok out k s a n psm' \<and> names psm' = names psm"
proof (induction "(fuel, fs)" arbitrary: fuel fs st psm psm' ap rule: wf_induct_rule [OF wf_lex_prod [OF wf_less_than wf_measure [of length]]])
  case 1
  note IH = 1(1) and prems = 1(2-)
  show ?case
  proof (cases fs)
    case Nil
    with prems show ?thesis
      by (auto split: if_splits dest: retrying_sent_ok committing_sent_ok quiet_files simp: names_def)
  next
    case (Cons f fs')
    obtain m b where f: "f = (m, b)" by fastforce
    obtain called psm1 psm4 where 1: "send_file p b psm = Inr (called, psm1)"
      "sending_loop E fuel p fs' (min (file_state b psm4) st) psm4 = Inr psm'"
      "if called then \<exists>psm2 ap. change_file p False (baseName_nogz (psm_files psm ! b)) FILE_PUBLISH_MADE_DIR psm1 = Inr psm2 \<and>
        publisher p psm2 = Inr ap \<and>
        (psm4 = psm2 \<or> (\<exists>psm3. expect_state p [PUBLISH_OBSERVED, PUBLISH_SENDING] PUBLISH_SENDING psm2 = Inr psm3 \<and>
          (psm4 = psm3 \<or> (\<exists>k. fuel = Suc k \<and> sending_loop E k p (ap_FileInfos ap) FILE_PUBLISH_UPLOADED psm3 = Inr psm4))))
       else psm4 = psm1"
      using prems(1) unfolding Cons f by (rule sending_cons)
    have ok: "pubs_ok s a n psm" using prems(2) by (simp add: sent_ok_def)
    have b: "b < length (psm_files psm)" "names psm ! b = m" "m = n \<longleftrightarrow> b = a"
      using pubs_ok_file [OF ok prems(3), of m b] prems(4) Cons f by auto
    have sf: "if called then psm1 = set_file b FILE_PUBLISH_MAKING_DIR psm \<and> file_state b psm = FILE_PUBLISH_COMPRESSED
      else sent_ok out k s a n psm1"
      using send_file_sent_ok [OF 1(1) prems(2) b(1)] b by auto
    have "sent_ok out k s a n psm4 \<and> names psm4 = names psm"
    proof (cases called)
      case True
      with 1(3) obtain psm2 ap2 where 2: "change_file p False (baseName_nogz (psm_files psm ! b)) FILE_PUBLISH_MADE_DIR psm1 = Inr psm2"
        "publisher p psm2 = Inr ap2"
        "psm4 = psm2 \<or> (\<exists>psm3. expect_state p [PUBLISH_OBSERVED, PUBLISH_SENDING] PUBLISH_SENDING psm2 = Inr psm3 \<and>
          (psm4 = psm3 \<or> (\<exists>k. fuel = Suc k \<and> sending_loop E k p (ap_FileInfos ap2) FILE_PUBLISH_UPLOADED psm3 = Inr psm4)))"
        by auto
      have psm1: "psm1 = set_file b FILE_PUBLISH_MAKING_DIR psm" "file_state b psm = FILE_PUBLISH_COMPRESSED" using sf True by auto
      have "pubs_ok s a n psm1" using ok psm1(1) by simp
      from change_file_cases [OF 2(1) this] obtain b' where
        b': "names psm1 ! b' = m" "m = n \<longleftrightarrow> b' = a" "psm2 = set_file b' FILE_PUBLISH_MADE_DIR psm1"
        "b' < length (psm_files psm)"
        using b psm1(1) by auto
      have s2: "sent_ok out k s a n psm2" "names psm2 = names psm"
        using sent_ok_made_dir [OF prems(2) b(1) psm1(2)] sent_ok_set_other [OF sent_ok_set_other [OF prems(2)]] b(3) b' psm1
        by (cases "m = n"; auto)+
      have s3: "sent_ok out k s a n psm3" "names psm3 = names psm"
        if "expect_state p [PUBLISH_OBSERVED, PUBLISH_SENDING] PUBLISH_SENDING psm2 = Inr psm3" for psm3
        using expect_sent_ok [OF that s2(1)] quiet_files(1) [OF that] s2(2) by (auto simp: names_def)
      have "pub_ok s a n (names psm) ap2" using pubs_ok_publisher [OF _ 2(2)] s2 by (auto simp: sent_ok_def)
      then have "sent_ok out k s a n psm4 \<and> names psm4 = names psm"
        if "expect_state p [PUBLISH_OBSERVED, PUBLISH_SENDING] PUBLISH_SENDING psm2 = Inr psm3" "fuel = Suc j"
          "sending_loop E j p (ap_FileInfos ap2) FILE_PUBLISH_UPLOADED psm3 = Inr psm4" for psm3 j
        using IH [OF _ that(3) s3(1) [OF that(1)], of ap2] s3(2) [OF that(1)] that(2) by auto
      with 2(3) s2 s3 show ?thesis by auto
    qed (use 1 sf send_file_names [OF 1(1)] in auto)
    moreover have "((fuel, fs'), (fuel, fs)) \<in> less_than <*lex*> measure length" using Cons by simp
    ultimately show ?thesis using IH [OF _ 1(2)] prems(3,4) Cons by auto
  qed
qed

lemma enterSending_sent_ok:
  assumes "publish_enterSendingState E p psm = Inr psm'" "sent_ok out k s a n psm"
  shows "sent_ok out k s a n psm'"
proof -
  from assms(1) obtain psm1 ap where 1: "expect_state p [PUBLISH_OBSERVED, PUBLISH_SENDING] PUBLISH_SENDING psm = Inr psm1"
    "publisher p psm1 = Inr ap" "sending_loop E (length (ap_FileInfos ap)) p (ap_FileInfos ap) FILE_PUBLISH_UPLOADED psm1 = Inr psm'"
    by (auto simp: publish_enterSendingState_def rbind_eq_Inr)
  have "sent_ok out k s a n psm1" using expect_sent_ok [OF 1(1) assms(2)] .
  moreover from this have "pub_ok s a n (names psm1) ap" using pubs_ok_publisher [OF _ 1(2)] by (simp add: sent_ok_def)
  ultimately show ?thesis using sending_sent_ok [OF 1(3)] by blast
qed

lemma pub_ok_append: "pub_ok s a n ns ap \<Longrightarrow> pub_ok s a n (ns @ ns') ap"
  unfolding pub_ok_def by (auto simp: nth_append)

lemma alloc_sent_ok:
  assumes "sent_ok out k s a n psm" "alloc_file fi psm = (b, psm1)"
  shows "sent_ok out k s a n psm1" "names psm1 = names psm @ [baseName_nogz fi]" "b = length (names psm)"
    "psm_Publishers psm1 = psm_Publishers psm"
proof -
  have psm1: "psm1 = psm\<lparr>psm_files := psm_files psm @ [fi]\<rparr>" using assms(2) by (simp add: alloc_file_def)
  then show names: "names psm1 = names psm @ [baseName_nogz fi]" by (simp add: names_def)
  show "b = length (names psm)" "psm_Publishers psm1 = psm_Publishers psm"
    using assms(2) by (auto simp: alloc_file_def)
  have ok: "pubs_ok s a n psm" using assms(1) by (simp add: sent_ok_def)
  have "file_state a psm1 = file_state a psm" using pubs_ok_a [OF ok] by (simp add: psm1 file_state_def nth_append)
  moreover have "pubs_ok s a n psm1"
    using ok pub_ok_append [of s a n "names psm" _ "[baseName_nogz fi]"] unfolding pubs_ok_def names
    by (auto simp: psm1 nth_append)
  ultimately show "sent_ok out k s a n psm1" using assms(1) by (simp add: sent_ok_def phase_def psm1)
qed

lemma alloc_buckets_sent_ok:
  "alloc_buckets E byHash hs psm = Inr (as, psm') \<Longrightarrow> sent_ok out k s a n psm \<Longrightarrow>
   sent_ok out k s a n psm' \<and> psm_Publishers psm' = psm_Publishers psm \<and> (\<exists>ns. names psm' = names psm @ ns) \<and>
   (\<forall>b \<in> set as. b < length (names psm') \<and> names psm' ! b \<noteq> n)"
proof (induction hs arbitrary: psm as)
  case (Cons h hs)
  obtain b where b: "map_of byHash (binToHex h) = Some b" using Cons.prems(1) by (cases "map_of byHash (binToHex h)") auto
  let ?h = "bucket_hash (lib_bucketHash (env_lib E)) b"
  let ?fi = "FileTransferInfo_of_bucket FILE_PUBLISH_NEEDED (env_bucketDir E @ ''/'' @ bucketBasename (binToHex ?h)) ?h"
  obtain c psm1 where c: "alloc_file ?fi psm = (c, psm1)" by fastforce
  with Cons.prems(1) b obtain cs where cs: "alloc_buckets E byHash hs psm1 = Inr (cs, psm')" "as = c # cs"
    by (auto simp: rbind_eq_Inr Let_def)
  note al = alloc_sent_ok [OF Cons.prems(2) c]
  obtain ns where ns: "names psm' = names psm1 @ ns" using Cons.IH [OF cs(1) al(1)] by blast
  have "n \<noteq> baseName_nogz ?fi"
    using Cons.prems(2) by (simp add: sent_ok_def pubs_ok_def baseName_nogz_def FileTransferInfo_of_bucket_def)
  then have "c < length (names psm') \<and> names psm' ! c \<noteq> n"
    using al(2,3) by (auto simp: ns nth_append simp del: length_names)
  with Cons.IH [OF cs(1) al(1)] al cs(2) show ?case by (auto simp del: names_nth length_names)
qed simp

lemma set_queue_files:
  "set (queue_files files as m) \<subseteq> set m \<union> {(baseName_nogz (files ! b), b) | b. b \<in> set as}"
proof (induction as arbitrary: m)
  case (Cons b as)
  define m' where "m' = (case map_of m (baseName_nogz (files ! b)) of
      None \<Rightarrow> om_update (baseName_nogz (files ! b)) b m
    | Some c \<Rightarrow> if fti_TransferState (files ! c) = FILE_PUBLISH_FAILED then om_update (baseName_nogz (files ! b)) b m else m)"
  have "set m' \<subseteq> insert (baseName_nogz (files ! b), b) (set m)"
    using set_om_update [of "baseName_nogz (files ! b)" b m] by (auto simp: m'_def split: option.splits)
  moreover have "queue_files files (b # as) m = queue_files files as m'" by (simp add: m'_def Let_def)
  ultimately show ?case using Cons.IH [of m'] by auto
qed simp

lemma enterObserved_sent_ok:
  assumes "publish_enterObservedState E p has psm = Inr psm'" "sent_ok out k s a n psm"
  shows "sent_ok out k s a n psm'"
proof -
  let ?upd = "\<lambda>snp psm2 as ap. ap\<lparr>ap_ArchiveState := has, ap_FileInfos := queue_files (psm_files psm2) (snap_files snp @ as) (ap_FileInfos ap)\<rparr>"
  from assms(1) obtain psm1 ap byHash hs as psm2 where
    1: "expect_state p [PUBLISH_BEGIN] PUBLISH_OBSERVED psm = Inr psm1" "publisher p psm1 = Inr ap"
      "alloc_buckets E byHash hs psm1 = Inr (as, psm2)"
      "publish_enterSendingState E p (upd_publisher p (?upd (ap_Snap ap) psm2 as) psm2) = Inr psm'"
    by (auto simp: publish_enterObservedState_def rbind_eq_Inr Let_def snap_files_def)
  have s1: "sent_ok out k s a n psm1" using expect_sent_ok [OF 1(1) assms(2)] .
  note s2 = alloc_buckets_sent_ok [OF 1(3) s1]
  have ok2: "pubs_ok s a n psm2" using s2 by (simp add: sent_ok_def)
  have sn: "snap_files (ap_Snap ap) = s"
    using pubs_ok_publisher [OF _ 1(2), of s a n] s1 by (simp add: sent_ok_def pub_ok_def)
  have "pub_ok s a n (names psm2) (?upd (ap_Snap ap) psm2 as x)" if "pub_ok s a n (names psm2) x" for x
  proof -
    have "b < length (names psm2) \<and> (names psm2 ! b = n \<longrightarrow> b = a)" if "b \<in> set (s @ as)" for b
      using that s2 ok2 unfolding pubs_ok_def by auto
    then have "snd y < length (names psm2) \<and> names psm2 ! snd y = fst y \<and> (fst y = n \<longrightarrow> snd y = a)"
      if "y \<in> set (queue_files (psm_files psm2) (s @ as) (ap_FileInfos x))" for y
      using that set_queue_files [of "psm_files psm2" "s @ as" "ap_FileInfos x"] \<open>pub_ok s a n (names psm2) x\<close>
      unfolding pub_ok_def by (auto dest!: subsetD)
    then show ?thesis using that by (simp add: pub_ok_def sn del: names_nth)
  qed
  then have "pubs_ok s a n (upd_publisher p (?upd (ap_Snap ap) psm2 as) psm2)"
    using ok2 by (auto simp: pubs_ok_def set_upd)
  then have "sent_ok out k s a n (upd_publisher p (?upd (ap_Snap ap) psm2 as) psm2)"
    using s2 by (simp add: sent_ok_def phase_def)
  with 1(4) show ?thesis by (rule enterSending_sent_ok)
qed

lemma start_publishers_sent_ok:
  "start_publishers snp as psm = Inr psm' \<Longrightarrow> sent_ok out k s a n psm \<Longrightarrow> snap_files snp = s \<Longrightarrow> sent_ok out k s a n psm'"
proof (induction as arbitrary: psm)
  case (Cons x as)
  have "sent_ok out k s a n psm1" if "new_publisher snp x psm = Inr psm1" for psm1
  proof -
    have "sent_ok out k s a n (psm\<lparr>psm_Publishers := psm_Publishers psm @ [(psm_made psm, ap)], psm_made := m\<rparr>)"
      if "ap_Snap ap = snp" "ap_FileInfos ap = []" for ap m
      using that Cons.prems(2,3) by (auto simp: sent_ok_def pubs_ok_def phase_def) (simp add: pub_ok_def)
    with \<open>new_publisher snp x psm = Inr psm1\<close> show ?thesis by (auto simp: new_publisher_def Let_def dest!: begin_sent_ok)
  qed
  with Cons show ?case by (auto simp: rbind_eq_Inr split: if_splits)
qed simp

lemma sent_ok_pending:
  assumes "sent_ok out k s a n psm" "\<forall>x \<in> set q. snap_files (fst x) = s"
  shows "sent_ok out k s a n (psm\<lparr>psm_PendingSnaps := q\<rparr>)"
  using assms by (auto simp: sent_ok_def pubs_ok_def phase_def)

lemma sent_ok_front: "sent_ok out k s a n psm \<Longrightarrow> psm_PendingSnaps psm = (snp, h) # q \<Longrightarrow> snap_files snp = s"
  by (auto simp: sent_ok_def pubs_ok_def)

lemma writeNext_sent_ok:
  assumes "writeNextSnapshot E psm = Inr psm'" "sent_ok out k s a n psm"
  shows "sent_ok out k s a n psm'"
proof (cases "psm_PendingSnaps psm")
  case Nil
  with assms show ?thesis by (simp add: writeNextSnapshot_def)
next
  case (Cons x q)
  obtain snp h where x: "x = (snp, h)" by fastforce
  have s: "snap_files snp = s" using sent_ok_front [OF assms(2)] Cons x by simp
  then have "snap_files (snp\<lparr>ss_LocalState := l\<rparr>) = s" for l by (simp add: snap_files_def)
  moreover from this have "sent_ok out k s a n (psm\<lparr>psm_PendingSnaps := (snp\<lparr>ss_LocalState := l\<rparr>, h) # q\<rparr>)" for l
    using assms(2) Cons by (intro sent_ok_pending) (auto simp: sent_ok_def pubs_ok_def)
  ultimately show ?thesis
    using assms(1) Cons x
    by (auto simp: writeNextSnapshot_def write_blocks_def rbind_eq_Inr Let_def intro!: sent_ok_ask
        dest!: start_publishers_sent_ok split: if_splits)
qed

lemma sent_ok_finished [simp]: "sent_ok out k s a n (psm\<lparr>psm_finished := f\<rparr>) = sent_ok out k s a n psm"
  by (simp add: sent_ok_def pubs_ok_def phase_def)

lemma finishOne_sent_ok:
  assumes "finishOne E ec psm = Inr psm'" "sent_ok out k s a n psm"
  shows "sent_ok out k s a n psm'"
proof -
  obtain x q where q: "psm_PendingSnaps psm = x # q" using assms(1) by (cases "psm_PendingSnaps psm") (auto simp: finishOne_def)
  have "sent_ok out k s a n (psm\<lparr>psm_finished := f, psm_PendingSnaps := q\<rparr>)" for f
    using assms(2) q by (intro sent_ok_pending) (simp, auto simp: sent_ok_def pubs_ok_def)
  with assms(1) q show ?thesis by (cases x) (auto simp: finishOne_def dest!: writeNext_sent_ok)
qed

lemma endState_sent_ok:
  assumes "publish_enterEndState E p psm = Inr psm'" "sent_ok out k s a n psm"
  shows "sent_ok out k s a n psm'"
proof -
  define psm1 where "psm1 = upd_publisher p (\<lambda>ap. ap\<lparr>ap_State := PUBLISH_END\<rparr>) psm"
  define rest where "rest = filter (\<lambda>(p, ap). ap_State ap \<noteq> PUBLISH_END) (psm_Publishers psm1)"
  have "sent_ok out k s a n psm1" unfolding psm1_def by (rule sent_ok_upd [OF assms(2)]) simp_all
  then have "sent_ok out k s a n (psm1\<lparr>psm_Publishers := rest\<rparr>)"
    by (auto simp: sent_ok_def pubs_ok_def phase_def rest_def)
  then show ?thesis
    using assms(1)
    by (auto simp: publish_enterEndState_def snapshotPublished_def rbind_eq_Inr Let_def psm1_def [symmetric] rest_def [symmetric]
        dest: finishOne_sent_ok split: if_splits)
qed

lemma retry_timer_sent_ok:
  "retry_timer E p psm = Inr psm' \<Longrightarrow> sent_ok out k s a n psm \<Longrightarrow> sent_ok out k s a n psm'"
  by (auto simp: retry_timer_def rbind_eq_Inr Let_def intro!: sent_ok_upd dest!: endState_sent_ok begin_sent_ok split: if_splits)

lemma committed_sent_ok:
  "state_committed E p ec psm = Inr psm' \<Longrightarrow> sent_ok out k s a n psm \<Longrightarrow> sent_ok out k s a n psm'"
  by (auto simp: state_committed_def dest: endState_sent_ok retrying_sent_ok split: if_splits)

lemma got_state_sent_ok:
  "got_state E p ec c psm = Inr psm' \<Longrightarrow> sent_ok out k s a n psm \<Longrightarrow> sent_ok out k s a n psm'"
  by (auto simp: got_state_def rbind_eq_Inr dest: retrying_sent_ok enterObserved_sent_ok split: option.splits)

lemma written_sent_ok:
  "snapshotWritten E ec psm = Inr psm' \<Longrightarrow> sent_ok out k s a n psm \<Longrightarrow> sent_ok out k s a n psm'"
  using sent_ok_front [of out k s a n psm]
  by (auto simp: snapshotWritten_def split: list.splits if_splits intro: finishOne_sent_ok start_publishers_sent_ok)

text \<open>An answer about a file takes the request away and moves the file on, or marks it as failed.\<close>

lemma sent_ok_later: "sent_ok out k s a n psm \<Longrightarrow> sent_ok (out @ drop k (psm_asked psm)) (length (psm_asked psm)) s a n psm"
  by (simp add: sent_ok_def phase_def)

lemma sent_ok_answered:
  assumes "sent_ok out (length (psm_asked psm)) s a n psm" "\<not> about n r"
  shows "sent_ok (remove1 r out) (length (psm_asked psm)) s a n psm"
  using assms by (simp add: sent_ok_def phase_def filter_remove1 remove1_filter_not [of "about n"])

fun reached_state :: "PubRequest \<Rightarrow> FilePublishState" where
  "reached_state (Compress p m x) = FILE_PUBLISH_COMPRESSED"
| "reached_state (MakeDir p m x) = FILE_PUBLISH_MADE_DIR"
| "reached_state _ = FILE_PUBLISH_UPLOADED"

lemma phase_answered: "phase_ok st k c \<Longrightarrow> r \<in> set k \<Longrightarrow> phase_ok (if ec then FILE_PUBLISH_FAILED else reached_state r) (remove1 r k) c"
  by (cases st) auto

lemma changed_sent_ok:
  assumes "sent_ok out (length (psm_asked psm)) s a n psm" "r \<in> set out" "about m r"
    and "change_file p ec m (reached_state r) psm = Inr psm1"
  shows "sent_ok (remove1 r out) (length (psm_asked psm)) s a n psm1"
proof -
  have ok: "pubs_ok s a n psm" using assms(1) by (simp add: sent_ok_def)
  obtain b where b: "m = n \<longleftrightarrow> b = a" "b < length (psm_files psm)"
    "psm1 = set_file b (if ec then FILE_PUBLISH_FAILED else reached_state r)
       (if ec then upd_publisher p (\<lambda>ap. ap\<lparr>ap_Error := True\<rparr>) psm else psm)"
    using change_file_cases [OF assms(4) ok] by metis
  have ok1: "pubs_ok s a n (if ec then upd_publisher p (\<lambda>ap. ap\<lparr>ap_Error := True\<rparr>) psm else psm)"
    using ok pubs_ok_upd [OF ok] by simp
  show ?thesis
  proof (cases "m = n")
    case True
    let ?k = "filter (about n) out" and ?c = "length (filter (is_put n) (psm_asked psm))"
    have r: "r \<in> set ?k" using assms(2,3) True by simp
    have "phase_ok (file_state a psm) ?k ?c" using assms(1) by (simp add: sent_ok_def phase_def)
    then have "phase_ok (if ec then FILE_PUBLISH_FAILED else reached_state r) (remove1 r ?k) ?c"
      using r by (rule phase_answered)
    then show ?thesis using b True ok1 by (cases ec) (simp_all add: sent_ok_def phase_def filter_remove1)
  next
    case False
    with assms(3) have "\<not> about n r" by (cases r) auto
    with sent_ok_answered [OF assms(1)] False b ok1 show ?thesis by (auto simp: sent_ok_def phase_def)
  qed
qed

lemma fileStateChange_sent_ok:
  assumes "sent_ok out (length (psm_asked psm)) s a n psm" "r \<in> set out" "about m r"
    and "publish_fileStateChange E p ec m (reached_state r) psm = Inr psm'"
  shows "sent_ok (remove1 r out) (length (psm_asked psm)) s a n psm'"
  using assms(4) changed_sent_ok [OF assms(1-3)]
  by (auto simp: publish_fileStateChange_def rbind_eq_Inr dest: enterSending_sent_ok split: if_splits)

lemma answer_sent_ok:
  assumes "sent_ok out (length (psm_asked psm)) s a n psm" "r \<in> set out" "publish_answer E r ec c psm = Inr psm'"
  shows "sent_ok (remove1 r out) (length (psm_asked psm)) s a n psm'"
proof -
  note ok = sent_ok_answered [OF assms(1), of r] and change = fileStateChange_sent_ok [OF assms(1,2), of _ E _ ec psm']
  show ?thesis
  proof (cases r)
    case (GetState p)
    with ok assms(3) show ?thesis by (auto intro: got_state_sent_ok)
  next
    case (RetryTimer p)
    with ok assms(3) show ?thesis by (auto intro: retry_timer_sent_ok)
  next
    case (StateMkdir p w d)
    with ok assms(3) show ?thesis by (auto intro: committed_sent_ok put_state_file_sent_ok split: if_splits)
  next
    case (StatePut p w d ar)
    with ok assms(3) show ?thesis by (auto intro: committed_sent_ok putStateInDir_sent_ok split: if_splits)
  next
    case RecheckTimer
    with ok assms(3) show ?thesis by (auto intro: writeNext_sent_ok split: if_splits)
  next
    case (PostWrite snp)
    with assms(3) obtain b where "snapshotWritten E False (ask (WroteBlock (ss_LocalState snp) b) psm) = Inr psm'"
      by (auto simp: rbind_eq_Inr)
    moreover have "sent_ok (remove1 r out) (length (psm_asked psm)) s a n (ask (WroteBlock (ss_LocalState snp) b) psm)"
      using ok PostWrite by (intro sent_ok_ask) simp_all
    ultimately show ?thesis by (rule written_sent_ok)
  qed (use ok change assms(3) in auto)
qed

lemma run_sent_ok:
  assumes "publish_run E psm0 psm out good" "sent_ok [] 0 s a n psm0"
  shows "sent_ok out (length (psm_asked psm)) s a n psm"
  using assms(1)
proof induction
  case start
  show ?case using sent_ok_later [OF assms(2)] by simp
next
  case (answer psm out good r ec c psm')
  from sent_ok_later [OF answer_sent_ok [OF answer.IH answer(2,3)]] show ?case .
qed

lemma checkpoint_types:
  assumes "t \<in> {HISTORY_FILE_TYPE_LEDGER, HISTORY_FILE_TYPE_TRANSACTIONS, HISTORY_FILE_TYPE_RESULTS, HISTORY_FILE_TYPE_BUCKET}"
  shows "CHR ''-'' \<notin> set t"
  using assms by (auto simp: HISTORY_FILE_TYPE_LEDGER_def HISTORY_FILE_TYPE_TRANSACTIONS_def HISTORY_FILE_TYPE_RESULTS_def HISTORY_FILE_TYPE_BUCKET_def)

lemma baseName_checkpoint [simp]: "baseName_nogz (checkpoint_file dir n t) = fs_baseName t (hexStr n) ''xdr''"
  by (simp add: checkpoint_file_def FileTransferInfo_of_checkpoint_def FileTransferInfo_of_digits_def baseName_nogz_def)

lemma first_sent_ok:
  assumes "first_snapshot E dir n snp h psm0"
    and "t \<in> {HISTORY_FILE_TYPE_LEDGER, HISTORY_FILE_TYPE_TRANSACTIONS, HISTORY_FILE_TYPE_RESULTS}"
  obtains a where "sent_ok [] 0 [0, 1, 2] a (fs_baseName t (hexStr n) ''xdr'') psm0"
proof -
  let ?t = "[HISTORY_FILE_TYPE_LEDGER, HISTORY_FILE_TYPE_TRANSACTIONS, HISTORY_FILE_TYPE_RESULTS]"
  let ?psm = "new_PublishStateMachine\<lparr>psm_files := [checkpoint_file dir n HISTORY_FILE_TYPE_LEDGER,
    checkpoint_file dir n HISTORY_FILE_TYPE_TRANSACTIONS, checkpoint_file dir n HISTORY_FILE_TYPE_RESULTS]\<rparr>"
  let ?q = "?psm\<lparr>psm_PendingSnaps := [(snp, h)]\<rparr>"
  have t: "distinct ?t" "HISTORY_FILE_TYPE_BUCKET \<notin> set ?t"
    by (simp_all add: HISTORY_FILE_TYPE_LEDGER_def HISTORY_FILE_TYPE_TRANSACTIONS_def HISTORY_FILE_TYPE_RESULTS_def HISTORY_FILE_TYPE_BUCKET_def)
  have nm: "fs_baseName u x ''xdr'' = fs_baseName v y ''xdr'' \<longleftrightarrow> u = v \<and> x = y"
    if "u \<in> insert HISTORY_FILE_TYPE_BUCKET (set ?t)" "v \<in> insert HISTORY_FILE_TYPE_BUCKET (set ?t)" for u v x y
    using that by (intro fs_baseName_inject checkpoint_types) auto
  have "t \<in> set ?t" using assms(2) by simp
  then obtain a where a: "a < 3" "?t ! a = t" unfolding in_set_conv_nth by (auto simp: numeral_3_eq_3)
  have "pubs_ok [0, 1, 2] a (fs_baseName t (hexStr n) ''xdr'') ?q"
    using a assms(1) t nm
    by (auto simp: pubs_ok_def new_PublishStateMachine_def snap_files_def first_snapshot_def numeral_3_eq_3 less_Suc_eq)
  moreover have "file_state a ?q = FILE_PUBLISH_NEEDED"
    using a(1) by (auto simp: file_state_def checkpoint_file_def FileTransferInfo_of_checkpoint_def FileTransferInfo_of_digits_def
        numeral_3_eq_3 less_Suc_eq)
  ultimately have "sent_ok [] 0 [0, 1, 2] a (fs_baseName t (hexStr n) ''xdr'') ?q"
    by (simp add: sent_ok_def phase_def) (simp add: new_PublishStateMachine_def)
  moreover have "writeNextSnapshot E ?q = Inr psm0"
    using assms(1) by (auto simp: first_snapshot_def queueSnapshot_def new_PublishStateMachine_def rbind_eq_Inr Let_def)
  ultimately show thesis using that writeNext_sent_ok by blast
qed


text \<open>All requests answered in their order, without an error.\<close>

fun play :: "PubEnv \<Rightarrow> HasArchive option \<Rightarrow> nat \<Rightarrow> PublishStateMachine \<Rightarrow> PubRequest list \<Rightarrow> (PublishStateMachine \<times> PubRequest list) res" where
  "play E c 0 psm out = Inr (psm, out)"
| "play E c (Suc k) psm [] = Inr (psm, [])"
| "play E c (Suc k) psm (r # out) =
     rbind (publish_answer E r False c psm) (\<lambda>psm'.
     play E c k psm' (out @ drop (length (psm_asked psm)) (psm_asked psm')))"

lemma play_run:
  "play E c k psm out = Inr (psm', out') \<Longrightarrow> publish_run E psm0 psm out good \<Longrightarrow> \<exists>good'. publish_run E psm0 psm' out' good'"
proof (induction E c k psm out arbitrary: good rule: play.induct)
  case (3 E c k psm r out)
  then obtain psm1 where 1: "publish_answer E r False c psm = Inr psm1"
    "play E c k psm1 (out @ drop (length (psm_asked psm)) (psm_asked psm1)) = Inr (psm', out')"
    by (auto simp: rbind_eq_Inr)
  from publish_run.answer [OF "3.prems"(2) _ 1(1)] "3.IH" [OF 1] show ?case by simp
qed auto

text \<open>Two archives that both can be written to, and the checkpoint of an empty bucket list at ledger 63.\<close>

definition sample_archive :: "string \<Rightarrow> HistoryArchive" where
  "sample_archive name = \<lparr>arc_Name = name, arc_GetCmd = ''cp'', arc_PutCmd = ''cp'', arc_MkdirCmd = ''mkdir''\<rparr>"

definition archives_env :: "string list \<Rightarrow> PubEnv" where
  "archives_env archives = \<lparr>env_lib = sample_lib, env_cfg = \<lparr>hc_HISTORY = map sample_archive archives,
     hc_ARTIFICIALLY_ACCELERATE_TIME_FOR_TESTING = False\<rparr>, env_canUsePool = False, env_headers = [], env_txRows = [],
     env_bucketDir = ''buckets''\<rparr>"

definition sample_snapshot :: StateSnapshot where
  "sample_snapshot = \<lparr>ss_LocalState = new_HistoryArchiveState\<lparr>has_currentLedger := 63\<rparr>, ss_LocalBuckets = [],
     ss_LedgerSnapFile = 0, ss_TransactionSnapFile = 1, ss_TransactionResultSnapFile = 2\<rparr>"

definition sample_files :: PublishStateMachine where
  "sample_files = new_PublishStateMachine\<lparr>psm_files :=
       [checkpoint_file ''tmp'' 63 HISTORY_FILE_TYPE_LEDGER, checkpoint_file ''tmp'' 63 HISTORY_FILE_TYPE_TRANSACTIONS,
        checkpoint_file ''tmp'' 63 HISTORY_FILE_TYPE_RESULTS]\<rparr>"

definition empty_archive :: HasArchive where
  "empty_archive = \<lparr>ha_version = 0, ha_currentLedger = 0, ha_currentBuckets = replicate 11
     (0, \<lparr>ar_state = FB_CLEAR, ar_curr = None, ar_snap = None, ar_shadow = [], ar_output = None\<rparr>, 0)\<rparr>"

definition sample_play :: "string list \<Rightarrow> (PublishStateMachine \<times> PubRequest list) res" where
  "sample_play archives =
     rbind (queueSnapshot (archives_env archives) sample_snapshot 7 sample_files) (\<lambda>(_, psm0).
     play (archives_env archives) (Some empty_archive) 100 psm0 (psm_asked psm0))"


subsection \<open>The nesting of the loop\<close>

text \<open>
  The loop over the files nests at most as deep as there are files that are compressed, so that the
  fuel it is given, the number of files, is enough: more of it changes nothing.
\<close>

lemma publisher_upd:
  "publisher p (upd_publisher p f psm) = (case publisher p psm of Inl e \<Rightarrow> Inl e | Inr ap \<Rightarrow> Inr (f ap))"
proof -
  have "map_of (map (\<lambda>(q, ap). (q, if q = p then f ap else ap)) xs) p = map_option f (map_of xs p)" for xs
    by (induction xs) auto
  then show ?thesis by (auto simp: publisher_def upd_publisher_def split: option.splits)
qed

lemma publisher_ask [simp]: "publisher p (ask r psm) = publisher p psm" "publisher p (set_file a s psm) = publisher p psm"
  by (simp_all add: publisher_def)

definition compressed :: "nat set \<Rightarrow> PublishStateMachine \<Rightarrow> nat set" where
  "compressed B psm = {b \<in> B. file_state b psm = FILE_PUBLISH_COMPRESSED}"

definition files_wf :: "nat \<Rightarrow> PublishStateMachine \<Rightarrow> bool" where
  "files_wf p psm \<longleftrightarrow> (\<forall>ap. publisher p psm = Inr ap \<longrightarrow> distinct (map fst (ap_FileInfos ap)) \<and>
     (\<forall>(m, b) \<in> set (ap_FileInfos ap). b < length (psm_files psm) \<and> names psm ! b = m))"

lemma file_state_set_file:
  "b < length (psm_files psm) \<Longrightarrow> file_state c (set_file b st psm) = (if c = b then st else file_state c psm)"
  by simp

lemma compressed_set_file:
  "st \<noteq> FILE_PUBLISH_COMPRESSED \<Longrightarrow> b < length (psm_files psm) \<Longrightarrow> compressed B (set_file b st psm) = compressed B psm - {b}"
  by (auto simp: compressed_def file_state_set_file split: if_splits)

lemma compressed_simps [simp]:
  "compressed B (ask r psm) = compressed B psm" "compressed B (upd_publisher p f psm) = compressed B psm"
  by (simp_all add: compressed_def)

lemma send_file_compressed:
  assumes "send_file p b psm = Inr (called, psm1)" "b < length (psm_files psm)"
  shows "compressed B psm1 \<subseteq> compressed B psm \<and> psm_Publishers psm1 = psm_Publishers psm \<and> names psm1 = names psm \<and>
    (called \<longrightarrow> file_state b psm = FILE_PUBLISH_COMPRESSED \<and> psm1 = set_file b FILE_PUBLISH_MAKING_DIR psm)"
  using assms
  by (cases "fti_TransferState (psm_files psm ! b)")
    (auto simp: send_file_def Let_def rbind_eq_Inr compressed_set_file file_state_def split: if_splits)

text \<open>What the callback for a directory does: the file is not among those that are compressed any more.\<close>

lemma called_compressed:
  assumes "send_file p b psm = Inr (True, psm1)" "publisher p psm = Inr ap" "files_wf p psm" "(m, b) \<in> set (ap_FileInfos ap)"
    and "change_file p False (baseName_nogz (psm_files psm ! b)) FILE_PUBLISH_MADE_DIR psm1 = Inr psm2"
  shows "b \<in> compressed {b} psm" "compressed B psm2 = compressed B psm - {b}" "publisher p psm2 = Inr ap" "names psm2 = names psm"
proof -
  have b: "b < length (psm_files psm)" "baseName_nogz (psm_files psm ! b) = m" "distinct (map fst (ap_FileInfos ap))"
    using assms(2-4) names_nth [of b psm] by (auto simp: files_wf_def)
  have 1: "file_state b psm = FILE_PUBLISH_COMPRESSED" "psm1 = set_file b FILE_PUBLISH_MAKING_DIR psm"
    using send_file_compressed [OF assms(1) b(1)] by auto
  have "map_of (ap_FileInfos ap) m = Some b" using assms(4) b(3) by simp
  then have psm2: "psm2 = set_file b FILE_PUBLISH_MADE_DIR psm1"
    using assms(2,5) b(2) 1(2) by (auto simp: change_file_def publisher_def)
  show "b \<in> compressed {b} psm" using 1(1) by (simp add: compressed_def)
  show "compressed B psm2 = compressed B psm - {b}" "publisher p psm2 = Inr ap" "names psm2 = names psm"
    using b(1) assms(2) by (auto simp: psm2 1(2) compressed_set_file publisher_def)
qed

lemma files_wf_same:
  "files_wf p psm \<Longrightarrow> publisher p psm = Inr ap \<Longrightarrow> publisher p psm' = Inr ap' \<Longrightarrow> ap_FileInfos ap' = ap_FileInfos ap \<Longrightarrow>
   names psm' = names psm \<Longrightarrow> files_wf p psm'"
  unfolding files_wf_def by (metis length_names sum.inject(2))

lemma sending_compressed:
  "sending_loop E fuel p fs st psm = Inr psm' \<Longrightarrow> publisher p psm = Inr ap \<Longrightarrow> files_wf p psm \<Longrightarrow>
   set fs \<subseteq> set (ap_FileInfos ap) \<Longrightarrow>
   compressed B psm' \<subseteq> compressed B psm \<and> names psm' = names psm \<and>
   (\<exists>ap'. publisher p psm' = Inr ap' \<and> ap_FileInfos ap' = ap_FileInfos ap)"
proof (induction "(fuel, fs)" arbitrary: fuel fs st psm psm' ap
    rule: wf_induct_rule [OF wf_lex_prod [OF wf_less_than wf_measure [of length]]])
  case 1
  note IH = 1(1) and prems = 1(2-)
  show ?case
  proof (cases fs)
    case Nil
    with prems show ?thesis
      by (auto simp: publish_enterRetryingState_def publish_enterCommittingState_def putState_def putStateInDir_def put_state_file_def
          expect_state_def Let_def rbind_eq_Inr publisher_upd split: if_splits)
  next
    case (Cons f fs')
    obtain m b where f: "f = (m, b)" by fastforce
    obtain called psm1 psm4 where 1: "send_file p b psm = Inr (called, psm1)"
      "sending_loop E fuel p fs' (min (file_state b psm4) st) psm4 = Inr psm'"
      "if called then \<exists>psm2 ap. change_file p False (baseName_nogz (psm_files psm ! b)) FILE_PUBLISH_MADE_DIR psm1 = Inr psm2 \<and>
        publisher p psm2 = Inr ap \<and>
        (psm4 = psm2 \<or> (\<exists>psm3. expect_state p [PUBLISH_OBSERVED, PUBLISH_SENDING] PUBLISH_SENDING psm2 = Inr psm3 \<and>
          (psm4 = psm3 \<or> (\<exists>k. fuel = Suc k \<and> sending_loop E k p (ap_FileInfos ap) FILE_PUBLISH_UPLOADED psm3 = Inr psm4))))
       else psm4 = psm1"
      using prems(1) unfolding Cons f by (rule sending_cons)
    have mem: "(m, b) \<in> set (ap_FileInfos ap)" using prems(4) Cons f by simp
    then have b: "b < length (psm_files psm)" using prems(2,3) by (auto simp: files_wf_def)
    have "compressed B psm4 \<subseteq> compressed B psm \<and> names psm4 = names psm \<and>
      (\<exists>ap'. publisher p psm4 = Inr ap' \<and> ap_FileInfos ap' = ap_FileInfos ap)"
    proof (cases called)
      case False
      with 1 send_file_compressed [OF 1(1) b] prems(2) show ?thesis by (auto simp: publisher_def)
    next
      case True
      with 1(3) obtain psm2 where 2: "change_file p False (baseName_nogz (psm_files psm ! b)) FILE_PUBLISH_MADE_DIR psm1 = Inr psm2"
        "\<exists>ap. publisher p psm2 = Inr ap \<and> (psm4 = psm2 \<or>
          (\<exists>psm3. expect_state p [PUBLISH_OBSERVED, PUBLISH_SENDING] PUBLISH_SENDING psm2 = Inr psm3 \<and>
          (psm4 = psm3 \<or> (\<exists>k. fuel = Suc k \<and> sending_loop E k p (ap_FileInfos ap) FILE_PUBLISH_UPLOADED psm3 = Inr psm4))))"
        by auto
      note c2 = called_compressed [OF 1(1) [unfolded True [THEN eqTrueI]] prems(2,3) mem 2(1)]
      have c3: "compressed B psm3 = compressed B psm2 \<and> names psm3 = names psm \<and> publisher p psm3 = Inr (ap\<lparr>ap_State := PUBLISH_SENDING\<rparr>)"
        if "expect_state p [PUBLISH_OBSERVED, PUBLISH_SENDING] PUBLISH_SENDING psm2 = Inr psm3" for psm3
        using that c2(3,4) by (auto simp: expect_state_def rbind_eq_Inr publisher_upd)
      have ?thesis if "expect_state p [PUBLISH_OBSERVED, PUBLISH_SENDING] PUBLISH_SENDING psm2 = Inr psm3" "fuel = Suc k"
        "sending_loop E k p (ap_FileInfos ap) FILE_PUBLISH_UPLOADED psm3 = Inr psm4" for psm3 k
        using IH [OF _ that(3), of "ap\<lparr>ap_State := PUBLISH_SENDING\<rparr>"] c3 [OF that(1)] that(2) c2(2)
          files_wf_same [OF prems(3,2), of psm3 "ap\<lparr>ap_State := PUBLISH_SENDING\<rparr>"] by auto
      with 2(2) c2 c3 show ?thesis by fastforce
    qed
    then obtain ap' where ap': "compressed B psm4 \<subseteq> compressed B psm" "names psm4 = names psm" "publisher p psm4 = Inr ap'"
      "ap_FileInfos ap' = ap_FileInfos ap" by blast
    have "((fuel, fs'), (fuel, fs)) \<in> less_than <*lex*> measure length" using Cons by simp
    from IH [OF this 1(2) ap'(3) files_wf_same [OF prems(3,2) ap'(3,4,2)]] ap' prems(4) Cons show ?thesis by auto
  qed
qed

lemma sending_fuel:
  "publisher p psm = Inr ap \<Longrightarrow> files_wf p psm \<Longrightarrow> set fs \<subseteq> set (ap_FileInfos ap) \<Longrightarrow>
   card (compressed (snd ` set (ap_FileInfos ap)) psm) \<le> fuel \<Longrightarrow>
   sending_loop E (Suc fuel) p fs st psm = sending_loop E fuel p fs st psm"
proof (induction "(fuel, fs)" arbitrary: fuel fs st psm ap
    rule: wf_induct_rule [OF wf_lex_prod [OF wf_less_than wf_measure [of length]]])
  case 1
  note IH = 1(1) and prems = 1(2-)
  let ?B = "snd ` set (ap_FileInfos ap)"
  show ?case
  proof (cases fs)
    case (Cons f fs')
    obtain m b where f: "f = (m, b)" by fastforce
    have mem: "(m, b) \<in> set (ap_FileInfos ap)" using prems(3) Cons f by simp
    then have b: "b < length (psm_files psm)" using prems(1,2) by (auto simp: files_wf_def)
    have less: "((fuel, fs'), (fuel, fs)) \<in> less_than <*lex*> measure length" using Cons by simp
    have rest: "sending_loop E (Suc fuel) p fs' st' psm4 = sending_loop E fuel p fs' st' psm4"
      if "compressed ?B psm4 \<subseteq> compressed ?B psm" "names psm4 = names psm" "publisher p psm4 = Inr ap'"
        "ap_FileInfos ap' = ap_FileInfos ap" for st' psm4 ap'
    proof -
      have "card (compressed ?B psm4) \<le> fuel"
        using card_mono [OF _ that(1)] prems(4) by (simp add: compressed_def)
      then show ?thesis
        using IH [OF less that(3) files_wf_same [OF prems(2,1) that(3,4,2)]] that(4) prems(3) Cons by auto
    qed
    show ?thesis
    proof (cases "send_file p b psm")
      case (Inr x)
      obtain called psm1 where 1: "send_file p b psm = Inr (called, psm1)" using Inr by (cases x) auto
      note s1 = send_file_compressed [OF 1 b, of ?B]
      show ?thesis
      proof (cases called)
        case False
        with s1 prems(1) rest [of psm1 ap] 1 show ?thesis unfolding Cons f by (simp add: publisher_def)
      next
        case True
        let ?C = "change_file p False (baseName_nogz (psm_files psm ! b)) FILE_PUBLISH_MADE_DIR psm1"
        let ?X = "expect_state p [PUBLISH_OBSERVED, PUBLISH_SENDING] PUBLISH_SENDING"
        show ?thesis
        proof (cases ?C)
          case (Inl e)
          with 1 True show ?thesis unfolding Cons f by simp
        next
          case (Inr psm2)
          note c2 = called_compressed [OF 1 [unfolded True [THEN eqTrueI]] prems(1,2) mem Inr]
          have "b \<in> compressed ?B psm" using c2(1) mem by (force simp: compressed_def)
          then have "card (compressed ?B psm2) < card (compressed ?B psm)"
            unfolding c2(2) by (intro card_Diff1_less) (simp_all add: compressed_def)
          then obtain k where k: "fuel = Suc k" "card (compressed ?B psm2) \<le> k" using prems(4) by (cases fuel) auto
          have r2: "sending_loop E (Suc fuel) p fs' st' psm2 = sending_loop E fuel p fs' st' psm2" for st'
            using rest [of psm2 ap] c2 by simp
          show ?thesis
          proof (cases "?X psm2")
            case (Inl e)
            with 1 True Inr c2(3) r2 show ?thesis unfolding Cons f by simp
          next
            case X: (Inr psm3)
            let ?ap = "ap\<lparr>ap_State := PUBLISH_SENDING\<rparr>"
            have c3: "compressed ?B psm3 = compressed ?B psm2" "names psm3 = names psm" "publisher p psm3 = Inr ?ap"
              using X c2(3,4) by (auto simp: expect_state_def rbind_eq_Inr publisher_upd)
            have wf3: "files_wf p psm3" using files_wf_same [OF prems(2,1) c3(3)] c3(2) by simp
            have "((k, ap_FileInfos ap), (fuel, fs)) \<in> less_than <*lex*> measure length" using k by simp
            from IH [OF this c3(3) wf3] k(2) c3(1)
            have n: "sending_loop E (Suc k) p (ap_FileInfos ap) FILE_PUBLISH_UPLOADED psm3 =
              sending_loop E k p (ap_FileInfos ap) FILE_PUBLISH_UPLOADED psm3" by simp
            have "sending_loop E (Suc fuel) p fs' st' psm4 = sending_loop E fuel p fs' st' psm4"
              if "sending_loop E k p (ap_FileInfos ap) FILE_PUBLISH_UPLOADED psm3 = Inr psm4" for st' psm4
            proof -
              note r4 = that
              obtain ap' where s: "compressed ?B psm4 \<subseteq> compressed ?B psm3" "names psm4 = names psm3"
                "publisher p psm4 = Inr ap'" "ap_FileInfos ap' = ap_FileInfos ap"
                using sending_compressed [OF r4 c3(3) wf3, of ?B] by auto
              moreover have "compressed ?B psm4 \<subseteq> compressed ?B psm" using s(1) c3(1) c2(2) by blast
              ultimately show ?thesis using rest c3(2) by simp
            qed
            with 1 True Inr c2(3) r2 X n k(1) show ?thesis unfolding Cons f
              by (cases "sending_loop E k p (ap_FileInfos ap) FILE_PUBLISH_UPLOADED psm3") simp_all
          qed
        qed
      qed
    qed (simp add: Cons f)
  qed simp
qed

lemma sending_fuel_enough:
  assumes "publisher p psm = Inr ap" "files_wf p psm" "length (ap_FileInfos ap) \<le> fuel"
  shows "sending_loop E fuel p (ap_FileInfos ap) st psm = sending_loop E (length (ap_FileInfos ap)) p (ap_FileInfos ap) st psm"
  using assms(3)
proof (induction rule: dec_induct)
  case (step n)
  have "card (compressed (snd ` set (ap_FileInfos ap)) psm) \<le> card (snd ` set (ap_FileInfos ap))"
    by (intro card_mono) (auto simp: compressed_def)
  also have "\<dots> \<le> length (ap_FileInfos ap)" by (metis card_image_le card_length finite_set le_trans)
  finally show ?case using sending_fuel [OF assms(1,2), of "ap_FileInfos ap" n E st] step by simp
qed simp

end
