(* ===== verification/Publish_State.thy ===== *)
theory Publish_State
  imports Publish_Props
begin

text \<open>
  When a publisher writes the state of its archive: what was put before, by itself and by others, over
  all checkpoints that a node publishes.
\<close>

subsection \<open>The state is written last\<close>

text \<open>
  The files of a checkpoint are shared by the publishers of all archives, the files of buckets belong
  to one publisher each. A file was put when some publisher was told that its command succeeded, and
  put by a publisher when that publisher was told so.
\<close>

definition was_put :: "PubRequest list \<Rightarrow> string \<Rightarrow> bool" where
  "was_put good n \<longleftrightarrow> (\<exists>p l r. PutFile p n l r \<in> set good)"

definition was_put_by :: "nat \<Rightarrow> PubRequest list \<Rightarrow> string \<Rightarrow> bool" where
  "was_put_by p good n \<longleftrightarrow> (\<exists>l r. PutFile p n l r \<in> set good)"

definition sent_by :: "nat set \<Rightarrow> PubRequest list \<Rightarrow> nat \<Rightarrow> string \<times> nat \<Rightarrow> bool" where
  "sent_by S good p y \<longleftrightarrow> (if snd y \<in> S then was_put good (fst y) else was_put_by p good (fst y))"

definition bucket_name :: "Hash \<Rightarrow> string" where
  "bucket_name h = fs_baseName HISTORY_FILE_TYPE_BUCKET (binToHex h) ''xdr''"

definition checkpoint_names :: "StateSnapshot \<Rightarrow> string list" where
  "checkpoint_names snp = map (\<lambda>t. fs_baseName t (hexStr (has_currentLedger (ss_LocalState snp))) ''xdr'')
     [HISTORY_FILE_TYPE_LEDGER, HISTORY_FILE_TYPE_TRANSACTIONS, HISTORY_FILE_TYPE_RESULTS]"

text \<open>
  What a publisher owes its archive: the three files of its snapshot and the buckets the archive
  lacks. \<open>S\<close> are the places of the shared files.
\<close>

definition owed :: "Lib \<Rightarrow> ArchivePublisher \<Rightarrow> string set res" where
  "owed L ap =
     rbind (differingBuckets (lib_bucketHash L) (ap_ArchiveState ap) (ss_LocalState (ap_Snap ap))) (\<lambda>hs.
     Inr (set (checkpoint_names (ap_Snap ap)) \<union> bucket_name ` set hs))"

lemma owed_simps [simp]:
  "owed L (ap\<lparr>ap_State := st\<rparr>) = owed L ap" "owed L (ap\<lparr>ap_Error := e\<rparr>) = owed L ap"
  "owed L (ap\<lparr>ap_RetryCount := k\<rparr>) = owed L ap" "owed L (ap\<lparr>ap_FileInfos := m\<rparr>) = owed L ap"
  by (simp_all add: owed_def)

definition snap_ok :: "nat set \<Rightarrow> string list \<Rightarrow> StateSnapshot \<Rightarrow> bool" where
  "snap_ok S ns snp \<longleftrightarrow> set (snap_files snp) \<subseteq> S \<and> map (nth ns) (snap_files snp) = checkpoint_names snp"

definition upload_ok :: "Lib \<Rightarrow> nat set \<Rightarrow> PubRequest list \<Rightarrow> nat \<Rightarrow> string list \<Rightarrow> ArchivePublisher \<Rightarrow> bool" where
  "upload_ok L S good p ns ap \<longleftrightarrow> snap_ok S ns (ap_Snap ap) \<and>
     (\<forall>y \<in> set (ap_FileInfos ap). snd y < length ns \<and> ns ! snd y = fst y) \<and>
     (ap_State ap \<in> {PUBLISH_OBSERVED, PUBLISH_SENDING, PUBLISH_COMMITTING} \<longrightarrow> (\<exists>N. owed L ap = Inr N \<and> N \<subseteq> fst ` set (ap_FileInfos ap))) \<and>
     (ap_State ap = PUBLISH_COMMITTING \<longrightarrow> (\<forall>y \<in> set (ap_FileInfos ap). sent_by S good p y))"

definition own_ok :: "nat set \<Rightarrow> PubRequest list \<Rightarrow> PublishStateMachine \<Rightarrow> bool" where
  "own_ok S good psm \<longleftrightarrow>
     (\<forall>(p, ap) \<in> set (psm_Publishers psm). \<forall>(m, b) \<in> set (ap_FileInfos ap). b \<notin> S \<longrightarrow>
        (file_state b psm = FILE_PUBLISH_UPLOADED \<longrightarrow> was_put_by p good m) \<and>
        (\<forall>(p', ap') \<in> set (psm_Publishers psm). b \<in> snd ` set (ap_FileInfos ap') \<longrightarrow> p' = p))"

definition shared_ok :: "nat set \<Rightarrow> PubRequest list \<Rightarrow> PublishStateMachine \<Rightarrow> bool" where
  "shared_ok S good psm \<longleftrightarrow>
     (\<forall>b < length (psm_files psm). file_state b psm = FILE_PUBLISH_UPLOADED \<longrightarrow> was_put good (names psm ! b)) \<and>
     (\<forall>b \<in> S. b < length (psm_files psm) \<and> (\<forall>h. names psm ! b \<noteq> bucket_name h))"

definition uploads_ok :: "Lib \<Rightarrow> nat set \<Rightarrow> PubRequest list \<Rightarrow> PublishStateMachine \<Rightarrow> bool" where
  "uploads_ok L S good psm \<longleftrightarrow> shared_ok S good psm \<and> own_ok S good psm \<and>
     (\<forall>x \<in> set (psm_PendingSnaps psm). snap_ok S (names psm) (fst x)) \<and>
     distinct (map fst (psm_Publishers psm)) \<and>
     (\<forall>x \<in> set (psm_Publishers psm). fst x < psm_made psm \<and> upload_ok L S good (fst x) (names psm) (snd x))"

declare names_nth [simp del]

lemma made_simps [simp]:
  "psm_made (ask r psm) = psm_made psm" "psm_made (set_file a s psm) = psm_made psm"
  "psm_made (upd_publisher p f psm) = psm_made psm"
  "map fst (psm_Publishers (upd_publisher p f psm)) = map fst (psm_Publishers psm)"
  by (auto simp: ask_def set_file_def upd_publisher_def)

lemma own_okI:
  assumes "\<And>p ap m b. (p, ap) \<in> set (psm_Publishers psm) \<Longrightarrow> (m, b) \<in> set (ap_FileInfos ap) \<Longrightarrow> b \<notin> S \<Longrightarrow>
      file_state b psm = FILE_PUBLISH_UPLOADED \<Longrightarrow> was_put_by p good m"
    and "\<And>p ap m b p' ap' m'. (p, ap) \<in> set (psm_Publishers psm) \<Longrightarrow> (m, b) \<in> set (ap_FileInfos ap) \<Longrightarrow> b \<notin> S \<Longrightarrow>
      (p', ap') \<in> set (psm_Publishers psm) \<Longrightarrow> (m', b) \<in> set (ap_FileInfos ap') \<Longrightarrow> p' = p"
  shows "own_ok S good psm"
  using assms by (auto simp: own_ok_def)

lemma own_put:
  "uploads_ok L S good psm \<Longrightarrow> (p, ap) \<in> set (psm_Publishers psm) \<Longrightarrow> (m, b) \<in> set (ap_FileInfos ap) \<Longrightarrow> b \<notin> S \<Longrightarrow>
    file_state b psm = FILE_PUBLISH_UPLOADED \<Longrightarrow> was_put_by p good m"
  by (auto simp: uploads_ok_def own_ok_def)

lemma own_sole:
  "uploads_ok L S good psm \<Longrightarrow> (p, ap) \<in> set (psm_Publishers psm) \<Longrightarrow> (m, b) \<in> set (ap_FileInfos ap) \<Longrightarrow> b \<notin> S \<Longrightarrow>
    (p', ap') \<in> set (psm_Publishers psm) \<Longrightarrow> (m', b) \<in> set (ap_FileInfos ap') \<Longrightarrow> p' = p"
  unfolding uploads_ok_def own_ok_def by force

lemma uploads_ask [simp]: "uploads_ok L S good (ask r psm) = uploads_ok L S good psm"
  by (simp add: uploads_ok_def shared_ok_def own_ok_def)

lemma uploads_in: "uploads_ok L S good psm \<Longrightarrow> (p, ap) \<in> set (psm_Publishers psm) \<Longrightarrow> upload_ok L S good p (names psm) ap"
  by (auto simp: uploads_ok_def)

lemma uploads_set_file:
  assumes "uploads_ok L S good psm"
    and "st = FILE_PUBLISH_UPLOADED \<Longrightarrow> was_put good (names psm ! b)"
    and "\<And>p ap m. st = FILE_PUBLISH_UPLOADED \<Longrightarrow> (p, ap) \<in> set (psm_Publishers psm) \<Longrightarrow> (m, b) \<in> set (ap_FileInfos ap) \<Longrightarrow>
      b \<notin> S \<Longrightarrow> was_put_by p good m"
  shows "uploads_ok L S good (set_file b st psm)"
proof -
  have st: "file_state c (set_file b st psm) = (if c = b then st else file_state c psm)" if "c < length (psm_files psm)" for c
    using that by auto
  have "shared_ok S good (set_file b st psm)" using assms(1,2) by (auto simp: uploads_ok_def shared_ok_def st)
  moreover have "own_ok S good (set_file b st psm)"
  proof (rule own_okI, unfold set_file_simps)
    fix p ap m c
    assume c: "(p, ap) \<in> set (psm_Publishers psm)" "(m, c) \<in> set (ap_FileInfos ap)" "c \<notin> S"
    have "c < length (psm_files psm)" using assms(1) c(1,2) by (fastforce simp: uploads_ok_def upload_ok_def)
    then show "file_state c (set_file b st psm) = FILE_PUBLISH_UPLOADED \<Longrightarrow> was_put_by p good m"
      using assms(3) c own_put [OF assms(1) c] by (auto simp: st split: if_splits)
  qed (rule own_sole [OF assms(1)])
  ultimately show ?thesis using assms(1) by (simp add: uploads_ok_def)
qed

text \<open>A publisher may get files that are shared, and files that no publisher has yet.\<close>

lemma uploads_upd_files:
  assumes "uploads_ok L S good psm" "\<And>ap. (p, ap) \<in> set (psm_Publishers psm) \<Longrightarrow> upload_ok L S good p (names psm) (f ap)"
    and "\<And>ap m b. (p, ap) \<in> set (psm_Publishers psm) \<Longrightarrow> (m, b) \<in> set (ap_FileInfos (f ap)) \<Longrightarrow> b \<notin> S \<Longrightarrow> (m, b) \<in> set (ap_FileInfos ap) \<or>
      file_state b psm \<noteq> FILE_PUBLISH_UPLOADED \<and> (\<forall>q aq k. (q, aq) \<in> set (psm_Publishers psm) \<longrightarrow> (k, b) \<notin> set (ap_FileInfos aq))"
  shows "uploads_ok L S good (upd_publisher p f psm)"
proof -
  have files: "(m, b) \<in> set (ap_FileInfos ap) \<or> q = p \<and> file_state b psm \<noteq> FILE_PUBLISH_UPLOADED \<and>
      (\<forall>q aq k. (q, aq) \<in> set (psm_Publishers psm) \<longrightarrow> (k, b) \<notin> set (ap_FileInfos aq))"
    if "(q, ap) \<in> set (psm_Publishers psm)" "(m, b) \<in> set (ap_FileInfos (if q = p then f ap else ap))" "b \<notin> S" for q ap m b
    using that assms(3) [of ap m b] by (cases "q = p") auto
  have "own_ok S good (upd_publisher p f psm)"
  proof (rule own_okI, goal_cases)
    case (1 q ap m b)
    then obtain ap0 where "(q, ap0) \<in> set (psm_Publishers psm)" "ap = (if q = p then f ap0 else ap0)"
      by (auto simp: set_upd)
    with 1 files [of q ap0 m b] own_put [OF assms(1), of q ap0 m b] show ?case by auto
  next
    case (2 q ap m b q' ap' m')
    then obtain ap0 ap1 where "(q, ap0) \<in> set (psm_Publishers psm)" "ap = (if q = p then f ap0 else ap0)"
      "(q', ap1) \<in> set (psm_Publishers psm)" "ap' = (if q' = p then f ap1 else ap1)"
      by (auto simp: set_upd)
    with 2 files [of q ap0 m b] files [of q' ap1 m' b] own_sole [OF assms(1), of q ap0 m b q' ap1 m'] show ?case
      by blast
  qed
  moreover have "\<forall>x \<in> set (psm_Publishers (upd_publisher p f psm)).
      fst x < psm_made psm \<and> upload_ok L S good (fst x) (names psm) (snd x)"
    using assms(1,2) uploads_in [OF assms(1)] by (fastforce simp: set_upd uploads_ok_def)
  ultimately show ?thesis using assms(1) by (simp add: uploads_ok_def shared_ok_def)
qed

lemma uploads_upd:
  assumes "uploads_ok L S good psm" "\<And>ap. (p, ap) \<in> set (psm_Publishers psm) \<Longrightarrow> upload_ok L S good p (names psm) (f ap)"
    and "\<And>ap. ap_FileInfos (f ap) = ap_FileInfos ap"
  shows "uploads_ok L S good (upd_publisher p f psm)"
  using assms by (intro uploads_upd_files) auto

lemma upload_ok_state:
  "upload_ok L S good p ns ap \<Longrightarrow> st \<notin> {PUBLISH_OBSERVED, PUBLISH_SENDING, PUBLISH_COMMITTING} \<Longrightarrow> upload_ok L S good p ns (ap\<lparr>ap_State := st\<rparr>)"
  by (simp add: upload_ok_def)

lemma upload_ok_simps [simp]:
  "upload_ok L S good p ns (ap\<lparr>ap_Error := e\<rparr>) = upload_ok L S good p ns ap"
  "upload_ok L S good p ns (ap\<lparr>ap_RetryCount := k\<rparr>) = upload_ok L S good p ns ap"
  by (simp_all add: upload_ok_def)

lemma uploads_publisher: "uploads_ok L S good psm \<Longrightarrow> publisher p psm = Inr ap \<Longrightarrow> upload_ok L S good p (names psm) ap"
  by (auto simp: uploads_ok_def dest!: publisher_in)

lemma publisher_unique: "uploads_ok L S good psm \<Longrightarrow> publisher p psm = Inr ap \<Longrightarrow> (p, ap') \<in> set (psm_Publishers psm) \<Longrightarrow> ap' = ap"
  by (auto simp: uploads_ok_def publisher_def split: option.splits)

lemma expect_uploads:
  assumes "expect_state p from to psm = Inr psm'" "uploads_ok L S good psm"
    and "\<And>ap. publisher p psm = Inr ap \<Longrightarrow> ap_State ap \<in> set from \<Longrightarrow> upload_ok L S good p (names psm) (ap\<lparr>ap_State := to\<rparr>)"
  shows "uploads_ok L S good psm'"
  using assms publisher_unique [OF assms(2)] by (auto simp: expect_state_def rbind_eq_Inr intro!: uploads_upd)

lemma expect_idle_uploads:
  assumes "expect_state p from to psm = Inr psm'" "uploads_ok L S good psm" "to \<notin> {PUBLISH_OBSERVED, PUBLISH_SENDING, PUBLISH_COMMITTING}"
  shows "uploads_ok L S good psm'"
  using expect_uploads [OF assms(1,2)] upload_ok_state [OF _ assms(3)] uploads_publisher [OF assms(2)] by blast

lemma expect_publisher:
  "expect_state p from to psm = Inr psm' \<Longrightarrow> \<exists>ap. publisher p psm = Inr ap \<and> publisher p psm' = Inr (ap\<lparr>ap_State := to\<rparr>) \<and> names psm' = names psm"
  by (auto simp: expect_state_def rbind_eq_Inr publisher_upd)

lemma retrying_uploads:
  assumes "publish_enterRetryingState p psm = Inr psm'" "uploads_ok L S good psm"
  shows "uploads_ok L S good psm'"
  using assms by (auto simp: publish_enterRetryingState_def rbind_eq_Inr dest!: expect_idle_uploads)

lemma begin_uploads:
  assumes "publish_enterBeginState p psm = Inr psm'" "uploads_ok L S good psm"
  shows "uploads_ok L S good psm'"
  using assms by (auto simp: publish_enterBeginState_def rbind_eq_Inr dest!: expect_idle_uploads)

lemma put_state_uploads:
  "put_state_file E' p w psm = Inr psm' \<Longrightarrow> uploads_ok L S good psm \<Longrightarrow> uploads_ok L S good psm'"
  "putStateInDir E' p w psm = Inr psm' \<Longrightarrow> uploads_ok L S good psm \<Longrightarrow> uploads_ok L S good psm'"
  by (auto simp: putStateInDir_def put_state_file_def rbind_eq_Inr Let_def split: if_splits)

text \<open>The step that commits: every file of the publisher was put.\<close>

lemma committing_uploads:
  assumes "publish_enterCommittingState E' p psm = Inr psm'" "uploads_ok L S good psm" "publisher p psm = Inr ap"
    and "\<forall>y \<in> set (ap_FileInfos ap). sent_by S good p y"
  shows "uploads_ok L S good psm'"
proof -
  obtain psm1 where 1: "expect_state p [PUBLISH_SENDING] PUBLISH_COMMITTING psm = Inr psm1" "putState E' p psm1 = Inr psm'"
    using assms(1) by (auto simp: publish_enterCommittingState_def rbind_eq_Inr)
  have "uploads_ok L S good psm1"
    using uploads_publisher [OF assms(2,3)] assms(3,4)
    by (intro expect_uploads [OF 1(1) assms(2)]) (simp add: upload_ok_def)
  with 1(2) show ?thesis by (auto simp: putState_def rbind_eq_Inr dest: put_state_uploads)
qed

lemma put_by_put: "was_put_by p good m \<Longrightarrow> was_put good m"
  by (auto simp: was_put_by_def was_put_def)

lemma change_file_uploads:
  assumes "change_file p ec m st psm = Inr psm1" "uploads_ok L S good psm" "\<not> ec \<and> st = FILE_PUBLISH_UPLOADED \<longrightarrow> was_put_by p good m"
    and "publisher p psm = Inr ap"
  shows "uploads_ok L S good psm1 \<and> names psm1 = names psm \<and>
    publisher p psm1 = Inr (if ec then ap\<lparr>ap_Error := True\<rparr> else ap)"
proof -
  obtain b where b: "map_of (ap_FileInfos ap) m = Some b"
    and psm1: "psm1 = set_file b (if ec then FILE_PUBLISH_FAILED else st)
       (if ec then upd_publisher p (\<lambda>ap. ap\<lparr>ap_Error := True\<rparr>) psm else psm)"
    using assms(1,4) by (auto simp: change_file_def split: option.splits)
  have nb: "names psm ! b = m"
    using uploads_publisher [OF assms(2,4)] map_of_SomeD [OF b] by (auto simp: upload_ok_def)
  have "q = p \<and> k = m" if "(q, aq) \<in> set (psm_Publishers psm)" "(k, b) \<in> set (ap_FileInfos aq)" "b \<notin> S" for q aq k
  proof -
    have "k = m" using uploads_in [OF assms(2) that(1)] that(2) nb by (auto simp: upload_ok_def)
    moreover have "q = p"
      using own_sole [OF assms(2) publisher_in [OF assms(4)] map_of_SomeD [OF b] that(3,1,2)] .
    ultimately show ?thesis by simp
  qed
  note only = this
  have u: "uploads_ok L S good (upd_publisher p (\<lambda>ap. ap\<lparr>ap_Error := True\<rparr>) psm)"
    using assms(2) by (intro uploads_upd) (auto dest: uploads_in)
  have "uploads_ok L S good psm1"
  proof (cases ec)
    case True
    then show ?thesis using u by (auto simp: psm1 intro: uploads_set_file)
  next
    case False
    with assms(3) nb only put_by_put show ?thesis unfolding psm1 by (auto intro!: uploads_set_file [OF assms(2)])
  qed
  then show ?thesis using assms(4) by (auto simp: psm1 publisher_upd)
qed

lemma send_file_uploads:
  assumes "send_file p b psm = Inr (called, psm1)" "uploads_ok L S good psm"
  shows "uploads_ok L S good psm1 \<and> names psm1 = names psm \<and> publisher p psm1 = publisher p psm"
  using assms
  by (cases "fti_TransferState (psm_files psm ! b)")
    (auto simp: send_file_def Let_def rbind_eq_Inr intro!: uploads_set_file split: if_splits)

lemma loop_end_publisher:
  "publish_enterRetryingState p psm = Inr psm' \<Longrightarrow>
     \<exists>ap ap'. publisher p psm = Inr ap \<and> publisher p psm' = Inr ap' \<and> ap_FileInfos ap' = ap_FileInfos ap \<and>
       ap_State ap' = PUBLISH_RETRYING \<and> names psm' = names psm"
  "publish_enterCommittingState E p psm = Inr psm' \<Longrightarrow>
     \<exists>ap ap'. publisher p psm = Inr ap \<and> publisher p psm' = Inr ap' \<and> ap_FileInfos ap' = ap_FileInfos ap \<and>
       ap_State ap' = PUBLISH_COMMITTING \<and> names psm' = names psm"
  by (auto simp: publish_enterRetryingState_def publish_enterCommittingState_def putState_def putStateInDir_def put_state_file_def
      Let_def rbind_eq_Inr split: if_splits dest!: expect_publisher)

lemma sending_uploads:
  "sending_loop E' fuel p fs st psm = Inr psm' \<Longrightarrow> uploads_ok L S good psm \<Longrightarrow> publisher p psm = Inr ap \<Longrightarrow>
   ap_State ap \<noteq> PUBLISH_OBSERVED \<Longrightarrow> ap_FileInfos ap = ds @ fs \<Longrightarrow>
   (st = FILE_PUBLISH_UPLOADED \<longrightarrow> (\<forall>y \<in> set ds. sent_by S good p y)) \<Longrightarrow>
   uploads_ok L S good psm' \<and> names psm' = names psm \<and>
   (\<exists>ap'. publisher p psm' = Inr ap' \<and> ap_FileInfos ap' = ap_FileInfos ap \<and> ap_State ap' \<noteq> PUBLISH_OBSERVED)"
proof (induction "(fuel, fs)" arbitrary: fuel fs ds st psm psm' ap
    rule: wf_induct_rule [OF wf_lex_prod [OF wf_less_than wf_measure [of length]]])
  case 1
  note IH = 1(1) and prems = 1(2-)
  show ?case
  proof (cases fs)
    case Nil
    with prems loop_end_publisher(1) [of p psm psm'] loop_end_publisher(2) [of E' p psm psm']
      retrying_uploads [of p psm psm' L S good] committing_uploads [of E' p psm psm' L S good ap]
    show ?thesis by (auto split: if_splits)
  next
    case (Cons f fs')
    obtain m b where f: "f = (m, b)" by fastforce
    obtain called psm1 psm4 where 1: "send_file p b psm = Inr (called, psm1)"
      "sending_loop E' fuel p fs' (min (file_state b psm4) st) psm4 = Inr psm'"
      "if called then \<exists>psm2 ap. change_file p False (baseName_nogz (psm_files psm ! b)) FILE_PUBLISH_MADE_DIR psm1 = Inr psm2 \<and>
        publisher p psm2 = Inr ap \<and>
        (psm4 = psm2 \<or> (\<exists>psm3. expect_state p [PUBLISH_OBSERVED, PUBLISH_SENDING] PUBLISH_SENDING psm2 = Inr psm3 \<and>
          (psm4 = psm3 \<or> (\<exists>k. fuel = Suc k \<and> sending_loop E' k p (ap_FileInfos ap) FILE_PUBLISH_UPLOADED psm3 = Inr psm4))))
       else psm4 = psm1"
      using prems(1) unfolding Cons f by (rule sending_cons)
    note u1 = send_file_uploads [OF 1(1) prems(2)]
    have u4: "uploads_ok L S good psm4 \<and> names psm4 = names psm \<and>
      (\<exists>ap'. publisher p psm4 = Inr ap' \<and> ap_FileInfos ap' = ap_FileInfos ap \<and> ap_State ap' \<noteq> PUBLISH_OBSERVED)"
    proof (cases called)
      case True
      with 1(3) obtain psm2 where 2: "change_file p False (baseName_nogz (psm_files psm ! b)) FILE_PUBLISH_MADE_DIR psm1 = Inr psm2"
        "\<exists>ap. publisher p psm2 = Inr ap \<and> (psm4 = psm2 \<or>
          (\<exists>psm3. expect_state p [PUBLISH_OBSERVED, PUBLISH_SENDING] PUBLISH_SENDING psm2 = Inr psm3 \<and>
          (psm4 = psm3 \<or> (\<exists>k. fuel = Suc k \<and> sending_loop E' k p (ap_FileInfos ap) FILE_PUBLISH_UPLOADED psm3 = Inr psm4))))"
        by auto
      have u2: "uploads_ok L S good psm2" "names psm2 = names psm" "publisher p psm2 = Inr ap"
        using change_file_uploads [OF 2(1)] u1 prems(3) by auto
      have u3: "uploads_ok L S good psm3 \<and> names psm3 = names psm \<and> publisher p psm3 = Inr ap"
        if "expect_state p [PUBLISH_OBSERVED, PUBLISH_SENDING] PUBLISH_SENDING psm2 = Inr psm3" for psm3
      proof -
        have "ap_State ap = PUBLISH_SENDING" using that u2(3) prems(4) by (auto simp: expect_state_def rbind_eq_Inr)
        then have "ap\<lparr>ap_State := PUBLISH_SENDING\<rparr> = ap" by simp
        with expect_publisher [OF that] u2 uploads_publisher [OF u2(1,3)] show ?thesis
          by (auto intro!: expect_uploads [OF that u2(1)])
      qed
      have "?thesis" if "expect_state p [PUBLISH_OBSERVED, PUBLISH_SENDING] PUBLISH_SENDING psm2 = Inr psm3" "fuel = Suc k"
        "sending_loop E' k p (ap_FileInfos ap) FILE_PUBLISH_UPLOADED psm3 = Inr psm4" for psm3 k
        using IH [OF _ that(3), of ap "[]"] u3 [OF that(1)] that(2) prems(4) by auto
      with 2(2) u2 u3 prems(4) show ?thesis by auto
    qed (use 1 u1 prems in auto)
    then obtain ap' where ap': "publisher p psm4 = Inr ap'" "ap_FileInfos ap' = ap_FileInfos ap" "ap_State ap' \<noteq> PUBLISH_OBSERVED"
      by blast
    have "upload_ok L S good p (names psm4) ap'" using uploads_publisher [OF _ ap'(1)] u4 by blast
    moreover have mb: "(m, b) \<in> set (ap_FileInfos ap')" using ap'(2) prems(5) Cons f by simp
    ultimately have "b < length (psm_files psm4)" "names psm4 ! b = m" by (auto simp: upload_ok_def)
    then have "file_state b psm4 = FILE_PUBLISH_UPLOADED \<longrightarrow> was_put good m" using u4 by (auto simp: uploads_ok_def shared_ok_def)
    moreover have "b \<notin> S \<longrightarrow> file_state b psm4 = FILE_PUBLISH_UPLOADED \<longrightarrow> was_put_by p good m"
      using u4 mb publisher_in [OF ap'(1)] own_put by blast
    ultimately have "file_state b psm4 = FILE_PUBLISH_UPLOADED \<longrightarrow> sent_by S good p (m, b)" by (simp add: sent_by_def)
    moreover have "min (file_state b psm4) st = FILE_PUBLISH_UPLOADED \<Longrightarrow> file_state b psm4 = FILE_PUBLISH_UPLOADED \<and> st = FILE_PUBLISH_UPLOADED"
      by (cases "file_state b psm4"; cases st) (auto simp: min_def less_eq_FilePublishState_def)
    ultimately have "min (file_state b psm4) st = FILE_PUBLISH_UPLOADED \<longrightarrow> (\<forall>y \<in> set (ds @ [f]). sent_by S good p y)"
      using prems(6) f by auto
    moreover have "((fuel, fs'), (fuel, fs)) \<in> less_than <*lex*> measure length" using Cons by simp
    ultimately show ?thesis using IH [OF _ 1(2) _ ap'(1) ap'(3), of "ds @ [f]"] u4 ap'(2) prems(5) Cons by auto
  qed
qed

lemma enterSending_uploads:
  assumes "publish_enterSendingState E' p psm = Inr psm'" "uploads_ok L S good psm"
  shows "uploads_ok L S good psm'"
proof -
  from assms(1) obtain psm1 ap where 1: "expect_state p [PUBLISH_OBSERVED, PUBLISH_SENDING] PUBLISH_SENDING psm = Inr psm1"
    "publisher p psm1 = Inr ap" "sending_loop E' (length (ap_FileInfos ap)) p (ap_FileInfos ap) FILE_PUBLISH_UPLOADED psm1 = Inr psm'"
    by (auto simp: publish_enterSendingState_def rbind_eq_Inr)
  have "upload_ok L S good p (names psm) (x\<lparr>ap_State := PUBLISH_SENDING\<rparr>)"
    if "publisher p psm = Inr x" "ap_State x \<in> set [PUBLISH_OBSERVED, PUBLISH_SENDING]" for x
    using uploads_publisher [OF assms(2) that(1)] that(2) by (auto simp: upload_ok_def)
  then have "uploads_ok L S good psm1" by (rule expect_uploads [OF 1(1) assms(2)])
  moreover have "ap_State ap = PUBLISH_SENDING" using expect_publisher [OF 1(1)] 1(2) by auto
  ultimately show ?thesis using sending_uploads [OF 1(3) _ 1(2), of L S good "[]"] by simp
qed


lemma snap_ok_append: "snap_ok S ns snp \<Longrightarrow> \<forall>b \<in> S. b < length ns \<Longrightarrow> snap_ok S (ns @ ns') snp"
  by (auto simp: snap_ok_def snap_files_def nth_append)

lemma upload_ok_append: "upload_ok L S good p ns ap \<Longrightarrow> \<forall>b \<in> S. b < length ns \<Longrightarrow> upload_ok L S good p (ns @ ns') ap"
  by (auto simp: upload_ok_def nth_append snap_ok_append)

text \<open>A new object is not in any publisher's hands.\<close>

lemma uploads_append:
  assumes "uploads_ok L S good psm" "fti_TransferState fi \<noteq> FILE_PUBLISH_UPLOADED"
  shows "uploads_ok L S good (psm\<lparr>psm_files := psm_files psm @ [fi]\<rparr>)"
proof -
  let ?psm = "psm\<lparr>psm_files := psm_files psm @ [fi]\<rparr>"
  have nm: "names ?psm = names psm @ [baseName_nogz fi]" by (simp add: names_def)
  have st: "file_state b ?psm = (if b < length (psm_files psm) then file_state b psm else fti_TransferState fi)"
    if "b < Suc (length (psm_files psm))" for b
    using that by (auto simp: file_state_def nth_append)
  have s: "\<forall>b \<in> S. b < length (names psm)" using assms(1) by (simp add: uploads_ok_def shared_ok_def)
  have "shared_ok S good ?psm"
    using assms unfolding uploads_ok_def shared_ok_def nm by (auto simp: nth_append st)
  moreover have "own_ok S good ?psm"
  proof (rule own_okI, goal_cases)
    case (1 p ap m c)
    then have c: "(p, ap) \<in> set (psm_Publishers psm)" "(m, c) \<in> set (ap_FileInfos ap)" "c \<notin> S" "file_state c ?psm = FILE_PUBLISH_UPLOADED"
      by simp_all
    have "c < length (psm_files psm)" using assms(1) c(1,2) by (fastforce simp: uploads_ok_def upload_ok_def)
    then show ?case using own_put [OF assms(1) c(1-3)] c(4) by (simp add: st)
  next
    case 2
    then show ?case using own_sole [OF assms(1)] by simp
  qed
  ultimately show ?thesis
    using assms(1) s unfolding uploads_ok_def nm by (auto intro: snap_ok_append upload_ok_append)
qed

lemma alloc_buckets_uploads:
  "alloc_buckets E byHash hs psm = Inr (as, psm') \<Longrightarrow> uploads_ok L S good psm \<Longrightarrow>
   (\<forall>(x, b) \<in> set byHash. x = binToHex (bucket_hash (lib_bucketHash (env_lib E)) b)) \<Longrightarrow>
   uploads_ok L S good psm' \<and> psm_Publishers psm' = psm_Publishers psm \<and> (\<exists>fs. psm_files psm' = psm_files psm @ fs) \<and>
   (\<forall>b \<in> set as. length (psm_files psm) \<le> b \<and> b < length (psm_files psm') \<and> file_state b psm' = FILE_PUBLISH_NEEDED) \<and>
   (\<forall>h \<in> set hs. \<exists>b \<in> set as. names psm' ! b = bucket_name h)"
proof (induction hs arbitrary: psm as)
  case (Cons h hs)
  obtain b where b: "map_of byHash (binToHex h) = Some b" using Cons.prems(1) by (cases "map_of byHash (binToHex h)") auto
  let ?h = "bucket_hash (lib_bucketHash (env_lib E)) b"
  let ?fi = "FileTransferInfo_of_bucket FILE_PUBLISH_NEEDED (env_bucketDir E @ ''/'' @ bucketBasename (binToHex ?h)) ?h"
  let ?psm = "psm\<lparr>psm_files := psm_files psm @ [?fi]\<rparr>"
  have h: "?h = h" using map_of_SomeD [OF b] Cons.prems(3) by fastforce
  have fi: "baseName_nogz ?fi = bucket_name h" "fti_TransferState ?fi = FILE_PUBLISH_NEEDED"
    by (simp_all add: baseName_nogz_def FileTransferInfo_of_bucket_def bucket_name_def h)
  obtain cs where cs: "alloc_buckets E byHash hs ?psm = Inr (cs, psm')" "as = length (psm_files psm) # cs"
    using Cons.prems(1) b by (auto simp: rbind_eq_Inr Let_def alloc_file_def)
  have "uploads_ok L S good ?psm" using Cons.prems(2) fi(2) by (intro uploads_append) simp_all
  from Cons.IH [OF cs(1) this Cons.prems(3)] obtain fs where
    1: "uploads_ok L S good psm'" "psm_Publishers psm' = psm_Publishers psm" "psm_files psm' = psm_files psm @ ?fi # fs"
      "\<forall>b \<in> set cs. Suc (length (psm_files psm)) \<le> b \<and> b < length (psm_files psm') \<and> file_state b psm' = FILE_PUBLISH_NEEDED"
      "\<forall>h \<in> set hs. \<exists>b \<in> set cs. names psm' ! b = bucket_name h"
    by auto
  have "file_state (length (psm_files psm)) psm' = FILE_PUBLISH_NEEDED" "names psm' ! length (psm_files psm) = bucket_name h"
    using fi 1(3) by (simp_all add: file_state_def names_def nth_append)
  with 1 show ?case by (auto simp: cs(2) dest: Suc_leD)
qed simp

lemma queue_files_names:
  "fst ` set (queue_files files as m) = fst ` set m \<union> (\<lambda>a. baseName_nogz (files ! a)) ` set as"
proof (induction as arbitrary: m)
  case (Cons b as)
  have "map_of m k = Some c \<Longrightarrow> k \<in> fst ` set m" for k c by (force dest: map_of_SomeD)
  then show ?case by (auto simp: Let_def Cons.IH fst_om_update split: option.split)
qed simp

lemma alloc_buckets_upd:
  "alloc_buckets E byHash hs (upd_publisher p f psm) = Inr (as, psm2) \<Longrightarrow>
   \<exists>psm'. alloc_buckets E byHash hs psm = Inr (as, psm') \<and> psm2 = upd_publisher p f psm'"
proof (induction hs arbitrary: psm as)
  case (Cons h hs)
  have "(upd_publisher p f psm)\<lparr>psm_files := fs\<rparr> = upd_publisher p f (psm\<lparr>psm_files := fs\<rparr>)" for fs
    by (simp add: upd_publisher_def)
  with Cons show ?case
    by (fastforce simp: alloc_file_def Let_def rbind_eq_Inr split: option.splits)
qed simp

lemma upd_upd: "upd_publisher p g (upd_publisher p f psm) = upd_publisher p (\<lambda>ap. g (f ap)) psm"
  by (simp add: upd_publisher_def comp_def case_prod_unfold cong: if_cong)


lemma enterObserved_uploads:
  assumes "publish_enterObservedState E p has psm = Inr psm'" "uploads_ok L S good psm" "env_lib E = L"
  shows "uploads_ok L S good psm'"
proof -
  let ?H = "lib_bucketHash (env_lib E)"
  let ?upd = "\<lambda>snp files as ap. ap\<lparr>ap_ArchiveState := has, ap_FileInfos := queue_files files (snap_files snp @ as) (ap_FileInfos ap)\<rparr>"
  from assms(1) obtain psm1 ap hs as psm2 where
    1: "expect_state p [PUBLISH_BEGIN] PUBLISH_OBSERVED psm = Inr psm1" "publisher p psm1 = Inr ap"
      "differingBuckets ?H has (ss_LocalState (ap_Snap ap)) = Inr hs"
      "alloc_buckets E (rev (map (\<lambda>b. (binToHex (bucket_hash ?H b), b)) (ss_LocalBuckets (ap_Snap ap)))) hs psm1 = Inr (as, psm2)"
      "publish_enterSendingState E p (upd_publisher p (?upd (ap_Snap ap) (psm_files psm2) as) psm2) = Inr psm'"
    by (auto simp: publish_enterObservedState_def rbind_eq_Inr Let_def snap_files_def)
  obtain ap0 where ap0: "publisher p psm = Inr ap0" "ap = ap0\<lparr>ap_State := PUBLISH_OBSERVED\<rparr>"
    and psm1: "psm1 = upd_publisher p (\<lambda>ap. ap\<lparr>ap_State := PUBLISH_OBSERVED\<rparr>) psm"
    using 1(1,2) by (auto simp: expect_state_def rbind_eq_Inr publisher_upd)
  obtain psm3 where 3: "alloc_buckets E (rev (map (\<lambda>b. (binToHex (bucket_hash ?H b), b)) (ss_LocalBuckets (ap_Snap ap)))) hs psm = Inr (as, psm3)"
    and psm2: "psm2 = upd_publisher p (\<lambda>ap. ap\<lparr>ap_State := PUBLISH_OBSERVED\<rparr>) psm3"
    using alloc_buckets_upd [OF 1(4) [unfolded psm1]] by blast
  obtain fs where u3: "uploads_ok L S good psm3" "psm_Publishers psm3 = psm_Publishers psm" "psm_files psm3 = psm_files psm @ fs"
    "\<forall>b \<in> set as. length (psm_files psm) \<le> b \<and> b < length (psm_files psm3) \<and> file_state b psm3 = FILE_PUBLISH_NEEDED"
    "\<forall>h \<in> set hs. \<exists>b \<in> set as. names psm3 ! b = bucket_name h"
    using alloc_buckets_uploads [OF 3 assms(2)] by auto
  have p3: "publisher p psm3 = Inr ap0" using ap0(1) u3(2) by (simp add: publisher_def)
  let ?ap = "?upd (ap_Snap ap) (psm_files psm3) as ap"
  have w: "upload_ok L S good p (names psm3) ap0" by (rule uploads_publisher [OF u3(1) p3])
  then have sn: "set (snap_files (ap_Snap ap)) \<subseteq> S" "(\<lambda>a. names psm3 ! a) ` set (snap_files (ap_Snap ap)) = set (checkpoint_names (ap_Snap ap))"
    unfolding upload_ok_def snap_ok_def ap0(2) by (auto simp flip: set_map)
  have b: "b < length (psm_files psm3)" if "b \<in> set (snap_files (ap_Snap ap) @ as)" for b
    using that u3(1,4) sn(1) by (auto simp: uploads_ok_def shared_ok_def)
  then have "fst ` set (ap_FileInfos ?ap) =
    fst ` set (ap_FileInfos ap) \<union> (\<lambda>a. names psm3 ! a) ` set (snap_files (ap_Snap ap) @ as)"
    by (auto simp: queue_files_names names_nth intro!: image_eqI)
  moreover have "owed L ?ap = Inr (set (checkpoint_names (ap_Snap ap)) \<union> bucket_name ` set hs)"
    using 1(3) assms(3) by (simp add: owed_def)
  moreover have "bucket_name ` set hs \<subseteq> (\<lambda>a. names psm3 ! a) ` set as" using u3(5) by (force simp: image_iff)
  ultimately have "\<exists>N. owed L ?ap = Inr N \<and> N \<subseteq> fst ` set (ap_FileInfos ?ap)" using sn(2) by auto
  moreover note q = set_queue_files [of "psm_files psm3" "snap_files (ap_Snap ap) @ as" "ap_FileInfos ap"]
  then have "\<forall>y \<in> set (ap_FileInfos ?ap). snd y < length (names psm3) \<and> names psm3 ! snd y = fst y"
    using w b by (auto simp: upload_ok_def names_nth ap0(2) dest!: subsetD)
  ultimately have ok: "upload_ok L S good p (names psm3) ?ap" using w by (auto simp: upload_ok_def ap0(2))
  have new: "(m, c) \<in> set (ap_FileInfos ap0) \<or>
      file_state c psm3 \<noteq> FILE_PUBLISH_UPLOADED \<and> (\<forall>q aq k. (q, aq) \<in> set (psm_Publishers psm3) \<longrightarrow> (k, c) \<notin> set (ap_FileInfos aq))"
    if "(m, c) \<in> set (ap_FileInfos ?ap)" "c \<notin> S" for m c
  proof (cases "c \<in> set as")
    case True
    then have "(k, c) \<notin> set (ap_FileInfos aq)" if "(q, aq) \<in> set (psm_Publishers psm)" for q aq k
      using uploads_in [OF assms(2) that] u3(4) by (fastforce simp: upload_ok_def)
    with True u3(2,4) show ?thesis by auto
  next
    case False
    then show ?thesis using that q sn(1) by (auto simp: ap0(2))
  qed
  have "uploads_ok L S good (upd_publisher p (?upd (ap_Snap ap) (psm_files psm3) as) psm2)"
    unfolding psm2 upd_upd using publisher_unique [OF u3(1) p3] ok new
    by (intro uploads_upd_files [OF u3(1)]) (auto simp: ap0(2))
  then show ?thesis using enterSending_uploads 1(5) by (simp add: psm2)
qed

lemma fileStateChange_uploads:
  assumes "publish_fileStateChange E' p ec m st psm = Inr psm'" "uploads_ok L S good psm"
    and "\<not> ec \<and> st = FILE_PUBLISH_UPLOADED \<longrightarrow> was_put_by p good m"
  shows "uploads_ok L S good psm'"
proof -
  obtain psm1 ap where 1: "change_file p ec m st psm = Inr psm1" "publisher p psm = Inr ap"
    using assms(1) by (auto simp: publish_fileStateChange_def change_file_def rbind_eq_Inr)
  from change_file_uploads [OF 1(1) assms(2,3) 1(2)] assms(1) 1 show ?thesis
    by (auto simp: publish_fileStateChange_def split: if_splits dest!: enterSending_uploads)
qed

lemma start_publishers_uploads:
  "start_publishers snp as psm = Inr psm' \<Longrightarrow> uploads_ok L S good psm \<Longrightarrow> snap_ok S (names psm) snp \<Longrightarrow>
   uploads_ok L S good psm'"
proof (induction as arbitrary: psm)
  case (Cons x as)
  have "uploads_ok L S good psm1 \<and> names psm1 = names psm" if "new_publisher snp x psm = Inr psm1" for psm1
  proof -
    have "uploads_ok L S good (psm\<lparr>psm_Publishers := psm_Publishers psm @ [(psm_made psm, ap)], psm_made := Suc (psm_made psm)\<rparr>)"
      if ap: "ap_Snap ap = snp" "ap_FileInfos ap = []" "ap_State ap = PUBLISH_RETRYING" for ap
    proof -
      let ?psm = "psm\<lparr>psm_Publishers := psm_Publishers psm @ [(psm_made psm, ap)], psm_made := Suc (psm_made psm)\<rparr>"
      have "own_ok S good ?psm"
        using ap(2) own_put [OF Cons.prems(2)] own_sole [OF Cons.prems(2)] by (intro own_okI) (fastforce simp: file_state_def)+
      moreover have "upload_ok L S good (psm_made psm) (names psm) ap"
        using ap Cons.prems(3) by (simp add: upload_ok_def)
      moreover have "names ?psm = names psm" "file_state b ?psm = file_state b psm" for b
        by (simp_all add: names_def file_state_def)
      ultimately show ?thesis
        using Cons.prems(2) by (auto simp: uploads_ok_def shared_ok_def)
    qed
    note new = this
    let ?ap = "\<lparr>ap_Error = False, ap_State = PUBLISH_RETRYING, ap_RetryCount = 0, ap_Archive = x,
      ap_ArchiveState = new_HistoryArchiveState, ap_Snap = snp, ap_FileInfos = []\<rparr>"
    let ?psm = "psm\<lparr>psm_Publishers := psm_Publishers psm @ [(psm_made psm, ?ap)], psm_made := Suc (psm_made psm)\<rparr>"
    have u: "uploads_ok L S good ?psm" by (rule new) simp_all
    have b: "publish_enterBeginState (psm_made psm) ?psm = Inr psm1"
      using \<open>new_publisher snp x psm = Inr psm1\<close> by (simp add: new_publisher_def Let_def)
    show ?thesis using begin_uploads [OF b u] quiet_files(6) [OF b] by (simp add: names_def)
  qed
  with Cons show ?case by (auto simp: rbind_eq_Inr split: if_splits)
qed simp


lemma uploads_pending:
  "uploads_ok L S good psm \<Longrightarrow> \<forall>x \<in> set q. snap_ok S (names psm) (fst x) \<Longrightarrow> uploads_ok L S good (psm\<lparr>psm_PendingSnaps := q\<rparr>)"
  by (simp add: uploads_ok_def shared_ok_def own_ok_def)

lemma snap_ok_resolved:
  "resolveAnyReadyFutures H (ss_LocalState snp) = Inr l \<Longrightarrow> snap_ok S ns snp \<Longrightarrow> snap_ok S ns (snp\<lparr>ss_LocalState := l\<rparr>)"
  by (auto simp: snap_ok_def snap_files_def checkpoint_names_def resolveAnyReadyFutures_def rbind_eq_Inr)

lemma writeNext_uploads:
  assumes "writeNextSnapshot E' psm = Inr psm'" "uploads_ok L S good psm"
  shows "uploads_ok L S good psm'"
proof (cases "psm_PendingSnaps psm")
  case Nil
  with assms show ?thesis by (simp add: writeNextSnapshot_def)
next
  case (Cons x q)
  obtain snp h where x: "x = (snp, h)" by fastforce
  obtain l where l: "resolveAnyReadyFutures (lib_bucketHash (env_lib E')) (ss_LocalState snp) = Inr l"
    using assms(1) Cons x by (auto simp: writeNextSnapshot_def rbind_eq_Inr)
  have s: "snap_ok S (names psm) (snp\<lparr>ss_LocalState := l\<rparr>)"
    using assms(2) Cons x by (intro snap_ok_resolved [OF l]) (simp add: uploads_ok_def)
  then have "uploads_ok L S good (psm\<lparr>psm_PendingSnaps := (snp\<lparr>ss_LocalState := l\<rparr>, h) # q\<rparr>)"
    using assms(2) Cons by (intro uploads_pending) (auto simp: uploads_ok_def)
  with s show ?thesis
    using assms(1) Cons x l
    by (auto simp: writeNextSnapshot_def write_blocks_def rbind_eq_Inr Let_def dest!: start_publishers_uploads split: if_splits)
qed

lemma finishOne_uploads:
  assumes "finishOne E' ec psm = Inr psm'" "uploads_ok L S good psm"
  shows "uploads_ok L S good psm'"
proof -
  obtain x q where q: "psm_PendingSnaps psm = x # q" using assms(1) by (cases "psm_PendingSnaps psm") (auto simp: finishOne_def)
  have "uploads_ok L S good (psm\<lparr>psm_finished := f, psm_PendingSnaps := q\<rparr>)" for f
    using assms(2) q by (simp add: uploads_ok_def shared_ok_def own_ok_def)
  with assms(1) q show ?thesis by (cases x) (auto simp: finishOne_def dest!: writeNext_uploads)
qed

lemma endState_uploads:
  assumes "publish_enterEndState E' p psm = Inr psm'" "uploads_ok L S good psm"
  shows "uploads_ok L S good psm'"
proof -
  define psm1 where "psm1 = upd_publisher p (\<lambda>ap. ap\<lparr>ap_State := PUBLISH_END\<rparr>) psm"
  define rest where "rest = filter (\<lambda>(p, ap). ap_State ap \<noteq> PUBLISH_END) (psm_Publishers psm1)"
  have "uploads_ok L S good psm1"
    unfolding psm1_def using assms(2) by (intro uploads_upd) (auto intro!: upload_ok_state dest: uploads_in)
  then have "uploads_ok L S good (psm1\<lparr>psm_Publishers := rest\<rparr>)"
    by (auto simp: uploads_ok_def shared_ok_def rest_def distinct_map_filter intro!: own_okI
        dest: own_put [OF \<open>uploads_ok L S good psm1\<close>] own_sole [OF \<open>uploads_ok L S good psm1\<close>])
  then show ?thesis
    using assms(1)
    by (auto simp: publish_enterEndState_def snapshotPublished_def rbind_eq_Inr Let_def psm1_def [symmetric] rest_def [symmetric]
        dest: finishOne_uploads split: if_splits)
qed

lemma retry_timer_uploads:
  assumes "retry_timer E' p psm = Inr psm'" "uploads_ok L S good psm"
  shows "uploads_ok L S good psm'"
proof -
  have "uploads_ok L S good (upd_publisher p (\<lambda>ap. ap\<lparr>ap_RetryCount := ap_RetryCount ap + 1\<rparr>) psm)"
    using assms(2) by (intro uploads_upd) (auto dest: uploads_in)
  with assms(1) show ?thesis
    by (auto simp: retry_timer_def rbind_eq_Inr Let_def dest: endState_uploads begin_uploads split: if_splits)
qed

lemma committed_uploads:
  "state_committed E' p ec psm = Inr psm' \<Longrightarrow> uploads_ok L S good psm \<Longrightarrow> uploads_ok L S good psm'"
  by (auto simp: state_committed_def dest: endState_uploads retrying_uploads split: if_splits)

lemma uploads_mono:
  assumes "uploads_ok L S good psm"
  shows "uploads_ok L S (r # good) psm"
proof -
  have "was_put good n \<Longrightarrow> was_put (r # good) n" "was_put_by p good n \<Longrightarrow> was_put_by p (r # good) n" for n p
    by (auto simp: was_put_def was_put_by_def)
  note put = this
  have "shared_ok S (r # good) psm" using assms put(1) by (auto simp: uploads_ok_def shared_ok_def)
  moreover have "own_ok S (r # good) psm"
    using put(2) own_put [OF assms] own_sole [OF assms] by (intro own_okI) blast+
  moreover have "sent_by S good p y \<Longrightarrow> sent_by S (r # good) p y" for p y using put by (simp add: sent_by_def split: if_splits)
  then have "upload_ok L S good p ns ap \<Longrightarrow> upload_ok L S (r # good) p ns ap" for p ns ap by (simp add: upload_ok_def)
  ultimately show ?thesis using assms by (simp add: uploads_ok_def)
qed

lemma answer_uploads:
  assumes "publish_answer E r ec c psm = Inr psm'" "uploads_ok L S good psm" "env_lib E = L"
  shows "uploads_ok L S (if ec then good else r # good) psm'"
proof -
  define good' where "good' = (if ec then good else r # good)"
  have u: "uploads_ok L S good' psm" using assms(2) uploads_mono by (simp add: good'_def)
  have "uploads_ok L S good' psm'"
  proof (cases r)
    case (GetState p)
    with assms(1,3) u show ?thesis
      by (auto simp: got_state_def rbind_eq_Inr split: option.splits dest: retrying_uploads enterObserved_uploads)
  next
    case (RetryTimer p)
    with assms(1) u show ?thesis by (auto intro: retry_timer_uploads)
  next
    case (StateMkdir p w d)
    with assms(1) u show ?thesis by (auto split: if_splits intro: committed_uploads put_state_uploads)
  next
    case (StatePut p w d ar)
    with assms(1) u show ?thesis by (auto split: if_splits intro: committed_uploads put_state_uploads)
  next
    case RecheckTimer
    with assms(1) u show ?thesis by (auto split: if_splits intro: writeNext_uploads)
  next
    case (PostWrite snp)
    with assms(1) obtain b where w: "snapshotWritten E False (ask (WroteBlock (ss_LocalState snp) b) psm) = Inr psm'"
      by (auto simp: rbind_eq_Inr)
    moreover have "uploads_ok L S good' (ask (WroteBlock (ss_LocalState snp) b) psm)" using u by simp
    ultimately show ?thesis
      by (auto simp: snapshotWritten_def uploads_ok_def [of _ _ _ psm] split: list.splits dest!: start_publishers_uploads)
  next
    case (PutFile p m l d)
    have "\<not> ec \<longrightarrow> was_put_by p good' m" using PutFile by (auto simp: good'_def was_put_by_def)
    with assms(1) u PutFile show ?thesis by (auto intro: fileStateChange_uploads)
  qed (use assms(1) u in \<open>auto intro: fileStateChange_uploads\<close>)
  then show ?thesis by (simp add: good'_def)
qed


subsection \<open>All checkpoints\<close>

text \<open>
  The life of the machine: checkpoints are published, of any ledger manager, and requests that are
  outstanding are answered, in any order and with any outcome. The last value is what was answered
  without an error.
\<close>

inductive history_run :: "Lib \<Rightarrow> PublishStateMachine \<Rightarrow> PubRequest list \<Rightarrow> PubRequest list \<Rightarrow> bool" for L where
  start: "history_run L new_PublishStateMachine [] []"
| publish: "history_run L psm out good \<Longrightarrow> env_lib E = L \<Longrightarrow> publishHistory E dir handler lm (Some psm) = Inr (delayed, lm', psm') \<Longrightarrow>
    history_run L psm' (out @ drop (length (psm_asked psm)) (psm_asked psm')) good"
| answer: "history_run L psm out good \<Longrightarrow> env_lib E = L \<Longrightarrow> r \<in> set out \<Longrightarrow> publish_answer E r ec contents psm = Inr psm' \<Longrightarrow>
    history_run L psm' (remove1 r out @ drop (length (psm_asked psm)) (psm_asked psm')) (if ec then good else r # good)"

text \<open>Objects that no publisher has can be declared shared.\<close>

lemma uploads_shared:
  assumes "uploads_ok L S good psm" "\<forall>b \<in> T. b < length (psm_files psm) \<and> (\<forall>h. names psm ! b \<noteq> bucket_name h)"
    and "\<And>p ap m b. (p, ap) \<in> set (psm_Publishers psm) \<Longrightarrow> (m, b) \<in> set (ap_FileInfos ap) \<Longrightarrow> b \<notin> T"
  shows "uploads_ok L (S \<union> T) good psm"
proof -
  have "own_ok (S \<union> T) good psm" using own_put [OF assms(1)] own_sole [OF assms(1)] by (intro own_okI) blast+
  moreover have sn: "snap_ok S ns snp \<Longrightarrow> snap_ok (S \<union> T) ns snp" for ns snp by (auto simp: snap_ok_def)
  moreover have "upload_ok L (S \<union> T) good p (names psm) ap" if p: "(p, ap) \<in> set (psm_Publishers psm)" for p ap
  proof -
    have "sent_by (S \<union> T) good p y \<longleftrightarrow> sent_by S good p y" if "y \<in> set (ap_FileInfos ap)" for y
      using assms(3) [OF p, of "fst y" "snd y"] that by (simp add: sent_by_def)
    with uploads_in [OF assms(1) p] sn show ?thesis by (simp add: upload_ok_def)
  qed
  ultimately show ?thesis using assms(1,2) by (auto simp: uploads_ok_def shared_ok_def)
qed

lemma uploads_append_all:
  "uploads_ok L S good psm \<Longrightarrow> \<forall>fi \<in> set fs. fti_TransferState fi \<noteq> FILE_PUBLISH_UPLOADED \<Longrightarrow>
   uploads_ok L S good (psm\<lparr>psm_files := psm_files psm @ fs\<rparr>)"
proof (induction fs rule: rev_induct)
  case (snoc fi fs)
  then show ?case using uploads_append [of L S good "psm\<lparr>psm_files := psm_files psm @ fs\<rparr>" fi] by simp
qed simp

lemma checkpoint_names_length [simp]: "length (checkpoint_names snp) = 3"
  by (simp add: checkpoint_names_def)

lemma checkpoint_not_bucket:
  assumes "m \<in> set (checkpoint_names snp)"
  shows "m \<noteq> bucket_name h"
proof -
  obtain t where t: "m = fs_baseName t (hexStr (has_currentLedger (ss_LocalState snp))) ''xdr''"
    "t \<in> {HISTORY_FILE_TYPE_LEDGER, HISTORY_FILE_TYPE_TRANSACTIONS, HISTORY_FILE_TYPE_RESULTS}"
    using assms by (auto simp: checkpoint_names_def)
  then have "t \<noteq> HISTORY_FILE_TYPE_BUCKET"
    by (auto simp: HISTORY_FILE_TYPE_LEDGER_def HISTORY_FILE_TYPE_TRANSACTIONS_def HISTORY_FILE_TYPE_RESULTS_def HISTORY_FILE_TYPE_BUCKET_def)
  with t fs_baseName_inject [OF checkpoint_types checkpoint_types, of t HISTORY_FILE_TYPE_BUCKET] show ?thesis
    by (auto simp: bucket_name_def)
qed

lemma takeSnapshot_uploads:
  assumes "takeSnapshot L dir lm psm = Inr (snp, lm', psm')" "uploads_ok L S good psm"
  shows "\<exists>S'. uploads_ok L S' good psm' \<and> snap_ok S' (names psm') snp"
proof -
  let ?n = "length (psm_files psm)" and ?T = "{length (psm_files psm) ..< length (psm_files psm) + 3}"
  let ?f = "checkpoint_file dir (has_currentLedger (ss_LocalState snp))"
  let ?psm = "\<lambda>fs. psm\<lparr>psm_files := psm_files psm @ fs\<rparr>"
  have psm': "psm' = ?psm [?f HISTORY_FILE_TYPE_LEDGER, ?f HISTORY_FILE_TYPE_TRANSACTIONS, ?f HISTORY_FILE_TYPE_RESULTS]"
    and snp: "snap_files snp = [?n, Suc ?n, Suc (Suc ?n)]"
    using assms(1) by (auto simp: takeSnapshot_def rbind_eq_Inr Let_def alloc_file_def checkpoint_file_def snap_files_def futures_ready_def)
  have nm: "names psm' = names psm @ checkpoint_names snp" by (simp add: psm' names_def checkpoint_names_def)
  have "fti_TransferState (?f t) \<noteq> FILE_PUBLISH_UPLOADED" for t
    by (simp add: checkpoint_file_def FileTransferInfo_of_checkpoint_def FileTransferInfo_of_digits_def)
  then have "uploads_ok L S good psm'" unfolding psm' using assms(2) by (intro uploads_append_all) auto
  then have "uploads_ok L (S \<union> ?T) good psm'"
  proof (rule uploads_shared)
    show "\<forall>b \<in> ?T. b < length (psm_files psm') \<and> (\<forall>h. names psm' ! b \<noteq> bucket_name h)"
    proof (intro ballI conjI allI)
      fix b h
      assume b: "b \<in> ?T"
      then show "b < length (psm_files psm')" by (simp add: psm')
      from b have "names psm' ! b \<in> set (checkpoint_names snp)" 
        unfolding nm by (auto simp: nth_append intro!: nth_mem)
      then show "names psm' ! b \<noteq> bucket_name h" by (rule checkpoint_not_bucket)
    qed
  next
    fix p ap m b
    assume "(p, ap) \<in> set (psm_Publishers psm')" "(m, b) \<in> set (ap_FileInfos ap)"
    with uploads_in [OF assms(2), of p ap] show "b \<notin> ?T" by (fastforce simp: psm' upload_ok_def)
  qed
  moreover have "snap_ok (S \<union> ?T) (names psm') snp"
    by (simp add: snap_ok_def snp nm nth_append) (simp add: checkpoint_names_def)
  ultimately show ?thesis by blast
qed

lemma history_uploads:
  "history_run L psm out good \<Longrightarrow> \<exists>S. uploads_ok L S good psm"
proof (induction rule: history_run.induct)
  case start
  have "uploads_ok L {} [] new_PublishStateMachine"
    by (simp add: uploads_ok_def shared_ok_def own_ok_def new_PublishStateMachine_def)
  then show ?case by blast
next
  case (publish psm out good E dir handler lm delayed lm' psm')
  then obtain S snp psm1 where 1: "uploads_ok L S good psm" "takeSnapshot L dir lm psm = Inr (snp, lm', psm1)"
    "queueSnapshot E snp handler psm1 = Inr (delayed, psm')"
    by (auto simp: publishHistory_def rbind_eq_Inr)
  obtain S' where S': "uploads_ok L S' good psm1" "snap_ok S' (names psm1) snp" using takeSnapshot_uploads [OF 1(2,1)] by blast
  then have "uploads_ok L S' good (psm1\<lparr>psm_PendingSnaps := psm_PendingSnaps psm1 @ [(snp, handler)]\<rparr>)"
    by (intro uploads_pending) (auto simp: uploads_ok_def)
  with 1(3) show ?case by (auto simp: queueSnapshot_def Let_def rbind_eq_Inr dest: writeNext_uploads split: if_splits)
next
  case (answer psm out good E r ec c psm')
  then obtain S where "uploads_ok L S good psm" by blast
  from answer_uploads [OF answer(4) this answer(2)] show ?case by blast
qed

text \<open>
  C33: the state of an archive is written last. A publisher begins to write the state of its snapshot
  only when every bucket that the state read from its archive lacks was put there by a command of this
  publisher that succeeded, and the ledgers, the transactions and the results of the checkpoint were
  put by a command of a publisher of this node that succeeded. The latter need not be its own, as the
  publishers of all archives share these three files. This holds for every checkpoint the node
  publishes and in every run, with failures, new attempts and checkpoints that wait, and for archives
  without a command for directories.
\<close>

theorem state_written_last:
  assumes "history_run L psm out good" "publisher p psm = Inr ap" "ap_State ap = PUBLISH_COMMITTING"
  shows "\<exists>hs. differingBuckets (lib_bucketHash L) (ap_ArchiveState ap) (ss_LocalState (ap_Snap ap)) = Inr hs \<and>
    (\<forall>h \<in> set hs. was_put_by p good (bucket_name h)) \<and> (\<forall>m \<in> set (checkpoint_names (ap_Snap ap)). was_put good m)"
proof -
  obtain S where u: "uploads_ok L S good psm" using history_uploads [OF assms(1)] by blast
  note ok = uploads_publisher [OF u assms(2)]
  then obtain hs where hs: "differingBuckets (lib_bucketHash L) (ap_ArchiveState ap) (ss_LocalState (ap_Snap ap)) = Inr hs"
    "set (checkpoint_names (ap_Snap ap)) \<union> bucket_name ` set hs \<subseteq> fst ` set (ap_FileInfos ap)"
    using assms(3) by (auto simp: upload_ok_def owed_def rbind_eq_Inr)
  have sent: "\<exists>b. names psm ! b = m \<and> sent_by S good p (m, b)" if "m \<in> fst ` set (ap_FileInfos ap)" for m
    using that ok assms(3) by (fastforce simp: upload_ok_def)
  have "was_put_by p good (bucket_name h)" if "h \<in> set hs" for h
  proof -
    have "bucket_name h \<in> fst ` set (ap_FileInfos ap)" using hs(2) that by auto
    then obtain b where b: "names psm ! b = bucket_name h" "sent_by S good p (bucket_name h, b)" using sent by blast
    then have "b \<notin> S" using u by (auto simp: uploads_ok_def shared_ok_def)
    with b(2) show ?thesis by (simp add: sent_by_def)
  qed
  moreover have "was_put good m" if "m \<in> set (checkpoint_names (ap_Snap ap))" for m
  proof -
    have "m \<in> fst ` set (ap_FileInfos ap)" using hs(2) that by auto
    then obtain b where "sent_by S good p (m, b)" using sent by blast
    then show ?thesis using put_by_put by (auto simp: sent_by_def split: if_splits)
  qed
  ultimately show ?thesis using hs(1) by blast
qed

lemma play_history:
  "play E c k psm out = Inr (psm', out') \<Longrightarrow> history_run (env_lib E) psm out good \<Longrightarrow> \<exists>good'. history_run (env_lib E) psm' out' good'"
proof (induction E c k psm out arbitrary: good rule: play.induct)
  case (3 E c k psm r out)
  then obtain psm1 where 1: "publish_answer E r False c psm = Inr psm1"
    "play E c k psm1 (out @ drop (length (psm_asked psm)) (psm_asked psm1)) = Inr (psm', out')"
    by (auto simp: rbind_eq_Inr)
  from history_run.answer [OF "3.prems"(2) refl _ 1(1)] "3.IH" [OF 1] show ?case by simp
qed auto

text \<open>The checkpoint of ledger 63, with one bucket that an empty archive lacks.\<close>

definition one_bucket :: Bucket where
  "one_bucket = [LIVEENTRY (ACCOUNT genesis_account)]"

definition ledger_63 :: LedgerManager where
  "ledger_63 = new_LedgerManager\<lparr>
     lm_LastClosedLedger := \<lparr>lhe_hash = 0, lhe_header = zero_header\<lparr>lh_ledgerSeq := 63\<rparr>\<rparr>,
     lm_bm := (new_BucketManager [])\<lparr>bm_BucketList := (hd new_BucketList)\<lparr>mCurr := one_bucket\<rparr> # tl new_BucketList\<rparr>\<rparr>"

theorem state_written_last_witness:
  "\<exists>psm out good ap. history_run sample_lib psm out good \<and> publisher 0 psm = Inr ap \<and> ap_State ap = PUBLISH_COMMITTING \<and>
     was_put_by 0 good (bucket_name 1) \<and> was_put good ''ledger-0000003f.xdr''"
proof -
  let ?E = "archives_env [''a'']"
  have "case publishHistory ?E ''tmp'' 7 ledger_63 (Some new_PublishStateMachine) of Inl _ \<Rightarrow> False | Inr (d, lm, psm0) \<Rightarrow>
      (case play ?E (Some empty_archive) 14 psm0 (psm_asked psm0) of Inl _ \<Rightarrow> False | Inr (psm, out) \<Rightarrow>
        (case publisher 0 psm of Inl _ \<Rightarrow> False | Inr ap \<Rightarrow> ap_State ap = PUBLISH_COMMITTING \<and>
          has_currentLedger (ss_LocalState (ap_Snap ap)) = 63 \<and>
          differingBuckets (lib_bucketHash sample_lib) (ap_ArchiveState ap) (ss_LocalState (ap_Snap ap)) = Inr [1]))"
    by code_simp
  then obtain d lm psm0 where 0: "publishHistory ?E ''tmp'' 7 ledger_63 (Some new_PublishStateMachine) = Inr (d, lm, psm0)"
    "case play ?E (Some empty_archive) 14 psm0 (psm_asked psm0) of Inl _ \<Rightarrow> False | Inr (psm, out) \<Rightarrow> (case publisher 0 psm of Inl _ \<Rightarrow> False | Inr ap \<Rightarrow> ap_State ap = PUBLISH_COMMITTING \<and>
          has_currentLedger (ss_LocalState (ap_Snap ap)) = 63 \<and>
          differingBuckets (lib_bucketHash sample_lib) (ap_ArchiveState ap) (ss_LocalState (ap_Snap ap)) = Inr [1])"
    by (cases "publishHistory ?E ''tmp'' 7 ledger_63 (Some new_PublishStateMachine)") auto
  then obtain psm out where 1: "play ?E (Some empty_archive) 14 psm0 (psm_asked psm0) = Inr (psm, out)"
    "case publisher 0 psm of Inl _ \<Rightarrow> False | Inr ap \<Rightarrow> ap_State ap = PUBLISH_COMMITTING \<and>
          has_currentLedger (ss_LocalState (ap_Snap ap)) = 63 \<and>
          differingBuckets (lib_bucketHash sample_lib) (ap_ArchiveState ap) (ss_LocalState (ap_Snap ap)) = Inr [1]"
    by (cases "play ?E (Some empty_archive) 14 psm0 (psm_asked psm0)") auto
  then obtain ap where 2: "publisher 0 psm = Inr ap" "ap_State ap = PUBLISH_COMMITTING"
    "has_currentLedger (ss_LocalState (ap_Snap ap)) = 63"
    "differingBuckets (lib_bucketHash sample_lib) (ap_ArchiveState ap) (ss_LocalState (ap_Snap ap)) = Inr [1]"
    by (cases "publisher 0 psm") auto
  have E: "env_lib ?E = sample_lib" by (simp add: archives_env_def)
  have "history_run sample_lib psm0 (psm_asked psm0) []"
    using history_run.publish [OF history_run.start E 0(1)] by (simp add: new_PublishStateMachine_def)
  then obtain good where r: "history_run sample_lib psm out good" using play_history [OF 1(1)] unfolding E by blast
  have "''ledger-0000003f.xdr'' = fs_baseName HISTORY_FILE_TYPE_LEDGER (hexStr 63) ''xdr''" by code_simp
  then have "''ledger-0000003f.xdr'' \<in> set (checkpoint_names (ap_Snap ap))" using 2(3) by (simp add: checkpoint_names_def)
  with state_written_last [OF r 2(1,2)] 2(4) have "was_put_by 0 good (bucket_name 1)" "was_put good ''ledger-0000003f.xdr''" by auto
  with r 2(1,2) show ?thesis by blast
qed

subsection \<open>A second archive\<close>

text \<open>
  The files of the checkpoint need not reach the archive whose state names them. The second archive
  answers the request for its state after everything else: its publisher finds the shared files
  uploaded and begins to write the state, without a file of its own.
\<close>

fun late :: "PubRequest \<Rightarrow> bool" where
  "late (GetState p) \<longleftrightarrow> p = 1"
| "late _ \<longleftrightarrow> False"

fun play_late :: "PubEnv \<Rightarrow> HasArchive option \<Rightarrow> nat \<Rightarrow> PublishStateMachine \<Rightarrow> PubRequest list \<Rightarrow> (PublishStateMachine \<times> PubRequest list) res" where
  "play_late E c 0 psm out = Inr (psm, out)"
| "play_late E c (Suc k) psm out =
     (case dropWhile late out of
        [] \<Rightarrow> Inr (psm, out)
      | r # rest \<Rightarrow> rbind (publish_answer E r False c psm) (\<lambda>psm'.
          play_late E c k psm' (takeWhile late out @ rest @ drop (length (psm_asked psm)) (psm_asked psm'))))"

fun put_to :: "nat \<Rightarrow> PubRequest \<Rightarrow> bool" where
  "put_to p (PutFile q n l r) \<longleftrightarrow> q = p"
| "put_to p _ \<longleftrightarrow> False"

theorem second_archive_lacks_files:
  "case queueSnapshot (archives_env [''a'', ''b'']) sample_snapshot 7 sample_files of Inl _ \<Rightarrow> False | Inr (_, psm0) \<Rightarrow>
     (case play_late (archives_env [''a'', ''b'']) (Some empty_archive) 24 psm0 (psm_asked psm0) of Inl _ \<Rightarrow> False | Inr (psm1, _) \<Rightarrow>
        (case publish_answer (archives_env [''a'', ''b'']) (GetState 1) False (Some empty_archive) psm1 of Inl _ \<Rightarrow> False
         | Inr psm \<Rightarrow> (1, PUBLISH_COMMITTING) \<in> set (map (\<lambda>(p, ap). (p, ap_State ap)) (psm_Publishers psm)) \<and>
             filter (put_to 1) (psm_asked psm) = []))"
  by code_simp

end
