(* ===== verification/Spec2Isabelle.thy ===== *)
theory Spec2Isabelle
  imports Future_Bucket Bucket_List Operation_Props Ledger_Props Catchup SCP_Props Herder_Props Base58 Overlay_Herder Publish_State
begin

text \<open>
  \<^bold>\<open>A verification development for payshares-core.\<close>

  payshares-core is a node of a network that keeps a replicated ledger of accounts, trust lines and
  offers. Nodes agree on the next set of transactions by a federated consensus protocol
  (\<open>src/scp\<close>), driven by the herder (\<open>src/herder\<close>); the set agreed on is applied to SQL tables
  (\<open>src/transactions\<close>, \<open>src/ledger\<close>) while a delta records what changed; the changes go into the
  bucket list (\<open>src/bucket\<close>), whose hash enters the header of the ledger; headers form a chain. Messages and missing
  items travel between the peers of the overlay (\<open>src/overlay\<close>). A
  node that falls behind buffers what the network agrees on, fetches a state from an archive
  (\<open>src/history\<close>) and replays the buffer.

  \<^bold>\<open>Theories and sources.\<close> Definitions keep the names of the source where that is possible; a
  struct or class is a record, a union a datatype, a call that can fail a value of a sum type, with the
  error on the left. Code that is not part of the repository (SHA-256, signatures, the sort of the C++
  library) is a parameter; what is assumed of it is stated in the theorems that need it.

  \<^item> \<open>Prelude\<close>, \<open>Ordered_Map\<close>: integers of the width the code has, errors and their sequencing,
    \<open>std::map\<close> and \<open>std::set\<close>.
  \<^item> \<open>Util_Types\<close> (\<open>util/types.cpp\<close>), \<open>Ledger_Entries\<close> (\<open>xdr\<close>, \<open>bucket/LedgerCmp.h\<close>): currencies,
    prices, the 128-bit division, ledger entries and the order of their identities. Shown: the
    division is exact and reports every overflow; two entries compare as equivalent exactly when
    they have the same key, so that a sorted bucket is a map.
  \<^item> \<open>Buckets\<close>, \<open>Future_Bucket\<close>, \<open>Bucket_List\<close> (\<open>bucket/Bucket.cpp\<close>, \<open>FutureBucket\<close>, \<open>BucketList\<close>): batches,
    merges with shadows, merges that run in the background and are saved and restarted, the levels
    and their spilling. Shown: merging is right entry by entry; the bucket list as a whole always is
    the ledger the batches describe; adding a batch never fails; the hash does not depend on how far
    background merges are; a saved merge resumes to the same result.
  \<^item> \<open>Bucket_Manager\<close> (\<open>bucket/BucketManagerImpl.cpp\<close>, the state in \<open>history/HistoryArchive.cpp\<close>): shared
    buckets, their files, and the saved form of the list.
  \<^item> \<open>Ledger_Header\<close>, \<open>Ledger_Delta\<close> (\<open>ledger/LedgerHeaderFrame.cpp\<close>, \<open>LedgerDelta.cpp\<close>): the header, the
    log of changes, nested logs. Shown: committing an inner delta composes the changes; the log is
    exactly the difference; what a ledger reports to the bucket list brings the list in line with
    the delta; a finished delta refuses everything.
  \<^item> \<open>Database\<close>, \<open>Account_Frame\<close>, \<open>Trust_Frame\<close>, \<open>Offer_Frame\<close>, \<open>Entry_Frame\<close> (\<open>ledger/*Frame.cpp\<close>): the
    tables with their constraints, and the frames that load and store. Shown: every store keeps the
    tables and the delta in step, with the cases where the code does not.
  \<^item> \<open>Offer_Exchange\<close> (\<open>transactions/OfferExchange.cpp\<close>): crossing offers. Shown: the amounts of an
    exchange, that a conversion stays within its limits, and that it ends. The loop has fuel: one
    more than the number of offers, and that is proved to be enough.
  \<^item> \<open>Transaction_Types\<close>, \<open>Operations\<close>, \<open>Transaction_Frame\<close> (\<open>transactions\<close>): all operations, signatures,
    validation, fees, application. \<open>Signatures\<close>, \<open>Coins\<close>, \<open>Delta_Invariant\<close>, \<open>Transaction_Props\<close>,
    \<open>Operation_Props\<close> show: the weight a set of signatures is given; that a transaction conserves the
    native coins, and when it does not; that a failed one charges its fee and nothing else; and what
    single operations do wrong.
  \<^item> \<open>Tx_Set\<close> (\<open>herder/TxSetFrame.cpp\<close>): sorting, trimming and checking a set of transactions. Shown: the
    order of application keeps the sequence of each account; what trimming leaves passes the check.
  \<^item> \<open>Ledger_Manager\<close> (\<open>ledger/LedgerManagerImpl.cpp\<close>, \<open>main/PersistentState.cpp\<close>), with \<open>Ledger_Props\<close> and
    \<open>Catchup\<close>: starting, closing ledgers, restarting, following the network. Shown: the headers of every
    state a node can reach form one chain from the first ledger, across restarts, broken only where a minimal catch-up
    jumped to a ledger of an archive; ledgers buffered
    during a catch-up are closed in order when it succeeds; a failed one leaves the node stuck. The code reads the last
    buffered ledger through a reference that is dangling there; what it reads is a parameter of the model.
  \<^item> \<open>SCP_Node\<close>, \<open>SCP_Slot\<close>, \<open>SCP_Instance\<close> (\<open>scp\<close>): quorum sets and their caches, the slot with all its
    handlers, the nodes and slots known. A handler is a call over the slot and the nodes; answers the
    user of the library gives later are calls of their own. \<open>SCP_Quorum\<close> shows that the tests for
    quorums and blocking sets are exact. \<open>SCP_Refine\<close> gives what a slot may do as a step relation and
    shows that the handlers are sequences of such steps. \<open>SCP_Agreement\<close> puts nodes into a network in
    which some are honest, and shows that honest nodes agree. \<open>SCP_Props\<close> adds that a value is
    externalised at most once, and two ways a slot comes to a bad end. \<open>advanceSlot\<close> calls itself again
    as long as something changed; the model gives it fuel, and what is said of the states it goes
    through holds for every amount.

  \<^item> \<open>Pending_Envelopes\<close>, \<open>Herder\<close> (\<open>herder/PendingEnvelopes.cpp\<close>, \<open>HerderImpl.cpp\<close>), with \<open>Herder_Props\<close>: the
    herder gives the consensus protocol its values. It holds envelopes until what they refer to is there,
    orders and checks values and ballots, keeps the transactions that wait, proposes the next set and
    hands over the one agreed on. Shown: values that are not empty are ordered by one key; a ballot that passes the check has a
    counter the time since the last ledger allows; an invariant of the queues over all its calls; what a node
    proposes passes its own check exactly when its close time is at most a minute ahead of the clock; a transaction that is never taken blocks its account.
  \<^item> \<open>Timer\<close> (\<open>util/Timer.cpp\<close>): the queue of events of the clock and the timers. Shown: the clock takes off exactly the
    events that are due, in their order; a wait is called once, or still queued, or was
    made on a timer that had been cancelled, whatever the callbacks do themselves.
  \<^item> \<open>Item_Fetcher\<close> (\<open>overlay/ItemFetcher.cpp\<close>): asking the peers for transaction sets and quorum sets. Shown: a search asks
    every connected peer before it starts over; a listener is called when its item arrives.
  \<^item> \<open>Floodgate\<close>, \<open>Peer_Record\<close> (\<open>overlay/Floodgate.cpp\<close>, \<open>PeerRecord.cpp\<close>): passing messages on, and the nodes one could connect to. Shown: a
    message is sent to a peer at most once and not to one it came from; addresses survive being sent, stored and sent on, as long as the number of failures fits the column; when the waiting time
    overflows.
  \<^item> \<open>Overlay\<close> (\<open>overlay/Peer.cpp\<close>, \<open>TCPPeer.cpp\<close>, \<open>PeerDoor.cpp\<close>, \<open>OverlayManagerImpl.cpp\<close>), with \<open>Overlay_Props\<close>: connections, the handshake, the handlers of
    all messages, the list of connections. The herder is an interface here, a record of the calls the overlay makes. Shown: an invariant over all calls;
    that a peer gets no service before its hello; which peers exactly a tick connects to; that a set asked for arrives. \<open>Overlay_Herder\<close> puts the herder behind
    the interface: a transaction that the herder takes is sent to every other peer.
  \<^item> \<open>Base58\<close> (\<open>crypto/Base58.cpp\<close>, \<open>SecretKey.cpp\<close>): the printed form of keys. Shown: the change of base in 16-bit
    arithmetic never overflows and can be undone, leading zeros included; a seed that is printed is read back.
  \<^item> \<open>History_Files\<close>, \<open>Publish\<close> (\<open>util/Fs.cpp\<close>, \<open>history/FileTransferInfo.cpp\<close>, \<open>HistoryManagerImpl.cpp\<close>, \<open>PublishStateMachine.cpp\<close>), with \<open>Publish_Props\<close> and \<open>Publish_State\<close>: names of
    files, checkpoints, the queue of snapshots and the publisher of each archive. A command (compress, make a directory, put, get) is a request that is recorded; its
    answer is a call that comes later, in any order and with any outcome. Shown: a publisher writes the state of its archive only after it has put
    the buckets it lacks there, and after some publisher has put the files of the checkpoint; these files are shared and are sent at most once over all
    archives, so that a second archive never gets them. The loop over the
    files can start itself again from within; its fuel, the number of files, is proved to be enough.

  \<^bold>\<open>Interfaces.\<close> The contracts between components are locales, interpreted on the definitions above:
  \<open>shadow_merge\<close> (what the bucket list needs of a merge), \<open>change_log\<close> and \<open>replay_log\<close> (what adding,
  changing and deleting promise, kept by the delta and by the stores over the database),
  \<open>delta_invariant\<close> (what is kept of a delta is kept by every operation and transaction), \<open>std_sort\<close> and
  \<open>tx_sort\<close> (the sort of the C++ library, whose ties are open), \<open>priority_queue\<close> (the same for its queue),
  \<open>herder_service\<close> (what the overlay needs of the herder), \<open>quorum_slices\<close> (systems of quorum sets), \<open>base_change\<close> (one change of base, used in both directions).

  \<^bold>\<open>Not modelled.\<close> Sockets and buffers, the service for I/O of asio, subprocesses, the download and replay of
  archives (\<open>history/CatchupStateMachine.cpp\<close>), HTTP commands, the reading of configuration files, logging and metrics: input and output only. The SQL
  engine beyond the statements used, XDR encodings, the functions of libsodium, and the libraries under
  \<open>src/lib\<close>, except the cache they provide.
\<close>

end
